(* ===== verification/Prelude.thy ===== *)
theory Prelude
  imports Main "HOL-Library.Word" "HOL-Library.Sublist" "HOL-Library.Char_ord" "HOL-Library.List_Lexorder"
begin

text \<open>
  What the Rust sources use of the language and its standard library, shared by
  the component theories:
  \<^item> machine integers as words, with the saturating and checked operations of
    \<^verbatim>\<open>core::num\<close> and what they are on the numbers the words stand for;
  \<^item> strings as the byte sequences Rust keeps them as: a \<^verbatim>\<open>str\<close> is its UTF-8
    encoding, one \<^typ>\<open>char\<close> per byte, so \<^verbatim>\<open>starts_with\<close>, \<^verbatim>\<open>ends_with\<close>,
    \<^verbatim>\<open>contains\<close>, \<^verbatim>\<open>cmp\<close> and the \<^verbatim>\<open>ascii\<close> predicates are operations on
    lists of bytes, and \<^verbatim>\<open>trim\<close> removes the UTF-8 encodings of the
    characters with the Unicode property White\_Space;
  \<^item> \<^verbatim>\<open>str::parse\<close> for unsigned integers, with its optional sign and its
    overflow error;
  \<^item> \<^verbatim>\<open>Ordering\<close>, \<^verbatim>\<open>Result\<close> and the loops that several components share.
\<close>

named_theorems word_arith \<open>unat of the Rust integer operations\<close>

section \<open>Machine integers\<close>

type_synonym u8 = "8 word"
type_synonym u16 = "16 word"
type_synonym u32 = "32 word"
type_synonym u64 = "64 word"

definition saturating_add :: "'a::len word \<Rightarrow> 'a word \<Rightarrow> 'a word" where
  "saturating_add a b = (if unat a + unat b < 2 ^ LENGTH('a) then a + b else - 1)"

definition saturating_sub :: "'a::len word \<Rightarrow> 'a word \<Rightarrow> 'a word" where
  "saturating_sub a b = (if b \<le> a then a - b else 0)"

definition saturating_mul :: "'a::len word \<Rightarrow> 'a word \<Rightarrow> 'a word" where
  "saturating_mul a b = (if unat a * unat b < 2 ^ LENGTH('a) then a * b else - 1)"

definition checked_mul :: "'a::len word \<Rightarrow> 'a word \<Rightarrow> 'a word option" where
  "checked_mul a b = (if unat a * unat b < 2 ^ LENGTH('a) then Some (a * b) else None)"

definition checked_sub :: "'a::len word \<Rightarrow> 'a word \<Rightarrow> 'a word option" where
  "checked_sub a b = (if b \<le> a then Some (a - b) else None)"

text \<open>\<^verbatim>\<open>div_ceil\<close>: the quotient rounded up. It cannot overflow, and a zero divisor panics
  (callers rule it out).\<close>

definition div_ceil :: "'a::len word \<Rightarrow> 'a word \<Rightarrow> 'a word" where
  "div_ceil a b = (if a mod b = 0 then a div b else a div b + 1)"

lemma unat_minus_one_max [word_arith]: "unat (- 1 :: 'a::len word) = 2 ^ LENGTH('a) - 1"
  by (simp add: unsigned_minus_1_eq_mask mask_eq_exp_minus_1)

lemma unat_saturating_add [word_arith]:
  "unat (saturating_add a b :: 'a::len word) = min (unat a + unat b) (2 ^ LENGTH('a) - 1)"
  by (auto simp: saturating_add_def unat_word_ariths unat_minus_one_max)

lemma unat_saturating_mul [word_arith]:
  "unat (saturating_mul a b :: 'a::len word) = min (unat a * unat b) (2 ^ LENGTH('a) - 1)"
  by (auto simp: saturating_mul_def unat_word_ariths unat_minus_one_max)

lemma unat_saturating_sub [word_arith]:
  "unat (saturating_sub a b :: 'a::len word) = unat a - unat b"
  by (auto simp: saturating_sub_def unat_sub word_le_nat_alt)

lemma checked_mul_Some [word_arith]:
  "checked_mul a b = Some c \<Longrightarrow> unat c = unat a * unat b"
  by (auto simp: checked_mul_def unat_word_ariths split: if_splits)

lemma checked_sub_Some [word_arith]:
  "checked_sub a b = Some c \<Longrightarrow> unat c + unat b = unat a"
  by (auto simp: checked_sub_def unat_sub word_le_nat_alt split: if_splits)

lemma nat_div_ceil:
  fixes a b :: nat
  assumes "0 < b"
  shows "(a + b - 1) div b = (if a mod b = 0 then a div b else a div b + 1)"
proof -
  obtain q r where a: "a = b * q + r" and r: "r < b"
    using assms by (metis mult_div_mod_eq mod_less_divisor)
  then have q: "a div b = q" and m: "a mod b = r" by (simp_all add: div_nat_eqI)
  show ?thesis
  proof (cases "r = 0")
    case True
    with a assms have "(a + b - 1) div b = q" by (intro div_nat_eqI) auto
    with True q m show ?thesis by simp
  next
    case False
    with a r have "(a + b - 1) div b = q + 1" by (intro div_nat_eqI) auto
    with False q m show ?thesis by simp
  qed
qed

lemma unat_div_ceil [word_arith]:
  assumes "b \<noteq> (0 :: 'a::len word)"
  shows "unat (div_ceil a b) = (unat a + unat b - 1) div unat b"
proof -
  have b: "0 < unat b" using assms by (simp add: unat_gt_0)
  have z: "a mod b = 0 \<longleftrightarrow> unat a mod unat b = 0"
    by (metis unat_eq_zero unat_mod_distrib)
  have "unat (a div b + 1) = unat a div unat b + 1" if "a mod b \<noteq> 0"
  proof -
    from that z have "unat b \<noteq> 1" by auto
    with b have "2 \<le> unat b" by simp
    then have "2 * (unat a div unat b) \<le> unat a"
      by (metis div_times_less_eq_dividend le_trans mult.commute mult_le_mono2)
    moreover have "unat a < 2 ^ LENGTH('a)" by simp
    moreover have "0 < unat a" using that z by (metis gr0I mod_0)
    ultimately have "Suc (unat a div unat b) < 2 ^ LENGTH('a)" by linarith
    then show ?thesis
      by (simp add: unat_word_ariths unat_div_distrib)
  qed
  then show ?thesis
    unfolding nat_div_ceil [OF b] div_ceil_def z by (simp add: z unat_div_distrib)
qed

section \<open>Strings\<close>

text \<open>The ASCII predicates of \<^verbatim>\<open>char\<close> and \<^verbatim>\<open>u8\<close>. A byte of a multi-byte UTF-8
  sequence is at least 128, so on bytes and on characters they agree.\<close>

definition is_ascii_digit :: "char \<Rightarrow> bool" where
  "is_ascii_digit c \<longleftrightarrow> CHR ''0'' \<le> c \<and> c \<le> CHR ''9''"

definition is_ascii_upper :: "char \<Rightarrow> bool" where
  "is_ascii_upper c \<longleftrightarrow> CHR ''A'' \<le> c \<and> c \<le> CHR ''Z''"

definition is_ascii_lower :: "char \<Rightarrow> bool" where
  "is_ascii_lower c \<longleftrightarrow> CHR ''a'' \<le> c \<and> c \<le> CHR ''z''"

definition is_ascii_alphanumeric :: "char \<Rightarrow> bool" where
  "is_ascii_alphanumeric c \<longleftrightarrow> is_ascii_digit c \<or> is_ascii_upper c \<or> is_ascii_lower c"

definition to_ascii_lowercase :: "string \<Rightarrow> string" where
  "to_ascii_lowercase = map (\<lambda>c. if is_ascii_upper c then char_of (of_char c + 32 :: nat) else c)"

text \<open>\<^verbatim>\<open>str::contains\<close> with a string pattern: \<^verbatim>\<open>t\<close> occurs as a block of \<^verbatim>\<open>s\<close>.\<close>

fun str_contains :: "'a list \<Rightarrow> 'a list \<Rightarrow> bool" where
  "str_contains [] t \<longleftrightarrow> t = []"
| "str_contains (c # s) t \<longleftrightarrow> prefix t (c # s) \<or> str_contains s t"

fun strip_prefix :: "'a list \<Rightarrow> 'a list \<Rightarrow> 'a list option" where
  "strip_prefix [] s = Some s"
| "strip_prefix (p # ps) [] = None"
| "strip_prefix (p # ps) (c # cs) = (if p = c then strip_prefix ps cs else None)"

lemma strip_prefix_Some_iff: "strip_prefix p s = Some r \<longleftrightarrow> s = p @ r"
  by (induction p s rule: strip_prefix.induct) auto

lemma strip_prefix_append [simp]: "strip_prefix p (p @ r) = Some r"
  by (simp add: strip_prefix_Some_iff)

text \<open>\<^verbatim>\<open>str::ends_with\<close>.\<close>

definition ends_with :: "'a list \<Rightarrow> 'a list \<Rightarrow> bool" where
  "ends_with s t \<longleftrightarrow> length t \<le> length s \<and> drop (length s - length t) s = t"

lemma ends_with_iff: "ends_with s t \<longleftrightarrow> (\<exists>p. s = p @ t)"
proof
  assume "ends_with s t"
  then have "s = take (length s - length t) s @ t"
    by (metis append_take_drop_id ends_with_def)
  then show "\<exists>p. s = p @ t" ..
qed (auto simp: ends_with_def)

text \<open>\<^verbatim>\<open>str::split_once\<close> on a character: what is before and after its first occurrence.\<close>

fun split_once :: "char \<Rightarrow> string \<Rightarrow> (string \<times> string) option" where
  "split_once d [] = None"
| "split_once d (c # s) =
     (if c = d then Some ([], s)
      else map_option (\<lambda>(h, t). (c # h, t)) (split_once d s))"

lemma split_once_Some:
  "split_once d s = Some (h, t) \<longleftrightarrow> s = h @ d # t \<and> d \<notin> set h"
proof (induction s arbitrary: h)
  case (Cons c s)
  show ?case
  proof (cases h)
    case Nil
    then show ?thesis by auto
  next
    case h: (Cons x h')
    show ?thesis unfolding h using Cons.IH [of h'] by auto
  qed
qed simp

text \<open>\<^verbatim>\<open>str::trim\<close>. The characters with the property White\_Space and their encodings:
  U+0009..U+000D and U+0020 (one byte), U+0085 and U+00A0 (C2 85, C2 A0), U+1680 (E1 9A 80),
  U+2000..U+200A, U+2028, U+2029, U+202F (E2 80 80..8A, A8, A9, AF), U+205F (E2 81 9F),
  U+3000 (E3 80 80).\<close>

definition ws1 :: "nat \<Rightarrow> bool" where
  "ws1 a \<longleftrightarrow> 9 \<le> a \<and> a \<le> 13 \<or> a = 32"

definition ws2 :: "nat \<Rightarrow> nat \<Rightarrow> bool" where
  "ws2 a b \<longleftrightarrow> a = 194 \<and> (b = 133 \<or> b = 160)"

definition ws3 :: "nat \<Rightarrow> nat \<Rightarrow> nat \<Rightarrow> bool" where
  "ws3 a b c \<longleftrightarrow>
     a = 225 \<and> b = 154 \<and> c = 128 \<or>
     a = 226 \<and> b = 128 \<and> (128 \<le> c \<and> c \<le> 138 \<or> c = 168 \<or> c = 169 \<or> c = 175) \<or>
     a = 226 \<and> b = 129 \<and> c = 159 \<or>
     a = 227 \<and> b = 128 \<and> c = 128"

fun trim_start :: "string \<Rightarrow> string" where
  "trim_start (a # b # c # s) =
     (if ws1 (of_char a) then trim_start (b # c # s)
      else if ws2 (of_char a) (of_char b) then trim_start (c # s)
      else if ws3 (of_char a) (of_char b) (of_char c) then trim_start s
      else a # b # c # s)"
| "trim_start [a, b] =
     (if ws1 (of_char a) then trim_start [b]
      else if ws2 (of_char a) (of_char b) then [] else [a, b])"
| "trim_start [a] = (if ws1 (of_char a) then [] else [a])"
| "trim_start [] = []"

text \<open>The end of the string, read backwards: the bytes of an encoding come in reverse.\<close>

fun trim_rev :: "string \<Rightarrow> string" where
  "trim_rev (c # b # a # s) =
     (if ws1 (of_char c) then trim_rev (b # a # s)
      else if ws2 (of_char b) (of_char c) then trim_rev (a # s)
      else if ws3 (of_char a) (of_char b) (of_char c) then trim_rev s
      else c # b # a # s)"
| "trim_rev [c, b] =
     (if ws1 (of_char c) then trim_rev [b]
      else if ws2 (of_char b) (of_char c) then [] else [c, b])"
| "trim_rev [c] = (if ws1 (of_char c) then [] else [c])"
| "trim_rev [] = []"

definition trim_end :: "string \<Rightarrow> string" where
  "trim_end s = rev (trim_rev (rev s))"

definition trim :: "string \<Rightarrow> string" where
  "trim s = trim_end (trim_start s)"

text \<open>\<^verbatim>\<open>str::split_whitespace\<close>: the maximal runs between white space. \<^verbatim>\<open>ws_len\<close> is the
  length of the encoding of the white space character a string starts with, 0 without one.\<close>

fun ws_len :: "string \<Rightarrow> nat" where
  "ws_len (a # b # c # s) =
     (if ws1 (of_char a) then 1
      else if ws2 (of_char a) (of_char b) then 2
      else if ws3 (of_char a) (of_char b) (of_char c) then 3 else 0)"
| "ws_len [a, b] = (if ws1 (of_char a) then 1 else if ws2 (of_char a) (of_char b) then 2 else 0)"
| "ws_len [a] = (if ws1 (of_char a) then 1 else 0)"
| "ws_len [] = 0"

definition emit_word :: "string \<Rightarrow> string list" where
  "emit_word w = (if w = [] then [] else [w])"

function split_ws :: "string \<Rightarrow> string \<Rightarrow> string list" where
  "split_ws w [] = emit_word w"
| "split_ws w (c # s) =
     (if ws_len (c # s) = 0 then split_ws (w @ [c]) s
      else emit_word w @ split_ws [] (drop (ws_len (c # s)) (c # s)))"
  by pat_completeness auto
termination by (relation "measure (\<lambda>(w, s). length s)") auto

definition split_whitespace :: "string \<Rightarrow> string list" where
  "split_whitespace s = split_ws [] s"

section \<open>Numbers as text\<close>

text \<open>\<^verbatim>\<open>str::parse\<close> for an unsigned type of \<^verbatim>\<open>w\<close> bits: an optional \<^verbatim>\<open>+\<close>, at least one digit,
  digits only, and an error when the value does not fit.\<close>

definition digit_val :: "char \<Rightarrow> nat" where
  "digit_val c = of_char c - 48"

definition digits_val :: "string \<Rightarrow> nat" where
  "digits_val = foldl (\<lambda>n c. 10 * n + digit_val c) 0"

definition parse_uint :: "nat \<Rightarrow> string \<Rightarrow> nat option" where
  "parse_uint w s =
     (let ds = (case strip_prefix ''+'' s of Some r \<Rightarrow> r | None \<Rightarrow> s)
      in if ds \<noteq> [] \<and> list_all is_ascii_digit ds \<and> digits_val ds < 2 ^ w
         then Some (digits_val ds) else None)"

lemma parse_uint_bound: "parse_uint w s = Some n \<Longrightarrow> n < 2 ^ w"
  by (auto simp: parse_uint_def Let_def split: if_splits)

text \<open>\<^verbatim>\<open>format!("{n}")\<close> and \<^verbatim>\<open>format!("{n:0w}")\<close>: decimal digits, left-padded with zeros.\<close>

definition digit_char :: "nat \<Rightarrow> char" where
  "digit_char d = char_of (48 + d)"

fun show_nat :: "nat \<Rightarrow> string" where
  "show_nat n = (if n < 10 then [digit_char n] else show_nat (n div 10) @ [digit_char (n mod 10)])"

declare show_nat.simps [simp del]

definition fmt_pad :: "nat \<Rightarrow> nat \<Rightarrow> string" where
  "fmt_pad w n = replicate (w - length (show_nat n)) (CHR ''0'') @ show_nat n"

lemma of_char_digit_char [simp]: "d < 10 \<Longrightarrow> of_char (digit_char d) = 48 + d"
  by (simp add: digit_char_def)

lemma digit_char_digit [simp]: "d < 10 \<Longrightarrow> is_ascii_digit (digit_char d)"
  by (simp add: is_ascii_digit_def less_eq_char_def)

lemma digit_val_digit_char [simp]: "d < 10 \<Longrightarrow> digit_val (digit_char d) = d"
  by (simp add: digit_val_def)

lemma digits_val_snoc [simp]: "digits_val (s @ [c]) = 10 * digits_val s + digit_val c"
  by (simp add: digits_val_def)

lemma digits_val_Nil [simp]: "digits_val [] = 0"
  by (simp add: digits_val_def)

lemma digits_val_zeros [simp]: "digits_val (replicate k (CHR ''0'') @ s) = digits_val s"
proof (induction s rule: rev_induct)
  case Nil
  show ?case
    by (induction k) (simp_all add: replicate_append_same [symmetric] digit_val_def del: replicate.simps(2),
      simp flip: replicate_append_same add: digit_val_def)
next
  case (snoc c s)
  then show ?case by (simp flip: append_assoc)
qed

lemma show_nat_digits: "list_all is_ascii_digit (show_nat n)"
  by (induction n rule: show_nat.induct) (subst show_nat.simps, simp)

lemma digits_val_show_nat [simp]: "digits_val (show_nat n) = n"
proof (induction n rule: show_nat.induct)
  case (1 n)
  then show ?case
    by (subst show_nat.simps) (auto simp: digits_val_def)
qed

lemma length_show_nat: "0 < w \<Longrightarrow> length (show_nat n) \<le> w \<longleftrightarrow> n < 10 ^ w"
proof (induction w arbitrary: n)
  case (Suc w)
  show ?case
  proof (cases "n < 10")
    case True
    moreover have "(10::nat) \<le> 10 ^ Suc w" by simp
    ultimately have "n < 10 ^ Suc w" by linarith
    with True show ?thesis by (subst show_nat.simps) simp
  next
    case False
    show ?thesis
    proof (cases "w = 0")
      case True
      with False show ?thesis by (subst show_nat.simps) (subst show_nat.simps, auto)
    next
      case w: False
      have "length (show_nat n) \<le> Suc w \<longleftrightarrow> length (show_nat (n div 10)) \<le> w"
        using False by (subst show_nat.simps) simp
      also have "\<dots> \<longleftrightarrow> n div 10 < 10 ^ w" using Suc.IH w by simp
      also have "\<dots> \<longleftrightarrow> n < 10 ^ Suc w" by (simp add: div_less_iff_less_mult mult.commute)
      finally show ?thesis .
    qed
  qed
qed simp

lemma fmt_pad_facts:
  "list_all is_ascii_digit (fmt_pad w n)"
  "digits_val (fmt_pad w n) = n"
  "0 < w \<Longrightarrow> n < 10 ^ w \<Longrightarrow> length (fmt_pad w n) = w"
  using length_show_nat [of w n] show_nat_digits [of n]
  by (auto simp: fmt_pad_def is_ascii_digit_def list_all_iff)

text \<open>Printable ASCII text is left alone by \<^verbatim>\<open>trim\<close>, digits by \<^verbatim>\<open>to_ascii_lowercase\<close>.\<close>

definition ascii_graphic :: "char \<Rightarrow> bool" where
  "ascii_graphic c \<longleftrightarrow> 33 \<le> (of_char c :: nat) \<and> (of_char c :: nat) < 127"

lemma ascii_graphic_ws [simp]:
  "ascii_graphic a \<Longrightarrow> \<not> ws1 (of_char a)"
  "ascii_graphic a \<Longrightarrow> \<not> ws2 (of_char a) b"
  "ascii_graphic a \<Longrightarrow> \<not> ws2 b (of_char a)"
  "ascii_graphic a \<Longrightarrow> \<not> ws3 (of_char a) b c"
  "ascii_graphic a \<Longrightarrow> \<not> ws3 b c (of_char a)"
  by (auto simp: ascii_graphic_def ws1_def ws2_def ws3_def)

lemma trim_start_graphic: "s = [] \<or> ascii_graphic (hd s) \<Longrightarrow> trim_start s = s"
  by (cases s rule: trim_start.cases) auto

lemma trim_rev_graphic: "s = [] \<or> ascii_graphic (hd s) \<Longrightarrow> trim_rev s = s"
  by (cases s rule: trim_rev.cases) auto

lemma trim_graphic: "list_all ascii_graphic s \<Longrightarrow> trim s = s"
proof -
  have hd: "list_all ascii_graphic t \<Longrightarrow> t = [] \<or> ascii_graphic (hd t)" for t
    by (cases t) auto
  assume "list_all ascii_graphic s"
  then have "s = [] \<or> ascii_graphic (hd s)" and "rev s = [] \<or> ascii_graphic (hd (rev s))"
    using hd [of s] hd [of "rev s"] by (simp_all add: list_all_rev)
  then show ?thesis
    unfolding trim_def trim_end_def by (simp only: trim_start_graphic trim_rev_graphic rev_rev_ident)
qed

lemma digit_graphic: "is_ascii_digit c \<Longrightarrow> ascii_graphic c"
  by (auto simp: is_ascii_digit_def less_eq_char_def ascii_graphic_def)

lemma digit_not_upper [simp]: "is_ascii_digit c \<Longrightarrow> \<not> is_ascii_upper c"
  by (auto simp: is_ascii_digit_def is_ascii_upper_def less_eq_char_def)

lemma to_ascii_lowercase_id: "list_all (\<lambda>c. \<not> is_ascii_upper c) s \<Longrightarrow> to_ascii_lowercase s = s"
  by (induction s) (auto simp: to_ascii_lowercase_def)

lemma to_ascii_lowercase_append [simp]:
  "to_ascii_lowercase (s @ t) = to_ascii_lowercase s @ to_ascii_lowercase t"
  by (simp add: to_ascii_lowercase_def)

lemma parse_uint_digits:
  "ds \<noteq> [] \<Longrightarrow> list_all is_ascii_digit ds \<Longrightarrow>
     parse_uint w ds = (if digits_val ds < 2 ^ w then Some (digits_val ds) else None)"
  by (cases ds) (auto simp: parse_uint_def is_ascii_digit_def less_eq_char_def)

lemma parse_uint_no_plus:
  "parse_uint w ds = Some n \<Longrightarrow> CHR ''+'' \<notin> set ds \<Longrightarrow>
     ds \<noteq> [] \<and> list_all is_ascii_digit ds \<and> digits_val ds = n \<and> n < 2 ^ w"
  by (cases ds) (auto simp: parse_uint_def Let_def split: if_splits option.splits)

lemma show_nat_nonempty [simp]: "show_nat n \<noteq> []"
  by (subst show_nat.simps) simp

lemma parse_uint_show_nat: "n < 2 ^ w \<Longrightarrow> parse_uint w (show_nat n) = Some n"
  by (simp add: parse_uint_digits show_nat_digits)

text \<open>Words of printable ASCII, separated by single spaces, are read back by
  \<^verbatim>\<open>split_whitespace\<close>.\<close>

lemma ws_len_graphic: "ascii_graphic c \<Longrightarrow> ws_len (c # s) = 0"
  by (cases "c # s" rule: ws_len.cases) auto

lemma ws_len_space: "ws_len (CHR '' '' # s) = 1"
  by (cases "CHR '' '' # s" rule: ws_len.cases) (auto simp: ws1_def)

lemma split_ws_word:
  "list_all ascii_graphic v \<Longrightarrow> split_ws w (v @ s) = split_ws (w @ v) s"
  by (induction v arbitrary: w) (simp_all add: ws_len_graphic)

lemma split_ws_space: "split_ws w (CHR '' '' # s) = emit_word w @ split_ws [] s"
  by (simp add: ws_len_space)

lemma split_ws_words:
  assumes "\<And>f. f \<in> set fs \<Longrightarrow> f \<noteq> [] \<and> list_all ascii_graphic f" "\<And>w. split_ws w s = emit_word w"
  shows "split_ws [] (concat (map (\<lambda>f. CHR '' '' # f) fs) @ s) = fs"
proof -
  have "split_ws w (concat (map (\<lambda>f. CHR '' '' # f) fs) @ s) = emit_word w @ fs" for w
    using assms(1)
  proof (induction fs arbitrary: w)
    case Nil
    show ?case by (simp add: assms(2))
  next
    case (Cons f fs)
    then show ?case
      by (simp only: concat.simps list.map append_Cons append_assoc split_ws_space)
        (simp add: split_ws_word emit_word_def)
  qed
  then show ?thesis by (simp add: emit_word_def)
qed

lemma split_ws_newline: "split_ws w ''\<newline>'' = emit_word w"
  by (simp add: ws1_def emit_word_def)

section \<open>Orderings\<close>

datatype ordering = Less | Equal | Greater

definition cmp :: "'a::linorder \<Rightarrow> 'a \<Rightarrow> ordering" where
  "cmp a b = (if a < b then Less else if a = b then Equal else Greater)"

primrec then_with :: "ordering \<Rightarrow> ordering \<Rightarrow> ordering" where
  "then_with Less o2 = Less"
| "then_with Equal o2 = o2"
| "then_with Greater o2 = Greater"

primrec reverse_ord :: "ordering \<Rightarrow> ordering" where
  "reverse_ord Less = Greater"
| "reverse_ord Equal = Equal"
| "reverse_ord Greater = Less"

lemma cmp_simps [simp]:
  "cmp a a = Equal"
  "cmp a b = Equal \<longleftrightarrow> a = b"
  "cmp a b = Less \<longleftrightarrow> a < b"
  "cmp a b = Greater \<longleftrightarrow> b < a"
  by (auto simp: cmp_def)

lemma reverse_cmp: "reverse_ord (cmp a b) = cmp b a"
  by (auto simp: cmp_def)

lemma then_with_eq [simp]:
  "then_with a b = Equal \<longleftrightarrow> a = Equal \<and> b = Equal"
  "then_with a b = Less \<longleftrightarrow> a = Less \<or> a = Equal \<and> b = Less"
  "then_with a b = Greater \<longleftrightarrow> a = Greater \<or> a = Equal \<and> b = Greater"
  by (cases a; simp)+

text \<open>\<^verbatim>\<open>Iterator::max_by\<close>: the last maximal element of a non-empty sequence.\<close>

fun max_by :: "('a \<Rightarrow> 'a \<Rightarrow> ordering) \<Rightarrow> 'a list \<Rightarrow> 'a option" where
  "max_by compare [] = None"
| "max_by compare (x # xs) = Some (foldl (\<lambda>m y. if compare m y = Greater then m else y) x xs)"

text \<open>What a comparison function owes its callers: \<^verbatim>\<open>sort_by\<close> and \<^verbatim>\<open>max_by\<close> have a defined
  result only for a total order.\<close>

locale total_cmp =
  fixes compare :: "'a \<Rightarrow> 'a \<Rightarrow> ordering"
  assumes compare_equal: "compare a b = Equal \<longleftrightarrow> a = b"
    and compare_flip: "compare b a = reverse_ord (compare a b)"
    and compare_trans: "compare a b = Less \<Longrightarrow> compare b c = Less \<Longrightarrow> compare a c = Less"
begin

lemma greater_less: "compare a b = Greater \<longleftrightarrow> compare b a = Less"
proof -
  have "compare b a = reverse_ord (compare a b)" by (rule compare_flip)
  then show ?thesis by (cases "compare a b") simp_all
qed

lemma cmp_le_trans: "compare a b \<noteq> Greater \<Longrightarrow> compare b c \<noteq> Greater \<Longrightarrow> compare a c \<noteq> Greater"
  by (metis compare_equal compare_trans greater_less ordering.exhaust ordering.distinct)

lemma fold_max:
  "let m = foldl (\<lambda>m y. if compare m y = Greater then m else y) x xs
   in m \<in> set (x # xs) \<and> (\<forall>y \<in> set (x # xs). compare y m \<noteq> Greater)"
proof (induction xs arbitrary: x)
  case Nil
  show ?case using compare_equal [of x x] by simp
next
  case (Cons y ys)
  let ?z = "if compare x y = Greater then x else y"
  let ?m = "foldl (\<lambda>m y. if compare m y = Greater then m else y) ?z ys"
  from Cons [of ?z] have m: "?m \<in> set (?z # ys)" and u: "\<forall>w \<in> set (?z # ys). compare w ?m \<noteq> Greater"
    by (auto simp: Let_def)
  have "compare x ?z \<noteq> Greater" and "compare y ?z \<noteq> Greater"
    using compare_equal [of x x] compare_equal [of y y] greater_less [of x y] by auto
  moreover from u have "compare ?z ?m \<noteq> Greater" by simp
  ultimately have "compare x ?m \<noteq> Greater" and "compare y ?m \<noteq> Greater"
    using cmp_le_trans [of x ?z ?m] cmp_le_trans [of y ?z ?m] by simp_all
  with m u show ?case by (auto simp: Let_def split: if_splits)
qed

lemma max_by_Some:
  assumes "max_by compare xs = Some m"
  shows "m \<in> set xs" and "x \<in> set xs \<Longrightarrow> compare x m \<noteq> Greater"
proof -
  from assms obtain a as where xs: "xs = a # as" by (cases xs) auto
  with assms fold_max [of a as] show "m \<in> set xs" and "x \<in> set xs \<Longrightarrow> compare x m \<noteq> Greater"
    by (auto simp: Let_def)
qed

text \<open>The newest candidate does not depend on the order the candidates are listed in.\<close>

lemma max_by_set_eq:
  assumes "set xs = set ys"
  shows "max_by compare xs = max_by compare ys"
proof (cases "xs = []")
  case True
  with assms show ?thesis by simp
next
  case False
  with assms have "ys \<noteq> []" by auto
  with False obtain m n where m: "max_by compare xs = Some m" and n: "max_by compare ys = Some n"
    by (cases xs; cases ys) auto
  from max_by_Some [OF m] max_by_Some [OF n] assms
  have "compare m n \<noteq> Greater" and "compare n m \<noteq> Greater" by auto
  then have "m = n"
    using compare_equal [of m n] greater_less [of n m] by (cases "compare m n") auto
  with m n show ?thesis by simp
qed

end

interpretation linord: total_cmp "cmp :: 'a::linorder \<Rightarrow> 'a \<Rightarrow> ordering"
  by unfold_locales (auto simp: reverse_cmp)

section \<open>Lists\<close>

lemma map_filter_append [simp]:
  "List.map_filter f (xs @ ys) = List.map_filter f xs @ List.map_filter f ys"
  by (induction xs) (auto simp: map_filter_simps split: option.split)

lemma map_filter_cong: "(\<And>x. x \<in> set xs \<Longrightarrow> f x = g x) \<Longrightarrow> List.map_filter f xs = List.map_filter g xs"
  by (induction xs) (auto simp: map_filter_simps split: option.split)

section \<open>Results\<close>

text \<open>\<^verbatim>\<open>?\<close> on a \<^verbatim>\<open>Result\<close>: an error leaves the function at once.\<close>

fun bind_result :: "'e + 'a \<Rightarrow> ('a \<Rightarrow> 'e + 'b) \<Rightarrow> 'e + 'b" where
  "bind_result (Inl e) f = Inl e"
| "bind_result (Inr a) f = f a"

lemma bind_result_Inr_iff [simp]:
  "bind_result r f = Inr b \<longleftrightarrow> (\<exists>a. r = Inr a \<and> f a = Inr b)"
  by (cases r) auto

lemma bind_result_Inl_iff:
  "bind_result r f = Inl e \<longleftrightarrow> r = Inl e \<or> (\<exists>a. r = Inr a \<and> f a = Inl e)"
  by (cases r) auto

end
