(* ===== verification/Terminal.thy ===== *)
theory Terminal
  imports Prelude
begin

text \<open>
  \<^verbatim>\<open>crates/rocm-core/src/terminal.rs\<close>: what is done with untrusted terminal output. One
  ECMA-48 walk (\<open>next_token\<close>) classifies the input; \<open>strip_terminal_control_sequences\<close> keeps
  the text of it, \<open>rendered_lines\<close> the rows a terminal would have drawn, and
  \<open>quotable_in_single_quotes\<close> decides what may be pasted into a shell word.
  A \<^verbatim>\<open>char\<close> is a Unicode scalar value, here a number; a text is the list its \<^verbatim>\<open>chars()\<close>
  yield, so the peekable iterator is the list of what is still to be read.
\<close>

type_synonym scalar = nat

abbreviation ESC :: scalar where "ESC \<equiv> 27"
abbreviation BEL :: scalar where "BEL \<equiv> 7"
abbreviation TAB :: scalar where "TAB \<equiv> 9"

datatype token = Text scalar | LineBreak | Ignorable

section \<open>Character classes\<close>

text \<open>\<^verbatim>\<open>char::is_control\<close> is the category Cc: C0, DEL and C1.\<close>

definition is_control :: "scalar \<Rightarrow> bool" where
  "is_control c \<longleftrightarrow> c \<le> 31 \<or> 127 \<le> c \<and> c \<le> 159"

definition between :: "scalar \<Rightarrow> scalar \<Rightarrow> scalar \<Rightarrow> bool" where
  "between lo hi c \<longleftrightarrow> lo \<le> c \<and> c \<le> hi"

definition is_control_or_format :: "scalar \<Rightarrow> bool" where
  "is_control_or_format c \<longleftrightarrow>
     is_control c
     \<or> c = 0x00ad
     \<or> between 0x0600 0x0605 c
     \<or> c = 0x061c
     \<or> c = 0x06dd
     \<or> c = 0x070f
     \<or> between 0x0890 0x0891 c
     \<or> c = 0x08e2
     \<or> c = 0x180e
     \<or> between 0x200b 0x200f c
     \<or> between 0x202a 0x202e c
     \<or> between 0x2060 0x2064 c
     \<or> between 0x2066 0x206f c
     \<or> c = 0xfeff
     \<or> between 0xfff9 0xfffb c
     \<or> c = 0x110bd
     \<or> c = 0x110cd
     \<or> between 0x13430 0x1343f c
     \<or> between 0x1bca0 0x1bca3 c
     \<or> between 0x1d173 0x1d17a c
     \<or> c = 0xe0001
     \<or> between 0xe0020 0xe007f c"

definition is_control_or_line_separator :: "scalar \<Rightarrow> bool" where
  "is_control_or_line_separator c \<longleftrightarrow> is_control c \<or> c = 0x2028 \<or> c = 0x2029"

definition quotable_in_single_quotes :: "scalar list \<Rightarrow> bool" where
  "quotable_in_single_quotes symptom \<longleftrightarrow>
     39 \<notin> set symptom \<and>
     \<not> list_ex (\<lambda>c. is_control_or_format c \<or> is_control_or_line_separator c) symptom"

section \<open>The walk\<close>

definition classify_char :: "scalar \<Rightarrow> token" where
  "classify_char c =
     (if c = TAB then Text c
      else if is_control_or_line_separator c then LineBreak
      else if is_control_or_format c then Ignorable
      else Text c)"

definition skip_csi_body :: "scalar list \<Rightarrow> bool \<times> scalar list" where
  "skip_csi_body chars =
     (let r1 = dropWhile (between 0x30 0x3f) chars;
          r2 = dropWhile (between 0x20 0x2f) r1
      in case r2 of
           [] \<Rightarrow> (False, [])
         | c # r \<Rightarrow> if between 0x40 0x7e c then (c = 109, r) else (False, c # r))"

fun skip_string_sequence_body :: "scalar list \<Rightarrow> scalar list" where
  "skip_string_sequence_body [] = []"
| "skip_string_sequence_body (c # cs) =
     (if c = BEL then cs
      else if c = ESC then
        (case cs of [] \<Rightarrow> c # cs | d # ds \<Rightarrow> if d = 92 then ds else c # cs)
      else skip_string_sequence_body cs)"

definition skip_simple_escape_body :: "scalar list \<Rightarrow> scalar list" where
  "skip_simple_escape_body chars =
     (case dropWhile (between 0x20 0x2f) chars of
        [] \<Rightarrow> []
      | c # r \<Rightarrow> if between 0x30 0x7e c then r else c # r)"

text \<open>The introducers \<^verbatim>\<open>]\<close>, \<^verbatim>\<open>P\<close>, \<^verbatim>\<open>X\<close>, \<^verbatim>\<open>^\<close> and \<^verbatim>\<open>_\<close> (OSC, DCS, SOS, PM, APC).\<close>

definition string_introducer :: "scalar \<Rightarrow> bool" where
  "string_introducer c \<longleftrightarrow> c \<in> {93, 80, 88, 94, 95}"

fun next_token :: "scalar list \<Rightarrow> (token \<times> scalar list) option" where
  "next_token [] = None"
| "next_token (c # cs) =
     (if c \<noteq> ESC then Some (classify_char c, cs)
      else case cs of
        [] \<Rightarrow> Some (Ignorable, cs)
      | d # ds \<Rightarrow>
          if d = 91 then
            (let (sgr, r) = skip_csi_body ds in Some (if sgr then Ignorable else LineBreak, r))
          else if string_introducer d then Some (Ignorable, skip_string_sequence_body ds)
          else if d = ESC then Some (Ignorable, cs)
          else Some (LineBreak, skip_simple_escape_body cs))"

text \<open>One step consumes at least one character, so the loops over it end.\<close>

lemma skip_csi_body_le: "skip_csi_body cs = (sgr, r) \<Longrightarrow> length r \<le> length cs"
proof -
  assume eq: "skip_csi_body cs = (sgr, r)"
  let ?r = "dropWhile (between 0x20 0x2f) (dropWhile (between 0x30 0x3f) cs)"
  have "length ?r \<le> length cs"
    by (meson length_dropWhile_le le_trans)
  moreover have "length r \<le> length ?r"
  proof (cases ?r)
    case Nil
    with eq show ?thesis by (simp add: skip_csi_body_def)
  next
    case (Cons f fs)
    with eq have "r = fs \<or> r = f # fs" by (simp add: skip_csi_body_def split: if_splits)
    with Cons show ?thesis by auto
  qed
  ultimately show ?thesis by simp
qed

lemma skip_string_sequence_body_le: "length (skip_string_sequence_body cs) \<le> length cs"
  by (induction cs) (auto split: list.split)

lemma skip_simple_escape_body_le: "length (skip_simple_escape_body cs) \<le> length cs"
  using length_dropWhile_le [of "between 0x20 0x2f" cs]
  by (auto simp: skip_simple_escape_body_def split: list.split)

lemma next_token_progress: "next_token cs = Some (t, r) \<Longrightarrow> length r < length cs"
proof (cases cs)
  case (Cons c ds)
  assume "next_token cs = Some (t, r)"
  with Cons show ?thesis
    using skip_csi_body_le [of "tl ds" _ r] skip_string_sequence_body_le [of "tl ds"]
      skip_simple_escape_body_le [of ds]
    by (auto simp: Let_def less_Suc_eq_le split: if_splits list.splits prod.splits)
qed simp

text \<open>The \<^verbatim>\<open>while let Some(token) = next_token(..)\<close> loop the two readers share, over what the
  loop body does with a token.\<close>

function walk :: "(token \<Rightarrow> 's \<Rightarrow> 's) \<Rightarrow> 's \<Rightarrow> scalar list \<Rightarrow> 's" where
  "walk body s cs =
     (case next_token cs of None \<Rightarrow> s | Some (t, r) \<Rightarrow> walk body (body t s) r)"
  by pat_completeness auto
termination
  by (relation "measure (\<lambda>(body, s, cs). length cs)") (auto dest: next_token_progress)

declare walk.simps [simp del]

definition strip_terminal_control_sequences :: "scalar list \<Rightarrow> scalar list" where
  "strip_terminal_control_sequences line =
     walk (\<lambda>t out. case t of
             Text c \<Rightarrow> if \<not> is_control_or_format c then out @ [c] else out
           | _ \<Rightarrow> out) [] line"

definition push_last :: "'a list list \<Rightarrow> 'a \<Rightarrow> 'a list list" where
  "push_last ls c = (if ls = [] then ls else butlast ls @ [last ls @ [c]])"

definition rendered_lines :: "scalar list \<Rightarrow> scalar list list" where
  "rendered_lines text =
     walk (\<lambda>t lines. case t of
             Text c \<Rightarrow> push_last lines c
           | LineBreak \<Rightarrow> lines @ [[]]
           | Ignorable \<Rightarrow> lines) [[]] text"

section \<open>The tokens of a text\<close>

text \<open>The walk is a fold over the list of tokens, the abstraction every property below is
  stated through.\<close>

definition tokens :: "scalar list \<Rightarrow> token list" where
  "tokens cs = walk (\<lambda>t ts. ts @ [t]) [] cs"

lemma walk_fold: "walk body s cs = fold body (walk (\<lambda>t ts. ts @ [t]) [] cs) s"
proof -
  have acc: "walk (\<lambda>t ts. ts @ [t]) (as @ ts) cs = as @ walk (\<lambda>t ts. ts @ [t]) ts cs" for as ts cs
  proof (induction "\<lambda>t ts. ts @ [t :: token]" ts cs rule: walk.induct)
    case (1 ts cs)
    then show ?case
      by (subst (1 2) walk.simps) (auto split: option.split)
  qed
  show ?thesis
  proof (induction body s cs rule: walk.induct)
    case (1 body s cs)
    show ?case
    proof (cases "next_token cs")
      case None
      then show ?thesis by (simp add: walk.simps)
    next
      case (Some p)
      then obtain t r where p: "next_token cs = Some (t, r)" by (cases p) auto
      with "1" [OF p] have "walk body (body t s) r = fold body (walk (\<lambda>t ts. ts @ [t]) [] r) (body t s)"
        by simp
      moreover have "walk (\<lambda>t ts. ts @ [t]) [] cs = [t] @ walk (\<lambda>t ts. ts @ [t]) [] r"
        using acc [of "[t]" "[]" r] by (subst walk.simps) (simp add: p)
      ultimately show ?thesis
        by (subst walk.simps) (simp add: p)
    qed
  qed
qed

lemma walk_tokens: "walk body s cs = fold body (tokens cs) s"
  unfolding tokens_def by (rule walk_fold)

lemma tokens_simp:
  "tokens cs = (case next_token cs of None \<Rightarrow> [] | Some (t, r) \<Rightarrow> t # tokens r)"
proof (cases "next_token cs")
  case (Some p)
  then obtain t r where p: "next_token cs = Some (t, r)" by (cases p) auto
  then have "tokens cs = walk (\<lambda>t ts. ts @ [t]) [t] r"
    unfolding tokens_def by (subst walk.simps) simp
  also have "\<dots> = t # tokens r"
  proof -
    have "fold (\<lambda>t ts. ts @ [t]) ts as = as @ ts" for ts as :: "token list"
      by (induction ts arbitrary: as) auto
    then show ?thesis by (simp add: walk_tokens)
  qed
  finally show ?thesis by (simp add: p)
qed (simp add: tokens_def walk.simps)

lemma tokens_Nil [simp]: "tokens [] = []"
  by (simp add: tokens_simp)

lemma tokens_Cons [simp]: "c \<noteq> ESC \<Longrightarrow> tokens (c # cs) = classify_char c # tokens cs"
  by (simp add: tokens_simp [of "c # cs"])

lemma tokens_append: "ESC \<notin> set a \<Longrightarrow> tokens (a @ b) = map classify_char a @ tokens b"
  by (induction a) auto

text \<open>A string-argument sequence with a body free of its two ends draws nothing and breaks no
  line, whatever the body holds.\<close>

lemma skip_string_body:
  "BEL \<notin> set body \<Longrightarrow> ESC \<notin> set body \<Longrightarrow> skip_string_sequence_body (body @ BEL # r) = r"
  "BEL \<notin> set body \<Longrightarrow> ESC \<notin> set body \<Longrightarrow> skip_string_sequence_body (body @ ESC # 92 # r) = r"
  by (induction body) auto

lemma dropWhile_block:
  "list_all p xs \<Longrightarrow> \<not> p y \<Longrightarrow> dropWhile p (xs @ y # ys) = y # ys"
  by (induction xs) auto

lemma dropWhile_none: "ys = [] \<or> \<not> p (hd ys) \<Longrightarrow> dropWhile p ys = ys"
  by (cases ys) auto

lemma skip_csi_wellformed:
  assumes "list_all (between 0x30 0x3f) ps" and "list_all (between 0x20 0x2f) is"
    and "between 0x40 0x7e f"
  shows "skip_csi_body (ps @ is @ f # r) = (f = 109, r)"
proof -
  have 1: "dropWhile (between 0x30 0x3f) (ps @ is @ f # r) = is @ f # r"
  proof (cases "is")
    case Nil
    with assms show ?thesis by (simp add: dropWhile_block between_def)
  next
    case (Cons i js)
    with assms show ?thesis by (simp add: dropWhile_block between_def)
  qed
  have 2: "dropWhile (between 0x20 0x2f) (is @ f # r) = f # r"
    using assms by (intro dropWhile_block) (auto simp: between_def)
  show ?thesis using assms(3) by (simp add: skip_csi_body_def 1 2)
qed

lemma tokens_csi:
  assumes "list_all (between 0x30 0x3f) ps" and "list_all (between 0x20 0x2f) is"
    and "between 0x40 0x7e f"
  shows "tokens (ESC # 91 # ps @ is @ f # r) = (if f = 109 then Ignorable else LineBreak) # tokens r"
  using skip_csi_wellformed [OF assms, of r]
  by (simp add: tokens_simp [of "ESC # 91 # ps @ is @ f # r"])

lemma tokens_string_sequence:
  assumes "string_introducer d" and "BEL \<notin> set body" and "ESC \<notin> set body"
  shows "tokens (ESC # d # body @ BEL # r) = Ignorable # tokens r"
    and "tokens (ESC # d # body @ ESC # 92 # r) = Ignorable # tokens r"
  using assms skip_string_body [of body r]
  by (auto simp: tokens_simp [of "ESC # d # _"] string_introducer_def)

section \<open>Stripping\<close>

definition text_of :: "token \<Rightarrow> scalar list" where
  "text_of t = (case t of Text c \<Rightarrow> if is_control_or_format c then [] else [c] | _ \<Rightarrow> [])"

lemma strip_eq_tokens:
  "strip_terminal_control_sequences line = concat (map text_of (tokens line))"
proof -
  have "fold (\<lambda>t out. case t of
             Text c \<Rightarrow> if \<not> is_control_or_format c then out @ [c] else out
           | _ \<Rightarrow> out) ts out = out @ concat (map text_of ts)" for ts out
    by (induction ts arbitrary: out) (auto simp: text_of_def split: token.split)
  then show ?thesis
    by (simp add: strip_terminal_control_sequences_def walk_tokens)
qed

text \<open>Only \<open>classify_char\<close> makes a \<open>Text\<close> token, and never of a line separator.\<close>

lemma next_token_Text:
  "next_token cs = Some (Text c, r) \<Longrightarrow> c = TAB \<or> \<not> is_control_or_line_separator c"
  by (cases cs) (auto simp: classify_char_def Let_def split: if_splits list.splits prod.splits)

lemma tokens_Text:
  "Text c \<in> set (tokens cs) \<Longrightarrow> c = TAB \<or> \<not> is_control_or_line_separator c"
proof (induction cs rule: length_induct)
  case (1 cs)
  show ?case
  proof (cases "next_token cs")
    case None
    with "1.prems" show ?thesis by (simp add: tokens_simp [of cs])
  next
    case (Some p)
    then obtain t r where p: "next_token cs = Some (t, r)" by (cases p) auto
    with "1.prems" have "t = Text c \<or> Text c \<in> set (tokens r)"
      by (auto simp: tokens_simp [of cs])
    with "1.IH" p show ?thesis by (auto dest: next_token_Text next_token_progress)
  qed
qed

lemma tab_is_control: "is_control_or_format TAB"
  by (simp add: is_control_or_format_def is_control_def)

lemma strip_set:
  "c \<in> set (strip_terminal_control_sequences line) \<Longrightarrow>
     \<not> is_control_or_format c \<and> \<not> is_control_or_line_separator c"
  using tokens_Text [of c line] tab_is_control
  by (auto simp: strip_eq_tokens text_of_def split: token.splits if_splits)

lemma esc_is_control: "is_control_or_format ESC"
  by (simp add: is_control_or_format_def is_control_def)

lemma strip_clean:
  assumes "list_all (\<lambda>c. \<not> is_control_or_format c \<and> \<not> is_control_or_line_separator c) cs"
  shows "strip_terminal_control_sequences cs = cs"
proof -
  have "ESC \<notin> set cs" using assms esc_is_control by (auto simp: list_all_iff)
  then have "tokens cs = map classify_char cs" using tokens_append [of cs "[]"] by simp
  moreover have "map text_of (map classify_char cs) = map (\<lambda>c. [c]) cs"
    using assms by (auto simp: list_all_iff text_of_def classify_char_def)
  ultimately have "strip_terminal_control_sequences cs = concat (map (\<lambda>c. [c]) cs)"
    by (simp only: strip_eq_tokens)
  then show ?thesis by simp
qed

section \<open>Rows\<close>

text \<open>The rows of a token list: the text between its line breaks.\<close>

fun rows :: "token list \<Rightarrow> scalar list list" where
  "rows [] = [[]]"
| "rows (Text c # ts) = (c # hd (rows ts)) # tl (rows ts)"
| "rows (LineBreak # ts) = [] # rows ts"
| "rows (Ignorable # ts) = rows ts"

lemma rows_nonempty [simp]: "rows ts \<noteq> []"
  by (induction ts rule: rows.induct) auto

lemma rows_append: "rows (xs @ ys) = butlast (rows xs) @ (last (rows xs) @ hd (rows ys)) # tl (rows ys)"
proof (induction xs rule: rows.induct)
  case (2 c ts)
  then show ?case by (cases "rows ts") (auto split: if_splits)
qed auto

lemma rows_length: "length (rows ts) = Suc (count_list ts LineBreak)"
  by (induction ts rule: rows.induct) (auto simp: Suc_diff_le)

lemma rendered_lines_rows: "rendered_lines text = rows (tokens text)"
proof -
  let ?f = "\<lambda>t lines. case t of
             Text c \<Rightarrow> push_last lines c
           | LineBreak \<Rightarrow> lines @ [[]]
           | Ignorable \<Rightarrow> lines"
  have "fold ?f ts ls = butlast ls @ (last ls @ hd (rows ts)) # tl (rows ts)"
    if "ls \<noteq> []" for ts ls
    using that
  proof (induction ts arbitrary: ls)
    case Nil
    then show ?case by simp
  next
    case (Cons t ts)
    from Cons.prems Cons.IH [of "?f t ls"] show ?case
      by (cases t) (auto simp: push_last_def)
  qed
  from this [of "[[]]"] show ?thesis
    by (simp add: rendered_lines_def walk_tokens)
qed

lemma concat_rows:
  "filter (\<lambda>c. \<not> is_control_or_format c) (concat (rows ts)) = concat (map text_of ts)"
proof (induction ts rule: rows.induct)
  case (2 c ts)
  then show ?case by (cases "rows ts") (auto simp: text_of_def)
qed (auto simp: text_of_def)

section \<open>Properties\<close>

text \<open>C16. Nothing a terminal acts on survives stripping: no control character (so no escape, no
  bell, no carriage return), no format character (so no bidirectional override), and no line
  separator, for any input, however malformed its sequences.\<close>

theorem strip_terminal_safe:
  "list_all (\<lambda>c. \<not> is_control_or_format c \<and> \<not> is_control_or_line_separator c)
     (strip_terminal_control_sequences line)"
  using strip_set by (auto simp: list_all_iff)

text \<open>The two readers agree: the text of all the rendered rows, less what must not be
  printed, is what stripping returns, and stripping once is stripping for good.\<close>

theorem strip_rendered_agree:
  "filter (\<lambda>c. \<not> is_control_or_format c) (concat (rendered_lines text))
     = strip_terminal_control_sequences text
   \<and> strip_terminal_control_sequences (strip_terminal_control_sequences text)
     = strip_terminal_control_sequences text"
proof
  show "filter (\<lambda>c. \<not> is_control_or_format c) (concat (rendered_lines text))
     = strip_terminal_control_sequences text"
    by (simp add: rendered_lines_rows concat_rows strip_eq_tokens)
  show "strip_terminal_control_sequences (strip_terminal_control_sequences text)
     = strip_terminal_control_sequences text"
    by (rule strip_clean) (auto simp: list_all_iff dest: strip_set)
qed

text \<open>Colour inside a line does not split it: a well-formed SGR sequence (parameters, then
  intermediates, then \<^verbatim>\<open>m\<close>) after text with no open escape leaves the rows as they are, while
  any other well-formed CSI sequence is a row boundary.\<close>

theorem csi_rows:
  assumes "ESC \<notin> set a"
    and "list_all (between 0x30 0x3f) ps" and "list_all (between 0x20 0x2f) is"
    and "between 0x40 0x7e f"
  shows "rendered_lines (a @ ESC # 91 # ps @ is @ f # b) =
           (if f = 109 then rendered_lines (a @ b) else rendered_lines a @ rendered_lines b)"
  using assms tokens_append [of a "[]"]
  by (simp add: rendered_lines_rows tokens_append tokens_csi rows_append)

theorem csi_rows_witness:
  "rendered_lines [118, ESC, 91, 51, 49, 109, 108] = [[118, 108]] \<and>
   rendered_lines [118, ESC, 91, 50, 74, 108] = [[118], [108]]"
  using csi_rows [of "[118]" "[51, 49]" "[]" 109 "[108]"] csi_rows [of "[118]" "[50]" "[]" 74 "[108]"]
  by (simp add: between_def rendered_lines_rows classify_char_def is_control_or_line_separator_def
      is_control_def is_control_or_format_def)

text \<open>Two pieces of text the terminal drew on different rows do not share a segment: a
  line-breaking character after text with no open escape separates the rows before it from the
  rows after it.\<close>

theorem line_break_separates:
  assumes "ESC \<notin> set a" and "is_control_or_line_separator c" and "c \<noteq> TAB" and "c \<noteq> ESC"
  shows "rendered_lines (a @ c # b) = rendered_lines a @ rendered_lines b"
  using assms tokens_append [of a "[]"]
  by (simp add: rendered_lines_rows tokens_append classify_char_def rows_append)

theorem line_break_separates_witness:
  "rendered_lines ([118] @ 10 # [108]) = [[118], [108]] \<and>
   rendered_lines ([118] @ 0x2028 # [108]) = [[118], [108]]"
  using line_break_separates [of "[118]" 10 "[108]"] line_break_separates [of "[118]" "0x2028" "[108]"]
  by (simp add: between_def rendered_lines_rows classify_char_def is_control_or_line_separator_def
      is_control_def is_control_or_format_def)

text \<open>The one exception the module documents: the body of a string-argument sequence is
  consumed whole, line breaks included, so the text on its two sides joins up in one row.\<close>

theorem string_sequence_transparent:
  assumes "ESC \<notin> set a" and "string_introducer d" and "BEL \<notin> set body" and "ESC \<notin> set body"
  shows "rendered_lines (a @ ESC # d # body @ BEL # b) = rendered_lines (a @ b) \<and>
         rendered_lines (a @ ESC # d # body @ ESC # 92 # b) = rendered_lines (a @ b)"
  using assms
  by (simp add: rendered_lines_rows tokens_append tokens_string_sequence rows_append)

theorem string_sequence_transparent_witness:
  "rendered_lines ([118] @ ESC # 93 # [48, 59, 116, 10, 116] @ BEL # [108]) = [[118, 108]]"
  using string_sequence_transparent [of "[118]" 93 "[48, 59, 116, 10, 116]" "[108]"]
  by (simp add: string_introducer_def rendered_lines_rows classify_char_def
      is_control_or_line_separator_def is_control_def is_control_or_format_def between_def)

end
