(* ===== verification/Quoting.thy ===== *)
theory Quoting
  imports Terminal
begin

text \<open>
  \<^verbatim>\<open>crates/rocm-core/src/quoting.rs\<close>, the CLI's name for it in
  \<^verbatim>\<open>apps/rocm/src/shell_quote.rs\<close> and the copy in
  \<^verbatim>\<open>crates/rocm-dash-tui/src/ui/exec.rs\<close>: turning an argument into text that a POSIX shell or
  PowerShell reads back as that argument. The functions work on the characters of a value, here
  Unicode scalar values as in \<open>Terminal\<close>. The readers \<open>sh_unquoted\<close>/\<open>sh_quoted\<close>
  and \<open>ps_literal\<close> are the specification: what POSIX token recognition and PowerShell's
  quoting rules make of a piece of command line.
\<close>

section \<open>The quoters\<close>

definition ascii_alphanumeric :: "scalar \<Rightarrow> bool" where
  "ascii_alphanumeric c \<longleftrightarrow> between 48 57 c \<or> between 65 90 c \<or> between 97 122 c"

text \<open>\<^verbatim>\<open>- _ . / : =\<close>\<close>

definition inert :: "scalar \<Rightarrow> bool" where
  "inert c \<longleftrightarrow> ascii_alphanumeric c \<or> c \<in> {45, 95, 46, 47, 58, 61}"

definition replace_quote :: "scalar list \<Rightarrow> scalar list \<Rightarrow> scalar list" where
  "replace_quote by value = concat (map (\<lambda>c. if c = 39 then by else [c]) value)"

definition posix_shell_quote :: "scalar list \<Rightarrow> scalar list" where
  "posix_shell_quote value =
     (if value \<noteq> [] \<and> list_all inert value then value
      else [39] @ replace_quote [39, 92, 39, 39] value @ [39])"

definition shell_quote :: "scalar list \<Rightarrow> scalar list" where
  "shell_quote value = posix_shell_quote value"

definition has_terminal_control_character :: "scalar list \<Rightarrow> bool" where
  "has_terminal_control_character value \<longleftrightarrow>
     list_ex (\<lambda>c. is_control_or_format c \<or> is_control_or_line_separator c) value"

definition quote_display_arg :: "scalar list \<Rightarrow> scalar list" where
  "quote_display_arg value =
     (if value \<noteq> [] \<and> list_all inert value then value
      else [39] @ replace_quote [39, 92, 39, 39] value @ [39])"

fun join :: "scalar list \<Rightarrow> scalar list list \<Rightarrow> scalar list" where
  "join sep [] = []"
| "join sep [x] = x"
| "join sep (x # y # ys) = x @ sep @ join sep (y # ys)"

definition display_args :: "scalar list list \<Rightarrow> scalar list" where
  "display_args args = join [32] (map quote_display_arg args)"

definition ps_single_quote_escape :: "scalar list \<Rightarrow> scalar list" where
  "ps_single_quote_escape value = replace_quote [39, 39] value"

definition powershell_quote :: "scalar list \<Rightarrow> scalar list" where
  "powershell_quote value = [39] @ ps_single_quote_escape value @ [39]"

section \<open>What a POSIX shell reads\<close>

text \<open>Token recognition over the part of a simple command after its program word: blanks separate
  words, \<^verbatim>\<open>'\<close> starts a literal run that ends at the next \<^verbatim>\<open>'\<close>, \<^verbatim>\<open>\\<close> takes the next
  character literally. \<open>None\<close> where the shell would do anything else: an operator, an
  expansion, a double quote, a glob, a comment, or the end of the line inside a quote.\<close>

definition sh_ordinary :: "scalar \<Rightarrow> bool" where
  "sh_ordinary c \<longleftrightarrow> inert c \<or> c \<in> {37, 43, 44, 64} \<or> 160 \<le> c"

definition sh_blank :: "scalar \<Rightarrow> bool" where
  "sh_blank c \<longleftrightarrow> c = 32 \<or> c = 9"

definition word_so_far :: "scalar list option \<Rightarrow> scalar list" where
  "word_so_far w = (case w of None \<Rightarrow> [] | Some x \<Rightarrow> x)"

fun sh_unquoted :: "scalar list option \<Rightarrow> scalar list \<Rightarrow> scalar list list option"
  and sh_quoted :: "scalar list \<Rightarrow> scalar list \<Rightarrow> scalar list list option" where
  "sh_unquoted w [] = Some (case w of None \<Rightarrow> [] | Some x \<Rightarrow> [x])"
| "sh_unquoted w (c # cs) =
     (if c = 39 then sh_quoted (word_so_far w) cs
      else if c = 92 then
        (case cs of
           [] \<Rightarrow> None
         | d # ds \<Rightarrow> if d = 10 then None else sh_unquoted (Some (word_so_far w @ [d])) ds)
      else if sh_blank c then
        (case w of
           None \<Rightarrow> sh_unquoted None cs
         | Some x \<Rightarrow> map_option (Cons x) (sh_unquoted None cs))
      else if sh_ordinary c then sh_unquoted (Some (word_so_far w @ [c])) cs
      else None)"
| "sh_quoted w [] = None"
| "sh_quoted w (c # cs) =
     (if c = 39 then sh_unquoted (Some w) cs else sh_quoted (w @ [c]) cs)"

definition sh_words :: "scalar list \<Rightarrow> scalar list list option" where
  "sh_words line = sh_unquoted None line"

lemma sh_inert:
  "list_all inert v \<Longrightarrow> v \<noteq> [] \<Longrightarrow> sh_unquoted w (v @ r) = sh_unquoted (Some (word_so_far w @ v)) r"
proof (induction v arbitrary: w)
  case (Cons c v)
  from Cons.prems have c: "inert c" by simp
  then have "c \<noteq> 39" "c \<noteq> 92" "\<not> sh_blank c" "sh_ordinary c"
    by (auto simp: inert_def ascii_alphanumeric_def between_def sh_blank_def sh_ordinary_def)
  then have step: "sh_unquoted w ((c # v) @ r) = sh_unquoted (Some (word_so_far w @ [c])) (v @ r)"
    by simp
  show ?case
  proof (cases "v = []")
    case True
    with step show ?thesis by simp
  next
    case False
    with Cons step show ?thesis by (simp add: word_so_far_def)
  qed
qed simp

text \<open>A literal run, with each embedded quote closed, escaped and reopened.\<close>

lemma sh_quoted_run:
  "sh_quoted w (replace_quote [39, 92, 39, 39] v @ 39 # r) = sh_unquoted (Some (w @ v)) r"
  by (induction v arbitrary: w) (auto simp: replace_quote_def word_so_far_def)

text \<open>The contract of a quoter: at the start of a word, what it prints for a value is read as one
  word that is the value.\<close>

locale shell_quoter =
  fixes quote :: "scalar list \<Rightarrow> scalar list"
  assumes one_word: "sh_unquoted None (quote v @ r) = sh_unquoted (Some v) r"
begin

lemma argv_roundtrip: "sh_words (join [32] (map quote argv)) = Some argv"
  unfolding sh_words_def
proof (induction argv)
  case Nil
  then show ?case by simp
next
  case (Cons v argv)
  show ?case
  proof (cases argv)
    case Nil
    with one_word [of v "[]"] show ?thesis by simp
  next
    case (Cons u us)
    with Cons.IH one_word [of v "[32] @ join [32] (map quote argv)"] show ?thesis
      by (simp add: sh_blank_def)
  qed
qed

lemma quote_inj: "quote v = quote u \<Longrightarrow> v = u"
  using argv_roundtrip [of "[v]"] argv_roundtrip [of "[u]"] by simp

end

interpretation posix: shell_quoter posix_shell_quote
proof
  fix v r
  show "sh_unquoted None (posix_shell_quote v @ r) = sh_unquoted (Some v) r"
    using sh_inert [of v None r] sh_quoted_run [of "[]" v r]
    by (simp add: posix_shell_quote_def word_so_far_def)
qed

interpretation display: shell_quoter quote_display_arg
  using posix.shell_quoter_axioms
  by (simp add: shell_quoter_def posix_shell_quote_def quote_display_arg_def)

section \<open>What PowerShell reads\<close>

text \<open>A single-quoted literal from just after its opening quote: it runs to the first
  single-quote character not followed by another one, and a pair of them stands for one. PowerShell
  takes the typographic quotes U+2018 to U+201B as single quotes too.\<close>

definition ps_single_quote :: "scalar \<Rightarrow> bool" where
  "ps_single_quote c \<longleftrightarrow> c = 39 \<or> between 0x2018 0x201b c"

fun ps_literal :: "scalar list \<Rightarrow> (scalar list \<times> scalar list) option" where
  "ps_literal [] = None"
| "ps_literal [c] = (if ps_single_quote c then Some ([], []) else None)"
| "ps_literal (c # d # cs) =
     (if ps_single_quote c then
        (if ps_single_quote d then map_option (\<lambda>(v, r). (d # v, r)) (ps_literal cs)
         else Some ([], d # cs))
      else map_option (\<lambda>(v, r). (c # v, r)) (ps_literal (d # cs)))"

definition ps_argument :: "scalar list \<Rightarrow> (scalar list \<times> scalar list) option" where
  "ps_argument text = (case text of c # cs \<Rightarrow> if c = 39 then ps_literal cs else None | [] \<Rightarrow> None)"

lemma ps_escape_Cons [simp]:
  "ps_single_quote_escape (c # v) = (if c = 39 then [39, 39] else [c]) @ ps_single_quote_escape v"
  "ps_single_quote_escape [] = []"
  by (simp_all add: ps_single_quote_escape_def replace_quote_def)

lemma ps_literal_plain:
  "\<not> ps_single_quote c \<Longrightarrow> s \<noteq> [] \<Longrightarrow>
     ps_literal (c # s) = map_option (\<lambda>(v, r). (c # v, r)) (ps_literal s)"
  by (cases s) auto

lemma ps_quote_39 [simp]: "ps_single_quote 39"
  by (simp add: ps_single_quote_def)

text \<open>Every character read costs one plain character or two quote characters of the input, and the
  closing quote costs one more.\<close>

lemma ps_literal_cost:
  "ps_literal s = Some (w, r) \<Longrightarrow>
     2 * length w + 1 \<le> 2 * length (filter (\<lambda>c. \<not> ps_single_quote c) s) + length (filter ps_single_quote s)"
proof (induction s arbitrary: w rule: ps_literal.induct)
  case (3 c d cs)
  consider "\<not> ps_single_quote c" | "ps_single_quote c" "ps_single_quote d"
    | "ps_single_quote c" "\<not> ps_single_quote d" by blast
  then show ?case
  proof cases
    case 1
    with "3.prems" obtain w' where "w = c # w'" and "ps_literal (d # cs) = Some (w', r)" by auto
    with 1 "3.IH"(2) [of w'] show ?thesis by simp
  next
    case 2
    with "3.prems" obtain w' where "w = d # w'" and "ps_literal cs = Some (w', r)" by auto
    with 2 "3.IH"(1) [of w'] show ?thesis by simp
  next
    case 3
    with "3.prems" show ?thesis by simp
  qed
qed (auto split: if_splits)

definition typographic :: "scalar \<Rightarrow> bool" where
  "typographic c \<longleftrightarrow> ps_single_quote c \<and> c \<noteq> 39"

lemma ps_escape_cost:
  "2 * length (filter (\<lambda>c. \<not> ps_single_quote c) (ps_single_quote_escape v)) +
     length (filter ps_single_quote (ps_single_quote_escape v)) + length (filter typographic v)
   = 2 * length v"
proof (induction v)
  case (Cons c v)
  then show ?case
    by (cases "c = 39"; cases "ps_single_quote c") (simp_all add: typographic_def)
qed simp

lemma ps_literal_escape:
  "\<not> list_ex typographic v \<Longrightarrow> ps_literal (ps_single_quote_escape v @ [39]) = Some (v, [])"
proof (induction v)
  case (Cons c v)
  show ?case
  proof (cases "c = 39")
    case True
    with Cons show ?thesis by simp
  next
    case False
    with Cons.prems have "\<not> ps_single_quote c" by (simp add: typographic_def)
    with False Cons show ?thesis by (simp add: ps_literal_plain)
  qed
qed simp

section \<open>Properties\<close>

text \<open>C17. Every command line built from quoted arguments, run remotely or shown for approval, is
  read by a POSIX shell as exactly the argument vector it was built from, and distinct arguments are
  never shown alike.\<close>

theorem posix_argv_roundtrip:
  "sh_words (join [32] (map shell_quote argv)) = Some argv \<and>
   sh_words (display_args argv) = Some argv \<and>
   (shell_quote v = shell_quote u \<longleftrightarrow> v = u)"
proof -
  have "shell_quote = posix_shell_quote" by (simp add: fun_eq_iff shell_quote_def)
  with posix.quote_inj [of v u] show ?thesis
    by (auto simp: display_args_def display.argv_roundtrip posix.argv_roundtrip)
qed

text \<open>The approval preview of the dashboard and the command line of the CLI are the same
  text, and a value the single-quote guard accepts can be put between quotes as it is.\<close>

theorem quoters_agree:
  assumes "quotable_in_single_quotes v"
  shows "display_args argv = join [32] (map shell_quote argv) \<and>
         sh_words ([39] @ v @ [39]) = Some [v] \<and>
         \<not> has_terminal_control_character v"
proof (intro conjI)
  have "quote_display_arg = shell_quote"
    by (simp add: fun_eq_iff shell_quote_def posix_shell_quote_def quote_display_arg_def)
  then show "display_args argv = join [32] (map shell_quote argv)"
    by (simp add: display_args_def)
  have "replace_quote [39, 92, 39, 39] v = v"
    using assms by (induction v) (auto simp: replace_quote_def quotable_in_single_quotes_def)
  with sh_quoted_run [of "[]" v "[]"] show "sh_words ([39] @ v @ [39]) = Some [v]"
    by (simp add: sh_words_def word_so_far_def)
  show "\<not> has_terminal_control_character v"
    using assms by (simp add: has_terminal_control_character_def quotable_in_single_quotes_def)
qed

theorem quoters_agree_witness:
  "sh_words ([39] @ [111, 111, 109, 32, 36, 104] @ [39]) = Some [[111, 111, 109, 32, 36, 104]]"
  using quoters_agree [of "[111, 111, 109, 32, 36, 104]" "[]"]
  by (simp add: quotable_in_single_quotes_def is_control_or_line_separator_def is_control_def
      is_control_or_format_def between_def)

text \<open>A PowerShell argument reads back as the value, with nothing left over, exactly when the
  value has no typographic single quote. PowerShell takes U+2018 to U+201B as single quotes, and
  the escape doubles only the ASCII one, so a value with one of them ends its literal early or
  loses a character.\<close>

theorem powershell_roundtrip:
  "ps_argument (powershell_quote v) = Some (v, []) \<longleftrightarrow> \<not> list_ex typographic v"
proof
  assume "ps_argument (powershell_quote v) = Some (v, [])"
  then have "ps_literal (ps_single_quote_escape v @ [39]) = Some (v, [])"
    by (simp add: ps_argument_def powershell_quote_def)
  from ps_literal_cost [OF this] ps_escape_cost [of v]
  have "length (filter typographic v) = 0" by (simp del: length_0_conv)
  then show "\<not> list_ex typographic v" by (simp add: list_ex_iff filter_empty_conv)
qed (simp add: ps_argument_def powershell_quote_def ps_literal_escape)

end
