(* ===== verification/Version.thy ===== *)
theory Version
  imports Prelude
begin

text \<open>
  \<^verbatim>\<open>apps/rocm/src/therock/version.rs\<close>: the version grammar for TheRock runtimes. The strict
  gate \<open>parse_version\<close>, the lenient PEP 440 reading \<open>parse_version_for_ordering\<close> behind the
  order \<open>compare_version_strings\<close> (which build is newest) and the relation
  \<open>version_relation\<close> (is this another build), the reader of a host's version, and the
  build-date helpers. A version component is a \<^verbatim>\<open>u64\<close>, here a number that the parser has
  bounded by $2^{64}$; a version string is its bytes.
\<close>

section \<open>Stages and keys\<close>

datatype version_stage = Dev | Alpha | Beta | Rc | Stable | Post

text \<open>\<^verbatim>\<open>derive(Ord)\<close>: the order of declaration.\<close>

primrec stage_rank :: "version_stage \<Rightarrow> nat" where
  "stage_rank Dev = 0"
| "stage_rank Alpha = 1"
| "stage_rank Beta = 2"
| "stage_rank Rc = 3"
| "stage_rank Stable = 4"
| "stage_rank Post = 5"

lemma stage_rank_inj: "stage_rank a = stage_rank b \<longleftrightarrow> a = b"
  by (cases a; cases b) simp_all

instantiation version_stage :: linorder
begin

definition less_eq_version_stage :: "version_stage \<Rightarrow> version_stage \<Rightarrow> bool" where
  "less_eq_version_stage a b \<longleftrightarrow> stage_rank a \<le> stage_rank b"

definition less_version_stage :: "version_stage \<Rightarrow> version_stage \<Rightarrow> bool" where
  "less_version_stage a b \<longleftrightarrow> stage_rank a < stage_rank b"

instance
  by standard (auto simp: less_eq_version_stage_def less_version_stage_def stage_rank_inj)

end

record parsed_version =
  major :: nat
  minor :: nat
  parsed_stage :: version_stage

record version_order_key =
  release :: "nat list"
  stage :: version_stage
  stage_number :: nat

text \<open>\<^verbatim>\<open>derive(Ord)\<close> on the key: its fields in order, the release as a \<^verbatim>\<open>Vec\<close>, element by
  element and then by length.\<close>

definition key_cmp :: "version_order_key \<Rightarrow> version_order_key \<Rightarrow> ordering" where
  "key_cmp a b =
     then_with (cmp (release a) (release b))
       (then_with (cmp (stage a) (stage b)) (cmp (stage_number a) (stage_number b)))"

section \<open>Reading a version for ordering\<close>

definition split_leading_number :: "string \<Rightarrow> (nat \<times> string) option" where
  "split_leading_number value =
     (let digits = takeWhile is_ascii_digit value
      in if digits = [] then None
         else map_option (\<lambda>n. (n, dropWhile is_ascii_digit value)) (parse_uint 64 digits))"

lemma split_leading_number_shorter:
  "split_leading_number v = Some (n, tail) \<Longrightarrow> length tail < length v"
  by (cases v)
    (auto simp: split_leading_number_def Let_def less_Suc_eq_le length_dropWhile_le split: if_splits)

text \<open>The loop over release components; a dot continues it only when a digit follows.\<close>

definition starts_with_digit :: "string \<Rightarrow> bool" where
  "starts_with_digit s = (case s of [] \<Rightarrow> False | c # _ \<Rightarrow> is_ascii_digit c)"

function parse_release :: "string \<Rightarrow> (nat list \<times> string) option" where
  "parse_release rest =
     (case split_leading_number rest of
        None \<Rightarrow> None
      | Some (number, tail) \<Rightarrow>
          (case strip_prefix ''.'' tail of
             None \<Rightarrow> Some ([number], tail)
           | Some next \<Rightarrow>
               if starts_with_digit next
               then map_option (\<lambda>(ns, r). (number # ns, r)) (parse_release next)
               else Some ([number], tail)))"
  by pat_completeness auto
termination
  by (relation "measure length")
    (auto dest!: split_leading_number_shorter simp: strip_prefix_Some_iff)

declare parse_release.simps [simp del]

definition drop_trailing_zeros :: "nat list \<Rightarrow> nat list" where
  "drop_trailing_zeros ns = rev (dropWhile (\<lambda>n. n = 0) (rev ns))"

definition is_separator :: "char \<Rightarrow> bool" where
  "is_separator c \<longleftrightarrow> c = CHR ''.'' \<or> c = CHR ''-'' \<or> c = CHR ''_''"

definition stage_labels :: "(string \<times> version_stage) list" where
  "stage_labels =
     [(''preview'', Rc), (''alpha'', Alpha), (''beta'', Beta), (''post'', Post), (''pre'', Rc),
      (''dev'', Dev), (''rev'', Post), (''rc'', Rc), (''a'', Alpha), (''b'', Beta), (''c'', Rc),
      (''r'', Post)]"

text \<open>The first label that matches decides, even when its number then fails to parse.\<close>

fun match_stage :: "(string \<times> version_stage) list \<Rightarrow> string \<Rightarrow> (version_stage \<times> nat) option" where
  "match_stage [] label = None"
| "match_stage ((p, st) # rest) label =
     (case strip_prefix p label of
        None \<Rightarrow> match_stage rest label
      | Some number \<Rightarrow>
          (let number = dropWhile is_separator number
           in if number = [] then Some (st, 0) else map_option (Pair st) (parse_uint 64 number)))"

definition parse_version_stage :: "string \<Rightarrow> (version_stage \<times> nat) option" where
  "parse_version_stage sfx =
     (if sfx = [] then Some (Stable, 0)
      else let label = (if is_separator (hd sfx) then tl sfx else sfx)
           in match_stage stage_labels label)"

text \<open>\<^verbatim>\<open>value.split('+').next()\<close>: what precedes the local version metadata.\<close>

definition public_part :: "string \<Rightarrow> string" where
  "public_part value = takeWhile (\<lambda>c. c \<noteq> CHR ''+'') value"

definition parse_version_for_ordering :: "string \<Rightarrow> version_order_key option" where
  "parse_version_for_ordering value =
     (let v = to_ascii_lowercase (trim (public_part value));
          v = (case strip_prefix ''v'' v of Some r \<Rightarrow> r | None \<Rightarrow> v)
      in if v = [] then None
         else if CHR ''!'' \<in> set v then None
         else case parse_release v of
                None \<Rightarrow> None
              | Some (ns, rest) \<Rightarrow>
                  map_option (\<lambda>(st, n). \<lparr>release = drop_trailing_zeros ns, stage = st, stage_number = n\<rparr>)
                    (parse_version_stage rest))"

section \<open>Order and relation\<close>

definition compare_version_strings :: "string \<Rightarrow> string \<Rightarrow> ordering" where
  "compare_version_strings left right =
     (case (parse_version_for_ordering left, parse_version_for_ordering right) of
        (Some l, Some r) \<Rightarrow> then_with (key_cmp l r) (cmp left right)
      | (Some _, None) \<Rightarrow> Greater
      | (None, Some _) \<Rightarrow> Less
      | (None, None) \<Rightarrow> cmp left right)"

definition version_relation :: "string \<Rightarrow> string \<Rightarrow> ordering option" where
  "version_relation left right =
     (if left = right then Some Equal
      else case parse_version_for_ordering left of
             None \<Rightarrow> None
           | Some l \<Rightarrow>
               (case parse_version_for_ordering right of
                  None \<Rightarrow> None
                | Some r \<Rightarrow> Some (key_cmp l r)))"

section \<open>The strict gate and the host's version\<close>

definition parse_version :: "string \<Rightarrow> parsed_version option" where
  "parse_version value =
     (case split_once (CHR ''.'') (public_part value) of
        None \<Rightarrow> None
      | Some (p1, r1) \<Rightarrow>
     (case parse_uint 32 p1 of None \<Rightarrow> None | Some mj \<Rightarrow>
     (case split_once (CHR ''.'') r1 of
        None \<Rightarrow> None
      | Some (p2, patch_and_rest) \<Rightarrow>
     (case parse_uint 32 p2 of None \<Rightarrow> None | Some mn \<Rightarrow>
       (let patch = takeWhile is_ascii_digit patch_and_rest;
            sfx = dropWhile is_ascii_digit patch_and_rest
        in if patch = [] then None
           else case parse_uint 32 patch of None \<Rightarrow> None | Some _ \<Rightarrow>
             (if sfx = [] then Some \<lparr>major = mj, minor = mn, parsed_stage = Stable\<rparr>
              else case strip_prefix ''rc'' sfx of
                Some rest \<Rightarrow>
                  map_option (\<lambda>_. \<lparr>major = mj, minor = mn, parsed_stage = Rc\<rparr>) (parse_uint 64 rest)
              | None \<Rightarrow>
                  (case strip_prefix ''a'' sfx of
                     Some rest \<Rightarrow>
                       map_option (\<lambda>_. \<lparr>major = mj, minor = mn, parsed_stage = Alpha\<rparr>)
                         (parse_uint 64 rest)
                   | None \<Rightarrow> None)))))))"

definition parse_host_version :: "string \<Rightarrow> version_order_key option" where
  "parse_host_version value =
     (let trimmed = trim value;
          candidate = (case split_once (CHR ''-'') trimmed of
                         Some (head, tail) \<Rightarrow>
                           if tail \<noteq> [] \<and> list_all is_ascii_digit tail then head else trimmed
                       | None \<Rightarrow> trimmed)
      in parse_version_for_ordering candidate)"

definition is_stable_runtime_version :: "string \<Rightarrow> bool" where
  "is_stable_runtime_version version =
     (case parse_version version of None \<Rightarrow> False | Some p \<Rightarrow> parsed_stage p = Stable)"

section \<open>Build dates\<close>

definition is_leap_year :: "nat \<Rightarrow> bool" where
  "is_leap_year year \<longleftrightarrow> 4 dvd year \<and> \<not> 100 dvd year \<or> 400 dvd year"

definition days_in_month :: "nat \<Rightarrow> nat \<Rightarrow> nat" where
  "days_in_month year month =
     (if month \<in> {1, 3, 5, 7, 8, 10, 12} then 31
      else if month \<in> {4, 6, 9, 11} then 30
      else if month = 2 \<and> is_leap_year year then 29
      else if month = 2 then 28
      else 0)"

definition format_date :: "nat \<Rightarrow> nat \<Rightarrow> nat \<Rightarrow> string" where
  "format_date year month day =
     fmt_pad 4 year @ ''-'' @ fmt_pad 2 month @ ''-'' @ fmt_pad 2 day"

text \<open>\<^verbatim>\<open>digits[a..b].parse::<u32>()\<close>.\<close>

definition parse_slice :: "nat \<Rightarrow> nat \<Rightarrow> string \<Rightarrow> nat option" where
  "parse_slice a b digits = parse_uint 32 (take (b - a) (drop a digits))"

definition parse_date_slices ::
  "nat \<times> nat \<Rightarrow> nat \<times> nat \<Rightarrow> nat \<times> nat \<Rightarrow> string \<Rightarrow> (nat \<times> nat \<times> nat) option" where
  "parse_date_slices y m d digits =
     (case parse_slice (fst y) (snd y) digits of None \<Rightarrow> None | Some year \<Rightarrow>
      case parse_slice (fst m) (snd m) digits of None \<Rightarrow> None | Some month \<Rightarrow>
      case parse_slice (fst d) (snd d) digits of None \<Rightarrow> None | Some day \<Rightarrow>
        Some (year, month, day))"

definition parse_yyyy_mm_dd :: "string \<Rightarrow> (nat \<times> nat \<times> nat) option" where
  "parse_yyyy_mm_dd = parse_date_slices (0, 4) (4, 6) (6, 8)"

definition parse_mm_dd_yyyy :: "string \<Rightarrow> (nat \<times> nat \<times> nat) option" where
  "parse_mm_dd_yyyy = parse_date_slices (4, 8) (0, 2) (2, 4)"

datatype date_error =
    DateEmpty
  | DateShape
  | DateYear
  | DateMonth
  | DateDay nat

definition validate_date_components :: "nat \<Rightarrow> nat \<Rightarrow> nat \<Rightarrow> date_error + unit" where
  "validate_date_components year month day =
     (if \<not> (2000 \<le> year \<and> year \<le> 2099) then Inl DateYear
      else if month = 0 \<or> month > 12 then Inl DateMonth
      else if day = 0 \<or> day > days_in_month year month then Inl (DateDay (days_in_month year month))
      else Inr ())"

definition normalize_requested_build_date :: "string \<Rightarrow> date_error + string" where
  "normalize_requested_build_date value =
     (let trimmed = trim value;
          digits = filter is_ascii_digit trimmed
      in if trimmed = [] then Inl DateEmpty
         else if length digits \<noteq> 8 then Inl DateShape
         else case (if prefix ''20'' digits then parse_yyyy_mm_dd digits
                    else if prefix ''20'' (drop 4 digits) then parse_mm_dd_yyyy digits
                    else None) of
                None \<Rightarrow> Inl DateShape
              | Some (year, month, day) \<Rightarrow>
                  bind_result (validate_date_components year month day)
                    (\<lambda>_. Inr (format_date year month day)))"

text \<open>The windows of eight bytes, left to right: one that is not all digits or not a date in
  range is passed over.\<close>

definition window_date :: "string \<Rightarrow> string option" where
  "window_date window =
     (if list_all is_ascii_digit window then
        (case parse_yyyy_mm_dd window of
           None \<Rightarrow> None
         | Some (year, month, day) \<Rightarrow>
             if \<not> (2000 \<le> year \<and> year \<le> 2099) \<or> month = 0 \<or> month > 12 then None
             else if day = 0 \<or> day > days_in_month year month then None
             else Some (format_date year month day))
      else None)"

fun first_window :: "string \<Rightarrow> string option" where
  "first_window [] = None"
| "first_window (c # cs) =
     (if length (c # cs) < 8 then None
      else case window_date (take 8 (c # cs)) of
             Some d \<Rightarrow> Some d
           | None \<Rightarrow> first_window cs)"

definition runtime_version_build_date :: "string \<Rightarrow> string option" where
  "runtime_version_build_date version = first_window version"

definition runtime_version_display :: "string \<Rightarrow> string" where
  "runtime_version_display version =
     (case runtime_version_build_date version of
        Some date \<Rightarrow> version @ '' (build '' @ date @ '')''
      | None \<Rightarrow> version)"

section \<open>The order is total\<close>

lemma key_cmp_equal [simp]: "key_cmp a b = Equal \<longleftrightarrow> a = b"
  by (auto simp: key_cmp_def)

lemma reverse_then_with: "reverse_ord (then_with a b) = then_with (reverse_ord a) (reverse_ord b)"
  by (cases a) simp_all

lemma key_cmp_flip: "key_cmp b a = reverse_ord (key_cmp a b)"
  by (simp add: key_cmp_def reverse_then_with reverse_cmp)

lemma key_cmp_trans: "key_cmp a b = Less \<Longrightarrow> key_cmp b c = Less \<Longrightarrow> key_cmp a c = Less"
  by (auto simp: key_cmp_def)

interpretation keys: total_cmp key_cmp
  by unfold_locales (simp, rule key_cmp_flip, rule key_cmp_trans)

interpretation versions: total_cmp compare_version_strings
proof
  show "compare_version_strings a b = Equal \<longleftrightarrow> a = b" for a b
    by (auto simp: compare_version_strings_def split: option.split)
  show "compare_version_strings b a = reverse_ord (compare_version_strings a b)" for a b
    by (auto simp: compare_version_strings_def reverse_then_with reverse_cmp
        split: option.split simp flip: key_cmp_flip)
  show "compare_version_strings a b = Less \<Longrightarrow> compare_version_strings b c = Less \<Longrightarrow>
      compare_version_strings a c = Less" for a b c
    by (auto simp: compare_version_strings_def intro: key_cmp_trans split: option.splits)
qed

section \<open>Reading back what is printed\<close>

lemma split_leading_number_digits:
  assumes "ds \<noteq> []" and "list_all is_ascii_digit ds" and "digits_val ds < 2 ^ 64"
    and "\<not> starts_with_digit tail"
  shows "split_leading_number (ds @ tail) = Some (digits_val ds, tail)"
proof -
  have t: "takeWhile is_ascii_digit (ds @ tail) = ds" "dropWhile is_ascii_digit (ds @ tail) = tail"
    using assms(2,4)
    by (cases tail; force simp: takeWhile_append2 dropWhile_append2 list_all_iff starts_with_digit_def)+
  show ?thesis
    using assms by (simp add: split_leading_number_def t parse_uint_digits)
qed

text \<open>A suffix a release segment can stop at: no digit, and no dot before a digit.\<close>

definition release_end :: "string \<Rightarrow> bool" where
  "release_end s \<longleftrightarrow>
     \<not> starts_with_digit s \<and>
     (case strip_prefix ''.'' s of None \<Rightarrow> True | Some r \<Rightarrow> \<not> starts_with_digit r)"

lemma parse_release_last:
  assumes "ds \<noteq> []" and "list_all is_ascii_digit ds" and "digits_val ds < 2 ^ 64" and "release_end s"
  shows "parse_release (ds @ s) = Some ([digits_val ds], s)"
  using assms(4) split_leading_number_digits [OF assms(1-3), of s]
  by (subst parse_release.simps) (auto simp: release_end_def split: option.splits)

lemma parse_release_more:
  assumes "ds \<noteq> []" and "list_all is_ascii_digit ds" and "digits_val ds < 2 ^ 64"
    and "starts_with_digit r"
  shows "parse_release (ds @ CHR ''.'' # r) =
           map_option (\<lambda>(ns, t). (digits_val ds # ns, t)) (parse_release r)"
  using assms(4) split_leading_number_digits [OF assms(1-3), of "CHR ''.'' # r"]
  by (subst parse_release.simps) (auto simp: starts_with_digit_def is_ascii_digit_def less_eq_char_def)

fun release_text :: "nat list \<Rightarrow> string" where
  "release_text [] = []"
| "release_text [n] = show_nat n"
| "release_text (n # ns) = show_nat n @ CHR ''.'' # release_text ns"

definition stage_text :: "version_stage \<Rightarrow> nat \<Rightarrow> string" where
  "stage_text st n =
     (case st of
        Dev \<Rightarrow> ''.dev'' @ show_nat n
      | Alpha \<Rightarrow> ''a'' @ show_nat n
      | Beta \<Rightarrow> ''b'' @ show_nat n
      | Rc \<Rightarrow> ''rc'' @ show_nat n
      | Stable \<Rightarrow> []
      | Post \<Rightarrow> ''.post'' @ show_nat n)"

definition version_text :: "nat list \<Rightarrow> version_stage \<Rightarrow> nat \<Rightarrow> string" where
  "version_text ns st n = release_text ns @ stage_text st n"

lemma show_nat_starts [simp]: "starts_with_digit (show_nat n @ t)"
  using show_nat_digits [of n] by (cases "show_nat n") (auto simp: starts_with_digit_def)

lemma parse_release_text:
  assumes "ns \<noteq> []" and "list_all (\<lambda>n. n < 2 ^ 64) ns" and "release_end s"
  shows "parse_release (release_text ns @ s) = Some (ns, s)"
  using assms(1,2)
proof (induction ns rule: release_text.induct)
  case (2 n)
  with assms(3) show ?case
    using parse_release_last [of "show_nat n" s] by (simp add: show_nat_digits)
next
  case (3 n m ns)
  have "starts_with_digit (release_text (m # ns) @ s)"
    by (cases ns) simp_all
  with 3 show ?case
    using parse_release_more [of "show_nat n" "release_text (m # ns) @ s"]
    by (simp add: show_nat_digits)
qed simp

lemma stage_text_release_end: "release_end (stage_text st n)"
  by (cases st) (auto simp: release_end_def stage_text_def starts_with_digit_def is_ascii_digit_def
      less_eq_char_def)

lemma show_nat_no_separator: "dropWhile is_separator (show_nat n) = show_nat n"
  using show_nat_digits [of n]
  by (cases "show_nat n") (auto simp: is_separator_def is_ascii_digit_def less_eq_char_def)

lemma sep_simps [simp]:
  "is_separator (CHR ''.'')" "\<not> is_separator (CHR ''a'')" "\<not> is_separator (CHR ''b'')"
  "\<not> is_separator (CHR ''r'')"
  by (simp_all add: is_separator_def)

lemma strip_prefix_show_nat [simp]:
  "\<not> is_ascii_digit l \<Longrightarrow> strip_prefix (l # ls) (show_nat n) = None"
  using show_nat_digits [of n] by (cases "show_nat n") auto

lemma letter_not_digit [simp]: "\<not> is_ascii_digit (CHR ''l'')" "\<not> is_ascii_digit (CHR ''e'')"
  by (simp_all add: is_ascii_digit_def less_eq_char_def)

lemma parse_stage_text:
  assumes "n < 2 ^ 64" and "st = Stable \<longrightarrow> n = 0"
  shows "parse_version_stage (stage_text st n) = Some (st, n)"
  using assms parse_uint_show_nat [of n 64]
  by (cases st) (simp_all add: parse_version_stage_def stage_text_def stage_labels_def
      show_nat_no_separator)

lemma show_nat_chars: "c \<in> set (show_nat n) \<Longrightarrow> is_ascii_digit c"
  using show_nat_digits [of n] by (simp add: list_all_iff)

lemma release_text_chars:
  "c \<in> set (release_text ns) \<Longrightarrow> is_ascii_digit c \<or> c = CHR ''.''"
  by (induction ns rule: release_text.induct) (auto dest: show_nat_chars)

lemma stage_text_chars:
  "c \<in> set (stage_text st n) \<Longrightarrow> is_ascii_digit c \<or> c = CHR ''.'' \<or> is_ascii_lower c"
  by (cases st) (auto simp: stage_text_def is_ascii_lower_def less_eq_char_def dest: show_nat_chars)

lemma version_text_plain:
  assumes "c \<in> set (version_text ns st n)"
  shows "ascii_graphic c \<and> \<not> is_ascii_upper c \<and> c \<notin> {CHR ''+'', CHR ''!'', CHR ''-''}"
  using assms release_text_chars [of c ns] stage_text_chars [of c st n]
  by (auto simp: version_text_def is_ascii_digit_def is_ascii_lower_def is_ascii_upper_def
      less_eq_char_def ascii_graphic_def)

lemma release_text_starts: "ns \<noteq> [] \<Longrightarrow> starts_with_digit (release_text ns @ t)"
  by (cases ns rule: release_text.cases) simp_all

lemma starts_with_digit_v:
  "starts_with_digit s \<Longrightarrow> s \<noteq> [] \<and> strip_prefix ''v'' s = None"
  by (cases s) (auto simp: starts_with_digit_def is_ascii_digit_def less_eq_char_def)

text \<open>What the lenient reader does to text that needs no cleaning.\<close>

lemma parse_for_ordering_plain:
  assumes "list_all (\<lambda>c. ascii_graphic c \<and> \<not> is_ascii_upper c \<and> c \<notin> {CHR ''+'', CHR ''!''}) v"
    and "starts_with_digit v"
  shows "parse_version_for_ordering v =
     (case parse_release v of
        None \<Rightarrow> None
      | Some (ns, rest) \<Rightarrow>
          map_option (\<lambda>(st, n). \<lparr>release = drop_trailing_zeros ns, stage = st, stage_number = n\<rparr>)
            (parse_version_stage rest))"
proof -
  have p: "public_part v = v"
    using assms(1) by (simp add: public_part_def takeWhile_eq_all_conv list_all_iff)
  have t: "trim v = v"
    using assms(1) by (intro trim_graphic) (simp add: list_all_iff)
  have l: "to_ascii_lowercase v = v"
    using assms(1) by (intro to_ascii_lowercase_id) (simp add: list_all_iff)
  have x: "CHR ''!'' \<notin> set v" using assms(1) by (auto simp: list_all_iff)
  have v: "v \<noteq> []" "strip_prefix ''v'' v = None"
    using starts_with_digit_v [OF assms(2)] by simp_all
  show ?thesis
    unfolding parse_version_for_ordering_def Let_def p t l v(2) option.case if_not_P [OF v(1)]
      if_not_P [OF x] ..
qed

lemma parse_version_text:
  assumes "ns \<noteq> []" and "list_all (\<lambda>n. n < 2 ^ 64) ns" and "n < 2 ^ 64" and "st = Stable \<longrightarrow> n = 0"
  shows "parse_version_for_ordering (version_text ns st n) =
     Some \<lparr>release = drop_trailing_zeros ns, stage = st, stage_number = n\<rparr>"
proof -
  have "list_all (\<lambda>c. ascii_graphic c \<and> \<not> is_ascii_upper c \<and> c \<notin> {CHR ''+'', CHR ''!''})
      (version_text ns st n)"
    using version_text_plain by (auto simp: list_all_iff)
  moreover have "starts_with_digit (version_text ns st n)"
    unfolding version_text_def using assms(1) by (rule release_text_starts)
  moreover have "parse_release (version_text ns st n) = Some (ns, stage_text st n)"
    unfolding version_text_def by (rule parse_release_text [OF assms(1,2) stage_text_release_end])
  ultimately show ?thesis
    by (simp add: parse_for_ordering_plain parse_stage_text [OF assms(3,4)])
qed

section \<open>Release segments\<close>

lemma drop_trailing_zeros_simps [simp]:
  "drop_trailing_zeros [] = []"
  "drop_trailing_zeros (n # ns) =
     (if n = 0 \<and> drop_trailing_zeros ns = [] then [] else n # drop_trailing_zeros ns)"
  by (auto simp: drop_trailing_zeros_def dropWhile_append dropWhile_eq_Nil_conv)

lemma drop_trailing_zeros_pad [simp]:
  "drop_trailing_zeros (ns @ replicate k 0) = drop_trailing_zeros ns"
  by (simp add: drop_trailing_zeros_def dropWhile_append3 replicate_append_same [symmetric])
    (induction k; simp)

lemma cmp_drop_trailing_zeros:
  "length a = length b \<Longrightarrow> cmp (drop_trailing_zeros a) (drop_trailing_zeros b) = cmp a b"
proof (induction a b rule: list_induct2)
  case (Cons n ns m ms)
  then show ?case
    by (cases "drop_trailing_zeros ns"; cases "drop_trailing_zeros ms")
      (auto simp: cmp_def split: if_splits)
qed simp

text \<open>PEP 440's comparison of release segments: the shorter one zero-padded.\<close>

definition pad_to :: "nat \<Rightarrow> nat list \<Rightarrow> nat list" where
  "pad_to k ns = ns @ replicate (k - length ns) 0"

lemma cmp_padded:
  assumes "length a \<le> k" and "length b \<le> k"
  shows "cmp (drop_trailing_zeros a) (drop_trailing_zeros b) = cmp (pad_to k a) (pad_to k b)"
proof -
  have "length (pad_to k a) = length (pad_to k b)" using assms by (simp add: pad_to_def)
  from cmp_drop_trailing_zeros [OF this] show ?thesis by (simp add: pad_to_def)
qed

section \<open>The strict gate within the lenient reader\<close>

lemma public_part_idem [simp]: "public_part (public_part v) = public_part v"
  by (simp add: public_part_def)

lemma parse_public_part: "parse_version_for_ordering (public_part v) = parse_version_for_ordering v"
  unfolding parse_version_for_ordering_def by simp

lemma public_part_no_plus: "public_part v = s \<Longrightarrow> CHR ''+'' \<notin> set s"
  by (auto simp: public_part_def dest: set_takeWhileD)

text \<open>What the strict grammar accepts, spelled out.\<close>

definition strict_suffix :: "version_stage \<Rightarrow> string \<Rightarrow> bool" where
  "strict_suffix st s \<longleftrightarrow>
     st = Stable \<and> s = [] \<or>
     (\<exists>ds. ds \<noteq> [] \<and> list_all is_ascii_digit ds \<and> digits_val ds < 2 ^ 64 \<and>
        (st = Rc \<and> s = ''rc'' @ ds \<or> st = Alpha \<and> s = ''a'' @ ds))"

lemma takeWhile_digits: "list_all is_ascii_digit (takeWhile is_ascii_digit s)"
  by (induction s) simp_all

lemma strict_tail:
  assumes "CHR ''+'' \<notin> set s"
    and "(if s = [] then Some \<lparr>major = a, minor = b, parsed_stage = Stable\<rparr>
          else case strip_prefix ''rc'' s of
            Some rest \<Rightarrow> map_option (\<lambda>_. \<lparr>major = a, minor = b, parsed_stage = Rc\<rparr>) (parse_uint 64 rest)
          | None \<Rightarrow>
              (case strip_prefix ''a'' s of
                 Some rest \<Rightarrow>
                   map_option (\<lambda>_. \<lparr>major = a, minor = b, parsed_stage = Alpha\<rparr>) (parse_uint 64 rest)
               | None \<Rightarrow> None)) = Some p"
  shows "major p = a \<and> minor p = b \<and> strict_suffix (parsed_stage p) s"
proof (cases "s = []")
  case True
  with assms show ?thesis by (auto simp: strict_suffix_def)
next
  case False
  show ?thesis
  proof (cases "strip_prefix ''rc'' s")
    case (Some rest)
    with assms False obtain n where "parse_uint 64 rest = Some n"
      "p = \<lparr>major = a, minor = b, parsed_stage = Rc\<rparr>" by auto
    with parse_uint_no_plus [of 64 rest n] assms(1) Some show ?thesis
      by (auto simp: strict_suffix_def strip_prefix_Some_iff)
  next
    case None
    with assms False obtain rest n where "strip_prefix ''a'' s = Some rest" "parse_uint 64 rest = Some n"
      "p = \<lparr>major = a, minor = b, parsed_stage = Alpha\<rparr>" by (auto split: option.splits)
    with parse_uint_no_plus [of 64 rest n] assms(1) show ?thesis
      by (auto simp: strict_suffix_def strip_prefix_Some_iff)
  qed
qed

lemma parse_version_shape:
  assumes "parse_version v = Some p"
  shows "\<exists>mj mn pt s. public_part v = mj @ CHR ''.'' # mn @ CHR ''.'' # pt @ s \<and>
     mj \<noteq> [] \<and> mn \<noteq> [] \<and> pt \<noteq> [] \<and> list_all is_ascii_digit (mj @ mn @ pt) \<and>
     digits_val mj = major p \<and> digits_val mn = minor p \<and>
     major p < 2 ^ 32 \<and> minor p < 2 ^ 32 \<and> digits_val pt < 2 ^ 32 \<and>
     strict_suffix (parsed_stage p) s"
proof -
  obtain mj r1 where 1: "split_once (CHR ''.'') (public_part v) = Some (mj, r1)"
    using assms by (cases "split_once (CHR ''.'') (public_part v)") (auto simp: parse_version_def)
  obtain a where 3: "parse_uint 32 mj = Some a"
    using assms by (cases "parse_uint 32 mj") (auto simp: parse_version_def 1)
  obtain mn r2 where 2: "split_once (CHR ''.'') r1 = Some (mn, r2)"
    using assms by (cases "split_once (CHR ''.'') r1") (auto simp: parse_version_def 1 3)
  obtain b where 4: "parse_uint 32 mn = Some b"
    using assms by (cases "parse_uint 32 mn") (auto simp: parse_version_def 1 2 3)
  let ?pt = "takeWhile is_ascii_digit r2" and ?s = "dropWhile is_ascii_digit r2"
  have 5: "?pt \<noteq> []" using assms by (auto simp: parse_version_def 1 2 3 4)
  obtain c where 6: "parse_uint 32 ?pt = Some c"
    using assms 5 by (cases "parse_uint 32 ?pt") (auto simp: parse_version_def 1 2 3 4)
  from 1 2 have v: "public_part v = mj @ CHR ''.'' # mn @ CHR ''.'' # ?pt @ ?s"
    by (simp add: split_once_Some)
  from public_part_no_plus [OF v]
  have np: "CHR ''+'' \<notin> set mj" "CHR ''+'' \<notin> set mn" "CHR ''+'' \<notin> set ?s"
    by (simp_all del: takeWhile_dropWhile_id)
  have pt: "list_all is_ascii_digit ?pt" by (rule takeWhile_digits)
  with 5 6 have "digits_val ?pt < 2 ^ 32" by (auto simp: parse_uint_digits split: if_splits)
  moreover have s: "major p = a" "minor p = b" "strict_suffix (parsed_stage p) ?s"
    using assms 5 strict_tail [OF np(3), of a b p] by (simp_all add: parse_version_def Let_def 1 2 3 4 6)
  ultimately show ?thesis
    using v 5 pt parse_uint_no_plus [OF 3 np(1)] parse_uint_no_plus [OF 4 np(2)]
    by (intro exI [of _ mj] exI [of _ mn] exI [of _ ?pt] exI [of _ ?s]) (simp add: s)
qed

lemma strict_suffix_reads:
  assumes "strict_suffix st s"
  shows "\<exists>n. parse_version_stage s = Some (st, n)" and "release_end s"
    and "c \<in> set s \<Longrightarrow> is_ascii_digit c \<or> is_ascii_lower c"
proof -
  have nosep: "dropWhile is_separator ds = ds" and nolabel: "\<not> is_ascii_digit x \<Longrightarrow> strip_prefix (x # xs) ds = None"
    if "ds \<noteq> []" "list_all is_ascii_digit ds" for ds x xs
    using that by (cases ds; auto simp: is_separator_def is_ascii_digit_def less_eq_char_def)+
  show "\<exists>n. parse_version_stage s = Some (st, n)"
    using assms by (auto simp: strict_suffix_def parse_version_stage_def stage_labels_def nosep nolabel
        parse_uint_digits)
  show "release_end s"
    using assms by (auto simp: strict_suffix_def release_end_def starts_with_digit_def
        is_ascii_digit_def less_eq_char_def)
  show "is_ascii_digit c \<or> is_ascii_lower c" if "c \<in> set s"
    using assms that by (auto simp: strict_suffix_def list_all_iff is_ascii_lower_def less_eq_char_def)
qed

lemma plain_char:
  assumes "is_ascii_digit c \<or> is_ascii_lower c \<or> c = CHR ''.''"
  shows "ascii_graphic c" "\<not> is_ascii_upper c" "c \<noteq> CHR ''+''" "c \<noteq> CHR ''!''"
  using assms by (auto simp: ascii_graphic_def is_ascii_digit_def is_ascii_lower_def
      is_ascii_upper_def less_eq_char_def)

lemma digits_start [simp]:
  "ds \<noteq> [] \<Longrightarrow> list_all is_ascii_digit ds \<Longrightarrow> starts_with_digit (ds @ t)"
  by (cases ds) (auto simp: starts_with_digit_def)

lemma strict_release:
  assumes "mj \<noteq> []" "mn \<noteq> []" "pt \<noteq> []" "list_all is_ascii_digit (mj @ mn @ pt)"
    and "digits_val mj < 2 ^ 64" "digits_val mn < 2 ^ 64" "digits_val pt < 2 ^ 64" and "release_end s"
  shows "parse_release (mj @ CHR ''.'' # mn @ CHR ''.'' # pt @ s) =
     Some ([digits_val mj, digits_val mn, digits_val pt], s)"
  using assms by (simp add: parse_release_more parse_release_last)

section \<open>Dates\<close>

definition valid_date :: "nat \<Rightarrow> nat \<Rightarrow> nat \<Rightarrow> bool" where
  "valid_date year month day \<longleftrightarrow>
     2000 \<le> year \<and> year \<le> 2099 \<and> 1 \<le> month \<and> month \<le> 12 \<and>
     1 \<le> day \<and> day \<le> days_in_month year month"

lemma validate_date_iff: "validate_date_components y m d = Inr () \<longleftrightarrow> valid_date y m d"
  by (auto simp: validate_date_components_def valid_date_def)

lemma days_in_month_le: "days_in_month y m \<le> 31"
  by (simp add: days_in_month_def)

lemma valid_date_digits:
  assumes "valid_date y m d"
  shows "length (fmt_pad 4 y) = 4" "length (fmt_pad 2 m) = 2" "length (fmt_pad 2 d) = 2"
proof -
  have "y < 10 ^ 4" "m < 10 ^ 2" "d < 10 ^ 2"
    using assms days_in_month_le [of y m] by (auto simp: valid_date_def)
  then show "length (fmt_pad 4 y) = 4" "length (fmt_pad 2 m) = 2" "length (fmt_pad 2 d) = 2"
    by (simp_all add: fmt_pad_facts(3))
qed

lemma valid_year_prefix: "2000 \<le> y \<Longrightarrow> y \<le> 2099 \<Longrightarrow> prefix ''20'' (fmt_pad 4 y @ s)"
proof -
  assume "2000 \<le> y" "y \<le> 2099"
  then have "y div 10 div 10 = 20" and "\<not> y < 10" and "\<not> y div 10 < 10" by simp_all
  then have "show_nat y = ''20'' @ [digit_char (y div 10 mod 10), digit_char (y mod 10)]"
    by (subst show_nat.simps, subst show_nat.simps, subst show_nat.simps, subst show_nat.simps)
      (simp add: digit_char_def, code_simp)
  then show ?thesis by (simp add: fmt_pad_def)
qed

lemma valid_month_prefix:
  assumes "length (fmt_pad 2 m) = 2" and "m \<le> 12" shows "\<not> prefix ''20'' (fmt_pad 2 m @ s)"
proof
  assume "prefix ''20'' (fmt_pad 2 m @ s)"
  with assms(1) have "fmt_pad 2 m = ''20''"
    by (auto simp: length_Suc_conv numeral_2_eq_2)
  then have "m = digits_val ''20''" using fmt_pad_facts(2) [of 2 m] by simp
  with assms(2) show False by (simp add: digits_val_def digit_val_def)
qed

lemma parse_fmt_pad: "0 < w \<Longrightarrow> n < 2 ^ 32 \<Longrightarrow> length (fmt_pad w n) = w \<Longrightarrow> parse_uint 32 (fmt_pad w n) = Some n"
  using fmt_pad_facts [of w n] by (subst parse_uint_digits) auto

lemma date_digits:
  assumes "valid_date y m d"
  shows "parse_yyyy_mm_dd (fmt_pad 4 y @ fmt_pad 2 m @ fmt_pad 2 d) = Some (y, m, d)"
    and "parse_mm_dd_yyyy (fmt_pad 2 m @ fmt_pad 2 d @ fmt_pad 4 y) = Some (y, m, d)"
proof -
  have b: "y < 2 ^ 32" "m < 2 ^ 32" "d < 2 ^ 32"
    using assms days_in_month_le [of y m] by (auto simp: valid_date_def)
  note l = valid_date_digits [OF assms]
  note p = parse_fmt_pad [of 4 y, OF _ b(1) l(1)] parse_fmt_pad [of 2 m, OF _ b(2) l(2)]
    parse_fmt_pad [of 2 d, OF _ b(3) l(3)]
  show "parse_yyyy_mm_dd (fmt_pad 4 y @ fmt_pad 2 m @ fmt_pad 2 d) = Some (y, m, d)"
    and "parse_mm_dd_yyyy (fmt_pad 2 m @ fmt_pad 2 d @ fmt_pad 4 y) = Some (y, m, d)"
    using l p by (simp_all add: parse_yyyy_mm_dd_def parse_mm_dd_yyyy_def parse_date_slices_def parse_slice_def)
qed

lemma filter_digits: "list_all is_ascii_digit ds \<Longrightarrow> filter is_ascii_digit (ds @ s) = ds @ filter is_ascii_digit s"
  by (induction ds) simp_all

lemma dash_not_digit [simp]: "\<not> is_ascii_digit (CHR ''-'')" "ascii_graphic (CHR ''-'')"
  by (simp_all add: is_ascii_digit_def less_eq_char_def ascii_graphic_def)

lemma digits_graphic: "list_all is_ascii_digit ds \<Longrightarrow> list_all ascii_graphic ds"
  by (auto simp: list_all_iff digit_graphic)

text \<open>A request whose digits are a valid date in one of the two orders.\<close>

lemma normalize_digits:
  assumes v: "valid_date y m d" and t: "trim s = s" and "s \<noteq> []"
    and f: "filter is_ascii_digit s = fmt_pad 4 y @ fmt_pad 2 m @ fmt_pad 2 d \<or>
       filter is_ascii_digit s = fmt_pad 2 m @ fmt_pad 2 d @ fmt_pad 4 y"
  shows "normalize_requested_build_date s = Inr (format_date y m d)"
proof -
  note l = valid_date_digits [OF v]
  have y: "2000 \<le> y" "y \<le> 2099" "m \<le> 12" using v by (simp_all add: valid_date_def)
  note pre = valid_year_prefix [OF y(1,2)] valid_month_prefix [OF l(2) y(3)]
  have len: "length (filter is_ascii_digit s) = 8" using f l by auto
  have "(if prefix ''20'' (filter is_ascii_digit s) then parse_yyyy_mm_dd (filter is_ascii_digit s)
      else if prefix ''20'' (drop 4 (filter is_ascii_digit s)) then parse_mm_dd_yyyy (filter is_ascii_digit s)
      else None) = Some (y, m, d)"
    using f
  proof
    assume "filter is_ascii_digit s = fmt_pad 4 y @ fmt_pad 2 m @ fmt_pad 2 d"
    then show ?thesis by (simp only: pre if_True date_digits [OF v])
  next
    assume e: "filter is_ascii_digit s = fmt_pad 2 m @ fmt_pad 2 d @ fmt_pad 4 y"
    have "drop 4 (fmt_pad 2 m @ fmt_pad 2 d @ fmt_pad 4 y) = fmt_pad 4 y @ []" using l by simp
    then show ?thesis unfolding e by (simp only: pre if_False if_True date_digits [OF v])
  qed
  with len assms(3) v show ?thesis
    unfolding normalize_requested_build_date_def Let_def t
    by (simp only: if_False) (simp add: validate_date_iff)
qed

lemma normalize_valid:
  assumes "normalize_requested_build_date s = Inr r"
  shows "\<exists>y m d. valid_date y m d \<and> r = format_date y m d"
  using assms
  by (auto simp: normalize_requested_build_date_def Let_def validate_date_iff
      split: if_splits option.splits) blast+

lemma ex_nat_split: "(\<exists>i. P i) \<longleftrightarrow> P 0 \<or> (\<exists>i. P (Suc i))"
  by (metis not0_implies_Suc)

lemma window_date_valid:
  "window_date w = Some r \<Longrightarrow> \<exists>y m d. valid_date y m d \<and> r = format_date y m d"
  by (auto simp: window_date_def valid_date_def not_less split: if_splits option.splits)
    (metis Suc_leI gr0I not_less One_nat_def)

text \<open>Evaluation on concrete strings.\<close>

lemma digit_char_eval:
  "digit_char 0 = CHR ''0''" "digit_char (Suc 0) = CHR ''1''" "digit_char 1 = CHR ''1''"
  "digit_char 2 = CHR ''2''" "digit_char 3 = CHR ''3''" "digit_char 4 = CHR ''4''"
  "digit_char 5 = CHR ''5''" "digit_char 6 = CHR ''6''" "digit_char 7 = CHR ''7''"
  "digit_char 8 = CHR ''8''" "digit_char 9 = CHR ''9''"
  by code_simp+

lemmas version_eval =
  parse_version_for_ordering_def parse_version_def public_part_def trim_def trim_end_def
  to_ascii_lowercase_def parse_release.simps split_leading_number_def starts_with_digit_def
  parse_version_stage_def stage_labels_def is_separator_def key_cmp_def cmp_def
  parse_uint_def digits_val_def digit_val_def is_ascii_digit_def is_ascii_upper_def less_eq_char_def
  less_char_def ws1_def ws2_def ws3_def less_version_stage_def
  runtime_version_build_date_def window_date_def parse_yyyy_mm_dd_def parse_date_slices_def
  parse_slice_def format_date_def fmt_pad_def show_nat.simps days_in_month_def digit_char_eval

section \<open>Properties\<close>

text \<open>Reading back a version: the canonical text of any release segment with components in
  64 bits, stage and stage number (\<^verbatim>\<open>7.0.0.dev1\<close>, \<^verbatim>\<open>7.0.0a1\<close>, \<^verbatim>\<open>7.0.0rc1\<close>, \<^verbatim>\<open>7.0.0.post1\<close>) is read
  as exactly that release (trailing zeros aside), stage and number.\<close>

theorem version_roundtrip:
  assumes "ns \<noteq> []" and "list_all (\<lambda>k. k < 2 ^ 64) ns" and "n < 2 ^ 64" and "st = Stable \<longrightarrow> n = 0"
  shows "parse_version_for_ordering (version_text ns st n) =
     Some \<lparr>release = drop_trailing_zeros ns, stage = st, stage_number = n\<rparr>"
  by (rule parse_version_text [OF assms])

theorem version_roundtrip_witness:
  "parse_version_for_ordering (version_text [7, 0, 0] Rc 1) =
     Some \<lparr>release = [7], stage = Rc, stage_number = 1\<rparr>"
  using version_roundtrip [of "[7, 0, 0]" 1 Rc] by simp

text \<open>C18. The order is PEP 440's: on canonical texts \<open>compare_version_strings\<close> compares the
  release segments with the shorter one padded with zeros (\<^verbatim>\<open>7.9 < 7.10.0\<close>,
  \<^verbatim>\<open>7.2.4 < 7.2.4.70204 < 7.2.5\<close>), within a release the stages in the order dev, alpha, beta, rc,
  final, post, within a stage its number, and only between equal versions the raw strings.\<close>

theorem pep440_order:
  assumes "ns \<noteq> []" and "list_all (\<lambda>k. k < 2 ^ 64) ns" and "n < 2 ^ 64" and "st = Stable \<longrightarrow> n = 0"
    and "ms \<noteq> []" and "list_all (\<lambda>k. k < 2 ^ 64) ms" and "m < 2 ^ 64" and "su = Stable \<longrightarrow> m = 0"
    and "k = max (length ns) (length ms)"
  shows "compare_version_strings (version_text ns st n) (version_text ms su m) =
     then_with (cmp (pad_to k ns) (pad_to k ms))
       (then_with (cmp (stage_rank st) (stage_rank su))
         (then_with (cmp n m) (cmp (version_text ns st n) (version_text ms su m))))"
proof -
  have "cmp st su = cmp (stage_rank st) (stage_rank su)"
    by (simp add: cmp_def less_version_stage_def stage_rank_inj)
  moreover have "cmp (drop_trailing_zeros ns) (drop_trailing_zeros ms) = cmp (pad_to k ns) (pad_to k ms)"
    using assms(9) by (intro cmp_padded) simp_all
  moreover have "then_with (then_with a b) c = then_with a (then_with b c)" for a b c
    by (cases a) simp_all
  ultimately show ?thesis
    unfolding compare_version_strings_def parse_version_text [OF assms(1-4)]
      parse_version_text [OF assms(5-8)]
    by (simp add: key_cmp_def)
qed

theorem pep440_order_witness:
  "compare_version_strings (version_text [7, 9] Stable 0) (version_text [7, 10, 0] Rc 2) = Less \<and>
   cmp (pad_to 3 [7, 9]) (pad_to 3 [7, 10, 0]) = Less"
proof -
  have "cmp (pad_to 3 [7, 9]) (pad_to 3 [7, 10, 0]) = Less" by (simp add: pad_to_def)
  with pep440_order [of "[7, 9]" 0 Stable "[7, 10, 0]" 2 Rc 3] show ?thesis by simp
qed

text \<open>The newest candidate: \<open>max_by\<close> over \<open>compare_version_strings\<close> picks a member of the
  listing that no other candidate exceeds, picks a readable version whenever one is listed, and its
  pick depends only on which versions are listed, not on the order or repetition of the listing.\<close>

theorem newest_version:
  assumes "max_by compare_version_strings candidates = Some v"
  shows "v \<in> set candidates \<and>
     (\<forall>w \<in> set candidates. compare_version_strings w v \<noteq> Greater) \<and>
     ((\<exists>w \<in> set candidates. parse_version_for_ordering w \<noteq> None) \<longrightarrow>
        parse_version_for_ordering v \<noteq> None) \<and>
     (\<forall>others. set others = set candidates \<longrightarrow> max_by compare_version_strings others = Some v)"
proof -
  note m = versions.max_by_Some [OF assms]
  have "parse_version_for_ordering v \<noteq> None"
    if "w \<in> set candidates" "parse_version_for_ordering w \<noteq> None" for w
    using m(2) [OF that(1)] that(2) by (auto simp: compare_version_strings_def split: option.splits)
  moreover have "max_by compare_version_strings others = Some v" if "set others = set candidates" for others
    using versions.max_by_set_eq [OF that] assms by simp
  ultimately show ?thesis using m by blast
qed

lemma newest_example:
  "max_by compare_version_strings [''7.9.0'', ''7.10.0rc1'', ''nightly''] = Some ''7.10.0rc1''"
  by (simp add: compare_version_strings_def version_eval)

theorem newest_version_witness:
  "max_by compare_version_strings [''nightly'', ''7.10.0rc1'', ''7.9.0'', ''nightly''] = Some ''7.10.0rc1''"
proof -
  have "set [''nightly'', ''7.10.0rc1'', ''7.9.0'', ''nightly''] = set [''7.9.0'', ''7.10.0rc1'', ''nightly'']"
    by auto
  with newest_version [OF newest_example] show ?thesis by blast
qed

text \<open>Same build or another: \<open>version_relation\<close> answers \<^verbatim>\<open>Equal\<close> exactly for one string or two
  readable spellings of one version, declines exactly when the strings differ and one of them is
  unreadable, flips with its arguments, and never contradicts the order used for sorting.\<close>

theorem version_relation_spec:
  "(version_relation l r = Some Equal \<longleftrightarrow>
      l = r \<or> (\<exists>k. parse_version_for_ordering l = Some k \<and> parse_version_for_ordering r = Some k)) \<and>
   (version_relation l r = None \<longleftrightarrow>
      l \<noteq> r \<and> (parse_version_for_ordering l = None \<or> parse_version_for_ordering r = None)) \<and>
   version_relation r l = map_option reverse_ord (version_relation l r) \<and>
   (version_relation l r \<in> {None, Some Equal, Some (compare_version_strings l r)})"
proof -
  have "version_relation r l = map_option reverse_ord (version_relation l r)"
    by (auto simp: version_relation_def split: option.split simp flip: key_cmp_flip)
  moreover have "version_relation l r \<in> {None, Some Equal, Some (compare_version_strings l r)}"
  proof (cases "version_relation l r")
    case (Some c)
    then show ?thesis
      by (cases c) (auto simp: version_relation_def compare_version_strings_def
          split: if_splits option.splits)
  qed simp
  moreover have "version_relation l r = Some Equal \<longleftrightarrow>
      l = r \<or> (\<exists>k. parse_version_for_ordering l = Some k \<and> parse_version_for_ordering r = Some k)"
    by (auto simp: version_relation_def split: option.split)
  moreover have "version_relation l r = None \<longleftrightarrow>
      l \<noteq> r \<and> (parse_version_for_ordering l = None \<or> parse_version_for_ordering r = None)"
    by (auto simp: version_relation_def split: option.split)
  ultimately show ?thesis by blast
qed

text \<open>The two grammars agree where they overlap: a version the strict gate accepts is read by
  the ordering parser too, with the gate's major and minor as its first two release components,
  the gate's stage, and one further component.\<close>

theorem strict_within_lenient:
  assumes "parse_version v = Some p"
  shows "\<exists>patch n. parse_version_for_ordering v =
     Some \<lparr>release = drop_trailing_zeros [major p, minor p, patch], stage = parsed_stage p,
           stage_number = n\<rparr> \<and> parsed_stage p \<in> {Alpha, Rc, Stable}"
proof -
  obtain mj mn pt s where
    v: "public_part v = mj @ CHR ''.'' # mn @ CHR ''.'' # pt @ s" and
    ne: "mj \<noteq> []" "mn \<noteq> []" "pt \<noteq> []" "list_all is_ascii_digit (mj @ mn @ pt)" and
    val: "digits_val mj = major p" "digits_val mn = minor p" and
    b: "major p < 2 ^ 32" "minor p < 2 ^ 32" "digits_val pt < 2 ^ 32" and
    s: "strict_suffix (parsed_stage p) s"
    using parse_version_shape [OF assms] by blast
  note r = strict_suffix_reads [OF s]
  obtain n where n: "parse_version_stage s = Some (parsed_stage p, n)" using r(1) by blast
  have w: "x < 2 ^ 64" if "x < (2::nat) ^ 32" for x
    using that by (rule order_less_le_trans) simp
  have ch: "is_ascii_digit c \<or> is_ascii_lower c \<or> c = CHR ''.''" if "c \<in> set (public_part v)" for c
    using that ne(4) r(3) unfolding v by (auto simp: list_all_iff)
  have "list_all (\<lambda>c. ascii_graphic c \<and> \<not> is_ascii_upper c \<and> c \<notin> {CHR ''+'', CHR ''!''})
      (public_part v)"
    unfolding list_all_iff by (intro ballI conjI) (simp_all add: plain_char [OF ch])
  moreover have "starts_with_digit (public_part v)" unfolding v using ne by simp
  moreover have "parse_release (public_part v) = Some ([major p, minor p, digits_val pt], s)"
    unfolding v using strict_release [OF ne _ _ _ r(2)] b val by (simp add: w)
  ultimately have "parse_version_for_ordering (public_part v) = Some \<lparr>release =
     drop_trailing_zeros [major p, minor p, digits_val pt], stage = parsed_stage p, stage_number = n\<rparr>"
    by (simp add: parse_for_ordering_plain n del: drop_trailing_zeros_simps)
  moreover have "parsed_stage p \<in> {Alpha, Rc, Stable}" using s by (auto simp: strict_suffix_def)
  ultimately show ?thesis unfolding parse_public_part by blast
qed

lemma strict_example:
  "parse_version ''7.10.0rc3+rocm'' = Some \<lparr>major = 7, minor = 10, parsed_stage = Rc\<rparr>"
  by (simp add: version_eval)

theorem strict_within_lenient_witness:
  "\<exists>patch n. parse_version_for_ordering ''7.10.0rc3+rocm'' =
     Some \<lparr>release = drop_trailing_zeros [7, 10, patch], stage = Rc, stage_number = n\<rparr>"
  using strict_within_lenient [OF strict_example] by (simp del: drop_trailing_zeros_simps)

text \<open>Build dates: \<^verbatim>\<open>--build-date\<close> accepts a valid calendar date of this century written
  \<^verbatim>\<open>YYYY-MM-DD\<close>, \<^verbatim>\<open>YYYYMMDD\<close> or \<^verbatim>\<open>MMDDYYYY\<close> and normalises the three spellings to one text, which
  normalises to itself; whatever it accepts is such a date.\<close>

theorem build_date_normal_form:
  "(valid_date y m d \<longrightarrow>
      normalize_requested_build_date (format_date y m d) = Inr (format_date y m d) \<and>
      normalize_requested_build_date (fmt_pad 4 y @ fmt_pad 2 m @ fmt_pad 2 d) = Inr (format_date y m d) \<and>
      normalize_requested_build_date (fmt_pad 2 m @ fmt_pad 2 d @ fmt_pad 4 y) = Inr (format_date y m d)) \<and>
   (normalize_requested_build_date text = Inr r \<longrightarrow>
      (\<exists>y m d. valid_date y m d \<and> r = format_date y m d))"
proof -
  have ne: "fmt_pad w n \<noteq> []" for w n by (simp add: fmt_pad_def)
  note g = fmt_pad_facts(1) [THEN digits_graphic]
  have f: "filter is_ascii_digit (fmt_pad w n) = fmt_pad w n" for w n
    using filter_digits [OF fmt_pad_facts(1) [of w n], of "[]"] by simp
  have "normalize_requested_build_date (format_date y m d) = Inr (format_date y m d)"
    "normalize_requested_build_date (fmt_pad 4 y @ fmt_pad 2 m @ fmt_pad 2 d) = Inr (format_date y m d)"
    "normalize_requested_build_date (fmt_pad 2 m @ fmt_pad 2 d @ fmt_pad 4 y) = Inr (format_date y m d)"
    if v: "valid_date y m d"
    by (rule normalize_digits [OF v trim_graphic]; simp add: format_date_def g f ne)+
  with normalize_valid show ?thesis by blast
qed

theorem build_date_normal_form_witness:
  "normalize_requested_build_date (fmt_pad 2 2 @ fmt_pad 2 29 @ fmt_pad 4 2024) =
     Inr (format_date 2024 2 29) \<and> valid_date 2024 2 29"
proof -
  have "valid_date 2024 2 29" by (simp add: valid_date_def days_in_month_def is_leap_year_def)
  with build_date_normal_form [of 2024 2 29] show ?thesis by blast
qed

text \<open>The date shown beside an installed version is that of the leftmost window of eight bytes
  that are digits and a valid date, and is itself a valid date.\<close>

theorem build_date_leftmost:
  "(runtime_version_build_date v = Some r \<longleftrightarrow>
      (\<exists>i. i + 8 \<le> length v \<and> window_date (take 8 (drop i v)) = Some r \<and>
         (\<forall>j < i. window_date (take 8 (drop j v)) = None))) \<and>
   (runtime_version_build_date v = Some r \<longrightarrow>
      (\<exists>y m d. valid_date y m d \<and> r = format_date y m d))"
proof -
  have "first_window v = Some r \<longleftrightarrow>
      (\<exists>i. i + 8 \<le> length v \<and> window_date (take 8 (drop i v)) = Some r \<and>
         (\<forall>j < i. window_date (take 8 (drop j v)) = None))" (is "_ \<longleftrightarrow> (\<exists>i. ?P v i)")
  proof (induction v)
    case (Cons c cs)
    define w where "w = window_date (take 8 (c # cs))"
    have 0: "(\<exists>i. ?P (c # cs) i) \<longleftrightarrow> ?P (c # cs) 0 \<or> (\<exists>i. ?P (c # cs) (Suc i))"
      by (rule ex_nat_split)
    have z: "?P (c # cs) 0 \<longleftrightarrow> 8 \<le> Suc (length cs) \<and> w = Some r"
      by (simp add: w_def del: take_Suc_Cons)
    have s: "?P (c # cs) (Suc i) \<longleftrightarrow> w = None \<and> ?P cs i" for i
      unfolding w_def All_less_Suc2 drop_0 drop_Suc_Cons by auto
    have u: "first_window (c # cs) = (if length cs < 7 then None else
        case w of Some d \<Rightarrow> Some d | None \<Rightarrow> first_window cs)"
      by (simp add: w_def del: take_Suc_Cons)
    show ?case
      unfolding 0 s z u using Cons.IH by (cases w) auto
  qed simp
  with window_date_valid show ?thesis
    unfolding runtime_version_build_date_def by blast
qed

lemma build_date_example: "runtime_version_build_date ''7.10.0a20251120'' = Some ''2025-11-20''"
  by (simp add: version_eval)

theorem build_date_leftmost_witness:
  "\<exists>y m d. valid_date y m d \<and> ''2025-11-20'' = format_date y m d"
  using build_date_leftmost build_date_example by blast

end
