(* ===== verification/Gguf.thy ===== *)
theory Gguf
  imports Prelude "HOL-Library.AList"
begin

text \<open>
  \<^verbatim>\<open>crates/rocm-core/src/gguf.rs\<close>: reading the shape of a GGUF model from its header. A byte is
  a \<^typ>\<open>char\<close>, a Rust string its UTF-8 bytes. The \<^verbatim>\<open>Read + Seek\<close> source is a cursor over the bytes
  of the file with the place, if any, at which the medium fails; a method of \<^verbatim>\<open>Reader\<close> is a function
  from the cursor to an error or a result and the moved cursor, and \<^verbatim>\<open>?\<close> is \<open>rbind\<close>.
\<close>

section \<open>Constants\<close>

definition MAX_ENTRIES :: u64 where "MAX_ENTRIES = 1048576"
definition MAX_KEY_LEN :: u64 where "MAX_KEY_LEN = 4096"
definition MAX_KEPT_STRING :: u64 where "MAX_KEPT_STRING = 4096"
definition MAX_KEPT_ARRAY :: u64 where "MAX_KEPT_ARRAY = 4096"
definition MAX_TENSOR_DIMS :: u32 where "MAX_TENSOR_DIMS = 8"
definition MAX_ARRAY_DEPTH :: nat where "MAX_ARRAY_DEPTH = 2"
definition MAX_HEADER_BYTES :: u64 where "MAX_HEADER_BYTES = 67108864"
definition MAX_BLOCK_COUNT :: u64 where "MAX_BLOCK_COUNT = 10000"
definition MAX_KEPT_KEYS :: nat where "MAX_KEPT_KEYS = 64"
definition SIZE_CHECK_EVERY :: nat where "SIZE_CHECK_EVERY = 4096"
definition DEFAULT_ALIGNMENT :: u64 where "DEFAULT_ALIGNMENT = 32"

definition SUPPORTED_VERSIONS :: "u32 list" where
  "SUPPORTED_VERSIONS = [2, 3]"

definition KEPT_KEY_SUFFIXES :: "string list" where
  "KEPT_KEY_SUFFIXES =
     [''.block_count'', ''.embedding_length'', ''.attention.head_count'',
      ''.attention.head_count_kv'', ''.attention.key_length'', ''.attention.value_length'',
      ''.feed_forward_length'', ''.context_length'', ''.attention.sliding_window'']"

lemmas gguf_bounds = MAX_ENTRIES_def MAX_KEY_LEN_def MAX_KEPT_STRING_def MAX_KEPT_ARRAY_def
  MAX_TENSOR_DIMS_def MAX_ARRAY_DEPTH_def MAX_HEADER_BYTES_def MAX_BLOCK_COUNT_def
  MAX_KEPT_KEYS_def SIZE_CHECK_EVERY_def DEFAULT_ALIGNMENT_def SUPPORTED_VERSIONS_def

definition is_kept_key :: "string \<Rightarrow> bool" where
  "is_kept_key key \<longleftrightarrow> list_ex (ends_with key) KEPT_KEY_SUFFIXES"

section \<open>Errors and data\<close>

text \<open>The reason of a \<^verbatim>\<open>Malformed\<close>, one constructor per message of the source.\<close>

datatype malformed =
    LengthTooLarge u64
  | HeaderTooLarge
  | ArrayOutOfRange u64
  | UnknownValueType u32
  | NestedTooDeeply
  | UnknownElementType u32
  | ImplausibleEntries string u64
  | KeyTooLong
  | TooManyShapeKeys
  | AlignmentZero
  | NameTooLong
  | TooManyDimensions u32
  | ImplausibleLayers u64

datatype gguf_error =
    NotGguf
  | UnsupportedVersion u32
  | Truncated
  | Malformed malformed
  | Io

datatype per_layer_figure = Uniform u64 | Each "u64 list"

definition per_layer_at :: "per_layer_figure \<Rightarrow> nat \<Rightarrow> u64 option" where
  "per_layer_at fig layer =
     (case fig of
        Uniform v \<Rightarrow> Some v
      | Each vs \<Rightarrow> if layer < length vs then Some (vs ! layer) else None)"

record tensor_span =
  offset :: u64
  next_offset :: "u64 option"

record gguf_header =
  version :: u32
  architecture :: "string option"
  tensor_count :: u64
  param_count :: u64
  data_offset :: u64
  block_count :: "u64 option"
  embedding_length :: "u64 option"
  head_count :: "per_layer_figure option"
  head_count_kv :: "per_layer_figure option"
  key_length :: "u64 option"
  value_length :: "u64 option"
  feed_forward_length :: "u64 option"
  context_length :: "u64 option"
  split_count :: "u64 option"
  sliding_window :: bool
  ssm :: bool
  latent_attention :: bool
  moe :: bool
  token_embd :: "tensor_span option"
  has_output :: bool

datatype gvalue = Uint u64 | Str string | Ints "u64 list" | Skipped

datatype num_kind = Unsigned | Signed | Other

section \<open>The reader\<close>

record reader =
  bytes :: "char list"
  fault :: "nat option"
  pos :: nat

type_synonym 'a rd = "reader \<Rightarrow> gguf_error + 'a \<times> reader"

definition rret :: "'a \<Rightarrow> 'a rd" where
  "rret x r = Inr (x, r)"

definition rfail :: "gguf_error \<Rightarrow> 'a rd" where
  "rfail e r = Inl e"

definition rbind :: "'a rd \<Rightarrow> ('a \<Rightarrow> 'b rd) \<Rightarrow> 'b rd" where
  "rbind m f r = bind_result (m r) (\<lambda>(x, r'). f x r')"

text \<open>\<^verbatim>\<open>read_exact\<close>: nothing to do for an empty buffer; otherwise the bytes in order until the
  medium fails (an I/O error) or the data ends (\<^verbatim>\<open>UnexpectedEof\<close>, which \<^verbatim>\<open>From<io::Error>\<close> turns
  into \<^verbatim>\<open>Truncated\<close>).\<close>

definition read_exact :: "nat \<Rightarrow> char list rd" where
  "read_exact n r =
     (if n = 0 then Inr ([], r)
      else case fault r of
        Some b \<Rightarrow>
          if pos r + n \<le> length (bytes r) \<and> pos r + n \<le> b
          then Inr (take n (drop (pos r) (bytes r)), r\<lparr>pos := pos r + n\<rparr>)
          else if b < length (bytes r) \<and> pos r < length (bytes r) \<and> b < pos r + n then Inl Io
          else Inl Truncated
      | None \<Rightarrow>
          if pos r + n \<le> length (bytes r)
          then Inr (take n (drop (pos r) (bytes r)), r\<lparr>pos := pos r + n\<rparr>)
          else Inl Truncated)"

fun le_val :: "char list \<Rightarrow> nat" where
  "le_val [] = 0"
| "le_val (b # bs) = of_char b + 256 * le_val bs"

definition read_u32 :: "u32 rd" where
  "read_u32 = rbind (read_exact 4) (\<lambda>bs. rret (of_nat (le_val bs)))"

definition read_u64 :: "u64 rd" where
  "read_u64 = rbind (read_exact 8) (\<lambda>bs. rret (of_nat (le_val bs)))"

text \<open>A seek may leave the data; after the bound the conversion to \<^verbatim>\<open>i64\<close> cannot fail.\<close>

definition skip :: "u64 \<Rightarrow> unit rd" where
  "skip count r =
     (if count > MAX_HEADER_BYTES then Inl (Malformed (LengthTooLarge count))
      else Inr ((), r\<lparr>pos := pos r + unat count\<rparr>))"

definition check_size :: "unit rd" where
  "check_size r =
     (if pos r > unat MAX_HEADER_BYTES then Inl (Malformed HeaderTooLarge) else Inr ((), r))"

text \<open>\<^verbatim>\<open>String::from_utf8_lossy\<close>: well-formed sequences are kept, every maximal ill-formed part
  becomes U+FFFD.\<close>

definition cont :: "nat \<Rightarrow> nat \<Rightarrow> char \<Rightarrow> bool" where
  "cont lo hi c \<longleftrightarrow> lo \<le> of_char c \<and> of_char c \<le> hi"

definition second_range :: "nat \<Rightarrow> nat \<times> nat" where
  "second_range b =
     (if b = 224 then (160, 191) else if b = 237 then (128, 159)
      else if b = 240 then (144, 191) else if b = 244 then (128, 143) else (128, 191))"

definition utf8_width :: "nat \<Rightarrow> nat" where
  "utf8_width b =
     (if b < 128 then 1 else if 194 \<le> b \<and> b \<le> 223 then 2
      else if 224 \<le> b \<and> b \<le> 239 then 3 else if 240 \<le> b \<and> b \<le> 244 then 4 else 0)"

definition replacement :: string where
  "replacement = map char_of [239, 191, 189 :: nat]"

text \<open>How many of the bytes after the first belong to its sequence, at most \<open>k\<close>.\<close>

definition tail_len :: "nat \<Rightarrow> char list \<Rightarrow> nat" where
  "tail_len b bs =
     (let k = utf8_width b - 1
      in case bs of
           [] \<Rightarrow> 0
         | c # cs \<Rightarrow>
             if 0 < k \<and> cont (fst (second_range b)) (snd (second_range b)) c
             then Suc (length (takeWhile (cont 128 191) (take (k - 1) cs))) else 0)"

function from_utf8_lossy :: "char list \<Rightarrow> string" where
  "from_utf8_lossy [] = []"
| "from_utf8_lossy (b # bs) =
     (let n = tail_len (of_char b) bs
      in (if Suc n = utf8_width (of_char b) then b # take n bs else replacement)
         @ from_utf8_lossy (drop n bs))"
  by pat_completeness auto
termination
  by (relation "measure length") auto

declare from_utf8_lossy.simps [simp del]

definition read_string :: "u64 \<Rightarrow> string option rd" where
  "read_string keep_up_to =
     rbind read_u64 (\<lambda>len.
       if len > keep_up_to then rbind (skip len) (\<lambda>_. rret None)
       else rbind (read_exact (unat len)) (\<lambda>buf. rret (Some (from_utf8_lossy buf))))"

definition fixed_width :: "u32 \<Rightarrow> (nat \<times> num_kind) option" where
  "fixed_width type_id =
     (if type_id = 0 \<or> type_id = 7 then Some (1, Unsigned)
      else if type_id = 1 then Some (1, Signed)
      else if type_id = 2 then Some (2, Unsigned)
      else if type_id = 3 then Some (2, Signed)
      else if type_id = 4 then Some (4, Unsigned)
      else if type_id = 5 then Some (4, Signed)
      else if type_id = 6 then Some (4, Other)
      else if type_id = 10 then Some (8, Unsigned)
      else if type_id = 11 then Some (8, Signed)
      else if type_id = 12 then Some (8, Other)
      else None)"

text \<open>The first \<open>width\<close> bytes of the zeroed buffer; the shifts of an \<^verbatim>\<open>i64\<close> are arithmetic.\<close>

definition decode_int :: "char list \<Rightarrow> nat \<Rightarrow> num_kind \<Rightarrow> u64 option" where
  "decode_int buf width kind =
     (case kind of
        Other \<Rightarrow> None
      | Unsigned \<Rightarrow> Some (of_nat (le_val buf))
      | Signed \<Rightarrow>
          (let shift = 64 - 8 * width;
               signed = signed_drop_bit shift (push_bit shift (of_nat (le_val buf) :: u64))
           in if sint signed < 0 then None else Some signed))"

definition read_scalar :: "nat \<Rightarrow> num_kind \<Rightarrow> gvalue rd" where
  "read_scalar width kind =
     rbind (read_exact width) (\<lambda>buf.
       rret (case decode_int buf width kind of None \<Rightarrow> Skipped | Some v \<Rightarrow> Uint v))"

text \<open>The loop that keeps an integer array: the values so far and whether all were usable.\<close>

fun read_ints :: "nat \<Rightarrow> nat \<Rightarrow> num_kind \<Rightarrow> u64 list \<Rightarrow> bool \<Rightarrow> (u64 list \<times> bool) rd" where
  "read_ints 0 width kind vs usable = rret (vs, usable)"
| "read_ints (Suc n) width kind vs usable =
     rbind (read_exact width) (\<lambda>buf.
       case decode_int buf width kind of
         Some v \<Rightarrow> read_ints n width kind (vs @ [v]) usable
       | None \<Rightarrow> read_ints n width kind vs False)"

text \<open>The loops over elements that are skipped, with the size checked every
  \<^const>\<open>SIZE_CHECK_EVERY\<close> items: \<open>n\<close> are left, \<open>item\<close> is the index of the next.\<close>

fun skip_items :: "unit rd \<Rightarrow> nat \<Rightarrow> nat \<Rightarrow> unit rd" where
  "skip_items body 0 item = rret ()"
| "skip_items body (Suc n) item =
     rbind body (\<lambda>_.
       rbind (if item mod SIZE_CHECK_EVERY = SIZE_CHECK_EVERY - 1 then check_size else rret ()) (\<lambda>_.
         skip_items body n (Suc item)))"

definition skip_string :: "unit rd" where
  "skip_string = rbind read_u64 skip"

text \<open>\<open>nested\<close> reads an element that is itself an array, and is absent at the depth where
  those are refused.\<close>

definition read_array_with :: "gvalue rd option \<Rightarrow> bool \<Rightarrow> gvalue rd" where
  "read_array_with nested keep =
     rbind read_u32 (\<lambda>element_type.
       rbind read_u64 (\<lambda>len.
         case fixed_width element_type of
           Some (width, kind) \<Rightarrow>
             if keep \<and> kind \<noteq> Other \<and> len \<le> MAX_KEPT_ARRAY
             then rbind (read_ints (unat len) width kind [] True) (\<lambda>(vs, usable).
                    rret (if usable then Ints vs else Skipped))
             else (case checked_mul len (of_nat width) of
                     None \<Rightarrow> rfail (Malformed (ArrayOutOfRange len))
                   | Some nbytes \<Rightarrow> rbind (skip nbytes) (\<lambda>_. rret Skipped))
         | None \<Rightarrow>
             if element_type = 8
             then rbind (skip_items skip_string (unat len) 0) (\<lambda>_. rret Skipped)
             else if element_type = 9
             then (case nested of
                     None \<Rightarrow> rfail (Malformed NestedTooDeeply)
                   | Some element \<Rightarrow>
                       rbind (skip_items (rbind element (\<lambda>_. rret ())) (unat len) 0) (\<lambda>_. rret Skipped))
             else rfail (Malformed (UnknownElementType element_type))))"

definition read_value_with :: "gvalue rd \<Rightarrow> u32 \<Rightarrow> gvalue rd" where
  "read_value_with arr value_type =
     (case fixed_width value_type of
        Some (width, kind) \<Rightarrow> read_scalar width kind
      | None \<Rightarrow>
          if value_type = 8
          then rbind (read_string MAX_KEPT_STRING)
                 (\<lambda>s. rret (case s of None \<Rightarrow> Skipped | Some x \<Rightarrow> Str x))
          else if value_type = 9 then arr
          else rfail (Malformed (UnknownValueType value_type)))"

text \<open>The recursion of \<^verbatim>\<open>array\<close> through \<^verbatim>\<open>value\<close>, on the levels left: \<^const>\<open>MAX_ARRAY_DEPTH\<close> less
  the depth.\<close>

primrec read_array :: "nat \<Rightarrow> bool \<Rightarrow> gvalue rd" where
  "read_array 0 keep = read_array_with None keep"
| "read_array (Suc left) keep = read_array_with (Some (read_value_with (read_array left False) 9)) keep"

definition read_value :: "u32 \<Rightarrow> nat \<Rightarrow> bool \<Rightarrow> gvalue rd" where
  "read_value value_type depth keep =
     read_value_with (read_array (MAX_ARRAY_DEPTH - depth) keep) value_type"

section \<open>The header\<close>

definition per_layer :: "gvalue option \<Rightarrow> per_layer_figure option" where
  "per_layer v =
     (case v of
        Some (Uint x) \<Rightarrow> Some (Uniform x)
      | Some (Ints xs) \<Rightarrow> Some (Each xs)
      | _ \<Rightarrow> None)"

definition max_word :: "u64 list \<Rightarrow> u64 option" where
  "max_word xs = (case xs of [] \<Rightarrow> None | y # ys \<Rightarrow> Some (foldl max y ys))"

definition uint_of :: "gvalue option \<Rightarrow> u64 option" where
  "uint_of v =
     (case v of
        Some (Uint x) \<Rightarrow> Some x
      | Some (Ints xs) \<Rightarrow> max_word xs
      | _ \<Rightarrow> None)"

definition align_up :: "u64 \<Rightarrow> u64 \<Rightarrow> u64" where
  "align_up v alignment = saturating_mul (div_ceil v alignment) alignment"

text \<open>The variables of the metadata loop.\<close>

record metadata =
  m_architecture :: "string option"
  m_alignment :: u64
  m_split_count :: "u64 option"
  m_sliding_window :: bool
  m_ssm :: bool
  m_latent_attention :: bool
  m_moe :: bool
  m_kept :: "(string \<times> gvalue) list"

definition metadata0 :: metadata where
  "metadata0 = \<lparr>m_architecture = None, m_alignment = DEFAULT_ALIGNMENT, m_split_count = None,
     m_sliding_window = False, m_ssm = False, m_latent_attention = False, m_moe = False,
     m_kept = []\<rparr>"

definition exceeds :: "u64 \<Rightarrow> u64 option \<Rightarrow> bool" where
  "exceeds n v = (case v of None \<Rightarrow> False | Some x \<Rightarrow> x > n)"

text \<open>The last arm of the match: the flags, then the slot of a value that is read later. The
  ordered map of kept values is an association list with one entry per key.\<close>

definition keep_value :: "metadata \<Rightarrow> string \<Rightarrow> gvalue \<Rightarrow> gguf_error + metadata" where
  "keep_value m key v =
     (let m = m\<lparr>m_ssm := m_ssm m \<or> str_contains key ''.ssm.'',
                 m_latent_attention := m_latent_attention m \<or> ends_with key ''.attention.kv_lora_rank'',
                 m_moe := m_moe m \<or> ends_with key ''.expert_count'' \<and> exceeds 1 (uint_of (Some v)),
                 m_sliding_window := m_sliding_window m \<or>
                   ends_with key ''.attention.sliding_window'' \<and> exceeds 0 (uint_of (Some v))\<rparr>;
          read_later = (\<not> ends_with key ''.attention.sliding_window'')
      in if is_kept_key key \<and> read_later \<and> (case v of Uint _ \<Rightarrow> True | Ints _ \<Rightarrow> True | _ \<Rightarrow> False)
         then if length (m_kept m) \<ge> MAX_KEPT_KEYS \<and> map_of (m_kept m) key = None
              then Inl (Malformed TooManyShapeKeys)
              else Inr (m\<lparr>m_kept := AList.update key v (m_kept m)\<rparr>)
         else Inr m)"

definition apply_entry :: "metadata \<Rightarrow> string \<Rightarrow> gvalue \<Rightarrow> gguf_error + metadata" where
  "apply_entry m key v =
     (case v of
        Str name \<Rightarrow>
          if key = ''general.architecture'' then Inr (m\<lparr>m_architecture := Some name\<rparr>)
          else keep_value m key v
      | Uint x \<Rightarrow>
          if key = ''general.alignment'' then Inr (m\<lparr>m_alignment := x\<rparr>)
          else if key = ''split.count'' then Inr (m\<lparr>m_split_count := Some x\<rparr>)
          else keep_value m key v
      | _ \<Rightarrow> keep_value m key v)"

definition lift_result :: "gguf_error + 'a \<Rightarrow> 'a rd" where
  "lift_result x = (case x of Inl e \<Rightarrow> rfail e | Inr a \<Rightarrow> rret a)"

definition read_entry :: "metadata \<Rightarrow> metadata rd" where
  "read_entry m =
     rbind (read_string MAX_KEY_LEN) (\<lambda>k.
       case k of
         None \<Rightarrow> rfail (Malformed KeyTooLong)
       | Some key \<Rightarrow>
           rbind read_u32 (\<lambda>value_type.
             rbind (read_value value_type 0 (is_kept_key key)) (\<lambda>v.
               rbind check_size (\<lambda>_.
                 lift_result (apply_entry m key v)))))"

fun rloop :: "('s \<Rightarrow> 's rd) \<Rightarrow> nat \<Rightarrow> 's \<Rightarrow> 's rd" where
  "rloop body 0 s = rret s"
| "rloop body (Suc n) s = rbind (body s) (rloop body n)"

text \<open>The variables of the loop over tensor records.\<close>

record tensors =
  t_param_count :: u64
  t_offsets :: "u64 list"
  t_token_embd_offset :: "u64 option"
  t_has_output :: bool

definition tensors0 :: tensors where
  "tensors0 = \<lparr>t_param_count = 0, t_offsets = [], t_token_embd_offset = None, t_has_output = False\<rparr>"

definition apply_tensor :: "tensors \<Rightarrow> string \<Rightarrow> u64 \<Rightarrow> u64 \<Rightarrow> tensors" where
  "apply_tensor t name elements off =
     t\<lparr>t_param_count := saturating_add (t_param_count t) elements,
       t_offsets := t_offsets t @ [off],
       t_token_embd_offset :=
         (if name = ''token_embd.weight'' then Some off else t_token_embd_offset t),
       t_has_output := t_has_output t \<or> name = ''output.weight''\<rparr>"

definition read_dim :: "u64 \<Rightarrow> u64 rd" where
  "read_dim elements = rbind read_u64 (\<lambda>d. rret (saturating_mul elements d))"

definition read_tensor :: "tensors \<Rightarrow> tensors rd" where
  "read_tensor t =
     rbind (read_string MAX_KEY_LEN) (\<lambda>k.
       case k of
         None \<Rightarrow> rfail (Malformed NameTooLong)
       | Some name \<Rightarrow>
           rbind read_u32 (\<lambda>dims.
             if dims > MAX_TENSOR_DIMS then rfail (Malformed (TooManyDimensions dims))
             else rbind (rloop read_dim (unat dims) 1) (\<lambda>elements.
               rbind read_u32 (\<lambda>_.
                 rbind read_u64 (\<lambda>off.
                   rbind check_size (\<lambda>_.
                     rret (apply_tensor t name elements off)))))))"

definition min_word :: "u64 list \<Rightarrow> u64 option" where
  "min_word xs = (case xs of [] \<Rightarrow> None | y # ys \<Rightarrow> Some (foldl min y ys))"

definition span_of :: "tensors \<Rightarrow> tensor_span option" where
  "span_of t =
     map_option (\<lambda>off. \<lparr>offset = off,
         next_offset = min_word (filter (\<lambda>other. other > off) (t_offsets t))\<rparr>)
       (t_token_embd_offset t)"

definition get_kept :: "metadata \<Rightarrow> string \<Rightarrow> gvalue option" where
  "get_kept m sfx =
     (case m_architecture m of
        None \<Rightarrow> None
      | Some arch \<Rightarrow> map_of (m_kept m) (arch @ ''.'' @ sfx))"

definition finish_header ::
  "u32 \<Rightarrow> u64 \<Rightarrow> metadata \<Rightarrow> tensors \<Rightarrow> u64 \<Rightarrow> gguf_error + gguf_header" where
  "finish_header ver tc m t header_end =
     bind_result
       (case uint_of (get_kept m ''block_count'') of
          Some blocks \<Rightarrow>
            if blocks > MAX_BLOCK_COUNT then Inl (Malformed (ImplausibleLayers blocks)) else Inr ()
        | None \<Rightarrow> Inr ())
       (\<lambda>_. Inr
       \<lparr>version = ver,
        architecture = m_architecture m,
        tensor_count = tc,
        param_count = t_param_count t,
        data_offset = align_up header_end (m_alignment m),
        block_count = uint_of (get_kept m ''block_count''),
        embedding_length = uint_of (get_kept m ''embedding_length''),
        head_count = per_layer (get_kept m ''attention.head_count''),
        head_count_kv = per_layer (get_kept m ''attention.head_count_kv''),
        key_length = uint_of (get_kept m ''attention.key_length''),
        value_length = uint_of (get_kept m ''attention.value_length''),
        feed_forward_length = uint_of (get_kept m ''feed_forward_length''),
        context_length = uint_of (get_kept m ''context_length''),
        split_count = m_split_count m,
        sliding_window = m_sliding_window m,
        ssm = m_ssm m,
        latent_attention = m_latent_attention m,
        moe = m_moe m,
        token_embd = span_of t,
        has_output = t_has_output t\<rparr>)"

definition position :: "nat rd" where
  "position r = Inr (pos r, r)"

definition parse_gguf_header :: "gguf_header rd" where
  "parse_gguf_header =
     rbind (read_exact 4) (\<lambda>magic.
       if magic \<noteq> ''GGUF'' then rfail NotGguf else
     rbind read_u32 (\<lambda>ver.
       if ver \<notin> set SUPPORTED_VERSIONS then rfail (UnsupportedVersion ver) else
     rbind read_u64 (\<lambda>tc.
     rbind read_u64 (\<lambda>mc.
       if tc > MAX_ENTRIES then rfail (Malformed (ImplausibleEntries ''tensor'' tc)) else
       if mc > MAX_ENTRIES then rfail (Malformed (ImplausibleEntries ''metadata'' mc)) else
     rbind (rloop read_entry (unat mc) metadata0) (\<lambda>m.
       if m_alignment m = 0 then rfail (Malformed AlignmentZero) else
     rbind (rloop read_tensor (unat tc) tensors0) (\<lambda>t.
     rbind position (\<lambda>header_end.
       lift_result (finish_header ver tc m t (of_nat header_end)))))))))"

section \<open>Integers\<close>

lemma le_val_bound: "le_val bs < 256 ^ length bs"
proof (induction bs)
  case (Cons b bs)
  have "(of_char b :: nat) < 256" by simp
  moreover from Cons have "256 * le_val bs + 256 \<le> 256 * 256 ^ length bs" by simp
  ultimately show ?case by (simp only: le_val.simps length_Cons power_Suc)
qed simp

lemma sint_of_uint:
  assumes "uint (w :: u64) = int a"
  shows "sint w = (if a < 2 ^ 63 then int a else int a - 2 ^ 64)"
proof -
  have s: "sint w = (uint w + 2 ^ 63) mod 2 ^ 64 - 2 ^ 63"
    by (simp add: sint_uint signed_take_bit_eq_take_bit_shift take_bit_eq_mod)
  show ?thesis
  proof (cases "a < 2 ^ 63")
    case True
    with s assms show ?thesis by simp
  next
    case False
    have "(int a + 2 ^ 63) mod 2 ^ 64 = (int a - 2 ^ 63 + 2 ^ 64) mod 2 ^ 64" by (simp add: add.commute)
    also have "\<dots> = (int a - 2 ^ 63) mod 2 ^ 64" by (rule mod_add_self2)
    also have "\<dots> = int a - 2 ^ 63" using False assms uint_lt2p [of w] by simp
    finally show ?thesis using s assms False by simp
  qed
qed

lemma sint_shift_back:
  fixes x :: nat and k :: nat
  assumes "k < 64" and "x < 2 ^ (64 - k)"
  shows "sint (signed_drop_bit k (push_bit k (of_nat x :: u64))) =
     (if x < 2 ^ (63 - k) then int x else int x - 2 ^ (64 - k))"
proof -
  have e64: "(2::nat) ^ 64 = 2 ^ (64 - k) * 2 ^ k" and e63: "(2::nat) ^ 63 = 2 ^ (63 - k) * 2 ^ k"
    using assms(1) by (simp_all flip: power_add)
  have lt: "x * 2 ^ k < 2 ^ 64" unfolding e64 using assms(2) by simp
  have u: "uint (push_bit k (of_nat x :: u64)) = int (x * 2 ^ k)"
  proof -
    have "push_bit k (of_nat x :: u64) = of_nat (x * 2 ^ k)" by (simp add: push_bit_eq_mult)
    moreover have "unat (of_nat (x * 2 ^ k) :: u64) = x * 2 ^ k"
      using lt by (simp only: unat_of_nat) (simp add: mod_less)
    ultimately show ?thesis by (simp only: uint_nat)
  qed
  have s: "sint (push_bit k (of_nat x :: u64)) =
      (if x * 2 ^ k < 2 ^ 63 then int (x * 2 ^ k) else int (x * 2 ^ k) - 2 ^ 64)"
    using u by (rule sint_of_uint)
  have c: "x * 2 ^ k < 2 ^ 63 \<longleftrightarrow> x < 2 ^ (63 - k)" unfolding e63 by simp
  have d: "int x * 2 ^ k - 2 ^ 64 = (int x - 2 ^ (64 - k)) * 2 ^ k"
    using assms(1) by (simp add: algebra_simps flip: power_add)
  show ?thesis
    unfolding sint_signed_drop_bit_eq drop_bit_eq_div s c by (simp add: d [simplified])
qed

lemma decode_signed:
  assumes "length buf = width" and "width \<in> {1, 2, 4, 8}"
  shows "decode_int buf width Signed =
     (if le_val buf < 2 ^ (8 * width - 1) then Some (of_nat (le_val buf)) else None)"
proof -
  let ?k = "64 - 8 * width"
  let ?s = "signed_drop_bit ?k (push_bit ?k (of_nat (le_val buf) :: u64))"
  have w: "8 * width \<le> 64" "0 < width" using assms(2) by auto
  have k: "64 - ?k = 8 * width" "63 - ?k = 8 * width - 1" "?k < 64" using w by auto
  have b: "le_val buf < 2 ^ (64 - ?k)"
    using le_val_bound [of buf] assms(1) unfolding k by (simp add: power_mult)
  note s = sint_shift_back [OF k(3) b, unfolded k]
  show ?thesis
  proof (cases "le_val buf < 2 ^ (8 * width - 1)")
    case True
    with s have "sint ?s = int (le_val buf)" by simp
    moreover from this have "?s = of_nat (le_val buf)" by (metis of_int_of_nat_eq scast_eq scast_id)
    ultimately show ?thesis using True by (simp add: decode_int_def Let_def)
  next
    case False
    from b k have "int (le_val buf) < 2 ^ (8 * width)" by (metis of_nat_less_iff of_nat_numeral of_nat_power)
    with s False have "sint ?s < 0" by simp
    with False show ?thesis by (simp add: decode_int_def Let_def)
  qed
qed

section \<open>What a read depends on\<close>

definition cut :: "nat \<Rightarrow> reader \<Rightarrow> reader" where
  "cut n r = r\<lparr>bytes := take n (bytes r)\<rparr>"

text \<open>The contract of every method of the reader: it moves forward and keeps the data, and on
  data cut short it does the same as before, or reports truncation, and not that when all the bytes
  it passed are still there.\<close>

definition prefix_local :: "'a rd \<Rightarrow> bool" where
  "prefix_local m \<longleftrightarrow>
     (\<forall>r n. case m r of
        Inr (x, r') \<Rightarrow>
          bytes r' = bytes r \<and> fault r' = fault r \<and> pos r \<le> pos r' \<and>
          (m (cut n r) = Inr (x, cut n r') \<or> m (cut n r) = Inl Truncated \<and> n < pos r')
      | Inl e \<Rightarrow> m (cut n r) = Inl e \<or> m (cut n r) = Inl Truncated)"

text \<open>Methods that end with a read leave the position within the data.\<close>

definition ends_inside :: "'a rd \<Rightarrow> bool" where
  "ends_inside m \<longleftrightarrow> (\<forall>r x r'. m r = Inr (x, r') \<longrightarrow> pos r' \<le> length (bytes r'))"

named_theorems reader_local \<open>methods of the reader that are prefix-local\<close>

lemma cut_simps [simp]:
  "bytes (cut n r) = take n (bytes r)" "fault (cut n r) = fault r" "pos (cut n r) = pos r"
  by (simp_all add: cut_def)

lemma prefix_localI:
  assumes "\<And>r x r' n. m r = Inr (x, r') \<Longrightarrow>
      bytes r' = bytes r \<and> fault r' = fault r \<and> pos r \<le> pos r' \<and>
      (m (cut n r) = Inr (x, cut n r') \<or> m (cut n r) = Inl Truncated \<and> n < pos r')"
    and "\<And>r e n. m r = Inl e \<Longrightarrow> m (cut n r) = Inl e \<or> m (cut n r) = Inl Truncated"
  shows "prefix_local m"
  unfolding prefix_local_def using assms by (auto split: sum.split)

lemma prefix_localD:
  assumes "prefix_local m"
  shows "m r = Inr (x, r') \<Longrightarrow> bytes r' = bytes r \<and> fault r' = fault r \<and> pos r \<le> pos r'"
    and "m r = Inr (x, r') \<Longrightarrow>
      m (cut n r) = Inr (x, cut n r') \<or> m (cut n r) = Inl Truncated \<and> n < pos r'"
    and "m r = Inl e \<Longrightarrow> m (cut n r) = Inl e \<or> m (cut n r) = Inl Truncated"
  using assms unfolding prefix_local_def by (auto split: sum.splits dest!: spec [of _ r])

lemma local_rret [reader_local]: "prefix_local (rret x)"
  by (rule prefix_localI) (auto simp: rret_def)

lemma local_rfail [reader_local]: "prefix_local (rfail e)"
  by (rule prefix_localI) (auto simp: rfail_def)

lemma rbind_Inr [simp]:
  "rbind m f r = Inr (y, r2) \<longleftrightarrow> (\<exists>x r1. m r = Inr (x, r1) \<and> f x r1 = Inr (y, r2))"
  by (auto simp: rbind_def)

lemma rbind_Inl:
  "rbind m f r = Inl e \<longleftrightarrow> m r = Inl e \<or> (\<exists>x r1. m r = Inr (x, r1) \<and> f x r1 = Inl e)"
  by (auto simp: rbind_def bind_result_Inl_iff)

lemma rbind_step:
  "m r = Inr (x, r1) \<Longrightarrow> rbind m f r = f x r1"
  "m r = Inl e \<Longrightarrow> rbind m f r = Inl e"
  by (simp_all add: rbind_def)

lemma local_rbind [reader_local]:
  assumes m: "prefix_local m" and f: "\<And>x. prefix_local (f x)"
  shows "prefix_local (rbind m f)"
proof (rule prefix_localI)
  fix r y r2 n
  assume "rbind m f r = Inr (y, r2)"
  then obtain x r1 where 1: "m r = Inr (x, r1)" and 2: "f x r1 = Inr (y, r2)" by auto
  note d = prefix_localD(1) [OF m 1] prefix_localD(1) [OF f 2]
  have "rbind m f (cut n r) = Inr (y, cut n r2) \<or> rbind m f (cut n r) = Inl Truncated \<and> n < pos r2"
    using prefix_localD(2) [OF m 1, of n] prefix_localD(2) [OF f 2, of n] d
    by (auto simp: rbind_step)
  with d show "bytes r2 = bytes r \<and> fault r2 = fault r \<and> pos r \<le> pos r2 \<and>
      (rbind m f (cut n r) = Inr (y, cut n r2) \<or> rbind m f (cut n r) = Inl Truncated \<and> n < pos r2)"
    by auto
next
  fix r e n
  assume "rbind m f r = Inl e"
  then consider "m r = Inl e" | x r1 where "m r = Inr (x, r1)" "f x r1 = Inl e"
    by (auto simp: rbind_Inl)
  then show "rbind m f (cut n r) = Inl e \<or> rbind m f (cut n r) = Inl Truncated"
  proof cases
    case 1
    from prefix_localD(3) [OF m 1, of n] show ?thesis by (auto simp: rbind_step)
  next
    case 2
    from prefix_localD(2) [OF m 2(1), of n] prefix_localD(3) [OF f 2(2), of n] show ?thesis
      by (auto simp: rbind_step)
  qed
qed

lemma local_read_exact [reader_local]: "prefix_local (read_exact k)"
proof (rule prefix_localI)
  fix r x r' n
  assume a: "read_exact k r = Inr (x, r')"
  show "bytes r' = bytes r \<and> fault r' = fault r \<and> pos r \<le> pos r' \<and>
      (read_exact k (cut n r) = Inr (x, cut n r') \<or> read_exact k (cut n r) = Inl Truncated \<and> n < pos r')"
  proof (cases "pos r + k \<le> n")
    case True
    with a show ?thesis
      by (auto simp: read_exact_def cut_def drop_take min_def split: if_splits option.splits)
  next
    case False
    with a show ?thesis
      by (auto simp: read_exact_def cut_def split: if_splits option.splits)
  qed
next
  fix r e n
  assume "read_exact k r = Inl e"
  then show "read_exact k (cut n r) = Inl e \<or> read_exact k (cut n r) = Inl Truncated"
    by (auto simp: read_exact_def split: if_splits option.splits)
qed

lemma local_skip [reader_local]: "prefix_local (skip c)"
  by (rule prefix_localI) (auto simp: skip_def cut_def split: if_splits)

lemma local_check_size [reader_local]: "prefix_local check_size"
  by (rule prefix_localI) (auto simp: check_size_def split: if_splits)

lemma local_position [reader_local]: "prefix_local position"
  by (rule prefix_localI) (auto simp: position_def)

lemma local_lift_result [reader_local]: "prefix_local (lift_result x)"
  by (cases x) (simp_all add: lift_result_def local_rret local_rfail)

lemma local_read_word [reader_local]: "prefix_local read_u32" "prefix_local read_u64"
  unfolding read_u32_def read_u64_def by (intro reader_local)+

lemma local_read_string [reader_local]: "prefix_local (read_string k)"
  unfolding read_string_def by (auto intro!: reader_local)

lemma local_read_scalar [reader_local]: "prefix_local (read_scalar w kind)"
  unfolding read_scalar_def by (intro reader_local)

lemma local_read_ints [reader_local]: "prefix_local (read_ints n w kind vs u)"
  by (induction n arbitrary: vs u) (auto intro!: reader_local split: option.split)

lemma local_skip_items [reader_local]: "prefix_local body \<Longrightarrow> prefix_local (skip_items body n i)"
  by (induction n arbitrary: i) (auto intro!: reader_local)

lemma local_skip_string [reader_local]: "prefix_local skip_string"
  unfolding skip_string_def by (intro reader_local)

lemma local_if: "prefix_local a \<Longrightarrow> prefix_local b \<Longrightarrow> prefix_local (if c then a else b)"
  by simp

lemma local_case_option:
  "prefix_local a \<Longrightarrow> (\<And>x. prefix_local (b x)) \<Longrightarrow> prefix_local (case c of None \<Rightarrow> a | Some x \<Rightarrow> b x)"
  by (cases c) simp_all

lemma local_case_prod: "(\<And>x y. prefix_local (f x y)) \<Longrightarrow> prefix_local (case c of (x, y) \<Rightarrow> f x y)"
  by (cases c) simp

lemmas local_branches = local_if local_case_option local_case_prod

lemma local_read_array_with:
  assumes "\<And>m. nested = Some m \<Longrightarrow> prefix_local m"
  shows "prefix_local (read_array_with nested keep)"
  unfolding read_array_with_def
  using assms by (cases nested; simp only: option.case) (intro reader_local local_branches; simp)+

lemma local_read_value_with: "prefix_local arr \<Longrightarrow> prefix_local (read_value_with arr vt)"
  unfolding read_value_with_def by (auto intro!: reader_local split: option.split)

lemma local_read_array [reader_local]: "prefix_local (read_array left keep)"
  by (induction left arbitrary: keep) (auto intro!: local_read_array_with local_read_value_with)

lemma local_read_value [reader_local]: "prefix_local (read_value vt depth keep)"
  unfolding read_value_def by (intro local_read_value_with reader_local)

lemma local_rloop [reader_local]: "(\<And>s. prefix_local (body s)) \<Longrightarrow> prefix_local (rloop body n s)"
  by (induction n arbitrary: s) (auto intro!: reader_local)

lemma local_read_entry [reader_local]: "prefix_local (read_entry m)"
  unfolding read_entry_def by (intro reader_local local_branches)

lemma local_read_dim [reader_local]: "prefix_local (read_dim e)"
  unfolding read_dim_def by (intro reader_local)

lemma local_read_tensor [reader_local]: "prefix_local (read_tensor t)"
  unfolding read_tensor_def by (intro reader_local local_branches)

lemma local_parse: "prefix_local parse_gguf_header"
  unfolding parse_gguf_header_def by (intro reader_local local_branches)

section \<open>Bounds\<close>

lemma ends_inside_read:
  assumes "\<And>x r y r'. f x r = Inr (y, r') \<Longrightarrow> r' = r"
  shows "ends_inside (rbind read_u64 f)"
  unfolding ends_inside_def
  by (auto simp: read_u64_def rret_def read_exact_def split: if_splits option.splits dest!: assms)

lemma ends_inside_rbind: "(\<And>x. ends_inside (f x)) \<Longrightarrow> ends_inside (rbind m f)"
  unfolding ends_inside_def by (auto simp: rbind_Inr)

lemma lift_result_Inr [simp]: "lift_result x r = Inr (a, r') \<longleftrightarrow> x = Inr a \<and> r' = r"
  by (cases x) (auto simp: lift_result_def rret_def rfail_def)

lemma check_size_Inr [simp]:
  "check_size r = Inr (u, r') \<longleftrightarrow> pos r \<le> unat MAX_HEADER_BYTES \<and> r' = r"
  by (auto simp: check_size_def)

lemma rret_Inr [simp]: "rret x r = Inr (y, r') \<longleftrightarrow> y = x \<and> r' = r"
  by (auto simp: rret_def)

lemma rfail_Inr [simp]: "rfail e r \<noteq> Inr z"
  by (simp add: rfail_def)

lemma check_then_ret: "rbind check_size (\<lambda>_. rret x) r = Inr (y, r') \<Longrightarrow> r' = r"
  by auto

lemma ends_inside_read_tensor: "ends_inside (read_tensor t)"
  unfolding read_tensor_def
  by (intro ends_inside_rbind)
    (auto simp: ends_inside_def [of "rfail e" for e] split: option.split
      intro!: ends_inside_rbind ends_inside_read)

lemma ends_inside_rloop:
  "0 < n \<Longrightarrow> (\<And>s. ends_inside (body s)) \<Longrightarrow> ends_inside (rloop body n s)"
proof (induction n arbitrary: s)
  case (Suc n)
  show ?case
  proof (cases "n = 0")
    case True
    with Suc.prems show ?thesis by (auto simp: ends_inside_def rret_def)
  next
    case False
    with Suc show ?thesis by (auto intro: ends_inside_rbind)
  qed
qed simp

lemma read_entry_bound: "read_entry m r = Inr (m', r') \<Longrightarrow> pos r' \<le> unat MAX_HEADER_BYTES"
  by (auto simp: read_entry_def split: option.splits)

lemma read_tensor_bound: "read_tensor t r = Inr (t', r') \<Longrightarrow> pos r' \<le> unat MAX_HEADER_BYTES"
  by (auto simp: read_tensor_def split: option.splits if_splits)

lemma rloop_bound:
  assumes "\<And>s r s' r'. body s r = Inr (s', r') \<Longrightarrow> pos r' \<le> k"
  shows "rloop body n s r = Inr (s', r') \<Longrightarrow> pos r \<le> k \<Longrightarrow> pos r' \<le> k"
  by (induction n arbitrary: s r) (auto simp: rret_def dest: assms)

lemma min_word_in: "min_word xs = Some k \<Longrightarrow> k \<in> set xs"
proof -
  have "foldl min y ys \<in> set (y # ys)" for y and ys :: "u64 list"
    by (induction ys arbitrary: y) (auto simp: min_def split: if_splits)
  then show "min_word xs = Some k \<Longrightarrow> k \<in> set xs"
    by (auto simp: min_word_def split: list.splits)
qed

lemma align_up_spec:
  assumes "a \<noteq> 0"
  shows "unat (align_up v a) = min ((unat v + unat a - 1) div unat a * unat a) (2 ^ 64 - 1)"
  unfolding align_up_def by (simp add: word_arith assms)

lemma ceil_mult: "0 < a \<Longrightarrow> n \<le> (n + a - 1) div a * (a::nat) \<and> (n + a - 1) div a * a < n + a"
proof -
  assume "0 < a"
  then have "(n + a - 1) div a * a + (n + a - 1) mod a = n + a - 1" and "(n + a - 1) mod a < a" by simp_all
  then show ?thesis by linarith
qed

lemma align_up_ge: "a \<noteq> 0 \<Longrightarrow> unat v \<le> unat (align_up v a)"
proof -
  assume a: "a \<noteq> 0"
  then have "0 < unat a" by (simp add: unat_gt_0)
  with ceil_mult [of "unat a" "unat v"] have "unat v \<le> (unat v + unat a - 1) div unat a * unat a" by simp
  moreover have "unat v < 2 ^ LENGTH(64)" by (rule unsigned_less)
  ultimately show ?thesis unfolding align_up_spec [OF a] by simp
qed

section \<open>Writing a header\<close>

text \<open>A writer for headers, as the format describes it: what the parser is to read back. A
  metadata value is a scalar, a string, an array of fixed-width elements or an array of strings.\<close>

fun enc_le :: "nat \<Rightarrow> nat \<Rightarrow> char list" where
  "enc_le 0 n = []"
| "enc_le (Suc k) n = char_of (n mod 256) # enc_le k (n div 256)"

definition enc_string :: "string \<Rightarrow> char list" where
  "enc_string s = enc_le 8 (length s) @ s"

datatype gval =
    GScalar u32 "char list"
  | GString string
  | GArray u32 "char list list"
  | GStrings "string list"

fun gtype :: "gval \<Rightarrow> u32" where
  "gtype (GScalar t bs) = t"
| "gtype (GString s) = 8"
| "gtype (GArray t es) = 9"
| "gtype (GStrings ss) = 9"

fun payload :: "gval \<Rightarrow> char list" where
  "payload (GScalar t bs) = bs"
| "payload (GString s) = enc_string s"
| "payload (GArray t es) = enc_le 4 (unat t) @ enc_le 8 (length es) @ concat es"
| "payload (GStrings ss) = enc_le 4 8 @ enc_le 8 (length ss) @ concat (map enc_string ss)"

fun gval_ok :: "gval \<Rightarrow> bool" where
  "gval_ok (GScalar t bs) \<longleftrightarrow>
     (case fixed_width t of None \<Rightarrow> False | Some (w, k) \<Rightarrow> length bs = w)"
| "gval_ok (GString s) \<longleftrightarrow> True"
| "gval_ok (GArray t es) \<longleftrightarrow>
     (case fixed_width t of None \<Rightarrow> False | Some (w, k) \<Rightarrow> list_all (\<lambda>e. length e = w) es)"
| "gval_ok (GStrings ss) \<longleftrightarrow> True"

text \<open>The value the parser is to come to.\<close>

fun decoded :: "bool \<Rightarrow> gval \<Rightarrow> gvalue" where
  "decoded keep (GScalar t bs) =
     (case fixed_width t of
        None \<Rightarrow> Skipped
      | Some (w, k) \<Rightarrow> (case decode_int bs w k of None \<Rightarrow> Skipped | Some v \<Rightarrow> Uint v))"
| "decoded keep (GString s) = (if length s \<le> 4096 then Str (from_utf8_lossy s) else Skipped)"
| "decoded keep (GArray t es) =
     (case fixed_width t of
        None \<Rightarrow> Skipped
      | Some (w, k) \<Rightarrow>
          if keep \<and> k \<noteq> Other \<and> length es \<le> 4096 \<and> list_all (\<lambda>e. decode_int e w k \<noteq> None) es
          then Ints (map (\<lambda>e. the (decode_int e w k)) es) else Skipped)"
| "decoded keep (GStrings ss) = Skipped"

definition enc_entry :: "string \<times> gval \<Rightarrow> char list" where
  "enc_entry e = enc_string (fst e) @ enc_le 4 (unat (gtype (snd e))) @ payload (snd e)"

record tensor_record =
  tr_name :: string
  tr_dims :: "u64 list"
  tr_type :: u32
  tr_offset :: u64

definition enc_tensor :: "tensor_record \<Rightarrow> char list" where
  "enc_tensor x = enc_string (tr_name x) @ enc_le 4 (length (tr_dims x)) @
     concat (map (\<lambda>d. enc_le 8 (unat d)) (tr_dims x)) @ enc_le 4 (unat (tr_type x)) @
     enc_le 8 (unat (tr_offset x))"

definition enc_header :: "u32 \<Rightarrow> (string \<times> gval) list \<Rightarrow> tensor_record list \<Rightarrow> char list" where
  "enc_header ver es ts = ''GGUF'' @ enc_le 4 (unat ver) @ enc_le 8 (length ts) @ enc_le 8 (length es) @
     concat (map enc_entry es) @ concat (map enc_tensor ts)"

text \<open>What the parser makes of the entries, without the bytes.\<close>

fun entries_summary :: "(string \<times> gval) list \<Rightarrow> metadata \<Rightarrow> gguf_error + metadata" where
  "entries_summary [] m = Inr m"
| "entries_summary ((key, v) # es) m =
     bind_result
       (apply_entry m (from_utf8_lossy key) (decoded (is_kept_key (from_utf8_lossy key)) v))
       (entries_summary es)"

definition tensors_summary :: "tensor_record list \<Rightarrow> tensors \<Rightarrow> tensors" where
  "tensors_summary ts t =
     foldl (\<lambda>t x. apply_tensor t (from_utf8_lossy (tr_name x))
        (foldl saturating_mul 1 (tr_dims x)) (tr_offset x)) t ts"

subsection \<open>Reading back, method by method\<close>

definition at :: "char list \<Rightarrow> char list \<Rightarrow> reader" where
  "at pre post = \<lparr>bytes = pre @ post, fault = None, pos = length pre\<rparr>"

text \<open>\<open>reads m bs res\<close>: wherever \<open>bs\<close> stands in a header of permitted size, \<open>m\<close> passes over exactly
  it and comes to \<open>res\<close>.\<close>

definition reads :: "'a rd \<Rightarrow> char list \<Rightarrow> gguf_error + 'a \<Rightarrow> bool" where
  "reads m bs res \<longleftrightarrow>
     (\<forall>pre post. length pre + length bs \<le> unat MAX_HEADER_BYTES \<longrightarrow>
        m (at pre (bs @ post)) = bind_result res (\<lambda>x. Inr (x, at (pre @ bs) post)))"

named_theorems reading \<open>methods of the reader on what the writer writes\<close>

lemma readsD:
  "reads m bs res \<Longrightarrow> length pre + length bs \<le> unat MAX_HEADER_BYTES \<Longrightarrow>
     m (at pre (bs @ post)) = bind_result res (\<lambda>x. Inr (x, at (pre @ bs) post))"
  by (simp add: reads_def)

lemma reads_rret [reading]: "reads (rret x) [] (Inr x)"
  by (simp add: reads_def rret_def)

lemma reads_lift_result [reading]: "reads (lift_result x) [] x"
  by (cases x) (simp_all add: reads_def lift_result_def rret_def rfail_def)

lemma reads_rbind [reading]:
  assumes m: "reads m b1 (Inr x)" and f: "reads (f x) b2 res"
  shows "reads (rbind m f) (b1 @ b2) res"
  unfolding reads_def
proof (intro allI impI)
  fix pre post :: "char list"
  assume a: "length pre + length (b1 @ b2) \<le> unat MAX_HEADER_BYTES"
  have "m (at pre (b1 @ b2 @ post)) = Inr (x, at (pre @ b1) (b2 @ post))"
    using readsD [OF m, of pre "b2 @ post"] a by simp
  moreover have "f x (at (pre @ b1) (b2 @ post)) = bind_result res (\<lambda>x. Inr (x, at ((pre @ b1) @ b2) post))"
    using a by (intro readsD [OF f]) simp
  ultimately show "rbind m f (at pre ((b1 @ b2) @ post)) =
      bind_result res (\<lambda>x. Inr (x, at (pre @ b1 @ b2) post))"
    by (simp add: rbind_step)
qed

lemma reads_rbind_error:
  assumes m: "reads m b1 (Inl e)" shows "reads (rbind m f) (b1 @ b2) (Inl e)"
  using readsD [OF m] by (simp add: reads_def rbind_step)

lemma reads_map:
  assumes "reads m bs (Inr x)" shows "reads (rbind m (\<lambda>y. rret (g y))) bs (Inr (g x))"
  using reads_rbind [OF assms, where f = "\<lambda>y. rret (g y)", OF reads_rret] by simp

lemma reads_exact [reading]: "length bs = n \<Longrightarrow> reads (read_exact n) bs (Inr bs)"
  by (auto simp: reads_def read_exact_def at_def)

lemma reads_skip [reading]:
  "unat c = length bs \<Longrightarrow> reads (skip c) bs (Inr ())"
  by (auto simp: reads_def skip_def at_def word_less_nat_alt)

lemma reads_check_size [reading]: "reads check_size [] (Inr ())"
  by (auto simp: reads_def check_size_def at_def)

lemma le_val_enc: "le_val (enc_le k n) = n mod 256 ^ k"
proof (induction k arbitrary: n)
  case (Suc k)
  have "of_char (char_of (n mod 256) :: char) = n mod 256" by simp
  then show ?case using Suc [of "n div 256"] by (simp add: mod_mult2_eq)
qed simp

lemma length_enc_le [simp]: "length (enc_le k n) = k"
  by (induction k arbitrary: n) simp_all

lemma reads_u32 [reading]: "n < 2 ^ 32 \<Longrightarrow> reads read_u32 (enc_le 4 n) (Inr (of_nat n))"
  unfolding read_u32_def using reads_map [OF reads_exact [of "enc_le 4 n" 4], of "\<lambda>bs. of_nat (le_val bs)"]
  by (simp add: le_val_enc)

lemma reads_u64 [reading]: "n < 2 ^ 64 \<Longrightarrow> reads read_u64 (enc_le 8 n) (Inr (of_nat n))"
  unfolding read_u64_def using reads_map [OF reads_exact [of "enc_le 8 n" 8], of "\<lambda>bs. of_nat (le_val bs)"]
  by (simp add: le_val_enc)

text \<open>Nothing longer than a header has to be read.\<close>

lemma reads_guard: "(length bs \<le> 67108864 \<Longrightarrow> reads m bs res) \<Longrightarrow> reads m bs res"
  unfolding reads_def by (force simp: MAX_HEADER_BYTES_def)

lemma unat_of_nat_small: "n \<le> 67108864 \<Longrightarrow> unat (of_nat n :: u64) = n"
  by (simp add: unat_of_nat)

lemma reads_string:
  assumes "k \<le> 67108864"
  shows "reads (read_string (of_nat k)) (enc_string s)
    (Inr (if length s \<le> k then Some (from_utf8_lossy s) else None))"
proof (rule reads_guard)
  assume "length (enc_string s) \<le> 67108864"
  then have s: "length s \<le> 67108864" by (simp add: enc_string_def)
  then have len: "reads read_u64 (enc_le 8 (length s)) (Inr (of_nat (length s)))"
    by (intro reading) simp
  have c: "(of_nat (length s) :: u64) > of_nat k \<longleftrightarrow> \<not> length s \<le> k"
    using s assms by (simp add: word_less_nat_alt unat_of_nat_small not_le)
  show ?thesis
    unfolding read_string_def enc_string_def
  proof (rule reads_rbind [OF len])
    have "reads (rbind (skip (of_nat (length s))) (\<lambda>_. rret (None :: string option))) s (Inr None)"
      using s by (intro reads_map [of "skip c" _ "()" "\<lambda>_. x" for c x] reads_skip) (simp add: unat_of_nat_small)
    moreover have "reads (rbind (read_exact (length s)) (\<lambda>buf. rret (Some (from_utf8_lossy buf)))) s
        (Inr (Some (from_utf8_lossy s)))"
      by (intro reads_map [of "read_exact c" _ s "\<lambda>x. g x" for c g] reads_exact) simp
    ultimately show "reads (if of_nat (length s) > (of_nat k :: u64) then rbind (skip (of_nat (length s))) (\<lambda>_. rret None)
        else rbind (read_exact (unat (of_nat (length s) :: u64))) (\<lambda>buf. rret (Some (from_utf8_lossy buf)))) s
        (Inr (if length s \<le> k then Some (from_utf8_lossy s) else None))"
      unfolding c using s by (simp add: unat_of_nat_small)
  qed
qed

lemma reads_key [reading]:
  "length s \<le> 4096 \<Longrightarrow> reads (read_string MAX_KEY_LEN) (enc_string s) (Inr (Some (from_utf8_lossy s)))"
  using reads_string [of 4096 s] by (simp add: MAX_KEY_LEN_def)

lemma reads_skip_string [reading]: "reads skip_string (enc_string s) (Inr ())"
proof (rule reads_guard)
  assume "length (enc_string s) \<le> 67108864"
  then have s: "length s \<le> 67108864" by (simp add: enc_string_def)
  then have "reads read_u64 (enc_le 8 (length s)) (Inr (of_nat (length s)))" by (intro reading) simp
  moreover have "reads (skip (of_nat (length s))) s (Inr ())"
    using s by (intro reading) (simp add: unat_of_nat_small)
  ultimately show ?thesis unfolding skip_string_def enc_string_def by (rule reads_rbind)
qed

lemma reads_skip_items:
  assumes "\<And>x. reads body (enc x) (Inr ())"
  shows "reads (skip_items body (length xs) i) (concat (map enc xs)) (Inr ())"
proof (induction xs arbitrary: i)
  case (Cons x xs)
  have c: "reads (if i mod SIZE_CHECK_EVERY = SIZE_CHECK_EVERY - 1 then check_size else rret ()) [] (Inr ())"
    by (simp add: reading)
  have "reads (rbind (if i mod SIZE_CHECK_EVERY = SIZE_CHECK_EVERY - 1 then check_size else rret ())
      (\<lambda>_. skip_items body (length xs) (Suc i))) ([] @ concat (map enc xs)) (Inr ())"
    by (rule reads_rbind [OF c Cons])
  then have "reads (skip_items body (length (x # xs)) i) (enc x @ [] @ concat (map enc xs)) (Inr ())"
    unfolding list.size skip_items.simps by (simp add: reads_rbind [OF assms])
  then show ?case by simp
qed (simp add: reading)

lemma reads_ints:
  assumes "list_all (\<lambda>e. length e = w) es"
  shows "reads (read_ints (length es) w k vs u) (concat es)
    (Inr (vs @ List.map_filter (\<lambda>e. decode_int e w k) es, u \<and> list_all (\<lambda>e. decode_int e w k \<noteq> None) es))"
  using assms
proof (induction es arbitrary: vs u)
  case (Cons e es)
  then have e: "reads (read_exact w) e (Inr e)" by (intro reading) simp
  show ?case
  proof (cases "decode_int e w k")
    case None
    with Cons show ?thesis
      by (simp add: map_filter_simps) (rule reads_rbind [OF e], simp add: Cons.IH [of vs False, simplified])
  next
    case (Some v)
    with Cons show ?thesis
      by (simp add: map_filter_simps) (rule reads_rbind [OF e], simp add: Cons.IH [of "vs @ [v]" u, simplified])
  qed
qed (simp add: reading map_filter_simps)

lemma map_filter_all:
  "list_all (\<lambda>e. f e \<noteq> None) es \<Longrightarrow> List.map_filter f es = map (\<lambda>e. the (f e)) es"
  by (induction es) (auto simp: map_filter_simps)

lemma fixed_width_facts:
  assumes "fixed_width t = Some (w, k)"
  shows "w \<in> {1, 2, 4, 8}" and "t \<noteq> 8" and "t \<noteq> 9"
  using assms by (auto simp: fixed_width_def split: if_splits)

lemma fixed_width_none [simp]: "fixed_width 8 = None" "fixed_width 9 = None"
  by (simp_all add: fixed_width_def)

lemma length_concat_const: "list_all (\<lambda>e. length e = w) es \<Longrightarrow> length (concat es) = length es * w"
  by (induction es) auto

lemma length_le_concat: "(\<And>x. 0 < length (enc x)) \<Longrightarrow> length xs \<le> length (concat (map enc xs))"
proof (induction xs)
  case (Cons x xs)
  then have "length xs \<le> length (concat (map enc xs))" by blast
  with Cons.prems [of x] have "Suc (length xs) \<le> length (enc x) + length (concat (map enc xs))"
    by linarith
  then show ?case by simp
qed simp

lemma reads_array_elements:
  assumes "fixed_width t = Some (w, k)" and "list_all (\<lambda>e. length e = w) es"
    and "length es * w \<le> 67108864" and "n = (of_nat (length es) :: u64)"
  shows "reads
    (if keep \<and> k \<noteq> Other \<and> n \<le> MAX_KEPT_ARRAY
     then rbind (read_ints (unat n) w k [] True) (\<lambda>(vs, usable). rret (if usable then Ints vs else Skipped))
     else (case checked_mul n (of_nat w) of
             None \<Rightarrow> rfail (Malformed (ArrayOutOfRange n))
           | Some nbytes \<Rightarrow> rbind (skip nbytes) (\<lambda>_. rret Skipped)))
    (concat es) (Inr (decoded keep (GArray t es)))"
proof -
  have w: "w \<in> {1, 2, 4, 8}" using fixed_width_facts [OF assms(1)] by simp
  then have "0 < w" by auto
  with assms(3) have len: "length es \<le> 67108864"
    by (metis One_nat_def Suc_leI le_trans mult_le_mono2 nat_mult_1_right)
  then have n: "unat n = length es" unfolding assms(4) by (rule unat_of_nat_small)
  have ww: "unat (of_nat w :: u64) = w" using w by (auto simp: unat_of_nat)
  have kept: "n \<le> MAX_KEPT_ARRAY \<longleftrightarrow> length es \<le> 4096"
    using n by (simp add: word_le_nat_alt MAX_KEPT_ARRAY_def)
  show ?thesis
  proof (cases "keep \<and> k \<noteq> Other \<and> n \<le> MAX_KEPT_ARRAY")
    case True
    have "reads (rbind (read_ints (unat n) w k [] True) (\<lambda>y. rret ((\<lambda>(vs, usable). if usable then Ints vs else Skipped) y)))
        (concat es) (Inr ((\<lambda>(vs, usable). if usable then Ints vs else Skipped)
          ([] @ List.map_filter (\<lambda>e. decode_int e w k) es, True \<and> list_all (\<lambda>e. decode_int e w k \<noteq> None) es)))"
      unfolding n by (rule reads_map [OF reads_ints [OF assms(2)]])
    with True kept assms(1) map_filter_all [of "\<lambda>e. decode_int e w k" es] show ?thesis
      by (auto simp: case_prod_unfold split: if_splits)
  next
    case False
    have "reads (rbind (skip (n * of_nat w)) (\<lambda>_. rret Skipped)) (concat es) (Inr Skipped)"
      using assms(3) n ww length_concat_const [OF assms(2)]
      by (intro reads_map [of "skip c" _ "()" "\<lambda>_. Skipped" for c] reads_skip) (simp add: unat_word_ariths)
    moreover have "checked_mul n (of_nat w) = Some (n * of_nat w)"
      using assms(3) by (simp add: checked_mul_def n ww)
    moreover have "decoded keep (GArray t es) = Skipped" using False kept assms(1) by auto
    ultimately show ?thesis unfolding if_not_P [OF False] by simp
  qed
qed

lemma reads_gval:
  assumes "gval_ok v"
  shows "reads (read_value (gtype v) 0 keep) (payload v) (Inr (decoded keep v))"
proof (rule reads_guard)
  assume len: "length (payload v) \<le> 67108864"
  have arr: "read_value 9 0 keep = read_array_with (Some (read_value_with (read_array 1 False) 9)) keep"
    by (simp add: MAX_ARRAY_DEPTH_def numeral_2_eq_2 read_value_def read_value_with_def)
  show ?thesis
  proof (cases v)
    case (GScalar t bs)
    with assms obtain w k where f: "fixed_width t = Some (w, k)" "length bs = w"
      by (auto split: option.splits)
    then show ?thesis
      unfolding GScalar read_value_def read_value_with_def read_scalar_def
      using reads_map [OF reads_exact [of bs w]] by auto
  next
    case (GString s)
    have "reads (rbind (read_string MAX_KEPT_STRING) (\<lambda>s. rret (case s of None \<Rightarrow> Skipped | Some x \<Rightarrow> Str x)))
        (enc_string s) (Inr (case if length s \<le> 4096 then Some (from_utf8_lossy s) else None of
           None \<Rightarrow> Skipped | Some x \<Rightarrow> Str x))"
      using reads_string [of 4096 s] by (intro reads_map) (simp add: MAX_KEPT_STRING_def)
    then show ?thesis
      unfolding GString by (auto simp: read_value_def read_value_with_def split: if_splits)
  next
    case (GArray t es)
    with assms obtain w k where f: "fixed_width t = Some (w, k)" and es: "list_all (\<lambda>e. length e = w) es"
      by (auto split: option.splits)
    have sz: "length es * w \<le> 67108864"
      using len unfolding GArray by (simp add: length_concat_const [OF es])
    moreover have "0 < w" using fixed_width_facts [OF f] by auto
    moreover from this have "length es * 1 \<le> length es * w" by (intro mult_le_mono2) simp
    ultimately have "length es \<le> 67108864" by linarith
    then have n: "length es < 2 ^ 64" by simp
    have t: "reads read_u32 (enc_le 4 (unat t)) (Inr t)"
      using reads_u32 [of "unat t"] unsigned_less [of t] by simp
    show ?thesis
      unfolding GArray gtype.simps payload.simps arr read_array_with_def
      by (rule reads_rbind [OF t], rule reads_rbind [OF reads_u64 [OF n]],
          simp only: f option.case prod.case, rule reads_array_elements [OF f es sz refl])
  next
    case (GStrings ss)
    have "length ss \<le> length (concat (map enc_string ss))"
      by (rule length_le_concat) (simp add: enc_string_def)
    with len have n: "length ss \<le> 67108864" unfolding GStrings by simp
    have items: "reads (rbind (skip_items skip_string (length ss) 0) (\<lambda>_. rret Skipped))
        (concat (map enc_string ss)) (Inr Skipped)"
      by (rule reads_map [OF reads_skip_items [OF reads_skip_string], where g = "\<lambda>_. Skipped"])
    have t: "reads read_u32 (enc_le 4 8) (Inr 8)" using reads_u32 [of 8] by simp
    have l: "reads read_u64 (enc_le 8 (length ss)) (Inr (of_nat (length ss)))"
      using n by (intro reading) simp
    show ?thesis
      unfolding GStrings gtype.simps payload.simps arr read_array_with_def
      by (rule reads_rbind [OF t], rule reads_rbind [OF l]) (simp add: items n unat_of_nat_small)
  qed
qed

lemma reads_entry:
  assumes "length key \<le> 4096" and "gval_ok v"
  shows "reads (read_entry m) (enc_entry (key, v))
    (apply_entry m (from_utf8_lossy key) (decoded (is_kept_key (from_utf8_lossy key)) v))"
proof -
  let ?k = "from_utf8_lossy key"
  let ?v = "decoded (is_kept_key ?k) v"
  have t: "reads read_u32 (enc_le 4 (unat (gtype v))) (Inr (gtype v))"
    using reads_u32 [of "unat (gtype v)"] unsigned_less [of "gtype v"] by simp
  have c: "reads (rbind check_size (\<lambda>_. lift_result (apply_entry m ?k ?v))) ([] @ []) (apply_entry m ?k ?v)"
    by (intro reads_rbind [OF reads_check_size] reads_lift_result)
  have "reads (read_entry m) (enc_string key @ enc_le 4 (unat (gtype v)) @ payload v @ [] @ [])
      (apply_entry m ?k ?v)"
    unfolding read_entry_def
    by (rule reads_rbind [OF reads_key [OF assms(1)]], unfold option.case,
        rule reads_rbind [OF t], rule reads_rbind [OF reads_gval [OF assms(2)]], rule c)
  then show ?thesis by (simp add: enc_entry_def)
qed

lemma reads_entries:
  assumes "list_all (\<lambda>(key, v). length key \<le> 4096 \<and> gval_ok v) es"
  shows "reads (rloop read_entry (length es) m) (concat (map enc_entry es)) (entries_summary es m)"
  using assms
proof (induction es arbitrary: m)
  case (Cons e es)
  obtain key v where e: "e = (key, v)" by (cases e)
  with Cons.prems have ok: "length key \<le> 4096" "gval_ok v" by simp_all
  note r = reads_entry [OF ok, of m]
  show ?case
  proof (cases "apply_entry m (from_utf8_lossy key) (decoded (is_kept_key (from_utf8_lossy key)) v)")
    case (Inl err)
    with r reads_rbind_error [of "read_entry m" _ err] show ?thesis by (simp add: e)
  next
    case (Inr m')
    with Cons have "reads (rbind (read_entry m) (rloop read_entry (length es)))
        (enc_entry (key, v) @ concat (map enc_entry es)) (entries_summary es m')"
      by (intro reads_rbind [of "read_entry m" _ m']) (use r in simp_all)
    with Inr show ?thesis by (simp add: e)
  qed
qed (simp add: reading)

lemma reads_dims:
  "reads (rloop read_dim (length ds) e) (concat (map (\<lambda>d. enc_le 8 (unat d)) ds))
     (Inr (foldl saturating_mul e ds))"
proof (induction ds arbitrary: e)
  case (Cons d ds)
  have "reads read_u64 (enc_le 8 (unat d)) (Inr d)"
    using reads_u64 [of "unat d"] unsigned_less [of d] by simp
  from reads_map [OF this, of "saturating_mul e"]
  have "reads (read_dim e) (enc_le 8 (unat d)) (Inr (saturating_mul e d))"
    by (simp add: read_dim_def)
  from reads_rbind [OF this Cons.IH] show ?case by simp
qed (simp add: reading)

definition tensor_ok :: "tensor_record \<Rightarrow> bool" where
  "tensor_ok x \<longleftrightarrow> length (tr_name x) \<le> 4096 \<and> length (tr_dims x) \<le> 8"

lemma reads_tensor:
  assumes "tensor_ok x"
  shows "reads (read_tensor t) (enc_tensor x)
    (Inr (apply_tensor t (from_utf8_lossy (tr_name x)) (foldl saturating_mul 1 (tr_dims x)) (tr_offset x)))"
proof -
  let ?n = "from_utf8_lossy (tr_name x)" and ?e = "foldl saturating_mul 1 (tr_dims x)"
  have k: "length (tr_name x) \<le> 4096" and d: "length (tr_dims x) \<le> 8"
    using assms by (simp_all add: tensor_ok_def)
  have nd: "reads read_u32 (enc_le 4 (length (tr_dims x))) (Inr (of_nat (length (tr_dims x))))"
    using d by (intro reading) simp
  have ud: "unat (of_nat (length (tr_dims x)) :: u32) = length (tr_dims x)"
    using d by (simp add: unat_of_nat)
  then have small: "\<not> (of_nat (length (tr_dims x)) :: u32) > MAX_TENSOR_DIMS"
    using d by (simp add: word_less_nat_alt MAX_TENSOR_DIMS_def)
  have ty: "reads read_u32 (enc_le 4 (unat (tr_type x))) (Inr (tr_type x))"
    using reads_u32 [of "unat (tr_type x)"] unsigned_less [of "tr_type x"] by simp
  have off: "reads read_u64 (enc_le 8 (unat (tr_offset x))) (Inr (tr_offset x))"
    using reads_u64 [of "unat (tr_offset x)"] unsigned_less [of "tr_offset x"] by simp
  have "reads (read_tensor t) (enc_string (tr_name x) @ enc_le 4 (length (tr_dims x)) @
      concat (map (\<lambda>d. enc_le 8 (unat d)) (tr_dims x)) @ enc_le 4 (unat (tr_type x)) @
      enc_le 8 (unat (tr_offset x)) @ [] @ []) (Inr (apply_tensor t ?n ?e (tr_offset x)))"
    unfolding read_tensor_def
    by (rule reads_rbind [OF reads_key [OF k]], unfold option.case, rule reads_rbind [OF nd],
        unfold if_not_P [OF small] ud, rule reads_rbind [OF reads_dims], rule reads_rbind [OF ty],
        rule reads_rbind [OF off], rule reads_rbind [OF reads_check_size], rule reads_rret)
  then show ?thesis by (simp add: enc_tensor_def)
qed

lemma reads_tensors:
  assumes "list_all tensor_ok ts"
  shows "reads (rloop read_tensor (length ts) t) (concat (map enc_tensor ts)) (Inr (tensors_summary ts t))"
  using assms
proof (induction ts arbitrary: t)
  case (Cons x ts)
  then have "tensor_ok x" by simp
  from reads_rbind [OF reads_tensor [OF this], OF Cons.IH] Cons.prems show ?case
    by (simp add: tensors_summary_def)
qed (simp add: reading tensors_summary_def)

lemma align_up_multiple: "a \<noteq> 0 \<Longrightarrow> unat (align_up v a) = 2 ^ 64 - 1 \<or> unat a dvd unat (align_up v a)"
  unfolding align_up_spec min_def by (cases "(unat v + unat a - 1) div unat a * unat a \<le> 2 ^ 64 - 1") simp_all

lemma align_up_least:
  assumes "a \<noteq> 0" and "unat a dvd q" and "unat v \<le> q"
  shows "unat (align_up v a) \<le> q"
proof -
  have u: "0 < unat a" using assms(1) by (simp add: unat_gt_0)
  from assms(2) obtain c where c: "q = unat a * c" ..
  have "unat a * ((unat v + unat a - 1) div unat a) < unat a * Suc c"
    using ceil_mult [OF u, of "unat v"] assms(3) unfolding c by (simp add: mult.commute)
  then have "(unat v + unat a - 1) div unat a \<le> c" unfolding mult_less_cancel1 by simp
  then have "(unat v + unat a - 1) div unat a * unat a \<le> q" unfolding c by (simp add: mult.commute)
  then show ?thesis unfolding align_up_spec [OF assms(1)] by (rule min.coboundedI1)
qed

lemma read_exact_pos: "read_exact n r = Inr (x, r') \<Longrightarrow> pos r' = pos r + n"
  by (auto simp: read_exact_def split: if_splits option.splits)

lemma read_word_pos:
  "read_u32 r = Inr (a, r') \<Longrightarrow> pos r' = pos r + 4" "read_u64 r = Inr (b, r') \<Longrightarrow> pos r' = pos r + 8"
  by (auto simp: read_u32_def read_u64_def dest: read_exact_pos)

lemma position_Inr [simp]: "position r = Inr (p, r') \<longleftrightarrow> p = pos r \<and> r' = r"
  by (auto simp: position_def)

lemma finish_header_fields:
  "finish_header ver tc m t e = Inr h \<Longrightarrow>
     version h = ver \<and> tensor_count h = tc \<and> data_offset h = align_up e (m_alignment m) \<and>
     token_embd h = span_of t \<and> (\<forall>b. block_count h = Some b \<longrightarrow> \<not> b > MAX_BLOCK_COUNT)"
  by (auto simp: finish_header_def split: if_splits option.splits)

lemma span_of_next: "span_of t = Some s \<Longrightarrow> next_offset s = Some k \<Longrightarrow> offset s < k"
  by (auto simp: span_of_def dest!: min_word_in)

text \<open>The stages of a parse that succeeds.\<close>

lemma parse_steps:
  assumes "parse_gguf_header r = Inr (h, r')"
  shows "\<exists>r1 tc (mc :: u64) m t r2. pos r1 = pos r + 24 \<and> version h \<in> {2, 3} \<and> tc \<le> MAX_ENTRIES \<and>
    tensor_count h = tc \<and> rloop read_entry (unat mc) metadata0 r1 = Inr (m, r2) \<and> m_alignment m \<noteq> 0 \<and>
    rloop read_tensor (unat tc) tensors0 r2 = Inr (t, r') \<and>
    finish_header (version h) tc m t (of_nat (pos r')) = Inr h"
proof -
  from assms obtain q1 ver q2 tc q3 mc r1 m r2 t where
    q: "read_exact 4 r = Inr (''GGUF'', q1)" "read_u32 q1 = Inr (ver, q2)" "read_u64 q2 = Inr (tc, q3)"
      "read_u64 q3 = Inr (mc, r1)" and
    v: "ver \<in> set SUPPORTED_VERSIONS" "\<not> tc > MAX_ENTRIES" and
    l: "rloop read_entry (unat mc) metadata0 r1 = Inr (m, r2)" "m_alignment m \<noteq> 0"
      "rloop read_tensor (unat tc) tensors0 r2 = Inr (t, r')" and
    f: "finish_header ver tc m t (of_nat (pos r')) = Inr h"
    unfolding parse_gguf_header_def by (auto split: if_splits)
  have h: "version h = ver" "tensor_count h = tc" using finish_header_fields [OF f] by simp_all
  have "pos r1 = pos r + 24 \<and> version h \<in> {2, 3} \<and> tc \<le> MAX_ENTRIES \<and> tensor_count h = tc \<and>
      rloop read_entry (unat mc) metadata0 r1 = Inr (m, r2) \<and> m_alignment m \<noteq> 0 \<and>
      rloop read_tensor (unat tc) tensors0 r2 = Inr (t, r') \<and>
      finish_header (version h) tc m t (of_nat (pos r')) = Inr h"
    using q v l f h by (auto simp: SUPPORTED_VERSIONS_def dest!: read_exact_pos read_word_pos)
  then show ?thesis by blast
qed

lemma utf8_ascii_step: "b < 128 \<Longrightarrow> tail_len b bs = 0 \<and> utf8_width b = 1"
  by (cases bs) (simp_all add: tail_len_def utf8_width_def)

lemma utf8_ascii: "list_all (\<lambda>c. of_char c < (128 :: nat)) s \<Longrightarrow> from_utf8_lossy s = s"
proof (induction s)
  case (Cons c s)
  with utf8_ascii_step [of "of_char c" s] show ?case
    by (simp add: from_utf8_lossy.simps)
qed (simp add: from_utf8_lossy.simps)

text \<open>A small model: one architecture, its layer count, and an output tensor.\<close>

definition sample_entries :: "(string \<times> gval) list" where
  "sample_entries =
     [(''general.architecture'', GString ''x''), (''x.block_count'', GScalar 4 (enc_le 4 32))]"

definition sample_tensors :: "tensor_record list" where
  "sample_tensors = [\<lparr>tr_name = ''output.weight'', tr_dims = [4096, 32000], tr_type = 1, tr_offset = 0\<rparr>]"

lemma sample_entries_summary:
  "entries_summary sample_entries metadata0 =
     Inr (metadata0\<lparr>m_architecture := Some ''x'', m_kept := [(''x.block_count'', Uint 32)]\<rparr>)"
  by (simp add: sample_entries_def utf8_ascii fixed_width_def decode_int_def le_val_enc apply_entry_def
      keep_value_def metadata0_def is_kept_key_def KEPT_KEY_SUFFIXES_def ends_with_def MAX_KEPT_KEYS_def)

lemma sample_ok:
  "list_all (\<lambda>(key, v). length key \<le> 4096 \<and> gval_ok v) sample_entries"
  "list_all tensor_ok sample_tensors"
  "length (enc_header 3 sample_entries sample_tensors) \<le> 67108864"
  by (simp_all add: sample_entries_def sample_tensors_def tensor_ok_def fixed_width_def enc_header_def
      enc_entry_def enc_tensor_def enc_string_def)

text \<open>A value the header only announces.\<close>

lemma skip_past_end:
  assumes "4096 < n" and "n \<le> 67108864" and "length pre \<le> 1000"
  shows "read_value 8 0 keep (at pre (enc_le 8 n)) =
     Inr (Skipped, (at (pre @ enc_le 8 n) [])\<lparr>pos := length pre + 8 + n\<rparr>)"
proof -
  have "read_u64 (at pre (enc_le 8 n)) = Inr (of_nat n, at (pre @ enc_le 8 n) [])"
    using readsD [OF reads_u64 [of n], of pre "[]"] assms by (simp add: MAX_HEADER_BYTES_def)
  moreover have "unat (of_nat n :: u64) = n" using assms(2) by (rule unat_of_nat_small)
  ultimately show ?thesis
    using assms by (simp add: read_value_def read_value_with_def read_string_def rbind_step skip_def rret_def
        word_less_nat_alt MAX_KEPT_STRING_def MAX_HEADER_BYTES_def at_def rbind_def)
qed

definition cut_short :: "char list" where
  "cut_short = ''GGUF'' @ enc_le 4 3 @ enc_le 8 0 @ enc_le 8 1 @
     enc_string ''k'' @ enc_le 4 8 @ enc_le 8 5000"

lemma header_summary:
  assumes "ver \<in> set SUPPORTED_VERSIONS" and "length es \<le> 1048576" and "length ts \<le> 1048576"
    and "list_all (\<lambda>(key, v). length key \<le> 4096 \<and> gval_ok v) es" and "list_all tensor_ok ts"
    and "length (enc_header ver es ts) \<le> 67108864"
  shows "parse_gguf_header (at [] (enc_header ver es ts @ weights)) =
     bind_result (entries_summary es metadata0) (\<lambda>m.
       if m_alignment m = 0 then Inl (Malformed AlignmentZero)
       else bind_result
         (finish_header ver (of_nat (length ts)) m (tensors_summary ts tensors0)
            (of_nat (length (enc_header ver es ts))))
         (\<lambda>h. Inr (h, at (enc_header ver es ts) weights)))"
proof -
  define V where "V = enc_le 4 (unat ver)"
  define C where "C = enc_le 8 (length ts)"
  define D where "D = enc_le 8 (length es)"
  define E where "E = concat (map enc_entry es)"
  define T where "T = concat (map enc_tensor ts)"
  define G where "G = ''GGUF''"
  have h: "enc_header ver es ts = G @ V @ C @ D @ E @ T"
    by (simp add: enc_header_def V_def C_def D_def E_def T_def G_def)
  have len: "length G = 4" "length V = 4" "length C = 8" "length D = 8" "24 + length E + length T \<le> 67108864"
    using assms(6) unfolding h by (simp_all add: V_def C_def D_def G_def)
  have M: "unat MAX_HEADER_BYTES = 67108864" by (simp add: MAX_HEADER_BYTES_def)
  have b: "unat (of_nat n :: u64) = n" "\<not> (of_nat n :: u64) > MAX_ENTRIES" if "n \<le> 1048576" for n
    using that by (simp_all add: unat_of_nat word_less_nat_alt MAX_ENTRIES_def)
  have 1: "read_exact 4 (at [] (G @ V @ C @ D @ E @ T @ weights)) =
      Inr (G, at G (V @ C @ D @ E @ T @ weights))"
    using readsD [OF reads_exact [of G 4], of "[]"] len by (simp add: M)
  have 2: "read_u32 (at G (V @ C @ D @ E @ T @ weights)) =
      Inr (ver, at (G @ V) (C @ D @ E @ T @ weights))"
    using readsD [OF reads_u32 [of "unat ver"], of G] unsigned_less [of ver] len by (simp add: M V_def)
  have 3: "read_u64 (at (G @ V) (C @ D @ E @ T @ weights)) =
      Inr (of_nat (length ts), at (G @ V @ C) (D @ E @ T @ weights))"
    using readsD [OF reads_u64 [of "length ts"], of "G @ V"] assms(3) len by (simp add: M C_def)
  have 4: "read_u64 (at (G @ V @ C) (D @ E @ T @ weights)) =
      Inr (of_nat (length es), at (G @ V @ C @ D) (E @ T @ weights))"
    using readsD [OF reads_u64 [of "length es"], of "G @ V @ C"] assms(2) len by (simp add: M D_def)
  have 5: "rloop read_entry (length es) metadata0 (at (G @ V @ C @ D) (E @ T @ weights)) =
      bind_result (entries_summary es metadata0)
        (\<lambda>m. Inr (m, at (G @ V @ C @ D @ E) (T @ weights)))"
    using readsD [OF reads_entries [OF assms(4), of metadata0], of "G @ V @ C @ D"] len
    by (simp add: M E_def)
  have 6: "rloop read_tensor (length ts) tensors0 (at (G @ V @ C @ D @ E) (T @ weights)) =
      Inr (tensors_summary ts tensors0, at (G @ V @ C @ D @ E @ T) weights)"
    using readsD [OF reads_tensors [OF assms(5), of tensors0], of "G @ V @ C @ D @ E"] len
    by (simp add: M T_def)
  have g: "(G = ''GGUF'') = True" by (simp add: G_def)
  have pos: "pos (at (enc_header ver es ts) weights) = length (enc_header ver es ts)" by (simp add: at_def)
  show ?thesis
  proof (cases "entries_summary es metadata0")
    case (Inl x)
    then show ?thesis
      using assms(1-3) 5 unfolding parse_gguf_header_def h
      by (simp add: rbind_step 1 2 3 4 b g)
  next
    case (Inr m)
    then show ?thesis
      using assms(1-3) 5 6 pos unfolding parse_gguf_header_def h
      by (simp add: rbind_step 1 2 3 4 b g rfail_def position_def)
        (cases "finish_header ver (of_nat (length ts)) m (tensors_summary ts tensors0)
            (of_nat (length (G @ V @ C @ D @ E @ T)))",
          simp_all add: rbind_def position_def lift_result_def rfail_def rret_def)
  qed
qed

lemma sample_summary:
  "\<exists>h. parse_gguf_header (at [] (enc_header 3 sample_entries sample_tensors @ w)) =
     Inr (h, at (enc_header 3 sample_entries sample_tensors) w) \<and> tensor_count h = 1"
proof -
  have "parse_gguf_header (at [] (enc_header 3 sample_entries sample_tensors @ w)) =
     bind_result (entries_summary sample_entries metadata0) (\<lambda>m.
       if m_alignment m = 0 then Inl (Malformed AlignmentZero)
       else bind_result
         (finish_header 3 (of_nat (length sample_tensors)) m (tensors_summary sample_tensors tensors0)
            (of_nat (length (enc_header 3 sample_entries sample_tensors))))
         (\<lambda>h. Inr (h, at (enc_header 3 sample_entries sample_tensors) w)))"
    using sample_ok
    by (intro header_summary) (simp_all add: SUPPORTED_VERSIONS_def sample_entries_def sample_tensors_def)
  then show ?thesis
    unfolding sample_entries_summary
    by (simp add: metadata0_def DEFAULT_ALIGNMENT_def finish_header_def get_kept_def uint_of_def
        MAX_BLOCK_COUNT_def) (simp add: sample_tensors_def)
qed

section \<open>Properties\<close>

text \<open>C15. Reading back a header: on the bytes of any header written as the format says (version 2
  or 3, any metadata entries, any tensor records, at most 64 MiB in all) followed by any tensor
  data, the parser stops exactly at the end of the header and comes to the summary of the entries
  and tensors, or to the error the summary of the entries, the alignment or the layer count calls
  for. The bytes of the tensor data have no influence.\<close>

theorem header_read_back:
  assumes "ver \<in> set SUPPORTED_VERSIONS" and "length es \<le> 1048576" and "length ts \<le> 1048576"
    and "list_all (\<lambda>(key, v). length key \<le> 4096 \<and> gval_ok v) es" and "list_all tensor_ok ts"
    and "length (enc_header ver es ts) \<le> 67108864"
  shows "parse_gguf_header (at [] (enc_header ver es ts @ weights)) =
     bind_result (entries_summary es metadata0) (\<lambda>m.
       if m_alignment m = 0 then Inl (Malformed AlignmentZero)
       else bind_result
         (finish_header ver (of_nat (length ts)) m (tensors_summary ts tensors0)
            (of_nat (length (enc_header ver es ts))))
         (\<lambda>h. Inr (h, at (enc_header ver es ts) weights)))"
  by (rule header_summary [OF assms])

theorem header_read_back_witness:
  "\<exists>h r. parse_gguf_header (at [] (enc_header 3 sample_entries sample_tensors @ ''weights'')) = Inr (h, r) \<and>
     block_count h = Some 32 \<and> param_count h = 131072000 \<and> has_output h"
proof -
  have "parse_gguf_header (at [] (enc_header 3 sample_entries sample_tensors @ ''weights'')) =
     bind_result (entries_summary sample_entries metadata0) (\<lambda>m.
       if m_alignment m = 0 then Inl (Malformed AlignmentZero)
       else bind_result
         (finish_header 3 (of_nat (length sample_tensors)) m (tensors_summary sample_tensors tensors0)
            (of_nat (length (enc_header 3 sample_entries sample_tensors))))
         (\<lambda>h. Inr (h, at (enc_header 3 sample_entries sample_tensors) ''weights'')))"
    using sample_ok
    by (intro header_read_back) (simp_all add: SUPPORTED_VERSIONS_def sample_entries_def sample_tensors_def)
  then show ?thesis
    unfolding sample_entries_summary
    by (simp add: metadata0_def DEFAULT_ALIGNMENT_def finish_header_def get_kept_def uint_of_def
        MAX_BLOCK_COUNT_def tensors_summary_def sample_tensors_def utf8_ascii apply_tensor_def
        tensors0_def saturating_add_def saturating_mul_def)
qed

text \<open>The header alone decides: cutting the file anywhere after the header's end changes
  nothing of the result, so the tensor data need not be fetched; and for a model with at least one
  tensor, cutting it anywhere before that end is reported as truncation, whatever the reader met
  there, never as another header.\<close>

theorem header_prefix:
  assumes "parse_gguf_header r = Inr (h, r')"
  shows "(pos r' \<le> n \<longrightarrow> parse_gguf_header (cut n r) = Inr (h, cut n r')) \<and>
     (0 < tensor_count h \<and> n < pos r' \<longrightarrow> parse_gguf_header (cut n r) = Inl Truncated)"
proof (intro conjI impI)
  note l = prefix_localD(2) [OF local_parse assms, of n]
  show "pos r' \<le> n \<Longrightarrow> parse_gguf_header (cut n r) = Inr (h, cut n r')" using l by auto
  assume a: "0 < tensor_count h \<and> n < pos r'"
  have "pos r'' \<le> length (bytes r'')" if "parse_gguf_header q = Inr (h, r'')" for q r''
    using parse_steps [OF that] a ends_inside_rloop [of "unat (tensor_count h)" read_tensor, OF _ ends_inside_read_tensor]
    by (auto simp: ends_inside_def unat_gt_0 word_gt_0)
  from this [of "cut n r" "cut n r'"] l a show "parse_gguf_header (cut n r) = Inl Truncated" by auto
qed

theorem header_prefix_witness:
  "parse_gguf_header (cut 50 (at [] (enc_header 3 sample_entries sample_tensors @ ''weights''))) =
     Inl Truncated"
proof -
  obtain h where h: "parse_gguf_header (at [] (enc_header 3 sample_entries sample_tensors @ ''weights'')) =
      Inr (h, at (enc_header 3 sample_entries sample_tensors) ''weights'')" "tensor_count h = 1"
    using sample_summary [of "''weights''"] by blast
  have "50 < pos (at (enc_header 3 sample_entries sample_tensors) ''weights'')"
    by (simp add: at_def enc_header_def sample_entries_def sample_tensors_def enc_entry_def enc_tensor_def
        enc_string_def)
  with header_prefix [OF h(1), of 50] h(2) show ?thesis by simp
qed

text \<open>C37. What a caller may rely on in a header that was read, from a reader at the start of any
  file: a supported version, at most $2^{20}$ tensors, a header of at most 64 MiB, at most ten
  thousand layers, tensor data that starts at or after the header's end, and an embedding tensor
  whose successor lies beyond it.\<close>

theorem header_bounds:
  assumes "parse_gguf_header r = Inr (h, r')" and "pos r = 0"
  shows "version h \<in> {2, 3} \<and> unat (tensor_count h) \<le> 1048576 \<and>
     pos r' \<le> 67108864 \<and> pos r' \<le> unat (data_offset h) \<and>
     (\<forall>b. block_count h = Some b \<longrightarrow> unat b \<le> 10000) \<and>
     (\<forall>s k. token_embd h = Some s \<longrightarrow> next_offset s = Some k \<longrightarrow> offset s < k)"
proof -
  obtain tc and mc :: u64 and m t r1 r2 where
    1: "pos r1 = 24" "version h \<in> {2, 3}" "tc \<le> MAX_ENTRIES" "tensor_count h = tc" and
    2: "rloop read_entry (unat mc) metadata0 r1 = Inr (m, r2)" "m_alignment m \<noteq> 0" and
    3: "rloop read_tensor (unat tc) tensors0 r2 = Inr (t, r')" and
    4: "finish_header (version h) tc m t (of_nat (pos r')) = Inr h"
    using parse_steps [OF assms(1)] unfolding assms(2) add_0 by blast
  have M: "unat MAX_HEADER_BYTES = 67108864" by (simp add: MAX_HEADER_BYTES_def)
  have "pos r2 \<le> unat MAX_HEADER_BYTES"
    using 1 by (intro rloop_bound [OF read_entry_bound 2(1)]) (simp_all add: M)
  from rloop_bound [OF read_tensor_bound 3 this] have p: "pos r' \<le> 67108864" by (simp add: M)
  have "unat (of_nat (pos r') :: u64) = pos r'" using p by (rule unat_of_nat_small)
  moreover have "data_offset h = align_up (of_nat (pos r')) (m_alignment m)"
    using finish_header_fields [OF 4] by simp
  ultimately have "pos r' \<le> unat (data_offset h)"
    using align_up_ge [OF 2(2), of "of_nat (pos r')"] by simp
  moreover have "unat b \<le> 10000" if "block_count h = Some b" for b
    using finish_header_fields [OF 4] that by (auto simp: MAX_BLOCK_COUNT_def word_less_nat_alt)
  moreover have "offset s < k" if "token_embd h = Some s" "next_offset s = Some k" for s k
    using span_of_next [of t s k] finish_header_fields [OF 4] that by simp
  moreover have "unat (tensor_count h) \<le> 1048576"
    using 1 by (simp add: MAX_ENTRIES_def word_le_nat_alt)
  ultimately show ?thesis using 1(2) p by blast
qed

theorem header_bounds_witness:
  "\<exists>h r. parse_gguf_header (at [] (enc_header 3 sample_entries sample_tensors)) = Inr (h, r) \<and>
     pos r \<le> unat (data_offset h)"
proof -
  obtain h where h: "parse_gguf_header (at [] (enc_header 3 sample_entries sample_tensors)) =
      Inr (h, at (enc_header 3 sample_entries sample_tensors) [])"
    using sample_summary [of "[]"] by auto
  with header_bounds [OF h] show ?thesis by (auto simp: at_def)
qed

text \<open>Integers and offsets: a signed metadata integer of 1, 2, 4 or 8 bytes is read as its
  value when that is not negative in its own width and as missing otherwise; the start of the
  tensor data is the least multiple of a non-zero alignment at or after the header's end, or the
  largest 64-bit number when that multiple does not fit.\<close>

theorem integer_rules:
  "(length buf = width \<and> width \<in> {1, 2, 4, 8} \<longrightarrow>
      decode_int buf width Signed =
        (if le_val buf < 2 ^ (8 * width - 1) then Some (of_nat (le_val buf)) else None) \<and>
      decode_int buf width Unsigned = Some (of_nat (le_val buf)) \<and> le_val buf < 2 ^ 64) \<and>
   (a \<noteq> 0 \<longrightarrow>
      (let k = unat (align_up v a)
       in (k = 2 ^ 64 - 1 \<or> unat a dvd k) \<and> unat v \<le> k \<and>
          (\<forall>q. unat a dvd q \<and> unat v \<le> q \<longrightarrow> k \<le> q)))"
proof (intro conjI impI)
  assume b: "length buf = width \<and> width \<in> {1, 2, 4, 8}"
  then show "decode_int buf width Signed =
      (if le_val buf < 2 ^ (8 * width - 1) then Some (of_nat (le_val buf)) else None)"
    using decode_signed [of buf width] by blast
  show "decode_int buf width Unsigned = Some (of_nat (le_val buf))" by (simp add: decode_int_def)
  have "le_val buf < 256 ^ width" using le_val_bound [of buf] b by simp
  also have "(256 :: nat) ^ width \<le> 256 ^ 8" using b by (intro power_increasing) auto
  finally show "le_val buf < 2 ^ 64" by simp
next
  assume a: "a \<noteq> 0"
  show "let k = unat (align_up v a)
     in (k = 2 ^ 64 - 1 \<or> unat a dvd k) \<and> unat v \<le> k \<and> (\<forall>q. unat a dvd q \<and> unat v \<le> q \<longrightarrow> k \<le> q)"
    unfolding Let_def using align_up_multiple [OF a, of v] align_up_ge [OF a, of v] align_up_least [OF a]
    by blast
qed

theorem integer_rules_witness:
  "decode_int (enc_le 4 4294967295) 4 Signed = None \<and> unat (align_up 45 32 :: u64) \<le> 64"
proof -
  have "unat (align_up 45 32 :: u64) \<le> 64"
    using integer_rules [of "[]" 0 32 45] by (simp add: Let_def)
  moreover have "decode_int (enc_le 4 4294967295) 4 Signed = None"
    using integer_rules [of "enc_le 4 4294967295" 4] by (simp add: le_val_enc)
  ultimately show ?thesis by blast
qed

text \<open>A truncated header that is read without complaint: when the last thing the header holds is
  a skipped value and no tensor follows, nothing is read after the skip, and a file that ends inside
  that value parses. (The comment on \<^verbatim>\<open>skip\<close> says the next read then fails as truncated.)\<close>

theorem truncation_unnoticed:
  "\<exists>h r. parse_gguf_header (at [] cut_short) = Inr (h, r) \<and>
     length (bytes r) < pos r \<and> tensor_count h = 0"
proof -
  define G where "G = ''GGUF''"
  define V where "V = enc_le 4 3"
  define C where "C = enc_le 8 0"
  define D where "D = enc_le 8 1"
  define K where "K = enc_string ''k''"
  define Y where "Y = enc_le 4 8"
  define N where "N = enc_le 8 5000"
  have s: "cut_short = G @ V @ C @ D @ K @ Y @ N"
    by (simp add: cut_short_def G_def V_def C_def D_def K_def Y_def N_def)
  have len: "length G = 4" "length V = 4" "length C = 8" "length D = 8" "length K = 9" "length Y = 4"
    "length N = 8"
    by (simp_all add: G_def V_def C_def D_def K_def Y_def N_def enc_string_def)
  have g: "(G = ''GGUF'') = True" by (simp add: G_def)
  have M: "unat MAX_HEADER_BYTES = 67108864" by (simp add: MAX_HEADER_BYTES_def)
  have k: "from_utf8_lossy ''k'' = ''k''" by (simp add: utf8_ascii)
  have 1: "read_exact 4 (at [] (G @ V @ C @ D @ K @ Y @ N)) = Inr (G, at G (V @ C @ D @ K @ Y @ N))"
    using readsD [OF reads_exact [of G 4], of "[]"] len by (simp add: M)
  have 2: "read_u32 (at G (V @ C @ D @ K @ Y @ N)) = Inr (3, at (G @ V) (C @ D @ K @ Y @ N))"
    using readsD [OF reads_u32 [of 3], of G] len by (simp add: M V_def)
  have 3: "read_u64 (at (G @ V) (C @ D @ K @ Y @ N)) = Inr (0, at (G @ V @ C) (D @ K @ Y @ N))"
    using readsD [OF reads_u64 [of 0], of "G @ V"] len by (simp add: M C_def)
  have 4: "read_u64 (at (G @ V @ C) (D @ K @ Y @ N)) = Inr (1, at (G @ V @ C @ D) (K @ Y @ N))"
    using readsD [OF reads_u64 [of 1], of "G @ V @ C"] len by (simp add: M D_def)
  have 5: "read_string MAX_KEY_LEN (at (G @ V @ C @ D) (K @ Y @ N)) =
      Inr (Some ''k'', at (G @ V @ C @ D @ K) (Y @ N))"
    using readsD [OF reads_key [of "''k''"], of "G @ V @ C @ D"] len by (simp add: M K_def k)
  have 6: "read_u32 (at (G @ V @ C @ D @ K) (Y @ N)) = Inr (8, at (G @ V @ C @ D @ K @ Y) N)"
    using readsD [OF reads_u32 [of 8], of "G @ V @ C @ D @ K"] len by (simp add: M Y_def)
  have 7: "read_value 8 0 (is_kept_key ''k'') (at (G @ V @ C @ D @ K @ Y) N) =
      Inr (Skipped, (at ((G @ V @ C @ D @ K @ Y) @ N) [])\<lparr>pos := 5045\<rparr>)"
    unfolding N_def using skip_past_end [of 5000 "G @ V @ C @ D @ K @ Y"] len by simp
  have a: "m_alignment metadata0 = 32" by (simp add: metadata0_def DEFAULT_ALIGNMENT_def)
  have 8: "apply_entry metadata0 ''k'' Skipped = Inr metadata0"
    by (simp add: apply_entry_def keep_value_def metadata0_def is_kept_key_def KEPT_KEY_SUFFIXES_def ends_with_def)
  have e: "read_entry metadata0 (at (G @ V @ C @ D) (K @ Y @ N)) =
      Inr (metadata0, (at ((G @ V @ C @ D @ K @ Y) @ N) [])\<lparr>pos := 5045\<rparr>)"
    by (simp add: read_entry_def rbind_step 5 6 7 check_size_def M lift_result_def 8 rret_def rbind_def)
  have l: "rloop read_entry (Suc 0) metadata0 (at (G @ V @ C @ D) (K @ Y @ N)) =
      Inr (metadata0, (at ((G @ V @ C @ D @ K @ Y) @ N) [])\<lparr>pos := 5045\<rparr>)"
    by (simp add: rbind_step e rret_def)
  have "parse_gguf_header (at [] cut_short) =
      lift_result (finish_header 3 0 metadata0 tensors0 5045) ((at ((G @ V @ C @ D @ K @ Y) @ N) [])\<lparr>pos := 5045\<rparr>)"
    unfolding parse_gguf_header_def s
    by (simp add: rbind_step 1 2 3 4 l g SUPPORTED_VERSIONS_def rret_def position_def a
        MAX_ENTRIES_def del: rloop.simps(2))
  moreover have "\<exists>h. finish_header 3 0 metadata0 tensors0 5045 = Inr h"
    by (simp add: finish_header_def metadata0_def get_kept_def uint_of_def)
  moreover have "length (bytes ((at ((G @ V @ C @ D @ K @ Y) @ N) [])\<lparr>pos := 5045\<rparr>)) = 45"
    using len by (simp add: at_def)
  ultimately show ?thesis
    using finish_header_fields by (auto simp: lift_result_def rret_def)
qed

end
