(* ===== verification/Jsonl_Store.thy ===== *)
theory Jsonl_Store
  imports Prelude
begin

text \<open>
  \<^verbatim>\<open>crates/rocm-core/src/jsonl_store.rs\<close>: the JSONL engine behind the automation stores. A store is
  its files by generation, 0 the live one; a file is its bytes. What the disk refuses is an
  explicit argument of the operations, so that every error branch is a branch of the model. The
  JSON library is a parameter: \<open>ser\<close> and \<open>de\<close> write and read a record, \<open>json_ok\<close> says whether a line
  is JSON at all. Every operation is modelled as it runs under the store's lock; a scan may still
  find the file shorter than the length it was given.
\<close>

section \<open>Paths and policy\<close>

definition jsonl_lock_path :: "string \<Rightarrow> string" where
  "jsonl_lock_path name = name @ ''.lock''"

definition jsonl_generation_path :: "string \<Rightarrow> nat \<Rightarrow> string" where
  "jsonl_generation_path name generation =
     (if generation = 0 then name else name @ ''.'' @ show_nat generation)"

record jsonl_rotation =
  max_bytes :: nat
  generations :: nat

definition JSONL_SCAN_CHUNK :: nat where
  "JSONL_SCAN_CHUNK = 65536"

section \<open>Lines\<close>

abbreviation nl :: char where
  "nl \<equiv> CHR 0x0A"

definition is_blank :: "char list \<Rightarrow> bool" where
  "is_blank line \<longleftrightarrow> list_all (\<lambda>c. c \<in> {CHR '' '', CHR 0x09, nl, CHR 0x0C, CHR 0x0D}) line"

definition is_torn_record :: "(char list \<Rightarrow> bool) \<Rightarrow> char list \<Rightarrow> bool" where
  "is_torn_record json_ok line \<longleftrightarrow> \<not> json_ok line"

text \<open>\<^verbatim>\<open>bytes.split(|&byte| byte == b'\n')\<close>.\<close>

fun split_nl :: "char list \<Rightarrow> char list list" where
  "split_nl [] = [[]]"
| "split_nl (c # cs) =
     (if c = nl then [] # split_nl cs
      else (case split_nl cs of [] \<Rightarrow> [[c]] | l # ls \<Rightarrow> (c # l) # ls))"

datatype scan_error = ParseFailed | Shrank

fun parse_lines ::
  "(char list \<Rightarrow> 'r option) \<Rightarrow> (char list \<Rightarrow> bool) \<Rightarrow> bool \<Rightarrow> nat \<Rightarrow> nat \<Rightarrow> char list list
     \<Rightarrow> scan_error + (nat \<times> 'r) list" where
  "parse_lines de json_ok unterminated line_count index [] = Inr []"
| "parse_lines de json_ok unterminated line_count index (line # rest) =
     (if is_blank line then parse_lines de json_ok unterminated line_count (Suc index) rest
      else case de line of
        Some record \<Rightarrow>
          bind_result (parse_lines de json_ok unterminated line_count (Suc index) rest)
            (\<lambda>records. Inr ((index, record) # records))
      | None \<Rightarrow>
          if unterminated \<and> index + 1 = line_count \<and> is_torn_record json_ok line
          then parse_lines de json_ok unterminated line_count (Suc index) rest
          else Inl ParseFailed)"

definition parse_jsonl_records ::
  "(char list \<Rightarrow> 'r option) \<Rightarrow> (char list \<Rightarrow> bool) \<Rightarrow> char list \<Rightarrow> scan_error + (nat \<times> 'r) list" where
  "parse_jsonl_records de json_ok bs =
     parse_lines de json_ok (bs \<noteq> [] \<and> \<not> ends_with bs [nl]) (length (split_nl bs)) 0 (split_nl bs)"

section \<open>Reading backwards\<close>

text \<open>\<^verbatim>\<open>read_range\<close>: fewer bytes when the file ends before \<open>to\<close>.\<close>

definition read_range :: "char list \<Rightarrow> nat \<Rightarrow> nat \<Rightarrow> char list" where
  "read_range file from to = take (to - from) (drop from file)"

text \<open>The chunk is at least one byte: the constructor replaces zero, and the field holds what is
  above one.\<close>

record reverse_lines =
  rl_chunk_extra :: nat
  rl_pos :: nat
  rl_pending :: "char list"
  rl_done :: bool

definition reverse_lines_new :: "nat \<Rightarrow> nat \<Rightarrow> reverse_lines" where
  "reverse_lines_new len chunk =
     \<lparr>rl_chunk_extra = (if chunk = 0 then 1 else chunk) - 1, rl_pos = len, rl_pending = [], rl_done = False\<rparr>"

text \<open>\<^verbatim>\<open>rposition\<close> of the newline: what is before and after the last one.\<close>

definition last_newline :: "char list \<Rightarrow> (char list \<times> char list) option" where
  "last_newline bs =
     (if nl \<in> set bs
      then Some (rev (tl (dropWhile (\<lambda>c. c \<noteq> nl) (rev bs))), rev (takeWhile (\<lambda>c. c \<noteq> nl) (rev bs)))
      else None)"

function next_line_loop ::
  "char list \<Rightarrow> nat \<Rightarrow> nat \<Rightarrow> char list \<Rightarrow> scan_error + ((nat \<times> char list) \<times> nat \<times> char list \<times> bool)" where
  "next_line_loop file extra pos pending =
     (case last_newline pending of
        Some (before, line) \<Rightarrow> Inr ((pos + length before + 1, line), pos, before, False)
      | None \<Rightarrow>
          if pos = 0 then Inr ((0, pending), 0, [], True)
          else
            let start = pos - Suc extra;
                bs = read_range file start pos
            in if length bs \<noteq> pos - start \<and> pending \<noteq> [] then Inl Shrank
               else next_line_loop file extra start (bs @ pending))"
  by pat_completeness auto
termination
  by (relation "measure (\<lambda>(_, _, pos, _). pos)") auto

declare next_line_loop.simps [simp del]

definition next_line ::
  "char list \<Rightarrow> reverse_lines \<Rightarrow> scan_error + (nat \<times> char list) option \<times> reverse_lines" where
  "next_line file rl =
     (if rl_done rl then Inr (None, rl)
      else bind_result (next_line_loop file (rl_chunk_extra rl) (rl_pos rl) (rl_pending rl))
        (\<lambda>(line, pos, pending, fin).
           Inr (Some line, rl\<lparr>rl_pos := pos, rl_pending := pending, rl_done := fin\<rparr>)))"

text \<open>The loop of \<^verbatim>\<open>scan_recent_jsonl_records\<close>; \<open>fuel\<close> bounds the lines left; it starts
  above the length of the file, so it never runs out.\<close>

fun scan_loop ::
  "(char list \<Rightarrow> 'r option) \<Rightarrow> char list \<Rightarrow> nat \<Rightarrow> nat \<Rightarrow> reverse_lines \<Rightarrow> 'r list \<Rightarrow> scan_error + 'r list" where
  "scan_loop de file 0 limit rl records = Inr records"
| "scan_loop de file (Suc fuel) limit rl records =
     (if length records < limit then
        bind_result (next_line file rl) (\<lambda>(next, rl').
          case next of
            None \<Rightarrow> Inr records
          | Some (_, line) \<Rightarrow>
              if is_blank line then scan_loop de file fuel limit rl' records
              else (case de line of
                      None \<Rightarrow> Inl ParseFailed
                    | Some record \<Rightarrow> scan_loop de file fuel limit rl' (records @ [record])))
      else Inr records)"

definition scan_recent_jsonl_records ::
  "(char list \<Rightarrow> 'r option) \<Rightarrow> (char list \<Rightarrow> bool) \<Rightarrow> char list \<Rightarrow> nat \<Rightarrow> nat \<Rightarrow> scan_error + 'r list" where
  "scan_recent_jsonl_records de json_ok file len limit =
     bind_result (next_line file (reverse_lines_new len JSONL_SCAN_CHUNK)) (\<lambda>(first, rl).
       bind_result
         (case first of
            None \<Rightarrow> Inr []
          | Some (_, tail) \<Rightarrow>
              if \<not> is_blank tail \<and> \<not> is_torn_record json_ok tail
              then (case de tail of None \<Rightarrow> Inl ParseFailed | Some record \<Rightarrow> Inr [record])
              else Inr [])
         (\<lambda>records.
            bind_result (scan_loop de file (len + 2) limit rl records)
              (\<lambda>records. Inr (rev (take limit records)))))"

text \<open>The files of a store, newest first, and the records of its last \<open>limit\<close> lines across them.
  The files are what \<^verbatim>\<open>open_jsonl_generations\<close> returns: those that exist.\<close>

type_synonym store = "nat \<Rightarrow> char list option"

definition present :: "store \<Rightarrow> nat \<Rightarrow> char list list" where
  "present fs n = List.map_filter fs [0..<Suc n]"

fun load_recent_from_files ::
  "(char list \<Rightarrow> 'r option) \<Rightarrow> (char list \<Rightarrow> bool) \<Rightarrow> nat \<Rightarrow> char list list \<Rightarrow> scan_error + 'r list" where
  "load_recent_from_files de json_ok left [] = Inr []"
| "load_recent_from_files de json_ok left (file # older) =
     bind_result (scan_recent_jsonl_records de json_ok file (length file) left) (\<lambda>records.
       if length records \<ge> left then Inr records
       else bind_result (load_recent_from_files de json_ok (left - length records) older)
              (\<lambda>earlier. Inr (earlier @ records)))"

definition load_recent_jsonl_records ::
  "(char list \<Rightarrow> 'r option) \<Rightarrow> (char list \<Rightarrow> bool) \<Rightarrow> store \<Rightarrow> nat \<Rightarrow> nat \<Rightarrow> scan_error + 'r list" where
  "load_recent_jsonl_records de json_ok fs gens limit =
     (if limit = 0 then Inr [] else load_recent_from_files de json_ok limit (present fs gens))"

section \<open>Writing\<close>

text \<open>What the file system refuses during one call: the renames that fail, by the generation they
  move; how many bytes of an append land before it fails; whether the read-back after that fails;
  whether replacing and truncating the file fail.\<close>

record faults =
  rename_fails :: "nat \<Rightarrow> bool"
  write_stops :: "nat option"
  check_fails :: bool
  replace_fails :: bool
  truncate_fails :: bool

definition no_faults :: faults where
  "no_faults = \<lparr>rename_fails = \<lambda>_. False, write_stops = None, check_fails = False,
     replace_fails = False, truncate_fails = False\<rparr>"

datatype write_error = RotateFailed nat | AppendFailed | RepairFailed

definition rename :: "faults \<Rightarrow> nat \<Rightarrow> store \<Rightarrow> (write_error + unit) \<times> store" where
  "rename flt g fs =
     (if rename_fails flt g \<or> fs g = None then (Inl (RotateFailed g), fs)
      else (Inr (), fs(Suc g := fs g, g := None)))"

text \<open>The run of generations from 1 up that exist, at most \<open>gens\<close> of them.\<close>

fun run_from :: "store \<Rightarrow> nat \<Rightarrow> nat \<Rightarrow> nat" where
  "run_from fs run 0 = run"
| "run_from fs run (Suc left) = (if fs (Suc run) \<noteq> None then run_from fs (Suc run) left else run)"

text \<open>The loop \<^verbatim>\<open>for generation in (1..=k).rev()\<close>, stopping at the first failure, and then the
  rename of the live file.\<close>

fun shift_from :: "faults \<Rightarrow> nat \<Rightarrow> store \<Rightarrow> (write_error + unit) \<times> store" where
  "shift_from flt 0 fs = rename flt 0 fs"
| "shift_from flt (Suc k) fs =
     (case rename flt (Suc k) fs of
        (Inl e, fs') \<Rightarrow> (Inl e, fs')
      | (Inr _, fs') \<Rightarrow> shift_from flt k fs')"

definition rotate_jsonl_generations :: "faults \<Rightarrow> nat \<Rightarrow> store \<Rightarrow> (write_error + unit) \<times> store" where
  "rotate_jsonl_generations flt gens fs =
     shift_from flt (min (run_from fs 0 gens) (gens - 1)) fs"

definition landed_despite_the_error :: "char list \<Rightarrow> char list \<Rightarrow> bool" where
  "landed_despite_the_error landed line =
     (let wanted = take (length line - 1) line
      in length wanted \<le> length landed \<and> take (length wanted) landed = wanted)"

definition append_or_tolerate_a_missing_newline ::
  "faults \<Rightarrow> char list \<Rightarrow> nat \<Rightarrow> char list \<Rightarrow> (write_error + unit) \<times> char list" where
  "append_or_tolerate_a_missing_newline flt line start file =
     (case write_stops flt of
        None \<Rightarrow> (Inr (), file @ line)
      | Some k \<Rightarrow>
          (let file' = file @ take k line
           in if check_fails flt then (Inl AppendFailed, file')
              else if landed_despite_the_error (read_range file' start (max (length file') start)) line
              then (Inr (), file')
              else (Inl AppendFailed, file')))"

definition repair_torn_tail_and_append ::
  "faults \<Rightarrow> nat \<Rightarrow> char list \<Rightarrow> char list \<Rightarrow> (write_error + unit) \<times> char list" where
  "repair_torn_tail_and_append flt tail_start line file =
     (let content = read_range file 0 tail_start @ line
      in if \<not> replace_fails flt then (Inr (), content)
         else if truncate_fails flt then (Inl RepairFailed, file)
         else append_or_tolerate_a_missing_newline flt line tail_start (take tail_start file))"

datatype tail_state = Clean nat | ValidUnterminated nat | Torn nat

definition inspect_tail :: "(char list \<Rightarrow> bool) \<Rightarrow> char list \<Rightarrow> scan_error + tail_state" where
  "inspect_tail json_ok file =
     (let len = length file
      in if len = 0 \<or> read_range file (len - 1) len = [nl] then Inr (Clean len)
         else bind_result (next_line file (reverse_lines_new len JSONL_SCAN_CHUNK)) (\<lambda>(first, _).
           let (tail_start, tail) = (case first of None \<Rightarrow> (0, []) | Some l \<Rightarrow> l)
           in if tail = [] then Inr (Clean len)
              else if is_blank tail \<or> \<not> is_torn_record json_ok tail then Inr (ValidUnterminated len)
              else Inr (Torn tail_start)))"

definition open_for_append :: "store \<Rightarrow> store" where
  "open_for_append fs = (case fs 0 of None \<Rightarrow> fs(0 := Some []) | Some _ \<Rightarrow> fs)"

definition live :: "store \<Rightarrow> char list" where
  "live fs = (case fs 0 of None \<Rightarrow> [] | Some bs \<Rightarrow> bs)"

text \<open>The record's line onto the live file as it stands.\<close>

definition append_line ::
  "(char list \<Rightarrow> bool) \<Rightarrow> faults \<Rightarrow> char list \<Rightarrow> char list \<Rightarrow> (write_error + unit) \<times> char list" where
  "append_line json_ok flt line file =
     (case inspect_tail json_ok file of
        Inl _ \<Rightarrow> (Inl AppendFailed, file)
      | Inr (Torn tail_start) \<Rightarrow> repair_torn_tail_and_append flt tail_start line file
      | Inr (ValidUnterminated start) \<Rightarrow> append_or_tolerate_a_missing_newline flt (nl # line) start file
      | Inr (Clean start) \<Rightarrow> append_or_tolerate_a_missing_newline flt line start file)"

definition maybe_rotate :: "faults \<Rightarrow> jsonl_rotation option \<Rightarrow> store \<Rightarrow> store" where
  "maybe_rotate flt rotation fs =
     (case rotation of
        None \<Rightarrow> fs
      | Some policy \<Rightarrow>
          if max_bytes policy \<le> length (live fs)
          then open_for_append (snd (rotate_jsonl_generations flt (generations policy) fs))
          else fs)"

definition append_jsonl_record ::
  "('r \<Rightarrow> char list) \<Rightarrow> (char list \<Rightarrow> bool) \<Rightarrow> faults \<Rightarrow> jsonl_rotation option \<Rightarrow> 'r \<Rightarrow> store
     \<Rightarrow> (write_error + unit) \<times> store" where
  "append_jsonl_record ser json_ok flt rotation record fs =
     (let fs = maybe_rotate flt rotation (open_for_append fs);
          (result, file) = append_line json_ok flt (ser record @ [nl]) (live fs)
      in (result, fs(0 := Some file)))"

section \<open>Splitting\<close>

lemma last_newline_None: "last_newline bs = None \<longleftrightarrow> nl \<notin> set bs"
  by (simp add: last_newline_def)

lemma last_newline_Some:
  "last_newline bs = Some (a, l) \<longleftrightarrow> bs = a @ nl # l \<and> nl \<notin> set l"
proof
  assume "last_newline bs = Some (a, l)"
  then have m: "nl \<in> set bs" and a: "a = rev (tl (dropWhile (\<lambda>c. c \<noteq> nl) (rev bs)))"
    and l: "l = rev (takeWhile (\<lambda>c. c \<noteq> nl) (rev bs))"
    by (auto simp: last_newline_def split: if_splits)
  from m have d: "dropWhile (\<lambda>c. c \<noteq> nl) (rev bs) \<noteq> []" by (simp add: dropWhile_eq_Nil_conv)
  then have "dropWhile (\<lambda>c. c \<noteq> nl) (rev bs) = nl # rev a"
    using hd_dropWhile [OF d] by (cases "dropWhile (\<lambda>c. c \<noteq> nl) (rev bs)") (auto simp: a)
  then have "rev bs = rev l @ nl # rev a" unfolding l
    by (metis rev_rev_ident takeWhile_dropWhile_id)
  then have "bs = a @ nl # l" by (metis append.assoc append_Cons append_Nil rev.simps(2) rev_append rev_rev_ident)
  moreover have "nl \<notin> set l" unfolding l by (auto dest: set_takeWhileD)
  ultimately show "bs = a @ nl # l \<and> nl \<notin> set l" by simp
next
  assume r: "bs = a @ nl # l \<and> nl \<notin> set l"
  then have "takeWhile (\<lambda>c. c \<noteq> nl) (rev l @ nl # rev a) = rev l"
    and "dropWhile (\<lambda>c. c \<noteq> nl) (rev l @ nl # rev a) = nl # rev a"
    by (auto simp: takeWhile_append dropWhile_append)
  with r show "last_newline bs = Some (a, l)" by (simp add: last_newline_def)
qed

lemma split_nl_ne [simp]: "split_nl bs \<noteq> []"
  by (cases bs) (auto split: list.splits)

lemma split_nl_line: "nl \<notin> set l \<Longrightarrow> split_nl l = [l]"
  by (induction l) auto

lemma split_nl_append: "split_nl (a @ nl # b) = split_nl a @ split_nl b"
  by (induction a) (auto split: list.splits)

text \<open>A file is its complete lines and the tail after the last newline.\<close>

lemma file_cases:
  obtains (line) "nl \<notin> set bs" | (lines) a l where "bs = a @ nl # l" "nl \<notin> set l"
  by (metis last_newline_None last_newline_Some option.exhaust prod.exhaust)

definition file_tail :: "char list \<Rightarrow> char list" where
  "file_tail bs = last (split_nl bs)"

definition full_lines :: "char list \<Rightarrow> char list list" where
  "full_lines bs = butlast (split_nl bs)"

lemma split_file: "split_nl bs = full_lines bs @ [file_tail bs]"
  by (simp add: full_lines_def file_tail_def)

lemma file_tail_simps:
  "nl \<notin> set l \<Longrightarrow> file_tail l = l" "nl \<notin> set l \<Longrightarrow> file_tail (a @ nl # l) = l"
  "nl \<notin> set l \<Longrightarrow> full_lines l = []" "nl \<notin> set l \<Longrightarrow> full_lines (a @ nl # l) = split_nl a"
  by (simp_all add: file_tail_def full_lines_def split_nl_line split_nl_append)

lemma file_tail_facts:
  "nl \<notin> set (file_tail bs)"
  "take (length bs - length (file_tail bs)) bs @ file_tail bs = bs"
  "file_tail bs = [] \<longleftrightarrow> bs = [] \<or> ends_with bs [nl]"
  "full_lines (take (length bs - length (file_tail bs)) bs) = full_lines bs"
  "file_tail (take (length bs - length (file_tail bs)) bs) = []"
  by (cases bs rule: file_cases; auto simp: file_tail_simps ends_with_iff;
      metis append_Nil2 file_tail_simps empty_iff list.set(1) last_snoc append_is_Nil_conv last_ConsR
        in_set_conv_decomp last_appendR list.distinct(1) last_in_set)+

section \<open>The backward reader yields the lines in reverse\<close>

definition unread :: "char list \<Rightarrow> reverse_lines \<Rightarrow> char list" where
  "unread file rl = take (rl_pos rl) file @ rl_pending rl"

definition rl_lines :: "char list \<Rightarrow> reverse_lines \<Rightarrow> char list list" where
  "rl_lines file rl = (if rl_done rl then [] else rev (split_nl (unread file rl)))"

lemma next_line_loop_spec:
  assumes "pos \<le> length file"
  shows "case last_newline (take pos file @ pending) of
      None \<Rightarrow> next_line_loop file k pos pending = Inr ((0, take pos file @ pending), 0, [], True)
    | Some (a, l) \<Rightarrow> \<exists>p q. next_line_loop file k pos pending = Inr ((length a + 1, l), p, q, False) \<and>
        p \<le> length file \<and> take p file @ q = a"
  using assms
proof (induction "file" k pos pending rule: next_line_loop.induct)
  case (1 "file" k pos pending)
  show ?case
  proof (cases "last_newline pending")
    case (Some al)
    obtain a l where al: "al = (a, l)" by (cases al)
    then have p: "pending = a @ nl # l" "nl \<notin> set l" using Some by (simp_all add: last_newline_Some)
    then have "last_newline (take pos file @ pending) = Some (take pos file @ a, l)"
      by (simp add: last_newline_Some)
    moreover have "next_line_loop file k pos pending = Inr ((pos + length a + 1, l), pos, a, False)"
      by (subst next_line_loop.simps) (simp add: Some al)
    ultimately show ?thesis using "1.prems" by auto
  next
    case None
    show ?thesis
    proof (cases "pos = 0")
      case True
      with None show ?thesis by (subst next_line_loop.simps) simp
    next
      case False
      let ?s = "pos - Suc k" and ?bs = "read_range file (pos - Suc k) pos"
      have len: "length ?bs = pos - ?s" using "1.prems" by (simp add: read_range_def)
      have t: "take ?s file @ ?bs = take pos file"
        unfolding read_range_def by (metis diff_le_self le_add_diff_inverse take_add)
      have step: "next_line_loop file k pos pending = next_line_loop file k ?s (?bs @ pending)"
        using None False len by (subst next_line_loop.simps) (simp add: Let_def)
      have "?s \<le> length file" using "1.prems" by simp
      have t2: "take ?s file @ ?bs @ pending = take pos file @ pending"
        unfolding append_assoc [symmetric] t ..
      have "\<not> (length ?bs \<noteq> pos - ?s \<and> pending \<noteq> [])" using len by simp
      from "1.IH" [OF None False refl refl this \<open>?s \<le> length file\<close>] show ?thesis
        unfolding step t2 .
    qed
  qed
qed

lemma next_line_refines:
  assumes "rl_pos rl \<le> length file"
  shows "case rl_lines file rl of
      [] \<Rightarrow> next_line file rl = Inr (None, rl)
    | l # ls \<Rightarrow> \<exists>rl'. next_line file rl = Inr (Some (length (unread file rl) - length l, l), rl') \<and>
        rl_lines file rl' = ls \<and> rl_pos rl' \<le> length file"
proof (cases "rl_done rl")
  case True
  then show ?thesis by (simp add: rl_lines_def next_line_def)
next
  case False
  note spec = next_line_loop_spec [OF assms, where pending = "rl_pending rl" and k = "rl_chunk_extra rl"]
  show ?thesis
  proof (cases "last_newline (unread file rl)")
    case None
    then have "split_nl (unread file rl) = [unread file rl]"
      by (simp add: last_newline_None split_nl_line)
    with spec None False show ?thesis by (simp add: rl_lines_def next_line_def unread_def)
  next
    case (Some al)
    obtain a l where al: "last_newline (unread file rl) = Some (a, l)" using Some by (cases al) auto
    then have u: "unread file rl = a @ nl # l" "nl \<notin> set l" by (simp_all add: last_newline_Some)
    then have "split_nl (unread file rl) = split_nl a @ [l]" by (simp add: split_nl_append split_nl_line)
    then have lines: "rl_lines file rl = l # rev (split_nl a)" using False by (simp add: rl_lines_def)
    from spec al obtain p q where "next_line_loop file (rl_chunk_extra rl) (rl_pos rl) (rl_pending rl) =
        Inr ((length a + 1, l), p, q, False)" "p \<le> length file" "take p file @ q = a"
      by (auto simp: unread_def)
    then show ?thesis
      unfolding lines using False u by (auto simp: next_line_def rl_lines_def unread_def)
  qed
qed

section \<open>Reading all and reading the end agree\<close>

text \<open>The complete lines, where nothing is forgiven, and the tail.\<close>

abbreviation strict_lines :: "(char list \<Rightarrow> 'r option) \<Rightarrow> nat \<Rightarrow> char list list \<Rightarrow> scan_error + (nat \<times> 'r) list" where
  "strict_lines de \<equiv> parse_lines de (\<lambda>_. True) False 0"

definition parse_tail ::
  "(char list \<Rightarrow> 'r option) \<Rightarrow> (char list \<Rightarrow> bool) \<Rightarrow> nat \<Rightarrow> char list \<Rightarrow> scan_error + (nat \<times> 'r) list" where
  "parse_tail de json_ok index tail =
     (if is_blank tail then Inr []
      else case de tail of
        Some record \<Rightarrow> Inr [(index, record)]
      | None \<Rightarrow> if \<not> json_ok tail then Inr [] else Inl ParseFailed)"

lemma is_blank_Nil [simp]: "is_blank []"
  by (simp add: is_blank_def)

lemma bind_result_assoc:
  "bind_result (bind_result m f) g = bind_result m (\<lambda>x. bind_result (f x) g)"
  by (cases m) simp_all

lemma bind_result_Inr_id [simp]: "bind_result m Inr = m"
  by (cases m) simp_all

lemma parse_lines_snoc:
  "lc = i + length ls + 1 \<Longrightarrow> u \<longleftrightarrow> tail \<noteq> [] \<Longrightarrow>
     parse_lines de json_ok u lc i (ls @ [tail]) =
       bind_result (strict_lines de i ls) (\<lambda>rs.
         bind_result (parse_tail de json_ok (i + length ls) tail) (\<lambda>ts. Inr (rs @ ts)))"
proof (induction ls arbitrary: i)
  case Nil
  then show ?case
    by (auto simp: parse_tail_def is_torn_record_def split: option.split)
next
  case (Cons l ls)
  have "parse_lines de json_ok u lc (Suc i) (ls @ [tail]) =
       bind_result (strict_lines de (Suc i) ls) (\<lambda>rs.
         bind_result (parse_tail de json_ok (Suc i + length ls) tail) (\<lambda>ts. Inr (rs @ ts)))"
    using Cons.prems by (intro Cons.IH) simp_all
  then show ?case using Cons.prems by (simp add: bind_result_assoc split: option.split)
qed

lemma strict_lines_append:
  "strict_lines de i (ls @ ms) =
     bind_result (strict_lines de i ls) (\<lambda>rs.
       bind_result (strict_lines de (i + length ls) ms) (\<lambda>ss. Inr (rs @ ss)))"
  by (induction ls arbitrary: i) (auto simp: bind_result_assoc split: option.split)

lemma parse_file:
  "parse_jsonl_records de json_ok bs =
     bind_result (strict_lines de 0 (full_lines bs)) (\<lambda>rs.
       bind_result (parse_tail de json_ok (length (full_lines bs)) (file_tail bs)) (\<lambda>ts. Inr (rs @ ts)))"
  unfolding parse_jsonl_records_def split_file
  by (subst parse_lines_snoc) (auto simp: file_tail_facts)

definition good_lines :: "(char list \<Rightarrow> 'r option) \<Rightarrow> char list list \<Rightarrow> bool" where
  "good_lines de ls \<longleftrightarrow> list_all (\<lambda>l. is_blank l \<or> de l \<noteq> None) ls"

definition decoded_lines :: "(char list \<Rightarrow> 'r option) \<Rightarrow> char list list \<Rightarrow> 'r list" where
  "decoded_lines de ls = map (\<lambda>l. the (de l)) (filter (\<lambda>l. \<not> is_blank l) ls)"

lemma strict_lines_Inr:
  "strict_lines de i ls = Inr rs \<Longrightarrow> good_lines de ls \<and> map snd rs = decoded_lines de ls"
proof (induction ls arbitrary: i rs)
  case (Cons l ls)
  from Cons.prems Cons.IH [of "Suc i"] show ?case
    by (auto simp: good_lines_def decoded_lines_def split: if_splits option.splits)
qed (simp add: good_lines_def decoded_lines_def)

lemma scan_loop_lines:
  assumes "rl_pos rl \<le> length file" and "good_lines de (rl_lines file rl)"
    and "length (rl_lines file rl) < fuel"
  shows "\<exists>out. scan_loop de file fuel limit rl records = Inr out \<and>
     take limit out = take limit (records @ decoded_lines de (rl_lines file rl))"
  using assms
proof (induction fuel arbitrary: rl records)
  case (Suc fuel)
  show ?case
  proof (cases "length records < limit")
    case False
    then show ?thesis by simp
  next
    case True
    show ?thesis
    proof (cases "rl_lines file rl")
      case Nil
      with next_line_refines [OF Suc.prems(1)] True show ?thesis by (simp add: decoded_lines_def)
    next
      case (Cons l ls)
      with next_line_refines [OF Suc.prems(1)] obtain s rl' where
        n: "next_line file rl = Inr (Some (s, l), rl')" "rl_lines file rl' = ls" "rl_pos rl' \<le> length file"
        by auto
      have g: "good_lines de (rl_lines file rl')" "length (rl_lines file rl') < fuel"
        using Suc.prems(2,3) Cons n(2) by (simp_all add: good_lines_def)
      show ?thesis
      proof (cases "is_blank l")
        case blank: True
        with Suc.IH [OF n(3) g, of records] True n Cons show ?thesis by (simp add: decoded_lines_def)
      next
        case False
        with Suc.prems(2) Cons obtain r where r: "de l = Some r" by (auto simp: good_lines_def)
        with Suc.IH [OF n(3) g, of "records @ [r]"] True False n Cons show ?thesis
          by (simp add: decoded_lines_def)
      qed
    qed
  qed
qed simp

lemma length_split_nl: "length (split_nl bs) \<le> Suc (length bs)"
  by (induction bs) (auto split: list.split)

definition last_n :: "nat \<Rightarrow> 'a list \<Rightarrow> 'a list" where
  "last_n n xs = drop (length xs - n) xs"

lemma last_n_rev: "rev (take n (rev xs)) = last_n n xs"
  by (simp add: last_n_def rev_take)

lemma decoded_lines_rev: "decoded_lines de (rev ls) = rev (decoded_lines de ls)"
  by (simp add: decoded_lines_def rev_map rev_filter)

lemma scan_recent:
  assumes "parse_jsonl_records de json_ok bs = Inr rs" and "\<And>l r. de l = Some r \<Longrightarrow> json_ok l"
  shows "scan_recent_jsonl_records de json_ok bs (length bs) limit = Inr (last_n limit (map snd rs))"
proof -
  obtain fs ts where f: "strict_lines de 0 (full_lines bs) = Inr fs"
    and t: "parse_tail de json_ok (length (full_lines bs)) (file_tail bs) = Inr ts" and rs: "rs = fs @ ts"
    using assms(1) unfolding parse_file by auto
  note g = strict_lines_Inr [OF f]
  let ?rl = "reverse_lines_new (length bs) JSONL_SCAN_CHUNK"
  have l: "rl_lines bs ?rl = file_tail bs # rev (full_lines bs)"
    by (simp add: rl_lines_def unread_def reverse_lines_new_def split_file)
  have "rl_pos ?rl \<le> length bs" by (simp add: reverse_lines_new_def)
  from next_line_refines [OF this] l obtain s rl where
    n: "next_line bs ?rl = Inr (Some (s, file_tail bs), rl)" "rl_lines bs rl = rev (full_lines bs)"
      "rl_pos rl \<le> length bs"
    by auto
  have ft: "(if \<not> is_blank (file_tail bs) \<and> \<not> is_torn_record json_ok (file_tail bs)
      then (case de (file_tail bs) of None \<Rightarrow> Inl ParseFailed | Some record \<Rightarrow> Inr [record]) else Inr []) =
      Inr (map snd ts)"
    using t assms(2) [of "file_tail bs"]
    by (auto simp: parse_tail_def is_torn_record_def split: if_splits option.splits)
  have fuel: "length (rl_lines bs rl) < length bs + 2"
    using length_split_nl [of bs] unfolding n(2) by (simp add: full_lines_def)
  have "good_lines de (rl_lines bs rl)" using g by (simp add: n(2) good_lines_def)
  from scan_loop_lines [OF n(3) this fuel, of limit "map snd ts"] obtain out where
    out: "scan_loop de bs (length bs + 2) limit rl (map snd ts) = Inr out"
      "take limit out = take limit (map snd ts @ rev (map snd fs))"
    using g by (auto simp: n(2) decoded_lines_rev)
  have "length ts \<le> 1" using t by (auto simp: parse_tail_def split: if_splits option.splits)
  then have "rev (map snd ts) = map snd ts" by (cases ts) auto
  then have "take limit out = take limit (rev (map snd rs))" using out(2) by (simp add: rs rev_map)
  then show ?thesis
    unfolding scan_recent_jsonl_records_def n(1)
    by (simp only: bind_result.simps prod.case option.case ft out(1)) (simp add: last_n_rev)
qed

section \<open>Appending\<close>

text \<open>What the JSON library documents of the records the stores hold: a record is written on one
  line, as a JSON object, and read back as itself; text that reads as a record is JSON; an object
  cut short is not.\<close>

definition json_laws ::
  "('r \<Rightarrow> char list) \<Rightarrow> (char list \<Rightarrow> 'r option) \<Rightarrow> (char list \<Rightarrow> bool) \<Rightarrow> bool" where
  "json_laws ser de json_ok \<longleftrightarrow>
     (\<forall>r. nl \<notin> set (ser r) \<and> \<not> is_blank (ser r) \<and> de (ser r) = Some r) \<and>
     (\<forall>l r. de l = Some r \<longrightarrow> json_ok l) \<and>
     (\<forall>r k. k < length (ser r) \<longrightarrow> \<not> json_ok (take k (ser r)))"

lemma json_lawsD:
  assumes "json_laws ser de json_ok"
  shows "nl \<notin> set (ser r)" "\<not> is_blank (ser r)" "de (ser r) = Some r"
    "de l = Some x \<Longrightarrow> json_ok l" "k < length (ser r) \<Longrightarrow> \<not> json_ok (take k (ser r))"
    "k < length (ser r) \<Longrightarrow> de (take k (ser r)) = None"
  using assms unfolding json_laws_def by (blast, blast, blast, blast, blast, meson not_None_eq)

lemma inspect_tail_spec:
  "inspect_tail json_ok bs =
     (if file_tail bs = [] then Inr (Clean (length bs))
      else if is_blank (file_tail bs) \<or> json_ok (file_tail bs) then Inr (ValidUnterminated (length bs))
      else Inr (Torn (length bs - length (file_tail bs))))"
proof -
  let ?rl = "reverse_lines_new (length bs) JSONL_SCAN_CHUNK"
  have c: "length bs = 0 \<or> read_range bs (length bs - 1) (length bs) = [nl] \<longleftrightarrow> file_tail bs = []"
    by (cases bs rule: rev_cases) (auto simp: file_tail_facts(3) read_range_def ends_with_iff)
  have l: "rl_lines bs ?rl = file_tail bs # rev (full_lines bs)"
    by (simp add: rl_lines_def unread_def reverse_lines_new_def split_file)
  have u: "unread bs ?rl = bs" by (simp add: unread_def reverse_lines_new_def)
  have "rl_pos ?rl \<le> length bs" by (simp add: reverse_lines_new_def)
  from next_line_refines [OF this] obtain rl where
    "next_line bs ?rl = Inr (Some (length bs - length (file_tail bs), file_tail bs), rl)"
    unfolding l u by auto
  then show ?thesis
    unfolding inspect_tail_def Let_def c by (auto simp: is_torn_record_def)
qed

lemma full_lines_append:
  assumes "file_tail b = []" and "nl \<notin> set s"
  shows "full_lines (b @ s) = full_lines b" "file_tail (b @ s) = s"
    "full_lines (b @ s @ [nl]) = full_lines b @ [s]" "file_tail (b @ s @ [nl]) = []"
proof -
  have "full_lines (b @ s) = full_lines b \<and> file_tail (b @ s) = s \<and>
      full_lines (b @ s @ [nl]) = full_lines b @ [s] \<and> file_tail (b @ s @ [nl]) = []"
  proof (cases b rule: file_cases)
    case line
    with assms show ?thesis
      by (auto simp: file_tail_simps full_lines_def file_tail_def split_nl_append split_nl_line)
  next
    case (lines a l)
    with assms have "b = a @ [nl]" by (simp add: file_tail_simps)
    with assms(2) show ?thesis
      by (auto simp: full_lines_def file_tail_def split_nl_append split_nl_line butlast_append)
  qed
  then show "full_lines (b @ s) = full_lines b" "file_tail (b @ s) = s"
    "full_lines (b @ s @ [nl]) = full_lines b @ [s]" "file_tail (b @ s @ [nl]) = []" by simp_all
qed

lemma full_lines_newline: "full_lines (b @ [nl]) = split_nl b" "file_tail (b @ [nl]) = []"
  by (simp_all add: full_lines_def file_tail_def split_nl_append)

text \<open>Part of a record's line after a line boundary: the record is there exactly when all of it
  but the newline is.\<close>

lemma parse_partial:
  assumes j: "json_laws ser de json_ok" and b: "file_tail b = []"
    and p: "strict_lines de 0 (full_lines b) = Inr rs"
  shows "parse_jsonl_records de json_ok (b @ take k (ser r @ [nl])) =
     Inr (if length (ser r) \<le> k then rs @ [(length (full_lines b), r)] else rs)"
proof -
  note laws = json_lawsD [OF j]
  consider (part) "k < length (ser r)" | (whole) "k = length (ser r)" | (line) "length (ser r) < k" by linarith
  then show ?thesis
  proof cases
    case part
    have "nl \<notin> set (take k (ser r))" using laws(1) [of r] by (auto dest: in_set_takeD)
    note f = full_lines_append [OF b this]
    from part show ?thesis
      by (simp add: parse_file f p parse_tail_def laws(5,6))
  next
    case whole
    note f = full_lines_append [OF b laws(1) [of r]]
    from whole show ?thesis
      by (simp add: parse_file f p parse_tail_def laws(2,3))
  next
    case line
    note f = full_lines_append [OF b laws(1) [of r]]
    from line show ?thesis
      by (simp add: parse_file f strict_lines_append p parse_tail_def laws(2,3))
  qed
qed

lemma landed_iff:
  "line = s @ [c] \<Longrightarrow> landed_despite_the_error (read_range (b @ take k line) (length b)
      (max (length (b @ take k line)) (length b))) line \<longleftrightarrow> length s \<le> k"
  by (auto simp: landed_despite_the_error_def read_range_def max_def take_Cons' split: if_splits)

text \<open>The outcome of an append: what it reports and what the file holds afterwards.\<close>

definition append_outcome ::
  "(char list \<Rightarrow> 'r option) \<Rightarrow> (char list \<Rightarrow> bool) \<Rightarrow> faults \<Rightarrow> (nat \<times> 'r) list \<Rightarrow> 'r
     \<Rightarrow> (write_error + unit) \<times> char list \<Rightarrow> bool" where
  "append_outcome de json_ok flt rs r out \<longleftrightarrow>
     (\<exists>i. (fst out = Inr () \<longrightarrow> parse_jsonl_records de json_ok (snd out) = Inr (rs @ [(i, r)])) \<and>
          (fst out \<noteq> Inr () \<longrightarrow>
             parse_jsonl_records de json_ok (snd out) = Inr rs \<or>
             check_fails flt \<and> parse_jsonl_records de json_ok (snd out) = Inr (rs @ [(i, r)])))"

lemma append_clean:
  assumes j: "json_laws ser de json_ok" and b: "file_tail b = []"
    and p: "strict_lines de 0 (full_lines b) = Inr rs"
  shows "append_outcome de json_ok flt rs r
    (append_or_tolerate_a_missing_newline flt (ser r @ [nl]) (length b) b)"
proof -
  note part = parse_partial [OF j b p, of _ r]
  have all: "parse_jsonl_records de json_ok (b @ ser r @ [nl]) = Inr (rs @ [(length (full_lines b), r)])"
    using part [of "Suc (length (ser r))"] by simp
  show ?thesis
  proof (cases "write_stops flt")
    case None
    with all show ?thesis
      by (auto simp: append_outcome_def append_or_tolerate_a_missing_newline_def)
  next
    case (Some k)
    with part [of k] landed_iff [of "ser r @ [nl]" "ser r" nl b k] show ?thesis
      by (auto simp: append_outcome_def append_or_tolerate_a_missing_newline_def Let_def
          simp del: take_append)
  qed
qed

lemma append_after_newline:
  assumes j: "json_laws ser de json_ok" and p: "strict_lines de 0 (split_nl b) = Inr rs"
    and q: "parse_jsonl_records de json_ok b = Inr rs"
  shows "append_outcome de json_ok flt rs r
    (append_or_tolerate_a_missing_newline flt (nl # ser r @ [nl]) (length b) b)"
proof -
  have t: "file_tail (b @ [nl]) = []" and f: "strict_lines de 0 (full_lines (b @ [nl])) = Inr rs"
    using p by (simp_all add: full_lines_newline)
  note part = parse_partial [OF j t f, of _ r]
  have all: "parse_jsonl_records de json_ok (b @ nl # ser r @ [nl]) =
      Inr (rs @ [(length (full_lines (b @ [nl])), r)])"
    using part [of "Suc (length (ser r))"] by simp
  show ?thesis
  proof (cases "write_stops flt")
    case None
    with all show ?thesis
      by (auto simp: append_outcome_def append_or_tolerate_a_missing_newline_def)
  next
    case (Some k)
    have l: "landed_despite_the_error (read_range (b @ take k (nl # ser r @ [nl])) (length b)
        (max (length (b @ take k (nl # ser r @ [nl]))) (length b))) (nl # ser r @ [nl]) \<longleftrightarrow> Suc (length (ser r)) \<le> k"
      using landed_iff [of "nl # ser r @ [nl]" "nl # ser r" nl b k] by simp
    show ?thesis
    proof (cases k)
      case 0
      with Some l q show ?thesis
        by (auto simp: append_outcome_def append_or_tolerate_a_missing_newline_def)
    next
      case (Suc k')
      have "b @ take k (nl # ser r @ [nl]) = (b @ [nl]) @ take k' (ser r @ [nl])" by (simp add: Suc)
      with part [of k'] l Some Suc show ?thesis
        by (auto simp: append_outcome_def append_or_tolerate_a_missing_newline_def Let_def
            simp del: take_append)
    qed
  qed
qed

lemma append_line_outcome:
  assumes j: "json_laws ser de json_ok" and q: "parse_jsonl_records de json_ok b = Inr rs"
  shows "append_outcome de json_ok flt rs r (append_line json_ok flt (ser r @ [nl]) b)"
proof -
  obtain fs ts where f: "strict_lines de 0 (full_lines b) = Inr fs"
    and t: "parse_tail de json_ok (length (full_lines b)) (file_tail b) = Inr ts" and rs: "rs = fs @ ts"
    using q unfolding parse_file by auto
  consider (clean) "file_tail b = []"
    | (valid) "file_tail b \<noteq> []" "is_blank (file_tail b) \<or> json_ok (file_tail b)"
    | (torn) "file_tail b \<noteq> []" "\<not> is_blank (file_tail b)" "\<not> json_ok (file_tail b)" by blast
  then show ?thesis
  proof cases
    case clean
    with t have "ts = []" by (simp add: parse_tail_def)
    with append_clean [OF j clean f] clean show ?thesis by (simp add: append_line_def inspect_tail_spec rs)
  next
    case valid
    have "strict_lines de 0 (split_nl b) = Inr rs"
      using valid(2) t unfolding split_file strict_lines_append
      by (auto simp: f rs parse_tail_def split: if_splits option.splits)
    from append_after_newline [OF j this q] valid show ?thesis
      by (simp add: append_line_def inspect_tail_spec)
  next
    case torn
    have "de (file_tail b) = None" using torn(3) json_lawsD(4) [OF j] by (cases "de (file_tail b)") auto
    with t torn have ts: "ts = []" by (simp add: parse_tail_def)
    let ?n = "length b - length (file_tail b)"
    have b': "file_tail (take ?n b) = []" and f': "strict_lines de 0 (full_lines (take ?n b)) = Inr fs"
      using f file_tail_facts(4,5) [of b] by simp_all
    have "parse_jsonl_records de json_ok (take ?n b @ ser r @ [nl]) =
        Inr (fs @ [(length (full_lines (take ?n b)), r)])"
      using parse_partial [OF j b' f', of "Suc (length (ser r))" r] by simp
    moreover have "length (take ?n b) = ?n" by simp
    ultimately show ?thesis
      using append_clean [OF j b' f', of flt r] torn q
      by (auto simp: append_line_def inspect_tail_spec repair_torn_tail_and_append_def Let_def
          read_range_def rs ts append_outcome_def)
  qed
qed

section \<open>Rotation\<close>

lemma run_from_spec:
  shows "run_from fs run left \<le> run + left"
    and "run < i \<Longrightarrow> i \<le> run_from fs run left \<Longrightarrow> fs i \<noteq> None"
    and "run_from fs run left < run + left \<Longrightarrow> fs (Suc (run_from fs run left)) = None"
proof (induction left arbitrary: run)
  case (Suc left)
  { case 1 from Suc.IH(1) [of "Suc run"] show ?case by auto }
  { case 2 with Suc.IH(2) [of "Suc run"] show ?case by (cases "i = Suc run") (auto split: if_splits) }
  { case 3 with Suc.IH(3) [of "Suc run"] show ?case by (auto split: if_splits) }
qed auto

lemma present_swap:
  assumes "Suc g \<le> n" and "fs (Suc g) = None"
  shows "present (fs(Suc g := fs g, g := None)) n = present fs n"
proof -
  have u: "[0..<Suc n] = [0..<g] @ g # Suc g # [Suc (Suc g)..<Suc n]"
    using assms(1) upt_add_eq_append [of 0 g "Suc n - g"] by (simp add: upt_conv_Cons del: upt_Suc)
  have "List.map_filter (fs(Suc g := fs g, g := None)) xs = List.map_filter fs xs"
    if "g \<notin> set xs" "Suc g \<notin> set xs" for xs
    using that by (intro map_filter_cong) auto
  then show ?thesis
    unfolding present_def u using assms(2) by (cases "fs g") (simp_all add: map_filter_simps del: upt_Suc)
qed

lemma present_drop_last:
  assumes "fs n \<noteq> None" shows "present (fs(n := None)) n = butlast (present fs n)"
proof -
  have "List.map_filter (fs(n := None)) [0..<n] = List.map_filter fs [0..<n]"
    by (intro map_filter_cong) auto
  with assms show ?thesis
    unfolding present_def by (auto simp: map_filter_simps butlast_append)
qed

lemma rename_cases:
  obtains "rename flt g fs = (Inl (RotateFailed g), fs)"
  | "rename flt g fs = (Inr (), fs(Suc g := fs g, g := None))" "fs g \<noteq> None"
  unfolding rename_def by (cases "rename_fails flt g \<or> fs g = None") auto

lemma shift_keeps:
  "Suc k \<le> n \<Longrightarrow> fs (Suc k) = None \<Longrightarrow> present (snd (shift_from flt k fs)) n = present fs n"
proof (induction k arbitrary: fs)
  case 0
  then show ?case by (cases rule: rename_cases [of flt 0 fs]) (simp_all add: present_swap del: fun_upd_apply)
next
  case (Suc k)
  show ?case
  proof (cases rule: rename_cases [of flt "Suc k" fs])
    case 2
    have "present (snd (shift_from flt k (fs(Suc (Suc k) := fs (Suc k), Suc k := None)))) n =
        present (fs(Suc (Suc k) := fs (Suc k), Suc k := None)) n"
      using Suc.prems by (intro Suc.IH) simp_all
    also have "\<dots> = present fs n" using Suc.prems by (rule present_swap)
    finally show ?thesis by (simp add: 2)
  qed simp
qed

lemma shift_success:
  "fst (shift_from flt k fs) = Inr () \<Longrightarrow>
     snd (shift_from flt k fs) 0 = None \<and> snd (shift_from flt k fs) (Suc 0) = fs 0"
proof (induction k arbitrary: fs)
  case 0
  then show ?case by (cases rule: rename_cases [of flt 0 fs]) simp_all
next
  case (Suc k)
  then show ?case
  proof (cases rule: rename_cases [of flt "Suc k" fs])
    case 2
    define fs2 where "fs2 = fs(Suc (Suc k) := fs (Suc k), Suc k := None)"
    have "fs2 0 = fs 0" by (simp add: fs2_def)
    with Suc.IH [of fs2] Suc.prems 2 show ?thesis by (simp flip: fs2_def)
  qed simp
qed

lemma shift_live: "snd (shift_from flt k fs) 0 = fs 0 \<or> snd (shift_from flt k fs) 0 = None"
proof (induction k arbitrary: fs)
  case 0
  show ?case by (cases rule: rename_cases [of flt 0 fs]) simp_all
next
  case (Suc k)
  show ?case
  proof (cases rule: rename_cases [of flt "Suc k" fs])
    case 2
    define fs2 where "fs2 = fs(Suc (Suc k) := fs (Suc k), Suc k := None)"
    have "fs2 0 = fs 0" by (simp add: fs2_def)
    with Suc [of fs2] 2 show ?thesis by (simp flip: fs2_def)
  qed simp
qed

text \<open>When the first rename goes through, what it overwrites has no further influence.\<close>

lemma shift_overwrite:
  assumes "rename flt k fs = (Inr (), fs(Suc k := fs k, k := None))" and "fs k \<noteq> None"
  shows "shift_from flt k fs = shift_from flt k (fs(Suc k := None))"
proof -
  have "\<not> rename_fails flt k" using assms by (auto simp: rename_def split: if_splits)
  then have "rename flt k (fs(Suc k := None)) = (Inr (), fs(Suc k := fs k, k := None))"
    using assms(2) by (simp add: rename_def)
  with assms(1) show ?thesis by (cases k) simp_all
qed

text \<open>A small codec for the examples: two records, \<^verbatim>\<open>{0}\<close> and \<^verbatim>\<open>{1}\<close>.\<close>

definition ex_ser :: "bool \<Rightarrow> char list" where
  "ex_ser b = (if b then ''{1}'' else ''{0}'')"

definition ex_de :: "char list \<Rightarrow> bool option" where
  "ex_de l = (if l = ''{1}'' then Some True else if l = ''{0}'' then Some False else None)"

definition ex_json :: "char list \<Rightarrow> bool" where
  "ex_json l \<longleftrightarrow> ex_de l \<noteq> None"

lemma ex_json_laws: "json_laws ex_ser ex_de ex_json"
proof -
  have "\<not> ex_json (take k (ex_ser r))" if "k < length (ex_ser r)" for r k
  proof -
    have "k = 0 \<or> k = 1 \<or> k = 2" using that by (auto simp: ex_ser_def split: if_splits)
    then show ?thesis by (auto simp: ex_json_def ex_de_def ex_ser_def)
  qed
  then show ?thesis
    unfolding json_laws_def
    by (auto simp: ex_ser_def ex_de_def is_blank_def ex_json_def split: if_splits)
qed

text \<open>One complete record and the debris of another.\<close>

definition ex_file :: "char list" where
  "ex_file = ''{0}'' @ [nl] @ ''{1''"

lemma ex_file_parse: "parse_jsonl_records ex_de ex_json ex_file = Inr [(0, False)]"
  by (simp add: parse_jsonl_records_def ex_file_def ends_with_def is_blank_def ex_de_def ex_json_def
      is_torn_record_def)

lemma ex_file_append:
  "append_line ex_json no_faults (ex_ser True @ [nl]) ex_file = (Inr (), ''{0}'' @ [nl] @ ''{1}'' @ [nl])"
  by (simp add: append_line_def inspect_tail_spec file_tail_def ex_file_def is_blank_def ex_json_def
      ex_de_def repair_torn_tail_and_append_def no_faults_def read_range_def ex_ser_def)

section \<open>Properties\<close>

text \<open>The two readers agree: whenever the whole of every file of a store parses, reading the most
  recent \<open>limit\<close> records backwards in chunks, live file first and older generations only as needed,
  gives exactly the last \<open>limit\<close> records in the order they were written.\<close>

theorem recent_records_agree:
  assumes "\<And>l r. de l = Some r \<Longrightarrow> json_ok l"
    and "list_all2 (\<lambda>bs rs. parse_jsonl_records de json_ok bs = Inr rs) (present fs gens) rss"
  shows "load_recent_jsonl_records de json_ok fs gens limit =
     Inr (last_n limit (concat (rev (map (map snd) rss))))"
proof (cases "limit = 0")
  case True
  then show ?thesis by (simp add: load_recent_jsonl_records_def last_n_def)
next
  case False
  have "load_recent_from_files de json_ok n files = Inr (last_n n (concat (rev (map (map snd) rss))))"
    if "0 < n" "list_all2 (\<lambda>bs rs. parse_jsonl_records de json_ok bs = Inr rs) files rss" for n files rss
    using that(2,1)
  proof (induction arbitrary: n rule: list_all2_induct)
    case Nil
    then show ?case by (simp add: last_n_def)
  next
    case (Cons bs files rs rss)
    have s: "scan_recent_jsonl_records de json_ok bs (length bs) n = Inr (last_n n (map snd rs))"
      using Cons.hyps(1) assms(1) by (rule scan_recent)
    show ?case
    proof (cases "n \<le> length rs")
      case True
      with s Cons.prems show ?thesis by (simp add: last_n_def)
    next
      case False
      with s Cons.IH [of "n - length rs"] show ?thesis by (auto simp: last_n_def)
    qed
  qed
  with False assms(2) show ?thesis by (simp add: load_recent_jsonl_records_def)
qed

theorem recent_records_agree_witness:
  "load_recent_jsonl_records ex_de ex_json ((\<lambda>_. None)(0 := Some ex_file)) 0 5 = Inr [False]"
proof -
  have "\<And>l r. ex_de l = Some r \<Longrightarrow> ex_json l" by (simp add: ex_json_def)
  moreover have "list_all2 (\<lambda>bs rs. parse_jsonl_records ex_de ex_json bs = Inr rs)
      (present ((\<lambda>_. None)(0 := Some ex_file)) 0) [[(0, False)]]"
    by (simp add: present_def map_filter_simps ex_file_parse)
  ultimately show ?thesis
    using recent_records_agree [of ex_de ex_json "(\<lambda>_. None)(0 := Some ex_file)" 0 "[[(0, False)]]" 5]
    by (simp add: last_n_def)
qed

text \<open>C14. An append is all or nothing and loses no record: whatever tail the last writer left (a
  line boundary, a record without its newline, debris of a killed writer) and whatever the disk
  refuses (a write that stops after any number of bytes, a failed replacement, a failed truncation),
  a store whose records could be read before can still be read, all its records are still there in
  order, success means the new record is there as the last one, and failure means it is not,
  unless reading back what landed failed as well.\<close>

theorem append_all_or_nothing:
  assumes "json_laws ser de json_ok" and "parse_jsonl_records de json_ok file = Inr rs"
    and "append_line json_ok flt (ser r @ [nl]) file = (res, file')"
  shows "\<exists>i. (res = Inr () \<longrightarrow> parse_jsonl_records de json_ok file' = Inr (rs @ [(i, r)])) \<and>
     (res \<noteq> Inr () \<longrightarrow>
        parse_jsonl_records de json_ok file' = Inr rs \<or>
        check_fails flt \<and> parse_jsonl_records de json_ok file' = Inr (rs @ [(i, r)]))"
  using append_line_outcome [OF assms(1,2), of flt r] assms(3) by (simp add: append_outcome_def)

theorem append_all_or_nothing_witness:
  "\<exists>i. parse_jsonl_records ex_de ex_json (''{0}'' @ [nl] @ ''{1}'' @ [nl]) = Inr ([(0, False)] @ [(i, True)])"
  using append_all_or_nothing [OF ex_json_laws ex_file_parse ex_file_append] by blast

text \<open>Rotation loses nothing it need not: whichever renames fail, the files present, read live
  first, are the same files in the same order, except that the oldest is gone when every
  generation was taken; and when it succeeds the live name is free and generation 1 is what the
  live file was.\<close>

theorem rotation_keeps_order:
  assumes "1 \<le> gens" and "fs 0 \<noteq> None"
  shows "(let (res, fs') = rotate_jsonl_generations flt gens fs
     in (present fs' gens = present fs gens \<or>
           (\<forall>g \<le> gens. fs g \<noteq> None) \<and> present fs' gens = butlast (present fs gens)) \<and>
        (res = Inr () \<longrightarrow> fs' 0 = None \<and> fs' 1 = fs 0))"
proof -
  let ?run = "run_from fs 0 gens"
  let ?k = "min ?run (gens - 1)"
  note run = run_from_spec [where fs = fs and run = 0 and left = gens]
  have s: "fst (shift_from flt ?k fs) = Inr () \<longrightarrow>
      snd (shift_from flt ?k fs) 0 = None \<and> snd (shift_from flt ?k fs) 1 = fs 0"
    using shift_success [of flt ?k fs] by simp
  have "present (snd (shift_from flt ?k fs)) gens = present fs gens \<or>
      (\<forall>g \<le> gens. fs g \<noteq> None) \<and> present (snd (shift_from flt ?k fs)) gens = butlast (present fs gens)"
  proof (cases "?run < gens")
    case True
    then have "?k = ?run" by simp
    with run(3) True shift_keeps [of ?k gens fs flt] show ?thesis by simp
  next
    case False
    then have k: "?k = gens - 1" "Suc ?k = gens" using assms(1) run(1) by simp_all
    have all: "fs g \<noteq> None" if "g \<le> gens" for g
      using run(2) [of g] that False run(1) assms(2) by (cases "g = 0") auto
    show ?thesis
    proof (cases rule: rename_cases [of flt ?k fs])
      case 1
      then show ?thesis by (cases ?k) simp_all
    next
      case 2
      have "present (snd (shift_from flt ?k fs)) gens = present (fs(Suc ?k := None)) gens"
        unfolding shift_overwrite [OF 2] using k by (intro shift_keeps) simp_all
      also have "\<dots> = butlast (present fs gens)"
        unfolding k(2) using all by (intro present_drop_last) simp
      finally show ?thesis using all by blast
    qed
  qed
  with s show ?thesis by (simp add: rotate_jsonl_generations_def case_prod_unfold)
qed

theorem rotation_keeps_order_witness:
  "let fs = (\<lambda>_. None)(0 := Some ex_file, Suc 0 := Some []);
       (res, fs') = rotate_jsonl_generations no_faults 4 fs
   in present fs' 4 = present fs 4"
  using rotation_keeps_order [of 4 "(\<lambda>_. None)(0 := Some ex_file, Suc 0 := Some [])" no_faults]
  by (auto simp: Let_def case_prod_unfold dest: spec [of _ 2])

text \<open>A record reported as stored is the most recent one: after any append that succeeds, with
  or without a rotation on the way and whether or not that rotation went through, reading back one
  record gives the one appended.\<close>

theorem append_then_read:
  assumes "json_laws ser de json_ok" and "parse_jsonl_records de json_ok (live fs) = Inr rs"
    and "append_jsonl_record ser json_ok flt rotation r fs = (Inr (), fs')"
  shows "load_recent_jsonl_records de json_ok fs' gens 1 = Inr [r]"
proof -
  let ?fs = "maybe_rotate flt rotation (open_for_append fs)"
  have o: "open_for_append g 0 = Some (live g)" "live (open_for_append g) = live g" for g
    by (simp_all add: open_for_append_def live_def split: option.split)
  have "live ?fs = live fs \<or> live ?fs = []"
    using shift_live [of flt _ "open_for_append fs"] o
    by (auto simp: maybe_rotate_def rotate_jsonl_generations_def live_def split: option.splits)
       (metis option.distinct(1) option.inject)+
  then have "\<exists>rs. parse_jsonl_records de json_ok (live ?fs) = Inr rs"
    using assms(2) by (auto simp: parse_jsonl_records_def)
  then obtain rs' where p: "parse_jsonl_records de json_ok (live ?fs) = Inr rs'" ..
  obtain f where f: "append_line json_ok flt (ser r @ [nl]) (live ?fs) = (Inr (), f)" "fs' 0 = Some f"
    using assms(3) by (auto simp: append_jsonl_record_def Let_def split: prod.splits)
  with append_line_outcome [OF assms(1) p, of flt r] obtain i where
    i: "parse_jsonl_records de json_ok f = Inr (rs' @ [(i, r)])"
    by (auto simp: append_outcome_def)
  have "scan_recent_jsonl_records de json_ok f (length f) 1 = Inr [r]"
    using scan_recent [OF i json_lawsD(4) [OF assms(1)], where limit = 1] by (simp add: last_n_def)
  moreover have "present fs' gens = f # List.map_filter fs' [1..<Suc gens]"
    unfolding present_def by (subst upt_conv_Cons) (simp_all add: map_filter_simps f(2) del: upt_Suc)
  ultimately show ?thesis by (simp add: load_recent_jsonl_records_def)
qed

theorem append_then_read_witness:
  "load_recent_jsonl_records ex_de ex_json
     (snd (append_jsonl_record ex_ser ex_json no_faults None True ((\<lambda>_. None)(0 := Some ex_file)))) 4 1 =
     Inr [True]"
proof -
  let ?fs = "(\<lambda>_. None)(0 := Some ex_file)"
  have l: "live ?fs = ex_file" "open_for_append ?fs = ?fs" by (simp_all add: live_def open_for_append_def)
  have "fst (append_jsonl_record ex_ser ex_json no_faults None True ?fs) = Inr ()"
    by (simp add: append_jsonl_record_def maybe_rotate_def l ex_file_append)
  then have "append_jsonl_record ex_ser ex_json no_faults None True ?fs =
      (Inr (), snd (append_jsonl_record ex_ser ex_json no_faults None True ?fs))"
    by (simp add: prod_eq_iff)
  from append_then_read [OF ex_json_laws _ this, of "[(0, False)]"] show ?thesis
    by (simp add: l ex_file_parse)
qed

end
