(* ===== verification/Proposals.thy ===== *)
theory Proposals
  imports Jsonl_Store "HOL-Library.Multiset" "HOL-Library.Product_Lexorder" "HOL-Library.Countable"
begin

text \<open>
  \<^verbatim>\<open>crates/rocm-core/src/automation.rs\<close>: the review proposals of the automation daemon, a JSONL store
  that is never rotated, because a pending proposal must stay findable until it is reviewed; the
  rewrite that records a review compacts it. Times are milliseconds as numbers; the arguments of a
  proposal are the text of their JSON value; the clock is an argument.
\<close>

section \<open>Records\<close>

record proposal =
  at_unix_ms :: nat
  proposal_id :: string
  watcher_id :: string
  p_action :: string
  title :: string
  message :: string
  status :: string
  service_id :: "string option"
  tool :: "string option"
  arguments :: string
  reviewed_at_unix_ms :: "nat option"

definition REVIEWED_PROPOSALS_RETAINED :: nat where
  "REVIEWED_PROPOSALS_RETAINED = 200"

datatype proposal_error =
    EmptyField string
  | NotFound string
  | LoadFailed scan_error
  | WriteFailed

section \<open>Identities\<close>

text \<open>One character at a time; a character outside ASCII is its lead byte and continuation bytes,
  and becomes one dash.\<close>

definition id_byte :: "char \<Rightarrow> string" where
  "id_byte c =
     (if is_ascii_alphanumeric c \<or> c = CHR ''-'' then [c]
      else if 128 \<le> (of_char c :: nat) \<and> (of_char c :: nat) < 192 then []
      else ''-'')"

definition trim_dashes :: "string \<Rightarrow> string" where
  "trim_dashes s = rev (dropWhile (\<lambda>c. c = CHR ''-'') (rev (dropWhile (\<lambda>c. c = CHR ''-'') s)))"

definition generate_proposal_id :: "string \<Rightarrow> nat \<Rightarrow> string" where
  "generate_proposal_id pfx nanos =
     (let normalized = trim_dashes (concat (map id_byte pfx));
          p = (if normalized = [] then ''proposal'' else normalized)
      in p @ ''-'' @ show_nat nanos)"

definition normalize_proposal_identity :: "nat \<Rightarrow> proposal \<Rightarrow> proposal" where
  "normalize_proposal_identity index p =
     (if proposal_id p = []
      then p\<lparr>proposal_id := ''legacy-'' @ show_nat (at_unix_ms p) @ ''-'' @ show_nat index\<rparr>
      else p)"

section \<open>The store\<close>

type_synonym codec = "(proposal \<Rightarrow> char list) \<times> (char list \<Rightarrow> proposal option) \<times> (char list \<Rightarrow> bool)"

definition append_automation_proposal ::
  "codec \<Rightarrow> faults \<Rightarrow> nat \<Rightarrow> proposal \<Rightarrow> store \<Rightarrow> (write_error + unit) \<times> store" where
  "append_automation_proposal cd flt nanos p fs =
     (let p = (if proposal_id p = [] then p\<lparr>proposal_id := generate_proposal_id (watcher_id p) nanos\<rparr> else p)
      in append_jsonl_record (fst cd) (snd (snd cd)) flt None p fs)"

definition load_automation_proposals :: "codec \<Rightarrow> store \<Rightarrow> scan_error + proposal list" where
  "load_automation_proposals cd fs =
     (case fs 0 of
        None \<Rightarrow> Inr []
      | Some bs \<Rightarrow>
          bind_result (parse_jsonl_records (fst (snd cd)) (snd (snd cd)) bs)
            (\<lambda>rs. Inr (map (\<lambda>(index, p). normalize_proposal_identity index p) rs)))"

definition load_recent_automation_proposals :: "codec \<Rightarrow> store \<Rightarrow> nat \<Rightarrow> scan_error + proposal list" where
  "load_recent_automation_proposals cd fs limit =
     bind_result (load_recent_jsonl_records (fst (snd cd)) (snd (snd cd)) fs 0 limit) (\<lambda>recent.
       bind_result
         (if list_ex (\<lambda>p. proposal_id p = []) recent
          then bind_result (load_automation_proposals cd fs) (\<lambda>ps. Inr (drop (length ps - limit) ps))
          else Inr recent)
         (\<lambda>ps. Inr (rev ps)))"

definition find_automation_proposal :: "codec \<Rightarrow> store \<Rightarrow> string \<Rightarrow> proposal_error + proposal" where
  "find_automation_proposal cd fs pid =
     (case load_automation_proposals cd fs of
        Inl e \<Rightarrow> Inl (LoadFailed e)
      | Inr ps \<Rightarrow> (case find (\<lambda>p. proposal_id p = pid) ps of None \<Rightarrow> Inl (NotFound pid) | Some p \<Rightarrow> Inr p))"

definition pending :: "proposal \<Rightarrow> bool" where
  "pending p \<longleftrightarrow> status p = ''pending''"

definition review_key :: "string \<Rightarrow> nat \<times> proposal \<Rightarrow> bool \<times> nat \<times> nat" where
  "review_key just_reviewed ip =
     (proposal_id (snd ip) = just_reviewed,
      case reviewed_at_unix_ms (snd ip) of None \<Rightarrow> 0 | Some t \<Rightarrow> t, fst ip)"

definition compact_reviewed_proposals :: "nat \<Rightarrow> string \<Rightarrow> proposal list \<Rightarrow> proposal list" where
  "compact_reviewed_proposals keep just_reviewed ps =
     (let reviewed = map (review_key just_reviewed) (filter (\<lambda>ip. \<not> pending (snd ip)) (enumerate 0 ps));
          excess = length reviewed - keep
      in if excess = 0 then ps
         else let dropped = map (\<lambda>(_, _, index). index) (take excess (sort reviewed))
              in map snd (filter (\<lambda>ip. fst ip \<notin> set dropped) (enumerate 0 ps)))"

text \<open>\<^verbatim>\<open>iter_mut().find(..)\<close>: the first proposal with the id is changed in place.\<close>

fun update_first :: "('a \<Rightarrow> bool) \<Rightarrow> ('a \<Rightarrow> 'a) \<Rightarrow> 'a list \<Rightarrow> 'a list" where
  "update_first P f [] = []"
| "update_first P f (x # xs) = (if P x then f x # xs else x # update_first P f xs)"

definition set_status :: "string \<Rightarrow> nat \<Rightarrow> proposal \<Rightarrow> proposal" where
  "set_status st now p =
     (let p = p\<lparr>status := st\<rparr>
      in if st \<noteq> ''pending'' then p\<lparr>reviewed_at_unix_ms := Some now\<rparr> else p)"

definition write_automation_proposals :: "codec \<Rightarrow> proposal list \<Rightarrow> char list" where
  "write_automation_proposals cd ps = concat (map (\<lambda>p. fst cd p @ [nl]) ps)"

definition update_automation_proposal_status ::
  "codec \<Rightarrow> faults \<Rightarrow> nat \<Rightarrow> string \<Rightarrow> string \<Rightarrow> store \<Rightarrow> (proposal_error + proposal) \<times> store" where
  "update_automation_proposal_status cd flt now pid st fs =
     (if trim pid = [] then (Inl (EmptyField ''proposal_id''), fs)
      else if trim st = [] then (Inl (EmptyField ''status''), fs)
      else case load_automation_proposals cd fs of
        Inl e \<Rightarrow> (Inl (LoadFailed e), fs)
      | Inr ps \<Rightarrow>
          (case find (\<lambda>p. proposal_id p = pid) ps of
             None \<Rightarrow> (Inl (NotFound pid), fs)
           | Some p \<Rightarrow>
               (let updated = set_status st now p;
                    ps' = compact_reviewed_proposals REVIEWED_PROPOSALS_RETAINED pid
                            (update_first (\<lambda>p. proposal_id p = pid) (set_status st now) ps)
                in if replace_fails flt then (Inl WriteFailed, fs)
                   else (Inr updated, fs(0 := Some (write_automation_proposals cd ps'))))))"

section \<open>Compaction\<close>

definition reviewed_entries :: "proposal list \<Rightarrow> (nat \<times> proposal) list" where
  "reviewed_entries ps = filter (\<lambda>ip. \<not> pending (snd ip)) (enumerate 0 ps)"

definition dropped_indices :: "nat \<Rightarrow> string \<Rightarrow> proposal list \<Rightarrow> nat list" where
  "dropped_indices keep just_reviewed ps =
     map (\<lambda>(_, _, index). index)
       (take (length (reviewed_entries ps) - keep) (sort (map (review_key just_reviewed) (reviewed_entries ps))))"

lemma compact_eq:
  "compact_reviewed_proposals keep jr ps =
     map snd (filter (\<lambda>ip. fst ip \<notin> set (dropped_indices keep jr ps)) (enumerate 0 ps))"
  by (simp add: compact_reviewed_proposals_def Let_def dropped_indices_def reviewed_entries_def)

lemma enumerate_index_inj:
  "ip \<in> set (enumerate 0 ps) \<Longrightarrow> jp \<in> set (enumerate 0 ps) \<Longrightarrow> fst ip = fst jp \<Longrightarrow> ip = jp"
  by (auto simp: in_set_enumerate_eq prod_eq_iff)

lemma distinct_indices: "distinct (map fst (enumerate 0 ps))"
  by simp

lemma distinct_map_filter_fst: "distinct (map fst xs) \<Longrightarrow> distinct (map fst (filter P xs))"
  by (simp add: distinct_map_filter)

lemma reviewed_indices:
  "distinct (map fst (reviewed_entries ps))"
  "card (fst ` set (reviewed_entries ps)) = length (reviewed_entries ps)"
proof -
  show d: "distinct (map fst (reviewed_entries ps))"
    unfolding reviewed_entries_def by (intro distinct_map_filter_fst distinct_indices)
  from distinct_card [OF d] show "card (fst ` set (reviewed_entries ps)) = length (reviewed_entries ps)"
    by simp
qed

lemma index_of_key [simp]: "(\<lambda>(_, _, index). index) (review_key jr ip) = fst ip"
  by (simp add: review_key_def)

lemma sorted_take_drop:
  "sorted xs \<Longrightarrow> x \<in> set (take n xs) \<Longrightarrow> y \<in> set (drop n xs) \<Longrightarrow> x \<le> (y :: 'a :: linorder)"
  by (metis append_take_drop_id sorted_append)

text \<open>The keys of the reviewed proposals, sorted, and where a proposal's key falls.\<close>

lemma dropped_spec:
  fixes keep jr ps
  defines "K \<equiv> sort (map (review_key jr) (reviewed_entries ps))"
    and "n \<equiv> length (reviewed_entries ps) - keep"
  shows "distinct (dropped_indices keep jr ps)"
    and "set (dropped_indices keep jr ps) \<subseteq> fst ` set (reviewed_entries ps)"
    and "length (dropped_indices keep jr ps) = n"
    and "ip \<in> set (reviewed_entries ps) \<Longrightarrow>
      fst ip \<in> set (dropped_indices keep jr ps) \<longleftrightarrow> review_key jr ip \<in> set (take n K)"
    and "ip \<in> set (reviewed_entries ps) \<Longrightarrow> fst ip \<notin> set (dropped_indices keep jr ps) \<Longrightarrow>
      review_key jr ip \<in> set (drop n K)"
proof -
  let ?third = "\<lambda>(_ :: bool, _ :: nat, index :: nat). index"
  have setK: "set K = review_key jr ` set (reviewed_entries ps)" by (simp add: K_def)
  have "distinct (map fst (reviewed_entries ps))" by (rule reviewed_indices)
  moreover have "map ?third (map (review_key jr) (reviewed_entries ps)) = map fst (reviewed_entries ps)"
    by (simp add: comp_def)
  ultimately have dm: "distinct (map ?third (map (review_key jr) (reviewed_entries ps)))" by (simp only:)
  have "mset (map ?third K) = mset (map ?third (map (review_key jr) (reviewed_entries ps)))"
    by (simp only: K_def mset_map mset_sort)
  with dm have dK: "distinct (map ?third K)" by (metis mset_eq_imp_distinct_iff)
  have D: "dropped_indices keep jr ps = map ?third (take n K)"
    by (simp add: dropped_indices_def K_def n_def)
  show "distinct (dropped_indices keep jr ps)" unfolding D using dK by (simp flip: take_map)
  show "set (dropped_indices keep jr ps) \<subseteq> fst ` set (reviewed_entries ps)"
    unfolding D using setK by (auto dest!: in_set_takeD simp: image_iff) (metis index_of_key case_prod_conv)
  show "length (dropped_indices keep jr ps) = n"
    unfolding D by (simp add: n_def K_def)
  have inj: "inj_on ?third (set K)" using dK by (simp add: distinct_map)
  show "fst ip \<in> set (dropped_indices keep jr ps) \<longleftrightarrow> review_key jr ip \<in> set (take n K)"
    if "ip \<in> set (reviewed_entries ps)"
  proof
    assume "fst ip \<in> set (dropped_indices keep jr ps)"
    then obtain k where k: "k \<in> set (take n K)" "?third k = fst ip" unfolding D by auto
    moreover have "review_key jr ip \<in> set K" "k \<in> set K" using that k setK by (auto dest: in_set_takeD)
    ultimately have "k = review_key jr ip" using inj_onD [OF inj, of k "review_key jr ip"] by simp
    with k show "review_key jr ip \<in> set (take n K)" by simp
  next
    assume "review_key jr ip \<in> set (take n K)"
    then have "?third (review_key jr ip) \<in> set (dropped_indices keep jr ps)" unfolding D by (simp only: set_map) blast
    then show "fst ip \<in> set (dropped_indices keep jr ps)" by simp
  qed
  then show "review_key jr ip \<in> set (drop n K)"
    if "ip \<in> set (reviewed_entries ps)" "fst ip \<notin> set (dropped_indices keep jr ps)"
    using that setK by (metis Un_iff append_take_drop_id image_eqI set_append)
qed

lemma kept_proposal_iff:
  assumes "(i, p) \<in> set (enumerate 0 ps)"
  shows "i \<notin> set (dropped_indices keep jr ps) \<Longrightarrow> p \<in> set (compact_reviewed_proposals keep jr ps)"
  using assms unfolding compact_eq by force

lemma compact_subseq: "subseq (compact_reviewed_proposals keep jr ps) ps"
proof -
  have "subseq (map snd (filter P (enumerate 0 ps))) (map snd (enumerate 0 ps))" for P
    by (intro subseq_map subseq_filter_left)
  then show ?thesis unfolding compact_eq by simp
qed

lemma compact_pending: "filter pending (compact_reviewed_proposals keep jr ps) = filter pending ps"
proof -
  have "fst ip \<notin> set (dropped_indices keep jr ps)" if "ip \<in> set (enumerate 0 ps)" "pending (snd ip)" for ip
  proof
    assume "fst ip \<in> set (dropped_indices keep jr ps)"
    then obtain jp where "jp \<in> set (reviewed_entries ps)" "fst ip = fst jp" using dropped_spec(2) by blast
    with that enumerate_index_inj [of ip ps jp] show False by (auto simp: reviewed_entries_def)
  qed
  then have "filter (\<lambda>ip. fst ip \<notin> set (dropped_indices keep jr ps) \<and> pending (snd ip)) (enumerate 0 ps) =
      filter (\<lambda>ip. pending (snd ip)) (enumerate 0 ps)"
    by (intro filter_cong) auto
  then have "filter pending (compact_reviewed_proposals keep jr ps) =
      map snd (filter (\<lambda>ip. pending (snd ip)) (enumerate 0 ps))"
    unfolding compact_eq by (simp add: filter_map comp_def conj_commute)
  also have "\<dots> = filter pending (map snd (enumerate 0 ps))" by (simp only: filter_map comp_def)
  finally show ?thesis by simp
qed

lemma compact_reviewed_count:
  "length (filter (\<lambda>p. \<not> pending p) (compact_reviewed_proposals keep jr ps)) =
     min keep (length (filter (\<lambda>p. \<not> pending p) ps))"
proof -
  let ?R = "reviewed_entries ps" and ?D = "dropped_indices keep jr ps"
  have R: "length (filter (\<lambda>p. \<not> pending p) ps) = length ?R"
    using filter_map [of "\<lambda>p. \<not> pending p" snd "enumerate 0 ps"]
    by (simp add: reviewed_entries_def comp_def)
  have "length (filter (\<lambda>p. \<not> pending p) (compact_reviewed_proposals keep jr ps)) =
      length (filter (\<lambda>ip. fst ip \<notin> set ?D) ?R)"
    unfolding compact_eq reviewed_entries_def by (simp add: filter_map comp_def conj_commute)
  also have "\<dots> = length (filter (\<lambda>i. i \<notin> set ?D) (map fst ?R))"
    by (simp add: filter_map comp_def)
  also have "\<dots> = card (set (map fst ?R) - set ?D)"
  proof -
    have "distinct (map fst ?R)" by (rule reviewed_indices)
    then have "distinct (filter (\<lambda>i. i \<notin> set ?D) (map fst ?R))" by (rule distinct_filter)
    from distinct_card [OF this] show ?thesis by (simp add: set_diff_eq)
  qed
  also have "\<dots> = card (set (map fst ?R)) - card (set ?D)"
    using dropped_spec(2) [of keep jr ps] by (intro card_Diff_subset) auto
  also have "card (set ?D) = length ?R - keep"
    using dropped_spec(1,3) [of keep jr ps] by (simp add: distinct_card)
  also have "card (set (map fst ?R)) = length ?R"
    by (simp add: reviewed_indices)
  finally show ?thesis unfolding R by simp
qed

text \<open>What is dropped was reviewed no later than anything reviewed that stays; the proposal just
  reviewed stays.\<close>

lemma dropped_key_le:
  assumes "ip \<in> set (reviewed_entries ps)" "fst ip \<in> set (dropped_indices keep jr ps)"
    and "jp \<in> set (reviewed_entries ps)" "fst jp \<notin> set (dropped_indices keep jr ps)"
  shows "review_key jr ip \<le> review_key jr jp"
  using dropped_spec(4) [OF assms(1), of keep jr] dropped_spec(5) [OF assms(3,4)] assms(2)
  by (intro sorted_take_drop) auto

lemma compact_keeps_just_reviewed:
  assumes "distinct (map proposal_id ps)" and "0 < keep" and "p \<in> set ps" and "proposal_id p = jr"
  shows "p \<in> set (compact_reviewed_proposals keep jr ps)"
proof (rule ccontr)
  assume out: "p \<notin> set (compact_reviewed_proposals keep jr ps)"
  obtain i where i: "(i, p) \<in> set (enumerate 0 ps)" "i < length ps" "ps ! i = p"
    using assms(3) unfolding in_set_conv_nth [of p] by (force simp: in_set_enumerate_eq)
  with out have d: "i \<in> set (dropped_indices keep jr ps)" using kept_proposal_iff by blast
  have "\<not> pending p"
  proof
    assume "pending p"
    with assms(3) have "p \<in> set (filter pending (compact_reviewed_proposals keep jr ps))"
      unfolding compact_pending by simp
    with out show False by simp
  qed
  with i have r: "(i, p) \<in> set (reviewed_entries ps)" by (simp add: reviewed_entries_def)
  have "length (dropped_indices keep jr ps) < length (reviewed_entries ps)"
    using dropped_spec(3) [of keep jr ps] assms(2) r by (cases "reviewed_entries ps") auto
  then have "\<not> fst ` set (reviewed_entries ps) \<subseteq> set (dropped_indices keep jr ps)"
  proof -
    have "card (fst ` set (reviewed_entries ps)) = length (reviewed_entries ps)" by (rule reviewed_indices)
    moreover have "card (set (dropped_indices keep jr ps)) \<le> length (dropped_indices keep jr ps)"
      by (rule card_length)
    ultimately show ?thesis
      using \<open>length (dropped_indices keep jr ps) < _\<close> card_mono [OF finite_set] by (metis not_le order_trans)
  qed
  then obtain jp where j: "jp \<in> set (reviewed_entries ps)" "fst jp \<notin> set (dropped_indices keep jr ps)" by auto
  from dropped_key_le [OF r _ j] d have "review_key jr (i, p) \<le> review_key jr jp" by simp
  with assms(4) have "proposal_id (snd jp) = jr" by (auto simp: review_key_def)
  moreover have "fst jp < length ps" "ps ! fst jp = snd jp"
    using j(1) by (auto simp: reviewed_entries_def in_set_enumerate_eq)
  ultimately have "fst jp = i"
    using assms(1,4) i nth_eq_iff_index_eq [of "map proposal_id ps" "fst jp" i] by auto
  with j d show False by simp
qed

section \<open>What is loaded after a write\<close>

definition codec_ok :: "codec \<Rightarrow> bool" where
  "codec_ok cd \<longleftrightarrow> json_laws (fst cd) (fst (snd cd)) (snd (snd cd))"

lemma distinct_subseq: "subseq xs ys \<Longrightarrow> distinct ys \<Longrightarrow> distinct xs"
  unfolding subseq_conv_nths by auto

lemma parse_written:
  assumes "codec_ok cd"
  shows "parse_jsonl_records (fst (snd cd)) (snd (snd cd)) (write_automation_proposals cd ps) =
     Inr (enumerate 0 ps)"
proof -
  note laws = json_lawsD [OF assms [unfolded codec_ok_def]]
  have "file_tail (write_automation_proposals cd ps) = [] \<and>
      full_lines (write_automation_proposals cd ps) = map (fst cd) ps \<and>
      strict_lines (fst (snd cd)) 0 (map (fst cd) ps) = Inr (enumerate 0 ps)"
  proof (induction ps rule: rev_induct)
    case Nil
    show ?case by (simp add: write_automation_proposals_def file_tail_simps)
  next
    case (snoc p ps)
    let ?w = "write_automation_proposals cd ps"
    have w: "write_automation_proposals cd (ps @ [p]) = ?w @ fst cd p @ [nl]"
      by (simp add: write_automation_proposals_def)
    from snoc have "file_tail ?w = []" by simp
    note f = full_lines_append [OF this laws(1) [of p]]
    from snoc show ?case
      unfolding w f by (simp add: strict_lines_append laws(2,3) enumerate_append_eq)
  qed
  then show ?thesis by (simp add: parse_file parse_tail_def)
qed

lemma load_live:
  "load_automation_proposals cd fs =
     bind_result (parse_jsonl_records (fst (snd cd)) (snd (snd cd)) (live fs))
       (\<lambda>rs. Inr (map (\<lambda>(index, p). normalize_proposal_identity index p) rs))"
  by (cases "fs 0") (simp_all add: load_automation_proposals_def live_def parse_jsonl_records_def)

lemma normalize_id [simp]: "proposal_id p \<noteq> [] \<Longrightarrow> normalize_proposal_identity i p = p"
  by (simp add: normalize_proposal_identity_def)

lemma normalized_nonempty: "proposal_id (normalize_proposal_identity i p) \<noteq> []"
  by (simp add: normalize_proposal_identity_def)

lemma load_ids: "load_automation_proposals cd fs = Inr ps \<Longrightarrow> p \<in> set ps \<Longrightarrow> proposal_id p \<noteq> []"
  by (auto simp: load_live normalized_nonempty)

lemma load_written:
  assumes "codec_ok cd" and "\<And>p. p \<in> set ps \<Longrightarrow> proposal_id p \<noteq> []"
  shows "load_automation_proposals cd (fs(0 := Some (write_automation_proposals cd ps))) = Inr ps"
proof -
  have "map (\<lambda>(index, p). normalize_proposal_identity index p) (enumerate 0 ps) =
      map snd (enumerate 0 ps)"
    using assms(2) by (intro map_cong) (auto simp: in_set_enumerate_eq)
  then show ?thesis by (simp add: load_live live_def parse_written [OF assms(1)])
qed

lemma update_first_ids:
  "(\<And>x. proposal_id (f x) = proposal_id x) \<Longrightarrow>
     map proposal_id (update_first P f ps) = map proposal_id ps"
  by (induction ps) auto

lemma set_status_facts [simp]:
  "proposal_id (set_status st now p) = proposal_id p"
  "pending (set_status st now p) \<longleftrightarrow> st = ''pending''"
  by (simp_all add: set_status_def pending_def Let_def)

lemma update_succeeds:
  assumes cd: "codec_ok cd" and l: "load_automation_proposals cd fs = Inr ps"
    and u: "update_automation_proposal_status cd flt now pid st fs = (Inr q, fs')"
  shows "load_automation_proposals cd fs' =
      Inr (compact_reviewed_proposals REVIEWED_PROPOSALS_RETAINED pid
        (update_first (\<lambda>p. proposal_id p = pid) (set_status st now) ps))"
    and "\<exists>p. find (\<lambda>p. proposal_id p = pid) ps = Some p \<and> q = set_status st now p"
proof -
  let ?ps = "update_first (\<lambda>p. proposal_id p = pid) (set_status st now) ps"
  have "p \<in> set ?ps \<Longrightarrow> proposal_id p \<noteq> []" for p
  proof -
    assume "p \<in> set ?ps"
    then have "proposal_id p \<in> set (map proposal_id ?ps)" by simp
    then obtain x where "x \<in> set ps" "proposal_id p = proposal_id x" by (auto simp: update_first_ids)
    with load_ids [OF l] show ?thesis by metis
  qed
  then have ne: "p \<in> set (compact_reviewed_proposals REVIEWED_PROPOSALS_RETAINED pid ?ps) \<Longrightarrow> proposal_id p \<noteq> []" for p
    using compact_subseq [of REVIEWED_PROPOSALS_RETAINED pid ?ps] by (metis notin_set_nthsI subseq_conv_nths)
  from u l obtain p where p: "find (\<lambda>p. proposal_id p = pid) ps = Some p" "q = set_status st now p"
    "fs' = fs(0 := Some (write_automation_proposals cd
       (compact_reviewed_proposals REVIEWED_PROPOSALS_RETAINED pid ?ps)))"
    by (auto simp: update_automation_proposal_status_def Let_def split: if_splits option.splits)
  from p load_written [OF cd ne] show "load_automation_proposals cd fs' =
      Inr (compact_reviewed_proposals REVIEWED_PROPOSALS_RETAINED pid ?ps)" by simp
  from p show "\<exists>p. find (\<lambda>p. proposal_id p = pid) ps = Some p \<and> q = set_status st now p" by blast
qed

lemma update_fails:
  "update_automation_proposal_status cd flt now pid st fs = (Inl e, fs') \<Longrightarrow> fs' = fs"
  by (auto simp: update_automation_proposal_status_def Let_def split: if_splits option.splits sum.splits)

text \<open>The proposal as it is stored, with an id.\<close>

definition with_id :: "nat \<Rightarrow> proposal \<Rightarrow> proposal" where
  "with_id nanos p =
     (if proposal_id p = [] then p\<lparr>proposal_id := generate_proposal_id (watcher_id p) nanos\<rparr> else p)"

lemma with_id_facts [simp]: "proposal_id (with_id nanos p) \<noteq> []" "pending (with_id nanos p) = pending p"
  by (simp_all add: with_id_def generate_proposal_id_def Let_def pending_def)

lemma append_loads:
  assumes "codec_ok cd" and "load_automation_proposals cd fs = Inr ps"
    and "append_automation_proposal cd flt nanos p fs = (res, fs')"
  shows "res = Inr () \<Longrightarrow> load_automation_proposals cd fs' = Inr (ps @ [with_id nanos p])"
    and "res \<noteq> Inr () \<Longrightarrow> \<not> check_fails flt \<Longrightarrow> load_automation_proposals cd fs' = Inr ps"
proof -
  obtain rs where rs: "parse_jsonl_records (fst (snd cd)) (snd (snd cd)) (live fs) = Inr rs"
    "ps = map (\<lambda>(index, p). normalize_proposal_identity index p) rs"
    using assms(2) by (auto simp: load_live)
  have o: "live (open_for_append fs) = live fs" by (simp add: open_for_append_def live_def split: option.split)
  have lv: "live (g(0 := Some f)) = f" for g f by (simp add: live_def)
  obtain f where f: "append_line (snd (snd cd)) flt (fst cd (with_id nanos p) @ [nl]) (live fs) = (res, f)"
    "live fs' = f"
    using assms(3)
    by (auto simp: append_automation_proposal_def append_jsonl_record_def maybe_rotate_def Let_def o lv
        with_id_def split: prod.splits if_splits)
  note out = append_line_outcome [OF assms(1) [unfolded codec_ok_def] rs(1), of flt "with_id nanos p"]
  show "res = Inr () \<Longrightarrow> load_automation_proposals cd fs' = Inr (ps @ [with_id nanos p])"
    using out f rs by (auto simp: append_outcome_def load_live)
  show "res \<noteq> Inr () \<Longrightarrow> \<not> check_fails flt \<Longrightarrow> load_automation_proposals cd fs' = Inr ps"
    using out f rs by (auto simp: append_outcome_def load_live)
qed

section \<open>A history of the store\<close>

text \<open>The store under any sequence of appends of pending proposals with fresh ids and of reviews,
  successful or not, together with the proposals that wait for a review.\<close>

inductive history :: "codec \<Rightarrow> store \<Rightarrow> proposal list \<Rightarrow> bool" for cd where
  start: "history cd (\<lambda>_. None) []"
| queued: "history cd fs waiting \<Longrightarrow> pending p \<Longrightarrow>
     append_automation_proposal cd flt nanos p fs = (Inr (), fs') \<Longrightarrow>
     (\<forall>ps. load_automation_proposals cd fs = Inr ps \<longrightarrow>
        proposal_id (with_id nanos p) \<notin> proposal_id ` set ps) \<Longrightarrow>
     history cd fs' (waiting @ [with_id nanos p])"
| not_queued: "history cd fs waiting \<Longrightarrow> \<not> check_fails flt \<Longrightarrow>
     append_automation_proposal cd flt nanos p fs = (Inl e, fs') \<Longrightarrow> history cd fs' waiting"
| reviewed: "history cd fs waiting \<Longrightarrow> st \<noteq> ''pending'' \<Longrightarrow>
     update_automation_proposal_status cd flt now pid st fs = (Inr q, fs') \<Longrightarrow>
     history cd fs' (filter (\<lambda>p. proposal_id p \<noteq> pid) waiting)"
| not_reviewed: "history cd fs waiting \<Longrightarrow>
     update_automation_proposal_status cd flt now pid st fs = (Inl e', fs') \<Longrightarrow> history cd fs' waiting"

inductive_cases historyE: "history cd fs waiting"

definition store_inv :: "codec \<Rightarrow> store \<Rightarrow> proposal list \<Rightarrow> bool" where
  "store_inv cd fs waiting \<longleftrightarrow>
     (\<exists>ps. load_automation_proposals cd fs = Inr ps \<and> distinct (map proposal_id ps) \<and>
        filter pending ps = waiting \<and> length (filter (\<lambda>p. \<not> pending p) ps) \<le> REVIEWED_PROPOSALS_RETAINED)"

lemma pending_after_review:
  assumes "distinct (map proposal_id ps)" and "st \<noteq> ''pending''"
  shows "filter pending (update_first (\<lambda>p. proposal_id p = pid) (set_status st now) ps) =
     filter (\<lambda>p. proposal_id p \<noteq> pid) (filter pending ps)"
  using assms(1)
proof (induction ps)
  case (Cons p ps)
  show ?case
  proof (cases "proposal_id p = pid")
    case True
    with Cons.prems have "filter (\<lambda>p. proposal_id p \<noteq> pid) (filter pending ps) = filter pending ps"
      by (intro filter_True) (auto, metis image_eqI)
    with True assms(2) show ?thesis by simp
  next
    case False
    with Cons show ?thesis by simp
  qed
qed simp

lemma review_keeps_inv:
  assumes "codec_ok cd" and "store_inv cd fs waiting" and "st \<noteq> ''pending''"
    and "update_automation_proposal_status cd flt now pid st fs = (Inr q, fs')"
  shows "store_inv cd fs' (filter (\<lambda>p. proposal_id p \<noteq> pid) waiting)"
proof -
  obtain ps where ps: "load_automation_proposals cd fs = Inr ps" "distinct (map proposal_id ps)"
    "filter pending ps = waiting"
    using assms(2) by (auto simp: store_inv_def)
  let ?u = "update_first (\<lambda>p. proposal_id p = pid) (set_status st now) ps"
  let ?c = "compact_reviewed_proposals REVIEWED_PROPOSALS_RETAINED pid ?u"
  have "load_automation_proposals cd fs' = Inr ?c" by (rule update_succeeds(1) [OF assms(1) ps(1) assms(4)])
  moreover have "distinct (map proposal_id ?c)"
  proof (rule distinct_subseq)
    show "subseq (map proposal_id ?c) (map proposal_id ?u)" by (intro subseq_map compact_subseq)
    show "distinct (map proposal_id ?u)" using ps(2) by (simp add: update_first_ids)
  qed
  moreover have "filter pending ?c = filter (\<lambda>p. proposal_id p \<noteq> pid) waiting"
    unfolding compact_pending pending_after_review [OF ps(2) assms(3)] ps(3) ..
  moreover have "length (filter (\<lambda>p. \<not> pending p) ?c) \<le> REVIEWED_PROPOSALS_RETAINED"
    unfolding compact_reviewed_count by simp
  ultimately show ?thesis by (auto simp: store_inv_def)
qed

lemma history_inv:
  assumes "codec_ok cd" and "history cd fs waiting" shows "store_inv cd fs waiting"
  using assms(2)
proof induction
  case start
  show ?case by (simp add: store_inv_def load_automation_proposals_def)
next
  case (queued fs waiting p flt nanos fs')
  then obtain ps where ps: "load_automation_proposals cd fs = Inr ps" "distinct (map proposal_id ps)"
    "filter pending ps = waiting" "length (filter (\<lambda>p. \<not> pending p) ps) \<le> REVIEWED_PROPOSALS_RETAINED"
    by (auto simp: store_inv_def)
  from append_loads(1) [OF assms(1) ps(1) queued(3)] ps queued show ?case by (auto simp: store_inv_def)
next
  case (not_queued fs waiting flt nanos p e fs')
  then obtain ps where ps: "load_automation_proposals cd fs = Inr ps" "distinct (map proposal_id ps)"
    "filter pending ps = waiting" "length (filter (\<lambda>p. \<not> pending p) ps) \<le> REVIEWED_PROPOSALS_RETAINED"
    by (auto simp: store_inv_def)
  from append_loads(2) [OF assms(1) ps(1) not_queued(3)] ps not_queued show ?case by (auto simp: store_inv_def)
next
  case (reviewed fs waiting st flt now pid q fs')
  from review_keeps_inv [OF assms(1) reviewed(4) reviewed(2,3)] show ?case .
next
  case (not_reviewed fs waiting flt now pid st e' fs')
  with update_fails [OF not_reviewed(2)] show ?case by simp
qed

lemma find_distinct:
  "distinct (map f xs) \<Longrightarrow> x \<in> set xs \<Longrightarrow> f x = a \<Longrightarrow> find (\<lambda>y. f y = a) xs = Some x"
  by (induction xs) auto

lemma load_recent_live:
  assumes "codec_ok cd" and "parse_jsonl_records (fst (snd cd)) (snd (snd cd)) (live fs) = Inr rs"
  shows "load_recent_jsonl_records (fst (snd cd)) (snd (snd cd)) fs 0 limit = Inr (last_n limit (map snd rs))"
proof (cases "fs 0")
  case None
  with assms(2) have "rs = []" by (simp add: live_def parse_jsonl_records_def)
  with None show ?thesis by (simp add: load_recent_jsonl_records_def present_def map_filter_simps last_n_def)
next
  case (Some bs)
  with assms have "scan_recent_jsonl_records (fst (snd cd)) (snd (snd cd)) bs (length bs) limit =
      Inr (last_n limit (map snd rs))"
    using json_lawsD(4) by (intro scan_recent) (auto simp: live_def codec_ok_def)
  with Some show ?thesis
    by (simp add: load_recent_jsonl_records_def present_def map_filter_simps) (simp add: last_n_def)
qed

text \<open>Examples: a codec that numbers the proposals and writes the number in braces, and one
  proposal.\<close>

definition ex_number :: "proposal \<Rightarrow> nat" where
  "ex_number p = to_nat (at_unix_ms p, proposal_id p, watcher_id p, p_action p, title p, message p, status p,
     service_id p, tool p, arguments p, reviewed_at_unix_ms p)"

definition ex_numbered :: "nat \<Rightarrow> proposal" where
  "ex_numbered n =
     (case from_nat n of (a, b, c, d, e, f, g, h, i, j, k) \<Rightarrow>
        \<lparr>at_unix_ms = a, proposal_id = b, watcher_id = c, p_action = d, title = e, message = f, status = g,
         service_id = h, tool = i, arguments = j, reviewed_at_unix_ms = k\<rparr>)"

definition ex_pser :: "proposal \<Rightarrow> char list" where
  "ex_pser p = ''{'' @ show_nat (ex_number p) @ ''}''"

definition ex_pjson :: "char list \<Rightarrow> bool" where
  "ex_pjson l \<longleftrightarrow> l = ''{'' @ show_nat (digits_val (butlast (tl l))) @ ''}''"

definition ex_pde :: "char list \<Rightarrow> proposal option" where
  "ex_pde l = (if ex_pjson l then Some (ex_numbered (digits_val (butlast (tl l)))) else None)"

definition ex_codec :: codec where
  "ex_codec = (ex_pser, ex_pde, ex_pjson)"

lemma ex_numbered_number [simp]: "ex_numbered (ex_number p) = p"
  by (simp add: ex_numbered_def ex_number_def)

lemma ex_codec_ok: "codec_ok ex_codec"
proof -
  have digits: "c \<in> set (show_nat n) \<Longrightarrow> is_ascii_digit c" for c n
    using show_nat_digits [of n] by (simp add: list_all_iff)
  have n: "nl \<notin> set (ex_pser r)" for r
    using digits [of nl] by (auto simp: ex_pser_def is_ascii_digit_def less_eq_char_def)
  have b: "\<not> is_blank (ex_pser r)" for r
    by (simp add: ex_pser_def is_blank_def)
  have d: "ex_pde (ex_pser r) = Some r" for r
    by (simp add: ex_pde_def ex_pser_def ex_pjson_def butlast_append)
  have c: "\<not> ex_pjson (take k (ex_pser r))" if "k < length (ex_pser r)" for r k
  proof
    assume "ex_pjson (take k (ex_pser r))"
    then have "CHR ''}'' \<in> set (take k (ex_pser r))" and z: "k \<noteq> 0"
      unfolding ex_pjson_def by (metis Un_iff list.set_intros(1) set_append, metis append_is_Nil_conv list.distinct(1) take0)
    moreover have "set (take k (ex_pser r)) \<subseteq> insert (CHR ''{'') (set (show_nat (ex_number r)))"
      using that z by (auto simp: ex_pser_def take_Cons' dest: in_set_takeD split: if_splits)
    ultimately show False using digits [of "CHR ''}''" "ex_number r"]
      by (auto simp: is_ascii_digit_def less_eq_char_def)
  qed
  have e: "ex_pde l = Some r \<Longrightarrow> ex_pjson l" for l r
    by (simp add: ex_pde_def split: if_splits)
  from n b d c e show ?thesis by (simp add: codec_ok_def json_laws_def ex_codec_def)
qed

definition ex_proposal :: proposal where
  "ex_proposal = \<lparr>at_unix_ms = 1, proposal_id = ''gpu-1'', watcher_id = ''gpu'', p_action = ''stop'',
     title = [], message = [], status = ''pending'', service_id = None, tool = None, arguments = [],
     reviewed_at_unix_ms = None\<rparr>"

definition ex_store :: store where
  "ex_store = (\<lambda>_. None)(0 := Some (write_automation_proposals ex_codec [ex_proposal]))"

lemma ex_store_load: "load_automation_proposals ex_codec ex_store = Inr [ex_proposal]"
  unfolding ex_store_def by (rule load_written [OF ex_codec_ok]) (simp add: ex_proposal_def)

lemma ex_store_append:
  "append_automation_proposal ex_codec no_faults 0 ex_proposal (\<lambda>_. None) = (Inr (), ex_store)"
  by (simp add: append_automation_proposal_def append_jsonl_record_def maybe_rotate_def open_for_append_def
      live_def append_line_def inspect_tail_spec file_tail_def append_or_tolerate_a_missing_newline_def
      no_faults_def ex_store_def write_automation_proposals_def ex_proposal_def)

lemma ex_history: "history ex_codec ex_store [ex_proposal]"
proof -
  have "history ex_codec ex_store ([] @ [with_id 0 ex_proposal])"
    by (rule history.queued [OF history.start _ ex_store_append])
      (simp_all add: load_automation_proposals_def pending_def ex_proposal_def)
  then show ?thesis by (simp add: with_id_def ex_proposal_def)
qed

section \<open>Properties\<close>

text \<open>Compaction keeps what it promises: the store that is left is the old one with some
  entries taken out, in order; every pending proposal stays; of the reviewed ones exactly as many
  stay as are retained; none that is dropped was reviewed later than one that stays (the one just
  reviewed aside); and the proposal just reviewed stays.\<close>

theorem compaction_contract:
  "subseq (compact_reviewed_proposals keep jr ps) ps \<and>
   filter pending (compact_reviewed_proposals keep jr ps) = filter pending ps \<and>
   length (filter (\<lambda>p. \<not> pending p) (compact_reviewed_proposals keep jr ps)) =
     min keep (length (filter (\<lambda>p. \<not> pending p) ps)) \<and>
   (\<forall>p \<in> set ps - set (compact_reviewed_proposals keep jr ps).
      \<forall>q \<in> set (compact_reviewed_proposals keep jr ps).
        \<not> pending q \<and> proposal_id q \<noteq> jr \<longrightarrow>
        (case reviewed_at_unix_ms p of None \<Rightarrow> 0 | Some t \<Rightarrow> t) \<le>
        (case reviewed_at_unix_ms q of None \<Rightarrow> 0 | Some t \<Rightarrow> t)) \<and>
   (distinct (map proposal_id ps) \<and> 0 < keep \<longrightarrow>
      (\<forall>p \<in> set ps. proposal_id p = jr \<longrightarrow> p \<in> set (compact_reviewed_proposals keep jr ps)))"
proof -
  have "(case reviewed_at_unix_ms p of None \<Rightarrow> 0 | Some t \<Rightarrow> t) \<le>
      (case reviewed_at_unix_ms q of None \<Rightarrow> 0 | Some t \<Rightarrow> t)"
    if p: "p \<in> set ps" "p \<notin> set (compact_reviewed_proposals keep jr ps)"
      and q: "q \<in> set (compact_reviewed_proposals keep jr ps)" "\<not> pending q" "proposal_id q \<noteq> jr" for p q
  proof -
    obtain i where i: "(i, p) \<in> set (enumerate 0 ps)"
      using p(1) unfolding in_set_conv_nth [of p] by (force simp: in_set_enumerate_eq)
    with p(2) have d: "i \<in> set (dropped_indices keep jr ps)" using kept_proposal_iff by blast
    then obtain ip where ip: "ip \<in> set (reviewed_entries ps)" "fst ip = i" using dropped_spec(2) by blast
    then have "ip = (i, p)" using enumerate_index_inj [OF _ i] by (auto simp: reviewed_entries_def)
    with ip have r: "(i, p) \<in> set (reviewed_entries ps)" by simp
    from q obtain jp where j: "jp \<in> set (enumerate 0 ps)" "snd jp = q" "fst jp \<notin> set (dropped_indices keep jr ps)"
      unfolding compact_eq by auto
    with q have jr: "jp \<in> set (reviewed_entries ps)" by (simp add: reviewed_entries_def)
    from dropped_key_le [OF r _ jr j(3)] d have "review_key jr (i, p) \<le> review_key jr jp" by simp
    with q j(2) show ?thesis by (auto simp: review_key_def split: if_splits)
  qed
  with compact_subseq [of keep jr ps] compact_pending [of keep jr ps] compact_reviewed_count [of keep jr ps]
    compact_keeps_just_reviewed [of ps keep _ jr]
  show ?thesis by blast
qed

theorem compaction_contract_witness:
  "compact_reviewed_proposals 1 [] [ex_proposal, ex_proposal\<lparr>status := ''approved''\<rparr>] =
     [ex_proposal, ex_proposal\<lparr>status := ''approved''\<rparr>] \<and>
   filter pending (compact_reviewed_proposals 0 [] [ex_proposal, ex_proposal\<lparr>status := ''approved''\<rparr>]) =
     [ex_proposal]"
  using compaction_contract [of 0 "[]" "[ex_proposal, ex_proposal\<lparr>status := ''approved''\<rparr>]"]
  by (simp add: compact_reviewed_proposals_def pending_def ex_proposal_def)

text \<open>C8. A pending proposal is never lost: after any sequence of appends and reviews, successful or
  failing, the store loads, the pending proposals in it are exactly those queued and not yet
  reviewed, in the order they were queued, and at most the retained number of reviewed proposals
  is kept.\<close>

theorem pending_never_lost:
  assumes "codec_ok cd" and "history cd fs waiting"
  shows "\<exists>ps. load_automation_proposals cd fs = Inr ps \<and> filter pending ps = waiting \<and>
     length (filter (\<lambda>p. \<not> pending p) ps) \<le> REVIEWED_PROPOSALS_RETAINED"
  using history_inv [OF assms] by (auto simp: store_inv_def)

theorem pending_never_lost_witness:
  "\<exists>ps. load_automation_proposals ex_codec ex_store = Inr ps \<and> filter pending ps = [ex_proposal]"
  using pending_never_lost [OF ex_codec_ok ex_history] by blast

text \<open>A review is recorded: when the status update succeeds on a store with distinct ids, looking
  the proposal up afterwards gives the record the update returned, with the new status and, unless
  it was set back to pending, the time of the review.\<close>

theorem review_recorded:
  assumes "codec_ok cd" and "load_automation_proposals cd fs = Inr ps" and "distinct (map proposal_id ps)"
    and "update_automation_proposal_status cd flt now pid st fs = (Inr q, fs')"
  shows "find_automation_proposal cd fs' pid = Inr q \<and> status q = st \<and>
     (st \<noteq> ''pending'' \<longrightarrow> reviewed_at_unix_ms q = Some now)"
proof -
  let ?u = "update_first (\<lambda>p. proposal_id p = pid) (set_status st now) ps"
  let ?c = "compact_reviewed_proposals REVIEWED_PROPOSALS_RETAINED pid ?u"
  note u = update_succeeds [OF assms(1,2,4)]
  obtain p where p: "find (\<lambda>p. proposal_id p = pid) ps = Some p" "q = set_status st now p" using u(2) by blast
  then have id: "proposal_id q = pid" by (auto simp: find_Some_iff)
  have "q \<in> set ?u"
    using p by (induction ps) (auto split: if_splits)
  moreover have "distinct (map proposal_id ?u)" using assms(3) by (simp add: update_first_ids)
  ultimately have "q \<in> set ?c" using id
    by (intro compact_keeps_just_reviewed) (simp_all add: REVIEWED_PROPOSALS_RETAINED_def)
  moreover have "distinct (map proposal_id ?c)"
    using distinct_subseq [OF subseq_map [OF compact_subseq]] \<open>distinct (map proposal_id ?u)\<close> by blast
  ultimately have "find (\<lambda>p. proposal_id p = pid) ?c = Some q"
    using id by (intro find_distinct)
  then have "find_automation_proposal cd fs' pid = Inr q" by (simp add: find_automation_proposal_def u(1))
  with p show ?thesis by (simp add: set_status_def Let_def)
qed

theorem review_recorded_witness:
  "find_automation_proposal ex_codec
     (snd (update_automation_proposal_status ex_codec no_faults 7 ''gpu-1'' ''approved'' ex_store)) ''gpu-1'' =
     Inr (set_status ''approved'' 7 ex_proposal)"
proof -
  have "trim ''gpu-1'' \<noteq> []" "trim ''approved'' \<noteq> []"
    by (simp_all add: trim_graphic ascii_graphic_def)
  then have "fst (update_automation_proposal_status ex_codec no_faults 7 ''gpu-1'' ''approved'' ex_store) =
      Inr (set_status ''approved'' 7 ex_proposal)"
    by (simp add: update_automation_proposal_status_def ex_store_load no_faults_def Let_def)
      (simp add: ex_proposal_def)
  then have "update_automation_proposal_status ex_codec no_faults 7 ''gpu-1'' ''approved'' ex_store =
      (Inr (set_status ''approved'' 7 ex_proposal),
       snd (update_automation_proposal_status ex_codec no_faults 7 ''gpu-1'' ''approved'' ex_store))"
    by (simp add: prod_eq_iff)
  from review_recorded [OF ex_codec_ok ex_store_load _ this] show ?thesis by simp
qed

text \<open>The recent proposals, newest first, are the end of the whole store, whether they were read
  from the end of the file or, because an old record without an id was met, from all of it.\<close>

theorem recent_proposals:
  assumes "codec_ok cd" and "load_automation_proposals cd fs = Inr ps"
  shows "load_recent_automation_proposals cd fs limit = Inr (take limit (rev ps))"
proof -
  let ?f = "\<lambda>(index, p). normalize_proposal_identity index p"
  obtain rs where rs: "parse_jsonl_records (fst (snd cd)) (snd (snd cd)) (live fs) = Inr rs" "ps = map ?f rs"
    using assms(2) by (auto simp: load_live)
  note recent = load_recent_live [OF assms(1) rs(1), of limit]
  have t: "take limit (rev ps) = rev (drop (length ps - limit) ps)" by (simp add: take_rev)
  show ?thesis
  proof (cases "list_ex (\<lambda>p. proposal_id p = []) (last_n limit (map snd rs))")
    case True
    then show ?thesis by (simp add: load_recent_automation_proposals_def recent assms(2) t)
  next
    case False
    have "drop (length ps - limit) ps = map ?f (drop (length rs - limit) rs)" by (simp add: rs(2) drop_map)
    also have "\<dots> = map snd (drop (length rs - limit) rs)"
      using False by (intro map_cong) (auto simp: last_n_def list_ex_iff drop_map)
    finally show ?thesis
      using False by (simp add: load_recent_automation_proposals_def recent t last_n_def drop_map)
  qed
qed

theorem recent_proposals_witness:
  "load_recent_automation_proposals ex_codec ex_store 5 = Inr [ex_proposal]"
  using recent_proposals [OF ex_codec_ok ex_store_load, of 5] by simp

end
