(* ===== verification/Proc_Lifecycle.thy ===== *)
theory Proc_Lifecycle
  imports Prelude "HOL-Library.Transitive_Closure_Table"
begin

text \<open>
  Verified, bounded process termination on Linux:
  \<^verbatim>\<open>crates/rocm-core/src/proc_lifecycle.rs\<close> and the process-tree part of
  \<^verbatim>\<open>crates/rocm-core/src/process.rs\<close>.

  The operating system is an argument. Other processes start, exit and are replaced
  while the code runs, so every observation carries the instant (in nanoseconds) it is made at:
  \<^verbatim>\<open>stat_file os t pid\<close> is what \<^verbatim>\<open>/proc/<pid>/stat\<close> holds at \<^verbatim>\<open>t\<close>, and \<^verbatim>\<open>delay os t\<close> is how long a
  call made at \<^verbatim>\<open>t\<close> takes. Nothing is assumed of how these answers change over time, so the
  theorems hold whatever the other processes do, also in reaction to the signals. Each
  operation returns the instant it ends at, and the ones that signal append every
  \<^verbatim>\<open>kill\<close> they make to a log.
\<close>

section \<open>The operating system\<close>

datatype errno = EPERM | ESRCH | OtherErrno

record os =
  delay :: "nat \<Rightarrow> nat"
  kill_call :: "nat \<Rightarrow> int \<Rightarrow> nat \<Rightarrow> errno option"
  stat_file :: "nat \<Rightarrow> u32 \<Rightarrow> string option"
  proc_dir :: "nat \<Rightarrow> string list option"

type_synonym signal_log = "(nat \<times> int \<times> nat) list"

definition after :: "os \<Rightarrow> nat \<Rightarrow> nat" where
  "after os t = t + delay os t"

definition SIGTERM :: nat where "SIGTERM = 15"
definition SIGKILL :: nat where "SIGKILL = 9"

section \<open>Reading /proc\<close>

text \<open>\<^verbatim>\<open>stat.get(stat.rfind(')')? + 1..)?\<close>: what follows the last closing parenthesis.\<close>

definition after_comm :: "string \<Rightarrow> string option" where
  "after_comm stat =
     (if CHR '')'' \<in> set stat then Some (rev (takeWhile (\<lambda>c. c \<noteq> CHR '')'') (rev stat))) else None)"

text \<open>\<^verbatim>\<open>Iterator::nth\<close>.\<close>

definition nth_opt :: "'a list \<Rightarrow> nat \<Rightarrow> 'a option" where
  "nth_opt xs i = (if i < length xs then Some (xs ! i) else None)"

text \<open>The first byte stands for the first character: it is only compared with \<^verbatim>\<open>Z\<close>.\<close>

definition parse_state_char :: "string \<Rightarrow> char option" where
  "parse_state_char stat =
     Option.bind (after_comm stat) (\<lambda>rest. Option.bind (nth_opt (split_whitespace rest) 0) (\<lambda>w. nth_opt w 0))"

definition parse_start_ticks :: "string \<Rightarrow> u64 option" where
  "parse_start_ticks stat =
     Option.bind (after_comm stat) (\<lambda>rest.
       Option.bind (nth_opt (split_whitespace rest) 19) (\<lambda>w. map_option of_nat (parse_uint 64 w)))"

definition parse_parent_pid :: "string \<Rightarrow> u32 option" where
  "parse_parent_pid stat =
     Option.bind (after_comm stat) (\<lambda>rest.
       Option.bind (nth_opt (split_whitespace rest) 1) (\<lambda>w. map_option of_nat (parse_uint 32 w)))"

definition read_parent_pid :: "os \<Rightarrow> nat \<Rightarrow> u32 \<Rightarrow> u32 option" where
  "read_parent_pid os t pid = Option.bind (stat_file os t pid) parse_parent_pid"

definition process_start_ticks :: "os \<Rightarrow> nat \<Rightarrow> u32 \<Rightarrow> u64 option" where
  "process_start_ticks os t pid = Option.bind (stat_file os t pid) parse_start_ticks"

definition process_has_exited :: "os \<Rightarrow> nat \<Rightarrow> u32 \<Rightarrow> bool" where
  "process_has_exited os t pid =
     (case stat_file os t pid of Some stat \<Rightarrow> parse_state_char stat = Some (CHR ''Z'') | None \<Rightarrow> False)"

text \<open>\<^verbatim>\<open>kill(pid, 0)\<close> answers for a live process, \<^verbatim>\<open>EPERM\<close> meaning it lives under another user. A
  number outside \<^verbatim>\<open>pid_t\<close> is no process.\<close>

definition process_is_running :: "os \<Rightarrow> nat \<Rightarrow> u32 \<Rightarrow> bool" where
  "process_is_running os t pid =
     (if pid = 0 then False
      else if 2 ^ 31 \<le> unat pid then False
      else case kill_call os t (int (unat pid)) 0 of None \<Rightarrow> True | Some e \<Rightarrow> e = EPERM)"

section \<open>Process trees\<close>

text \<open>\<^verbatim>\<open>walk_process_tree\<close>: \<^verbatim>\<open>stack.pop()\<close> takes the last element of the vector and \<^verbatim>\<open>extend\<close> adds
  at its end, so the stack is kept in reverse, its top first.\<close>

type_synonym children = "u32 \<Rightarrow> u32 list option"

definition kids :: "children \<Rightarrow> u32 \<Rightarrow> u32 list" where
  "kids children p = (case children p of Some ks \<Rightarrow> ks | None \<Rightarrow> [])"

function walk_loop :: "children \<Rightarrow> u32 set \<Rightarrow> u32 list \<Rightarrow> u32 list \<Rightarrow> u32 list" where
  "walk_loop children seen [] order = order"
| "walk_loop children seen (p # stack) order =
     (if p \<in> seen then walk_loop children seen stack order
      else walk_loop children (insert p seen) (rev (kids children p) @ stack) (order @ [p]))"
  by pat_completeness auto
termination
proof (relation "measures [\<lambda>(ch, seen, st, ord). card (- seen), \<lambda>(ch, seen, st, ord). length st]", goal_cases)
  case (3 children seen p stack order)
  then have "- insert p seen \<subset> - seen" by auto
  then have "card (- insert p seen) < card (- seen)" by (simp add: psubset_card_mono)
  then show ?case by simp
qed auto

definition walk_process_tree :: "u32 \<Rightarrow> children \<Rightarrow> u32 list" where
  "walk_process_tree root children = walk_loop children {} [root] []"

definition push_child :: "children \<Rightarrow> u32 \<Rightarrow> u32 \<Rightarrow> children" where
  "push_child children ppid pid = children(ppid \<mapsto> kids children ppid @ [pid])"

fun collect_children :: "os \<Rightarrow> nat \<Rightarrow> string list \<Rightarrow> children \<Rightarrow> children \<times> nat" where
  "collect_children os t [] children = (children, t)"
| "collect_children os t (name # names) children =
     (case parse_uint 32 name of
        None \<Rightarrow> collect_children os t names children
      | Some n \<Rightarrow>
          (case read_parent_pid os t (of_nat n) of
             None \<Rightarrow> collect_children os (after os t) names children
           | Some ppid \<Rightarrow> collect_children os (after os t) names (push_child children ppid (of_nat n))))"

definition collect_process_tree :: "os \<Rightarrow> nat \<Rightarrow> u32 \<Rightarrow> u32 list \<times> nat" where
  "collect_process_tree os t root =
     (case proc_dir os t of
        Some names \<Rightarrow>
          (let (children, t1) = collect_children os (after os t) names Map.empty
           in (walk_process_tree root children, t1))
      | None \<Rightarrow> (walk_process_tree root Map.empty, after os t))"

text \<open>\<^verbatim>\<open>signal_process_scope\<close>. The flag is false when a signal was refused for another reason than
  the process being gone; the callers ignore it.\<close>

fun deliver :: "os \<Rightarrow> nat \<Rightarrow> nat \<Rightarrow> u32 list \<Rightarrow> signal_log \<Rightarrow> bool \<Rightarrow> bool \<times> nat \<times> signal_log" where
  "deliver os t raw [] log delivered = (delivered, t, log)"
| "deliver os t raw (p # ps) log delivered =
     (let failed = (case kill_call os t (sint p) raw of None \<Rightarrow> False | Some e \<Rightarrow> e \<noteq> ESRCH)
      in deliver os (after os t) raw ps (log @ [(t, sint p, raw)]) (delivered \<and> \<not> failed))"

definition signal_process_scope :: "os \<Rightarrow> nat \<Rightarrow> u32 \<Rightarrow> nat \<Rightarrow> bool \<Rightarrow> signal_log \<Rightarrow> bool \<times> nat \<times> signal_log" where
  "signal_process_scope os t pid raw include_tree log =
     (let (targets, t1) = (if include_tree then collect_process_tree os t pid else ([pid], t))
      in deliver os t1 raw targets log True)"

section \<open>Identities\<close>

datatype kill_scope = Single | Tree

record process_identity =
  pid :: u32
  start_ticks :: "u64 option"

datatype id_state = Matches | Recycled | Indeterminate | Gone

datatype termination_outcome = AlreadyGone | IdentityMismatch | Unverified | Graceful | Forced | TimedOut

datatype signal = Term | Kill

definition capture :: "os \<Rightarrow> nat \<Rightarrow> u32 \<Rightarrow> process_identity" where
  "capture os t p = \<lparr>pid = p, start_ticks = process_start_ticks os t p\<rparr>"

definition identity_state :: "os \<Rightarrow> nat \<Rightarrow> process_identity \<Rightarrow> id_state \<times> nat" where
  "identity_state os t ident =
     (if \<not> process_is_running os t (pid ident) then (Gone, after os t)
      else
        let t1 = after os t in
        if process_has_exited os t1 (pid ident) then (Gone, after os t1)
        else
          let t2 = after os t1 in
          ((case (start_ticks ident, process_start_ticks os t2 (pid ident)) of
              (Some expected, Some actual) \<Rightarrow> if expected = actual then Matches else Recycled
            | (Some _, None) \<Rightarrow> Indeterminate
            | (None, _) \<Rightarrow> Matches), after os t2))"

definition is_exited :: "id_state \<Rightarrow> bool" where
  "is_exited s \<longleftrightarrow> s = Gone \<or> s = Recycled"

fun stopped :: "termination_outcome \<Rightarrow> bool" where
  "stopped TimedOut = False"
| "stopped Unverified = False"
| "stopped _ = True"

fun graceful :: "termination_outcome \<Rightarrow> bool" where
  "graceful Graceful = True"
| "graceful AlreadyGone = True"
| "graceful IdentityMismatch = True"
| "graceful _ = False"

section \<open>Termination\<close>

primrec raw_signal :: "signal \<Rightarrow> nat" where
  "raw_signal Term = SIGTERM"
| "raw_signal Kill = SIGKILL"

definition send_signal :: "os \<Rightarrow> nat \<Rightarrow> u32 \<Rightarrow> signal \<Rightarrow> bool \<Rightarrow> signal_log \<Rightarrow> nat \<times> signal_log" where
  "send_signal os t p s tree log = snd (signal_process_scope os t p (raw_signal s) tree log)"

definition POLL_INTERVAL :: nat where "POLL_INTERVAL = 25000000"

text \<open>\<^verbatim>\<open>members.iter().all(..)\<close> stops at the first member that has not exited.\<close>

fun all_exited :: "os \<Rightarrow> nat \<Rightarrow> process_identity list \<Rightarrow> bool \<times> nat" where
  "all_exited os t [] = (True, t)"
| "all_exited os t (m # ms) =
     (let (s, t1) = identity_state os t m
      in if is_exited s then all_exited os t1 ms else (False, t1))"

lemma identity_state_mono: "identity_state os t ident = (s, t1) \<Longrightarrow> t \<le> t1"
  by (auto simp: identity_state_def Let_def after_def split: if_splits)

lemma all_exited_mono: "all_exited os t ms = (b, t1) \<Longrightarrow> t \<le> t1"
proof (induction os t ms arbitrary: b t1 rule: all_exited.induct)
  case (2 os t m ms)
  obtain s u where s: "identity_state os t m = (s, u)" by fastforce
  with "2.prems" "2.IH" [OF s [symmetric] refl] identity_state_mono [OF s] show ?case
    by (auto split: if_splits dest: order_trans)
qed simp

text \<open>The poll loop. A sleep takes at least the time asked for, which is never 0 here, so the
  deadline is reached.\<close>

function wait_loop :: "os \<Rightarrow> nat \<Rightarrow> process_identity list \<Rightarrow> nat \<Rightarrow> bool \<times> nat" where
  "wait_loop os deadline members t =
     (let (exited, now) = all_exited os t members
      in if exited then (True, now)
         else if deadline \<le> now then (False, now)
         else wait_loop os deadline members (now + min POLL_INTERVAL (deadline - now) + delay os now))"
  by pat_completeness auto
termination
proof (relation "measure (\<lambda>(os, deadline, members, t). deadline - t)", goal_cases)
  case (2 os deadline members t x exited now)
  then have "t \<le> now" by (metis all_exited_mono)
  with 2 show ?case by (auto simp: POLL_INTERVAL_def)
qed simp

declare wait_loop.simps [simp del]

definition wait_for_all_exit :: "os \<Rightarrow> nat \<Rightarrow> process_identity list \<Rightarrow> nat \<Rightarrow> bool \<times> nat" where
  "wait_for_all_exit os t members grace = wait_loop os (t + grace) members (after os t)"

fun capture_all :: "os \<Rightarrow> nat \<Rightarrow> u32 list \<Rightarrow> process_identity list \<times> nat" where
  "capture_all os t [] = ([], t)"
| "capture_all os t (p # ps) =
     (let (ms, t1) = capture_all os (after os t) ps in (capture os t p # ms, t1))"

text \<open>The loop over the members after the root was killed: one that cannot be told from a stranger
  is left alone.\<close>

fun kill_survivors :: "os \<Rightarrow> nat \<Rightarrow> u32 \<Rightarrow> process_identity list \<Rightarrow> signal_log \<Rightarrow> nat \<times> signal_log" where
  "kill_survivors os t root [] log = (t, log)"
| "kill_survivors os t root (m # ms) log =
     (if pid m = root \<or> start_ticks m = None then kill_survivors os t root ms log
      else
        let (s, t1) = identity_state os t m;
            (t2, log2) = (if s = Matches then send_signal os t1 (pid m) Kill False log else (t1, log))
        in kill_survivors os t2 root ms log2)"

definition snapshot_members :: "os \<Rightarrow> nat \<Rightarrow> process_identity \<Rightarrow> bool \<Rightarrow> process_identity list \<times> nat" where
  "snapshot_members os t ident tree =
     (if tree then (let (pids, t1) = collect_process_tree os t (pid ident) in capture_all os t1 pids)
      else ([ident], t))"

definition terminate_verified ::
  "os \<Rightarrow> nat \<Rightarrow> process_identity \<Rightarrow> kill_scope \<Rightarrow> nat \<Rightarrow> bool \<Rightarrow> termination_outcome \<times> nat \<times> signal_log" where
  "terminate_verified os t ident scope grace force =
     (case identity_state os t ident of
        (Gone, t1) \<Rightarrow> (AlreadyGone, t1, [])
      | (Recycled, t1) \<Rightarrow> (IdentityMismatch, t1, [])
      | (Indeterminate, t1) \<Rightarrow> (Unverified, t1, [])
      | (Matches, t1) \<Rightarrow>
          (let tree = (scope = Tree);
               (members, t2) = snapshot_members os t1 ident tree;
               (t3, log3) = send_signal os t2 (pid ident) Term tree [];
               (exited, t4) = wait_for_all_exit os t3 members grace
           in if exited then (Graceful, t4, log3)
              else if \<not> force then (TimedOut, t4, log3)
              else
                let (s, t5) = identity_state os t4 ident;
                    (t6, log6) = (if s = Matches then send_signal os t5 (pid ident) Kill tree log3 else (t5, log3));
                    (t7, log7) = kill_survivors os t6 (pid ident) members log6;
                    (exited2, t8) = wait_for_all_exit os t7 members grace
                in (if exited2 then Forced else TimedOut, t8, log7)))"

section \<open>The tree walk\<close>

text \<open>The descendants of a process in a parent-to-children table, and the order a walk owes its
  callers: every process but the root after one of its parents.\<close>

inductive descendant :: "children \<Rightarrow> u32 \<Rightarrow> u32 \<Rightarrow> bool" for children root where
  descendant_root: "descendant children root root"
| descendant_child: "descendant children root p \<Longrightarrow> q \<in> set (kids children p) \<Longrightarrow> descendant children root q"

definition parents_first :: "children \<Rightarrow> u32 list \<Rightarrow> bool" where
  "parents_first children order \<longleftrightarrow>
     (\<forall>i < length order. 0 < i \<longrightarrow> (\<exists>j < i. order ! i \<in> set (kids children (order ! j))))"

lemma parents_first_snoc:
  assumes "parents_first children order" "order = [] \<or> (\<exists>q \<in> set order. p \<in> set (kids children q))"
  shows "parents_first children (order @ [p])"
proof -
  have "\<exists>j < i. (order @ [p]) ! i \<in> set (kids children ((order @ [p]) ! j))"
    if i: "i < length (order @ [p])" "0 < i" for i
  proof (cases "i < length order")
    case True
    with assms(1) i obtain j where "j < i" "order ! i \<in> set (kids children (order ! j))"
      by (auto simp: parents_first_def)
    with True show ?thesis by (intro exI [of _ j]) (simp add: nth_append)
  next
    case False
    with i have [simp]: "i = length order" and "order \<noteq> []" by auto
    with assms(2) obtain q where "q \<in> set order" "p \<in> set (kids children q)" by auto
    then obtain j where "j < length order" "p \<in> set (kids children (order ! j))"
      by (auto simp: in_set_conv_nth)
    then show ?thesis by (intro exI [of _ j]) (simp add: nth_append)
  qed
  then show ?thesis by (simp add: parents_first_def)
qed

definition walk_inv :: "children \<Rightarrow> u32 \<Rightarrow> u32 set \<Rightarrow> u32 list \<Rightarrow> u32 list \<Rightarrow> bool" where
  "walk_inv children root seen stack order \<longleftrightarrow>
     set order = seen \<and> distinct order \<and> parents_first children order \<and>
     (\<forall>p \<in> seen. set (kids children p) \<subseteq> seen \<union> set stack) \<and>
     (\<forall>p \<in> seen \<union> set stack. descendant children root p) \<and>
     (order = [] \<and> stack = [root] \<or>
      order \<noteq> [] \<and> hd order = root \<and> (\<forall>p \<in> set stack. \<exists>q \<in> seen. p \<in> set (kids children q)))"

lemma walk_inv_visit:
  assumes "walk_inv children root seen (p # stack) order" "p \<notin> seen"
  shows "walk_inv children root (insert p seen) (rev (kids children p) @ stack) (order @ [p])"
proof -
  from assms have "parents_first children (order @ [p])"
    by (intro parents_first_snoc) (auto simp: walk_inv_def)
  moreover from assms have "descendant children root p" by (simp add: walk_inv_def)
  then have "\<forall>q \<in> set (kids children p). descendant children root q"
    by (auto intro: descendant_child)
  ultimately show ?thesis using assms by (auto simp: walk_inv_def hd_append)
qed

lemma walk_loop_inv:
  "walk_inv children root seen stack order \<Longrightarrow>
     \<exists>seen'. walk_inv children root seen' [] (walk_loop children seen stack order)"
proof (induction children seen stack order rule: walk_loop.induct)
  case (2 children seen p stack order)
  show ?case
  proof (cases "p \<in> seen")
    case True
    with "2.prems" have "walk_inv children root seen stack order" by (auto simp: walk_inv_def)
    with "2.IH"(1) True show ?thesis by simp
  next
    case False
    with "2.IH"(2) walk_inv_visit [OF "2.prems" False] show ?thesis by simp
  qed
qed auto

lemma walk_process_tree_inv:
  obtains seen where "walk_inv children root seen [] (walk_process_tree root children)"
proof -
  have "walk_inv children root {} [root] []"
    by (auto simp: walk_inv_def parents_first_def intro: descendant_root)
  from walk_loop_inv [OF this] that show ?thesis by (auto simp: walk_process_tree_def)
qed

lemma walk_set: "set (walk_process_tree root children) = {p. descendant children root p}"
proof -
  obtain seen where inv: "walk_inv children root seen [] (walk_process_tree root children)"
    by (rule walk_process_tree_inv)
  let ?w = "walk_process_tree root children"
  from inv have "?w \<noteq> []" and "hd ?w = root" by (auto simp: walk_inv_def)
  then have root: "root \<in> set ?w" by (metis hd_in_set)
  have "p \<in> set ?w" if "descendant children root p" for p
    using that
  proof induction
    case descendant_root
    show ?case by (rule root)
  next
    case (descendant_child p q)
    with inv show ?case by (auto simp: walk_inv_def)
  qed
  with inv show ?thesis by (auto simp: walk_inv_def)
qed

text \<open>The process-tree walk, on every table \<^verbatim>\<open>/proc\<close> can give, cyclic ones included: it lists
  the root first, every transitive descendant of it and nothing else, each once, and each
  but the root after one of its parents.\<close>

theorem tree_walk_complete:
  "hd (walk_process_tree root children) = root \<and>
   set (walk_process_tree root children) = {p. descendant children root p} \<and>
   distinct (walk_process_tree root children) \<and>
   parents_first children (walk_process_tree root children)"
proof -
  obtain seen where "walk_inv children root seen [] (walk_process_tree root children)"
    by (rule walk_process_tree_inv)
  then show ?thesis using walk_set by (auto simp: walk_inv_def)
qed

section \<open>What is signalled\<close>

lemma collect_children_mono: "collect_children os t names ch = (ch', t') \<Longrightarrow> t \<le> t'"
proof (induction os t names ch arbitrary: ch' t' rule: collect_children.induct)
  case (2 os t name names ch)
  have "t \<le> after os t" by (simp add: after_def)
  with 2 show ?case by (fastforce split: option.splits)
qed simp

lemma collect_process_tree_mono: "collect_process_tree os t root = (ps, t') \<Longrightarrow> t \<le> t'"
  by (auto simp: collect_process_tree_def after_def split: option.splits prod.splits
    dest!: collect_children_mono)

lemma capture_all_mono: "capture_all os t ps = (ms, t') \<Longrightarrow> t \<le> t'"
proof (induction os t ps arbitrary: ms t' rule: capture_all.induct)
  case (2 os t p ps)
  have "t \<le> after os t" by (simp add: after_def)
  with 2 show ?case by (fastforce split: prod.splits)
qed simp

lemma capture_all_members:
  "capture_all os t ps = (ms, t') \<Longrightarrow>
     map pid ms = ps \<and> (\<forall>m \<in> set ms. \<exists>w. t \<le> w \<and> w \<le> t' \<and> m = capture os w (pid m))"
proof (induction os t ps arbitrary: ms t' rule: capture_all.induct)
  case (2 os t p ps)
  obtain ms1 where c: "capture_all os (after os t) ps = (ms1, t')" and ms: "ms = capture os t p # ms1"
    using "2.prems" by (auto split: prod.splits)
  have le: "t \<le> after os t" by (simp add: after_def)
  with capture_all_mono [OF c] have "t \<le> t'" by simp
  moreover have "\<exists>w. t \<le> w \<and> w \<le> t' \<and> m = capture os w (pid m)" if "m \<in> set ms1" for m
    using "2.IH" [OF c] that le by (meson order_trans)
  ultimately show ?case using "2.IH" [OF c] unfolding ms by (auto simp: capture_def)
qed simp

lemma snapshot_members_mono: "snapshot_members os t ident tree = (ms, t') \<Longrightarrow> t \<le> t'"
  by (auto simp: snapshot_members_def split: if_splits prod.splits
    dest!: collect_process_tree_mono capture_all_mono intro: order_trans)

lemma wait_loop_mono: "wait_loop os d ms t = (b, t') \<Longrightarrow> t \<le> t'"
proof (induction os d ms t arbitrary: b t' rule: wait_loop.induct)
  case (1 os d ms t)
  obtain e now where e: "all_exited os t ms = (e, now)" by fastforce
  then have "t \<le> now" by (rule all_exited_mono)
  with "1.prems" e "1.IH" [OF e [symmetric] refl] show ?case
    by (subst (asm) wait_loop.simps) (fastforce split: if_splits)
qed

lemma wait_for_all_exit_mono: "wait_for_all_exit os t ms g = (b, t') \<Longrightarrow> t \<le> t'"
  by (auto simp: wait_for_all_exit_def after_def dest!: wait_loop_mono)

lemma deliver_log:
  "deliver os t raw ps log d = (d', t', log') \<Longrightarrow>
     t \<le> t' \<and> (\<exists>new. log' = log @ new \<and>
       (\<forall>(u, x, r) \<in> set new. t \<le> u \<and> u \<le> t' \<and> x \<in> sint ` set ps \<and> r = raw))"
proof (induction os t raw ps log d arbitrary: d' t' log' rule: deliver.induct)
  case (2 os t raw p ps log d)
  have le: "t \<le> after os t" by (simp add: after_def)
  from "2.IH" [OF refl "2.prems" [unfolded deliver.simps Let_def]] obtain new where
    t': "after os t \<le> t'" and log': "log' = (log @ [(t, sint p, raw)]) @ new"
    and new: "\<forall>(u, x, r) \<in> set new. after os t \<le> u \<and> u \<le> t' \<and> x \<in> sint ` set ps \<and> r = raw" by blast
  from le t' have "t \<le> t'" by simp
  with log' new le show ?case
    by (intro conjI exI [of _ "(t, sint p, raw) # new"]) fastforce+
qed simp

text \<open>The targets a signal sent at an instant may reach: the process itself or, in tree scope, the
  tree listed at an instant of the call.\<close>

definition in_scope :: "os \<Rightarrow> bool \<Rightarrow> nat \<Rightarrow> nat \<Rightarrow> u32 \<Rightarrow> int \<Rightarrow> bool" where
  "in_scope os tree t u p x \<longleftrightarrow>
     (if tree then \<exists>v. t \<le> v \<and> v \<le> u \<and> x \<in> sint ` set (fst (collect_process_tree os v p))
      else x = sint p)"

lemma send_signal_log:
  assumes "send_signal os t p sg tree log = (t', log')"
  shows "t \<le> t' \<and> (\<exists>new. log' = log @ new \<and>
    (\<forall>(u, x, r) \<in> set new. t \<le> u \<and> u \<le> t' \<and> in_scope os tree t u p x \<and> r = raw_signal sg))"
proof -
  obtain targets t1 where tg: "(if tree then collect_process_tree os t p else ([p], t)) = (targets, t1)"
    by fastforce
  then have t1: "t \<le> t1" by (auto dest: collect_process_tree_mono split: if_splits)
  obtain d where "deliver os t1 (raw_signal sg) targets log True = (d, t', log')"
    using assms tg by (cases "deliver os t1 (raw_signal sg) targets log True")
      (auto simp: send_signal_def signal_process_scope_def)
  from deliver_log [OF this] obtain new where "t1 \<le> t'" and log': "log' = log @ new"
    and new: "\<forall>(u, x, r) \<in> set new. t1 \<le> u \<and> u \<le> t' \<and> x \<in> sint ` set targets \<and> r = raw_signal sg" by blast
  moreover have "in_scope os tree t u p x" if "t1 \<le> u" "x \<in> sint ` set targets" for u x
  proof -
    from tg have "tree \<Longrightarrow> targets = fst (collect_process_tree os t p)" and "\<not> tree \<Longrightarrow> targets = [p]"
      by auto
    with that t1 show ?thesis unfolding in_scope_def by (cases tree) (auto intro: exI [of _ t])
  qed
  ultimately show ?thesis using t1 by fastforce
qed

text \<open>A survivor that may be killed: its own start time was recorded in the snapshot, and it still
  matched just before.\<close>

definition verified_member :: "os \<Rightarrow> nat \<Rightarrow> nat \<Rightarrow> process_identity \<Rightarrow> int \<Rightarrow> bool" where
  "verified_member os t u m x \<longleftrightarrow>
     start_ticks m \<noteq> None \<and> x = sint (pid m) \<and>
     (\<exists>s. t \<le> s \<and> identity_state os s m = (Matches, snd (identity_state os s m)) \<and>
        snd (identity_state os s m) \<le> u)"

lemma kill_survivors_log:
  "kill_survivors os t root ms log = (t', log') \<Longrightarrow>
     t \<le> t' \<and> (\<exists>new. log' = log @ new \<and>
       (\<forall>(u, x, r) \<in> set new. t \<le> u \<and> u \<le> t' \<and> r = SIGKILL \<and>
          (\<exists>m \<in> set ms. pid m \<noteq> root \<and> verified_member os t u m x)))"
proof (induction os t root ms log arbitrary: t' log' rule: kill_survivors.induct)
  case (2 os t root m ms log)
  show ?case
  proof (cases "pid m = root \<or> start_ticks m = None")
    case True
    with "2.prems" "2.IH"(1) [OF True] show ?thesis by fastforce
  next
    case False
    obtain s t1 where i: "identity_state os t m = (s, t1)" by fastforce
    obtain t2 log2 where k: "(if s = Matches then send_signal os t1 (pid m) Kill False log else (t1, log)) = (t2, log2)"
      by fastforce
    have t1: "t \<le> t1" by (rule identity_state_mono [OF i])
    obtain new1 where t2: "t1 \<le> t2" and log2: "log2 = log @ new1"
      and new1: "\<forall>(u, x, r) \<in> set new1. t1 \<le> u \<and> u \<le> t2 \<and> r = SIGKILL \<and> x = sint (pid m) \<and> s = Matches"
    proof (cases "s = Matches")
      case True
      with k have "send_signal os t1 (pid m) Kill False log = (t2, log2)" by simp
      from send_signal_log [OF this] obtain new where "t1 \<le> t2" "log2 = log @ new"
        "\<forall>(u, x, r) \<in> set new. t1 \<le> u \<and> u \<le> t2 \<and> x = sint (pid m) \<and> r = SIGKILL"
        by (auto simp: in_scope_def)
      with True show ?thesis by (intro that [of new]) auto
    next
      case False
      with k that [of "[]"] show ?thesis by simp
    qed
    have rest: "kill_survivors os t2 root ms log2 = (t', log')"
      using "2.prems" False i k by simp
    from "2.IH"(2) [OF False i [symmetric] refl k [symmetric] refl rest] obtain new2 where
      t': "t2 \<le> t'" and log': "log' = log2 @ new2" and
      new2: "\<forall>(u, x, r) \<in> set new2. t2 \<le> u \<and> u \<le> t' \<and> r = SIGKILL \<and>
        (\<exists>m \<in> set ms. pid m \<noteq> root \<and> verified_member os t2 u m x)" by blast
    have "t \<le> u \<and> u \<le> t' \<and> r = SIGKILL \<and> (\<exists>m' \<in> set (m # ms). pid m' \<noteq> root \<and> verified_member os t u m' x)"
      if "(u, x, r) \<in> set (new1 @ new2)" for u x r
    proof (cases "(u, x, r) \<in> set new1")
      case True
      with new1 have u: "t1 \<le> u" "u \<le> t2" "r = SIGKILL" "x = sint (pid m)" "s = Matches" by auto
      with False i t1 have "verified_member os t u m x"
        by (auto simp: verified_member_def intro!: exI [of _ t])
      with u t1 t' False show ?thesis by auto
    next
      case old: False
      with that new2 have u: "t2 \<le> u" "u \<le> t'" "r = SIGKILL"
        and "\<exists>m \<in> set ms. pid m \<noteq> root \<and> verified_member os t2 u m x" by auto
      then obtain m' where "m' \<in> set ms" "pid m' \<noteq> root" "verified_member os t2 u m' x" by blast
      moreover have "verified_member os t u m' x"
        using \<open>verified_member os t2 u m' x\<close> t1 t2 unfolding verified_member_def by (meson order_trans)
      ultimately show ?thesis using u t1 t2 by auto
    qed
    with log' log2 t1 t2 t' show ?thesis by (intro conjI exI [of _ "new1 @ new2"]) auto
  qed
qed simp

text \<open>The paths through \<^verbatim>\<open>terminate_verified\<close>.\<close>

lemma terminate_verified_cases:
  assumes "terminate_verified os t ident scope grace force = (out, t', log)"
  obtains (early) s where "identity_state os t ident = (s, t')" "log = []"
      "s = Gone \<and> out = AlreadyGone \<or> s = Recycled \<and> out = IdentityMismatch \<or> s = Indeterminate \<and> out = Unverified"
  | (asked) t1 members t2 t3 exited where
      "identity_state os t ident = (Matches, t1)" "snapshot_members os t1 ident (scope = Tree) = (members, t2)"
      "send_signal os t2 (pid ident) Term (scope = Tree) [] = (t3, log)"
      "wait_for_all_exit os t3 members grace = (exited, t')"
      "exited \<and> out = Graceful \<or> \<not> exited \<and> \<not> force \<and> out = TimedOut"
  | (forced) t1 members t2 t3 log3 t4 s t5 t6 log6 t7 exited where
      "identity_state os t ident = (Matches, t1)" "snapshot_members os t1 ident (scope = Tree) = (members, t2)"
      "send_signal os t2 (pid ident) Term (scope = Tree) [] = (t3, log3)"
      "wait_for_all_exit os t3 members grace = (False, t4)" "force"
      "identity_state os t4 ident = (s, t5)"
      "(if s = Matches then send_signal os t5 (pid ident) Kill (scope = Tree) log3 else (t5, log3)) = (t6, log6)"
      "kill_survivors os t6 (pid ident) members log6 = (t7, log)"
      "wait_for_all_exit os t7 members grace = (exited, t')"
      "out = (if exited then Forced else TimedOut)"
proof -
  obtain s t1 where i: "identity_state os t ident = (s, t1)" by fastforce
  show ?thesis
  proof (cases "s = Matches")
    case False
    with i assms have "t1 = t'" "log = []"
      "s = Gone \<and> out = AlreadyGone \<or> s = Recycled \<and> out = IdentityMismatch \<or> s = Indeterminate \<and> out = Unverified"
      by (cases s; simp add: terminate_verified_def)+
    with i show ?thesis by (intro early) auto
  next
    case True
    obtain members t2 where m: "snapshot_members os t1 ident (scope = Tree) = (members, t2)" by fastforce
    obtain t3 log3 where s3: "send_signal os t2 (pid ident) Term (scope = Tree) [] = (t3, log3)" by fastforce
    obtain e t4 where w: "wait_for_all_exit os t3 members grace = (e, t4)" by fastforce
    show ?thesis
    proof (cases "e \<or> \<not> force")
      case early: True
      with assms i True m s3 w have "log3 = log" "t4 = t'" "e \<and> out = Graceful \<or> \<not> e \<and> \<not> force \<and> out = TimedOut"
        by (auto simp: terminate_verified_def split: if_splits)
      with i True m s3 w show ?thesis by (intro asked) auto
    next
      case False
      obtain s' t5 where i2: "identity_state os t4 ident = (s', t5)" by fastforce
      obtain t6 log6 where k: "(if s' = Matches then send_signal os t5 (pid ident) Kill (scope = Tree) log3 else (t5, log3)) = (t6, log6)"
        by fastforce
      obtain t7 log7 where r: "kill_survivors os t6 (pid ident) members log6 = (t7, log7)" by fastforce
      obtain e2 t8 where w2: "wait_for_all_exit os t7 members grace = (e2, t8)" by fastforce
      from assms i True m s3 w False i2 k r w2
      have "log7 = log" "t8 = t'" "out = (if e2 then Forced else TimedOut)"
        by (auto simp: terminate_verified_def)
      with i True m s3 w False i2 k r w2 show ?thesis by (intro forced) auto
    qed
  qed
qed

text \<open>What entitles the code to signal: the recorded identity was checked and matched, the check
  being over when the signal is sent, and the target is the process or belongs to a tree
  listed after the check; or, in a forced stop, the target is a process of the tree listed
  at the start whose start time was recorded then and checked again since.\<close>

definition authorised :: "os \<Rightarrow> nat \<Rightarrow> process_identity \<Rightarrow> bool \<Rightarrow> bool \<Rightarrow> nat \<times> int \<times> nat \<Rightarrow> bool" where
  "authorised os t ident tree force = (\<lambda>(u, x, r).
     (\<exists>s s'. t \<le> s \<and> identity_state os s ident = (Matches, s') \<and> s' \<le> u \<and>
        in_scope os tree s' u (pid ident) x \<and> (r = SIGTERM \<or> force \<and> r = SIGKILL)) \<or>
     (force \<and> tree \<and> r = SIGKILL \<and>
        (\<exists>m v w. t \<le> v \<and> v \<le> w \<and> pid m \<in> set (fst (collect_process_tree os v (pid ident))) \<and>
           m = capture os w (pid m) \<and> verified_member os w u m x)))"

lemma snapshot_members_from:
  assumes "snapshot_members os t ident tree = (ms, t')" "m \<in> set ms" "pid m \<noteq> pid ident"
  shows "tree \<and> (\<exists>v w. t \<le> v \<and> v \<le> w \<and> w \<le> t' \<and>
    pid m \<in> set (fst (collect_process_tree os v (pid ident))) \<and> m = capture os w (pid m))"
proof (cases tree)
  case True
  with assms(1) obtain ps t1 where c: "collect_process_tree os t (pid ident) = (ps, t1)"
    and a: "capture_all os t1 ps = (ms, t')"
    by (auto simp: snapshot_members_def split: prod.splits)
  from capture_all_members [OF a] assms(2) obtain w where "t1 \<le> w" "w \<le> t'" "m = capture os w (pid m)"
    and "pid m \<in> set ps" by (metis image_eqI image_set)
  with c collect_process_tree_mono [OF c] True show ?thesis by (metis fst_conv order_trans order_refl)
next
  case False
  with assms show ?thesis by (auto simp: snapshot_members_def)
qed

lemma matches_token:
  assumes "identity_state os s ident = (Matches, s')" "start_ticks ident = Some k"
  shows "\<exists>v. s \<le> v \<and> v \<le> s' \<and> process_start_ticks os v (pid ident) = Some k"
proof -
  let ?v = "after os (after os s)"
  from assms have "process_start_ticks os ?v (pid ident) = Some k" and "s' = after os ?v"
    by (auto simp: identity_state_def Let_def split: if_splits option.splits)
  then show ?thesis by (intro exI [of _ ?v]) (simp add: after_def)
qed

lemma asked_authorised:
  assumes "identity_state os t ident = (Matches, t1)" "snapshot_members os t1 ident tree = (ms, t2)"
    and "send_signal os t2 (pid ident) Term tree [] = (t3, log3)"
  shows "t2 \<le> t3 \<and> (\<forall>e \<in> set log3. t1 \<le> fst e \<and> authorised os t ident tree force e)"
proof -
  from send_signal_log [OF assms(3)] have t3: "t2 \<le> t3" and
    log: "\<forall>(u, x, r) \<in> set log3. t2 \<le> u \<and> u \<le> t3 \<and> in_scope os tree t2 u (pid ident) x \<and> r = SIGTERM"
    by auto
  have "t1 \<le> t2" by (rule snapshot_members_mono [OF assms(2)])
  moreover have "in_scope os tree t1 u p x" if "in_scope os tree t2 u p x" for u p x
    using that \<open>t1 \<le> t2\<close> by (auto simp: in_scope_def split: if_splits intro: order_trans)
  ultimately have "t1 \<le> u \<and> authorised os t ident tree force (u, x, r)" if "(u, x, r) \<in> set log3" for u x r
    using that log assms(1) unfolding authorised_def by fastforce
  with t3 show ?thesis by auto
qed

lemma forced_authorised:
  assumes ms: "snapshot_members os t1 ident tree = (ms, t2)" "t \<le> t1" "t2 \<le> t4"
    and i: "identity_state os t4 ident = (s, t5)"
    and k: "(if s = Matches then send_signal os t5 (pid ident) Kill tree log3 else (t5, log3)) = (t6, log6)"
    and r: "kill_survivors os t6 (pid ident) ms log6 = (t7, log)"
    and e: "e \<in> set log" "e \<notin> set log3"
  shows "t1 \<le> fst e \<and> authorised os t ident tree True e"
proof -
  have t2: "t1 \<le> t2" and t5: "t4 \<le> t5"
    by (rule snapshot_members_mono [OF ms(1)], rule identity_state_mono [OF i])
  obtain new6 where t6: "t5 \<le> t6" and log6: "log6 = log3 @ new6" and
    new6: "\<forall>(u, x, r) \<in> set new6. t5 \<le> u \<and> s = Matches \<and> in_scope os tree t5 u (pid ident) x \<and> r = SIGKILL"
  proof (cases "s = Matches")
    case True
    with k have "send_signal os t5 (pid ident) Kill tree log3 = (t6, log6)" by simp
    from send_signal_log [OF this] obtain new where "t5 \<le> t6" "log6 = log3 @ new"
      "\<forall>(u, x, r) \<in> set new. t5 \<le> u \<and> in_scope os tree t5 u (pid ident) x \<and> r = SIGKILL" by fastforce
    with True show ?thesis by (intro that [of new]) auto
  qed (use k that [of "[]"] in simp)
  from kill_survivors_log [OF r] obtain new7 where log: "log = log6 @ new7" and
    new7: "\<forall>(u, x, r) \<in> set new7. t6 \<le> u \<and> r = SIGKILL \<and>
      (\<exists>m \<in> set ms. pid m \<noteq> pid ident \<and> verified_member os t6 u m x)" by fastforce
  obtain u x r where ev: "e = (u, x, r)" by (cases e)
  show ?thesis
  proof (cases "e \<in> set new6")
    case True
    with new6 ev have "t5 \<le> u" "s = Matches" "in_scope os tree t5 u (pid ident) x" "r = SIGKILL" by auto
    moreover from i this have "identity_state os t4 ident = (Matches, t5)" by simp
    moreover have "t \<le> t4" "t1 \<le> u" using ms(2,3) t2 t5 calculation(1) by linarith+
    ultimately show ?thesis unfolding authorised_def ev by auto
  next
    case False
    with e log log6 have "e \<in> set new7" by auto
    with new7 ev obtain m where u: "t6 \<le> u" "r = SIGKILL" and m: "m \<in> set ms" "pid m \<noteq> pid ident"
      and v: "verified_member os t6 u m x" by auto
    from snapshot_members_from [OF ms(1) m] obtain a w where tree and a: "t1 \<le> a" "a \<le> w" "w \<le> t2"
      "pid m \<in> set (fst (collect_process_tree os a (pid ident)))" "m = capture os w (pid m)" by blast
    from a(3) ms(3) t5 t6 have "w \<le> t6" by linarith
    with v have "verified_member os w u m x" unfolding verified_member_def by (meson order_trans)
    moreover have "t \<le> a" using ms(2) a(1) by simp
    ultimately have "authorised os t ident tree True e"
      using a u \<open>tree\<close> unfolding authorised_def ev by blast
    moreover have "t1 \<le> u" using a \<open>w \<le> t6\<close> u by linarith
    ultimately show ?thesis by (simp add: ev)
  qed
qed


section \<open>What is reported\<close>

definition exited_between :: "os \<Rightarrow> nat \<Rightarrow> nat \<Rightarrow> process_identity \<Rightarrow> bool" where
  "exited_between os t t' m \<longleftrightarrow> (\<exists>s. t \<le> s \<and> s \<le> t' \<and> is_exited (fst (identity_state os s m)))"

lemma exited_between_widen: "exited_between os t u m \<Longrightarrow> t0 \<le> t \<Longrightarrow> u \<le> u' \<Longrightarrow> exited_between os t0 u' m"
  unfolding exited_between_def by (meson order_trans)

lemma all_exited_seen:
  "all_exited os t ms = (True, t') \<Longrightarrow> \<forall>m \<in> set ms. exited_between os t t' m"
  "all_exited os t ms = (False, t') \<Longrightarrow>
     \<exists>m \<in> set ms. \<exists>s. t \<le> s \<and> snd (identity_state os s m) = t' \<and> \<not> is_exited (fst (identity_state os s m))"
proof (induction os t ms arbitrary: t' rule: all_exited.induct)
  case (2 os t m ms)
  obtain s u where i: "identity_state os t m = (s, u)" by fastforce
  note mono = identity_state_mono [OF i]
  {
    case 1
    with i have s: "is_exited s" and r: "all_exited os u ms = (True, t')" by (auto split: if_splits)
    have "exited_between os t t' m"
      unfolding exited_between_def using i s mono all_exited_mono [OF r] by (intro exI [of _ t]) auto
    with "2.IH"(1) [OF i [symmetric] refl s r] mono show ?case
      by (auto intro: exited_between_widen)
  next
    case 2
    show ?case
    proof (cases "is_exited s")
      case True
      with "2.IH"(2) [OF i [symmetric] refl True] 2 i obtain m' s' where "m' \<in> set ms" "u \<le> s'"
        "snd (identity_state os s' m') = t'" "\<not> is_exited (fst (identity_state os s' m'))" by auto
      with mono show ?thesis by (intro bexI [of _ m'] exI [of _ s']) auto
    next
      case False
      with i 2 show ?thesis by (intro bexI [of _ m] exI [of _ t]) auto
    qed
  }
qed simp_all

lemma wait_loop_seen:
  "wait_loop os d ms t = (True, t') \<Longrightarrow> \<forall>m \<in> set ms. exited_between os t t' m"
  "wait_loop os d ms t = (False, t') \<Longrightarrow>
     d \<le> t' \<and> (\<exists>m \<in> set ms. \<exists>s. t \<le> s \<and> snd (identity_state os s m) = t' \<and> \<not> is_exited (fst (identity_state os s m)))"
proof (induction os d ms t arbitrary: t' rule: wait_loop.induct)
  case (1 os d ms t)
  obtain e now where e: "all_exited os t ms = (e, now)" by fastforce
  let ?next = "now + min POLL_INTERVAL (d - now) + delay os now"
  have le: "t \<le> ?next" using all_exited_mono [OF e] by simp
  have step: "wait_loop os d ms t =
    (if e then (True, now) else if d \<le> now then (False, now) else wait_loop os d ms ?next)"
    by (subst wait_loop.simps) (simp add: e)
  {
    case 1
    show ?case
    proof (cases e)
      case True
      with 1 e step all_exited_seen(1) [of os t ms now] show ?thesis by simp
    next
      case False
      with 1 step have "\<not> d \<le> now" and "wait_loop os d ms ?next = (True, t')" by (auto split: if_splits)
      with "1.IH"(1) [OF e [symmetric] refl False] le show ?thesis
        by (auto intro: exited_between_widen)
    qed
  next
    case 2
    show ?case
    proof (cases "\<not> e \<and> d \<le> now")
      case True
      with 2 step e all_exited_seen(2) [of os t ms now] show ?thesis by auto
    next
      case False
      with 2 step have "\<not> e" "\<not> d \<le> now" and "wait_loop os d ms ?next = (False, t')" by (auto split: if_splits)
      with "1.IH"(2) [OF e [symmetric] refl] le show ?thesis by (meson order_trans)
    qed
  }
qed

lemma collect_process_tree_root: "p \<in> set (fst (collect_process_tree os t p))"
  by (auto simp: collect_process_tree_def walk_set split: option.split prod.split intro: descendant_root)

text \<open>The identities a stop answers for: the one it was given or, in tree scope, one captured for
  every process of the tree listed after the first check.\<close>

definition answers_for :: "os \<Rightarrow> nat \<Rightarrow> process_identity \<Rightarrow> kill_scope \<Rightarrow> process_identity list \<Rightarrow> bool" where
  "answers_for os t ident scope ms \<longleftrightarrow>
     (if scope = Tree
      then \<exists>v. t \<le> v \<and> map pid ms = fst (collect_process_tree os v (pid ident)) \<and>
             (\<forall>m \<in> set ms. \<exists>w \<ge> v. m = capture os w (pid m))
      else ms = [ident])"

lemma snapshot_answers_for:
  assumes "snapshot_members os t1 ident (scope = Tree) = (ms, t2)" "t \<le> t1"
  shows "answers_for os t ident scope ms"
proof (cases "scope = Tree")
  case True
  with assms(1) obtain ps u where c: "collect_process_tree os t1 (pid ident) = (ps, u)"
    and a: "capture_all os u ps = (ms, t2)" by (auto simp: snapshot_members_def split: prod.splits)
  have "\<forall>m \<in> set ms. \<exists>w \<ge> t1. m = capture os w (pid m)"
    using capture_all_members [OF a] collect_process_tree_mono [OF c] by (meson order_trans)
  with c True assms(2) capture_all_members [OF a] show ?thesis
    by (auto simp: answers_for_def intro!: exI [of _ t1])
next
  case False
  with assms show ?thesis by (auto simp: answers_for_def snapshot_members_def)
qed

lemma answers_for_root: "answers_for os t ident scope ms \<Longrightarrow> pid ident \<in> pid ` set ms"
  by (auto simp: answers_for_def split: if_splits) (metis collect_process_tree_root image_set)

lemma wait_for_all_exit_seen:
  assumes "wait_for_all_exit os t3 ms grace = (e, t')" "t \<le> t3"
  shows "e \<Longrightarrow> \<forall>m \<in> set ms. exited_between os t t' m"
    and "\<not> e \<Longrightarrow> t + grace \<le> t' \<and>
      (\<exists>m \<in> set ms. \<exists>s. t \<le> s \<and> snd (identity_state os s m) = t' \<and> \<not> is_exited (fst (identity_state os s m)))"
proof -
  have le: "t \<le> after os t3" using assms(2) by (simp add: after_def)
  show "\<forall>m \<in> set ms. exited_between os t t' m" if e
  proof
    fix m assume "m \<in> set ms"
    with wait_loop_seen(1) [of os "t3 + grace" ms "after os t3" t'] assms(1) that
    have "exited_between os (after os t3) t' m" by (simp add: wait_for_all_exit_def)
    then show "exited_between os t t' m" using le by (rule exited_between_widen) simp
  qed
  show "t + grace \<le> t' \<and>
      (\<exists>m \<in> set ms. \<exists>s. t \<le> s \<and> snd (identity_state os s m) = t' \<and> \<not> is_exited (fst (identity_state os s m)))"
    if "\<not> e"
  proof -
    from assms(1) that have "wait_loop os (t3 + grace) ms (after os t3) = (False, t')"
      by (simp add: wait_for_all_exit_def)
    from wait_loop_seen(2) [OF this] le assms(2) show ?thesis by (meson add_le_mono1 order_trans)
  qed
qed

lemma terminate_verified_mono:
  assumes "terminate_verified os t ident scope grace force = (out, t', log)"
  shows "t \<le> t'"
  using assms
proof (cases rule: terminate_verified_cases)
  case (early s)
  then show ?thesis using identity_state_mono by blast
next
  case (asked t1 members t2 t3 exited)
  then show ?thesis
    using identity_state_mono [OF asked(1)] snapshot_members_mono [OF asked(2)]
      send_signal_log [OF asked(3)] wait_for_all_exit_mono [OF asked(4)] by linarith
next
  case (forced t1 members t2 t3 log3 t4 s t5 t6 log6 t7 exited)
  have "t5 \<le> t6" using forced(7) send_signal_log [of os t5] by (auto split: if_splits)
  then show ?thesis
    using identity_state_mono [OF forced(1)] snapshot_members_mono [OF forced(2)]
      send_signal_log [OF forced(3)] wait_for_all_exit_mono [OF forced(4)]
      identity_state_mono [OF forced(6)] kill_survivors_log [OF forced(8)]
      wait_for_all_exit_mono [OF forced(9)] by linarith
qed

text \<open>What each verdict says of the processes the stop answers for.\<close>

definition verdict_holds ::
  "os \<Rightarrow> nat \<Rightarrow> nat \<Rightarrow> process_identity \<Rightarrow> kill_scope \<Rightarrow> nat \<Rightarrow> bool \<Rightarrow> termination_outcome \<Rightarrow> bool" where
  "verdict_holds os t t' ident scope grace force outcome =
     (case outcome of
        AlreadyGone \<Rightarrow> fst (identity_state os t ident) = Gone
      | IdentityMismatch \<Rightarrow> fst (identity_state os t ident) = Recycled
      | Unverified \<Rightarrow> fst (identity_state os t ident) = Indeterminate
      | Graceful \<Rightarrow> \<exists>ms. answers_for os t ident scope ms \<and> (\<forall>m \<in> set ms. exited_between os t t' m)
      | Forced \<Rightarrow> force \<and> (\<exists>ms. answers_for os t ident scope ms \<and> (\<forall>m \<in> set ms. exited_between os t t' m))
      | TimedOut \<Rightarrow> t + grace \<le> t' \<and>
          (\<exists>ms. answers_for os t ident scope ms \<and> (\<exists>m \<in> set ms. \<exists>s. t \<le> s \<and>
             snd (identity_state os s m) = t' \<and> \<not> is_exited (fst (identity_state os s m)))))"

lemma verdict_root_exited:
  assumes "verdict_holds os t t' ident scope grace force outcome" "stopped outcome" "t \<le> t'"
  shows "\<exists>m. pid m = pid ident \<and> exited_between os t t' m"
proof -
  have gone: "\<exists>m. pid m = pid ident \<and> exited_between os t t' m"
    if "is_exited (fst (identity_state os t ident))"
    using that assms(3) unfolding exited_between_def by blast
  have members: "\<exists>m. pid m = pid ident \<and> exited_between os t t' m"
    if "answers_for os t ident scope ms" "\<forall>m \<in> set ms. exited_between os t t' m" for ms
    using answers_for_root [OF that(1)] that(2) by force
  from assms(1,2) gone members show ?thesis
    by (cases outcome) (auto simp: verdict_holds_def is_exited_def)
qed

lemma terminate_verified_truthful:
  "\<exists>outcome t' log. terminate_verified os t ident scope grace force = (outcome, t', log) \<and>
     verdict_holds os t t' ident scope grace force outcome \<and>
     (stopped outcome \<longrightarrow> (\<exists>m. pid m = pid ident \<and> exited_between os t t' m)) \<and>
     (graceful outcome \<longrightarrow> (\<forall>(u, x, r) \<in> set log. r = SIGTERM)) \<and>
     (outcome \<in> {AlreadyGone, IdentityMismatch, Unverified} \<longrightarrow> log = [])"
proof -
  obtain outcome t' log where run: "terminate_verified os t ident scope grace force = (outcome, t', log)"
    by (metis prod_cases3)
  have "verdict_holds os t t' ident scope grace force outcome \<and> t \<le> t' \<and>
    (graceful outcome \<longrightarrow> (\<forall>(u, x, r) \<in> set log. r = SIGTERM)) \<and>
    (outcome \<in> {AlreadyGone, IdentityMismatch, Unverified} \<longrightarrow> log = [])"
    using run
  proof (cases rule: terminate_verified_cases)
    case (early s)
    with identity_state_mono [OF early(1)] show ?thesis by (auto simp: verdict_holds_def)
  next
    case (asked t1 members t2 t3 exited)
    have le: "t \<le> t1" "t1 \<le> t2" "t2 \<le> t3" "t3 \<le> t'"
      using identity_state_mono [OF asked(1)] snapshot_members_mono [OF asked(2)]
        send_signal_log [OF asked(3)] wait_for_all_exit_mono [OF asked(4)] by auto
    then have "answers_for os t ident scope members" and "t \<le> t3"
      using snapshot_answers_for [OF asked(2)] by auto
    moreover have "\<forall>(u, x, r) \<in> set log. r = SIGTERM" using send_signal_log [OF asked(3)] by auto
    ultimately show ?thesis
      using wait_for_all_exit_seen [OF asked(4) \<open>t \<le> t3\<close>] asked(5) le
      by (cases exited) (auto simp: verdict_holds_def)
  next
    case (forced t1 members t2 t3 log3 t4 s t5 t6 log6 t7 exited)
    have "t \<le> t1" "t1 \<le> t2" "t2 \<le> t3" "t3 \<le> t4" "t4 \<le> t5" "t6 \<le> t7" "t7 \<le> t'"
      using identity_state_mono [OF forced(1)] snapshot_members_mono [OF forced(2)]
        send_signal_log [OF forced(3)] wait_for_all_exit_mono [OF forced(4)]
        identity_state_mono [OF forced(6)] kill_survivors_log [OF forced(8)]
        wait_for_all_exit_mono [OF forced(9)] by auto
    moreover have "t5 \<le> t6" using forced(7) send_signal_log [of os t5] by (auto split: if_splits)
    ultimately have le: "t \<le> t1" "t \<le> t7" "t \<le> t'" by linarith+
    then have "answers_for os t ident scope members" using snapshot_answers_for [OF forced(2)] by auto
    with wait_for_all_exit_seen [OF forced(9) le(2)] forced(5,10) le show ?thesis
      by (cases exited) (auto simp: verdict_holds_def)
  qed
  with run verdict_root_exited show ?thesis by blast
qed

text \<open>C2. A stop reports what it observed. \<^verbatim>\<open>already_gone\<close>, \<^verbatim>\<open>identity_mismatch\<close> and
  \<^verbatim>\<open>unverified\<close> are given exactly on such a first check and without any signal; \<^verbatim>\<open>graceful\<close> and
  \<^verbatim>\<open>forced\<close> only after every process of the recorded tree was seen gone or replaced;
  \<^verbatim>\<open>timed_out\<close> only when the grace period is over and one of them was seen not to
  have exited in the very last check. Hence \<^verbatim>\<open>stopped()\<close> implies that the recorded PID was seen to have exited, and
  \<^verbatim>\<open>graceful()\<close> that no \<^verbatim>\<open>SIGKILL\<close> was sent. The call always returns.\<close>

theorem stop_verdict_truthful:
  "\<exists>outcome t' log. terminate_verified os t ident scope grace force = (outcome, t', log) \<and>
     verdict_holds os t t' ident scope grace force outcome \<and>
     (stopped outcome \<longrightarrow> (\<exists>m. pid m = pid ident \<and> exited_between os t t' m)) \<and>
     (graceful outcome \<longrightarrow> (\<forall>(u, x, r) \<in> set log. r = SIGTERM)) \<and>
     (outcome \<in> {AlreadyGone, IdentityMismatch, Unverified} \<longrightarrow> log = [])"
  by (rule terminate_verified_truthful)

section \<open>The start time in a stat line\<close>

lemma after_comm_last:
  assumes "CHR '')'' \<notin> set rest"
  shows "after_comm (s @ CHR '')'' # rest) = Some rest"
proof -
  have "takeWhile (\<lambda>c. c \<noteq> CHR '')'') (rev rest @ CHR '')'' # rev s) = rev rest"
    using assms by (subst takeWhile_append2) auto
  then show ?thesis by (simp add: after_comm_def)
qed

definition stat_field :: "string \<Rightarrow> bool" where
  "stat_field f \<longleftrightarrow> f \<noteq> [] \<and> list_all ascii_graphic f \<and> CHR '')'' \<notin> set f"

text \<open>A line of \<^verbatim>\<open>/proc/<pid>/stat\<close>: the PID, the command in parentheses, and the other fields.\<close>

definition stat_line :: "string \<Rightarrow> string \<Rightarrow> string list \<Rightarrow> string" where
  "stat_line p comm fs = p @ '' ('' @ comm @ '')'' @ concat (map (\<lambda>f. CHR '' '' # f) fs) @ ''\<newline>''"

lemma stat_line_fields:
  assumes "list_all stat_field fs"
  shows "\<exists>rest. after_comm (stat_line p comm fs) = Some rest \<and> split_whitespace rest = fs"
proof -
  let ?rest = "concat (map (\<lambda>f. CHR '' '' # f) fs) @ ''\<newline>''"
  from assms have "CHR '')'' \<notin> set ?rest" by (auto simp: list_all_iff stat_field_def)
  then have "after_comm ((p @ '' ('' @ comm) @ CHR '')'' # ?rest) = Some ?rest" by (rule after_comm_last)
  moreover have "split_whitespace ?rest = fs"
    unfolding split_whitespace_def using assms
    by (intro split_ws_words split_ws_newline) (auto simp: list_all_iff stat_field_def)
  ultimately show ?thesis by (simp add: stat_line_def)
qed

lemma stat_line_parsed:
  assumes "list_all stat_field fs"
  shows "parse_start_ticks (stat_line p comm fs) =
      Option.bind (nth_opt fs 19) (\<lambda>w. map_option of_nat (parse_uint 64 w))"
    and "parse_parent_pid (stat_line p comm fs) =
      Option.bind (nth_opt fs 1) (\<lambda>w. map_option of_nat (parse_uint 32 w))"
    and "parse_state_char (stat_line p comm fs) = Option.bind (nth_opt fs 0) (\<lambda>w. nth_opt w 0)"
  using stat_line_fields [OF assms, of p comm]
  by (auto simp: parse_start_ticks_def parse_parent_pid_def parse_state_char_def)

text \<open>Whatever the command name holds, spaces and parentheses included, a stat line yields the
  process state, the parent PID and the start time the kernel wrote as the first, second and
  twentieth field after the name.\<close>

theorem stat_line_read_back:
  assumes "list_all stat_field fs" "20 \<le> length fs"
    and "fs ! 1 = show_nat ppid" "ppid < 2 ^ 32"
    and "fs ! 19 = show_nat ticks" "ticks < 2 ^ 64"
  shows "parse_start_ticks (stat_line p comm fs) = Some (of_nat ticks) \<and>
    parse_parent_pid (stat_line p comm fs) = Some (of_nat ppid) \<and>
    parse_state_char (stat_line p comm fs) = Some (hd (fs ! 0))"
proof -
  from assms(1,2) have "fs ! 0 \<noteq> []"
    by (metis list_all_length less_le_trans stat_field_def zero_less_numeral)
  moreover from assms(2) have "fs \<noteq> []" by auto
  ultimately show ?thesis using assms
    by (simp add: stat_line_parsed nth_opt_def parse_uint_show_nat hd_conv_nth)
qed

section \<open>Instances\<close>

text \<open>A process that answers until it is asked to stop, with a parenthesis in its name.\<close>

definition ex_fields :: "string list" where
  "ex_fields = [''S'', ''1'', ''7'', ''7'', ''0'', ''-1'', ''4194304'', ''100'', ''0'', ''0'', ''0'', ''5'', ''6'',
     ''0'', ''0'', ''20'', ''0'', ''1'', ''0'', ''9988'', ''123456789'']"

definition ex_os :: os where
  "ex_os = \<lparr>delay = (\<lambda>t. 10),
     kill_call = (\<lambda>t x r. if x = 7 \<and> t < 200 then None else Some ESRCH),
     stat_file = (\<lambda>t p. if p = 7 \<and> t < 200 then Some (stat_line ''7'' ''a) b'' ex_fields) else None),
     proc_dir = (\<lambda>t. Some [''7''])\<rparr>"

lemma ex_fields_ok: "list_all stat_field ex_fields"
  by (simp add: ex_fields_def stat_field_def ascii_graphic_def)

lemma ex_stat_parsed:
  "parse_start_ticks (stat_line ''7'' ''a) b'' ex_fields) = Some 9988"
  "parse_parent_pid (stat_line ''7'' ''a) b'' ex_fields) = Some 1"
  "parse_state_char (stat_line ''7'' ''a) b'' ex_fields) = Some (CHR ''S'')"
  unfolding stat_line_parsed [OF ex_fields_ok]
  by (simp_all add: ex_fields_def nth_opt_def parse_uint_def is_ascii_digit_def less_eq_char_def digits_val_def digit_val_def)

lemma ex_os_eval:
  "delay ex_os t = 10" "after ex_os t = t + 10"
  "process_is_running ex_os t 7 = (t < 200)" "process_has_exited ex_os t 7 = False"
  "process_start_ticks ex_os t 7 = (if t < 200 then Some 9988 else None)"
  "read_parent_pid ex_os t 7 = (if t < 200 then Some 1 else None)"
  "proc_dir ex_os t = Some [''7'']"
  by (simp_all add: ex_os_def after_def process_is_running_def process_has_exited_def process_start_ticks_def
    read_parent_pid_def ex_stat_parsed)

lemma ex_tree: "t < 150 \<Longrightarrow> collect_process_tree ex_os t 7 = ([7], t + 20)"
  by (simp add: collect_process_tree_def ex_os_eval parse_uint_def is_ascii_digit_def less_eq_char_def
    digits_val_def digit_val_def walk_process_tree_def push_child_def kids_def)

lemma ex_wait: "wait_for_all_exit ex_os 90 [\<lparr>pid = 7, start_ticks = Some 9988\<rparr>] 100 = (True, 210)"
  unfolding wait_for_all_exit_def
  by (subst wait_loop.simps, simp add: identity_state_def ex_os_eval is_exited_def Let_def POLL_INTERVAL_def)
    (subst wait_loop.simps, simp add: identity_state_def ex_os_eval is_exited_def Let_def POLL_INTERVAL_def)

lemma ex_run:
  "terminate_verified ex_os 0 \<lparr>pid = 7, start_ticks = Some 9988\<rparr> Tree 100 False =
     (Graceful, 210, [(80, 7, 15)])"
  by (simp add: terminate_verified_def identity_state_def ex_os_eval snapshot_members_def ex_tree capture_def
    send_signal_def signal_process_scope_def SIGTERM_def ex_wait)


text \<open>A witness.\<close>

theorem stop_verdict_truthful_witness:
  "\<exists>m. pid m = 7 \<and> exited_between ex_os 0 210 m"
  using stop_verdict_truthful [of ex_os 0 "\<lparr>pid = 7, start_ticks = Some 9988\<rparr>" Tree 100 False]
  by (auto simp: ex_run)

text \<open>A witness.\<close>

theorem stat_line_read_back_witness:
  "parse_start_ticks (stat_line ''7'' ''a) b'' ex_fields) = Some (of_nat 9988)"
proof -
  have "ex_fields ! 1 = show_nat 1" "ex_fields ! 19 = show_nat 9988"
    by (simp_all add: ex_fields_def show_nat.simps digit_char_def char_of_def bit_0)
  then show ?thesis
    using stat_line_read_back [OF ex_fields_ok, of 1 9988] by (simp add: ex_fields_def)
qed

end
