(* ===== verification/Runtime_Path.thy ===== *)
theory Runtime_Path
  imports Prelude
begin

text \<open>
  The textual form of paths: the normalisation part of \<^verbatim>\<open>crates/rocm-core/src/runtime.rs\<close>.
  Every path the program writes to disk or reads back goes through it, so that a path written by
  a Windows build or typed in the \<^verbatim>\<open>/c/...\<close> style of a POSIX shell names the same place. The
  platform and the separator of the host are arguments.
\<close>

datatype runtime_platform = Windows | Linux | Other string

datatype path_separator = Native | Slash | Backslash

abbreviation (input) backslash :: char where "backslash \<equiv> CHR 0x5C"

definition is_windows :: "runtime_platform \<Rightarrow> bool" where
  "is_windows p \<longleftrightarrow> p = Windows"

text \<open>\<^verbatim>\<open>MAIN_SEPARATOR\<close> is a constant of the target: a backslash on Windows, a slash elsewhere.\<close>

definition main_separator :: "runtime_platform \<Rightarrow> char" where
  "main_separator host = (if is_windows host then backslash else CHR ''/'')"

fun separator :: "runtime_platform \<Rightarrow> path_separator \<Rightarrow> char" where
  "separator host Native = (if main_separator host = backslash then backslash else CHR ''/'')"
| "separator host Slash = CHR ''/''"
| "separator host Backslash = backslash"

definition replace_char :: "char \<Rightarrow> char \<Rightarrow> string \<Rightarrow> string" where
  "replace_char a b = map (\<lambda>c. if c = a then b else c)"

definition to_ascii_uppercase_char :: "char \<Rightarrow> char" where
  "to_ascii_uppercase_char c = (if is_ascii_lower c then char_of (of_char c - 32 :: nat) else c)"

definition is_ascii_alphabetic :: "char \<Rightarrow> bool" where
  "is_ascii_alphabetic c \<longleftrightarrow> is_ascii_upper c \<or> is_ascii_lower c"

definition trim_slashes :: "string \<Rightarrow> string" where
  "trim_slashes = dropWhile (\<lambda>c. c = CHR ''/'')"

definition format_windows_drive_path :: "char \<Rightarrow> char \<Rightarrow> string \<Rightarrow> string" where
  "format_windows_drive_path sep drive rest =
     (if rest = [] then [drive, CHR '':'', sep]
      else [drive, CHR '':'', sep] @ (if sep = backslash then replace_char (CHR ''/'') backslash rest else rest))"

definition format_windows_unc_path :: "char \<Rightarrow> string \<Rightarrow> string" where
  "format_windows_unc_path sep rest =
     (if sep = backslash then [backslash, backslash] @ replace_char (CHR ''/'') backslash rest
      else ''//'' @ rest)"

text \<open>The three recognised shapes, in the order the code tries them: \<^verbatim>\<open>/c/...\<close>, \<^verbatim>\<open>c:...\<close> and
  \<^verbatim>\<open>//server/...\<close>.\<close>

definition shell_drive :: "string \<Rightarrow> (char \<times> string) option" where
  "shell_drive forward =
     (if 2 \<le> length forward \<and> forward ! 0 = CHR ''/'' \<and> is_ascii_alphabetic (forward ! 1) \<and>
         (length forward = 2 \<or> forward ! 2 = CHR ''/'')
      then Some (to_ascii_uppercase_char (forward ! 1),
                 if 3 < length forward then trim_slashes (drop 3 forward) else [])
      else None)"

definition colon_drive :: "string \<Rightarrow> (char \<times> string) option" where
  "colon_drive s =
     (if 2 \<le> length s \<and> is_ascii_alphabetic (s ! 0) \<and> s ! 1 = CHR '':''
      then Some (to_ascii_uppercase_char (s ! 0), trim_slashes (replace_char backslash (CHR ''/'') (drop 2 s)))
      else None)"

definition normalize_windows_with_separator :: "char \<Rightarrow> string \<Rightarrow> string" where
  "normalize_windows_with_separator sep text =
     (let s = trim text; forward = replace_char backslash (CHR ''/'') s
      in case shell_drive forward of
           Some (drive, rest) \<Rightarrow> format_windows_drive_path sep drive rest
         | None \<Rightarrow>
             (case colon_drive s of
                Some (drive, rest) \<Rightarrow> format_windows_drive_path sep drive rest
              | None \<Rightarrow>
                  (case strip_prefix ''//'' forward of
                     Some rest \<Rightarrow> format_windows_unc_path sep rest
                   | None \<Rightarrow>
                       (if sep = CHR ''/'' then replace_char backslash (CHR ''/'') s
                        else if sep = backslash then replace_char (CHR ''/'') backslash s
                        else s))))"

definition normalize_runtime_path_text_for_platform :: "runtime_platform \<Rightarrow> string \<Rightarrow> runtime_platform \<Rightarrow> string" where
  "normalize_runtime_path_text_for_platform host text platform =
     (if is_windows platform then normalize_windows_with_separator (separator host Native) text else text)"

definition normalize_runtime_path_for_host :: "runtime_platform \<Rightarrow> string \<Rightarrow> string" where
  "normalize_runtime_path_for_host host path = normalize_runtime_path_text_for_platform host path host"

definition normalize_runtime_path_for_storage :: "runtime_platform \<Rightarrow> string \<Rightarrow> string" where
  "normalize_runtime_path_for_storage host path =
     (if is_windows host then normalize_windows_with_separator (separator host Backslash) path else path)"

section \<open>Trimming and separators\<close>

definition slash_map :: "(char \<Rightarrow> char) \<Rightarrow> bool" where
  "slash_map f \<longleftrightarrow> (\<forall>c. f c = c \<or> c \<in> {CHR ''/'', backslash} \<and> f c \<in> {CHR ''/'', backslash})"

lemma slash_map_replace: "slash_map (\<lambda>c. if c = CHR ''/'' then backslash else c)"
  "slash_map (\<lambda>c. if c = backslash then CHR ''/'' else c)"
  by (auto simp: slash_map_def)

lemma slash_not_ws:
  "c \<in> {CHR ''/'', backslash} \<Longrightarrow> \<not> ws1 (of_char c) \<and> \<not> ws2 (of_char c) b \<and> \<not> ws2 b (of_char c) \<and>
     \<not> ws3 (of_char c) b b' \<and> \<not> ws3 b (of_char c) b' \<and> \<not> ws3 b b' (of_char c)"
  by (auto simp: ws1_def ws2_def ws3_def)

lemma ws_slash_map:
  assumes "slash_map f"
  shows "ws1 (of_char (f a)) = ws1 (of_char a)"
    and "ws2 (of_char (f a)) (of_char (f b)) = ws2 (of_char a) (of_char b)"
    and "ws3 (of_char (f a)) (of_char (f b)) (of_char (f c)) = ws3 (of_char a) (of_char b) (of_char c)"
  using assms slash_not_ws unfolding slash_map_def by metis+

lemma trim_start_map: "slash_map f \<Longrightarrow> trim_start (map f s) = map f (trim_start s)"
  by (induction s rule: trim_start.induct) (auto simp: ws_slash_map)

lemma trim_rev_map: "slash_map f \<Longrightarrow> trim_rev (map f s) = map f (trim_rev s)"
  by (induction s rule: trim_rev.induct) (auto simp: ws_slash_map)

lemma trim_map: "slash_map f \<Longrightarrow> trim (map f s) = map f (trim s)"
  by (simp add: trim_def trim_end_def trim_start_map trim_rev_map rev_map)

text \<open>A trimmed text: neither of its ends is white space.\<close>

lemma trim_start_length: "length (trim_start s) \<le> length s"
  by (induction s rule: trim_start.induct) auto

lemma trim_rev_length: "length (trim_rev s) \<le> length s"
  by (induction s rule: trim_rev.induct) auto

lemma trim_start_idem: "trim_start (trim_start s) = trim_start s"
  by (induction s rule: trim_start.induct) auto

lemma trim_rev_idem: "trim_rev (trim_rev s) = trim_rev s"
  by (induction s rule: trim_rev.induct) auto

lemma trim_rev_suffix: "\<exists>p. s = p @ trim_rev s"
proof (induction s rule: trim_rev.induct)
  case (1 c b a s)
  show ?case
  proof (cases "ws1 (of_char c)")
    case True
    with 1(1) obtain p where "b # a # s = p @ trim_rev (b # a # s)" by blast
    with True show ?thesis by (intro exI [of _ "c # p"]) simp
  next
    case w1: False
    show ?thesis
    proof (cases "ws2 (of_char b) (of_char c)")
      case True
      with 1(2) w1 obtain p where "a # s = p @ trim_rev (a # s)" by blast
      with True w1 show ?thesis by (intro exI [of _ "c # b # p"]) simp
    next
      case w2: False
      show ?thesis
      proof (cases "ws3 (of_char a) (of_char b) (of_char c)")
        case True
        with 1(3) w1 w2 obtain p where "s = p @ trim_rev s" by blast
        with True w1 w2 show ?thesis by (intro exI [of _ "c # b # a # p"]) simp
      next
        case False
        with w1 w2 show ?thesis by simp
      qed
    qed
  qed
qed auto

lemma head_not_ws_start:
  "trim_start (a # s) = a # s \<longleftrightarrow> \<not> ws1 (of_char a) \<and>
     (\<forall>b s'. s = b # s' \<longrightarrow> \<not> ws2 (of_char a) (of_char b) \<and>
       (\<forall>c s''. s' = c # s'' \<longrightarrow> \<not> ws3 (of_char a) (of_char b) (of_char c)))"
proof (cases "a # s" rule: trim_start.cases)
  case (1 a' b c s')
  have neq: "trim_start xs \<noteq> a' # b # c # s'" if "length xs < Suc (Suc (Suc (length s')))" for xs
    using that trim_start_length [of xs] by (metis length_Cons not_less)
  show ?thesis using 1 neq [of "b # c # s'"] neq [of "c # s'"] neq [of s'] by auto
next
  case (2 a' b)
  have "trim_start [b] \<noteq> [a', b]" using trim_start_length [of "[b]"] by auto
  with 2 show ?thesis by auto
qed auto

lemma head_not_ws_rev:
  "trim_rev (c # s) = c # s \<longleftrightarrow> \<not> ws1 (of_char c) \<and>
     (\<forall>b s'. s = b # s' \<longrightarrow> \<not> ws2 (of_char b) (of_char c) \<and>
       (\<forall>a s''. s' = a # s'' \<longrightarrow> \<not> ws3 (of_char a) (of_char b) (of_char c)))"
proof (cases "c # s" rule: trim_rev.cases)
  case (1 c' b a s')
  have neq: "trim_rev xs \<noteq> c' # b # a # s'" if "length xs < Suc (Suc (Suc (length s')))" for xs
    using that trim_rev_length [of xs] by (metis length_Cons not_less)
  show ?thesis using 1 neq [of "b # a # s'"] neq [of "a # s'"] neq [of s'] by auto
next
  case (2 c' b)
  have "trim_rev [b] \<noteq> [c', b]" using trim_rev_length [of "[b]"] by auto
  with 2 show ?thesis by auto
qed auto

lemma trim_start_prefix: "trim_start (p @ q) = p @ q \<Longrightarrow> trim_start p = p"
  by (cases p) (auto simp: head_not_ws_start simp del: trim_start.simps(1-3))

lemma trim_idem: "trim (trim s) = trim s"
proof -
  let ?s = "trim_start s"
  obtain p where "rev ?s = p @ trim_rev (rev ?s)" using trim_rev_suffix by blast
  then have "?s = trim_end ?s @ rev p" by (metis rev_append rev_rev_ident trim_end_def)
  then have "trim_start (trim_end ?s) = trim_end ?s"
    using trim_start_prefix [of "trim_end ?s" "rev p"] trim_start_idem [of s] by simp
  then show ?thesis by (simp add: trim_def trim_end_def trim_rev_idem)
qed

lemma trim_ends: "trim s = s \<Longrightarrow> trim_rev (rev s) = rev s"
  by (metis rev_rev_ident trim_def trim_end_def trim_rev_idem)

text \<open>A white space encoding does not reach across a printable ASCII character.\<close>

lemma trim_rev_context:
  assumes "trim_rev (xs @ zs) = xs @ zs" "ascii_graphic y"
  shows "trim_rev (xs @ y # ys) = xs @ y # ys"
proof (cases xs)
  case Nil
  with assms(2) show ?thesis by (intro trim_rev_graphic) simp
next
  case (Cons x xs')
  have y: "\<not> ws2 (of_char y) b" "\<not> ws3 (of_char y) b c" "\<not> ws3 a (of_char y) c" for a b c
    using assms(2) by (auto simp: ascii_graphic_def ws2_def ws3_def)
  from assms(1) y show ?thesis unfolding Cons append_Cons head_not_ws_rev
    by (cases xs'; cases "tl xs'") auto
qed

section \<open>The normal form\<close>

abbreviation (input) fwd :: "string \<Rightarrow> string" where "fwd \<equiv> replace_char backslash (CHR ''/'')"
abbreviation (input) bwd :: "string \<Rightarrow> string" where "bwd \<equiv> replace_char (CHR ''/'') backslash"

definition with_sep :: "char \<Rightarrow> string \<Rightarrow> string" where
  "with_sep sep = (if sep = backslash then bwd else fwd)"

lemma fwd_no_backslash: "backslash \<notin> set s \<Longrightarrow> fwd s = s"
  by (induction s) (auto simp: replace_char_def)

lemma fwd_idem [simp]: "fwd (fwd s) = fwd s" "fwd (bwd s) = fwd s" "bwd (fwd s) = bwd s" "bwd (bwd s) = bwd s"
  by (auto simp: replace_char_def)

lemma fwd_with_sep [simp]: "fwd (with_sep sep s) = fwd s" "with_sep sep (fwd s) = with_sep sep s"
  "with_sep sep (with_sep sep s) = with_sep sep s"
  by (auto simp: with_sep_def)

lemma trim_with_sep: "trim s = s \<Longrightarrow> trim (with_sep sep s) = with_sep sep s"
  using trim_map [OF slash_map_replace(1)] trim_map [OF slash_map_replace(2)]
  by (simp add: with_sep_def replace_char_def)

lemma colon_drive_Cons:
  "colon_drive s = None \<longleftrightarrow> \<not> (\<exists>a t. s = a # CHR '':'' # t \<and> is_ascii_alphabetic a)"
  by (cases s; cases "tl s") (auto simp: colon_drive_def)

lemma with_sep_Cons: "with_sep sep (c # s) = hd (with_sep sep [c]) # with_sep sep s"
  by (simp add: with_sep_def replace_char_def)

lemma colon_drive_with_sep: "colon_drive (with_sep sep s) = None \<longleftrightarrow> colon_drive s = None"
proof (cases s)
  case Nil
  then show ?thesis by (simp add: with_sep_def replace_char_def)
next
  case a: (Cons a t)
  show ?thesis
    by (cases t) (auto simp: a colon_drive_Cons with_sep_def replace_char_def is_ascii_alphabetic_def
      is_ascii_upper_def is_ascii_lower_def less_eq_char_def)
qed

text \<open>A text in none of the drive shapes only has its separators rewritten.\<close>

lemma normalize_no_drive:
  assumes "sep \<in> {CHR ''/'', backslash}" "trim s = s" "shell_drive (fwd s) = None" "colon_drive s = None"
  shows "normalize_windows_with_separator sep s = with_sep sep s"
proof (cases "strip_prefix ''//'' (fwd s)")
  case None
  with assms show ?thesis by (auto simp: normalize_windows_with_separator_def with_sep_def)
next
  case (Some rest)
  then have f: "fwd s = ''//'' @ rest" by (simp add: strip_prefix_Some_iff)
  have "with_sep sep s = with_sep sep (''//'' @ rest)" unfolding f [symmetric] by simp
  moreover have "backslash \<notin> set (fwd s)" by (auto simp: replace_char_def)
  then have "fwd rest = rest" by (intro fwd_no_backslash) (simp add: f)
  ultimately have "with_sep sep s = format_windows_unc_path sep rest"
    using assms(1) by (auto simp: with_sep_def format_windows_unc_path_def replace_char_def)
  with Some assms show ?thesis by (simp add: normalize_windows_with_separator_def)
qed

text \<open>The drive shapes end in one normal form: an upper-case letter, a colon, one separator and a
  rest that neither starts with a separator nor ends in white space.\<close>

definition drive_rest :: "string \<Rightarrow> bool" where
  "drive_rest rest \<longleftrightarrow> backslash \<notin> set rest \<and> (rest = [] \<or> hd rest \<noteq> CHR ''/'') \<and>
     trim_rev (rev rest @ ''/'') = rev rest @ ''/''"

lemma format_drive:
  assumes "sep \<in> {CHR ''/'', backslash}" "backslash \<notin> set rest"
  shows "format_windows_drive_path sep d rest = [d, CHR '':'', sep] @ with_sep sep rest"
proof -
  have "with_sep sep [] = []" by (simp add: with_sep_def replace_char_def)
  moreover have "sep \<noteq> backslash \<Longrightarrow> with_sep sep rest = rest"
    using fwd_no_backslash [OF assms(2)] by (simp add: with_sep_def)
  ultimately show ?thesis by (simp add: format_windows_drive_path_def with_sep_def)
qed

lemma trim_slashes_suffix: "\<exists>p. s = p @ trim_slashes s"
  unfolding trim_slashes_def
  by (rule exI [of _ "takeWhile (\<lambda>c. c = CHR ''/'') s"]) (simp only: takeWhile_dropWhile_id)

lemma drive_rest_suffix:
  assumes "trim s = s" "fwd s = p @ t"
  shows "drive_rest (trim_slashes t)"
proof -
  obtain q where "t = q @ trim_slashes t" using trim_slashes_suffix by blast
  with assms(2) have f: "fwd s = (p @ q) @ trim_slashes t" by simp
  from assms(1) have "trim (fwd s) = fwd s"
    using trim_map [OF slash_map_replace(2), of s] by (simp add: replace_char_def)
  from trim_ends [OF this, unfolded f] have "trim_rev (rev (trim_slashes t) @ rev (p @ q)) = rev (trim_slashes t) @ rev (p @ q)"
    by simp
  from trim_rev_context [OF this] have "trim_rev (rev (trim_slashes t) @ ''/'') = rev (trim_slashes t) @ ''/''"
    by (simp add: ascii_graphic_def)
  moreover have "backslash \<notin> set (fwd s)" by (auto simp: replace_char_def)
  then have "backslash \<notin> set (trim_slashes t)" by (simp add: f)
  moreover have "trim_slashes t = [] \<or> hd (trim_slashes t) \<noteq> CHR ''/''"
    unfolding trim_slashes_def using hd_dropWhile [of "\<lambda>c. c = CHR ''/''" t] by blast
  ultimately show ?thesis by (simp add: drive_rest_def)
qed

lemma drive_rest_Nil: "drive_rest []"
  by (simp add: drive_rest_def ws1_def)

lemma upper_alpha:
  "is_ascii_alphabetic c \<Longrightarrow> is_ascii_upper (to_ascii_uppercase_char c)"
  by (auto simp: is_ascii_alphabetic_def to_ascii_uppercase_char_def is_ascii_upper_def is_ascii_lower_def
    less_eq_char_def)

lemma shell_drive_rest:
  assumes "trim s = s" "shell_drive (fwd s) = Some (d, rest)"
  shows "is_ascii_upper d \<and> drive_rest rest"
proof (cases "3 < length (fwd s)")
  case True
  with assms(2) have "rest = trim_slashes (drop 3 (fwd s))" "d = to_ascii_uppercase_char (fwd s ! 1)"
    "is_ascii_alphabetic (fwd s ! 1)"
    by (auto simp: shell_drive_def split: if_splits)
  with drive_rest_suffix [OF assms(1), of "take 3 (fwd s)" "drop 3 (fwd s)"] upper_alpha show ?thesis by simp
next
  case False
  with assms(2) drive_rest_Nil upper_alpha show ?thesis by (auto simp: shell_drive_def split: if_splits)
qed

lemma colon_drive_rest:
  assumes "trim s = s" "colon_drive s = Some (d, rest)"
  shows "is_ascii_upper d \<and> drive_rest rest"
proof -
  have "fwd s = fwd (take 2 s) @ fwd (drop 2 s)"
    unfolding replace_char_def by (simp flip: map_append)
  from drive_rest_suffix [OF assms(1) this] assms(2) upper_alpha show ?thesis
    by (auto simp: colon_drive_def split: if_splits)
qed

lemma drive_rest_facts:
  assumes "drive_rest rest"
  shows "fwd rest = rest" "backslash \<notin> set rest" "trim_slashes (CHR ''/'' # rest) = rest"
  using assms by (simp_all add: drive_rest_def fwd_no_backslash trim_slashes_def) (cases rest; simp)

lemma upper_char_facts:
  assumes "is_ascii_upper d"
  shows "ascii_graphic d" "d \<noteq> CHR ''/''" "d \<noteq> backslash" "is_ascii_alphabetic d" "to_ascii_uppercase_char d = d"
  using assms by (auto simp: is_ascii_upper_def less_eq_char_def ascii_graphic_def is_ascii_alphabetic_def
    to_ascii_uppercase_char_def is_ascii_lower_def)

lemma drive_text_trimmed:
  assumes "is_ascii_upper d" "drive_rest rest"
  shows "trim ([d, CHR '':'', CHR ''/''] @ rest) = [d, CHR '':'', CHR ''/''] @ rest"
proof -
  let ?x = "[d, CHR '':'', CHR ''/''] @ rest"
  have "trim_start ?x = ?x"
    using upper_char_facts(1) [OF assms(1)] by (intro trim_start_graphic) simp
  moreover have "trim_rev (rev rest @ CHR ''/'' # [CHR '':'', d]) = rev rest @ CHR ''/'' # [CHR '':'', d]"
    by (rule trim_rev_context [where zs = "''/''"])
      (use assms(2) in \<open>simp_all only: drive_rest_def\<close>, simp add: ascii_graphic_def)
  then have "trim_rev (rev ?x) = rev ?x" by (simp del: trim_rev.simps)
  ultimately show ?thesis unfolding trim_def trim_end_def by (simp only: rev_rev_ident)
qed

lemma normalize_drive_form:
  assumes sep: "sep \<in> {CHR ''/'', backslash}" and d: "is_ascii_upper d" and rest: "drive_rest rest"
  shows "normalize_windows_with_separator sep ([d, CHR '':'', sep] @ with_sep sep rest) =
    [d, CHR '':'', sep] @ with_sep sep rest" (is "_ = ?n")
proof -
  note d' = upper_char_facts [OF d] and rest' = drive_rest_facts [OF rest]
  have n: "?n = with_sep sep ([d, CHR '':'', CHR ''/''] @ rest)"
    using sep d'(2,3) by (auto simp: with_sep_def replace_char_def)
  have t: "trim ?n = ?n" unfolding n by (rule trim_with_sep [OF drive_text_trimmed [OF d rest]])
  have f: "fwd ?n = d # CHR '':'' # CHR ''/'' # rest"
    unfolding n fwd_with_sep using rest'(1) d'(2,3) by (simp add: replace_char_def)
  then have "fwd (drop 2 ?n) = CHR ''/'' # rest"
    by (simp add: replace_char_def)
  with d' rest'(3) have "colon_drive ?n = Some (d, rest)" by (simp add: colon_drive_def)
  moreover have "shell_drive (fwd ?n) = None" unfolding f using d'(2) by (simp add: shell_drive_def)
  ultimately show ?thesis
    unfolding normalize_windows_with_separator_def t Let_def using format_drive [OF sep rest'(2)]
    by (simp only: option.case prod.case)
qed

lemma normalize_windows_idem:
  assumes sep: "sep \<in> {CHR ''/'', backslash}"
  shows "normalize_windows_with_separator sep (normalize_windows_with_separator sep p) =
    normalize_windows_with_separator sep p"
proof -
  let ?s = "trim p"
  have s: "trim ?s = ?s" by (rule trim_idem)
  have np: "normalize_windows_with_separator sep p = normalize_windows_with_separator sep ?s"
    by (simp add: normalize_windows_with_separator_def s)
  have drive: ?thesis if "normalize_windows_with_separator sep ?s = format_windows_drive_path sep d rest"
    "is_ascii_upper d \<and> drive_rest rest" for d rest
    using that normalize_drive_form [OF sep] format_drive [OF sep drive_rest_facts(2)] np by metis
  show ?thesis
  proof (cases "shell_drive (fwd ?s)")
    case (Some dr)
    then show ?thesis
      using drive shell_drive_rest [OF s] by (cases dr) (auto simp: normalize_windows_with_separator_def s)
  next
    case no_shell: None
    show ?thesis
    proof (cases "colon_drive ?s")
      case (Some dr)
      with no_shell show ?thesis
        using drive colon_drive_rest [OF s] by (cases dr) (auto simp: normalize_windows_with_separator_def s)
    next
      case None
      from normalize_no_drive [OF sep s no_shell None] np
      have r: "normalize_windows_with_separator sep p = with_sep sep ?s" by simp
      have "normalize_windows_with_separator sep (with_sep sep ?s) = with_sep sep (with_sep sep ?s)"
        by (intro normalize_no_drive sep trim_with_sep s) (simp_all add: no_shell None colon_drive_with_sep)
      with r show ?thesis by simp
    qed
  qed
qed

lemma normalize_host_idem [simp]:
  "normalize_runtime_path_for_host host (normalize_runtime_path_for_host host p) =
     normalize_runtime_path_for_host host p"
  using normalize_windows_idem [of backslash]
  by (simp add: normalize_runtime_path_for_host_def normalize_runtime_path_text_for_platform_def main_separator_def)

text \<open>On a Windows host the form on disk is the form in memory.\<close>

lemma normalize_host_storage [simp]:
  "normalize_runtime_path_for_host host (normalize_runtime_path_for_storage host p) =
     normalize_runtime_path_for_host host p"
  using normalize_windows_idem [of backslash]
  by (simp add: normalize_runtime_path_for_host_def normalize_runtime_path_text_for_platform_def
    normalize_runtime_path_for_storage_def main_separator_def)

text \<open>Normalising a path is idempotent on every platform, for the form used in memory and the
  form written to disk, and what was written to disk and read back is the path in memory:
  storing never changes which path a record names.\<close>

theorem path_normalization_stable:
  "normalize_runtime_path_for_host host (normalize_runtime_path_for_host host p) =
     normalize_runtime_path_for_host host p \<and>
   normalize_runtime_path_for_storage host (normalize_runtime_path_for_storage host p) =
     normalize_runtime_path_for_storage host p \<and>
   normalize_runtime_path_for_host host (normalize_runtime_path_for_storage host p) =
     normalize_runtime_path_for_host host p"
  using normalize_windows_idem [of backslash]
  by (intro conjI normalize_host_idem normalize_host_storage) (simp add: normalize_runtime_path_for_storage_def)

end
