(* ===== verification/Service_Record.thy ===== *)
theory Service_Record
  imports Runtime_Path
begin

text \<open>
  The manifest of a managed service: \<^verbatim>\<open>crates/rocm-core/src/service_record.rs\<close>, the validated
  service id of \<^verbatim>\<open>service_identity.rs\<close> and the paths of \<^verbatim>\<open>paths.rs\<close> they meet at.

  The clock, the start time of a process and the files are arguments. \<^verbatim>\<open>serde_json\<close> is not part
  of the repository: a parsed engine state file is given by the two lookups the code makes of
  it, and the writer and reader of a manifest are a pair of functions with the law
  \<^verbatim>\<open>manifest_codec\<close>.
\<close>

type_synonym u128 = "128 word"

section \<open>Service ids and paths\<close>

datatype id_error = EmptyId | PathSeparatorInId | TraversalInId | ControlInId

text \<open>\<^verbatim>\<open>char::is_control\<close> on UTF-8: U+0000..U+001F and U+007F as one byte, U+0080..U+009F as
  C2 80..9F.\<close>

fun has_control :: "string \<Rightarrow> bool" where
  "has_control (a # b # s) \<longleftrightarrow>
     (of_char a :: nat) < 32 \<or> (of_char a :: nat) = 127 \<or>
     (of_char a :: nat) = 194 \<and> 128 \<le> (of_char b :: nat) \<and> (of_char b :: nat) < 160 \<or> has_control (b # s)"
| "has_control [a] \<longleftrightarrow> (of_char a :: nat) < 32 \<or> (of_char a :: nat) = 127"
| "has_control [] \<longleftrightarrow> False"

definition service_id_new :: "string \<Rightarrow> id_error + string" where
  "service_id_new text =
     (if trim text = [] then Inl EmptyId
      else if CHR ''/'' \<in> set text \<or> CHR 0x5C \<in> set text then Inl PathSeparatorInId
      else if str_contains text ''..'' then Inl TraversalInId
      else if has_control text then Inl ControlInId
      else Inr text)"

text \<open>One \<^verbatim>\<open>-\<close> for every other character: a byte that continues an encoding adds none.\<close>

definition sanitize_byte :: "char \<Rightarrow> string" where
  "sanitize_byte c =
     (if is_ascii_alphanumeric c then to_ascii_lowercase [c]
      else if 128 \<le> (of_char c :: nat) \<and> (of_char c :: nat) < 192 then []
      else ''-'')"

definition sanitize_component :: "string \<Rightarrow> string" where
  "sanitize_component s = concat (map sanitize_byte s)"

definition trim_dash :: "string \<Rightarrow> string" where
  "trim_dash s = rev (dropWhile (\<lambda>c. c = CHR ''-'') (rev (dropWhile (\<lambda>c. c = CHR ''-'') s)))"

definition generate_service_id :: "nat \<Rightarrow> string \<Rightarrow> string \<Rightarrow> string" where
  "generate_service_id now_ms engine model_ref =
     sanitize_component engine @ ''-'' @ take 24 (trim_dash (sanitize_component model_ref)) @ ''-'' @ show_nat now_ms"

text \<open>\<^verbatim>\<open>Path::join\<close> of a relative name onto a directory.\<close>

definition path_join :: "runtime_platform \<Rightarrow> string \<Rightarrow> string \<Rightarrow> string" where
  "path_join host base name =
     (if base = [] \<or> last base = main_separator host then base @ name else base @ [main_separator host] @ name)"

record app_paths =
  config_dir :: string
  data_dir :: string
  cache_dir :: string

definition services_dir :: "runtime_platform \<Rightarrow> app_paths \<Rightarrow> string" where
  "services_dir host paths = path_join host (data_dir paths) ''services''"

definition service_manifest_path :: "runtime_platform \<Rightarrow> app_paths \<Rightarrow> string \<Rightarrow> string" where
  "service_manifest_path host paths sid = path_join host (services_dir host paths) (sid @ ''.json'')"

definition service_log_path :: "runtime_platform \<Rightarrow> app_paths \<Rightarrow> string \<Rightarrow> string" where
  "service_log_path host paths sid = path_join host (services_dir host paths) (sid @ ''.log'')"

definition engine_state_dir :: "runtime_platform \<Rightarrow> app_paths \<Rightarrow> string \<Rightarrow> string" where
  "engine_state_dir host paths engine =
     path_join host (path_join host (path_join host (data_dir paths) ''engines'') engine) ''state''"

definition service_engine_state_path :: "runtime_platform \<Rightarrow> app_paths \<Rightarrow> string \<Rightarrow> string \<Rightarrow> string" where
  "service_engine_state_path host paths engine sid =
     path_join host (engine_state_dir host paths engine) (sid @ ''.json'')"

section \<open>The record\<close>

record service =
  sr_service_id :: string
  sr_engine :: string
  sr_model_ref :: string
  sr_canonical_model_id :: string
  sr_served_model_id :: "string option"
  sr_host :: string
  sr_port :: u16
  sr_endpoint_url :: string
  sr_mode :: string
  sr_status :: string
  sr_supervisor_pid :: u32
  sr_engine_pid :: "u32 option"
  sr_supervisor_start_ticks :: "u64 option"
  sr_engine_start_ticks :: "u64 option"
  sr_requires_api_key :: bool
  sr_runtime_id :: "string option"
  sr_env_id :: "string option"
  sr_device_policy :: "string option"
  sr_gpu_indices :: "u32 list"
  sr_engine_recipe_json :: "string option"
  sr_restart_count :: u32
  sr_last_restart_unix_ms :: "u128 option"
  sr_stop_requested_unix_ms :: "u128 option"
  sr_inference_probe_attempted_at_unix_ms :: "u64 option"
  sr_startup_phase :: "string option"
  sr_inference_verified_at_unix_ms :: "u64 option"
  sr_manifest_path :: string
  sr_log_path :: string
  sr_engine_state_path :: string
  sr_created_at_unix_ms :: u128

definition engine_stop_decides_confirmation :: "string \<Rightarrow> bool" where
  "engine_stop_decides_confirmation engine \<longleftrightarrow> engine = ''aim''"

text \<open>\<^verbatim>\<open>format_host_for_url\<close> puts brackets around an IPv6 address; whether a text is one is the
  standard library's address parser, an argument here.\<close>

definition format_host_for_url :: "(string \<Rightarrow> bool) \<Rightarrow> string \<Rightarrow> string" where
  "format_host_for_url is_ipv6 host =
     (let trimmed = trim host
      in if prefix ''['' trimmed \<and> ends_with trimmed '']'' then trimmed
         else if is_ipv6 trimmed then ''['' @ trimmed @ '']'' else trimmed)"

definition format_host_port :: "(string \<Rightarrow> bool) \<Rightarrow> string \<Rightarrow> u16 \<Rightarrow> string" where
  "format_host_port is_ipv6 host port = format_host_for_url is_ipv6 host @ '':'' @ show_nat (unat port)"

definition format_http_base_url :: "(string \<Rightarrow> bool) \<Rightarrow> string \<Rightarrow> u16 \<Rightarrow> string" where
  "format_http_base_url is_ipv6 host port = ''http://'' @ format_host_port is_ipv6 host port"

definition service_new ::
  "runtime_platform \<Rightarrow> (string \<Rightarrow> bool) \<Rightarrow> u128 \<Rightarrow> app_paths \<Rightarrow> string \<Rightarrow> string \<Rightarrow> string \<Rightarrow> string \<Rightarrow> string \<Rightarrow> u16 \<Rightarrow>
     string \<Rightarrow> u32 \<Rightarrow> string option \<Rightarrow> string option \<Rightarrow> string option \<Rightarrow> service" where
  "service_new host is_ipv6 now paths service_id engine model_ref canonical_model_id address port mode
       supervisor_pid runtime_id env_id device_policy =
     \<lparr>sr_service_id = service_id, sr_engine = engine, sr_model_ref = model_ref,
      sr_canonical_model_id = canonical_model_id, sr_served_model_id = None, sr_host = address, sr_port = port,
      sr_endpoint_url = format_http_base_url is_ipv6 address port @ ''/v1'', sr_mode = mode, sr_status = ''starting'',
      sr_supervisor_pid = supervisor_pid, sr_engine_pid = None, sr_supervisor_start_ticks = None,
      sr_engine_start_ticks = None, sr_requires_api_key = False, sr_runtime_id = runtime_id, sr_env_id = env_id,
      sr_device_policy = device_policy, sr_gpu_indices = [], sr_engine_recipe_json = None, sr_restart_count = 0,
      sr_last_restart_unix_ms = None, sr_stop_requested_unix_ms = None,
      sr_inference_probe_attempted_at_unix_ms = None, sr_startup_phase = None,
      sr_inference_verified_at_unix_ms = None, sr_manifest_path = service_manifest_path host paths service_id,
      sr_log_path = service_log_path host paths service_id,
      sr_engine_state_path = service_engine_state_path host paths engine service_id, sr_created_at_unix_ms = now\<rparr>"

definition served_model_name :: "service \<Rightarrow> string" where
  "served_model_name r =
     (case find (\<lambda>name. trim name \<noteq> [])
        [case sr_served_model_id r of Some s \<Rightarrow> s | None \<Rightarrow> [], sr_canonical_model_id r, sr_model_ref r] of
        Some name \<Rightarrow> name | None \<Rightarrow> [])"

definition reset_for_restart :: "u128 \<Rightarrow> service \<Rightarrow> service" where
  "reset_for_restart now r =
     r\<lparr>sr_inference_verified_at_unix_ms := None, sr_inference_probe_attempted_at_unix_ms := None,
       sr_restart_count := saturating_add (sr_restart_count r) 1, sr_last_restart_unix_ms := Some now\<rparr>"

definition record_supervisor_identity :: "(u32 \<Rightarrow> u64 option) \<Rightarrow> u32 \<Rightarrow> service \<Rightarrow> service" where
  "record_supervisor_identity start_ticks pid r =
     r\<lparr>sr_supervisor_pid := pid, sr_supervisor_start_ticks := start_ticks pid\<rparr>"

definition record_engine_identity :: "(u32 \<Rightarrow> u64 option) \<Rightarrow> u32 \<Rightarrow> service \<Rightarrow> service" where
  "record_engine_identity start_ticks pid r =
     r\<lparr>sr_engine_pid := Some pid, sr_engine_start_ticks := start_ticks pid\<rparr>"

definition names_same_processes :: "service \<Rightarrow> service \<Rightarrow> bool" where
  "names_same_processes r other \<longleftrightarrow>
     sr_supervisor_pid r = sr_supervisor_pid other \<and>
     sr_supervisor_start_ticks r = sr_supervisor_start_ticks other \<and>
     sr_engine_pid r = sr_engine_pid other \<and> sr_engine_start_ticks r = sr_engine_start_ticks other"

definition normalize_paths_for_host :: "runtime_platform \<Rightarrow> service \<Rightarrow> service" where
  "normalize_paths_for_host host r =
     r\<lparr>sr_manifest_path := normalize_runtime_path_for_host host (sr_manifest_path r),
       sr_log_path := normalize_runtime_path_for_host host (sr_log_path r),
       sr_engine_state_path := normalize_runtime_path_for_host host (sr_engine_state_path r)\<rparr>"

definition with_storage_paths :: "runtime_platform \<Rightarrow> service \<Rightarrow> service" where
  "with_storage_paths host r =
     r\<lparr>sr_manifest_path := normalize_runtime_path_for_storage host (sr_manifest_path r),
       sr_log_path := normalize_runtime_path_for_storage host (sr_log_path r),
       sr_engine_state_path := normalize_runtime_path_for_storage host (sr_engine_state_path r)\<rparr>"

definition is_live :: "service \<Rightarrow> bool" where
  "is_live r \<longleftrightarrow> sr_status r \<in> {''ready'', ''running'', ''starting'', ''recovering''}"

definition mark_launch_abandoned :: "service \<Rightarrow> service" where
  "mark_launch_abandoned r = r\<lparr>sr_status := ''stopped''\<rparr>"

definition blocks_port :: "service \<Rightarrow> u16 \<Rightarrow> bool" where
  "blocks_port r port \<longleftrightarrow> is_live r \<and> sr_port r = port"

section \<open>Adopting the engine's state file\<close>

record engine_state =
  str_at :: "string \<Rightarrow> string option"
  u64_at :: "string \<Rightarrow> u64 option"

text \<open>\<^verbatim>\<open>NotAFile\<close> is \<^verbatim>\<open>is_file()\<close> being false; the content is \<^verbatim>\<open>None\<close> when it is not JSON.\<close>

datatype state_file = NotAFile | Unreadable | Content "engine_state option"

datatype refresh_error = StateReadFailed | StateParseFailed

definition non_blank :: "string option \<Rightarrow> string option" where
  "non_blank v = (case v of Some s \<Rightarrow> if trim s \<noteq> [] then Some s else None | None \<Rightarrow> None)"

definition adopt_endpoint :: "engine_state \<Rightarrow> service \<Rightarrow> service" where
  "adopt_endpoint st r =
     (case non_blank (str_at st ''endpoint_url'') of Some u \<Rightarrow> r\<lparr>sr_endpoint_url := u\<rparr> | None \<Rightarrow> r)"

definition adopt_runtime :: "engine_state \<Rightarrow> service \<Rightarrow> service" where
  "adopt_runtime st r =
     (case find (\<lambda>v. trim v \<noteq> []) (List.map_filter (str_at st) [''requested_runtime_id'', ''runtime_id'']) of
        Some v \<Rightarrow> r\<lparr>sr_runtime_id := Some v\<rparr> | None \<Rightarrow> r)"

definition adopt_env :: "engine_state \<Rightarrow> service \<Rightarrow> service" where
  "adopt_env st r = (case non_blank (str_at st ''env_id'') of Some v \<Rightarrow> r\<lparr>sr_env_id := Some v\<rparr> | None \<Rightarrow> r)"

definition adopt_served :: "engine_state \<Rightarrow> service \<Rightarrow> service" where
  "adopt_served st r =
     (case non_blank (str_at st ''served_model_id'') of Some v \<Rightarrow> r\<lparr>sr_served_model_id := Some v\<rparr> | None \<Rightarrow> r)"

definition state_engine_pid :: "engine_state \<Rightarrow> (u64 \<times> string) option" where
  "state_engine_pid st =
     (case u64_at st ''server_pid'' of
        Some p \<Rightarrow> Some (p, ''server_start_ticks'')
      | None \<Rightarrow> map_option (\<lambda>p. (p, ''start_ticks'')) (u64_at st ''pid''))"

definition state_engine_ticks :: "engine_state \<Rightarrow> u64 \<Rightarrow> string \<Rightarrow> u64 option" where
  "state_engine_ticks st p ticks_key =
     (case u64_at st ticks_key of
        Some t \<Rightarrow> Some t
      | None \<Rightarrow> if u64_at st ''pid'' = Some p then u64_at st ''start_ticks'' else None)"

definition u32_try_from :: "u64 \<Rightarrow> u32 option" where
  "u32_try_from w = (if unat w < 2 ^ 32 then Some (of_nat (unat w)) else None)"

definition adopt_engine_pid :: "engine_state \<Rightarrow> service \<Rightarrow> service" where
  "adopt_engine_pid st r =
     (case state_engine_pid st of
        Some (p, ticks_key) \<Rightarrow>
          (case u32_try_from p of
             Some e \<Rightarrow> r\<lparr>sr_engine_pid := Some e, sr_engine_start_ticks := state_engine_ticks st p ticks_key\<rparr>
           | None \<Rightarrow> r)
      | None \<Rightarrow> r)"

definition adopt_verification :: "engine_state \<Rightarrow> service \<Rightarrow> service" where
  "adopt_verification st r =
     (if sr_inference_verified_at_unix_ms r = None
      then (case u64_at st ''inference_verified_at_unix_ms'' of
              Some v \<Rightarrow> r\<lparr>sr_inference_verified_at_unix_ms := Some v\<rparr> | None \<Rightarrow> r)
      else r)"

definition state_status :: "engine_state \<Rightarrow> string option" where
  "state_status st =
     (case str_at st ''status'' of
        Some s \<Rightarrow> if s \<in> {''ready'', ''running'', ''starting'', ''failed''} then Some s else None
      | None \<Rightarrow> None)"

definition adopt_state :: "engine_state \<Rightarrow> string \<Rightarrow> service \<Rightarrow> service" where
  "adopt_state st status r =
     adopt_verification st (adopt_engine_pid st (adopt_served st (adopt_env st (adopt_runtime st
       (adopt_endpoint st (r\<lparr>sr_status := status\<rparr>))))))"

definition refresh_from_engine_state ::
  "runtime_platform \<Rightarrow> (string \<Rightarrow> state_file) \<Rightarrow> service \<Rightarrow> (refresh_error + bool) \<times> service" where
  "refresh_from_engine_state host files r =
     (if sr_status r \<notin> {''starting'', ''running'', ''recovering'', ''ready''} then (Inr False, r)
      else
        let r1 = normalize_paths_for_host host r in
        case files (sr_engine_state_path r1) of
          NotAFile \<Rightarrow> (Inr False, r1)
        | Unreadable \<Rightarrow> (Inl StateReadFailed, r1)
        | Content None \<Rightarrow> (Inl StateParseFailed, r1)
        | Content (Some st) \<Rightarrow>
            (case state_status st of
               None \<Rightarrow> (Inr False, r1)
             | Some status \<Rightarrow>
                 let r2 = adopt_state st status r1 in (Inr (sr_status r2 \<noteq> sr_status r1), r2)))"

section \<open>Writing and reading the manifest\<close>

text \<open>The manifest files as a map; \<^verbatim>\<open>rename_ok\<close> and \<^verbatim>\<open>write_ok\<close> are whether the disk lets the
  temporary file be written and moved into place. \<^verbatim>\<open>Path::parent\<close> is absent for the empty path and the
  root directory.\<close>

type_synonym files = "string \<Rightarrow> string option"

record manifest_codec =
  to_json :: "service \<Rightarrow> string"
  from_json :: "string \<Rightarrow> service option"

datatype manifest_error = ServiceNotFound string | ManifestUnreadable | ManifestUnparsable | ManifestNotWritten | NoParent

definition read_manifest ::
  "manifest_codec \<Rightarrow> runtime_platform \<Rightarrow> (string \<Rightarrow> bool) \<Rightarrow> files \<Rightarrow> app_paths \<Rightarrow> string \<Rightarrow> manifest_error + service" where
  "read_manifest codec host readable fs paths service_id =
     (let path = service_manifest_path host paths service_id
      in case fs path of
           None \<Rightarrow> Inl (ServiceNotFound service_id)
         | Some bytes \<Rightarrow>
             (if \<not> readable path then Inl ManifestUnreadable
              else case from_json codec bytes of None \<Rightarrow> Inl ManifestUnparsable | Some r \<Rightarrow> Inr r))"

text \<open>\<^verbatim>\<open>write_atomic\<close>: whether the temporary file cannot be written or not be renamed, it is removed and the
  destination is as it was.\<close>

definition write_atomic :: "bool \<Rightarrow> bool \<Rightarrow> string \<Rightarrow> string \<Rightarrow> files \<Rightarrow> (manifest_error + unit) \<times> files" where
  "write_atomic write_ok rename_ok path bytes fs =
     (if write_ok \<and> rename_ok then (Inr (), fs(path \<mapsto> bytes)) else (Inl ManifestNotWritten, fs))"

definition service_write ::
  "manifest_codec \<Rightarrow> runtime_platform \<Rightarrow> bool \<Rightarrow> bool \<Rightarrow> bool \<Rightarrow> service \<Rightarrow> files \<Rightarrow> (manifest_error + unit) \<times> files" where
  "service_write codec host dir_ok write_ok rename_ok r fs =
     (let host_record = normalize_paths_for_host host r
      in if sr_manifest_path host_record = [] \<or> sr_manifest_path host_record = [main_separator host] then (Inl NoParent, fs)
         else if \<not> dir_ok then (Inl ManifestNotWritten, fs)
         else write_atomic write_ok rename_ok (sr_manifest_path host_record)
           (to_json codec (with_storage_paths host host_record)) fs)"

section \<open>What a refresh does\<close>

lemma adopt_forms:
  "adopt_endpoint st r =
     r\<lparr>sr_endpoint_url := (case non_blank (str_at st ''endpoint_url'') of Some u \<Rightarrow> u | None \<Rightarrow> sr_endpoint_url r)\<rparr>"
  "adopt_runtime st r =
     r\<lparr>sr_runtime_id := (case find (\<lambda>v. trim v \<noteq> []) (List.map_filter (str_at st) [''requested_runtime_id'', ''runtime_id'']) of
        Some v \<Rightarrow> Some v | None \<Rightarrow> sr_runtime_id r)\<rparr>"
  "adopt_env st r =
     r\<lparr>sr_env_id := (case non_blank (str_at st ''env_id'') of Some v \<Rightarrow> Some v | None \<Rightarrow> sr_env_id r)\<rparr>"
  "adopt_served st r =
     r\<lparr>sr_served_model_id := (case non_blank (str_at st ''served_model_id'') of Some v \<Rightarrow> Some v | None \<Rightarrow> sr_served_model_id r)\<rparr>"
  "adopt_verification st r =
     r\<lparr>sr_inference_verified_at_unix_ms :=
        (case sr_inference_verified_at_unix_ms r of Some v \<Rightarrow> Some v | None \<Rightarrow> u64_at st ''inference_verified_at_unix_ms'')\<rparr>"
  by (simp_all add: adopt_endpoint_def adopt_runtime_def adopt_env_def adopt_served_def adopt_verification_def
    split: option.split)

definition adopted_identity :: "engine_state \<Rightarrow> (u32 \<times> u64 option) option" where
  "adopted_identity st =
     (case state_engine_pid st of
        Some (p, key) \<Rightarrow> map_option (\<lambda>e. (e, state_engine_ticks st p key)) (u32_try_from p)
      | None \<Rightarrow> None)"

lemma adopt_engine_pid_form:
  "adopt_engine_pid st r =
     r\<lparr>sr_engine_pid := (case adopted_identity st of Some (e, t) \<Rightarrow> Some e | None \<Rightarrow> sr_engine_pid r),
       sr_engine_start_ticks := (case adopted_identity st of Some (e, t) \<Rightarrow> t | None \<Rightarrow> sr_engine_start_ticks r)\<rparr>"
  by (simp add: adopt_engine_pid_def adopted_identity_def split: option.split prod.split)

lemmas adopt_state_form = adopt_state_def adopt_forms adopt_engine_pid_form

lemma case_option_idem:
  "(case x of None \<Rightarrow> (case x of None \<Rightarrow> y | Some a \<Rightarrow> g a) | Some a \<Rightarrow> g a) = (case x of None \<Rightarrow> y | Some a \<Rightarrow> g a)"
  "(case (case x of None \<Rightarrow> w | Some v \<Rightarrow> Some v) of None \<Rightarrow> w | Some v \<Rightarrow> Some v) = (case x of None \<Rightarrow> w | Some v \<Rightarrow> Some v)"
  by (simp_all split: option.split)

lemma adopt_state_idem: "adopt_state st s (adopt_state st s r) = adopt_state st s r"
  by (simp add: adopt_state_form case_option_idem cong: option.case_cong)

lemma adopt_state_fields:
  "sr_status (adopt_state st s r) = s"
  "sr_inference_verified_at_unix_ms r = Some v \<Longrightarrow> sr_inference_verified_at_unix_ms (adopt_state st s r) = Some v"
  "sr_engine_state_path (adopt_state st s r) = sr_engine_state_path r"
  by (simp_all add: adopt_state_form)

lemma normalize_paths_idem: "normalize_paths_for_host host (normalize_paths_for_host host r) = normalize_paths_for_host host r"
  by (simp add: normalize_paths_for_host_def)

lemma normalize_paths_adopt:
  "normalize_paths_for_host host (adopt_state st s (normalize_paths_for_host host r)) =
     adopt_state st s (normalize_paths_for_host host r)"
  by (simp add: normalize_paths_for_host_def adopt_state_form)

lemma normalize_paths_status [simp]: "sr_status (normalize_paths_for_host host r) = sr_status r"
  by (simp add: normalize_paths_for_host_def)

text \<open>The fields a refresh may write; everything else keeps its value.\<close>

definition keeps_the_rest :: "service \<Rightarrow> service \<Rightarrow> bool" where
  "keeps_the_rest r r' \<longleftrightarrow>
     r'\<lparr>sr_status := sr_status r, sr_endpoint_url := sr_endpoint_url r, sr_runtime_id := sr_runtime_id r,
        sr_env_id := sr_env_id r, sr_served_model_id := sr_served_model_id r, sr_engine_pid := sr_engine_pid r,
        sr_engine_start_ticks := sr_engine_start_ticks r,
        sr_inference_verified_at_unix_ms := sr_inference_verified_at_unix_ms r,
        sr_manifest_path := sr_manifest_path r, sr_log_path := sr_log_path r,
        sr_engine_state_path := sr_engine_state_path r\<rparr> = r"

text \<open>The state file says that the process with PID \<^verbatim>\<open>p\<close> has start time \<^verbatim>\<open>k\<close>.\<close>

definition token_of :: "engine_state \<Rightarrow> u64 \<Rightarrow> u64 \<Rightarrow> bool" where
  "token_of st p k \<longleftrightarrow>
     u64_at st ''server_pid'' = Some p \<and> u64_at st ''server_start_ticks'' = Some k \<or>
     u64_at st ''pid'' = Some p \<and> u64_at st ''start_ticks'' = Some k"

lemma adopted_identity_token:
  assumes "adopted_identity st = Some (e, t)"
  shows "\<exists>p. unat p = unat e \<and> (u64_at st ''server_pid'' = Some p \<or> u64_at st ''pid'' = Some p) \<and>
    (\<forall>k. t = Some k \<longrightarrow> token_of st p k) \<and> (t = None \<longrightarrow> (\<forall>k. \<not> token_of st p k))"
proof -
  from assms obtain p key where s: "state_engine_pid st = Some (p, key)" and e: "u32_try_from p = Some e"
    and t: "t = state_engine_ticks st p key"
    by (auto simp: adopted_identity_def split: option.splits)
  from e have "unat p = unat e"
    by (auto simp: u32_try_from_def unsigned_ucast_eq take_bit_nat_eq_self split: if_splits)
  with s t show ?thesis
    by (intro exI [of _ p]) (auto simp: state_engine_pid_def state_engine_ticks_def token_of_def split: option.splits if_splits)
qed

text \<open>The outcomes of a refresh.\<close>

lemma refresh_over: "\<not> is_live r \<Longrightarrow> refresh_from_engine_state host files r = (Inr False, r)"
  by (auto simp: refresh_from_engine_state_def is_live_def)

definition refresh_live :: "(string \<Rightarrow> state_file) \<Rightarrow> service \<Rightarrow> (refresh_error + bool) \<times> service" where
  "refresh_live files r1 =
     (case files (sr_engine_state_path r1) of
        NotAFile \<Rightarrow> (Inr False, r1)
      | Unreadable \<Rightarrow> (Inl StateReadFailed, r1)
      | Content None \<Rightarrow> (Inl StateParseFailed, r1)
      | Content (Some st) \<Rightarrow>
          (case state_status st of
             None \<Rightarrow> (Inr False, r1)
           | Some status \<Rightarrow> (Inr (status \<noteq> sr_status r1), adopt_state st status r1)))"

lemma refresh_live: "is_live r \<Longrightarrow> refresh_from_engine_state host files r = refresh_live files (normalize_paths_for_host host r)"
  unfolding refresh_from_engine_state_def refresh_live_def Let_def
  by (subst if_not_P) (auto simp: is_live_def adopt_state_fields cong: state_file.case_cong option.case_cong)

lemma refresh_cases:
  assumes "refresh_from_engine_state host files r = (res, r')"
  obtains (over) "\<not> is_live r" "r' = r" "res = Inr False"
  | (kept) "is_live r" "r' = normalize_paths_for_host host r"
      "res = Inr False \<or> res = Inl StateReadFailed \<or> res = Inl StateParseFailed"
  | (adopted) st s where "is_live r" "files (sr_engine_state_path r') = Content (Some st)" "state_status st = Some s"
      "r' = adopt_state st s (normalize_paths_for_host host r)" "res = Inr (s \<noteq> sr_status r)"
proof (cases "is_live r")
  case False
  with assms refresh_over show ?thesis by (intro over) auto
next
  case live: True
  let ?r1 = "normalize_paths_for_host host r"
  from assms refresh_live [OF live] have run: "refresh_live files ?r1 = (res, r')" by simp
  show ?thesis
  proof (cases "\<exists>st s. files (sr_engine_state_path ?r1) = Content (Some st) \<and> state_status st = Some s")
    case True
    then obtain st s where f: "files (sr_engine_state_path ?r1) = Content (Some st)" "state_status st = Some s" by blast
    with run have "res = Inr (s \<noteq> sr_status r)" "r' = adopt_state st s ?r1" by (auto simp: refresh_live_def)
    with f live show ?thesis by (intro adopted [of st s]) (auto simp: adopt_state_fields)
  next
    case False
    with run have "r' = ?r1 \<and> (res = Inr False \<or> res = Inl StateReadFailed \<or> res = Inl StateParseFailed)"
      by (auto simp: refresh_live_def split: state_file.splits option.splits)
    with live show ?thesis by (intro kept) auto
  qed
qed

lemma is_live_normalize [simp]: "is_live (normalize_paths_for_host host r) = is_live r"
  by (simp add: is_live_def)

lemma refresh_again:
  assumes "refresh_from_engine_state host files r = (res, r')"
  shows "refresh_from_engine_state host files r' = (case res of Inl e \<Rightarrow> Inl e | Inr _ \<Rightarrow> Inr False, r')"
  using assms
proof (cases rule: refresh_cases)
  case over
  then show ?thesis by (simp add: refresh_over)
next
  case kept
  then have "refresh_from_engine_state host files r' = (res, r')"
    using assms by (simp add: refresh_live normalize_paths_idem)
  with kept(3) show ?thesis by auto
next
  case (adopted st s)
  then show ?thesis
    by (cases "is_live r'")
      (simp_all add: refresh_over refresh_live normalize_paths_adopt refresh_live_def adopt_state_idem adopt_state_fields)
qed

text \<open>C35. What a refresh from the engine's state file may do to a record. A record that is not
  live is not touched. Of a live one it writes only the listed fields: never the supervisor's identity, the stop
  marker, the key requirement or the restart count. An engine PID is replaced together with its
  start time, both taken from the state file and belonging to the same process, and without a
  start time only when the file has none for that process. A verification once recorded
  stays. The result tells whether the status changed, and refreshing again from the same
  file changes nothing more.\<close>

theorem refresh_contract:
  assumes "refresh_from_engine_state host files r = (res, r')"
  shows "(\<not> is_live r \<longrightarrow> r' = r) \<and> keeps_the_rest r r' \<and>
    ((sr_engine_pid r', sr_engine_start_ticks r') = (sr_engine_pid r, sr_engine_start_ticks r) \<or>
     (\<exists>st e p. files (sr_engine_state_path r') = Content (Some st) \<and> sr_engine_pid r' = Some e \<and> unat p = unat e \<and>
        (u64_at st ''server_pid'' = Some p \<or> u64_at st ''pid'' = Some p) \<and>
        (\<forall>k. sr_engine_start_ticks r' = Some k \<longrightarrow> token_of st p k) \<and>
        (sr_engine_start_ticks r' = None \<longrightarrow> (\<forall>k. \<not> token_of st p k)))) \<and>
    (\<forall>v. sr_inference_verified_at_unix_ms r = Some v \<longrightarrow> sr_inference_verified_at_unix_ms r' = Some v) \<and>
    (\<forall>changed. res = Inr changed \<longrightarrow> changed = (sr_status r' \<noteq> sr_status r)) \<and>
    refresh_from_engine_state host files r' = (case res of Inl e \<Rightarrow> Inl e | Inr _ \<Rightarrow> Inr False, r')"
  using assms
proof (cases rule: refresh_cases)
  case over
  with refresh_again [OF assms] show ?thesis by (simp add: keeps_the_rest_def)
next
  case kept
  have "keeps_the_rest r r'" unfolding kept(2) by (simp add: keeps_the_rest_def normalize_paths_for_host_def)
  moreover have "(sr_engine_pid r', sr_engine_start_ticks r') = (sr_engine_pid r, sr_engine_start_ticks r)"
    "sr_inference_verified_at_unix_ms r' = sr_inference_verified_at_unix_ms r" "sr_status r' = sr_status r"
    unfolding kept(2) by (simp_all add: normalize_paths_for_host_def)
  ultimately show ?thesis using refresh_again [OF assms] kept(1,3) by auto
next
  case (adopted st s)
  have keep: "keeps_the_rest r r'"
    unfolding adopted(4) by (simp add: keeps_the_rest_def adopt_state_form normalize_paths_for_host_def)
  have verified: "sr_inference_verified_at_unix_ms r = Some v \<Longrightarrow> sr_inference_verified_at_unix_ms r' = Some v" for v
    unfolding adopted(4) by (simp add: adopt_state_fields normalize_paths_for_host_def)
  have status: "sr_status r' = s" unfolding adopted(4) by (rule adopt_state_fields)
  have "(sr_engine_pid r', sr_engine_start_ticks r') = (sr_engine_pid r, sr_engine_start_ticks r) \<or>
     (\<exists>st e p. files (sr_engine_state_path r') = Content (Some st) \<and> sr_engine_pid r' = Some e \<and> unat p = unat e \<and>
        (u64_at st ''server_pid'' = Some p \<or> u64_at st ''pid'' = Some p) \<and>
        (\<forall>k. sr_engine_start_ticks r' = Some k \<longrightarrow> token_of st p k) \<and>
        (sr_engine_start_ticks r' = None \<longrightarrow> (\<forall>k. \<not> token_of st p k)))"
  proof (cases "adopted_identity st")
    case None
    then have "(sr_engine_pid r', sr_engine_start_ticks r') = (sr_engine_pid r, sr_engine_start_ticks r)"
      unfolding adopted(4) by (simp add: adopt_state_form normalize_paths_for_host_def)
    then show ?thesis ..
  next
    case (Some et)
    then obtain e t where et: "adopted_identity st = Some (e, t)" by (cases et) auto
    then have "sr_engine_pid r' = Some e" "sr_engine_start_ticks r' = t"
      unfolding adopted(4) by (simp_all add: adopt_state_form)
    moreover obtain p where "unat p = unat e" "u64_at st ''server_pid'' = Some p \<or> u64_at st ''pid'' = Some p"
      "\<forall>k. t = Some k \<longrightarrow> token_of st p k" "t = None \<longrightarrow> (\<forall>k. \<not> token_of st p k)"
      using adopted_identity_token [OF et] by blast
    ultimately show ?thesis using adopted(2) by (intro disjI2 exI [of _ st] exI [of _ e] exI [of _ p]) simp
  qed
  with keep verified status refresh_again [OF assms] adopted(1,5) show ?thesis by simp
qed

section \<open>Writing and reading back\<close>

lemma host_after_storage: "normalize_paths_for_host host (with_storage_paths host r) = normalize_paths_for_host host r"
  by (simp add: normalize_paths_for_host_def with_storage_paths_def)


section \<open>Service ids as file names\<close>

text \<open>The components of a path, with either separator.\<close>

fun split_sep :: "string \<Rightarrow> string list" where
  "split_sep [] = [[]]"
| "split_sep (c # s) =
     (if c = CHR ''/'' \<or> c = CHR 0x5C then [] # split_sep s
      else (case split_sep s of w # ws \<Rightarrow> (c # w) # ws | [] \<Rightarrow> [[c]]))"

definition components :: "string \<Rightarrow> string list" where
  "components p = filter (\<lambda>w. w \<noteq> []) (split_sep p)"

lemma split_sep_nonempty: "split_sep s \<noteq> []"
  by (induction s) (auto split: list.split)

lemma split_sep_append:
  "c = CHR ''/'' \<or> c = CHR 0x5C \<Longrightarrow> split_sep (a @ c # b) = split_sep a @ split_sep b"
proof (induction a)
  case (Cons x a)
  then show ?case using split_sep_nonempty [of a] by (auto split: list.split)
qed auto

lemma split_sep_single: "CHR ''/'' \<notin> set s \<Longrightarrow> CHR 0x5C \<notin> set s \<Longrightarrow> split_sep s = [s]"
  by (induction s) auto

lemma main_separator_cases: "main_separator host = CHR ''/'' \<or> main_separator host = CHR 0x5C"
  by (simp add: main_separator_def)

lemma components_join:
  assumes "name \<noteq> []" "CHR ''/'' \<notin> set name" "CHR 0x5C \<notin> set name"
  shows "components (path_join host base name) = components base @ [name]"
proof (cases "base = [] \<or> last base = main_separator host")
  case True
  show ?thesis
  proof (cases base rule: rev_cases)
    case Nil
    with assms show ?thesis by (simp add: components_def path_join_def split_sep_single)
  next
    case (snoc b0 c)
    with True have c: "c = CHR ''/'' \<or> c = CHR 0x5C" and j: "path_join host base name = b0 @ c # name"
      using main_separator_cases [of host] by (auto simp: path_join_def)
    from snoc have "base = b0 @ c # []" by simp
    with split_sep_append [OF c, of b0 "[]"] split_sep_append [OF c, of b0 name] j assms show ?thesis
      by (simp add: components_def split_sep_single)
  qed
next
  case False
  then have "path_join host base name = base @ main_separator host # name" by (simp add: path_join_def)
  with split_sep_append [OF main_separator_cases, of base host name] assms show ?thesis
    by (simp add: components_def split_sep_single)
qed

lemma sanitize_byte_chars: "c \<in> set (sanitize_byte b) \<Longrightarrow> c = CHR ''-'' \<or> is_ascii_digit c \<or> is_ascii_lower c"
proof -
  have "is_ascii_upper b \<Longrightarrow> is_ascii_lower (char_of (of_char b + 32 :: nat))"
    by (auto simp: is_ascii_upper_def is_ascii_lower_def less_eq_char_def)
  then show "c \<in> set (sanitize_byte b) \<Longrightarrow> c = CHR ''-'' \<or> is_ascii_digit c \<or> is_ascii_lower c"
    by (auto simp: sanitize_byte_def to_ascii_lowercase_def is_ascii_alphanumeric_def split: if_splits)
qed

lemma generated_chars:
  assumes "c \<in> set (generate_service_id now engine model_ref)"
  shows "c = CHR ''-'' \<or> is_ascii_digit c \<or> is_ascii_lower c"
proof -
  have "set (sanitize_component s) \<subseteq> {c. c = CHR ''-'' \<or> is_ascii_digit c \<or> is_ascii_lower c}" for s
    using sanitize_byte_chars by (auto simp: sanitize_component_def)
  moreover have "set (trim_dash s) \<subseteq> set s" for s
    unfolding trim_dash_def by (metis set_dropWhileD set_rev subsetI)
  ultimately have "set (take 24 (trim_dash (sanitize_component model_ref))) \<subseteq> {c. c = CHR ''-'' \<or> is_ascii_digit c \<or> is_ascii_lower c}"
    by (meson set_take_subset subset_trans)
  moreover have "c \<in> set (show_nat now) \<Longrightarrow> is_ascii_digit c"
    using show_nat_digits [of now] by (auto simp: list_all_iff)
  ultimately show ?thesis
    using assms \<open>\<And>s. set (sanitize_component s) \<subseteq> _\<close> unfolding generate_service_id_def by auto
qed

lemma no_dot_no_traversal: "CHR ''.'' \<notin> set t \<Longrightarrow> \<not> str_contains t ''..''"
  by (induction t) (auto simp: prefix_Cons)

lemma ascii_no_control: "list_all ascii_graphic s \<Longrightarrow> \<not> has_control s"
  by (induction s rule: has_control.induct) (simp_all add: ascii_graphic_def)

lemma plain_text_accepted:
  assumes "s \<noteq> []" and plain: "\<And>c. c \<in> set s \<Longrightarrow> c = CHR ''-'' \<or> is_ascii_digit c \<or> is_ascii_lower c"
  shows "service_id_new s = Inr s"
proof -
  have c: "ascii_graphic c \<and> c \<noteq> CHR ''.'' \<and> c \<noteq> CHR ''/'' \<and> c \<noteq> CHR 0x5C"
    if "c = CHR ''-'' \<or> is_ascii_digit c \<or> is_ascii_lower c" for c
    using that by (elim disjE) (auto simp: ascii_graphic_def is_ascii_digit_def is_ascii_lower_def less_eq_char_def)
  have g: "list_all ascii_graphic s" using plain c by (simp add: list_all_iff)
  have n: "CHR ''/'' \<notin> set s" "CHR 0x5C \<notin> set s" "CHR ''.'' \<notin> set s" using plain c by blast+
  show ?thesis
    using assms(1) trim_graphic [OF g] ascii_no_control [OF g] n(1,2) no_dot_no_traversal [OF n(3)]
    by (simp add: service_id_new_def)
qed

text \<open>A service id is safe as a file name. Whatever the id validator accepts is used as it is and
  names one file directly in the services directory: the manifest and the log path have the
  components of that directory and exactly one more. Every generated id is accepted, and
  ids generated at different times are different.\<close>

theorem service_ids_safe:
  "(\<forall>v w. service_id_new v = Inr w \<longrightarrow> w = v \<and>
      components (service_manifest_path host paths v) = components (services_dir host paths) @ [v @ ''.json''] \<and>
      components (service_log_path host paths v) = components (services_dir host paths) @ [v @ ''.log'']) \<and>
   service_id_new (generate_service_id now engine model_ref) = Inr (generate_service_id now engine model_ref) \<and>
   (generate_service_id now engine model_ref = generate_service_id later engine model_ref \<longrightarrow> now = later)"
proof -
  have "w = v \<and> CHR ''/'' \<notin> set v \<and> CHR 0x5C \<notin> set v" if "service_id_new v = Inr w" for v w
    using that by (auto simp: service_id_new_def split: if_splits)
  moreover have "generate_service_id now engine model_ref \<noteq> []" by (simp add: generate_service_id_def)
  then have "service_id_new (generate_service_id now engine model_ref) = Inr (generate_service_id now engine model_ref)"
    using generated_chars by (intro plain_text_accepted) blast+
  moreover have "now = later" if "generate_service_id now engine model_ref = generate_service_id later engine model_ref"
  proof -
    from that have "show_nat now = show_nat later" by (simp add: generate_service_id_def)
    then show ?thesis by (metis digits_val_show_nat)
  qed
  ultimately show ?thesis
    by (auto simp: service_manifest_path_def service_log_path_def components_join)
qed

section \<open>Instances\<close>

definition ex_paths :: app_paths where
  "ex_paths = \<lparr>config_dir = ''/c'', data_dir = ''/d'', cache_dir = ''/k''\<rparr>"

definition ex_service :: service where
  "ex_service = service_new Linux (\<lambda>_. False) 5 ex_paths ''svc'' ''vllm'' ''m'' ''M'' ''127.0.0.1'' 8000 ''managed'' 41
     None None None"

definition ex_state :: engine_state where
  "ex_state = \<lparr>str_at = (\<lambda>k. if k = ''status'' then Some ''ready'' else None),
     u64_at = (\<lambda>k. if k = ''server_pid'' \<or> k = ''pid'' then Some 42
       else if k = ''start_ticks'' then Some 9 else None)\<rparr>"

definition ex_codec_of :: "service \<Rightarrow> manifest_codec" where
  "ex_codec_of r = \<lparr>to_json = (\<lambda>_. ''{}''), from_json = (\<lambda>b. if b = ''{}'' then Some r else None)\<rparr>"

lemma ex_service_adopts:
  "refresh_from_engine_state Linux (\<lambda>_. Content (Some ex_state)) ex_service =
     (Inr True, adopt_state ex_state ''ready'' ex_service)"
  by (simp add: refresh_from_engine_state_def ex_service_def service_new_def normalize_paths_for_host_def
    normalize_runtime_path_for_host_def normalize_runtime_path_text_for_platform_def is_windows_def
    state_status_def ex_state_def adopt_state_fields)

text \<open>A witness: the record takes over PID 42 with its start time 9.\<close>

theorem refresh_contract_witness:
  "keeps_the_rest ex_service (adopt_state ex_state ''ready'' ex_service) \<and>
   sr_engine_start_ticks (adopt_state ex_state ''ready'' ex_service) = Some 9"
  using refresh_contract [OF ex_service_adopts]
  by (simp add: adopt_state_form adopted_identity_def state_engine_pid_def ex_state_def u32_try_from_def
    state_engine_ticks_def)


text \<open>A witness.\<close>

theorem service_ids_safe_witness:
  "components (service_manifest_path Linux ex_paths ''svc-1'') = [''d'', ''services'', ''svc-1.json'']"
proof -
  have "service_id_new ''svc-1'' = Inr ''svc-1''"
    by (rule plain_text_accepted) (auto simp: is_ascii_digit_def is_ascii_lower_def less_eq_char_def)
  then have "components (service_manifest_path Linux ex_paths ''svc-1'') =
      components (services_dir Linux ex_paths) @ [''svc-1.json'']"
    using service_ids_safe [of Linux ex_paths 1 "''e''" "''m''" 2] by simp
  then show ?thesis
    by (simp add: services_dir_def path_join_def ex_paths_def main_separator_def is_windows_def components_def)
qed

end
