(* ===== verification/Registry.thy ===== *)
theory Registry
  imports Service_Record
begin

text \<open>
  The service registry, as the daemon (\<^verbatim>\<open>apps/rocmd/src/persistence.rs\<close>) and the command line
  (\<^verbatim>\<open>apps/rocm/src/services_text.rs\<close>) read it: the manifest files of the services directory, in
  the order the directory is listed in, each with its path. A manifest holds a record, or
  bytes that are no record, or cannot be read; the encoding of a record is the subject of
  \<^verbatim>\<open>Service_Record\<close>.
\<close>

datatype manifest = UnreadableFile | Garbled | Stored service

type_synonym registry = "(string \<times> manifest) list"

datatype control_error = RegistryUnreadable | NoSuchService string | InvalidId id_error | ManifestCorrupt |
  WrongServiceId | NotWritten

definition unreadable_entry :: "string \<times> manifest \<Rightarrow> bool" where
  "unreadable_entry e \<longleftrightarrow> snd e = UnreadableFile"

fun stored_record :: "string \<times> manifest \<Rightarrow> service option" where
  "stored_record (p, Stored r) = Some r"
| "stored_record (p, _) = None"

text \<open>\<^verbatim>\<open>load_managed_services\<close>: one unreadable file fails the whole load, a file that does not parse
  is skipped; \<^verbatim>\<open>sort_by_key\<close> is stable.\<close>

definition load_managed_services :: "registry \<Rightarrow> control_error + service list" where
  "load_managed_services reg =
     (if list_ex unreadable_entry reg then Inl RegistryUnreadable
      else Inr (sort_key (\<lambda>r. - int (unat (sr_created_at_unix_ms r))) (List.map_filter stored_record reg)))"

definition find_managed_service :: "registry \<Rightarrow> string \<Rightarrow> control_error + service" where
  "find_managed_service reg sid =
     bind_result (load_managed_services reg) (\<lambda>records.
       case find (\<lambda>r. sr_service_id r = sid) records of
         Some r \<Rightarrow> Inr r | None \<Rightarrow> Inl (NoSuchService sid))"

definition load_service_record ::
  "runtime_platform \<Rightarrow> app_paths \<Rightarrow> registry \<Rightarrow> string \<Rightarrow> control_error + service" where
  "load_service_record host paths reg sid =
     (case service_id_new sid of
        Inl e \<Rightarrow> Inl (InvalidId e)
      | Inr _ \<Rightarrow>
          (case map_of reg (service_manifest_path host paths sid) of
             None \<Rightarrow> Inl (NoSuchService sid)
           | Some UnreadableFile \<Rightarrow> Inl RegistryUnreadable
           | Some Garbled \<Rightarrow> Inl ManifestCorrupt
           | Some (Stored r) \<Rightarrow> if sr_service_id r \<noteq> sid then Inl WrongServiceId else Inr r))"

definition read_managed_service_manifest ::
  "runtime_platform \<Rightarrow> app_paths \<Rightarrow> registry \<Rightarrow> string \<Rightarrow> control_error + service" where
  "read_managed_service_manifest host paths reg sid =
     (case service_id_new sid of
        Inl e \<Rightarrow> Inl (InvalidId e)
      | Inr _ \<Rightarrow>
          (case map_of reg (service_manifest_path host paths sid) of
             None \<Rightarrow> Inl (NoSuchService sid)
           | Some UnreadableFile \<Rightarrow> Inl RegistryUnreadable
           | Some Garbled \<Rightarrow> Inl ManifestCorrupt
           | Some (Stored r) \<Rightarrow> Inr (normalize_paths_for_host host r)))"

text \<open>Writing replaces the file in place or adds it to the directory.\<close>

fun put :: "string \<Rightarrow> manifest \<Rightarrow> registry \<Rightarrow> registry" where
  "put p m [] = [(p, m)]"
| "put p m (e # reg) = (if fst e = p then (p, m) # reg else e # put p m reg)"

definition write_record ::
  "runtime_platform \<Rightarrow> bool \<Rightarrow> service \<Rightarrow> registry \<Rightarrow> (control_error + unit) \<times> registry" where
  "write_record host ok r reg =
     (if ok then (Inr (), put (sr_manifest_path (normalize_paths_for_host host r))
                            (Stored (with_storage_paths host (normalize_paths_for_host host r))) reg)
      else (Inl NotWritten, reg))"

definition stored_form :: "runtime_platform \<Rightarrow> service \<Rightarrow> string \<times> manifest" where
  "stored_form host r = (sr_manifest_path (normalize_paths_for_host host r),
     Stored (with_storage_paths host (normalize_paths_for_host host r)))"

lemma write_record_form:
  "write_record host ok r reg =
     (if ok then (Inr (), put (fst (stored_form host r)) (snd (stored_form host r)) reg) else (Inl NotWritten, reg))"
  by (simp add: write_record_def stored_form_def)

lemma map_of_put: "map_of (put p m reg) q = (if q = p then Some m else map_of reg q)"
  by (induction reg) auto

lemma find_single_record:
  "find_managed_service [(q, Stored x)] (sr_service_id x) = Inr x"
  by (simp add: find_managed_service_def load_managed_services_def unreadable_entry_def map_filter_simps)

end
