(* ===== verification/Service_Readiness.thy ===== *)
theory Service_Readiness
  imports Registry
begin

text \<open>
  Whether a managed service serves: the probe with its latch and throttle
  (\<^verbatim>\<open>crates/rocm-core/src/endpoint_readiness.rs\<close>) and the liveness refresh of the command line
  with the deferred cleanup of a stop (\<^verbatim>\<open>apps/rocm/src/managed_service_status.rs\<close>), and the
  loaders that apply them to the registry.

  The two HTTP requests, the process table and the clock are arguments: \<^verbatim>\<open>lists\<close> is whether the
  endpoint lists the model, \<^verbatim>\<open>answers\<close> whether a one-token request came back below 500 (each
  false when the request fails). Key files are the set of service ids that have one.
\<close>

datatype endpoint_readiness = Unreachable | Listing | Serving

record readiness_env =
  re_host :: runtime_platform
  re_now :: u128
  re_later :: u128
  re_lists :: "service \<Rightarrow> bool"
  re_answers :: "service \<Rightarrow> bool"
  re_running :: "u32 \<Rightarrow> bool"
  re_state_files :: "string \<Rightarrow> state_file"
  re_write_ok :: "service \<Rightarrow> bool"

text \<open>15 seconds.\<close>

definition INFERENCE_PROBE_RETRY_INTERVAL_MS :: u64 where
  "INFERENCE_PROBE_RETRY_INTERVAL_MS = 15000"

text \<open>\<^verbatim>\<open>now as u64\<close> keeps the low 64 bits.\<close>

definition as_u64 :: "u128 \<Rightarrow> u64" where
  "as_u64 w = ucast w"

text \<open>Readiness and whether the record changed; the last component tells whether an inference
  request was sent.\<close>

definition managed_service_endpoint_readiness ::
  "readiness_env \<Rightarrow> service \<Rightarrow> (endpoint_readiness \<times> bool) \<times> service \<times> bool" where
  "managed_service_endpoint_readiness env r =
     (if \<not> re_lists env r then ((Unreachable, False), r, False)
      else if sr_inference_verified_at_unix_ms r \<noteq> None then ((Serving, False), r, False)
      else
        let now = as_u64 (re_now env) in
        if (case sr_inference_probe_attempted_at_unix_ms r of
              Some attempted \<Rightarrow> saturating_sub now attempted < INFERENCE_PROBE_RETRY_INTERVAL_MS | None \<Rightarrow> False)
        then ((Listing, False), r, False)
        else
          let r1 = r\<lparr>sr_inference_probe_attempted_at_unix_ms := Some now\<rparr> in
          if \<not> re_answers env r1 then ((Listing, True), r1, True)
          else ((Serving, True), r1\<lparr>sr_inference_verified_at_unix_ms := Some (as_u64 (re_later env))\<rparr>, True))"

section \<open>The liveness refresh\<close>

definition recorded_service_pids :: "service \<Rightarrow> u32 list" where
  "recorded_service_pids r =
     filter (\<lambda>p. p \<noteq> 0) ((case sr_engine_pid r of Some p \<Rightarrow> [p] | None \<Rightarrow> []) @ [sr_supervisor_pid r])"

definition settle_pending_stop_key_cleanup ::
  "readiness_env \<Rightarrow> service \<Rightarrow> string set \<Rightarrow> bool \<times> service \<times> string set" where
  "settle_pending_stop_key_cleanup env r keys =
     (if sr_stop_requested_unix_ms r = None then (False, r, keys)
      else if list_ex (re_running env) (recorded_service_pids r) then (False, r, keys)
      else (True, r\<lparr>sr_stop_requested_unix_ms := None\<rparr>, keys - {sr_service_id r}))"

text \<open>The step after the probe, by its readiness.\<close>

definition apply_readiness ::
  "readiness_env \<Rightarrow> bool \<Rightarrow> endpoint_readiness \<times> bool \<Rightarrow> service \<Rightarrow> bool \<times> service" where
  "apply_readiness env settled outcome r =
     (case fst outcome of
        Serving \<Rightarrow>
          (if sr_status r = ''running'' then (True, r\<lparr>sr_status := ''ready''\<rparr>) else (settled \<or> snd outcome, r))
      | Listing \<Rightarrow> (settled \<or> snd outcome, r)
      | Unreachable \<Rightarrow>
          (let tracked = recorded_service_pids r;
               has_live = list_ex (re_running env) tracked
           in if tracked \<noteq> [] \<and> \<not> has_live
              then (if sr_status r \<noteq> ''stopped'' then (True, r\<lparr>sr_status := ''stopped''\<rparr>) else (settled, r))
              else if sr_status r \<in> {''ready'', ''running''}
              then (let new_status = (if has_live then ''starting'' else ''stopped'')
                    in if sr_status r \<noteq> new_status then (True, r\<lparr>sr_status := new_status\<rparr>) else (settled, r))
              else (settled, r)))"

definition refresh_managed_service_runtime_liveness ::
  "readiness_env \<Rightarrow> service \<Rightarrow> string set \<Rightarrow> bool \<times> service \<times> string set" where
  "refresh_managed_service_runtime_liveness env r0 keys0 =
     (let (settled, r, keys) = settle_pending_stop_key_cleanup env r0 keys0 in
      if \<not> is_live r then (settled, r, keys)
      else
        let (outcome, r1) = (if sr_status r \<in> {''ready'', ''running''}
                             then (let (oc, r1, _) = managed_service_endpoint_readiness env r in (oc, r1))
                             else ((Unreachable, False), r));
            (changed, r2) = apply_readiness env settled outcome r1
        in (changed, r2, keys))"

section \<open>Loading with a refresh\<close>

definition refresh_loaded ::
  "readiness_env \<Rightarrow> service \<Rightarrow> registry \<Rightarrow> string set \<Rightarrow> service \<times> registry \<times> string set" where
  "refresh_loaded env r reg keys =
     (let (res, r1) = refresh_from_engine_state (re_host env) (re_state_files env) r;
          refreshed_from_engine = (case res of Inr b \<Rightarrow> b | Inl _ \<Rightarrow> False);
          (refreshed_liveness, r2, keys2) = refresh_managed_service_runtime_liveness env r1 keys;
          reg2 = (if refreshed_from_engine \<or> refreshed_liveness
                  then snd (write_record (re_host env) (re_write_ok env r2) r2 reg) else reg)
      in (r2, reg2, keys2))"

definition load_managed_service ::
  "readiness_env \<Rightarrow> app_paths \<Rightarrow> string \<Rightarrow> registry \<Rightarrow> string set \<Rightarrow> (control_error + service) \<times> registry \<times> string set" where
  "load_managed_service env paths sid reg keys =
     (case read_managed_service_manifest (re_host env) paths reg sid of
        Inl e \<Rightarrow> (Inl e, reg, keys)
      | Inr r \<Rightarrow>
          (let (r2, reg2, keys2) = refresh_loaded env r reg keys
           in if sr_service_id r2 \<noteq> sid then (Inl WrongServiceId, reg2, keys2) else (Inr r2, reg2, keys2)))"

text \<open>The loader of all services: one pass over the files as they were listed, each record refreshed
  and written back before the next is read.\<close>

fun refresh_entries ::
  "readiness_env \<Rightarrow> (string \<times> manifest) list \<Rightarrow> registry \<Rightarrow> string set \<Rightarrow>
     (control_error + service list) \<times> registry \<times> string set" where
  "refresh_entries env [] reg keys = (Inr [], reg, keys)"
| "refresh_entries env ((p, UnreadableFile) # es) reg keys = (Inl RegistryUnreadable, reg, keys)"
| "refresh_entries env ((p, Garbled) # es) reg keys = refresh_entries env es reg keys"
| "refresh_entries env ((p, Stored r) # es) reg keys =
     (let (r2, reg2, keys2) = refresh_loaded env (normalize_paths_for_host (re_host env) r) reg keys;
          (res, reg3, keys3) = refresh_entries env es reg2 keys2
      in (map_sum (\<lambda>e. e) (\<lambda>rs. r2 # rs) res, reg3, keys3))"

definition load_managed_services_refreshed ::
  "readiness_env \<Rightarrow> registry \<Rightarrow> string set \<Rightarrow> (control_error + service list) \<times> registry \<times> string set" where
  "load_managed_services_refreshed env reg keys =
     (let (res, reg2, keys2) = refresh_entries env reg reg keys
      in (map_sum (\<lambda>e. e) (sort_key (\<lambda>r. - int (unat (sr_created_at_unix_ms r)))) res, reg2, keys2))"

section \<open>What a refresh may conclude\<close>

lemma probe_contract:
  assumes "managed_service_endpoint_readiness env r = ((readiness, changed), r', sent)"
  shows "(readiness = Serving \<longrightarrow> re_lists env r \<and> sr_inference_verified_at_unix_ms r' \<noteq> None)"
    and "sr_inference_verified_at_unix_ms r \<noteq> None \<Longrightarrow> r' = r \<and> \<not> sent"
    and "sent \<Longrightarrow> sr_inference_probe_attempted_at_unix_ms r' = Some (as_u64 (re_now env)) \<and>
      (\<forall>t. sr_inference_probe_attempted_at_unix_ms r = Some t \<longrightarrow>
        INFERENCE_PROBE_RETRY_INTERVAL_MS \<le> saturating_sub (as_u64 (re_now env)) t)"
    and "\<not> changed \<Longrightarrow> r' = r"
    and "\<exists>a v. r' = r\<lparr>sr_inference_probe_attempted_at_unix_ms := a, sr_inference_verified_at_unix_ms := v\<rparr>"
proof -
  have same: "r = r\<lparr>sr_inference_probe_attempted_at_unix_ms := sr_inference_probe_attempted_at_unix_ms r,
      sr_inference_verified_at_unix_ms := sr_inference_verified_at_unix_ms r\<rparr>" by simp
  show "(readiness = Serving \<longrightarrow> re_lists env r \<and> sr_inference_verified_at_unix_ms r' \<noteq> None)"
    "sr_inference_verified_at_unix_ms r \<noteq> None \<Longrightarrow> r' = r \<and> \<not> sent" "\<not> changed \<Longrightarrow> r' = r"
    using assms by (auto simp: managed_service_endpoint_readiness_def Let_def split: if_splits)
  show "sent \<Longrightarrow> sr_inference_probe_attempted_at_unix_ms r' = Some (as_u64 (re_now env)) \<and>
      (\<forall>t. sr_inference_probe_attempted_at_unix_ms r = Some t \<longrightarrow>
        INFERENCE_PROBE_RETRY_INTERVAL_MS \<le> saturating_sub (as_u64 (re_now env)) t)"
    using assms by (auto simp: managed_service_endpoint_readiness_def Let_def split: if_splits)
  have "r' = r \<or> r' = r\<lparr>sr_inference_probe_attempted_at_unix_ms := Some (as_u64 (re_now env))\<rparr> \<or>
      r' = r\<lparr>sr_inference_probe_attempted_at_unix_ms := Some (as_u64 (re_now env)),
        sr_inference_verified_at_unix_ms := Some (as_u64 (re_later env))\<rparr>"
    using assms by (auto simp: managed_service_endpoint_readiness_def Let_def split: if_splits)
  moreover have "r\<lparr>sr_inference_probe_attempted_at_unix_ms := a\<rparr> = r\<lparr>sr_inference_probe_attempted_at_unix_ms := a,
      sr_inference_verified_at_unix_ms := sr_inference_verified_at_unix_ms r\<rparr>" for a by simp
  ultimately show "\<exists>a v. r' = r\<lparr>sr_inference_probe_attempted_at_unix_ms := a, sr_inference_verified_at_unix_ms := v\<rparr>"
    using same by metis
qed

lemma settle_cases:
  assumes "settle_pending_stop_key_cleanup env r keys = (settled, r', keys')"
  shows "(\<not> settled \<and> r' = r \<and> keys' = keys) \<or>
    (settled \<and> sr_stop_requested_unix_ms r \<noteq> None \<and> \<not> list_ex (re_running env) (recorded_service_pids r) \<and>
      r' = r\<lparr>sr_stop_requested_unix_ms := None\<rparr> \<and> keys' = keys - {sr_service_id r})"
  using assms by (auto simp: settle_pending_stop_key_cleanup_def split: if_splits)

text \<open>The ways through the last step; the last two are those that change the status downwards.\<close>

lemma apply_readiness_unreachable:
  assumes "fst outcome = Unreachable"
  shows "apply_readiness env settled outcome r =
    (if recorded_service_pids r \<noteq> [] \<and> \<not> list_ex (re_running env) (recorded_service_pids r)
     then (if sr_status r \<noteq> ''stopped'' then (True, r\<lparr>sr_status := ''stopped''\<rparr>) else (settled, r))
     else if sr_status r \<in> {''ready'', ''running''}
     then (if list_ex (re_running env) (recorded_service_pids r) then (True, r\<lparr>sr_status := ''starting''\<rparr>)
           else (True, r\<lparr>sr_status := ''stopped''\<rparr>))
     else (settled, r))"
proof -
  have "sr_status r \<noteq> ''starting'' \<and> sr_status r \<noteq> ''stopped''" if "sr_status r \<in> {''ready'', ''running''}" using that by auto
  then show ?thesis unfolding apply_readiness_def assms Let_def endpoint_readiness.case by presburger
qed

lemma apply_readiness_cases:
  assumes "apply_readiness env settled outcome r = (changed, r')"
  shows "(r' = r \<and> changed = (settled \<or> snd outcome \<and> fst outcome \<noteq> Unreachable)) \<or>
    (fst outcome = Serving \<and> r' = r\<lparr>sr_status := ''ready''\<rparr> \<and> changed) \<or>
    (fst outcome = Unreachable \<and> r' = r\<lparr>sr_status := ''starting''\<rparr> \<and> changed) \<or>
    (fst outcome = Unreachable \<and> r' = r\<lparr>sr_status := ''stopped''\<rparr> \<and> changed \<and>
      \<not> list_ex (re_running env) (recorded_service_pids r))"
proof (cases "fst outcome = Unreachable")
  case True
  show ?thesis using assms unfolding apply_readiness_unreachable [OF True] by (simp only: True split: if_splits) auto
next
  case False
  then show ?thesis
    using assms by (cases "fst outcome") (auto simp: apply_readiness_def split: if_splits)
qed

lemma recorded_pids_status [simp]:
  "recorded_service_pids (r\<lparr>sr_status := st\<rparr>) = recorded_service_pids r"
  "recorded_service_pids (r\<lparr>sr_stop_requested_unix_ms := m\<rparr>) = recorded_service_pids r"
  "recorded_service_pids (r\<lparr>sr_inference_probe_attempted_at_unix_ms := a\<rparr>) = recorded_service_pids r"
  "recorded_service_pids (r\<lparr>sr_inference_verified_at_unix_ms := v\<rparr>) = recorded_service_pids r"
  by (simp_all add: recorded_service_pids_def)

text \<open>A record with the four fields a refresh may change.\<close>

definition refreshed :: "service \<Rightarrow> string \<Rightarrow> u128 option \<Rightarrow> u64 option \<Rightarrow> u64 option \<Rightarrow> service" where
  "refreshed r st m a v = r\<lparr>sr_status := st, sr_stop_requested_unix_ms := m,
      sr_inference_probe_attempted_at_unix_ms := a, sr_inference_verified_at_unix_ms := v\<rparr>"

lemma refreshed_fields [simp]:
  "sr_status (refreshed r st m a v) = st" "sr_stop_requested_unix_ms (refreshed r st m a v) = m"
  "sr_inference_verified_at_unix_ms (refreshed r st m a v) = v" "recorded_service_pids (refreshed r st m a v) = recorded_service_pids r"
  "(refreshed r st m a v)\<lparr>sr_status := st'\<rparr> = refreshed r st' m a v"
  "(refreshed r st m a v)\<lparr>sr_stop_requested_unix_ms := m'\<rparr> = refreshed r st m' a v"
  "(refreshed r st m a v)\<lparr>sr_inference_probe_attempted_at_unix_ms := a', sr_inference_verified_at_unix_ms := v'\<rparr> = refreshed r st m a' v'"
  by (simp_all add: refreshed_def recorded_service_pids_def)

lemma refreshed_id: "refreshed r (sr_status r) (sr_stop_requested_unix_ms r) (sr_inference_probe_attempted_at_unix_ms r)
    (sr_inference_verified_at_unix_ms r) = r"
  by (simp add: refreshed_def)

lemma probe_refreshed:
  assumes "(outcome, r2, sent) = (if sr_status r1 \<in> {''ready'', ''running''}
        then managed_service_endpoint_readiness env r1 else ((Unreachable, False), r1, False))"
    and "r1 = refreshed r st m a v"
  shows "\<exists>a' v'. r2 = refreshed r st m a' v' \<and> (fst outcome = Serving \<longrightarrow> v' \<noteq> None) \<and> (v \<noteq> None \<longrightarrow> v' = v) \<and>
    (\<not> snd outcome \<or> fst outcome = Unreachable \<longrightarrow> r2 = r1)"
proof (cases "sr_status r1 \<in> {''ready'', ''running''}")
  case True
  with assms(1) have m: "managed_service_endpoint_readiness env r1 = ((fst outcome, snd outcome), r2, sent)" by simp
  have un: "fst outcome = Unreachable \<Longrightarrow> r2 = r1"
    using m by (auto simp: managed_service_endpoint_readiness_def Let_def split: if_splits)
  obtain a' v' where r2: "r2 = refreshed r st m a' v'" using probe_contract(5) [OF m] assms(2) by auto
  have latch: "v \<noteq> None \<longrightarrow> v' = v"
    using probe_contract(2) [OF m] r2 assms(2) by (metis refreshed_fields(3))
  have serving: "fst outcome = Serving \<longrightarrow> v' \<noteq> None"
    using probe_contract(1) [OF m] r2 by simp
  show ?thesis using r2 latch serving un probe_contract(4) [OF m] by blast
next
  case False
  with assms(1) have "r2 = r1" "outcome = (Unreachable, False)" by simp_all
  with assms(2) show ?thesis by auto
qed

text \<open>What the liveness refresh may conclude. It changes the status, the stop request and the two
  times of the inference probe, nothing else, and says so when it changed anything. The key file
  goes, together with the stop request, only when a stop was requested and no recorded process
  runs: a service that crashed keeps its key. A service is newly called stopped only when none of
  its recorded processes runs, and newly ready only when the endpoint listed the model and an
  inference was verified, now or before; a verification is never withdrawn.\<close>

theorem liveness_refresh_contract:
  assumes "refresh_managed_service_runtime_liveness env r keys = (changed, r', keys')"
  shows "(\<exists>st m a v. r' = r\<lparr>sr_status := st, sr_stop_requested_unix_ms := m,
      sr_inference_probe_attempted_at_unix_ms := a, sr_inference_verified_at_unix_ms := v\<rparr>) \<and>
    (\<not> changed \<longrightarrow> r' = r \<and> keys' = keys) \<and>
    (keys' = keys \<and> sr_stop_requested_unix_ms r' = sr_stop_requested_unix_ms r \<or>
     keys' = keys - {sr_service_id r} \<and> sr_stop_requested_unix_ms r \<noteq> None \<and> sr_stop_requested_unix_ms r' = None \<and>
       (\<forall>p \<in> set (recorded_service_pids r). \<not> re_running env p)) \<and>
    (sr_status r' = ''stopped'' \<longrightarrow> sr_status r \<noteq> ''stopped'' \<longrightarrow> (\<forall>p \<in> set (recorded_service_pids r). \<not> re_running env p)) \<and>
    (sr_status r' = ''ready'' \<longrightarrow> sr_status r \<noteq> ''ready'' \<longrightarrow> sr_inference_verified_at_unix_ms r' \<noteq> None) \<and>
    (sr_inference_verified_at_unix_ms r \<noteq> None \<longrightarrow>
      sr_inference_verified_at_unix_ms r' = sr_inference_verified_at_unix_ms r)"
proof -
  obtain settled r1 keys1 where s: "settle_pending_stop_key_cleanup env r keys = (settled, r1, keys1)" by (metis prod_cases3)
  let ?a = "sr_inference_probe_attempted_at_unix_ms r" and ?v = "sr_inference_verified_at_unix_ms r"
  obtain m where r1: "r1 = refreshed r (sr_status r) m ?a ?v"
    and m: "m = sr_stop_requested_unix_ms r \<and> \<not> settled \<and> keys1 = keys \<or>
      m = None \<and> settled \<and> keys1 = keys - {sr_service_id r} \<and> sr_stop_requested_unix_ms r \<noteq> None \<and>
        (\<forall>p \<in> set (recorded_service_pids r). \<not> re_running env p)"
  proof (cases settled)
    case True
    with settle_cases [OF s] have "r1 = r\<lparr>sr_stop_requested_unix_ms := None\<rparr>" "keys1 = keys - {sr_service_id r}"
      "sr_stop_requested_unix_ms r \<noteq> None" "\<forall>p \<in> set (recorded_service_pids r). \<not> re_running env p"
      by (auto simp: list_ex_iff)
    with True that [of None] show ?thesis by (simp add: refreshed_def)
  next
    case False
    with settle_cases [OF s] have "r1 = r" "keys1 = keys" by auto
    with False that [of "sr_stop_requested_unix_ms r"] show ?thesis by (simp add: refreshed_id)
  qed
  have conclude: ?thesis
    if "r' = refreshed r st m a v" "keys' = keys1" "\<not> changed \<longrightarrow> r' = r1 \<and> \<not> settled"
      "st = ''stopped'' \<longrightarrow> sr_status r \<noteq> ''stopped'' \<longrightarrow> (\<forall>p \<in> set (recorded_service_pids r). \<not> re_running env p)"
      "st = ''ready'' \<longrightarrow> sr_status r \<noteq> ''ready'' \<longrightarrow> v \<noteq> None" "?v \<noteq> None \<longrightarrow> v = ?v" for st a v
  proof -
    have "\<not> changed \<longrightarrow> r' = r \<and> keys' = keys" using that(2,3) m r1 refreshed_id [of r] by auto
    moreover have "\<exists>st m a v. r' = r\<lparr>sr_status := st, sr_stop_requested_unix_ms := m,
        sr_inference_probe_attempted_at_unix_ms := a, sr_inference_verified_at_unix_ms := v\<rparr>"
      using that(1) unfolding refreshed_def by blast
    ultimately show ?thesis using that(2,4-6) m unfolding that(1) refreshed_fields by blast
  qed
  show ?thesis
  proof (cases "is_live r1")
    case False
    with assms s have "r' = r1" "keys' = keys1" "changed = settled"
      by (simp_all add: refresh_managed_service_runtime_liveness_def)
    with r1 show ?thesis by (intro conclude [of "sr_status r" ?a ?v]) auto
  next
    case True
    obtain outcome r2 sent where probe: "(outcome, r2, sent) = (if sr_status r1 \<in> {''ready'', ''running''}
        then managed_service_endpoint_readiness env r1 else ((Unreachable, False), r1, False))" by (metis prod_cases3)
    with assms s True have run: "apply_readiness env settled outcome r2 = (changed, r')" "keys' = keys1"
      by (auto simp: refresh_managed_service_runtime_liveness_def Let_def split: prod.splits if_splits)
    obtain a v where r2: "r2 = refreshed r (sr_status r) m a v" "fst outcome = Serving \<longrightarrow> v \<noteq> None" "?v \<noteq> None \<longrightarrow> v = ?v"
      "\<not> snd outcome \<or> fst outcome = Unreachable \<longrightarrow> r2 = r1"
      using probe_refreshed [OF probe r1] by blast
    have pids: "recorded_service_pids r2 = recorded_service_pids r" by (simp add: r2(1))
    from apply_readiness_cases [OF run(1)] show ?thesis
    proof (elim disjE conjE)
      assume "r' = r2" "changed = (settled \<or> snd outcome \<and> fst outcome \<noteq> Unreachable)"
      with r2 run(2) show ?thesis by (intro conclude [of "sr_status r" a v]) auto
    next
      assume "fst outcome = Serving" "r' = r2\<lparr>sr_status := ''ready''\<rparr>" "changed"
      with r2 run(2) show ?thesis by (intro conclude [of "''ready''" a v]) auto
    next
      assume "r' = r2\<lparr>sr_status := ''starting''\<rparr>" "changed"
      with r2 run(2) show ?thesis by (intro conclude [of "''starting''" a v]) auto
    next
      assume "r' = r2\<lparr>sr_status := ''stopped''\<rparr>" "changed" "\<not> list_ex (re_running env) (recorded_service_pids r2)"
      with r2 run(2) pids show ?thesis by (intro conclude [of "''stopped''" a v]) (auto simp: list_ex_iff)
    qed
  qed
qed

section \<open>Instances\<close>

text \<open>A service whose stop was requested and whose process is gone.\<close>

definition ex_readiness :: readiness_env where
  "ex_readiness = \<lparr>re_host = Linux, re_now = 50, re_later = 60, re_lists = (\<lambda>r. False), re_answers = (\<lambda>r. False),
     re_running = (\<lambda>p. False), re_state_files = (\<lambda>p. Content None), re_write_ok = (\<lambda>r. True)\<rparr>"

definition ex_stopping :: service where
  "ex_stopping = ex_service\<lparr>sr_stop_requested_unix_ms := Some 9\<rparr>"

lemma ex_refresh:
  "\<exists>r'. refresh_managed_service_runtime_liveness ex_readiness ex_stopping {''svc''} = (True, r', {}) \<and> sr_status r' = ''stopped''"
  by (simp add: refresh_managed_service_runtime_liveness_def settle_pending_stop_key_cleanup_def ex_readiness_def ex_stopping_def
    ex_service_def service_new_def recorded_service_pids_def is_live_def apply_readiness_def Let_def)

text \<open>A witness: the key went with the request, and no recorded process was running.\<close>

theorem liveness_refresh_contract_witness:
  "\<exists>r'. refresh_managed_service_runtime_liveness ex_readiness ex_stopping {''svc''} = (True, r', {}) \<and>
     sr_stop_requested_unix_ms r' = None"
proof -
  obtain r' where run: "refresh_managed_service_runtime_liveness ex_readiness ex_stopping {''svc''} = (True, r', {})"
    using ex_refresh by blast
  with liveness_refresh_contract [OF run] show ?thesis by auto
qed

end
