(* ===== verification/Service_Control.thy ===== *)
theory Service_Control
  imports Service_Readiness Proc_Lifecycle
begin

text \<open>
  Stopping a managed service: \<^verbatim>\<open>apps/rocmd/src/service.rs\<close> (the daemon's stop),
  \<^verbatim>\<open>apps/rocm/src/service_control.rs\<close> (the stop of \<^verbatim>\<open>rocm services stop\<close>). What other processes write
  to the registry while a stop waits is a function on registries, an argument.

  The process terminator is the interface the two stops rely on: the locale
  \<^verbatim>\<open>terminator\<close>, interpreted on \<^verbatim>\<open>terminate_verified\<close>.
\<close>

section \<open>Terminating the recorded processes\<close>

type_synonym 's terminate_fn = "'s \<Rightarrow> process_identity \<Rightarrow> termination_outcome \<times> 's"

record pid_entry =
  pe_pid :: u32
  pe_role :: string
  pe_ticks :: "u64 option"

text \<open>The work list: the supervisor and the engine, one entry when they are one process.\<close>

definition recorded_entries :: "service \<Rightarrow> pid_entry list" where
  "recorded_entries r =
     (let sup = (if sr_supervisor_pid r = 0 then []
                 else [\<lparr>pe_pid = sr_supervisor_pid r, pe_role = ''supervisor'', pe_ticks = sr_supervisor_start_ticks r\<rparr>])
      in case sr_engine_pid r of
           None \<Rightarrow> sup
         | Some p \<Rightarrow>
             if p = 0 then sup
             else if sup \<noteq> [] \<and> p = sr_supervisor_pid r
             then [\<lparr>pe_pid = p, pe_role = ''supervisor_and_engine'',
                    pe_ticks = (if sr_supervisor_start_ticks r = None then sr_engine_start_ticks r
                                else sr_supervisor_start_ticks r)\<rparr>]
             else sup @ [\<lparr>pe_pid = p, pe_role = ''engine'', pe_ticks = sr_engine_start_ticks r\<rparr>])"

fun outcome_str :: "termination_outcome \<Rightarrow> string" where
  "outcome_str AlreadyGone = ''already_gone''"
| "outcome_str IdentityMismatch = ''identity_mismatch''"
| "outcome_str Unverified = ''unverified''"
| "outcome_str Graceful = ''graceful''"
| "outcome_str Forced = ''forced''"
| "outcome_str TimedOut = ''timed_out''"

record pid_stop =
  ps_pid :: u32
  ps_role :: string
  ps_outcome :: string
  ps_signaled :: bool
  ps_forced :: bool
  ps_stopped :: bool

definition entry_identity :: "pid_entry \<Rightarrow> process_identity" where
  "entry_identity e = \<lparr>pid = pe_pid e, start_ticks = pe_ticks e\<rparr>"

fun terminate_entries :: "u32 \<Rightarrow> 's terminate_fn \<Rightarrow> 's \<Rightarrow> pid_entry list \<Rightarrow> pid_stop list \<times> 's" where
  "terminate_entries own terminate s [] = ([], s)"
| "terminate_entries own terminate s (e # es) =
     (if pe_pid e = own
      then (let (stops, s2) = terminate_entries own terminate s es
            in (\<lparr>ps_pid = pe_pid e, ps_role = pe_role e, ps_outcome = ''self'', ps_signaled = False,
                 ps_forced = False, ps_stopped = True\<rparr> # stops, s2))
      else (let (oc, s1) = terminate s (entry_identity e);
                (stops, s2) = terminate_entries own terminate s1 es
            in (\<lparr>ps_pid = pe_pid e, ps_role = pe_role e, ps_outcome = outcome_str oc,
                 ps_signaled = (oc \<in> {Graceful, Forced, TimedOut}), ps_forced = (oc \<in> {Forced, TimedOut}),
                 ps_stopped = stopped oc\<rparr> # stops, s2)))"

definition terminate_recorded_service_pids :: "u32 \<Rightarrow> 's terminate_fn \<Rightarrow> 's \<Rightarrow> service \<Rightarrow> pid_stop list \<times> 's" where
  "terminate_recorded_service_pids own terminate s r = terminate_entries own terminate s (recorded_entries r)"

section \<open>The daemon's stop\<close>

record stop_response =
  rsp_stopped :: bool
  rsp_graceful :: bool

type_synonym engine_reply = "string + stop_response"

text \<open>The surroundings of one stop: its clock, what the engine answers, whether each of the two
  writes succeeds, what others do to the registry between them, and this process's own PID.\<close>

record stop_env =
  se_host :: runtime_platform
  se_now :: u128
  se_own_pid :: u32
  se_engine_stop :: "service \<Rightarrow> engine_reply"
  se_first_write :: bool
  se_last_write :: bool
  se_meanwhile :: "registry \<Rightarrow> registry"

record stop_report =
  rp_service :: service
  rp_signaled_pids :: "u32 list"
  rp_force_signaled_pids :: "u32 list"
  rp_skipped_pids :: "u32 list"
  rp_pid_outcomes :: "(u32 \<times> string \<times> string) list"
  rp_engine_stop :: "engine_reply option"
  rp_stopped :: bool

definition is_ok :: "'e + 'a \<Rightarrow> bool" where
  "is_ok r = (case r of Inl _ \<Rightarrow> False | Inr _ \<Rightarrow> True)"

definition clear_recorded_pids :: "service \<Rightarrow> service" where
  "clear_recorded_pids r =
     r\<lparr>sr_supervisor_pid := 0, sr_supervisor_start_ticks := None, sr_engine_pid := None, sr_engine_start_ticks := None\<rparr>"

definition apply_verdict :: "bool \<Rightarrow> u128 \<Rightarrow> service \<Rightarrow> service" where
  "apply_verdict all_stopped now r =
     (if all_stopped
      then clear_recorded_pids (r\<lparr>sr_status := ''stopped'', sr_stop_requested_unix_ms := None\<rparr>)
      else r\<lparr>sr_stop_requested_unix_ms := Some now\<rparr>)"

definition stop_verdict :: "service \<Rightarrow> service \<Rightarrow> engine_reply option \<Rightarrow> pid_stop list \<Rightarrow> bool" where
  "stop_verdict stopping current reply stops \<longleftrightarrow>
     list_all ps_stopped stops \<and> names_same_processes stopping current \<and>
     (\<not> engine_stop_decides_confirmation (sr_engine stopping) \<or>
      (case reply of Some r \<Rightarrow> is_ok r | None \<Rightarrow> False))"

text \<open>The key files by service id; the stop removes its own only when confirmed.\<close>

definition stop_managed_service ::
  "stop_env \<Rightarrow> 's terminate_fn \<Rightarrow> 's \<Rightarrow> string \<Rightarrow> registry \<Rightarrow> string set \<Rightarrow>
     (control_error + stop_report) \<times> registry \<times> string set \<times> 's" where
  "stop_managed_service env terminate s sid reg keys =
     (case find_managed_service reg sid of
        Inl e \<Rightarrow> (Inl e, reg, keys, s)
      | Inr found \<Rightarrow>
          (let stopping = found\<lparr>sr_stop_requested_unix_ms := Some (se_now env)\<rparr> in
           case write_record (se_host env) (se_first_write env) stopping reg of
             (Inl e, reg1) \<Rightarrow> (Inl e, reg1, keys, s)
           | (Inr _, reg1) \<Rightarrow>
               (let reply = (if sr_engine stopping \<noteq> ''lemonade'' then Some (se_engine_stop env stopping) else None);
                    (stops, s2) = terminate_recorded_service_pids (se_own_pid env) terminate s stopping;
                    reg2 = se_meanwhile env reg1
                in case find_managed_service reg2 sid of
                     Inl e \<Rightarrow> (Inl e, reg2, keys, s2)
                   | Inr current \<Rightarrow>
                       (let all_stopped = stop_verdict stopping current reply stops;
                            final = apply_verdict all_stopped (se_now env) current
                        in case write_record (se_host env) (se_last_write env) final reg2 of
                             (Inl e, reg3) \<Rightarrow> (Inl e, reg3, keys, s2)
                           | (Inr _, reg3) \<Rightarrow>
                               (Inr \<lparr>rp_service = final,
                                     rp_signaled_pids = map ps_pid (filter ps_signaled stops),
                                     rp_force_signaled_pids = map ps_pid (filter ps_forced stops),
                                     rp_skipped_pids = map ps_pid (filter (\<lambda>st. \<not> ps_signaled st) stops),
                                     rp_pid_outcomes = map (\<lambda>st. (ps_pid st, ps_role st, ps_outcome st)) stops,
                                     rp_engine_stop = reply, rp_stopped = all_stopped\<rparr>,
                                reg3, if all_stopped then keys - {sid} else keys, s2)))))"

section \<open>The stop of the command line\<close>

text \<open>\<^verbatim>\<open>rocm services stop\<close> leaves its own PID out of the work list and folds the verdict while it
  terminates.\<close>

record stop_termination =
  tm_signaled_pids :: "u32 list"
  tm_all_stopped :: bool
  tm_pid_outcomes :: "(u32 \<times> string \<times> termination_outcome) list"

definition cli_recorded_entries :: "u32 \<Rightarrow> service \<Rightarrow> pid_entry list" where
  "cli_recorded_entries own r =
     (let sup = (if sr_supervisor_pid r = 0 \<or> sr_supervisor_pid r = own then []
                 else [\<lparr>pe_pid = sr_supervisor_pid r, pe_role = ''supervisor'', pe_ticks = sr_supervisor_start_ticks r\<rparr>])
      in case sr_engine_pid r of
           None \<Rightarrow> sup
         | Some p \<Rightarrow>
             if p = 0 \<or> p = own then sup
             else if sup \<noteq> [] \<and> p = sr_supervisor_pid r
             then [\<lparr>pe_pid = p, pe_role = ''supervisor_and_engine'',
                    pe_ticks = (if sr_supervisor_start_ticks r = None then sr_engine_start_ticks r
                                else sr_supervisor_start_ticks r)\<rparr>]
             else sup @ [\<lparr>pe_pid = p, pe_role = ''engine'', pe_ticks = sr_engine_start_ticks r\<rparr>])"

fun cli_terminate_entries :: "'s terminate_fn \<Rightarrow> 's \<Rightarrow> pid_entry list \<Rightarrow> stop_termination \<Rightarrow> stop_termination \<times> 's" where
  "cli_terminate_entries terminate s [] acc = (acc, s)"
| "cli_terminate_entries terminate s (e # es) acc =
     (let (oc, s1) = terminate s (entry_identity e)
      in cli_terminate_entries terminate s1 es
           \<lparr>tm_signaled_pids = tm_signaled_pids acc @ (if oc \<in> {Graceful, Forced, TimedOut} then [pe_pid e] else []),
            tm_all_stopped = (tm_all_stopped acc \<and> stopped oc),
            tm_pid_outcomes = tm_pid_outcomes acc @ [(pe_pid e, pe_role e, oc)]\<rparr>)"

definition cli_terminate_recorded :: "u32 \<Rightarrow> 's terminate_fn \<Rightarrow> 's \<Rightarrow> service \<Rightarrow> stop_termination \<times> 's" where
  "cli_terminate_recorded own terminate s r =
     cli_terminate_entries terminate s (cli_recorded_entries own r)
       \<lparr>tm_signaled_pids = [], tm_all_stopped = True, tm_pid_outcomes = []\<rparr>"

definition cli_stop_verdict :: "service \<Rightarrow> service \<Rightarrow> engine_reply \<Rightarrow> bool \<Rightarrow> bool" where
  "cli_stop_verdict stopping current reply terminated_all \<longleftrightarrow>
     terminated_all \<and> names_same_processes stopping current \<and>
     (\<not> engine_stop_decides_confirmation (sr_engine stopping) \<or> is_ok reply)"

definition cli_apply_verdict :: "bool \<Rightarrow> u128 \<Rightarrow> service \<Rightarrow> service" where
  "cli_apply_verdict all_stopped now r =
     (if all_stopped then r\<lparr>sr_status := ''stopped'', sr_stop_requested_unix_ms := None\<rparr>
      else r\<lparr>sr_stop_requested_unix_ms := Some now\<rparr>)"

text \<open>The whole operation. The first load is the refreshing one of the command line, the second
  read is plain; \<^verbatim>\<open>unload\<close> is the HTTP request a Lemonade service is stopped with.\<close>

definition stop_internal_managed_service ::
  "stop_env \<Rightarrow> readiness_env \<Rightarrow> app_paths \<Rightarrow> (service \<Rightarrow> string + unit) \<Rightarrow> 's terminate_fn \<Rightarrow> 's \<Rightarrow> string \<Rightarrow>
     registry \<Rightarrow> string set \<Rightarrow> (control_error + service \<times> bool) \<times> registry \<times> string set \<times> 's" where
  "stop_internal_managed_service env ready paths unload terminate s sid reg0 keys0 =
     (case load_managed_service ready paths sid reg0 keys0 of
        (Inl e, reg, keys) \<Rightarrow> (Inl e, reg, keys, s)
      | (Inr found, reg, keys) \<Rightarrow>
          (let stopping = found\<lparr>sr_stop_requested_unix_ms := Some (se_now env)\<rparr> in
           case write_record (se_host env) (se_first_write env) stopping reg of
             (Inl e, reg1) \<Rightarrow> (Inl e, reg1, keys, s)
           | (Inr _, reg1) \<Rightarrow>
               (let reply = (if sr_engine stopping = ''lemonade''
                             then map_sum (\<lambda>e. e) (\<lambda>_. \<lparr>rsp_stopped = True, rsp_graceful = True\<rparr>) (unload stopping)
                             else se_engine_stop env stopping);
                    (term, s2) = cli_terminate_recorded (se_own_pid env) terminate s stopping;
                    reg2 = se_meanwhile env reg1
                in case read_managed_service_manifest (se_host env) paths reg2 sid of
                     Inl e \<Rightarrow> (Inl e, reg2, keys, s2)
                   | Inr current \<Rightarrow>
                       (let all_stopped = cli_stop_verdict stopping current reply (tm_all_stopped term);
                            final = cli_apply_verdict all_stopped (se_now env) current
                        in case write_record (se_host env) (se_last_write env) final reg2 of
                             (Inl e, reg3) \<Rightarrow> (Inl e, reg3, keys, s2)
                           | (Inr _, reg3) \<Rightarrow>
                               (Inr (final, all_stopped), reg3,
                                if all_stopped then keys - {sr_service_id final} else keys, s2)))))"

section \<open>The terminator as an interface\<close>

text \<open>What a stop relies on: an outcome that counts as stopped means that the process was seen to
  have exited during the call, and calls follow one another.\<close>

locale terminator =
  fixes terminate :: "'s terminate_fn"
    and exited :: "'s \<Rightarrow> 's \<Rightarrow> process_identity \<Rightarrow> bool"
    and before :: "'s \<Rightarrow> 's \<Rightarrow> bool"
  assumes stopped_exited: "terminate s i = (oc, s') \<Longrightarrow> stopped oc \<Longrightarrow> exited s s' i"
    and terminate_before: "terminate s i = (oc, s') \<Longrightarrow> before s s'"
    and before_refl: "before s s"
    and before_trans: "before s s' \<Longrightarrow> before s' s'' \<Longrightarrow> before s s''"
    and exited_within: "exited s s' i \<Longrightarrow> before s0 s \<Longrightarrow> before s' s1 \<Longrightarrow> exited s0 s1 i"
begin

lemma terminate_entries_exited:
  "terminate_entries own terminate s es = (stops, s') \<Longrightarrow>
     before s s' \<and> (list_all ps_stopped stops \<longrightarrow>
       (\<forall>e \<in> set es. pe_pid e = own \<or> exited s s' (entry_identity e)))"
proof (induction es arbitrary: s stops)
  case Nil
  then show ?case by (simp add: before_refl)
next
  case (Cons e es)
  show ?case
  proof (cases "pe_pid e = own")
    case True
    with Cons.prems obtain stops1 where "terminate_entries own terminate s es = (stops1, s')"
      and "list_all ps_stopped stops \<longrightarrow> list_all ps_stopped stops1" by (auto split: prod.splits)
    with Cons.IH True show ?thesis by auto
  next
    case False
    obtain oc s1 where t: "terminate s (entry_identity e) = (oc, s1)" by fastforce
    with False Cons.prems obtain stops1 where r: "terminate_entries own terminate s1 es = (stops1, s')"
      and st: "list_all ps_stopped stops \<longrightarrow> stopped oc \<and> list_all ps_stopped stops1"
      by (auto split: prod.splits)
    have b: "before s s1" "before s1 s'" using terminate_before [OF t] Cons.IH [OF r] by auto
    have "exited s s' (entry_identity e)" if "stopped oc"
      using exited_within [OF stopped_exited [OF t that] before_refl b(2)] .
    moreover have "\<forall>e \<in> set es. pe_pid e = own \<or> exited s s' (entry_identity e)" if "list_all ps_stopped stops1"
      using Cons.IH [OF r] that b exited_within [OF _ b(1) before_refl] by blast
    ultimately show ?thesis using st b before_trans by auto
  qed
qed

end

definition MANAGED_STOP_GRACE :: nat where "MANAGED_STOP_GRACE = 10000000000"

definition terminate_recorded_pid :: "os \<Rightarrow> nat terminate_fn" where
  "terminate_recorded_pid os t ident =
     (let (oc, t', log) = terminate_verified os t ident Tree MANAGED_STOP_GRACE True in (oc, t'))"

definition seen_exited :: "os \<Rightarrow> nat \<Rightarrow> nat \<Rightarrow> process_identity \<Rightarrow> bool" where
  "seen_exited os t t' i \<longleftrightarrow> (\<exists>m. pid m = pid i \<and> exited_between os t t' m)"

lemma terminate_recorded_pid_verdict:
  assumes "terminate_recorded_pid os t i = (oc, t')"
  shows "t \<le> t' \<and> (stopped oc \<longrightarrow> seen_exited os t t' i)"
proof -
  obtain oc2 t2 log where run: "terminate_verified os t i Tree MANAGED_STOP_GRACE True = (oc2, t2, log)"
    and holds: "stopped oc2 \<longrightarrow> (\<exists>m. pid m = pid i \<and> exited_between os t t2 m)"
    using terminate_verified_truthful [of os t i Tree MANAGED_STOP_GRACE True] by auto
  with assms have "oc2 = oc" "t2 = t'" by (auto simp: terminate_recorded_pid_def)
  with holds terminate_verified_mono [OF run] show ?thesis by (simp add: seen_exited_def)
qed

interpretation verified: terminator "terminate_recorded_pid os" "seen_exited os" "(\<le>)" for os
proof
  show "terminate_recorded_pid os s i = (oc, s') \<Longrightarrow> stopped oc \<Longrightarrow> seen_exited os s s' i" for s i oc s'
    using terminate_recorded_pid_verdict by blast
  show "terminate_recorded_pid os s i = (oc, s') \<Longrightarrow> s \<le> s'" for s i oc s'
    using terminate_recorded_pid_verdict by blast
  show "seen_exited os s s' i \<Longrightarrow> s0 \<le> s \<Longrightarrow> s' \<le> s1 \<Longrightarrow> seen_exited os s0 s1 i" for s s' i s0 s1
    unfolding seen_exited_def using exited_between_widen by blast
qed auto

section \<open>What a stop claims\<close>

lemma recorded_entries_pids:
  "sr_supervisor_pid r \<noteq> 0 \<Longrightarrow> \<exists>e \<in> set (recorded_entries r). pe_pid e = sr_supervisor_pid r"
  "sr_engine_pid r = Some p \<Longrightarrow> p \<noteq> 0 \<Longrightarrow> \<exists>e \<in> set (recorded_entries r). pe_pid e = p"
  by (auto simp: recorded_entries_def Let_def split: option.split)

text \<open>A token is never taken from another process: the token of an entry was recorded for its PID.\<close>

lemma recorded_entries_token:
  assumes "e \<in> set (recorded_entries r)" "pe_ticks e = Some k"
  shows "pe_pid e = sr_supervisor_pid r \<and> sr_supervisor_start_ticks r = Some k \<or>
    sr_engine_pid r = Some (pe_pid e) \<and> sr_engine_start_ticks r = Some k"
  using assms by (auto simp: recorded_entries_def Let_def split: option.splits if_splits)

lemma recorded_entries_marker [simp]:
  "recorded_entries (r\<lparr>sr_stop_requested_unix_ms := m\<rparr>) = recorded_entries r"
  by (auto simp: recorded_entries_def Let_def split: option.split)

lemma names_same_marker [simp]:
  "names_same_processes (r\<lparr>sr_stop_requested_unix_ms := m\<rparr>) r' = names_same_processes r r'"
  by (simp add: names_same_processes_def)

lemma stop_managed_service_report:
  assumes "stop_managed_service env terminate s sid reg keys = (Inr report, reg', keys', s')"
  obtains found current stops reply where
    "find_managed_service reg sid = Inr found"
    "terminate_entries (se_own_pid env) terminate s (recorded_entries found) = (stops, s')"
    "find_managed_service (se_meanwhile env (put (fst (stored_form (se_host env) (found\<lparr>sr_stop_requested_unix_ms := Some (se_now env)\<rparr>)))
       (snd (stored_form (se_host env) (found\<lparr>sr_stop_requested_unix_ms := Some (se_now env)\<rparr>))) reg)) sid = Inr current"
    "reply = rp_engine_stop report"
    "sr_engine found = ''lemonade'' \<longleftrightarrow> reply = None"
    "rp_stopped report = stop_verdict found current reply stops"
    "rp_service report = apply_verdict (rp_stopped report) (se_now env) current"
    "keys' = (if rp_stopped report then keys - {sid} else keys)"
    "reg' = put (fst (stored_form (se_host env) (rp_service report))) (snd (stored_form (se_host env) (rp_service report)))
       (se_meanwhile env (put (fst (stored_form (se_host env) (found\<lparr>sr_stop_requested_unix_ms := Some (se_now env)\<rparr>)))
         (snd (stored_form (se_host env) (found\<lparr>sr_stop_requested_unix_ms := Some (se_now env)\<rparr>))) reg))"
proof -
  obtain found where f: "find_managed_service reg sid = Inr found"
    using assms by (auto simp: stop_managed_service_def split: sum.splits)
  let ?st = "found\<lparr>sr_stop_requested_unix_ms := Some (se_now env)\<rparr>"
  let ?reg1 = "put (fst (stored_form (se_host env) ?st)) (snd (stored_form (se_host env) ?st)) reg"
  obtain stops s2 where t: "terminate_entries (se_own_pid env) terminate s (recorded_entries found) = (stops, s2)"
    by fastforce
  from assms f have w1: "se_first_write env"
    by (auto simp: stop_managed_service_def write_record_form Let_def split: if_splits)
  with assms f t obtain current where c: "find_managed_service (se_meanwhile env ?reg1) sid = Inr current"
    by (auto simp: stop_managed_service_def write_record_form Let_def terminate_recorded_service_pids_def split: sum.splits)
  from assms f t w1 c have w2: "se_last_write env"
    by (auto simp: stop_managed_service_def write_record_form Let_def terminate_recorded_service_pids_def split: if_splits)
  have v: "stop_verdict ?st c r st = stop_verdict found c r st" for c r st by (simp add: stop_verdict_def)
  from assms f t w1 c w2 show ?thesis
    by (intro that [OF f _ c refl])
      (auto simp: stop_managed_service_def write_record_form Let_def terminate_recorded_service_pids_def v,
       simp split: if_splits)
qed


section \<open>The two stops agree\<close>

lemma cli_recorded_entries_filter:
  "cli_recorded_entries own r = filter (\<lambda>e. pe_pid e \<noteq> own) (recorded_entries r)"
  by (auto simp: cli_recorded_entries_def recorded_entries_def Let_def split: option.split)

definition stop_line :: "pid_stop \<Rightarrow> u32 \<times> string \<times> string" where
  "stop_line st = (ps_pid st, ps_role st, ps_outcome st)"

lemma cli_terminate_entries_agree:
  "terminate_entries own terminate s es = (stops, s') \<Longrightarrow>
     \<exists>tm. cli_terminate_entries terminate s (filter (\<lambda>e. pe_pid e \<noteq> own) es) acc = (tm, s') \<and>
       tm_signaled_pids tm = tm_signaled_pids acc @ map ps_pid (filter ps_signaled stops) \<and>
       tm_all_stopped tm = (tm_all_stopped acc \<and> list_all ps_stopped stops) \<and>
       map (\<lambda>(p, ro, oc). (p, ro, outcome_str oc)) (tm_pid_outcomes tm) =
         map (\<lambda>(p, ro, oc). (p, ro, outcome_str oc)) (tm_pid_outcomes acc) @
         map stop_line (filter (\<lambda>st. ps_pid st \<noteq> own) stops)"
proof (induction es arbitrary: s stops acc)
  case (Cons e es)
  show ?case
  proof (cases "pe_pid e = own")
    case True
    with Cons.prems obtain stops1 where "terminate_entries own terminate s es = (stops1, s')"
      and "stops = \<lparr>ps_pid = pe_pid e, ps_role = pe_role e, ps_outcome = ''self'', ps_signaled = False,
                 ps_forced = False, ps_stopped = True\<rparr> # stops1" by (auto split: prod.splits)
    with Cons.IH [of s stops1 acc] True show ?thesis by simp
  next
    case False
    obtain oc s1 where t: "terminate s (entry_identity e) = (oc, s1)" by fastforce
    with False Cons.prems obtain stops1 where r: "terminate_entries own terminate s1 es = (stops1, s')"
      and st: "stops = \<lparr>ps_pid = pe_pid e, ps_role = pe_role e, ps_outcome = outcome_str oc,
                 ps_signaled = (oc \<in> {Graceful, Forced, TimedOut}), ps_forced = (oc \<in> {Forced, TimedOut}),
                 ps_stopped = stopped oc\<rparr> # stops1" by (auto split: prod.splits)
    let ?acc = "\<lparr>tm_signaled_pids = tm_signaled_pids acc @ (if oc \<in> {Graceful, Forced, TimedOut} then [pe_pid e] else []),
            tm_all_stopped = (tm_all_stopped acc \<and> stopped oc),
            tm_pid_outcomes = tm_pid_outcomes acc @ [(pe_pid e, pe_role e, oc)]\<rparr>"
    have step: "cli_terminate_entries terminate s (filter (\<lambda>e. pe_pid e \<noteq> own) (e # es)) acc =
        cli_terminate_entries terminate s1 (filter (\<lambda>e. pe_pid e \<noteq> own) es) ?acc"
      using False t by simp
    from Cons.IH [OF r, of ?acc] show ?thesis unfolding step st
      using False by (auto simp: stop_line_def)
  qed
qed simp

text \<open>The two ways of stopping a service, \<^verbatim>\<open>rocm services stop\<close> and the daemon's, cannot
  disagree: on the same record and the same terminator they signal the same PIDs in the same
  order, report the same outcome for each (the daemon also lists itself), reach the same
  verdict from the same engine reply, and write the same status and stop request.\<close>

theorem stop_paths_agree:
  "\<exists>stops tm s'.
     terminate_recorded_service_pids own terminate s r = (stops, s') \<and> cli_terminate_recorded own terminate s r = (tm, s') \<and>
     tm_signaled_pids tm = map ps_pid (filter ps_signaled stops) \<and>
     map (\<lambda>(p, ro, oc). (p, ro, outcome_str oc)) (tm_pid_outcomes tm) =
       map stop_line (filter (\<lambda>st. ps_pid st \<noteq> own) stops) \<and>
     (\<forall>current reply now.
        let daemon = stop_verdict r current (if sr_engine r \<noteq> ''lemonade'' then Some reply else None) stops;
            cli = cli_stop_verdict r current reply (tm_all_stopped tm)
        in daemon = cli \<and>
           sr_status (apply_verdict daemon now current) = sr_status (cli_apply_verdict cli now current) \<and>
           sr_stop_requested_unix_ms (apply_verdict daemon now current) =
             sr_stop_requested_unix_ms (cli_apply_verdict cli now current))"
proof -
  obtain stops s' where st: "terminate_entries own terminate s (recorded_entries r) = (stops, s')" by fastforce
  from cli_terminate_entries_agree [OF st, of "\<lparr>tm_signaled_pids = [], tm_all_stopped = True, tm_pid_outcomes = []\<rparr>"]
  obtain tm where tm: "cli_terminate_recorded own terminate s r = (tm, s')"
    "tm_signaled_pids tm = map ps_pid (filter ps_signaled stops)" "tm_all_stopped tm = list_all ps_stopped stops"
    "map (\<lambda>(p, ro, oc). (p, ro, outcome_str oc)) (tm_pid_outcomes tm) =
       map stop_line (filter (\<lambda>st. ps_pid st \<noteq> own) stops)"
    by (auto simp: cli_terminate_recorded_def cli_recorded_entries_filter)
  have "stop_verdict r current (if sr_engine r \<noteq> ''lemonade'' then Some reply else None) stops =
      cli_stop_verdict r current reply (tm_all_stopped tm)" for current reply
    by (auto simp: stop_verdict_def cli_stop_verdict_def tm(3) engine_stop_decides_confirmation_def)
  with st tm show ?thesis
    by (intro exI [of _ stops] exI [of _ tm] exI [of _ s'])
      (auto simp: terminate_recorded_service_pids_def apply_verdict_def cli_apply_verdict_def clear_recorded_pids_def)
qed

section \<open>Instances\<close>

text \<open>The service of process 7, which exits some time after it is asked to.\<close>

definition ex_running :: service where
  "ex_running = ex_service\<lparr>sr_supervisor_pid := 7, sr_supervisor_start_ticks := Some 9988\<rparr>"

definition ex_stop :: stop_env where
  "ex_stop = \<lparr>se_host = Linux, se_now = 6, se_own_pid = 3, se_engine_stop = (\<lambda>_. Inl ''no engine''),
     se_first_write = True, se_last_write = True, se_meanwhile = (\<lambda>x. x)\<rparr>"

lemma ex_terminate:
  "\<exists>t'. terminate_recorded_pid ex_os 0 \<lparr>pid = 7, start_ticks = Some 9988\<rparr> = (Graceful, t')"
proof -
  have "\<exists>t'. wait_for_all_exit ex_os 90 [\<lparr>pid = 7, start_ticks = Some 9988\<rparr>] MANAGED_STOP_GRACE = (True, t')"
    unfolding wait_for_all_exit_def
    by (subst wait_loop.simps, simp add: identity_state_def ex_os_eval is_exited_def Let_def POLL_INTERVAL_def
        MANAGED_STOP_GRACE_def)
      (subst wait_loop.simps, simp add: identity_state_def ex_os_eval is_exited_def Let_def)
  then show ?thesis
    by (auto simp: terminate_recorded_pid_def terminate_verified_def identity_state_def ex_os_eval snapshot_members_def
      ex_tree capture_def send_signal_def signal_process_scope_def SIGTERM_def)
qed

lemmas ex_running_eval = stored_form_def ex_running_def ex_service_def service_new_def normalize_paths_for_host_def
  normalize_runtime_path_for_host_def normalize_runtime_path_text_for_platform_def is_windows_def with_storage_paths_def
  normalize_runtime_path_for_storage_def service_manifest_path_def services_dir_def path_join_def
  ex_paths_def main_separator_def

lemma ex_running_fields:
  "sr_service_id ex_running = ''svc''" "sr_engine ex_running = ''vllm''" "sr_supervisor_pid ex_running = 7"
  "sr_supervisor_start_ticks ex_running = Some 9988" "sr_engine_pid ex_running = None"
  by (simp_all add: ex_running_def ex_service_def service_new_def)

lemma ex_stop_run:
  "\<exists>report reg' t'. stop_managed_service ex_stop (terminate_recorded_pid ex_os) 0 ''svc''
     [(''/d/services/svc.json'', Stored ex_running)] {''svc''} = (Inr report, reg', {}, t') \<and> rp_stopped report"
proof -
  obtain t' where t: "terminate_recorded_pid ex_os 0 \<lparr>pid = 7, start_ticks = Some 9988\<rparr> = (Graceful, t')"
    using ex_terminate by blast
  let ?asked = "ex_running\<lparr>sr_stop_requested_unix_ms := Some 6\<rparr>"
  let ?final = "clear_recorded_pids (?asked\<lparr>sr_status := ''stopped'', sr_stop_requested_unix_ms := None\<rparr>)"
  have form: "stored_form Linux ?asked = (''/d/services/svc.json'', Stored ?asked)"
    "stored_form Linux ?final = (''/d/services/svc.json'', Stored ?final)"
    by (simp_all add: ex_running_eval clear_recorded_pids_def)
  have found: "find_managed_service [(q, Stored ex_running)] ''svc'' = Inr ex_running"
    "find_managed_service [(q, Stored ?asked)] ''svc'' = Inr ?asked" for q
    using find_single_record [of q ex_running] find_single_record [of q ?asked] by (simp_all add: ex_running_fields)
  have same: "names_same_processes ex_running ?asked" by (simp add: names_same_processes_def)
  have stops: "terminate_recorded_service_pids 3 (terminate_recorded_pid ex_os) 0 ?asked =
      ([\<lparr>ps_pid = 7, ps_role = ''supervisor'', ps_outcome = ''graceful'', ps_signaled = True, ps_forced = False,
         ps_stopped = True\<rparr>], t')"
    by (simp add: terminate_recorded_service_pids_def recorded_entries_def ex_running_fields entry_identity_def t)
  show ?thesis
    unfolding stop_managed_service_def
    by (simp add: ex_stop_def found write_record_form form stops same stop_verdict_def ex_running_fields
      engine_stop_decides_confirmation_def apply_verdict_def Let_def)
qed


end
