(* ===== verification/Serve_Port.thy ===== *)
theory Serve_Port
  imports Service_Record
begin

text \<open>
  The port policy of \<^verbatim>\<open>rocm serve\<close>: \<^verbatim>\<open>apps/rocm/src/serve_port.rs\<close>, with the port leases of
  \<^verbatim>\<open>crates/rocm-core/src/process.rs\<close>. What the user asks for becomes one concrete port, leased
  before any manifest, key file or process of the launch exists.

  The bind probe is an argument that gives the outcome for each port; one call probes a port at
  most once. Addresses are parsed as the standard library's \<^verbatim>\<open>IpAddr\<close> does.
\<close>

section \<open>Addresses\<close>

text \<open>The standard library's parser reads one part after another and gives back the rest of the text.\<close>

datatype ip_addr = V4 "nat list" | V6 "nat list"

definition hex_val :: "char \<Rightarrow> nat option" where
  "hex_val c =
     (let n = of_char c :: nat in
      if is_ascii_digit c then Some (n - 48)
      else if 97 \<le> n \<and> n \<le> 102 then Some (n - 87)
      else if 65 \<le> n \<and> n \<le> 70 then Some (n - 55)
      else None)"

definition dec_val :: "char \<Rightarrow> nat option" where
  "dec_val c = (if is_ascii_digit c then Some (digit_val c) else None)"

text \<open>\<^verbatim>\<open>read_number\<close>: the digits that follow, at least one and at most the given number.\<close>

definition read_digits :: "(char \<Rightarrow> nat option) \<Rightarrow> nat \<Rightarrow> nat \<Rightarrow> string \<Rightarrow> (nat \<times> string) option" where
  "read_digits digit base most s =
     (let ds = takeWhile (\<lambda>c. digit c \<noteq> None) s in
      if ds = [] \<or> most < length ds then None
      else Some (foldl (\<lambda>n c. base * n + the (digit c)) 0 ds, drop (length ds) s))"

definition read_octet :: "string \<Rightarrow> (nat \<times> string) option" where
  "read_octet s =
     (case read_digits dec_val 10 3 s of
        None \<Rightarrow> None
      | Some (n, rest) \<Rightarrow>
          if 255 < n \<or> (hd s = CHR ''0'' \<and> 1 < length s - length rest) then None else Some (n, rest))"

definition read_group :: "string \<Rightarrow> (nat \<times> string) option" where
  "read_group s = read_digits hex_val 16 4 s"

text \<open>\<^verbatim>\<open>read_separator\<close>: every part but the first comes after the separator.\<close>

fun separated :: "char \<Rightarrow> bool \<Rightarrow> (string \<Rightarrow> 'a option) \<Rightarrow> string \<Rightarrow> 'a option" where
  "separated sep True part s = part s"
| "separated sep False part (c # s) = (if c = sep then part s else None)"
| "separated sep False part [] = None"

fun read_octets :: "nat \<Rightarrow> bool \<Rightarrow> string \<Rightarrow> (nat list \<times> string) option" where
  "read_octets 0 first s = Some ([], s)"
| "read_octets (Suc k) first s =
     (case separated (CHR ''.'') first read_octet s of
        None \<Rightarrow> None
      | Some (n, rest) \<Rightarrow>
          (case read_octets k False rest of None \<Rightarrow> None | Some (ns, rest') \<Rightarrow> Some (n # ns, rest')))"

definition read_ipv4 :: "string \<Rightarrow> (nat list \<times> string) option" where
  "read_ipv4 s = read_octets 4 True s"

text \<open>Up to \<^verbatim>\<open>limit\<close> groups; where two are left, a dotted IPv4 address may end them. The flag tells
  whether one did.\<close>

fun read_groups :: "nat \<Rightarrow> bool \<Rightarrow> string \<Rightarrow> nat list \<times> bool \<times> string" where
  "read_groups 0 first s = ([], False, s)"
| "read_groups (Suc k) first s =
     (case (if 0 < k then separated (CHR '':'') first read_ipv4 s else None) of
        Some (os, rest) \<Rightarrow> ([256 * os ! 0 + os ! 1, 256 * os ! 2 + os ! 3], True, rest)
      | None \<Rightarrow>
          (case separated (CHR '':'') first read_group s of
             None \<Rightarrow> ([], False, s)
           | Some (g, rest) \<Rightarrow>
               (let (gs, v4, rest') = read_groups k False rest in (g # gs, v4, rest'))))"

definition read_ipv6 :: "string \<Rightarrow> (nat list \<times> string) option" where
  "read_ipv6 s =
     (let (gs, v4, rest) = read_groups 8 True s in
      if length gs = 8 then Some (gs, rest)
      else if v4 then None
      else if take 2 rest \<noteq> ''::'' then None
      else
        let (tail, _, rest') = read_groups (7 - length gs) True (drop 2 rest)
        in Some (gs @ replicate (8 - length gs - length tail) 0 @ tail, rest'))"

text \<open>\<^verbatim>\<open>IpAddr::from_str\<close> takes the first form that reads, which has to use the whole text.\<close>

definition parse_ip :: "string \<Rightarrow> ip_addr option" where
  "parse_ip s =
     (case (case read_ipv4 s of
              Some (os, rest) \<Rightarrow> Some (V4 os, rest)
            | None \<Rightarrow> map_option (\<lambda>(gs, rest). (V6 gs, rest)) (read_ipv6 s)) of
        Some (ip, rest) \<Rightarrow> if rest = [] then Some ip else None
      | None \<Rightarrow> None)"

fun is_unspecified :: "ip_addr \<Rightarrow> bool" where
  "is_unspecified (V4 os) \<longleftrightarrow> os = [0, 0, 0, 0]"
| "is_unspecified (V6 gs) \<longleftrightarrow> gs = replicate 8 0"

fun is_loopback :: "ip_addr \<Rightarrow> bool" where
  "is_loopback (V4 os) \<longleftrightarrow> os \<noteq> [] \<and> hd os = 127"
| "is_loopback (V6 gs) \<longleftrightarrow> gs = replicate 7 0 @ [1]"

section \<open>Requests and leases\<close>

definition DEFAULT_LOCAL_HOST :: string where "DEFAULT_LOCAL_HOST = ''127.0.0.1''"

definition DEFAULT_LOCAL_PORT :: u16 where "DEFAULT_LOCAL_PORT = 11435"

definition AUTO_PORT_FIRST :: u16 where "AUTO_PORT_FIRST = DEFAULT_LOCAL_PORT"

definition AUTO_PORT_SPAN :: u16 where "AUTO_PORT_SPAN = 100"

definition AUTO_PORT_LAST :: u16 where "AUTO_PORT_LAST = AUTO_PORT_FIRST + AUTO_PORT_SPAN"

text \<open>A check of the address, shared with the recovery of a service.\<close>

definition is_canonical_loopback_host :: "string \<Rightarrow> bool" where
  "is_canonical_loopback_host address \<longleftrightarrow> trim address = DEFAULT_LOCAL_HOST"

datatype port_request = Auto | Explicit u16

definition from_flag :: "u16 option \<Rightarrow> port_request" where
  "from_flag port = (case port of Some p \<Rightarrow> Explicit p | None \<Rightarrow> Auto)"

definition is_auto :: "port_request \<Rightarrow> bool" where
  "is_auto r \<longleftrightarrow> r = Auto"

fun explicit_port :: "port_request \<Rightarrow> u16 option" where
  "explicit_port Auto = None"
| "explicit_port (Explicit p) = Some p"

record reserved_port =
  rv_port :: u16
  rv_host :: string
  rv_service_id :: string
  rv_status :: string

record port_lease =
  lease_port :: u16
  lease_held :: bool

definition engine_owned :: "u16 \<Rightarrow> port_lease" where
  "engine_owned p = \<lparr>lease_port = p, lease_held = False\<rparr>"

definition release_lease :: "port_lease \<Rightarrow> u16 \<times> port_lease" where
  "release_lease l = (lease_port l, l\<lparr>lease_held := False\<rparr>)"

datatype io_kind = AddrInUse | PermissionDenied | OtherIo

type_synonym bind_probe = "u16 \<Rightarrow> io_kind option"

text \<open>\<^verbatim>\<open>lease_loopback_port\<close>: binding the socket is the probe.\<close>

definition lease_loopback_port :: "bind_probe \<Rightarrow> u16 \<Rightarrow> io_kind + port_lease" where
  "lease_loopback_port bind p =
     (case bind p of None \<Rightarrow> Inr \<lparr>lease_port = p, lease_held = True\<rparr> | Some e \<Rightarrow> Inl e)"

datatype port_error = BadPort string | NeedsExplicitPort string | ReservedBy string u16 string |
  InUseByAnother u16 | NotReserved u16 io_kind | NotReservedInScan u16 io_kind | RangeExhausted

definition parse_serve_port :: "string \<Rightarrow> port_error + u16" where
  "parse_serve_port text =
     (case parse_uint 16 (trim text) of
        None \<Rightarrow> Inl (BadPort text)
      | Some n \<Rightarrow> if n = 0 then Inl (BadPort text) else Inr (of_nat n))"

definition validate_port_request :: "string \<Rightarrow> port_request \<Rightarrow> port_error + unit" where
  "validate_port_request address request =
     (if is_auto request \<and> \<not> is_canonical_loopback_host address then Inl (NeedsExplicitPort address) else Inr ())"

section \<open>Overlapping hosts\<close>

definition bare_host :: "string \<Rightarrow> string" where
  "bare_host s = rev (dropWhile (\<lambda>c. c = CHR '']'') (rev (dropWhile (\<lambda>c. c = CHR ''['') (trim s))))"

definition host_ip :: "string \<Rightarrow> ip_addr option" where
  "host_ip s = parse_ip (bare_host s)"

definition is_localhost :: "string \<Rightarrow> bool" where
  "is_localhost s \<longleftrightarrow> to_ascii_lowercase (trim s) = ''localhost''"

fun covers :: "ip_addr \<Rightarrow> string \<Rightarrow> bool" where
  "covers (V6 _) other \<longleftrightarrow> True"
| "covers (V4 _) other \<longleftrightarrow>
     (case host_ip other of Some (V4 _) \<Rightarrow> True | Some (V6 _) \<Rightarrow> False | None \<Rightarrow> True)"

definition wildcard_over :: "ip_addr option \<Rightarrow> string \<Rightarrow> bool" where
  "wildcard_over ip other \<longleftrightarrow> (case ip of Some w \<Rightarrow> is_unspecified w \<and> covers w other | None \<Rightarrow> False)"

definition hosts_overlap :: "string \<Rightarrow> string \<Rightarrow> bool" where
  "hosts_overlap a b \<longleftrightarrow>
     (if wildcard_over (host_ip a) b then True
      else if wildcard_over (host_ip b) a then True
      else case (host_ip a, host_ip b) of
        (Some x, Some y) \<Rightarrow> x = y
      | (Some ip, None) \<Rightarrow> is_localhost b \<and> is_loopback ip
      | (None, Some ip) \<Rightarrow> is_localhost a \<and> is_loopback ip
      | (None, None) \<Rightarrow> to_ascii_lowercase (trim a) = to_ascii_lowercase (trim b))"

section \<open>Resolving a request\<close>

definition explicit_bind_error :: "u16 \<Rightarrow> io_kind \<Rightarrow> port_error" where
  "explicit_bind_error port e = (if e = AddrInUse then InUseByAnother port else NotReserved port e)"

definition reserved_message :: "string \<Rightarrow> u16 \<Rightarrow> reserved_port \<Rightarrow> port_error" where
  "reserved_message address port owner = ReservedBy address port (rv_service_id owner)"

text \<open>Windows reports a port in an excluded range as \<^verbatim>\<open>PermissionDenied\<close>, so there it advances the
  scan as well.\<close>

definition advances :: "bool \<Rightarrow> io_kind \<Rightarrow> bool" where
  "advances windows e \<longleftrightarrow> e = AddrInUse \<or> windows \<and> e = PermissionDenied"

fun scan_ports :: "bool \<Rightarrow> reserved_port list \<Rightarrow> bind_probe \<Rightarrow> u16 list \<Rightarrow> port_error + port_lease" where
  "scan_ports windows reserved bind [] = Inl RangeExhausted"
| "scan_ports windows reserved bind (p # ps) =
     (if list_ex (\<lambda>r. rv_port r = p) reserved then scan_ports windows reserved bind ps
      else case lease_loopback_port bind p of
        Inr l \<Rightarrow> Inr l
      | Inl e \<Rightarrow> if advances windows e then scan_ports windows reserved bind ps else Inl (NotReservedInScan p e))"

definition auto_candidates :: "u16 list" where
  "auto_candidates = map of_nat [unat AUTO_PORT_FIRST..<Suc (unat AUTO_PORT_LAST)]"

definition resolve_serve_port ::
  "bool \<Rightarrow> string \<Rightarrow> port_request \<Rightarrow> reserved_port list \<Rightarrow> bind_probe \<Rightarrow> port_error + port_lease" where
  "resolve_serve_port windows address request reserved bind =
     (if \<not> is_canonical_loopback_host address then
        (case validate_port_request address request of
           Inl e \<Rightarrow> Inl e
         | Inr _ \<Rightarrow>
             (case explicit_port request of
                None \<Rightarrow> Inl (NeedsExplicitPort address)
              | Some port \<Rightarrow>
                  (case find (\<lambda>r. rv_port r = port \<and> hosts_overlap (rv_host r) address) reserved of
                     Some owner \<Rightarrow> Inl (reserved_message address port owner)
                   | None \<Rightarrow> Inr (engine_owned port))))
      else
        (case request of
           Explicit port \<Rightarrow>
             (case find (\<lambda>r. rv_port r = port) reserved of
                Some owner \<Rightarrow> Inl (reserved_message DEFAULT_LOCAL_HOST port owner)
              | None \<Rightarrow> map_sum (explicit_bind_error port) (\<lambda>l. l) (lease_loopback_port bind port))
         | Auto \<Rightarrow> scan_ports windows reserved bind auto_candidates))"

section \<open>Facts about ports and hosts\<close>

lemma find_SomeD: "find P xs = Some x \<Longrightarrow> x \<in> set xs \<and> P x"
  by (auto simp: find_Some_iff)

lemma parse_serve_port_range:
  assumes "parse_serve_port text = Inr p"
  shows "1 \<le> unat p" and "unat p \<le> 65535"
proof -
  from assms obtain n where n: "parse_uint 16 (trim text) = Some n" "n \<noteq> 0" and p: "p = of_nat n"
    by (auto simp: parse_serve_port_def split: option.splits if_splits)
  have "unat p = n" using parse_uint_bound [OF n(1)] p
    by (simp add: unsigned_of_nat take_bit_nat_eq_self)
  with n parse_uint_bound [OF n(1)] show "1 \<le> unat p" "unat p \<le> 65535" by simp_all
qed

lemma hosts_overlap_sym: "hosts_overlap a b \<longleftrightarrow> hosts_overlap b a"
  unfolding hosts_overlap_def by (cases "host_ip a"; cases "host_ip b") auto

lemma hosts_overlap_refl: "hosts_overlap a a"
  unfolding hosts_overlap_def by (cases "host_ip a") auto

lemma auto_bounds [simp]: "unat AUTO_PORT_FIRST = 11435" "unat AUTO_PORT_LAST = 11535"
  by (simp_all add: AUTO_PORT_LAST_def AUTO_PORT_FIRST_def AUTO_PORT_SPAN_def DEFAULT_LOCAL_PORT_def)

lemma auto_candidates_form: "auto_candidates = map of_nat [11435..<11536]"
  by (simp add: auto_candidates_def)

lemma unat_candidate: "n < 11536 \<Longrightarrow> unat (of_nat n :: u16) = n"
  by (simp add: unsigned_of_nat take_bit_nat_eq_self)

lemma set_auto_candidates: "p \<in> set auto_candidates \<longleftrightarrow> 11435 \<le> unat p \<and> unat p \<le> 11535"
proof
  assume "p \<in> set auto_candidates"
  then have "p \<in> of_nat ` {11435..<11536}" by (simp only: auto_candidates_form list.set_map set_upt)
  then obtain n where n: "11435 \<le> n" "n < 11536" and "p = of_nat n" by (auto simp only: atLeastLessThan_iff)
  then show "11435 \<le> unat p \<and> unat p \<le> 11535" using unat_candidate [OF n(2)] by simp
next
  assume "11435 \<le> unat p \<and> unat p \<le> 11535"
  then have "unat p \<in> {11435..<11536}" by simp
  moreover have "p = of_nat (unat p)" by simp
  ultimately show "p \<in> set auto_candidates" unfolding auto_candidates_form by (metis image_eqI list.set_map set_upt)
qed

lemma sorted_auto_candidates: "sorted (map unat auto_candidates)"
proof -
  have "map unat auto_candidates = [11435..<11536]"
    by (simp only: auto_candidates_form map_map o_def) (rule map_idI, simp add: unat_candidate del: upt_rec_numeral)
  then show ?thesis by (metis sorted_upt)
qed

text \<open>A candidate the scan passes over.\<close>

definition passed_over :: "bool \<Rightarrow> reserved_port list \<Rightarrow> bind_probe \<Rightarrow> u16 \<Rightarrow> bool" where
  "passed_over windows reserved bind p \<longleftrightarrow>
     list_ex (\<lambda>r. rv_port r = p) reserved \<or> (\<exists>e. bind p = Some e \<and> advances windows e)"

lemma scan_ports_Inr:
  "scan_ports windows reserved bind ps = Inr l \<Longrightarrow>
     \<exists>before after. ps = before @ lease_port l # after \<and> list_all (passed_over windows reserved bind) before \<and>
       \<not> list_ex (\<lambda>r. rv_port r = lease_port l) reserved \<and> bind (lease_port l) = None \<and> lease_held l"
proof (induction ps)
  case (Cons p ps)
  show ?case
  proof (cases "passed_over windows reserved bind p")
    case True
    with Cons.prems have "scan_ports windows reserved bind ps = Inr l"
      by (auto simp: passed_over_def lease_loopback_port_def split: if_splits)
    from Cons.IH [OF this] True show ?thesis by (metis append_Cons list.pred_inject(2))
  next
    case False
    with Cons.prems have "bind p = None" and l: "l = \<lparr>lease_port = p, lease_held = True\<rparr>"
      and "\<not> list_ex (\<lambda>r. rv_port r = p) reserved"
      by (auto simp: passed_over_def lease_loopback_port_def split: if_splits option.splits)
    then show ?thesis by (intro exI [of _ "[]"] exI [of _ ps]) simp
  qed
qed simp

lemma scan_ports_exhausted:
  "scan_ports windows reserved bind ps = Inl RangeExhausted \<longleftrightarrow> list_all (passed_over windows reserved bind) ps"
  by (induction ps) (auto simp: passed_over_def lease_loopback_port_def split: option.splits if_splits)

lemma scan_ports_other:
  "scan_ports windows reserved bind ps = Inl e \<Longrightarrow> e \<noteq> RangeExhausted \<Longrightarrow>
     \<exists>before p after k. ps = before @ p # after \<and> list_all (passed_over windows reserved bind) before \<and>
       bind p = Some k \<and> \<not> advances windows k \<and> e = NotReservedInScan p k"
proof (induction ps)
  case (Cons p ps)
  show ?case
  proof (cases "passed_over windows reserved bind p")
    case True
    with Cons.prems have "scan_ports windows reserved bind ps = Inl e"
      by (auto simp: passed_over_def lease_loopback_port_def split: if_splits)
    from Cons.IH [OF this Cons.prems(2)] True show ?thesis by (metis append_Cons list.pred_inject(2))
  next
    case False
    with Cons.prems obtain k where "bind p = Some k" "\<not> advances windows k" "e = NotReservedInScan p k"
      by (auto simp: passed_over_def lease_loopback_port_def split: if_splits option.splits)
    then show ?thesis by (intro exI [of _ "[]"] exI [of _ p] exI [of _ ps] exI [of _ k]) simp
  qed
qed simp

lemma auto_prefix:
  assumes "auto_candidates = before @ p # after" and "11435 \<le> unat q" "unat q < unat p"
  shows "q \<in> set before"
proof -
  have "p \<in> set auto_candidates" by (simp add: assms(1))
  then have "unat p \<le> 11535" by (simp add: set_auto_candidates)
  then have "q \<in> set auto_candidates" using assms by (simp add: set_auto_candidates)
  then have "q \<in> set before \<or> q = p \<or> q \<in> set after" by (auto simp: assms(1))
  moreover have "\<forall>x \<in> set after. unat p \<le> unat x"
    using sorted_auto_candidates unfolding assms(1) by (simp add: sorted_append)
  ultimately show ?thesis using assms(3) by auto
qed

text \<open>The reservations that stand against a port on an address.\<close>

definition contends :: "string \<Rightarrow> u16 \<Rightarrow> reserved_port \<Rightarrow> bool" where
  "contends address port r \<longleftrightarrow>
     rv_port r = port \<and> (is_canonical_loopback_host address \<or> hosts_overlap (rv_host r) address)"

lemma resolve_canonical_auto:
  "is_canonical_loopback_host address \<Longrightarrow>
     resolve_serve_port windows address Auto reserved bind = scan_ports windows reserved bind auto_candidates"
  by (simp add: resolve_serve_port_def)

lemma resolve_explicit:
  "resolve_serve_port windows address (Explicit port) reserved bind =
     (case find (contends address port) reserved of
        Some owner \<Rightarrow> Inl (reserved_message (if is_canonical_loopback_host address then DEFAULT_LOCAL_HOST else address) port owner)
      | None \<Rightarrow>
          if is_canonical_loopback_host address
          then map_sum (explicit_bind_error port) (\<lambda>l. l) (lease_loopback_port bind port)
          else Inr (engine_owned port))"
  by (simp add: resolve_serve_port_def contends_def [abs_def] validate_port_request_def is_auto_def split: option.split)

definition ex_reserved :: "u16 \<Rightarrow> string \<Rightarrow> reserved_port" where
  "ex_reserved p h = \<lparr>rv_port = p, rv_host = h, rv_service_id = ''other'', rv_status = ''ready''\<rparr>"

lemma canonical_default: "is_canonical_loopback_host ''127.0.0.1''"
  by (simp add: is_canonical_loopback_host_def DEFAULT_LOCAL_HOST_def trim_graphic ascii_graphic_def)

lemma ex_scan:
  "resolve_serve_port False ''127.0.0.1'' Auto [ex_reserved 11435 ''0.0.0.0''] ((\<lambda>_. None)(11436 := Some AddrInUse)) =
     Inr \<lparr>lease_port = 11437, lease_held = True\<rparr>"
  by (simp add: resolve_canonical_auto canonical_default auto_candidates_form upt_rec ex_reserved_def
     lease_loopback_port_def advances_def)

lemma ex_denied:
  "resolve_serve_port False ''127.0.0.1'' Auto [] (\<lambda>_. Some PermissionDenied) = Inl (NotReservedInScan 11435 PermissionDenied)"
  by (simp add: resolve_canonical_auto canonical_default auto_candidates_form upt_rec lease_loopback_port_def advances_def)

lemma resolved_port:
  assumes "resolve_serve_port windows address request reserved bind = Inr lease"
  shows "(\<forall>r \<in> set reserved. \<not> contends address (lease_port lease) r) \<and>
    (is_canonical_loopback_host address \<longrightarrow> lease_held lease \<and> bind (lease_port lease) = None) \<and>
    (\<forall>port. request = Explicit port \<longrightarrow> lease_port lease = port)"
  using scan_ports_Inr [of windows reserved bind auto_candidates lease] assms
  by (cases request)
    (auto simp: resolve_serve_port_def resolve_explicit lease_loopback_port_def engine_owned_def find_None_iff contends_def
      list_ex_iff validate_port_request_def is_auto_def split: option.splits if_splits)

text \<open>C27. The port a request is resolved to. No live service's reservation stands against it; on the
  canonical loopback host it is leased, so it could be bound. An explicit request gets its own
  port. An automatic one is only served on that host, from the range, and every candidate below
  the one chosen is reserved or in use.\<close>

theorem port_resolution:
  assumes "resolve_serve_port windows address request reserved bind = Inr lease"
  shows "(\<forall>r \<in> set reserved. \<not> contends address (lease_port lease) r) \<and>
    (is_canonical_loopback_host address \<longrightarrow> lease_held lease \<and> bind (lease_port lease) = None) \<and>
    (case request of
       Explicit port \<Rightarrow> lease_port lease = port
     | Auto \<Rightarrow> is_canonical_loopback_host address \<and>
         11435 \<le> unat (lease_port lease) \<and> unat (lease_port lease) \<le> 11535 \<and>
         (\<forall>q. 11435 \<le> unat q \<and> unat q < unat (lease_port lease) \<longrightarrow> passed_over windows reserved bind q))"
proof (cases request)
  case Auto
  with assms have c: "is_canonical_loopback_host address"
    by (auto simp: resolve_serve_port_def validate_port_request_def is_auto_def split: if_splits)
  with assms Auto have "scan_ports windows reserved bind auto_candidates = Inr lease"
    by (simp add: resolve_canonical_auto)
  from scan_ports_Inr [OF this] obtain before after where
    split: "auto_candidates = before @ lease_port lease # after" and b: "list_all (passed_over windows reserved bind) before"
    by blast
  have "lease_port lease \<in> set auto_candidates" by (simp add: split)
  with c b auto_prefix [OF split] Auto resolved_port [OF assms] show ?thesis
    by (auto simp: set_auto_candidates list_all_iff)
qed (use resolved_port [OF assms] in auto)

theorem port_resolution_witness:
  "\<not> contends ''127.0.0.1'' 11437 (ex_reserved 11435 ''0.0.0.0'') \<and>
   passed_over False [ex_reserved 11435 ''0.0.0.0''] ((\<lambda>_. None)(11436 := Some AddrInUse)) 11436"
  using port_resolution [OF ex_scan] canonical_default by auto

text \<open>Why a request is refused. The range is called exhausted exactly when every candidate is
  reserved or in use; only a port in use lets the scan go on, so any other failure of the bind ends
  it at that port, and an explicit request names what stands against its port.\<close>

theorem port_errors:
  assumes "resolve_serve_port windows address request reserved bind = Inl e"
  shows "(e = RangeExhausted \<longleftrightarrow> request = Auto \<and> is_canonical_loopback_host address \<and>
       (\<forall>q. 11435 \<le> unat q \<and> unat q \<le> 11535 \<longrightarrow> passed_over windows reserved bind q)) \<and>
    (case e of
       NeedsExplicitPort h \<Rightarrow> h = address \<and> request = Auto \<and> \<not> is_canonical_loopback_host address
     | ReservedBy h port sid \<Rightarrow> request = Explicit port \<and> (\<exists>r \<in> set reserved. contends address port r \<and> rv_service_id r = sid)
     | InUseByAnother port \<Rightarrow> request = Explicit port \<and> bind port = Some AddrInUse
     | NotReserved port k \<Rightarrow> request = Explicit port \<and> bind port = Some k \<and> k \<noteq> AddrInUse
     | NotReservedInScan port k \<Rightarrow> request = Auto \<and> bind port = Some k \<and> \<not> advances windows k \<and>
         (\<forall>q. 11435 \<le> unat q \<and> unat q < unat port \<longrightarrow> passed_over windows reserved bind q)
     | RangeExhausted \<Rightarrow> True
     | BadPort t \<Rightarrow> False)"
proof (cases request)
  case (Explicit port)
  then show ?thesis using assms
    by (auto simp: resolve_explicit lease_loopback_port_def reserved_message_def explicit_bind_error_def
      find_None_iff dest!: find_SomeD split: option.splits if_splits)
next
  case Auto
  show ?thesis
  proof (cases "is_canonical_loopback_host address")
    case False
    with assms Auto have "e = NeedsExplicitPort address"
      by (simp add: resolve_serve_port_def validate_port_request_def is_auto_def)
    with False Auto show ?thesis by simp
  next
    case True
    with assms Auto have s: "scan_ports windows reserved bind auto_candidates = Inl e" by (simp add: resolve_canonical_auto)
    show ?thesis
    proof (cases "e = RangeExhausted")
      case e: True
      with s have "list_all (passed_over windows reserved bind) auto_candidates" by (simp add: scan_ports_exhausted)
      with e Auto True show ?thesis by (simp add: list_all_iff set_auto_candidates)
    next
      case False
      from scan_ports_other [OF s this] obtain before p after k where
        split: "auto_candidates = before @ p # after" and b: "list_all (passed_over windows reserved bind) before"
        and k: "bind p = Some k" "\<not> advances windows k" "e = NotReservedInScan p k" by blast
      have "\<not> list_all (passed_over windows reserved bind) auto_candidates" using s False
        by (metis scan_ports_exhausted sum.inject(1))
      then have "\<not> (\<forall>q. 11435 \<le> unat q \<and> unat q \<le> 11535 \<longrightarrow> passed_over windows reserved bind q)"
        by (auto simp: list_all_iff set_auto_candidates)
      with k b Auto auto_prefix [OF split] show ?thesis by (auto simp: list_all_iff)
    qed
  qed
qed
theorem port_errors_witness:
  "\<not> advances False PermissionDenied \<and> (\<exists>q. \<not> passed_over False [] (\<lambda>_. Some PermissionDenied) q)"
  using port_errors [OF ex_denied] canonical_default by auto

end
