(* ===== verification/Recovery.thy ===== *)
theory Recovery
  imports Service_Control Serve_Port
begin

text \<open>
  The supervisor of a managed service and its recovery: \<^verbatim>\<open>apps/rocmd/src/supervise.rs\<close>, with the
  endpoint key guard of \<^verbatim>\<open>engine_ipc.rs\<close> and the argument helpers of
  \<^verbatim>\<open>crates/rocm-engine-protocol/src/lib.rs\<close>.

  Other processes write to the registry all the time. Where the code reads a record and writes
  it back, what they write in between is a function on registries (a window); where it returns
  to the registry later, another one. The spawned processes, the lock, the port and the success
  of each write are arguments.
\<close>

section \<open>The endpoint key guard\<close>

datatype key_error = KeyGone | PublicWithoutKey

definition is_public_bind_host :: "string \<Rightarrow> bool" where
  "is_public_bind_host address \<longleftrightarrow> address \<notin> {''127.0.0.1'', ''localhost'', ''::1''}"

definition ensure_public_service_has_endpoint_key :: "string \<Rightarrow> bool \<Rightarrow> bool \<Rightarrow> key_error + unit" where
  "ensure_public_service_has_endpoint_key address key_present requires_api_key =
     (if requires_api_key \<and> \<not> key_present then Inl KeyGone
      else if is_public_bind_host address \<and> \<not> key_present then Inl PublicWithoutKey
      else Inr ())"

section \<open>Command lines\<close>

definition optional_arg :: "string \<Rightarrow> string option \<Rightarrow> string list" where
  "optional_arg flag v = (case v of Some x \<Rightarrow> [flag, x] | None \<Rightarrow> [])"

fun join_comma :: "string list \<Rightarrow> string" where
  "join_comma [] = []"
| "join_comma [s] = s"
| "join_comma (s # t # ts) = s @ '','' @ join_comma (t # ts)"

definition gpu_indices_to_csv :: "u32 list \<Rightarrow> string option" where
  "gpu_indices_to_csv indices =
     (if indices = [] then None else Some (join_comma (map (\<lambda>i. show_nat (unat i)) indices)))"

datatype gpu_selection = AutoGpu | GpuIndex u32

datatype gpu_error = ManyGpus | NotAGpuIndex

definition parse_cli_value :: "string \<Rightarrow> gpu_error + gpu_selection" where
  "parse_cli_value text =
     (let trimmed = trim text in
      if trimmed = [] \<or> to_ascii_lowercase trimmed = ''auto'' then Inr AutoGpu
      else if CHR '','' \<in> set trimmed then Inl ManyGpus
      else case parse_uint 32 trimmed of None \<Rightarrow> Inl NotAGpuIndex | Some n \<Rightarrow> Inr (GpuIndex (of_nat n)))"

definition parse_gpu_indices_arg :: "string option \<Rightarrow> gpu_error + u32 list" where
  "parse_gpu_indices_arg v =
     (case v of None \<Rightarrow> Inr []
      | Some raw \<Rightarrow> bind_result (parse_cli_value raw)
          (\<lambda>sel. Inr (case sel of AutoGpu \<Rightarrow> [] | GpuIndex i \<Rightarrow> [i])))"

definition csv_args :: "u32 list \<Rightarrow> string list" where
  "csv_args indices = optional_arg ''--gpu'' (gpu_indices_to_csv indices)"

definition engine_serve_http_args ::
  "string \<Rightarrow> string \<Rightarrow> string \<Rightarrow> string \<Rightarrow> u16 \<Rightarrow> string \<Rightarrow> u32 list \<Rightarrow> string option \<Rightarrow> string option \<Rightarrow> string option \<Rightarrow>
     string \<Rightarrow> string list" where
  "engine_serve_http_args engine service_id canonical_model_id address port device_policy gpu_indices runtime_id env_id
       engine_recipe_json state_path =
     [''__engine-serve-http'', engine, service_id, canonical_model_id, ''--host'', address, ''--port'',
      show_nat (unat port), ''--device-policy'', device_policy] @
     csv_args gpu_indices @ optional_arg ''--runtime-id'' runtime_id @ optional_arg ''--env-id'' env_id @
     optional_arg ''--engine-recipe-json'' engine_recipe_json @ [''--state-path'', state_path]"

definition recovery_supervise_args :: "service \<Rightarrow> string list" where
  "recovery_supervise_args r =
     [''supervise'', sr_service_id r, ''--engine'', sr_engine r, ''--model-ref'', sr_model_ref r,
      ''--canonical-model-id'', sr_canonical_model_id r, ''--host'', sr_host r, ''--port'', show_nat (unat (sr_port r)),
      ''--device-policy'', case sr_device_policy r of Some p \<Rightarrow> p | None \<Rightarrow> ''gpu_required''] @
     optional_arg ''--runtime-id'' (sr_runtime_id r) @ optional_arg ''--env-id'' (sr_env_id r) @
     csv_args (sr_gpu_indices r) @ optional_arg ''--engine-recipe-json'' (sr_engine_recipe_json r)"

section \<open>Startup phases in the log\<close>

text \<open>The text is its bytes; the lossy conversion of invalid ones leaves every ASCII byte as it is, and
  only those are looked at.\<close>

definition last_cr_segment :: "string \<Rightarrow> string" where
  "last_cr_segment line = rev (takeWhile (\<lambda>c. c \<noteq> CHR 0x0D) (rev line))"

definition classify_startup_phase :: "string \<Rightarrow> string option" where
  "classify_startup_phase line =
     (let l = to_ascii_lowercase line in
      if str_contains l ''capturing cuda graph'' \<or> str_contains l ''capturing the model'' \<or>
         str_contains l ''warming up'' \<or> str_contains l ''warmup'' then Some ''warmup''
      else if str_contains l ''loading weights'' \<or> str_contains l ''loading model'' \<or>
         str_contains l ''load_tensors'' \<or> str_contains l ''llama_model_loader'' \<or>
         str_contains l ''model loading took'' then Some ''loading''
      else if str_contains l ''downloading'' \<or> str_contains l ''fetching'' then Some ''downloading''
      else None)"

text \<open>\<^verbatim>\<open>str::lines\<close>: a final newline opens no line, and one carriage return before a newline belongs to it.\<close>

definition chop_cr :: "string \<Rightarrow> string" where
  "chop_cr s = (if s \<noteq> [] \<and> last s = CHR 0x0D then butlast s else s)"

fun lines_from :: "string \<Rightarrow> string \<Rightarrow> string list" where
  "lines_from acc [] = (if acc = [] then [] else [rev acc])"
| "lines_from acc (c # s) =
     (if c = CHR 0x0A then chop_cr (rev acc) # lines_from [] s else lines_from (c # acc) s)"

text \<open>The open, the length and the read can each fail; \<^verbatim>\<open>content\<close> is the file when it was opened.\<close>

definition read_new_log_phase :: "string option \<Rightarrow> bool \<Rightarrow> nat \<Rightarrow> string option \<times> nat" where
  "read_new_log_phase content readable pos0 =
     (case content of None \<Rightarrow> (None, pos0)
      | Some bytes \<Rightarrow>
          (let pos = (if length bytes < pos0 then 0 else pos0) in
           if length bytes = pos then (None, pos)
           else if \<not> readable then (None, pos)
           else
             let new = drop pos bytes in
             (foldl (\<lambda>phase line. case classify_startup_phase (last_cr_segment line) of
                        Some found \<Rightarrow> Some found | None \<Rightarrow> phase) None (lines_from [] new),
              pos + length new)))"

section \<open>The supervisor's writes\<close>

definition update_supervised_record ::
  "runtime_platform \<Rightarrow> app_paths \<Rightarrow> bool \<Rightarrow> (registry \<Rightarrow> registry) \<Rightarrow> service \<Rightarrow> (service \<Rightarrow> service) \<Rightarrow> registry \<Rightarrow>
     (control_error + unit) \<times> registry" where
  "update_supervised_record host paths ok window supervisor update reg =
     (if map_of reg (service_manifest_path host paths (sr_service_id supervisor)) = None then (Inr (), reg)
      else case load_service_record host paths reg (sr_service_id supervisor) of
        Inl e \<Rightarrow> (Inl e, reg)
      | Inr current \<Rightarrow>
          if sr_supervisor_pid current \<noteq> sr_supervisor_pid supervisor \<or>
             sr_supervisor_start_ticks current \<noteq> sr_supervisor_start_ticks supervisor
          then (Inr (), reg)
          else write_record host ok (update current) (window reg))"

datatype supervisor_step = EngineStarted u32 | PhaseSeen string | BecameReady | EngineExited bool

fun supervised_update :: "(u32 \<Rightarrow> u64 option) \<Rightarrow> supervisor_step \<Rightarrow> service \<Rightarrow> service" where
  "supervised_update ticks (EngineStarted p) r = (record_engine_identity ticks p r)\<lparr>sr_status := ''running''\<rparr>"
| "supervised_update ticks (PhaseSeen phase) r = r\<lparr>sr_startup_phase := Some phase\<rparr>"
| "supervised_update ticks BecameReady r = r\<lparr>sr_status := ''ready'', sr_startup_phase := None\<rparr>"
| "supervised_update ticks (EngineExited success) r = r\<lparr>sr_status := if success then ''stopped'' else ''failed''\<rparr>"

definition record_supervised_exit ::
  "runtime_platform \<Rightarrow> app_paths \<Rightarrow> bool \<Rightarrow> (registry \<Rightarrow> registry) \<Rightarrow> service \<Rightarrow> bool \<Rightarrow> registry \<Rightarrow>
     (control_error + unit) \<times> registry" where
  "record_supervised_exit host paths ok window supervisor success =
     update_supervised_record host paths ok window supervisor (supervised_update (\<lambda>_. None) (EngineExited success))"

section \<open>The supervisor\<close>

record supervise_args =
  sa_service_id :: string
  sa_engine :: string
  sa_model_ref :: string
  sa_canonical_model_id :: string
  sa_runtime_id :: "string option"
  sa_env_id :: "string option"
  sa_host :: string
  sa_port :: u16
  sa_device_policy :: string
  sa_gpu :: "string option"
  sa_engine_recipe_json :: "string option"

text \<open>\<^verbatim>\<open>key_recorded\<close> and \<^verbatim>\<open>key_applied\<close> are whether a valid key file was found at the two checks.\<close>

record supervise_env =
  sv_host :: runtime_platform
  sv_paths :: app_paths
  sv_now :: u128
  sv_ipv6 :: "string \<Rightarrow> bool"
  sv_own_pid :: u32
  sv_ticks :: "u32 \<Rightarrow> u64 option"
  sv_key_recorded :: bool
  sv_key_applied :: bool
  sv_write_ok :: bool
  sv_prepared :: bool
  sv_spawn :: "u32 option"

datatype supervise_error = BadGpu gpu_error | SuperviseRegistry control_error | Keyless key_error |
  NotPrepared | EngineNotSpawned

definition supervised_record :: "supervise_env \<Rightarrow> supervise_args \<Rightarrow> u32 list \<Rightarrow> service option \<Rightarrow> service" where
  "supervised_record env a gpus existing =
     (record_supervisor_identity (sv_ticks env) (sv_own_pid env)
        (service_new (sv_host env) (sv_ipv6 env) (sv_now env) (sv_paths env) (sa_service_id a) (sa_engine a) (sa_model_ref a)
           (sa_canonical_model_id a) (sa_host a) (sa_port a) ''managed'' (sv_own_pid env) (sa_runtime_id a) (sa_env_id a)
           (Some (sa_device_policy a))))
       \<lparr>sr_gpu_indices := gpus, sr_engine_recipe_json := sa_engine_recipe_json a,
        sr_requires_api_key := (case existing of Some r \<Rightarrow> sr_requires_api_key r | None \<Rightarrow> False),
        sr_stop_requested_unix_ms := (case existing of Some r \<Rightarrow> sr_stop_requested_unix_ms r | None \<Rightarrow> None)\<rparr>"

text \<open>Up to and including the spawn of the engine: the record as written, the registry, and the PID
  of the engine if one was started.\<close>

definition supervise_start ::
  "supervise_env \<Rightarrow> supervise_args \<Rightarrow> registry \<Rightarrow> (supervise_error + service \<times> u32) \<times> registry" where
  "supervise_start env a reg =
     (case parse_gpu_indices_arg (sa_gpu a) of
        Inl e \<Rightarrow> (Inl (BadGpu e), reg)
      | Inr gpus \<Rightarrow>
          (case load_managed_services reg of
             Inl e \<Rightarrow> (Inl (SuperviseRegistry e), reg)
           | Inr records \<Rightarrow>
               (let r = supervised_record env a gpus (find (\<lambda>x. sr_service_id x = sa_service_id a) records) in
                case ensure_public_service_has_endpoint_key (sr_host r) (sv_key_recorded env) (sr_requires_api_key r) of
                  Inl e \<Rightarrow> (Inl (Keyless e), reg)
                | Inr _ \<Rightarrow>
                    (case write_record (sv_host env) (sv_write_ok env) r reg of
                       (Inl e, reg1) \<Rightarrow> (Inl (SuperviseRegistry e), reg1)
                     | (Inr _, reg1) \<Rightarrow>
                         if \<not> sv_prepared env then (Inl NotPrepared, reg1)
                         else (case ensure_public_service_has_endpoint_key (sr_host r) (sv_key_applied env) (sr_requires_api_key r) of
                                 Inl e \<Rightarrow> (Inl (Keyless e), reg1)
                               | Inr _ \<Rightarrow>
                                   (case sv_spawn env of None \<Rightarrow> (Inl EngineNotSpawned, reg1)
                                    | Some p \<Rightarrow> (Inr (r, p), reg1)))))))"

text \<open>The rest of the supervisor's life, one write per step: each comes with what others do before
  it, what they do in its window, and whether the write succeeds. An error of a phase write is
  ignored, any other ends the supervisor.\<close>

definition supervisor_steps :: "u32 \<Rightarrow> string list \<Rightarrow> bool \<Rightarrow> bool \<Rightarrow> supervisor_step list" where
  "supervisor_steps engine_pid phases ready success =
     EngineStarted engine_pid # map PhaseSeen phases @ (if ready then [BecameReady] else []) @ [EngineExited success]"

record surroundings =
  su_before :: "registry \<Rightarrow> registry"
  su_window :: "registry \<Rightarrow> registry"
  su_ok :: bool

fun supervise_run ::
  "supervise_env \<Rightarrow> service \<Rightarrow> (supervisor_step \<times> surroundings) list \<Rightarrow> registry \<Rightarrow> (control_error + unit) \<times> registry" where
  "supervise_run env r [] reg = (Inr (), reg)"
| "supervise_run env r ((st, su) # rest) reg =
     (case update_supervised_record (sv_host env) (sv_paths env) (su_ok su) (su_window su) r
             (supervised_update (sv_ticks env) st) (su_before su reg) of
        (Inr _, reg1) \<Rightarrow> supervise_run env r rest reg1
      | (Inl e, reg1) \<Rightarrow> (case st of PhaseSeen _ \<Rightarrow> supervise_run env r rest reg1 | _ \<Rightarrow> (Inl e, reg1)))"

section \<open>Restarting\<close>

datatype restart_error = LockNotTaken | RegistryFailed control_error | PortClaimedBy string | StopWasRequested |
  RecordChanged | ServiceRemoved | PortNotFree | NoExecutable | NoLogFile | NotPublished control_error | NotSpawned |
  SupervisorNotRecorded control_error | WaitFailed | ExitedAtOnce | NotMarkedFailed control_error |
  RollbackFailed restart_error control_error

datatype wait_result = WaitError | StillRunning | Exited

datatype supervisor_event = Spawned u32 | Terminated u32

record restart_env =
  rx_host :: runtime_platform
  rx_paths :: app_paths
  rx_now :: u128
  rx_ticks :: "u32 \<Rightarrow> u64 option"
  rx_lock :: bool
  rx_port_free :: bool
  rx_executable :: bool
  rx_log :: bool
  rx_publish :: bool
  rx_spawn :: "u32 option"
  rx_wait :: wait_result
  rx_after_publish :: "registry \<Rightarrow> registry"
  rx_after_record :: "registry \<Rightarrow> registry"
  rx_record_window :: "registry \<Rightarrow> registry"
  rx_record_ok :: bool
  rx_last_window :: "registry \<Rightarrow> registry"
  rx_last_ok :: bool

text \<open>The re-check under the lock.\<close>

definition recheck :: "restart_env \<Rightarrow> service \<Rightarrow> registry \<Rightarrow> restart_error option" where
  "recheck env r reg =
     (case load_managed_services reg of
        Inl e \<Rightarrow> Some (RegistryFailed e)
      | Inr on_disk \<Rightarrow>
          (case find (\<lambda>x. sr_service_id x \<noteq> sr_service_id r \<and> blocks_port x (sr_port r)) on_disk of
             Some other \<Rightarrow> Some (PortClaimedBy (sr_service_id other))
           | None \<Rightarrow>
               (case load_service_record (rx_host env) (rx_paths env) reg (sr_service_id r) of
                  Inl e \<Rightarrow> if map_of reg (service_manifest_path (rx_host env) (rx_paths env) (sr_service_id r)) = None
                            then Some ServiceRemoved else Some (RegistryFailed e)
                | Inr current \<Rightarrow>
                    if sr_stop_requested_unix_ms current \<noteq> None \<and>
                       sr_stop_requested_unix_ms current \<noteq> sr_stop_requested_unix_ms r
                    then Some StopWasRequested
                    else if sr_status current \<noteq> sr_status r \<or> sr_supervisor_pid current \<noteq> sr_supervisor_pid r \<or>
                       sr_supervisor_start_ticks current \<noteq> sr_supervisor_start_ticks r \<or>
                       sr_engine_pid current \<noteq> sr_engine_pid r
                    then Some RecordChanged
                    else if is_canonical_loopback_host (sr_host r) \<and> \<not> rx_port_free env then Some PortNotFree
                    else if \<not> rx_executable env then Some NoExecutable
                    else if \<not> rx_log env then Some NoLogFile
                    else None)))"

definition recovering :: "u128 \<Rightarrow> service \<Rightarrow> service" where
  "recovering now r =
     (clear_recorded_pids (reset_for_restart now (r\<lparr>sr_status := ''recovering''\<rparr>)))\<lparr>sr_stop_requested_unix_ms := None\<rparr>"

definition restored :: "service \<Rightarrow> service \<Rightarrow> service" where
  "restored restore current =
     current\<lparr>sr_status := sr_status restore, sr_supervisor_pid := sr_supervisor_pid restore,
       sr_supervisor_start_ticks := sr_supervisor_start_ticks restore, sr_engine_pid := sr_engine_pid restore,
       sr_engine_start_ticks := sr_engine_start_ticks restore, sr_restart_count := sr_restart_count restore,
       sr_last_restart_unix_ms := sr_last_restart_unix_ms restore,
       sr_inference_verified_at_unix_ms := sr_inference_verified_at_unix_ms restore,
       sr_inference_probe_attempted_at_unix_ms := sr_inference_probe_attempted_at_unix_ms restore\<rparr>"

definition rollback_recovering_record ::
  "restart_env \<Rightarrow> service \<Rightarrow> service \<Rightarrow> registry \<Rightarrow> (control_error + unit) \<times> registry" where
  "rollback_recovering_record env snapshot restore reg =
     (if map_of reg (service_manifest_path (rx_host env) (rx_paths env) (sr_service_id snapshot)) = None then (Inr (), reg)
      else case load_service_record (rx_host env) (rx_paths env) reg (sr_service_id snapshot) of
        Inr current \<Rightarrow>
          (if sr_supervisor_pid current = sr_supervisor_pid snapshot \<and>
              sr_supervisor_start_ticks current = sr_supervisor_start_ticks snapshot
           then write_record (rx_host env) (rx_last_ok env) (restored restore current) (rx_last_window env reg)
           else (Inr (), reg))
      | Inl _ \<Rightarrow> write_record (rx_host env) (rx_last_ok env) restore (rx_last_window env reg))"

definition fail_recovery ::
  "restart_env \<Rightarrow> service \<Rightarrow> service \<Rightarrow> service \<Rightarrow> restart_error \<Rightarrow> registry \<Rightarrow> restart_error \<times> service \<times> registry" where
  "fail_recovery env r snapshot prior e reg =
     (case rollback_recovering_record env snapshot prior reg of
        (Inl e2, reg2) \<Rightarrow> (RollbackFailed e e2, r, reg2)
      | (Inr _, reg2) \<Rightarrow> (e, prior, reg2))"

definition with_supervisor :: "restart_env \<Rightarrow> u32 \<Rightarrow> service \<Rightarrow> service" where
  "with_supervisor env p r = record_supervisor_identity (rx_ticks env) p r"

text \<open>The token was read once, for the copy in memory; the record on disk gets the same two values.\<close>

definition record_spawned_supervisor ::
  "restart_env \<Rightarrow> service \<Rightarrow> u32 \<Rightarrow> registry \<Rightarrow> (control_error + unit) \<times> registry" where
  "record_spawned_supervisor env r p reg =
     update_supervised_record (rx_host env) (rx_paths env) (rx_record_ok env) (rx_record_window env) r
       (\<lambda>current. current\<lparr>sr_supervisor_pid := p, sr_supervisor_start_ticks := rx_ticks env p\<rparr>) reg"

definition failed_status :: "service \<Rightarrow> service" where
  "failed_status current = current\<lparr>sr_status := ''failed''\<rparr>"

text \<open>The result, the caller's copy of the record, the registry, and what happened to supervisors.\<close>

definition restart_managed_service_bounded ::
  "restart_env \<Rightarrow> service \<Rightarrow> registry \<Rightarrow> (restart_error + unit) \<times> service \<times> registry \<times> supervisor_event list" where
  "restart_managed_service_bounded env r reg =
     (if \<not> rx_lock env then (Inl LockNotTaken, r, reg, [])
      else case recheck env r reg of
        Some e \<Rightarrow> (Inl e, r, reg, [])
      | None \<Rightarrow>
          (let r1 = recovering (rx_now env) r in
           case write_record (rx_host env) (rx_publish env) r1 reg of
             (Inl e, reg1) \<Rightarrow> (Inl (NotPublished e), r, reg1, [])
           | (Inr _, reg1) \<Rightarrow>
               (case rx_spawn env of
                  None \<Rightarrow>
                    (let (e, r2, reg2) = fail_recovery env r1 r1 r NotSpawned (rx_after_publish env reg1)
                     in (Inl e, r2, reg2, []))
                | Some p \<Rightarrow>
                    (let r2 = with_supervisor env p r1 in
                     case record_spawned_supervisor env r1 p (rx_after_publish env reg1) of
                       (Inl e, reg2) \<Rightarrow>
                         (let (e', r3, reg3) = fail_recovery env r2 r1 r (SupervisorNotRecorded e) (rx_after_record env reg2)
                          in (Inl e', r3, reg3, [Spawned p, Terminated p]))
                     | (Inr _, reg2) \<Rightarrow>
                         (case rx_wait env of
                            WaitError \<Rightarrow>
                              (let (e', r3, reg3) = fail_recovery env r2 r2 r WaitFailed (rx_after_record env reg2)
                               in (Inl e', r3, reg3, [Spawned p, Terminated p]))
                          | StillRunning \<Rightarrow> (Inr (), r2, reg2, [Spawned p])
                          | Exited \<Rightarrow>
                              (case update_supervised_record (rx_host env) (rx_paths env) (rx_last_ok env)
                                      (rx_last_window env) r2 failed_status (rx_after_record env reg2) of
                                 (Inl e, reg3) \<Rightarrow> (Inl (NotMarkedFailed e), r2, reg3, [Spawned p])
                               | (Inr _, reg3) \<Rightarrow> (Inl ExitedAtOnce, r2, reg3, [Spawned p])))))))"

section \<open>What a write leaves on disk\<close>

definition on_disk :: "runtime_platform \<Rightarrow> service \<Rightarrow> service" where
  "on_disk host r = with_storage_paths host (normalize_paths_for_host host r)"

lemma stored_form_on_disk: "snd (stored_form host r) = Stored (on_disk host r)"
  by (simp add: stored_form_def on_disk_def)

text \<open>The fields that are not paths are stored as they are.\<close>

lemma on_disk_fields [simp]:
  "sr_service_id (on_disk host r) = sr_service_id r" "sr_status (on_disk host r) = sr_status r"
  "sr_supervisor_pid (on_disk host r) = sr_supervisor_pid r"
  "sr_supervisor_start_ticks (on_disk host r) = sr_supervisor_start_ticks r"
  "sr_engine_pid (on_disk host r) = sr_engine_pid r" "sr_engine_start_ticks (on_disk host r) = sr_engine_start_ticks r"
  "sr_stop_requested_unix_ms (on_disk host r) = sr_stop_requested_unix_ms r"
  "sr_requires_api_key (on_disk host r) = sr_requires_api_key r" "sr_mode (on_disk host r) = sr_mode r"
  "sr_created_at_unix_ms (on_disk host r) = sr_created_at_unix_ms r"
  "sr_last_restart_unix_ms (on_disk host r) = sr_last_restart_unix_ms r"
  "sr_restart_count (on_disk host r) = sr_restart_count r"
  "sr_port (on_disk host r) = sr_port r" "sr_host (on_disk host r) = sr_host r" "sr_engine (on_disk host r) = sr_engine r"
  by (simp_all add: on_disk_def with_storage_paths_def normalize_paths_for_host_def)

definition own_path :: "runtime_platform \<Rightarrow> app_paths \<Rightarrow> service \<Rightarrow> bool" where
  "own_path host paths r \<longleftrightarrow>
     sr_manifest_path (normalize_paths_for_host host r) = service_manifest_path host paths (sr_service_id r) \<and>
     service_id_new (sr_service_id r) = Inr (sr_service_id r)"

lemma put_put [simp]: "put p m (put p m' reg) = put p m reg"
  by (induction reg) auto

lemma stored_at_own_path: "own_path host paths r \<Longrightarrow> fst (stored_form host r) = service_manifest_path host paths (sr_service_id r)"
  by (simp add: own_path_def stored_form_def)

lemma load_after_put:
  "own_path host paths r \<Longrightarrow>
     load_service_record host paths (put (fst (stored_form host r)) (snd (stored_form host r)) reg) (sr_service_id r) =
       Inr (on_disk host r)"
  by (simp add: load_service_record_def map_of_put stored_at_own_path stored_form_on_disk own_path_def)

text \<open>Changing fields other than the paths commutes with storing.\<close>

lemma stored_form_again:
  assumes "\<And>x. normalize_paths_for_host host (f x) = f (normalize_paths_for_host host x)"
  shows "stored_form host (f (on_disk host r)) = stored_form host (f r)"
  using host_after_storage [of host "normalize_paths_for_host host r"]
  by (simp add: stored_form_def assms on_disk_def normalize_paths_idem)

lemma update_own_record:
  assumes "own_path host paths r" "sr_service_id supervisor = sr_service_id r"
    and "sr_supervisor_pid r = sr_supervisor_pid supervisor"
    and "sr_supervisor_start_ticks r = sr_supervisor_start_ticks supervisor"
    and "\<And>x. normalize_paths_for_host host (f x) = f (normalize_paths_for_host host x)"
    and "\<And>x. sr_manifest_path (f x) = sr_manifest_path x"
  shows "update_supervised_record host paths ok (\<lambda>x. x) supervisor f
      (put (fst (stored_form host r)) (snd (stored_form host r)) reg) =
    (if ok then (Inr (), put (fst (stored_form host r)) (snd (stored_form host (f r))) reg)
     else (Inl NotWritten, put (fst (stored_form host r)) (snd (stored_form host r)) reg))"
proof -
  have p: "fst (stored_form host (f r)) = fst (stored_form host r)"
    using assms(5,6) by (simp add: stored_form_def)
  show ?thesis
    using assms(1-4) load_after_put [OF assms(1)] stored_form_again [of host f r, OF assms(5)] p
    by (simp add: update_supervised_record_def map_of_put stored_at_own_path stored_form_on_disk write_record_form)
qed

section \<open>The supervisor respects what others wrote\<close>

text \<open>What of a record is not the supervisor's to change.\<close>

definition operators_part :: "service \<Rightarrow> service" where
  "operators_part r = r\<lparr>sr_status := [], sr_startup_phase := None, sr_engine_pid := None, sr_engine_start_ticks := None\<rparr>"

definition recorded_at :: "runtime_platform \<Rightarrow> app_paths \<Rightarrow> string \<Rightarrow> service \<Rightarrow> registry \<Rightarrow> bool" where
  "recorded_at host paths sid r reg \<longleftrightarrow>
     (\<exists>cur. load_service_record host paths reg sid = Inr cur \<and>
        operators_part (normalize_paths_for_host host cur) = operators_part (normalize_paths_for_host host r))"

definition belongs_to :: "service \<Rightarrow> service \<Rightarrow> bool" where
  "belongs_to supervisor r \<longleftrightarrow> sr_supervisor_pid r = sr_supervisor_pid supervisor \<and>
     sr_supervisor_start_ticks r = sr_supervisor_start_ticks supervisor"

lemma supervised_update_fields [simp]:
  "normalize_paths_for_host host (supervised_update ticks st r) = supervised_update ticks st (normalize_paths_for_host host r)"
  "operators_part (supervised_update ticks st r) = operators_part r"
  "sr_service_id (supervised_update ticks st r) = sr_service_id r"
  "sr_manifest_path (supervised_update ticks st r) = sr_manifest_path r"
  by (cases st; simp add: normalize_paths_for_host_def operators_part_def record_engine_identity_def)+

lemma update_cases:
  assumes "update_supervised_record host paths ok window supervisor f reg = (res, reg')"
  obtains (untouched) "reg' = reg"
  | (written) cur where "load_service_record host paths reg (sr_service_id supervisor) = Inr cur"
      "belongs_to supervisor cur" "ok" "res = Inr ()"
      "reg' = put (fst (stored_form host (f cur))) (snd (stored_form host (f cur))) (window reg)"
  | (unwritten) "\<not> ok" "reg' = window reg"
proof (cases "map_of reg (service_manifest_path host paths (sr_service_id supervisor)) = None")
  case True
  with assms untouched show ?thesis by (simp add: update_supervised_record_def)
next
  case gone: False
  show ?thesis
  proof (cases "load_service_record host paths reg (sr_service_id supervisor)")
    case (Inl e)
    with assms gone untouched show ?thesis by (simp add: update_supervised_record_def)
  next
    case (Inr cur)
    show ?thesis
    proof (cases "belongs_to supervisor cur")
      case True
      with assms gone Inr have "write_record host ok (f cur) (window reg) = (res, reg')"
        by (simp add: update_supervised_record_def belongs_to_def)
      with written [OF Inr True] unwritten show ?thesis by (cases ok) (auto simp: write_record_form)
    next
      case False
      with assms gone Inr have "reg' = reg" by (auto simp: update_supervised_record_def belongs_to_def)
      then show ?thesis by (rule untouched)
    qed
  qed
qed

lemma load_put_elsewhere:
  "p \<noteq> service_manifest_path host paths sid \<Longrightarrow>
     load_service_record host paths (put p m reg) sid = load_service_record host paths reg sid"
  by (cases "service_id_new sid") (simp_all add: load_service_record_def map_of_put not_sym)

lemma load_put_here:
  "load_service_record host paths reg sid = Inr cur \<Longrightarrow> sr_service_id r = sid \<Longrightarrow>
     load_service_record host paths (put (service_manifest_path host paths sid) (Stored r) reg) sid = Inr r"
  by (auto simp: load_service_record_def map_of_put split: sum.splits)

lemma load_service_id: "load_service_record host paths reg sid = Inr cur \<Longrightarrow> sr_service_id cur = sid"
  by (auto simp: load_service_record_def split: sum.splits option.splits manifest.splits if_splits)

lemma normalize_on_disk [simp]: "normalize_paths_for_host host (on_disk host r) = normalize_paths_for_host host r"
  by (simp add: on_disk_def host_after_storage normalize_paths_idem)

lemma update_keeps_operators_part:
  assumes "update_supervised_record host paths ok (\<lambda>x. x) supervisor (supervised_update ticks st) reg = (res, reg')"
    and "recorded_at host paths (sr_service_id supervisor) r reg"
  shows "recorded_at host paths (sr_service_id supervisor) r reg'"
  using assms(1)
proof (cases rule: update_cases)
  case (written cur)
  let ?new = "supervised_update ticks st cur"
  from assms(2) written(1) have same: "operators_part (normalize_paths_for_host host cur) = operators_part (normalize_paths_for_host host r)"
    by (simp add: recorded_at_def)
  show ?thesis
  proof (cases "fst (stored_form host ?new) = service_manifest_path host paths (sr_service_id supervisor)")
    case True
    have "load_service_record host paths reg' (sr_service_id supervisor) = Inr (on_disk host ?new)"
      unfolding written(5) True stored_form_on_disk
      by (rule load_put_here [OF written(1)]) (simp add: load_service_id [OF written(1)])
    with same show ?thesis by (simp add: recorded_at_def)
  next
    case False
    with assms(2) written(5) show ?thesis by (simp add: recorded_at_def load_put_elsewhere)
  qed
qed (use assms(2) in auto)

lemma update_foreign:
  assumes "update_supervised_record host paths ok (\<lambda>x. x) supervisor f reg = (res, reg')"
    and "map_of reg (service_manifest_path host paths (sr_service_id supervisor)) = None \<or>
      (\<exists>cur. load_service_record host paths reg (sr_service_id supervisor) = Inr cur \<and> \<not> belongs_to supervisor cur)"
  shows "reg' = reg \<and> res = Inr ()"
  using assms by (auto simp: update_supervised_record_def belongs_to_def split: if_splits)

definition removed_at :: "runtime_platform \<Rightarrow> app_paths \<Rightarrow> string \<Rightarrow> registry \<Rightarrow> bool" where
  "removed_at host paths sid reg \<longleftrightarrow> map_of reg (service_manifest_path host paths sid) = None"

text \<open>What other processes write before a step keeps a property of the registry.\<close>

definition others_keep :: "(registry \<Rightarrow> bool) \<Rightarrow> (supervisor_step \<times> surroundings) list \<Rightarrow> bool" where
  "others_keep P steps \<longleftrightarrow> (\<forall>(st, su) \<in> set steps. \<forall>x. P x \<longrightarrow> P (su_before su x))"

lemma supervise_run_invariant:
  assumes "supervise_run env r steps reg = (res, reg')" "P reg"
    and "\<And>st su reg1 res2 reg2. (st, su) \<in> set steps \<Longrightarrow> P reg1 \<Longrightarrow>
      update_supervised_record (sv_host env) (sv_paths env) (su_ok su) (su_window su) r (supervised_update (sv_ticks env) st)
        (su_before su reg1) = (res2, reg2) \<Longrightarrow> P reg2"
  shows "P reg'"
  using assms
proof (induction steps arbitrary: reg)
  case (Cons x steps)
  obtain st su where x: "x = (st, su)" by fastforce
  obtain res2 reg2 where u: "update_supervised_record (sv_host env) (sv_paths env) (su_ok su) (su_window su) r
      (supervised_update (sv_ticks env) st) (su_before su reg) = (res2, reg2)" by fastforce
  have p2: "P reg2" by (rule Cons.prems(3) [of st su, OF _ Cons.prems(2) u]) (simp add: x)
  have inv: "P reg4" if "(st3, su3) \<in> set steps" "P reg3"
    "update_supervised_record (sv_host env) (sv_paths env) (su_ok su3) (su_window su3) r
       (supervised_update (sv_ticks env) st3) (su_before su3 reg3) = (res4, reg4)" for st3 su3 reg3 res4 reg4
    by (rule Cons.prems(3) [OF _ that(2,3)]) (simp add: that(1))
  from Cons.prems(1) consider "supervise_run env r steps reg2 = (res, reg')" | "reg' = reg2"
    by (auto simp: x u split: sum.splits supervisor_step.splits)
  then show ?case
    using Cons.IH [OF _ p2 inv] p2 by cases auto
qed simp


text \<open>A service is never recovered without the key it needs: when the engine is started, a
  key file was there at both checks if the registry says the service requires one or its host is
  public. A refusal at the first check leaves the registry as it was. The new record carries over
  the key requirement and a standing stop request, and the GPU the previous one was pinned to.\<close>

theorem keyless_never_recovered:
  assumes "supervise_start env a reg = (res, reg')" and "load_managed_services reg = Inr records"
    and "existing = find (\<lambda>x. sr_service_id x = sa_service_id a) records"
  shows "(\<forall>r p. res = Inr (r, p) \<longrightarrow>
      sv_spawn env = Some p \<and>
      (sr_requires_api_key r \<or> is_public_bind_host (sr_host r) \<longrightarrow> sv_key_recorded env \<and> sv_key_applied env) \<and>
      sr_host r = sa_host a \<and>
      sr_requires_api_key r = (case existing of Some x \<Rightarrow> sr_requires_api_key x | None \<Rightarrow> False) \<and>
      sr_stop_requested_unix_ms r = (case existing of Some x \<Rightarrow> sr_stop_requested_unix_ms x | None \<Rightarrow> None) \<and>
      (\<forall>i. sa_gpu a = gpu_indices_to_csv [i] \<longrightarrow> sr_gpu_indices r = [i]) \<and>
      sr_supervisor_pid r = sv_own_pid env \<and> sr_supervisor_start_ticks r = sv_ticks env (sv_own_pid env) \<and>
      reg' = put (fst (stored_form (sv_host env) r)) (snd (stored_form (sv_host env) r)) reg) \<and>
    ((case existing of Some x \<Rightarrow> sr_requires_api_key x | None \<Rightarrow> False) \<or> is_public_bind_host (sa_host a) \<longrightarrow>
      \<not> sv_key_recorded env \<longrightarrow> (\<exists>e. res = Inl e) \<and> reg' = reg)"
proof (cases "parse_gpu_indices_arg (sa_gpu a)")
  case (Inl e)
  with assms(1) show ?thesis by (auto simp: supervise_start_def)
next
  case (Inr gpus)
  let ?r = "supervised_record env a gpus existing"
  have fields: "sr_host ?r = sa_host a"
    "sr_requires_api_key ?r = (case existing of Some x \<Rightarrow> sr_requires_api_key x | None \<Rightarrow> False)"
    "sr_stop_requested_unix_ms ?r = (case existing of Some x \<Rightarrow> sr_stop_requested_unix_ms x | None \<Rightarrow> None)"
    "sr_gpu_indices ?r = gpus" "sr_supervisor_pid ?r = sv_own_pid env"
    "sr_supervisor_start_ticks ?r = sv_ticks env (sv_own_pid env)"
    by (simp_all add: supervised_record_def service_new_def record_supervisor_identity_def)
  have pinned: "gpus = [i]" if "sa_gpu a = gpu_indices_to_csv [i]" for i
  proof -
    have "list_all ascii_graphic (show_nat (unat i))"
      using show_nat_digits [of "unat i"] by (auto simp: list_all_iff digit_graphic)
    then have "trim (show_nat (unat i)) = show_nat (unat i)" by (rule trim_graphic)
    moreover have "show_nat (unat i) \<noteq> ''auto''" "CHR '','' \<notin> set (show_nat (unat i))"
      using show_nat_digits [of "unat i"] by (auto simp: list_all_iff is_ascii_digit_def)
    moreover have "to_ascii_lowercase (show_nat (unat i)) = show_nat (unat i)"
      using show_nat_digits [of "unat i"] by (auto simp: list_all_iff intro!: to_ascii_lowercase_id)
    moreover have "unat i < 2 ^ 32" using unsigned_less [of i] by simp
    ultimately show ?thesis using Inr that
      by (simp add: gpu_indices_to_csv_def parse_gpu_indices_arg_def parse_cli_value_def parse_uint_show_nat)
  qed
  show ?thesis
    using assms(1,2) Inr pinned fields assms(3)
    by (auto simp: supervise_start_def Let_def ensure_public_service_has_endpoint_key_def write_record_form
        split: if_splits option.splits)
qed

section \<open>A restart is guarded\<close>

lemma recheck_passed:
  assumes "recheck env r reg = None"
  obtains records current where "load_managed_services reg = Inr records"
    "\<forall>x \<in> set records. sr_service_id x \<noteq> sr_service_id r \<longrightarrow> \<not> blocks_port x (sr_port r)"
    "load_service_record (rx_host env) (rx_paths env) reg (sr_service_id r) = Inr current"
    "sr_stop_requested_unix_ms current \<in> {None, sr_stop_requested_unix_ms r}"
    "sr_status current = sr_status r" "belongs_to r current" "sr_engine_pid current = sr_engine_pid r"
    "is_canonical_loopback_host (sr_host r) \<longrightarrow> rx_port_free env"
proof -
  from assms obtain records where records: "load_managed_services reg = Inr records"
    by (auto simp: recheck_def split: sum.splits)
  with assms have none: "find (\<lambda>x. sr_service_id x \<noteq> sr_service_id r \<and> blocks_port x (sr_port r)) records = None"
    by (auto simp: recheck_def split: option.splits)
  with assms records obtain current
    where current: "load_service_record (rx_host env) (rx_paths env) reg (sr_service_id r) = Inr current"
    by (auto simp: recheck_def split: sum.splits if_splits)
  show ?thesis
    by (rule that [OF records _ current])
      (use assms records none current in \<open>auto simp: recheck_def belongs_to_def find_None_iff split: if_splits\<close>)
qed

lemma fail_recovery_error: "\<exists>e'. fst (fail_recovery env r snapshot prior e reg) = e'"
  by simp

lemma restart_refused:
  "\<not> rx_lock env \<or> recheck env r reg \<noteq> None \<Longrightarrow>
     \<exists>e. restart_managed_service_bounded env r reg = (Inl e, r, reg, [])"
  by (cases "recheck env r reg") (auto simp: restart_managed_service_bounded_def)

lemma restart_published:
  assumes "restart_managed_service_bounded env r reg = (res, r', reg', evs)" "rx_lock env" "recheck env r reg = None"
  shows "(evs = [] \<and> (\<exists>e. res = Inl e)) \<or>
    (\<exists>p. rx_spawn env = Some p \<and> rx_publish env \<and>
      (evs = [Spawned p, Terminated p] \<and> (\<exists>e. res = Inl e) \<or>
       evs = [Spawned p] \<and> (res = Inr () \<and> rx_wait env = StillRunning \<or> (\<exists>e. res = Inl e) \<and> rx_wait env = Exited)))"
proof (cases "rx_publish env")
  case False
  with assms show ?thesis by (auto simp: restart_managed_service_bounded_def Let_def write_record_form)
next
  case True
  show ?thesis
  proof (cases "rx_spawn env")
    case None
    with assms True show ?thesis
      by (auto simp: restart_managed_service_bounded_def Let_def write_record_form split: prod.splits)
  next
    case (Some p)
    let ?reg1 = "put (fst (stored_form (rx_host env) (recovering (rx_now env) r)))
      (snd (stored_form (rx_host env) (recovering (rx_now env) r))) reg"
    show ?thesis
      using assms True Some
      by (cases "record_spawned_supervisor env (recovering (rx_now env) r) p (rx_after_publish env ?reg1)")
        (auto simp: restart_managed_service_bounded_def Let_def write_record_form
          split: prod.splits sum.splits wait_result.splits)
  qed
qed

text \<open>C5. A restart that is refused changes nothing at all. A supervisor is spawned only under the
  launch lock, when no other live service has the port, when the service's record is still the
  one the caller saw, and when no stop was requested since the caller read it; on the canonical
  loopback host only when the port could be bound. And no supervisor is ever left running
  without the restart having succeeded: it is terminated, or had exited by itself.\<close>

theorem restart_guarded:
  assumes "restart_managed_service_bounded env r reg = (res, r', reg', evs)"
  shows "(\<not> rx_lock env \<or> recheck env r reg \<noteq> None \<longrightarrow> reg' = reg \<and> r' = r \<and> evs = [] \<and> (\<exists>e. res = Inl e)) \<and>
    (\<forall>p. Spawned p \<in> set evs \<longrightarrow>
      rx_lock env \<and> (is_canonical_loopback_host (sr_host r) \<longrightarrow> rx_port_free env) \<and>
      (\<exists>records current. load_managed_services reg = Inr records \<and>
        (\<forall>x \<in> set records. sr_service_id x \<noteq> sr_service_id r \<longrightarrow> \<not> blocks_port x (sr_port r)) \<and>
        load_service_record (rx_host env) (rx_paths env) reg (sr_service_id r) = Inr current \<and>
        sr_stop_requested_unix_ms current \<in> {None, sr_stop_requested_unix_ms r} \<and>
        sr_status current = sr_status r \<and> belongs_to r current \<and> sr_engine_pid current = sr_engine_pid r) \<and>
      (res = Inr () \<or> Terminated p \<in> set evs \<or> rx_wait env = Exited))"
proof (cases "rx_lock env \<and> recheck env r reg = None")
  case False
  with restart_refused [of env r reg] assms show ?thesis by auto
next
  case True
  then obtain records current where facts: "load_managed_services reg = Inr records"
    "\<forall>x \<in> set records. sr_service_id x \<noteq> sr_service_id r \<longrightarrow> \<not> blocks_port x (sr_port r)"
    "load_service_record (rx_host env) (rx_paths env) reg (sr_service_id r) = Inr current"
    "sr_stop_requested_unix_ms current \<in> {None, sr_stop_requested_unix_ms r}"
    "sr_status current = sr_status r" "belongs_to r current" "sr_engine_pid current = sr_engine_pid r"
    "is_canonical_loopback_host (sr_host r) \<longrightarrow> rx_port_free env"
    using recheck_passed [of env r reg] by blast
  from restart_published [OF assms] True
  have "\<forall>p. Spawned p \<in> set evs \<longrightarrow> res = Inr () \<or> Terminated p \<in> set evs \<or> rx_wait env = Exited" by auto
  with facts True show ?thesis by auto
qed

section \<open>A failed restart is undone\<close>

definition undisturbed :: "restart_env \<Rightarrow> bool" where
  "undisturbed env \<longleftrightarrow> rx_after_publish env = (\<lambda>x. x) \<and> rx_after_record env = (\<lambda>x. x) \<and>
     rx_record_window env = (\<lambda>x. x) \<and> rx_last_window env = (\<lambda>x. x)"

definition store_at :: "runtime_platform \<Rightarrow> service \<Rightarrow> registry \<Rightarrow> registry" where
  "store_at host r reg = put (fst (stored_form host r)) (snd (stored_form host r)) reg"

lemma recovering_fields [simp]:
  "sr_service_id (recovering now r) = sr_service_id r" "sr_supervisor_pid (recovering now r) = 0"
  "sr_supervisor_start_ticks (recovering now r) = None" "sr_manifest_path (recovering now r) = sr_manifest_path r"
  "normalize_paths_for_host host (recovering now r) = recovering now (normalize_paths_for_host host r)"
  by (simp_all add: recovering_def clear_recorded_pids_def reset_for_restart_def normalize_paths_for_host_def)

lemma with_supervisor_fields [simp]:
  "sr_service_id (with_supervisor env p r) = sr_service_id r" "sr_supervisor_pid (with_supervisor env p r) = p"
  "sr_supervisor_start_ticks (with_supervisor env p r) = rx_ticks env p"
  "sr_manifest_path (with_supervisor env p r) = sr_manifest_path r"
  "normalize_paths_for_host host (with_supervisor env p r) = with_supervisor env p (normalize_paths_for_host host r)"
  by (simp_all add: with_supervisor_def record_supervisor_identity_def normalize_paths_for_host_def)

lemma failed_status_fields [simp]:
  "normalize_paths_for_host host (failed_status r) = failed_status (normalize_paths_for_host host r)"
  "sr_manifest_path (failed_status r) = sr_manifest_path r"
  by (simp_all add: failed_status_def normalize_paths_for_host_def)

lemma restored_recovering:
  "restored r (recovering now r) = r\<lparr>sr_stop_requested_unix_ms := None\<rparr>"
  "restored r (with_supervisor env p (recovering now r)) = r\<lparr>sr_stop_requested_unix_ms := None\<rparr>"
  by (simp_all add: restored_def recovering_def clear_recorded_pids_def reset_for_restart_def with_supervisor_def
    record_supervisor_identity_def)

lemma own_path_fields:
  "own_path host paths r \<Longrightarrow> own_path host paths (recovering now r)"
  "own_path host paths r \<Longrightarrow> own_path host paths (with_supervisor env p r)"
  by (simp_all add: own_path_def)

lemma rollback_own_record:
  assumes "own_path (rx_host env) (rx_paths env) x" "sr_service_id snapshot = sr_service_id x" "belongs_to snapshot x"
    and "rx_last_window env = (\<lambda>x. x)" "rx_last_ok env"
  shows "rollback_recovering_record env snapshot restore (store_at (rx_host env) x reg) =
    (Inr (), store_at (rx_host env) (restored restore x) reg)"
proof -
  have c: "normalize_paths_for_host (rx_host env) (restored restore y) = restored restore (normalize_paths_for_host (rx_host env) y)"
    and m: "sr_manifest_path (restored restore y) = sr_manifest_path y" for y
    by (simp_all add: restored_def normalize_paths_for_host_def)
  have p: "fst (stored_form (rx_host env) (restored restore x)) = fst (stored_form (rx_host env) x)"
    by (simp add: stored_form_def c m)
  show ?thesis
    using assms load_after_put [OF assms(1)] stored_form_again [of "rx_host env" "restored restore" x, OF c] p
    by (simp add: rollback_recovering_record_def store_at_def map_of_put stored_at_own_path stored_form_on_disk
      write_record_form belongs_to_def)
qed

lemma publish_own:
  assumes "own_path (rx_host env) (rx_paths env) r" "undisturbed env" "rx_record_ok env"
  shows "record_spawned_supervisor env (recovering now r) p (store_at (rx_host env) (recovering now r) reg) =
    (Inr (), store_at (rx_host env) (with_supervisor env p (recovering now r)) reg)"
proof -
  have f: "(\<lambda>current. current\<lparr>sr_supervisor_pid := p, sr_supervisor_start_ticks := rx_ticks env p\<rparr>) = with_supervisor env p"
    by (simp add: fun_eq_iff with_supervisor_def record_supervisor_identity_def)
  have "fst (stored_form (rx_host env) (with_supervisor env p (recovering now r))) =
      fst (stored_form (rx_host env) (recovering now r))"
    by (simp add: stored_form_def)
  then show ?thesis
    using assms update_own_record [OF own_path_fields(1) [OF assms(1)], where supervisor = "recovering now r" and f = "with_supervisor env p" and ok = "rx_record_ok env" and reg = reg]
    by (simp add: record_spawned_supervisor_def undisturbed_def f store_at_def)
qed

lemma publish_own_fails:
  assumes "own_path (rx_host env) (rx_paths env) r" "undisturbed env" "\<not> rx_record_ok env"
  shows "record_spawned_supervisor env (recovering now r) p (store_at (rx_host env) (recovering now r) reg) =
    (Inl NotWritten, store_at (rx_host env) (recovering now r) reg)"
proof -
  have f: "(\<lambda>current. current\<lparr>sr_supervisor_pid := p, sr_supervisor_start_ticks := rx_ticks env p\<rparr>) = with_supervisor env p"
    by (simp add: fun_eq_iff with_supervisor_def record_supervisor_identity_def)
  show ?thesis
    using assms update_own_record [OF own_path_fields(1) [OF assms(1)], where supervisor = "recovering now r" and f = "with_supervisor env p" and ok = "rx_record_ok env" and reg = reg]
    by (simp add: record_spawned_supervisor_def undisturbed_def f store_at_def)
qed

lemma restored_own_path: "own_path host paths (restored r x) = own_path host paths x"
proof -
  have "sr_manifest_path (normalize_paths_for_host host (restored r x)) = sr_manifest_path (normalize_paths_for_host host x)"
    by (simp add: restored_def normalize_paths_for_host_def)
  then show ?thesis by (simp add: own_path_def restored_def)
qed

lemma store_at_path:
  assumes "own_path host paths r" "own_path host paths r'" "sr_service_id r' = sr_service_id r"
  shows "store_at host r (store_at host r' reg) = store_at host r reg"
  using assms by (simp add: store_at_def stored_at_own_path)

lemma belongs_refl [simp]: "belongs_to r r"
  by (simp add: belongs_to_def)

lemma fail_own_record:
  assumes "own_path (rx_host env) (rx_paths env) x" "sr_service_id snapshot = sr_service_id x" "belongs_to snapshot x"
    and "undisturbed env" "rx_last_ok env"
  shows "fail_recovery env r snapshot prior e (store_at (rx_host env) x reg) =
    (e, prior, store_at (rx_host env) (restored prior x) reg)"
  using rollback_own_record [OF assms(1-3), of prior reg] assms(4,5)
  by (simp add: fail_recovery_def undisturbed_def)

lemma restart_spawned:
  assumes "rx_lock env" "recheck env r reg = None" "rx_publish env" "undisturbed env" "rx_last_ok env"
    and own: "own_path (rx_host env) (rx_paths env) r"
  shows "restart_managed_service_bounded env r reg =
    (let back = store_at (rx_host env) (r\<lparr>sr_stop_requested_unix_ms := None\<rparr>) reg in
     case rx_spawn env of
       None \<Rightarrow> (Inl NotSpawned, r, back, [])
     | Some p \<Rightarrow>
         (let r2 = with_supervisor env p (recovering (rx_now env) r) in
          if \<not> rx_record_ok env then (Inl (SupervisorNotRecorded NotWritten), r, back, [Spawned p, Terminated p])
          else case rx_wait env of
            WaitError \<Rightarrow> (Inl WaitFailed, r, back, [Spawned p, Terminated p])
          | StillRunning \<Rightarrow> (Inr (), r2, store_at (rx_host env) r2 reg, [Spawned p])
          | Exited \<Rightarrow> (Inl ExitedAtOnce, r2, store_at (rx_host env) (failed_status r2) reg, [Spawned p])))"
proof -
  let ?r1 = "recovering (rx_now env) r"
  note own1 = own_path_fields(1) [OF own, of "rx_now env"]
  have undone: "fail_recovery env y ?r1 r e (store_at (rx_host env) ?r1 reg) =
      (e, r, store_at (rx_host env) (r\<lparr>sr_stop_requested_unix_ms := None\<rparr>) reg)" for y e
    by (simp add: fail_own_record [OF own1 _ _ assms(4,5)] restored_recovering)
  have published: "write_record (rx_host env) (rx_publish env) ?r1 reg = (Inr (), store_at (rx_host env) ?r1 reg)"
    using assms(3) by (simp add: write_record_form store_at_def)
  show ?thesis
  proof (cases "rx_spawn env")
    case None
    with assms published undone show ?thesis
      by (simp add: restart_managed_service_bounded_def undisturbed_def)
  next
    case (Some p)
    let ?r2 = "with_supervisor env p ?r1"
    note own2 = own_path_fields(2) [OF own1, of env p]
    show ?thesis
    proof (cases "rx_record_ok env")
      case False
      with assms published undone Some publish_own_fails [OF own assms(4), of "rx_now env" p reg] show ?thesis
        by (simp add: restart_managed_service_bounded_def undisturbed_def)
    next
      case True
      have undone2: "fail_recovery env ?r2 ?r2 r e (store_at (rx_host env) ?r2 reg) =
          (e, r, store_at (rx_host env) (r\<lparr>sr_stop_requested_unix_ms := None\<rparr>) reg)" for e
        by (simp add: fail_own_record [OF own2 _ _ assms(4,5)] restored_recovering)
      have q: "fst (stored_form (rx_host env) (failed_status ?r2)) = fst (stored_form (rx_host env) ?r2)"
        by (simp add: stored_form_def)
      have failed: "update_supervised_record (rx_host env) (rx_paths env) (rx_last_ok env) (\<lambda>x. x) ?r2 failed_status
          (store_at (rx_host env) ?r2 reg) = (Inr (), store_at (rx_host env) (failed_status ?r2) reg)"
        using update_own_record [OF own2, of ?r2 failed_status "rx_last_ok env" reg] assms(5) q
        by (simp add: store_at_def)
      from assms published undone2 failed Some True publish_own [OF own assms(4) True, of "rx_now env" p reg] show ?thesis
        by (cases "rx_wait env") (simp_all add: restart_managed_service_bounded_def undisturbed_def Let_def)
    qed
  qed
qed

text \<open>Without interference and with a disk that works, a restart leaves one of three records
  behind: the recovering one that names the spawned supervisor (success), the same marked as
  failed (the supervisor exited at once), or, after any other failure, the record it found,
  except that a stop request it carried is gone; then the caller's copy is the one it passed in,
  and the supervisor, if there was one, was terminated.\<close>

theorem restart_outcome:
  assumes "restart_managed_service_bounded env r reg = (res, r', reg', evs)"
    and "undisturbed env" "rx_publish env" "rx_last_ok env" "own_path (rx_host env) (rx_paths env) r"
  shows "case res of
      Inr _ \<Rightarrow> \<exists>p. evs = [Spawned p] \<and> r' = with_supervisor env p (recovering (rx_now env) r) \<and>
        reg' = store_at (rx_host env) r' reg
    | Inl ExitedAtOnce \<Rightarrow> \<exists>p. evs = [Spawned p] \<and> rx_wait env = Exited \<and>
        r' = with_supervisor env p (recovering (rx_now env) r) \<and> reg' = store_at (rx_host env) (failed_status r') reg
    | Inl _ \<Rightarrow> r' = r \<and> (\<forall>p. Spawned p \<in> set evs \<longrightarrow> Terminated p \<in> set evs) \<and>
        (reg' = reg \<or> reg' = store_at (rx_host env) (r\<lparr>sr_stop_requested_unix_ms := None\<rparr>) reg)"
proof (cases "rx_lock env \<and> recheck env r reg = None")
  case True
  with assms restart_spawned [of env r reg] show ?thesis
    by (auto simp: Let_def split: option.splits if_splits wait_result.splits)
next
  case False
  then obtain e where "res = Inl e" "r' = r" "reg' = reg" "evs = []"
    using restart_refused [of env r reg] assms(1) by auto
  moreover have "e \<noteq> ExitedAtOnce"
    using assms(1) False calculation
    by (auto simp: restart_managed_service_bounded_def recheck_def split: if_splits sum.splits option.splits)
  ultimately show ?thesis by (cases e) auto
qed

section \<open>Races the record does not survive\<close>

text \<open>A write by someone else between the read and the write of one update is undone: a stop request
  that arrives there is gone, although the update was meant to leave it standing.\<close>

theorem supervised_update_lost:
  assumes "load_service_record host paths reg (sr_service_id supervisor) = Inr cur" "belongs_to supervisor cur"
    and "own_path host paths cur" "sr_stop_requested_unix_ms cur = None"
  shows "\<exists>reg' after.
    update_supervised_record host paths True (store_at host (cur\<lparr>sr_stop_requested_unix_ms := Some m\<rparr>)) supervisor
      (supervised_update ticks st) reg = (Inr (), reg') \<and>
    load_service_record host paths reg' (sr_service_id supervisor) = Inr after \<and> sr_stop_requested_unix_ms after = None"
proof -
  let ?new = "supervised_update ticks st cur"
  have there: "map_of reg (service_manifest_path host paths (sr_service_id supervisor)) \<noteq> None"
    using assms(1) by (auto simp: load_service_record_def split: sum.splits option.splits)
  have marker: "sr_stop_requested_unix_ms ?new = None"
    using assms(4) by (cases st) (simp_all add: record_engine_identity_def)
  have own: "own_path host paths ?new" using assms(3) by (simp add: own_path_def)
  have "update_supervised_record host paths True (store_at host (cur\<lparr>sr_stop_requested_unix_ms := Some m\<rparr>)) supervisor
      (supervised_update ticks st) reg = (Inr (), store_at host ?new (store_at host (cur\<lparr>sr_stop_requested_unix_ms := Some m\<rparr>) reg))"
    using assms(1,2) there by (auto simp: update_supervised_record_def belongs_to_def write_record_form store_at_def)
  with load_after_put [OF own] marker load_service_id [OF assms(1)] show ?thesis by (simp add: store_at_def)
qed

text \<open>A failed restart of a service whose stop was requested leaves the service on disk with its old
  status and without the request: the next recovery may start it.\<close>

theorem failed_restart_forgets_stop_request:
  assumes "rx_lock env" "recheck env r reg = None" "rx_publish env" "undisturbed env" "rx_last_ok env"
    and "own_path (rx_host env) (rx_paths env) r" "rx_spawn env = None" "sr_stop_requested_unix_ms r = Some m"
  shows "\<exists>reg' after. restart_managed_service_bounded env r reg = (Inl NotSpawned, r, reg', []) \<and>
    load_service_record (rx_host env) (rx_paths env) reg' (sr_service_id r) = Inr after \<and>
    sr_status after = sr_status r \<and> sr_stop_requested_unix_ms after = None"
proof -
  let ?forgot = "r\<lparr>sr_stop_requested_unix_ms := None\<rparr>"
  have "own_path (rx_host env) (rx_paths env) ?forgot"
    using assms(6) by (simp add: own_path_def normalize_paths_for_host_def)
  from load_after_put [OF this] restart_spawned [OF assms(1-6)] assms(7) show ?thesis
    by (simp add: store_at_def)
qed

lemma store_single_record:
  "fst (stored_form host y) = q \<Longrightarrow> store_at host y [(q, m)] = [(q, Stored (on_disk host y))]"
  by (simp add: store_at_def stored_form_on_disk)

lemma stored_path_marker:
  "fst (stored_form host (x\<lparr>sr_stop_requested_unix_ms := m\<rparr>)) = fst (stored_form host x)"
  "fst (stored_form host (x\<lparr>sr_status := st\<rparr>)) = fst (stored_form host x)"
  "fst (stored_form host (clear_recorded_pids x)) = fst (stored_form host x)"
  by (simp_all add: stored_form_def normalize_paths_for_host_def clear_recorded_pids_def)

lemma stored_path_on_disk: "fst (stored_form host (on_disk host x)) = fst (stored_form host x)"
  by (simp add: stored_form_def)

text \<open>A stop that runs to its end while the record names no process finds nothing to terminate and
  reports success.\<close>

lemma stop_without_processes:
  assumes "se_host se = host" "se_first_write se" "se_last_write se" "se_meanwhile se = (\<lambda>x. x)"
    and "sr_engine x \<noteq> ''aim''" "sr_supervisor_pid x = 0" "sr_engine_pid x = None" "q = fst (stored_form host x)"
  shows "\<exists>report final.
    stop_managed_service se terminate s (sr_service_id x) [(q, Stored x)] keys =
      (Inr report, [(q, Stored final)], keys - {sr_service_id x}, s) \<and>
    rp_stopped report \<and> rp_signaled_pids report = [] \<and>
    final = on_disk host (apply_verdict True (se_now se) (on_disk host (x\<lparr>sr_stop_requested_unix_ms := Some (se_now se)\<rparr>)))"
proof -
  let ?asked = "x\<lparr>sr_stop_requested_unix_ms := Some (se_now se)\<rparr>"
  let ?final = "apply_verdict True (se_now se) (on_disk host ?asked)"
  have w1: "write_record host True ?asked [(q, Stored x)] = (Inr (), [(q, Stored (on_disk host ?asked))])"
    using assms(8) by (simp add: write_record_form stored_form_on_disk stored_path_marker)
  have path: "fst (stored_form host ?final) = q"
    using assms(8) by (simp add: apply_verdict_def stored_path_marker stored_path_on_disk)
  have w2: "write_record host True ?final [(q, Stored (on_disk host ?asked))] = (Inr (), [(q, Stored (on_disk host ?final))])"
    using path by (simp add: write_record_form stored_form_on_disk)
  have found: "find_managed_service [(q, Stored (on_disk host ?asked))] (sr_service_id x) = Inr (on_disk host ?asked)"
    using find_single_record [of q "on_disk host ?asked"] by simp
  have verdict: "stop_verdict ?asked (on_disk host ?asked) reply []" for reply
    using assms(5) by (simp add: stop_verdict_def names_same_processes_def engine_stop_decides_confirmation_def)
  have none: "terminate_recorded_service_pids (se_own_pid se) terminate s ?asked = ([], s)"
    using assms(6,7) by (simp add: terminate_recorded_service_pids_def recorded_entries_def)
  show ?thesis
    unfolding stop_managed_service_def using assms(1-4)
    by (simp add: find_single_record w1 none found verdict w2 Let_def)
qed

theorem stop_confirmed_while_restarting:
  assumes own: "own_path (rx_host env) (rx_paths env) r" and engine: "sr_engine r \<noteq> ''aim''"
    and reg: "reg = [(fst (stored_form (rx_host env) r), Stored r0)]"
    and env: "rx_lock env" "recheck env r reg = None" "rx_publish env" "rx_spawn env = Some p" "rx_record_ok env"
      "rx_wait env = StillRunning" "rx_record_window env = (\<lambda>x. x)"
      "rx_after_publish env = (\<lambda>x. fst (snd (stop_managed_service se terminate s (sr_service_id r) x keys)))"
    and se: "se_host se = rx_host env" "se_first_write se" "se_last_write se" "se_meanwhile se = (\<lambda>x. x)"
  shows "\<exists>report stopped reg' r'.
    stop_managed_service se terminate s (sr_service_id r) (store_at (rx_host env) (recovering (rx_now env) r) reg) keys =
      (Inr report, stopped, keys - {sr_service_id r}, s) \<and> rp_stopped report \<and>
    restart_managed_service_bounded env r reg = (Inr (), r', reg', [Spawned p]) \<and>
    (\<exists>after. load_service_record (rx_host env) (rx_paths env) reg' (sr_service_id r) = Inr after \<and>
      sr_status after = ''stopped'' \<and> sr_stop_requested_unix_ms after = None \<and> sr_supervisor_pid after = p)"
proof -
  let ?host = "rx_host env" and ?x = "on_disk (rx_host env) (recovering (rx_now env) r)"
  let ?q = "fst (stored_form ?host r)"
  have path: "fst (stored_form ?host (recovering (rx_now env) r)) = ?q" by (simp add: stored_form_def)
  have store: "store_at ?host (recovering (rx_now env) r) reg = [(?q, Stored ?x)]"
    unfolding reg by (rule store_single_record [OF path])
  have fields: "sr_engine ?x \<noteq> ''aim''" "sr_supervisor_pid ?x = 0" "sr_engine_pid ?x = None" "sr_service_id ?x = sr_service_id r"
    "?q = fst (stored_form ?host ?x)"
    using engine path by (simp_all add: recovering_def clear_recorded_pids_def reset_for_restart_def stored_path_on_disk)
  obtain report final where stop: "stop_managed_service se terminate s (sr_service_id r) [(?q, Stored ?x)] keys =
      (Inr report, [(?q, Stored final)], keys - {sr_service_id r}, s)" "rp_stopped report"
    and final: "final = on_disk ?host (apply_verdict True (se_now se)
      (on_disk ?host (?x\<lparr>sr_stop_requested_unix_ms := Some (se_now se)\<rparr>)))"
    using stop_without_processes [OF se fields(1-3,5), of terminate s keys] fields(4) by auto
  have mine: "own_path ?host (rx_paths env) final" "sr_service_id final = sr_service_id r" "sr_supervisor_pid final = 0"
    "sr_supervisor_start_ticks final = None" "sr_status final = ''stopped''" "sr_stop_requested_unix_ms final = None"
  proof -
    have "fst (stored_form ?host final) = ?q"
      using path by (simp add: final apply_verdict_def stored_path_marker stored_path_on_disk)
    with own show "own_path ?host (rx_paths env) final"
      by (simp add: own_path_def stored_form_def final apply_verdict_def clear_recorded_pids_def)
  qed (simp_all add: final apply_verdict_def clear_recorded_pids_def)
  let ?named = "final\<lparr>sr_supervisor_pid := p, sr_supervisor_start_ticks := rx_ticks env p\<rparr>"
  have own_named: "own_path ?host (rx_paths env) ?named"
    using mine(1) by (simp add: own_path_def normalize_paths_for_host_def)
  have q: "service_manifest_path ?host (rx_paths env) (sr_service_id r) = ?q"
    using own by (simp add: stored_at_own_path)
  have load: "load_service_record ?host (rx_paths env) [(?q, Stored final)] (sr_service_id r) = Inr final"
    using mine(1,2) q by (simp add: load_service_record_def own_path_def)
  have published: "write_record ?host True (recovering (rx_now env) r) reg = (Inr (), [(?q, Stored ?x)])"
    using store by (simp add: write_record_form store_at_def)
  have named: "record_spawned_supervisor env (recovering (rx_now env) r) p [(?q, Stored final)] =
      (Inr (), store_at ?host ?named [(?q, Stored final)])"
    using env mine q load
    by (simp add: record_spawned_supervisor_def update_supervised_record_def write_record_form store_at_def)
  have restart: "restart_managed_service_bounded env r reg =
      (Inr (), with_supervisor env p (recovering (rx_now env) r), store_at ?host ?named [(?q, Stored final)], [Spawned p])"
    using env published stop(1) named by (simp add: restart_managed_service_bounded_def Let_def)
  have "load_service_record ?host (rx_paths env) (store_at ?host ?named [(?q, Stored final)]) (sr_service_id r) =
      Inr (on_disk ?host ?named)"
    using load_after_put [OF own_named] mine(2) by (simp add: store_at_def del: put.simps)
  with restart stop mine store show ?thesis by simp
qed

section \<open>Instances\<close>

text \<open>A supervisor with PID 41 whose service was asked to stop while its engine came up.\<close>

definition ex_asked :: service where
  "ex_asked = ex_service\<lparr>sr_stop_requested_unix_ms := Some 9\<rparr>"

definition ex_registry :: registry where
  "ex_registry = [(''/d/services/svc.json'', Stored ex_asked)]"

definition ex_supervise :: supervise_env where
  "ex_supervise = \<lparr>sv_host = Linux, sv_paths = ex_paths, sv_now = 5, sv_ipv6 = (\<lambda>_. False), sv_own_pid = 41,
     sv_ticks = (\<lambda>_. None), sv_key_recorded = False, sv_key_applied = False, sv_write_ok = True, sv_prepared = True,
     sv_spawn = Some 50\<rparr>"

definition ex_steps :: "(supervisor_step \<times> surroundings) list" where
  "ex_steps = map (\<lambda>st. (st, \<lparr>su_before = (\<lambda>x. x), su_window = (\<lambda>x. x), su_ok = True\<rparr>))
     (supervisor_steps 50 [''loading''] True False)"

lemmas ex_asked_eval = ex_asked_def ex_service_def service_new_def normalize_paths_for_host_def
  normalize_runtime_path_for_host_def normalize_runtime_path_text_for_platform_def is_windows_def with_storage_paths_def
  normalize_runtime_path_for_storage_def service_manifest_path_def services_dir_def path_join_def
  ex_paths_def main_separator_def

lemma ex_svc_accepted: "service_id_new ''svc'' = Inr ''svc''"
  by (rule plain_text_accepted) (auto simp: is_ascii_digit_def is_ascii_lower_def less_eq_char_def)

lemma ex_asked_path: "service_manifest_path Linux ex_paths ''svc'' = ''/d/services/svc.json''"
  by (simp add: ex_asked_eval)

lemma ex_asked_fields: "sr_service_id ex_asked = ''svc''" "sr_supervisor_pid ex_asked = 41"
  "sr_supervisor_start_ticks ex_asked = None" "sr_engine_pid ex_asked = None" "sr_status ex_asked = ''starting''"
  "sr_stop_requested_unix_ms ex_asked = Some 9" "sr_host ex_asked = ''127.0.0.1''" "sr_port ex_asked = 8000"
  by (simp_all add: ex_asked_def ex_service_def service_new_def)

lemma ex_asked_own: "own_path Linux ex_paths ex_asked"
  by (simp add: own_path_def ex_asked_fields ex_svc_accepted) (simp add: ex_asked_eval)

lemma ex_asked_stored: "load_service_record Linux ex_paths ex_registry ''svc'' = Inr ex_asked"
  by (simp add: load_service_record_def ex_svc_accepted ex_asked_path ex_registry_def ex_asked_fields)


definition ex_args :: supervise_args where
  "ex_args = \<lparr>sa_service_id = ''svc'', sa_engine = ''vllm'', sa_model_ref = ''m'', sa_canonical_model_id = ''M'',
     sa_runtime_id = None, sa_env_id = None, sa_host = ''0.0.0.0'', sa_port = 8000, sa_device_policy = ''gpu_required'',
     sa_gpu = None, sa_engine_recipe_json = None\<rparr>"

text \<open>A witness: on a public host without a key nothing is written.\<close>

theorem keyless_never_recovered_witness:
  "\<exists>e. supervise_start ex_supervise ex_args ex_registry = (Inl e, ex_registry)"
proof -
  obtain res reg' where run: "supervise_start ex_supervise ex_args ex_registry = (res, reg')" by fastforce
  have "load_managed_services ex_registry = Inr [ex_asked]"
    by (simp add: load_managed_services_def ex_registry_def unreadable_entry_def map_filter_simps)
  from keyless_never_recovered [OF run this refl] run show ?thesis
    by (auto simp: ex_supervise_def ex_args_def is_public_bind_host_def)
qed

definition ex_restart :: restart_env where
  "ex_restart = \<lparr>rx_host = Linux, rx_paths = ex_paths, rx_now = 20, rx_ticks = (\<lambda>_. Some 4), rx_lock = True, rx_port_free = True,
     rx_executable = True, rx_log = True, rx_publish = True, rx_spawn = Some 60, rx_wait = WaitError,
     rx_after_publish = (\<lambda>x. x), rx_after_record = (\<lambda>x. x), rx_record_window = (\<lambda>x. x), rx_record_ok = True,
     rx_last_window = (\<lambda>x. x), rx_last_ok = True\<rparr>"

lemma ex_rechecked: "recheck ex_restart ex_asked ex_registry = None"
proof -
  have "load_managed_services ex_registry = Inr [ex_asked]"
    by (simp add: load_managed_services_def ex_registry_def unreadable_entry_def map_filter_simps)
  then show ?thesis using ex_asked_stored by (simp add: recheck_def ex_restart_def ex_asked_fields)
qed

lemma ex_undisturbed: "undisturbed ex_restart"
  by (simp add: undisturbed_def ex_restart_def)

lemma ex_restart_run:
  "restart_managed_service_bounded ex_restart ex_asked ex_registry =
     (Inl WaitFailed, ex_asked, store_at Linux (ex_asked\<lparr>sr_stop_requested_unix_ms := None\<rparr>) ex_registry,
      [Spawned 60, Terminated 60])"
  using restart_spawned [OF _ ex_rechecked _ ex_undisturbed] ex_asked_own by (simp add: ex_restart_def Let_def)

text \<open>Two witnesses: the supervisor could not be watched, was terminated, and the
  record is back.\<close>

theorem restart_guarded_witness:
  "\<exists>records. load_managed_services ex_registry = Inr records \<and>
     (\<forall>x \<in> set records. sr_service_id x \<noteq> ''svc'' \<longrightarrow> \<not> blocks_port x 8000)"
  using restart_guarded [OF ex_restart_run] by (auto simp: ex_asked_fields)

theorem restart_outcome_witness:
  "\<exists>evs reg'. restart_managed_service_bounded ex_restart ex_asked ex_registry = (Inl WaitFailed, ex_asked, reg', evs) \<and>
     Spawned 60 \<in> set evs \<and> Terminated 60 \<in> set evs"
proof -
  have "undisturbed ex_restart" "rx_publish ex_restart" "rx_last_ok ex_restart"
    "own_path (rx_host ex_restart) (rx_paths ex_restart) ex_asked"
    using ex_asked_own ex_undisturbed by (simp_all add: ex_restart_def)
  from restart_outcome [OF ex_restart_run this] ex_restart_run show ?thesis by simp
qed

end
