(* ===== verification/Automation.thy ===== *)
theory Automation
  imports Proposals Recovery
begin

text \<open>
  What the watchers of the daemon share: the catalog and the configuration
  (\<^verbatim>\<open>crates/rocm-core/src/config.rs\<close>), the runtime state and the event logs
  (\<^verbatim>\<open>crates/rocm-core/src/automation.rs\<close>, \<^verbatim>\<open>apps/rocmd/src/persistence.rs\<close>) and the policy with its
  proposals (\<^verbatim>\<open>apps/rocmd/src/watchers/policy.rs\<close>), over the proposals store of \<^verbatim>\<open>Proposals\<close>.

  The clock, the disk and everything outside the daemon answer by a counter of readings, so that
  no two answers need agree; the event and audit logs are the lists of what was appended.
\<close>

section \<open>Catalog and configuration\<close>

datatype watcher_mode = Observe | Propose | Contained

record watcher_spec =
  ws_id :: string
  ws_summary :: string
  ws_default_mode :: watcher_mode

definition builtin_watchers :: "watcher_spec list" where
  "builtin_watchers =
     [\<lparr>ws_id = ''therock-update'', ws_summary = ''Emit scheduled TheRock update reminders and proposals.'',
       ws_default_mode = Observe\<rparr>,
      \<lparr>ws_id = ''server-recover'',
       ws_summary = ''Observe or restart failed managed services when restart metadata exists.'', ws_default_mode = Contained\<rparr>,
      \<lparr>ws_id = ''gpu-metrics'',
       ws_summary = ''Record read-only local amd-smi GPU telemetry availability; no proposals or mutations.'',
       ws_default_mode = Observe\<rparr>,
      \<lparr>ws_id = ''cache-warm'', ws_summary = ''Queue reviewed artifact prefetch proposals for registry model artifacts.'',
       ws_default_mode = Propose\<rparr>,
      \<lparr>ws_id = ''driver-upgrade'',
       ws_summary = ''Queue reviewed read-only driver install plans when a local driver update signal is received.'',
       ws_default_mode = Propose\<rparr>,
      \<lparr>ws_id = ''gpu-thermal-protect'',
       ws_summary = ''Queue reviewed stop-serving proposals when GPU temperature or memory pressure is high.'',
       ws_default_mode = Propose\<rparr>]"

definition builtin_watcher :: "string \<Rightarrow> watcher_spec option" where
  "builtin_watcher wid = find (\<lambda>w. ws_id w = wid) builtin_watchers"

record watcher_user_config =
  wc_enabled :: bool
  wc_mode :: "watcher_mode option"

type_synonym config = "(string \<times> watcher_user_config) list"

definition watcher_enabled :: "config \<Rightarrow> watcher_spec \<Rightarrow> bool" where
  "watcher_enabled cfg w = (case map_of cfg (ws_id w) of Some c \<Rightarrow> wc_enabled c | None \<Rightarrow> False)"

definition effective_watcher_mode :: "config \<Rightarrow> watcher_spec \<Rightarrow> watcher_mode" where
  "effective_watcher_mode cfg w =
     (case Option.bind (map_of cfg (ws_id w)) wc_mode of Some m \<Rightarrow> m | None \<Rightarrow> ws_default_mode w)"

definition automation_daemon_enabled :: "config \<Rightarrow> bool" where
  "automation_daemon_enabled cfg = list_ex (\<lambda>(wid, c). wc_enabled c) cfg"

section \<open>Runtime state and events\<close>

record watcher_snapshot =
  sn_id :: string
  sn_enabled :: bool
  sn_mode :: watcher_mode
  sn_summary :: string
  sn_last_event :: "string option"
  sn_last_event_unix_ms :: "u128 option"

type_synonym snapshots = "watcher_snapshot list"

datatype json = JNull | JBool bool | JInt int | JReal string | JStr string | JArr "json list" | JObj "(string \<times> json) list"

fun json_get :: "json \<Rightarrow> string \<Rightarrow> json option" where
  "json_get (JObj kvs) k = map_of kvs k"
| "json_get _ k = None"

fun as_str :: "json \<Rightarrow> string option" where
  "as_str (JStr s) = Some s"
| "as_str _ = None"

fun as_bool :: "json \<Rightarrow> bool option" where
  "as_bool (JBool b) = Some b"
| "as_bool _ = None"

text \<open>\<^verbatim>\<open>as_i64\<close>: integers in the range only.\<close>

fun as_i64 :: "json \<Rightarrow> int option" where
  "as_i64 (JInt i) = (if - (2 ^ 63) \<le> i \<and> i < 2 ^ 63 then Some i else None)"
| "as_i64 _ = None"

definition payload_string :: "json \<Rightarrow> string \<Rightarrow> string option" where
  "payload_string payload key =
     (case Option.bind (json_get payload key) as_str of
        None \<Rightarrow> None | Some s \<Rightarrow> if trim s = [] then None else Some (trim s))"

record trigger_event =
  te_at_unix_ms :: u128
  te_kind :: string
  te_source :: string
  te_watcher_hint :: "string option"
  te_service_id :: "string option"
  te_reason :: "string option"
  te_payload :: json

record event_record =
  er_at_unix_ms :: u128
  er_watcher_id :: string
  er_level :: string
  er_action :: string
  er_message :: string
  er_service_id :: "string option"

record audit_record =
  au_at_unix_ms :: u128
  au_source :: string
  au_category :: string
  au_actor :: string
  au_level :: string
  au_action :: string
  au_message :: string
  au_watcher_id :: "string option"
  au_service_id :: "string option"

section \<open>The daemon's world\<close>

datatype watch_error = MissingServiceId | RecordUnreadable control_error | EventNotAppended | AuditNotAppended |
  ProposalsUnreadable scan_error | ProposalNotQueued write_error | StateNotWritten

text \<open>The runtime state, less two fields fixed when the daemon starts (its start time and
  \<^verbatim>\<open>automations_enabled\<close>). Its file holds a state, or nothing that parses.\<close>

record runtime_state =
  rs_running :: bool
  rs_daemon_pid :: u32
  rs_last_tick_unix_ms :: u128
  rs_local_webhook_endpoint :: "string option"
  rs_active_watchers :: snapshots

record world =
  w_reads :: nat
  w_state :: snapshots
  w_registry :: registry
  w_proposals :: store
  w_events :: "event_record list"
  w_audit :: "audit_record list"
  w_supervisors :: "supervisor_event list"
  w_daemon_pid :: u32
  w_running :: bool
  w_last_tick :: u128
  w_endpoint :: "string option"
  w_state_file :: "runtime_state option"

text \<open>A reading of the GPUs; the events for high temperature or memory use compare binary fractions and
  are an argument.\<close>

record gpu_snapshot =
  gs_amd_smi_available :: bool
  gs_static :: "json option"
  gs_monitor :: "json option"
  gs_note :: "string option"

record outside =
  ox_clock :: "nat \<Rightarrow> u128"
  ox_event_ok :: "nat \<Rightarrow> bool"
  ox_audit_ok :: "nat \<Rightarrow> bool"
  ox_faults :: "nat \<Rightarrow> faults"
  ox_nanos :: "nat \<Rightarrow> nat"
  ox_codec :: codec
  ox_render :: "json \<Rightarrow> string"
  ox_host :: runtime_platform
  ox_paths :: app_paths
  ox_others :: "nat \<Rightarrow> registry \<Rightarrow> registry"
  ox_is_ipv6 :: "string \<Rightarrow> bool"
  ox_connects :: "nat \<Rightarrow> string \<Rightarrow> bool"
  ox_healthcheck :: "nat \<Rightarrow> service \<Rightarrow> string option"
  ox_key :: "nat \<Rightarrow> string \<Rightarrow> bool"
  ox_restart :: "nat \<Rightarrow> restart_env"
  ox_stamp_window :: "nat \<Rightarrow> registry \<Rightarrow> registry"
  ox_stamp_ok :: "nat \<Rightarrow> bool"
  ox_artifact :: "nat \<Rightarrow> string \<Rightarrow> string + bool"
  ox_tool :: "nat \<Rightarrow> string \<Rightarrow> string + json"
  ox_error_text :: "nat \<Rightarrow> string"
  ox_gpu_snapshot :: "nat \<Rightarrow> gpu_snapshot"
  ox_pressure :: "nat \<Rightarrow> u128 \<Rightarrow> json \<Rightarrow> trigger_event list"
  ox_state_ok :: "nat \<Rightarrow> bool"
  ox_state_left :: "nat \<Rightarrow> runtime_state option"

type_synonym outcome = "(watch_error + unit) \<times> world"

definition time_millis :: "outside \<Rightarrow> world \<Rightarrow> u128 \<times> world" where
  "time_millis ox w = (ox_clock ox (w_reads w), w\<lparr>w_reads := Suc (w_reads w)\<rparr>)"

text \<open>The \<^verbatim>\<open>?\<close> operator over the world.\<close>

definition and_then :: "outcome \<Rightarrow> (world \<Rightarrow> outcome) \<Rightarrow> outcome" where
  "and_then oc f = (case fst oc of Inl e \<Rightarrow> oc | Inr _ \<Rightarrow> f (snd oc))"

definition all_ok :: "world \<Rightarrow> outcome" where
  "all_ok w = (Inr (), w)"

definition watcher_mut :: "string \<Rightarrow> (watcher_snapshot \<Rightarrow> watcher_snapshot) \<Rightarrow> snapshots \<Rightarrow> snapshots" where
  "watcher_mut wid f sns = update_first (\<lambda>sn. sn_id sn = wid) f sns"

definition append_audit_event :: "outside \<Rightarrow> audit_record \<Rightarrow> world \<Rightarrow> outcome" where
  "append_audit_event ox r w =
     (if ox_audit_ok ox (w_reads w) then (Inr (), w\<lparr>w_audit := w_audit w @ [r]\<rparr>) else (Inl AuditNotAppended, w))"

definition append_automation_event :: "outside \<Rightarrow> event_record \<Rightarrow> world \<Rightarrow> outcome" where
  "append_automation_event ox r w =
     (if ox_event_ok ox (w_reads w) then (Inr (), w\<lparr>w_events := w_events w @ [r]\<rparr>) else (Inl EventNotAppended, w))"

definition record_event ::
  "outside \<Rightarrow> string \<Rightarrow> string \<Rightarrow> string \<Rightarrow> string \<Rightarrow> string option \<Rightarrow> world \<Rightarrow> outcome" where
  "record_event ox wid level action msg sid w =
     (let (now, w1) = time_millis ox w;
          w2 = w1\<lparr>w_state := watcher_mut wid (\<lambda>sn. sn\<lparr>sn_last_event := Some msg, sn_last_event_unix_ms := Some now\<rparr>) (w_state w1)\<rparr>;
          audit_watcher_id = (if wid \<noteq> ''rocmd'' then Some wid else None)
      in and_then
           (append_automation_event ox
              \<lparr>er_at_unix_ms = now, er_watcher_id = wid, er_level = level, er_action = action, er_message = msg,
               er_service_id = sid\<rparr> w2)
           (append_audit_event ox
              \<lparr>au_at_unix_ms = now, au_source = ''rocmd'', au_category = ''automation'',
               au_actor = (case audit_watcher_id of None \<Rightarrow> ''rocmd'' | Some i \<Rightarrow> ''watcher:'' @ i), au_level = level,
               au_action = action, au_message = msg, au_watcher_id = audit_watcher_id, au_service_id = sid\<rparr>))"

text \<open>\<^verbatim>\<open>AutomationRuntimeState::write\<close> is not atomic: a failed write leaves the file as it may.\<close>

definition write_state :: "outside \<Rightarrow> world \<Rightarrow> outcome" where
  "write_state ox w =
     (if ox_state_ok ox (w_reads w)
      then (Inr (), w\<lparr>w_state_file := Some \<lparr>rs_running = w_running w, rs_daemon_pid = w_daemon_pid w,
              rs_last_tick_unix_ms = w_last_tick w,
              rs_local_webhook_endpoint = w_endpoint w, rs_active_watchers = w_state w\<rparr>\<rparr>)
      else (Inl StateNotWritten, w\<lparr>w_state_file := ox_state_left ox (w_reads w)\<rparr>))"

definition record_notification_audit :: "outside \<Rightarrow> string \<Rightarrow> string \<Rightarrow> string option \<Rightarrow> string \<Rightarrow> world \<Rightarrow> outcome" where
  "record_notification_audit ox actor action wid msg w =
     (let (now, w1) = time_millis ox w
      in append_audit_event ox
           \<lparr>au_at_unix_ms = now, au_source = ''rocmd'', au_category = ''notification'', au_actor = actor, au_level = ''info'',
            au_action = action, au_message = msg, au_watcher_id = wid, au_service_id = None\<rparr> w1)"

definition reconcile_watcher_snapshots :: "config \<Rightarrow> snapshots \<Rightarrow> snapshots" where
  "reconcile_watcher_snapshots cfg sns =
     foldl (\<lambda>sns w.
        if list_ex (\<lambda>sn. sn_id sn = ws_id w) sns
        then watcher_mut (ws_id w) (\<lambda>sn. sn\<lparr>sn_enabled := watcher_enabled cfg w, sn_mode := effective_watcher_mode cfg w,
               sn_summary := ws_summary w\<rparr>) sns
        else sns @ [\<lparr>sn_id = ws_id w, sn_enabled = watcher_enabled cfg w, sn_mode = effective_watcher_mode cfg w,
               sn_summary = ws_summary w, sn_last_event = None, sn_last_event_unix_ms = None\<rparr>]) sns builtin_watchers"

section \<open>Policy and proposals\<close>

datatype policy_action = ActObserve | ActQueueProposal | ActRunContained

fun watcher_policy_action :: "string \<Rightarrow> watcher_mode \<Rightarrow> policy_action" where
  "watcher_policy_action wid Observe = ActObserve"
| "watcher_policy_action wid Propose = ActQueueProposal"
| "watcher_policy_action wid Contained = ActRunContained"

definition proposal_tool_for_action :: "string \<Rightarrow> string option" where
  "proposal_tool_for_action action =
     map_of [(''queue_restart_proposal'', ''restart_server''), (''queue_stop_server_proposal'', ''stop_server''),
       (''queue_update_proposal'', ''check_updates''), (''queue_prefetch_proposal'', ''prefetch_artifact''),
       (''prepare_driver_plan'', ''driver_plan'')] action"

definition json_opt :: "string option \<Rightarrow> json" where
  "json_opt v = (case v of Some s \<Rightarrow> JStr s | None \<Rightarrow> JNull)"

definition proposal_arguments_for_action :: "string \<Rightarrow> string option \<Rightarrow> json" where
  "proposal_arguments_for_action action sid =
     (if action \<in> {''queue_restart_proposal'', ''queue_stop_server_proposal''} then JObj [(''service_id'', json_opt sid)]
      else if action \<in> {''queue_update_proposal'', ''prepare_driver_plan''} then JObj []
      else JNull)"

definition queue_proposal_with_arguments ::
  "outside \<Rightarrow> string \<Rightarrow> string \<Rightarrow> string \<Rightarrow> string \<Rightarrow> string option \<Rightarrow> json \<Rightarrow> world \<Rightarrow> outcome" where
  "queue_proposal_with_arguments ox wid action ttl msg sid args w =
     (let (now, w1) = time_millis ox w;
          (res, fs) = append_automation_proposal (ox_codec ox) (ox_faults ox (w_reads w)) (ox_nanos ox (w_reads w))
            \<lparr>at_unix_ms = unat now, proposal_id = [], watcher_id = wid, p_action = action, title = ttl, message = msg,
             status = ''pending'', service_id = sid, tool = proposal_tool_for_action action,
             arguments = ox_render ox args, reviewed_at_unix_ms = None\<rparr> (w_proposals w1)
      in (map_sum ProposalNotQueued (\<lambda>u. u) res, w1\<lparr>w_proposals := fs\<rparr>))"

definition queue_proposal ::
  "outside \<Rightarrow> string \<Rightarrow> string \<Rightarrow> string \<Rightarrow> string \<Rightarrow> string option \<Rightarrow> world \<Rightarrow> outcome" where
  "queue_proposal ox wid action ttl msg sid =
     queue_proposal_with_arguments ox wid action ttl msg sid (proposal_arguments_for_action action sid)"

definition asks_for :: "string \<Rightarrow> string \<Rightarrow> string \<Rightarrow> string \<Rightarrow> proposal \<Rightarrow> bool" where
  "asks_for wid sid action needed p \<longleftrightarrow>
     status p = ''pending'' \<and> watcher_id p = wid \<and> service_id p = Some sid \<and> (p_action p = action \<or> tool p = Some needed)"

definition pending_proposal_exists ::
  "outside \<Rightarrow> string \<Rightarrow> string \<Rightarrow> string \<Rightarrow> string \<Rightarrow> world \<Rightarrow> scan_error + bool" where
  "pending_proposal_exists ox wid sid action needed w =
     bind_result (load_automation_proposals (ox_codec ox) (w_proposals w)) (\<lambda>ps.
       Inr (list_ex (asks_for wid sid action needed) ps))"

end
