(* ===== verification/Watchers.thy ===== *)
theory Watchers
  imports Automation
begin

text \<open>
  The watchers of the daemon: \<^verbatim>\<open>apps/rocmd/src/watchers.rs\<close> and the files of
  \<^verbatim>\<open>apps/rocmd/src/watchers/\<close>, with the dispatch of the daemon's loop (\<^verbatim>\<open>daemon.rs\<close>) and the events a
  local webhook may raise (\<^verbatim>\<open>webhook.rs\<close>). A handler takes the world and returns it, with the error
  that would end the loop. The texts of errors are arguments, all other messages are written out.
\<close>

section \<open>Schedules\<close>

definition THEROCK_UPDATE_INTERVAL_MS :: u128 where "THEROCK_UPDATE_INTERVAL_MS = 21600000"
definition SERVER_RECOVER_BACKOFF_MS :: u128 where "SERVER_RECOVER_BACKOFF_MS = 30000"
definition SERVER_TRANSIENT_STALE_MS :: u128 where "SERVER_TRANSIENT_STALE_MS = 300000"
definition GPU_METRICS_INTERVAL_MS :: u128 where "GPU_METRICS_INTERVAL_MS = 60000"

definition watcher_due :: "string \<Rightarrow> u128 \<Rightarrow> snapshots \<Rightarrow> u128 \<Rightarrow> bool" where
  "watcher_due wid interval sns now =
     (case find (\<lambda>sn. sn_id sn = wid \<and> sn_enabled sn) sns of
        None \<Rightarrow> False
      | Some sn \<Rightarrow> (case sn_last_event_unix_ms sn of None \<Rightarrow> True | Some t \<Rightarrow> interval \<le> saturating_sub now t))"

definition therock_update_due :: "snapshots \<Rightarrow> u128 \<Rightarrow> bool" where
  "therock_update_due = watcher_due ''therock-update'' THEROCK_UPDATE_INTERVAL_MS"
definition server_recover_due :: "snapshots \<Rightarrow> u128 \<Rightarrow> bool" where
  "server_recover_due = watcher_due ''server-recover'' SERVER_RECOVER_BACKOFF_MS"
definition gpu_metrics_due :: "snapshots \<Rightarrow> u128 \<Rightarrow> bool" where
  "gpu_metrics_due = watcher_due ''gpu-metrics'' GPU_METRICS_INTERVAL_MS"
definition gpu_thermal_protect_due :: "snapshots \<Rightarrow> u128 \<Rightarrow> bool" where
  "gpu_thermal_protect_due = watcher_due ''gpu-thermal-protect'' GPU_METRICS_INTERVAL_MS"

section \<open>Which service needs recovery\<close>

definition stop_requested :: "service \<Rightarrow> bool" where
  "stop_requested r \<longleftrightarrow> sr_stop_requested_unix_ms r \<noteq> None"

text \<open>The addresses \<^verbatim>\<open>str::parse::<SocketAddr>\<close> accepts: four decimal octets without leading zeros, or
  brackets around an IPv6 address, and a port.\<close>

fun split_dot :: "string \<Rightarrow> string list" where
  "split_dot [] = [[]]"
| "split_dot (c # s) =
     (if c = CHR ''.'' then [] # split_dot s
      else case split_dot s of [] \<Rightarrow> [[c]] | x # xs \<Rightarrow> (c # x) # xs)"

definition octet :: "string \<Rightarrow> bool" where
  "octet s \<longleftrightarrow> s \<noteq> [] \<and> length s \<le> 3 \<and> list_all is_ascii_digit s \<and> digits_val s < 256 \<and> (hd s = CHR ''0'' \<longrightarrow> length s = 1)"

definition ipv4_text :: "string \<Rightarrow> bool" where
  "ipv4_text s \<longleftrightarrow> length (split_dot s) = 4 \<and> list_all octet (split_dot s)"

definition port_text :: "string \<Rightarrow> bool" where
  "port_text s \<longleftrightarrow> s \<noteq> [] \<and> list_all is_ascii_digit s \<and> digits_val s < 65536"

definition socket_address :: "(string \<Rightarrow> bool) \<Rightarrow> string \<Rightarrow> bool" where
  "socket_address is_ipv6 s \<longleftrightarrow>
     (case split_once (CHR '':'') s of Some (a, p) \<Rightarrow> ipv4_text a \<and> port_text p | None \<Rightarrow> False) \<or>
     (case s of [] \<Rightarrow> False
      | c # rest \<Rightarrow> c = CHR ''['' \<and>
          (case split_once (CHR '']'') rest of
             Some (a, q) \<Rightarrow> is_ipv6 a \<and> q \<noteq> [] \<and> hd q = CHR '':'' \<and> port_text (tl q) | None \<Rightarrow> False))"

text \<open>Whether one of the connection attempts within the time limit succeeds is an argument.\<close>

definition wait_for_port :: "outside \<Rightarrow> nat \<Rightarrow> string \<Rightarrow> u16 \<Rightarrow> bool" where
  "wait_for_port ox n address port =
     (let text = format_host_port (ox_is_ipv6 ox) address port
      in socket_address (ox_is_ipv6 ox) text \<and> ox_connects ox n text)"

definition endpoint_service_recovery_reason :: "outside \<Rightarrow> nat \<Rightarrow> service \<Rightarrow> string option" where
  "endpoint_service_recovery_reason ox n r =
     (if \<not> wait_for_port ox n (sr_host r) (sr_port r) then Some ''endpoint_status_unreachable'' else None)"

definition manifest_service_recovery_reason :: "service \<Rightarrow> u128 \<Rightarrow> string option" where
  "manifest_service_recovery_reason r now =
     (if sr_status r \<in> {''failed'', ''exited'', ''unreachable''} then Some (''manifest_status_'' @ sr_status r)
      else if sr_status r \<in> {''starting'', ''recovering''}
      then (let started_at = (case sr_last_restart_unix_ms r of Some t \<Rightarrow> t | None \<Rightarrow> sr_created_at_unix_ms r)
            in if SERVER_TRANSIENT_STALE_MS \<le> saturating_sub now started_at
               then Some (''manifest_status_'' @ sr_status r @ ''_stale'') else None)
      else None)"

definition healthcheck_response_recoverable :: "string \<Rightarrow> bool" where
  "healthcheck_response_recoverable st \<longleftrightarrow> st \<in> {''failed'', ''unreachable'', ''exited''}"

definition in_backoff :: "service \<Rightarrow> u128 \<Rightarrow> bool" where
  "in_backoff r now =
     (case sr_last_restart_unix_ms r of Some t \<Rightarrow> saturating_sub now t < SERVER_RECOVER_BACKOFF_MS | None \<Rightarrow> False)"

definition recovery_reason :: "outside \<Rightarrow> nat \<Rightarrow> u128 \<Rightarrow> service \<Rightarrow> string option" where
  "recovery_reason ox n now r =
     (if sr_mode r \<noteq> ''managed'' \<or> stop_requested r then None
      else if in_backoff r now then None
      else case manifest_service_recovery_reason r now of
        Some reason \<Rightarrow> Some reason
      | None \<Rightarrow>
          if sr_status r \<in> {''ready'', ''running''}
          then (case ox_healthcheck ox n r of
                  None \<Rightarrow> endpoint_service_recovery_reason ox n r
                | Some st \<Rightarrow> if healthcheck_response_recoverable st then Some (''healthcheck_status_'' @ st)
                             else endpoint_service_recovery_reason ox n r)
          else None)"

fun first_recoverable :: "outside \<Rightarrow> nat \<Rightarrow> u128 \<Rightarrow> service list \<Rightarrow> (service \<times> string) option" where
  "first_recoverable ox n now [] = None"
| "first_recoverable ox n now (r # rs) =
     (case recovery_reason ox n now r of Some reason \<Rightarrow> Some (r, reason) | None \<Rightarrow> first_recoverable ox n now rs)"

definition find_recoverable_service :: "outside \<Rightarrow> world \<Rightarrow> (watch_error + (service \<times> string) option) \<times> world" where
  "find_recoverable_service ox w =
     (let (now, w1) = time_millis ox w
      in case load_managed_services (w_registry w1) of
           Inl e \<Rightarrow> (Inl (RecordUnreadable e), w1)
         | Inr rs \<Rightarrow> (Inr (first_recoverable ox (w_reads w1) now rs), w1))"

definition service_recovery_event_kind :: "string \<Rightarrow> string" where
  "service_recovery_event_kind reason =
     (if prefix ''healthcheck_status_'' reason then ''service.healthcheck_recoverable''
      else if prefix ''endpoint_status_'' reason then ''service.endpoint_recoverable''
      else ''service.manifest_recoverable'')"

function trim_start_matches :: "string \<Rightarrow> string" where
  "trim_start_matches s =
     (case strip_prefix ''healthcheck_status_'' s of Some rest \<Rightarrow> trim_start_matches rest | None \<Rightarrow> s)"
  by pat_completeness auto
termination
  by (relation "measure length") (auto simp: strip_prefix_Some_iff)

declare trim_start_matches.simps [simp del]

definition display_recovery_reason :: "string \<Rightarrow> string" where
  "display_recovery_reason reason =
     (case map_of
         [(''manifest_status_failed'', ''manifest reports failed''), (''manifest_status_exited'', ''manifest reports exited''),
          (''manifest_status_unreachable'', ''manifest reports unreachable''),
          (''manifest_status_starting_stale'', ''service has been starting for too long''),
          (''manifest_status_recovering_stale'', ''service has been recovering for too long''),
          (''endpoint_status_unreachable'', ''endpoint port is unreachable'')] reason of
        Some text \<Rightarrow> text
      | None \<Rightarrow>
          if prefix ''healthcheck_status_'' reason then ''engine healthcheck reports '' @ trim_start_matches reason
          else replace_char (CHR ''_'') (CHR '' '') reason)"

section \<open>server-recover\<close>

abbreviation recover_event :: "outside \<Rightarrow> string \<Rightarrow> string \<Rightarrow> string \<Rightarrow> service \<Rightarrow> world \<Rightarrow> outcome" where
  "recover_event ox level action msg r \<equiv> record_event ox ''server-recover'' level action msg (Some (sr_service_id r))"

definition service_record_matches_recovery_event :: "outside \<Rightarrow> service \<Rightarrow> trigger_event \<Rightarrow> world \<Rightarrow> bool \<times> world" where
  "service_record_matches_recovery_event ox r ev w =
     (if stop_requested r then (False, w)
      else if te_kind ev = ''service.manifest_recoverable''
      then (let (now, w1) = time_millis ox w in (manifest_service_recovery_reason r now \<noteq> None, w1))
      else if te_kind ev = ''service.endpoint_recoverable''
      then (endpoint_service_recovery_reason ox (w_reads w) r \<noteq> None, w)
      else if te_kind ev = ''service.healthcheck_recoverable''
      then ((case ox_healthcheck ox (w_reads w) r of Some st \<Rightarrow> healthcheck_response_recoverable st | None \<Rightarrow> False), w)
      else (False, w))"

definition at_endpoint :: "service \<Rightarrow> string" where
  "at_endpoint r = sr_service_id r @ '' on '' @ sr_host r @ '':'' @ show_nat (unat (sr_port r))"

definition pending_restart_proposal_exists :: "outside \<Rightarrow> string \<Rightarrow> world \<Rightarrow> scan_error + bool" where
  "pending_restart_proposal_exists ox sid =
     pending_proposal_exists ox ''server-recover'' sid ''queue_restart_proposal'' ''restart_server''"

definition restart_env_at :: "outside \<Rightarrow> u128 \<Rightarrow> nat \<Rightarrow> restart_env" where
  "restart_env_at ox now n = (ox_restart ox n)\<lparr>rx_host := ox_host ox, rx_paths := ox_paths ox, rx_now := now\<rparr>"

text \<open>\<^verbatim>\<open>restart_managed_service\<close> on the world; others write while it waits for the launch lock.\<close>

definition restart_managed_service ::
  "outside \<Rightarrow> service \<Rightarrow> world \<Rightarrow> (restart_error + unit) \<times> service \<times> world" where
  "restart_managed_service ox r w =
     (let (now, w1) = time_millis ox w;
          (res, r', reg', evs) = restart_managed_service_bounded (restart_env_at ox now (w_reads w)) r
            (ox_others ox (w_reads w) (w_registry w1))
      in (res, r', w1\<lparr>w_registry := reg', w_supervisors := w_supervisors w1 @ evs\<rparr>))"

text \<open>The stamp after a failed restart; its own failure is ignored.\<close>

definition stamp_attempt :: "outside \<Rightarrow> u128 \<Rightarrow> service \<Rightarrow> world \<Rightarrow> world" where
  "stamp_attempt ox now r w =
     w\<lparr>w_registry := snd (update_supervised_record (ox_host ox) (ox_paths ox) (ox_stamp_ok ox (w_reads w))
         (ox_stamp_window ox (w_reads w)) r (\<lambda>current. current\<lparr>sr_last_restart_unix_ms := Some now\<rparr>) (w_registry w))\<rparr>"

definition recover_observe :: "outside \<Rightarrow> string \<Rightarrow> service \<Rightarrow> world \<Rightarrow> outcome" where
  "recover_observe ox shown r =
     recover_event ox ''warn'' ''observe_failure''
       (''observed managed service '' @ sr_service_id r @ '' needing recovery ('' @ shown @
        ''); restart not attempted in observe mode'') r"

definition recover_propose :: "outside \<Rightarrow> string \<Rightarrow> service \<Rightarrow> world \<Rightarrow> outcome" where
  "recover_propose ox shown r w =
     (let needs = ''managed service '' @ sr_service_id r @ '' needs recovery ('' @ shown @ '')'' in
      case pending_restart_proposal_exists ox (sr_service_id r) w of
        Inr True \<Rightarrow>
          recover_event ox ''info'' ''restart_proposal_already_pending''
            (needs @ ''; a restart request awaiting review is already queued'') r w
      | Inl _ \<Rightarrow>
          recover_event ox ''error'' ''restart_proposal_check_failed''
            (needs @ ''; not queueing a restart request because the proposals store could not be checked for one already pending: '' @
             ox_error_text ox (w_reads w)) r w
      | Inr False \<Rightarrow>
          (let msg = needs @ ''; queueing restart proposal'' in
           and_then (recover_event ox ''warn'' ''queue_restart_proposal'' msg r w)
             (queue_proposal ox ''server-recover'' ''queue_restart_proposal'' ''Restart managed service'' msg
                (Some (sr_service_id r)))))"

definition recover_contained :: "outside \<Rightarrow> u128 \<Rightarrow> string \<Rightarrow> service \<Rightarrow> world \<Rightarrow> outcome" where
  "recover_contained ox now shown r w =
     (if in_backoff r now then all_ok w
      else case ensure_public_service_has_endpoint_key (sr_host r) (ox_key ox (w_reads w) (sr_service_id r))
                 (sr_requires_api_key r) of
        Inl _ \<Rightarrow>
          recover_event ox ''error'' ''restart_managed_service_refused''
            (''cannot recover managed service '' @ at_endpoint r @ '' after '' @ shown @ '': '' @ ox_error_text ox (w_reads w)) r w
      | Inr _ \<Rightarrow>
          (case restart_managed_service ox r w of
             (Inl _, r1, w1) \<Rightarrow>
               recover_event ox ''error'' ''restart_managed_service_failed''
                 (''failed to recover managed service '' @ at_endpoint r1 @ '' after '' @ shown @ '': '' @
                  ox_error_text ox (w_reads w1)) r1 (stamp_attempt ox now r1 w1)
           | (Inr _, r1, w1) \<Rightarrow>
               recover_event ox ''info'' ''restart_managed_service''
                 (''restarted managed service '' @ at_endpoint r1 @ '' after '' @ shown) r1 w1))"

definition handle_server_recover_event_with_record ::
  "outside \<Rightarrow> watcher_mode \<Rightarrow> trigger_event \<Rightarrow> service \<Rightarrow> world \<Rightarrow> outcome" where
  "handle_server_recover_event_with_record ox mode ev r w =
     (let (now, w1) = time_millis ox w;
          shown = display_recovery_reason (case te_reason ev of Some s \<Rightarrow> s | None \<Rightarrow> ''recoverable_event'')
      in case watcher_policy_action ''server-recover'' mode of
           ActObserve \<Rightarrow> recover_observe ox shown r w1
         | ActQueueProposal \<Rightarrow> recover_propose ox shown r w1
         | ActRunContained \<Rightarrow> recover_contained ox now shown r w1)"

definition handle_server_recover_event :: "outside \<Rightarrow> watcher_mode \<Rightarrow> trigger_event \<Rightarrow> world \<Rightarrow> outcome" where
  "handle_server_recover_event ox mode ev w0 =
     (case te_service_id ev of
        None \<Rightarrow> (Inl MissingServiceId, w0)
      | Some sid \<Rightarrow>
          (let w = w0\<lparr>w_registry := ox_others ox (w_reads w0) (w_registry w0)\<rparr> in
           case load_service_record (ox_host ox) (ox_paths ox) (w_registry w) sid of
             Inl e \<Rightarrow> (Inl (RecordUnreadable e), w)
           | Inr r \<Rightarrow>
               (case service_record_matches_recovery_event ox r ev w of
                  (False, w1) \<Rightarrow>
                    recover_event ox ''info'' ''ignore_nonrecoverable_service''
                      (''managed service '' @ sr_service_id r @ '' does not currently need recovery; restart not attempted'') r w1
                | (True, w1) \<Rightarrow> handle_server_recover_event_with_record ox mode ev r w1)))"

section \<open>gpu-thermal-protect\<close>

abbreviation thermal_event :: "outside \<Rightarrow> string \<Rightarrow> string \<Rightarrow> string \<Rightarrow> string option \<Rightarrow> world \<Rightarrow> outcome" where
  "thermal_event ox level action msg sid \<equiv> record_event ox ''gpu-thermal-protect'' level action msg sid"

definition active_pressure_target :: "service \<Rightarrow> service option" where
  "active_pressure_target r =
     (if sr_mode r = ''managed'' \<and> sr_status r \<in> {''ready'', ''running''} then Some r else None)"

definition resolve_gpu_pressure_service_target ::
  "outside \<Rightarrow> trigger_event \<Rightarrow> registry \<Rightarrow> control_error + service option" where
  "resolve_gpu_pressure_service_target ox ev reg =
     (case (case te_service_id ev of Some s \<Rightarrow> if trim s = [] then None else Some (trim s) | None \<Rightarrow> None) of
        Some sid \<Rightarrow> map_sum (\<lambda>e. e) active_pressure_target (load_service_record (ox_host ox) (ox_paths ox) reg sid)
      | None \<Rightarrow>
          map_sum (\<lambda>e. e)
            (\<lambda>rs. case List.map_filter active_pressure_target rs of [r] \<Rightarrow> Some r | _ \<Rightarrow> None)
            (load_managed_services reg))"

definition pending_stop_proposal_exists :: "outside \<Rightarrow> string \<Rightarrow> world \<Rightarrow> scan_error + bool" where
  "pending_stop_proposal_exists ox sid =
     pending_proposal_exists ox ''gpu-thermal-protect'' sid ''queue_stop_server_proposal'' ''stop_server''"

definition payload_copy :: "json \<Rightarrow> string \<Rightarrow> string \<times> json" where
  "payload_copy payload key = (key, case json_get payload key of Some v \<Rightarrow> v | None \<Rightarrow> JNull)"

definition stop_arguments :: "service \<Rightarrow> trigger_event \<Rightarrow> string \<Rightarrow> string \<Rightarrow> json" where
  "stop_arguments r ev reason summary =
     JObj ([(''service_id'', JStr (sr_service_id r)), (''model_ref'', JStr (sr_model_ref r)),
       (''canonical_model_id'', JStr (sr_canonical_model_id r)), (''endpoint_url'', JStr (sr_endpoint_url r)),
       (''engine'', JStr (sr_engine r)), (''pressure_kind'', JStr (te_kind ev)), (''pressure_reason'', JStr reason),
       (''pressure_summary'', JStr summary)] @
       map (payload_copy (te_payload ev)) [''gpu'', ''hotspot_temperature_c'', ''memory_temperature_c'', ''vram_percent''] @
       [(''hotspot_threshold_c'', JReal ''95.0''), (''memory_temperature_threshold_c'', JReal ''95.0''),
        (''vram_threshold_percent'', JReal ''95.0'')])"

definition queue_stop :: "outside \<Rightarrow> watcher_mode \<Rightarrow> trigger_event \<Rightarrow> string \<Rightarrow> service \<Rightarrow> world \<Rightarrow> outcome" where
  "queue_stop ox mode ev summary r w =
     (let note = (if mode = Contained then ''contained mode still asks before stopping anything''
                  else ''asking before stopping anything'');
          msg = summary @ ''; '' @ note @ ''; selected managed server '' @ sr_service_id r @ '' ('' @ sr_endpoint_url r @ '')''
      in and_then (thermal_event ox ''warn'' ''queue_stop_server_proposal'' msg (Some (sr_service_id r)) w)
           (queue_proposal_with_arguments ox ''gpu-thermal-protect'' ''queue_stop_server_proposal''
              ''Review GPU pressure stop'' msg (Some (sr_service_id r))
              (stop_arguments r ev (case te_reason ev of Some s \<Rightarrow> s | None \<Rightarrow> ''gpu_pressure_threshold'') summary)))"

definition handle_gpu_thermal_protect_event :: "outside \<Rightarrow> watcher_mode \<Rightarrow> trigger_event \<Rightarrow> world \<Rightarrow> outcome" where
  "handle_gpu_thermal_protect_event ox mode ev w =
     (let summary = (case payload_string (te_payload ev) ''summary'' of Some s \<Rightarrow> s | None \<Rightarrow> ''GPU pressure is high'') in
      if mode = Observe
      then thermal_event ox ''warn'' ''observe_gpu_pressure''
             (summary @ ''; observe mode records this only and does not stop any model server'') (te_service_id ev) w
      else case resolve_gpu_pressure_service_target ox ev (w_registry w) of
        Inl e \<Rightarrow> (Inl (RecordUnreadable e), w)
      | Inr None \<Rightarrow>
          thermal_event ox ''warn'' ''gpu_pressure_no_clear_target''
            (summary @ ''; rocm-cli did not choose a model server to stop because there was no single clear running managed server'')
            None w
      | Inr (Some r) \<Rightarrow>
          (case pending_stop_proposal_exists ox (sr_service_id r) w of
             Inl e \<Rightarrow> (Inl (ProposalsUnreadable e), w)
           | Inr True \<Rightarrow>
               thermal_event ox ''info'' ''stop_proposal_already_pending''
                 (summary @ ''; a reviewed stop request is already waiting for '' @ sr_service_id r) (Some (sr_service_id r)) w
           | Inr False \<Rightarrow> queue_stop ox mode ev summary r w))"

section \<open>gpu-metrics, cache-warm, driver-upgrade and therock-update\<close>

definition metrics_mode_note :: "watcher_mode \<Rightarrow> string" where
  "metrics_mode_note mode =
     (case mode of
        Observe \<Rightarrow> ''observe mode records telemetry only''
      | Propose \<Rightarrow> ''propose mode has no GPU mutation policy yet, so telemetry is recorded only''
      | Contained \<Rightarrow> ''contained mode has no GPU mutation policy yet, so telemetry is recorded only'')"

definition handle_gpu_metrics_event :: "outside \<Rightarrow> watcher_mode \<Rightarrow> trigger_event \<Rightarrow> world \<Rightarrow> outcome" where
  "handle_gpu_metrics_event ox mode ev =
     (let summary = (case Option.bind (json_get (te_payload ev) ''summary'') as_str of
                       Some s \<Rightarrow> s | None \<Rightarrow> ''summary unavailable'');
          level = (if te_kind ev = ''gpu.metrics'' then ''info'' else ''warn'');
          reason = (case te_reason ev of Some s \<Rightarrow> if trim s = [] then ''no detail'' else s | None \<Rightarrow> ''no detail'');
          source = (if te_source ev = ''gpu_telemetry'' then ''local amd-smi telemetry''
                    else if te_source ev = ''local_webhook'' then ''local webhook'' else te_source ev)
      in record_event ox ''gpu-metrics'' level ''record_gpu_metrics''
           (''GPU metrics event from '' @ source @ '': '' @ summary @ ''; reason='' @ reason @ ''; '' @ metrics_mode_note mode @
            ''; no mutating action was taken'') None)"

definition gpu_data_count :: "json \<Rightarrow> nat option" where
  "gpu_data_count v = (case json_get v ''gpu_data'' of Some (JArr xs) \<Rightarrow> Some (length xs) | _ \<Rightarrow> None)"

fun join_space :: "string list \<Rightarrow> string" where
  "join_space [] = []"
| "join_space [s] = s"
| "join_space (s # t # ts) = s @ '' '' @ join_space (t # ts)"

definition gpu_snapshot_summary :: "gpu_snapshot \<Rightarrow> string" where
  "gpu_snapshot_summary g =
     join_space (
       [''amd_smi_available='' @ (if gs_amd_smi_available g then ''true'' else ''false''),
        ''static_snapshot='' @ (if gs_static g \<noteq> None then ''available'' else ''missing''),
        ''monitor_snapshot='' @ (if gs_monitor g \<noteq> None then ''available'' else ''missing'')] @
       (case Option.bind (gs_static g) gpu_data_count of Some n \<Rightarrow> [''gpu_count='' @ show_nat n] | None \<Rightarrow> []) @
       (case gs_note g of Some note \<Rightarrow> if trim note \<noteq> [] then [''note='' @ note] else [] | None \<Rightarrow> []))"

abbreviation cache_event :: "outside \<Rightarrow> string \<Rightarrow> string \<Rightarrow> string \<Rightarrow> world \<Rightarrow> outcome" where
  "cache_event ox level action msg \<equiv> record_event ox ''cache-warm'' level action msg None"

definition prefetch_message :: "watcher_mode \<Rightarrow> string \<Rightarrow> string" where
  "prefetch_message mode artifact =
     ''cache warm requested for '' @ artifact @
     (if mode = Contained
      then ''; contained mode still queues a review because artifact downloads require explicit source-policy approval''
      else ''; queueing a reviewed prefetch proposal'')"

definition handle_cache_warm_event :: "outside \<Rightarrow> watcher_mode \<Rightarrow> trigger_event \<Rightarrow> world \<Rightarrow> outcome" where
  "handle_cache_warm_event ox mode ev w =
     (case payload_string (te_payload ev) ''artifact_ref'' of
        None \<Rightarrow> cache_event ox ''warn'' ''cache_warm_missing_artifact''
            ''cache warm event did not include artifact_ref; no prefetch proposal was queued'' w
      | Some artifact \<Rightarrow>
          (case ox_artifact ox (w_reads w) artifact of
             Inr False \<Rightarrow> cache_event ox ''warn'' ''cache_warm_unknown_artifact''
                 (''cache warm requested unknown registry artifact '' @ artifact @ ''; no prefetch proposal was queued'') w
           | Inl e \<Rightarrow> cache_event ox ''error'' ''cache_warm_registry_error''
                 (''cache warm could not verify registry artifact '' @ artifact @ '': '' @ e @ ''; no prefetch proposal was queued'') w
           | Inr True \<Rightarrow>
               if mode = Observe
               then cache_event ox ''info'' ''observe_cache_warm_request''
                      (''observed cache warm request for '' @ artifact @ ''; observe mode does not queue or download artifacts'') w
               else and_then (cache_event ox ''info'' ''queue_prefetch_proposal'' (prefetch_message mode artifact) w)
                      (queue_proposal_with_arguments ox ''cache-warm'' ''queue_prefetch_proposal'' ''Prefetch model artifact''
                         (prefetch_message mode artifact) None (JObj [(''artifact_ref'', JStr artifact)]))))"

text \<open>What a restricted tool reported: its own name, a status and an exit status; the first argument is
  the expected tool, the second the status when none is given.\<close>

record tool_result =
  tr_status :: string
  tr_exit_status :: int

definition restricted_tool_result :: "string \<Rightarrow> string \<Rightarrow> json \<Rightarrow> tool_result option" where
  "restricted_tool_result expected otherwise v =
     (case Option.bind (json_get v ''tool'') as_str of
        None \<Rightarrow> None
      | Some name \<Rightarrow>
          if name \<noteq> expected then None
          else let st = (case Option.bind (json_get v ''status'') as_str of Some s \<Rightarrow> s | None \<Rightarrow> otherwise)
               in Some \<lparr>tr_status = st,
                    tr_exit_status = (case Option.bind (json_get v ''exit_status'') as_i64 of
                        Some i \<Rightarrow> i | None \<Rightarrow> if st = ''error'' then 1 else 0)\<rparr>)"

definition restricted_driver_plan_result :: "json \<Rightarrow> tool_result option" where
  "restricted_driver_plan_result = restricted_tool_result ''driver_plan'' ''planned''"

definition restricted_check_updates_result :: "json \<Rightarrow> (tool_result \<times> bool) option" where
  "restricted_check_updates_result v =
     (case restricted_tool_result ''check_updates'' ''checked'' v of
        None \<Rightarrow> None
      | Some r \<Rightarrow> Some (r, case Option.bind (json_get v ''update_available'') as_bool of
            Some b \<Rightarrow> b | None \<Rightarrow> tr_status r \<in> {''update_available'', ''repair_available''}))"

abbreviation driver_event :: "outside \<Rightarrow> string \<Rightarrow> string \<Rightarrow> string \<Rightarrow> world \<Rightarrow> outcome" where
  "driver_event ox level action msg \<equiv> record_event ox ''driver-upgrade'' level action msg None"

definition driver_plan_failed :: "outside \<Rightarrow> string \<Rightarrow> world \<Rightarrow> outcome" where
  "driver_plan_failed ox e =
     driver_event ox ''error'' ''driver_plan_failed''
       (''local driver update signal received, but contained restricted driver_plan failed: '' @ e @
        ''; no driver commands were executed'')"

definition handle_driver_upgrade_event :: "outside \<Rightarrow> watcher_mode \<Rightarrow> trigger_event \<Rightarrow> world \<Rightarrow> outcome" where
  "handle_driver_upgrade_event ox mode ev w =
     (if payload_string (te_payload ev) ''component'' \<noteq> Some ''driver''
      then driver_event ox ''warn'' ''driver_upgrade_ignored_component''
             ''driver-upgrade event did not include payload.component=driver; no driver plan proposal was queued'' w
      else case mode of
        Observe \<Rightarrow> driver_event ox ''info'' ''observe_driver_update''
            ''observed local driver update signal; observe mode does not queue or run a driver plan'' w
      | Propose \<Rightarrow>
          (let msg = ''local driver update signal received; queueing a reviewed read-only driver plan'' in
           and_then (driver_event ox ''info'' ''prepare_driver_plan'' msg w)
             (queue_proposal ox ''driver-upgrade'' ''prepare_driver_plan'' ''Review driver install plan'' msg None))
      | Contained \<Rightarrow>
          (case ox_tool ox (w_reads w) ''driver_plan'' of
             Inl e \<Rightarrow> driver_plan_failed ox e w
           | Inr output \<Rightarrow>
               (case restricted_driver_plan_result output of
                  None \<Rightarrow> driver_plan_failed ox (ox_error_text ox (w_reads w)) w
                | Some r \<Rightarrow>
                    driver_event ox (if tr_exit_status r = 0 then ''info'' else ''error'') ''run_driver_plan''
                      (''local driver update signal received; contained restricted driver_plan status='' @ tr_status r @
                       ''; no driver commands were executed'') w)))"

abbreviation update_event :: "outside \<Rightarrow> string \<Rightarrow> string \<Rightarrow> string \<Rightarrow> world \<Rightarrow> outcome" where
  "update_event ox level action msg \<equiv> record_event ox ''therock-update'' level action msg None"

definition update_check_message :: "string \<Rightarrow> string" where
  "update_check_message st =
     (if st = ''repair_available''
      then ''ran read-only `rocm update`; a ROCm runtime repair is available because its package composition changed; no updates were applied''
      else if st = ''update_available''
      then ''ran read-only `rocm update`; a ROCm runtime update is available; no updates were applied''
      else if st = ''error'' then ''read-only `rocm update` failed; no updates were applied''
      else ''ran read-only `rocm update`; no updates were applied'')"

definition record_update_available_notification :: "outside \<Rightarrow> string \<Rightarrow> world \<Rightarrow> outcome" where
  "record_update_available_notification ox st w =
     (let msg = (if st = ''repair_available''
                 then ''A ROCm runtime repair is available because its package composition changed. Preview it before applying. No updates were applied.''
                 else ''A ROCm runtime update is available. Preview it before applying. No updates were applied.'')
      in and_then (update_event ox ''info'' ''notify_if_newer'' msg w)
           (record_notification_audit ox ''watcher:therock-update'' ''notify_if_newer'' (Some ''therock-update'') msg))"

definition update_check_failed :: "outside \<Rightarrow> string \<Rightarrow> string \<Rightarrow> world \<Rightarrow> outcome" where
  "update_check_failed ox how e =
     update_event ox ''error'' ''update_check_failed''
       (''scheduled TheRock update check failed during contained '' @ how @ '' execution: '' @ e @ ''; no updates were applied'')"

definition handle_therock_update_event :: "outside \<Rightarrow> watcher_mode \<Rightarrow> trigger_event \<Rightarrow> world \<Rightarrow> outcome" where
  "handle_therock_update_event ox mode ev w =
     (case watcher_policy_action ''therock-update'' mode of
        ActObserve \<Rightarrow> update_event ox ''info'' ''observe_schedule''
            ''scheduled TheRock update check reminder emitted; run `rocm update` to inspect the selected channel'' w
      | ActQueueProposal \<Rightarrow>
          and_then (update_event ox ''info'' ''queue_update_proposal''
              ''scheduled TheRock update check reminder emitted; queueing read-only update-check proposal for review'' w)
            (queue_proposal ox ''therock-update'' ''queue_update_proposal'' ''Check TheRock updates''
               ''Run `rocm update` to inspect available CLI, runtime, engine, and recipe updates before applying changes.'' None)
      | ActRunContained \<Rightarrow>
          (case ox_tool ox (w_reads w) ''check_updates'' of
             Inl e \<Rightarrow> update_check_failed ox ''read-only'' e w
           | Inr output \<Rightarrow>
               (case restricted_check_updates_result output of
                  None \<Rightarrow> update_check_failed ox ''restricted'' (ox_error_text ox (w_reads w)) w
                | Some (r, available) \<Rightarrow>
                    and_then
                      (update_event ox (if tr_exit_status r = 0 then ''info'' else ''error'') ''run_update_check''
                         (''scheduled TheRock update check is approved for contained read-only execution; restricted check_updates status='' @
                          tr_status r @ ''; '' @ update_check_message (tr_status r)) w)
                      (if available then record_update_available_notification ox (tr_status r) else all_ok))))"

section \<open>Dispatch\<close>

definition events_for_watcher :: "trigger_event list \<Rightarrow> string \<Rightarrow> string \<Rightarrow> trigger_event list" where
  "events_for_watcher evs wid kind_prefix =
     filter (\<lambda>ev. te_watcher_hint ev = Some wid \<and> prefix kind_prefix (te_kind ev)) evs"

definition events_for_watcher_exact :: "trigger_event list \<Rightarrow> string \<Rightarrow> string \<Rightarrow> trigger_event list" where
  "events_for_watcher_exact evs wid kind = filter (\<lambda>ev. te_watcher_hint ev = Some wid \<and> te_kind ev = kind) evs"

fun handle_each :: "(trigger_event \<Rightarrow> world \<Rightarrow> outcome) \<Rightarrow> trigger_event list \<Rightarrow> world \<Rightarrow> outcome" where
  "handle_each h [] w = all_ok w"
| "handle_each h (ev # evs) w = and_then (h ev w) (handle_each h evs)"

definition watcher_events :: "string \<Rightarrow> trigger_event list \<Rightarrow> trigger_event list" where
  "watcher_events wid evs =
     (if wid = ''therock-update'' then events_for_watcher evs wid ''schedule.tick''
      else if wid = ''server-recover'' then events_for_watcher evs wid ''service.''
      else if wid = ''gpu-metrics'' then events_for_watcher evs wid ''gpu.''
      else if wid = ''gpu-thermal-protect''
      then events_for_watcher_exact evs wid ''gpu.thermal_pressure'' @ events_for_watcher_exact evs wid ''gpu.memory_pressure''
      else if wid = ''cache-warm'' then events_for_watcher_exact evs wid ''cache.warm''
      else if wid = ''driver-upgrade'' then events_for_watcher_exact evs wid ''update.available''
      else [])"

definition watcher_handler :: "outside \<Rightarrow> string \<Rightarrow> watcher_mode \<Rightarrow> trigger_event \<Rightarrow> world \<Rightarrow> outcome" where
  "watcher_handler ox wid =
     (if wid = ''therock-update'' then handle_therock_update_event ox
      else if wid = ''server-recover'' then handle_server_recover_event ox
      else if wid = ''gpu-metrics'' then handle_gpu_metrics_event ox
      else if wid = ''gpu-thermal-protect'' then handle_gpu_thermal_protect_event ox
      else if wid = ''cache-warm'' then handle_cache_warm_event ox
      else handle_driver_upgrade_event ox)"

fun evaluate_list :: "outside \<Rightarrow> config \<Rightarrow> trigger_event list \<Rightarrow> watcher_spec list \<Rightarrow> world \<Rightarrow> outcome" where
  "evaluate_list ox cfg evs [] w = all_ok w"
| "evaluate_list ox cfg evs (s # ss) w =
     (if \<not> watcher_enabled cfg s then evaluate_list ox cfg evs ss w
      else and_then (handle_each (watcher_handler ox (ws_id s) (effective_watcher_mode cfg s)) (watcher_events (ws_id s) evs) w)
             (evaluate_list ox cfg evs ss))"

definition evaluate_watchers_for_events :: "outside \<Rightarrow> config \<Rightarrow> trigger_event list \<Rightarrow> world \<Rightarrow> outcome" where
  "evaluate_watchers_for_events ox cfg evs = evaluate_list ox cfg evs builtin_watchers"

definition recovery_trigger :: "u128 \<Rightarrow> service \<Rightarrow> string \<Rightarrow> trigger_event" where
  "recovery_trigger now r reason =
     \<lparr>te_at_unix_ms = now, te_kind = service_recovery_event_kind reason, te_source = ''managed_service'',
      te_watcher_hint = Some ''server-recover'', te_service_id = Some (sr_service_id r), te_reason = Some reason,
      te_payload = JObj [(''engine'', JStr (sr_engine r)), (''status'', JStr (sr_status r)),
        (''endpoint'', JStr (sr_endpoint_url r)), (''recovery_reason'', JStr reason)]\<rparr>"

definition metrics_trigger :: "u128 \<Rightarrow> gpu_snapshot \<Rightarrow> trigger_event" where
  "metrics_trigger now g =
     (let available = (gs_amd_smi_available g \<and> gs_monitor g \<noteq> None) in
      \<lparr>te_at_unix_ms = now, te_kind = (if available then ''gpu.metrics'' else ''gpu.metrics_unavailable''),
       te_source = ''gpu_telemetry'', te_watcher_hint = Some ''gpu-metrics'', te_service_id = None,
       te_reason = (if available then Some ''amd_smi_snapshot_available''
                    else case gs_note g of Some note \<Rightarrow> Some note | None \<Rightarrow> Some ''amd_smi_snapshot_unavailable''),
       te_payload = JObj [(''amd_smi_available'', JBool (gs_amd_smi_available g)), (''static_available'', JBool (gs_static g \<noteq> None)),
         (''monitor_available'', JBool (gs_monitor g \<noteq> None)), (''summary'', JStr (gpu_snapshot_summary g)),
         (''interval_ms'', JInt 60000)]\<rparr>)"

definition collect_automation_events :: "outside \<Rightarrow> world \<Rightarrow> (watch_error + trigger_event list) \<times> world" where
  "collect_automation_events ox w =
     (let (now, w1) = time_millis ox w;
          update = (if therock_update_due (w_state w) now
                    then [\<lparr>te_at_unix_ms = now, te_kind = ''schedule.tick'', te_source = ''scheduler'',
                           te_watcher_hint = Some ''therock-update'', te_service_id = None,
                           te_reason = Some ''therock_update_interval_due'',
                           te_payload = JObj [(''interval_ms'', JInt 21600000)]\<rparr>] else []);
          (recover, w2) = (if server_recover_due (w_state w) now
                           then (let (found, w2) = find_recoverable_service ox w1
                                 in (map_sum (\<lambda>e. e) (\<lambda>x. case x of Some (r, reason) \<Rightarrow> [recovery_trigger now r reason] | None \<Rightarrow> []) found, w2))
                           else (Inr [], w1));
          g = ox_gpu_snapshot ox (w_reads w2);
          metrics = (if gpu_metrics_due (w_state w) now then [metrics_trigger now g] else []);
          pressure = (if gpu_thermal_protect_due (w_state w) now
                      then (case gs_monitor g of Some m \<Rightarrow> ox_pressure ox (w_reads w2) now m | None \<Rightarrow> []) else [])
      in (map_sum (\<lambda>e. e) (\<lambda>rec. update @ rec @ metrics @ pressure) recover, w2))"

definition evaluate_watchers :: "outside \<Rightarrow> config \<Rightarrow> world \<Rightarrow> outcome" where
  "evaluate_watchers ox cfg w =
     (case collect_automation_events ox w of
        (Inl e, w1) \<Rightarrow> (Inl e, w1)
      | (Inr evs, w1) \<Rightarrow> evaluate_watchers_for_events ox cfg evs w1)"

section \<open>The daemon\<close>

text \<open>The end of a tick and of a webhook event; an error of any of the following ends the daemon.\<close>

definition finish_tick :: "outside \<Rightarrow> world \<Rightarrow> outcome" where
  "finish_tick ox w = (let (now, w1) = time_millis ox w in write_state ox (w1\<lparr>w_last_tick := now\<rparr>))"

definition daemon_event :: "outside \<Rightarrow> string \<Rightarrow> string \<Rightarrow> string \<Rightarrow> string option \<Rightarrow> world \<Rightarrow> outcome" where
  "daemon_event ox = record_event ox ''rocmd''"

definition build_runtime_state :: "outside \<Rightarrow> config \<Rightarrow> string option \<Rightarrow> world \<Rightarrow> world" where
  "build_runtime_state ox cfg endpoint w =
     (let (now, w1) = time_millis ox w
      in w1\<lparr>w_running := True, w_last_tick := now, w_endpoint := endpoint,
            w_state := map (\<lambda>s. \<lparr>sn_id = ws_id s, sn_enabled = watcher_enabled cfg s, sn_mode = effective_watcher_mode cfg s,
                                 sn_summary = ws_summary s, sn_last_event = None, sn_last_event_unix_ms = None\<rparr>) builtin_watchers\<rparr>)"

definition daemon_start :: "outside \<Rightarrow> config \<Rightarrow> string option \<Rightarrow> world \<Rightarrow> outcome" where
  "daemon_start ox cfg endpoint w =
     and_then (write_state ox (build_runtime_state ox cfg endpoint w)) (\<lambda>w1.
     and_then (daemon_event ox ''info'' ''daemon_start'' ''rocmd automation supervisor started'' None w1) (\<lambda>w2.
     and_then (write_state ox w2) (\<lambda>w3.
     and_then (evaluate_watchers ox cfg w3) (finish_tick ox))))"

text \<open>One tick of the loop while a watcher is enabled.\<close>

definition daemon_tick :: "outside \<Rightarrow> config \<Rightarrow> world \<Rightarrow> outcome" where
  "daemon_tick ox cfg w =
     and_then (evaluate_watchers ox cfg (w\<lparr>w_state := reconcile_watcher_snapshots cfg (w_state w)\<rparr>)) (finish_tick ox)"

text \<open>What arrives from the webhook: an event, or nothing more once its source is closed.\<close>

definition webhook_dispatch :: "outside \<Rightarrow> config \<Rightarrow> trigger_event \<Rightarrow> world \<Rightarrow> outcome" where
  "webhook_dispatch ox cfg ev w =
     (case evaluate_watchers_for_events ox cfg [ev] w of
        (Inr _, w1) \<Rightarrow> all_ok w1
      | (Inl e, w1) \<Rightarrow>
          daemon_event ox ''error'' ''local_webhook_dispatch_failed''
            (''local webhook event could not be dispatched through watcher policy: '' @ ox_error_text ox (w_reads w1)) None w1)"

definition daemon_webhook :: "outside \<Rightarrow> config \<Rightarrow> trigger_event option \<Rightarrow> world \<Rightarrow> outcome" where
  "daemon_webhook ox cfg received w =
     (case received of
        Some ev \<Rightarrow>
          and_then
            (daemon_event ox ''info'' ''local_webhook_event''
               (''received local webhook event kind='' @ te_kind ev @ '' watcher_hint='' @
                (case te_watcher_hint ev of Some h \<Rightarrow> h | None \<Rightarrow> ''<none>'') @
                ''; dispatching through existing watcher policy; webhook payload grants no new action'') (te_service_id ev)
               (w\<lparr>w_state := reconcile_watcher_snapshots cfg (w_state w)\<rparr>)) (\<lambda>w1.
          and_then (webhook_dispatch ox cfg ev w1) (finish_tick ox))
      | None \<Rightarrow>
          and_then
            (daemon_event ox ''warn'' ''local_webhook_stopped''
               ''local webhook source stopped; automation daemon continues without webhook ingestion'' None
               (w\<lparr>w_endpoint := None\<rparr>))
            (write_state ox))"

definition record_daemon_stop :: "outside \<Rightarrow> world \<Rightarrow> outcome" where
  "record_daemon_stop ox w =
     (let (now, w1) = time_millis ox (w\<lparr>w_running := False\<rparr>)
      in and_then
           (daemon_event ox ''info'' ''daemon_stop'' ''rocmd automation supervisor stopped'' None
              (w1\<lparr>w_last_tick := now, w_endpoint := None\<rparr>))
           (write_state ox))"

section \<open>Webhook requests\<close>

record webhook_request =
  wr_watcher_hint :: string
  wr_kind :: string
  wr_service_id :: "string option"
  wr_reason :: "string option"
  wr_payload :: json

datatype webhook_error = HintRequired | UnknownHint | KindRequired | KindNotAccepted | BadServiceId id_error |
  ServiceIdRequired | ArtifactRequired | DriverComponentRequired

definition local_webhook_kind_allowed :: "string \<Rightarrow> string \<Rightarrow> bool" where
  "local_webhook_kind_allowed wid kind \<longleftrightarrow>
     (wid, kind) \<in> set [(''therock-update'', ''schedule.tick''), (''server-recover'', ''service.manifest_recoverable''),
       (''server-recover'', ''service.endpoint_recoverable''), (''server-recover'', ''service.healthcheck_recoverable''),
       (''gpu-metrics'', ''gpu.metrics''), (''gpu-metrics'', ''gpu.metrics_unavailable''), (''cache-warm'', ''cache.warm''),
       (''driver-upgrade'', ''update.available''), (''gpu-thermal-protect'', ''gpu.thermal_pressure''),
       (''gpu-thermal-protect'', ''gpu.memory_pressure'')]"

definition non_empty :: "string option \<Rightarrow> string option" where
  "non_empty v = (case v of Some s \<Rightarrow> if trim s = [] then None else Some (trim s) | None \<Rightarrow> None)"

definition local_webhook_event_from_request :: "u128 \<Rightarrow> webhook_request \<Rightarrow> webhook_error + trigger_event" where
  "local_webhook_event_from_request now q =
     (let hint = trim (wr_watcher_hint q); kind = trim (wr_kind q); sid = non_empty (wr_service_id q) in
      if hint = [] then Inl HintRequired
      else if builtin_watcher hint = None then Inl UnknownHint
      else if kind = [] then Inl KindRequired
      else if \<not> local_webhook_kind_allowed hint kind then Inl KindNotAccepted
      else case (case sid of Some s \<Rightarrow> service_id_new s | None \<Rightarrow> Inr []) of
        Inl e \<Rightarrow> Inl (BadServiceId e)
      | Inr _ \<Rightarrow>
          if hint = ''server-recover'' \<and> sid = None then Inl ServiceIdRequired
          else if hint = ''cache-warm'' \<and> payload_string (wr_payload q) ''artifact_ref'' = None then Inl ArtifactRequired
          else if hint = ''driver-upgrade'' \<and> payload_string (wr_payload q) ''component'' \<noteq> Some ''driver''
          then Inl DriverComponentRequired
          else Inr \<lparr>te_at_unix_ms = now, te_kind = kind, te_source = ''local_webhook'', te_watcher_hint = Some hint,
                    te_service_id = sid, te_reason = non_empty (wr_reason q), te_payload = wr_payload q\<rparr>)"

end
