(* ===== verification/Watcher_Properties.thy ===== *)
theory Watcher_Properties
  imports Watchers
begin

text \<open>
  What the watchers may and may not do: only the contained recovery touches services, restarts
  respect the operator, the review queue holds one request per service, a webhook cannot end
  the daemon; and the cases in which the recovery of one service starves or restarts others.
\<close>

section \<open>Frames\<close>

named_theorems frame

text \<open>The services of two worlds are the same: their records and what was spawned.\<close>

definition keeps_services :: "world \<Rightarrow> world \<Rightarrow> bool" where
  "keeps_services w w' \<longleftrightarrow> w_registry w' = w_registry w \<and> w_supervisors w' = w_supervisors w"

definition keeps_proposals :: "world \<Rightarrow> world \<Rightarrow> bool" where
  "keeps_proposals w w' \<longleftrightarrow> w_proposals w' = w_proposals w"

lemma time_millis_frame [simp]:
  "time_millis ox w = (now, w1) \<Longrightarrow> w1 = w\<lparr>w_reads := Suc (w_reads w)\<rparr> \<and> now = ox_clock ox (w_reads w)"
  by (simp add: time_millis_def)

lemma snd_and_then: "snd (and_then oc f) = (case fst oc of Inl _ \<Rightarrow> snd oc | Inr _ \<Rightarrow> snd (f (snd oc)))"
  by (simp add: and_then_def split: sum.split)

lemma append_frames [frame]:
  "w_registry (snd (append_audit_event ox r w)) = w_registry w" "w_supervisors (snd (append_audit_event ox r w)) = w_supervisors w"
  "w_proposals (snd (append_audit_event ox r w)) = w_proposals w"
  "w_registry (snd (append_automation_event ox e w)) = w_registry w"
  "w_supervisors (snd (append_automation_event ox e w)) = w_supervisors w"
  "w_proposals (snd (append_automation_event ox e w)) = w_proposals w"
  by (simp_all add: append_audit_event_def append_automation_event_def)

lemma record_event_frames [frame]:
  "w_registry (snd (record_event ox wid level action msg sid w)) = w_registry w"
  "w_supervisors (snd (record_event ox wid level action msg sid w)) = w_supervisors w"
  "w_proposals (snd (record_event ox wid level action msg sid w)) = w_proposals w"
  by (simp_all add: record_event_def time_millis_def Let_def snd_and_then frame split: sum.split)

text \<open>The texts of messages are of no interest here: the simplifier leaves them alone.\<close>

lemma message_congs [cong]:
  "w = w' \<Longrightarrow> record_event ox wid level action msg sid w = record_event ox wid level action msg sid w'"
  "w = w' \<Longrightarrow> queue_proposal ox wid action ttl msg sid w = queue_proposal ox wid action ttl msg sid w'"
  "w = w' \<Longrightarrow> queue_proposal_with_arguments ox wid action ttl msg sid args w =
     queue_proposal_with_arguments ox wid action ttl msg sid args w'"
  by simp_all

lemma notification_frames [frame]:
  "w_registry (snd (record_notification_audit ox actor action wid msg w)) = w_registry w"
  "w_supervisors (snd (record_notification_audit ox actor action wid msg w)) = w_supervisors w"
  "w_proposals (snd (record_notification_audit ox actor action wid msg w)) = w_proposals w"
  by (simp_all add: record_notification_audit_def time_millis_def frame)

lemma queue_proposal_frames [frame]:
  "w_registry (snd (queue_proposal_with_arguments ox wid action ttl msg sid args w)) = w_registry w"
  "w_supervisors (snd (queue_proposal_with_arguments ox wid action ttl msg sid args w)) = w_supervisors w"
  "w_registry (snd (queue_proposal ox wid action ttl msg sid w)) = w_registry w"
  "w_supervisors (snd (queue_proposal ox wid action ttl msg sid w)) = w_supervisors w"
  by (simp_all add: queue_proposal_def queue_proposal_with_arguments_def time_millis_def split: prod.split)

text \<open>An outcome that reports an error from the two logs, or none.\<close>

definition log_error :: "watch_error \<Rightarrow> bool" where
  "log_error e \<longleftrightarrow> e = EventNotAppended \<or> e = AuditNotAppended"

lemma record_event_errors: "record_event ox wid level action msg sid w = (Inl e, w') \<Longrightarrow> log_error e"
  by (auto simp: record_event_def time_millis_def Let_def and_then_def append_audit_event_def append_automation_event_def
    log_error_def split: if_splits sum.splits)

section \<open>Invariants of a dispatch\<close>

lemma handle_each_invariant:
  assumes "\<And>ev w. ev \<in> set evs \<Longrightarrow> P w \<Longrightarrow> P (snd (h ev w))" and "P w"
  shows "P (snd (handle_each h evs w))"
  using assms by (induction evs arbitrary: w) (simp_all add: all_ok_def snd_and_then split: sum.split)

lemma evaluate_list_invariant:
  assumes "\<And>s ev w. s \<in> set ss \<Longrightarrow> watcher_enabled cfg s \<Longrightarrow> ev \<in> set (watcher_events (ws_id s) evs) \<Longrightarrow> P w \<Longrightarrow>
      P (snd (watcher_handler ox (ws_id s) (effective_watcher_mode cfg s) ev w))"
    and "P w"
  shows "P (snd (evaluate_list ox cfg evs ss w))"
  using assms
proof (induction ss arbitrary: w)
  case (Cons s ss)
  show ?case
  proof (cases "watcher_enabled cfg s")
    case True
    have "P (snd (handle_each (watcher_handler ox (ws_id s) (effective_watcher_mode cfg s)) (watcher_events (ws_id s) evs) w))"
      by (rule handle_each_invariant) (use Cons.prems True in auto)
    with Cons.IH Cons.prems(1) True show ?thesis by (simp add: snd_and_then split: sum.split)
  qed (use Cons in auto)
qed (simp add: all_ok_def)

text \<open>The handlers that only record or queue.\<close>

lemma quiet_handlers [frame]:
  "w_registry (snd (handle_gpu_metrics_event ox mode ev w)) = w_registry w"
  "w_supervisors (snd (handle_gpu_metrics_event ox mode ev w)) = w_supervisors w"
  "w_proposals (snd (handle_gpu_metrics_event ox mode ev w)) = w_proposals w"
  by (simp_all add: handle_gpu_metrics_event_def frame)

lemma cache_frames [frame]:
  "w_registry (snd (handle_cache_warm_event ox mode ev w)) = w_registry w"
  "w_supervisors (snd (handle_cache_warm_event ox mode ev w)) = w_supervisors w"
  "w_proposals (snd (handle_cache_warm_event ox Observe ev w)) = w_proposals w"
  by (simp_all add: handle_cache_warm_event_def frame snd_and_then split: option.split sum.split bool.split)

lemma driver_registry [frame]: "w_registry (snd (handle_driver_upgrade_event ox mode ev w)) = w_registry w"
  unfolding handle_driver_upgrade_event_def driver_plan_failed_def
  by (cases mode) (simp_all add: frame snd_and_then Let_def split: option.split sum.split)

lemma driver_supervisors [frame]: "w_supervisors (snd (handle_driver_upgrade_event ox mode ev w)) = w_supervisors w"
  unfolding handle_driver_upgrade_event_def driver_plan_failed_def
  by (cases mode) (simp_all add: frame snd_and_then Let_def split: option.split sum.split)

lemma driver_proposals [frame]: "w_proposals (snd (handle_driver_upgrade_event ox Observe ev w)) = w_proposals w"
  unfolding handle_driver_upgrade_event_def driver_plan_failed_def
  by (simp_all add: frame snd_and_then Let_def split: option.split sum.split)

lemma and_then_keeps:
  "f (snd oc) = f w \<Longrightarrow> (\<And>w1. f (snd (g w1)) = f w1) \<Longrightarrow> f (snd (and_then oc g)) = f w"
  by (simp add: snd_and_then split: sum.split)

lemma available_frames [frame]:
  "w_registry (snd (record_update_available_notification ox st w)) = w_registry w"
  "w_supervisors (snd (record_update_available_notification ox st w)) = w_supervisors w"
  "w_proposals (snd (record_update_available_notification ox st w)) = w_proposals w"
  unfolding record_update_available_notification_def Let_def by (rule and_then_keeps; simp add: frame)+

lemma update_run_frames:
  assumes "\<And>level action msg w. f (snd (record_event ox ''therock-update'' level action msg None w)) = f w"
    and "\<And>st w. f (snd (record_update_available_notification ox st w)) = f w"
  shows "f (snd (handle_therock_update_event ox Contained ev w)) = f w" "f (snd (handle_therock_update_event ox Observe ev w)) = f w"
proof -
  show "f (snd (handle_therock_update_event ox Observe ev w)) = f w"
    by (simp only: handle_therock_update_event_def watcher_policy_action.simps policy_action.case assms)
  show "f (snd (handle_therock_update_event ox Contained ev w)) = f w"
  proof (cases "ox_tool ox (w_reads w) ''check_updates''")
    case (Inl e)
    then show ?thesis
      by (simp only: handle_therock_update_event_def watcher_policy_action.simps policy_action.case sum.case
        update_check_failed_def assms)
  next
    case (Inr v)
    show ?thesis
    proof (cases "restricted_check_updates_result v")
      case None
      with Inr show ?thesis
        by (simp only: handle_therock_update_event_def watcher_policy_action.simps policy_action.case sum.case option.case
          update_check_failed_def assms)
    next
      case (Some ra)
      obtain r available where ra: "ra = (r, available)" by fastforce
      show ?thesis
        unfolding handle_therock_update_event_def watcher_policy_action.simps policy_action.case Inr sum.case Some ra
          option.case prod.case
        by (rule and_then_keeps) (simp_all add: assms all_ok_def)
    qed
  qed
qed

lemma update_propose_frames:
  "w_registry (snd (handle_therock_update_event ox Propose ev w)) = w_registry w"
  "w_supervisors (snd (handle_therock_update_event ox Propose ev w)) = w_supervisors w"
  unfolding handle_therock_update_event_def watcher_policy_action.simps policy_action.case
  by (rule and_then_keeps; simp add: frame)+

lemma update_frames [frame]:
  "w_registry (snd (handle_therock_update_event ox mode ev w)) = w_registry w"
  "w_supervisors (snd (handle_therock_update_event ox mode ev w)) = w_supervisors w"
  "w_proposals (snd (handle_therock_update_event ox Observe ev w)) = w_proposals w"
  by (cases mode; simp only: update_run_frames update_propose_frames frame)+

lemma thermal_frames [frame]:
  "w_registry (snd (handle_gpu_thermal_protect_event ox mode ev w)) = w_registry w"
  "w_supervisors (snd (handle_gpu_thermal_protect_event ox mode ev w)) = w_supervisors w"
  "w_proposals (snd (handle_gpu_thermal_protect_event ox Observe ev w)) = w_proposals w"
  by (simp_all add: handle_gpu_thermal_protect_event_def queue_stop_def frame snd_and_then Let_def
    split: option.split sum.split bool.split)

section \<open>The recovery handler\<close>

lemma matches_frames [frame]:
  "w_registry (snd (service_record_matches_recovery_event ox r ev w)) = w_registry w"
  "w_supervisors (snd (service_record_matches_recovery_event ox r ev w)) = w_supervisors w"
  "w_proposals (snd (service_record_matches_recovery_event ox r ev w)) = w_proposals w"
  by (simp_all add: service_record_matches_recovery_event_def time_millis_def)

lemma recover_observe_frames [frame]:
  "w_registry (snd (recover_observe ox shown r w)) = w_registry w"
  "w_supervisors (snd (recover_observe ox shown r w)) = w_supervisors w"
  "w_proposals (snd (recover_observe ox shown r w)) = w_proposals w"
  by (simp_all add: recover_observe_def frame)

lemma recover_propose_frames [frame]:
  "w_registry (snd (recover_propose ox shown r w)) = w_registry w"
  "w_supervisors (snd (recover_propose ox shown r w)) = w_supervisors w"
  unfolding recover_propose_def Let_def
  by (simp_all add: frame snd_and_then split: sum.split bool.split)

text \<open>The three ways through the handler once the record was read.\<close>

lemma handle_recover_cases:
  assumes "handle_server_recover_event ox mode ev w = (res, w')"
  obtains (no_id) "te_service_id ev = None" "res = Inl MissingServiceId" "w' = w"
  | (unreadable) sid e where "te_service_id ev = Some sid"
      "load_service_record (ox_host ox) (ox_paths ox) (ox_others ox (w_reads w) (w_registry w)) sid = Inl e"
      "res = Inl (RecordUnreadable e)" "w' = w\<lparr>w_registry := ox_others ox (w_reads w) (w_registry w)\<rparr>"
  | (ignored) sid r w1 msg where "te_service_id ev = Some sid"
      "load_service_record (ox_host ox) (ox_paths ox) (ox_others ox (w_reads w) (w_registry w)) sid = Inr r"
      "service_record_matches_recovery_event ox r ev (w\<lparr>w_registry := ox_others ox (w_reads w) (w_registry w)\<rparr>) = (False, w1)"
      "(res, w') = recover_event ox ''info'' ''ignore_nonrecoverable_service'' msg r w1"
  | (handled) sid r w1 where "te_service_id ev = Some sid"
      "load_service_record (ox_host ox) (ox_paths ox) (ox_others ox (w_reads w) (w_registry w)) sid = Inr r"
      "service_record_matches_recovery_event ox r ev (w\<lparr>w_registry := ox_others ox (w_reads w) (w_registry w)\<rparr>) = (True, w1)"
      "(res, w') = handle_server_recover_event_with_record ox mode ev r w1"
proof (cases "te_service_id ev")
  case None
  with assms no_id show ?thesis by (simp add: handle_server_recover_event_def)
next
  case sid: (Some sid)
  let ?w = "w\<lparr>w_registry := ox_others ox (w_reads w) (w_registry w)\<rparr>"
  show ?thesis
  proof (cases "load_service_record (ox_host ox) (ox_paths ox) (ox_others ox (w_reads w) (w_registry w)) sid")
    case (Inl e)
    with assms sid unreadable show ?thesis by (simp add: handle_server_recover_event_def)
  next
    case (Inr r)
    obtain b w1 where m: "service_record_matches_recovery_event ox r ev ?w = (b, w1)" by fastforce
    show ?thesis
    proof (cases b)
      case True
      with assms sid Inr m have "(res, w') = handle_server_recover_event_with_record ox mode ev r w1"
        by (simp add: handle_server_recover_event_def)
      with True sid Inr m handled show ?thesis by simp
    next
      case False
      with assms sid Inr m have "(res, w') = recover_event ox ''info'' ''ignore_nonrecoverable_service''
          (''managed service '' @ sr_service_id r @ '' does not currently need recovery; restart not attempted'') r w1"
        by (simp add: handle_server_recover_event_def)
      with False sid Inr m ignored show ?thesis by simp
    qed
  qed
qed

lemma recover_not_contained:
  assumes "mode \<noteq> Contained" "ox_others ox = (\<lambda>n x. x)"
  shows "w_registry (snd (handle_server_recover_event ox mode ev w)) = w_registry w"
    and "w_supervisors (snd (handle_server_recover_event ox mode ev w)) = w_supervisors w"
    and "mode = Observe \<Longrightarrow> w_proposals (snd (handle_server_recover_event ox mode ev w)) = w_proposals w"
proof -
  obtain res w' where run: "handle_server_recover_event ox mode ev w = (res, w')" by fastforce
  have inner: "w_registry (snd (handle_server_recover_event_with_record ox mode ev r w1)) = w_registry w1"
    "w_supervisors (snd (handle_server_recover_event_with_record ox mode ev r w1)) = w_supervisors w1"
    "mode = Observe \<Longrightarrow> w_proposals (snd (handle_server_recover_event_with_record ox mode ev r w1)) = w_proposals w1" for r w1
    using assms(1) by (cases mode; simp add: handle_server_recover_event_with_record_def time_millis_def frame)+
  from run have "w_registry w' = w_registry w \<and> w_supervisors w' = w_supervisors w \<and> (mode = Observe \<longrightarrow> w_proposals w' = w_proposals w)"
  proof (cases rule: handle_recover_cases)
    case (ignored sid r w1 msg)
    have "w' = snd (recover_event ox ''info'' ''ignore_nonrecoverable_service'' msg r w1)" using ignored(4) by (metis snd_conv)
    moreover have "w_registry w1 = w_registry w" "w_supervisors w1 = w_supervisors w" "w_proposals w1 = w_proposals w"
      using matches_frames [of ox r ev w] ignored(3) assms(2) by simp_all
    ultimately show ?thesis by (simp add: frame)
  next
    case (handled sid r w1)
    have "w' = snd (handle_server_recover_event_with_record ox mode ev r w1)" using handled(4) by (metis snd_conv)
    with matches_frames [of ox r ev w] handled(3) assms(2) inner [of r w1] show ?thesis by simp
  qed (use assms(2) in auto)
  with run show "w_registry (snd (handle_server_recover_event ox mode ev w)) = w_registry w"
    "w_supervisors (snd (handle_server_recover_event ox mode ev w)) = w_supervisors w"
    "mode = Observe \<Longrightarrow> w_proposals (snd (handle_server_recover_event ox mode ev w)) = w_proposals w" by simp_all
qed

lemma handler_keeps_services:
  assumes "ox_others ox = (\<lambda>n x. x)" "wid = ''server-recover'' \<longrightarrow> mode \<noteq> Contained"
  shows "keeps_services w (snd (watcher_handler ox wid mode ev w))"
  using assms recover_not_contained [of mode ox ev w]
  by (simp add: watcher_handler_def keeps_services_def frame)

lemma handler_observes:
  assumes "ox_others ox = (\<lambda>n x. x)"
  shows "keeps_proposals w (snd (watcher_handler ox wid Observe ev w))"
  using assms recover_not_contained(3) [of Observe ox ev w]
  by (simp add: watcher_handler_def keeps_proposals_def frame)

text \<open>C32. Automation acts only where the operator allowed it. When no enabled watcher is the contained
  recovery, dispatching any events leaves every service record as it was and spawns nothing;
  when every enabled watcher observes, the review queue is left alone as well.\<close>

theorem automation_acts_only_when_allowed:
  assumes "evaluate_watchers_for_events ox cfg evs w = (res, w')" and "ox_others ox = (\<lambda>n x. x)"
  shows "((\<forall>s \<in> set builtin_watchers. ws_id s = ''server-recover'' \<longrightarrow> watcher_enabled cfg s \<longrightarrow>
        effective_watcher_mode cfg s \<noteq> Contained) \<longrightarrow>
      w_registry w' = w_registry w \<and> w_supervisors w' = w_supervisors w) \<and>
    ((\<forall>s \<in> set builtin_watchers. watcher_enabled cfg s \<longrightarrow> effective_watcher_mode cfg s = Observe) \<longrightarrow>
      w_proposals w' = w_proposals w)"
proof (intro conjI impI)
  assume allowed: "\<forall>s \<in> set builtin_watchers. ws_id s = ''server-recover'' \<longrightarrow> watcher_enabled cfg s \<longrightarrow>
        effective_watcher_mode cfg s \<noteq> Contained"
  have "keeps_services w (snd (evaluate_list ox cfg evs builtin_watchers w))"
  proof (rule evaluate_list_invariant)
    fix s ev w1
    assume "s \<in> set builtin_watchers" "watcher_enabled cfg s" "keeps_services w w1"
    with allowed handler_keeps_services [OF assms(2), of "ws_id s" "effective_watcher_mode cfg s" w1 ev]
    show "keeps_services w (snd (watcher_handler ox (ws_id s) (effective_watcher_mode cfg s) ev w1))"
      by (simp add: keeps_services_def)
  qed (simp add: keeps_services_def)
  with assms(1) show "w_registry w' = w_registry w" "w_supervisors w' = w_supervisors w"
    by (simp_all add: evaluate_watchers_for_events_def keeps_services_def)
next
  assume observing: "\<forall>s \<in> set builtin_watchers. watcher_enabled cfg s \<longrightarrow> effective_watcher_mode cfg s = Observe"
  have "keeps_proposals w (snd (evaluate_list ox cfg evs builtin_watchers w))"
  proof (rule evaluate_list_invariant)
    fix s ev w1
    assume "s \<in> set builtin_watchers" "watcher_enabled cfg s" "keeps_proposals w w1"
    with observing handler_observes [OF assms(2), of w1 "ws_id s" ev]
    show "keeps_proposals w (snd (watcher_handler ox (ws_id s) (effective_watcher_mode cfg s) ev w1))"
      by (simp add: keeps_proposals_def)
  qed (simp add: keeps_proposals_def)
  with assms(1) show "w_proposals w' = w_proposals w"
    by (simp add: evaluate_watchers_for_events_def keeps_proposals_def)
qed

section \<open>Restarts respect the operator\<close>

lemma restart_on_world:
  assumes "restart_managed_service ox r w = (res, r', w')"
  obtains reg' evs where
    "restart_managed_service_bounded (restart_env_at ox (ox_clock ox (w_reads w)) (w_reads w)) r
       (ox_others ox (w_reads w) (w_registry w)) = (res, r', reg', evs)"
    "w' = w\<lparr>w_reads := Suc (w_reads w), w_registry := reg', w_supervisors := w_supervisors w @ evs\<rparr>"
proof -
  obtain res2 r2 reg' evs where run: "restart_managed_service_bounded (restart_env_at ox (ox_clock ox (w_reads w)) (w_reads w)) r
      (ox_others ox (w_reads w) (w_registry w)) = (res2, r2, reg', evs)" by (metis prod_cases4)
  with assms that show ?thesis by (simp add: restart_managed_service_def time_millis_def)
qed

lemma contained_spawns:
  assumes "Spawned p \<in> set (drop (length (w_supervisors w)) (w_supervisors (snd (recover_contained ox now shown r w))))"
  shows "\<not> in_backoff r now \<and>
    (sr_requires_api_key r \<or> is_public_bind_host (sr_host r) \<longrightarrow> ox_key ox (w_reads w) (sr_service_id r)) \<and>
    (\<exists>res r' reg' evs. restart_managed_service_bounded (restart_env_at ox (ox_clock ox (w_reads w)) (w_reads w)) r
       (ox_others ox (w_reads w) (w_registry w)) =
       (res, r', reg', evs) \<and> Spawned p \<in> set evs)"
proof -
  have 1: "\<not> in_backoff r now" using assms by (auto simp: recover_contained_def all_ok_def)
  have 2: "ensure_public_service_has_endpoint_key (sr_host r) (ox_key ox (w_reads w) (sr_service_id r)) (sr_requires_api_key r) = Inr ()"
  proof (rule ccontr)
    assume "\<not> ?thesis"
    then obtain e where "ensure_public_service_has_endpoint_key (sr_host r) (ox_key ox (w_reads w) (sr_service_id r))
        (sr_requires_api_key r) = Inl e" by (metis (full_types) old.unit.exhaust sum.exhaust)
    with assms 1 show False by (simp add: recover_contained_def frame)
  qed
  obtain res r1 w1 where run: "restart_managed_service ox r w = (res, r1, w1)" by (metis prod_cases3)
  then obtain reg' evs where b: "restart_managed_service_bounded (restart_env_at ox (ox_clock ox (w_reads w)) (w_reads w)) r
      (ox_others ox (w_reads w) (w_registry w)) = (res, r1, reg', evs)"
    and w1: "w1 = w\<lparr>w_reads := Suc (w_reads w), w_registry := reg', w_supervisors := w_supervisors w @ evs\<rparr>"
    by (rule restart_on_world)
  have "w_supervisors (snd (recover_contained ox now shown r w)) = w_supervisors w @ evs"
    unfolding recover_contained_def using 1 2 run w1 by (cases res) (simp_all add: frame stamp_attempt_def)
  with assms have "Spawned p \<in> set evs" by simp
  with 1 2 b show ?thesis by (auto simp: ensure_public_service_has_endpoint_key_def split: if_splits)
qed


section \<open>One request per service\<close>

text \<open>What a watcher relies on when it queues a request: the store takes it at the end or stays as it
  is. The laws hold of the proposals store whenever its records are readable.\<close>

locale review_queue =
  fixes holds :: "'s \<Rightarrow> proposal list \<Rightarrow> bool"
    and queue :: "'f \<Rightarrow> proposal \<Rightarrow> 's \<Rightarrow> ('e + unit) \<times> 's"
    and reliable :: "'f \<Rightarrow> bool"
  assumes queued: "holds s ps \<Longrightarrow> queue f p s = (Inr u, s') \<Longrightarrow>
      \<exists>q. holds s' (ps @ [q]) \<and> watcher_id q = watcher_id p \<and> service_id q = service_id p"
    and not_queued: "holds s ps \<Longrightarrow> queue f p s = (Inl e, s') \<Longrightarrow> reliable f \<Longrightarrow> holds s' ps"
begin

text \<open>A guarded request keeps at most one per service, another watcher's request does not count.\<close>

lemma at_most_one:
  assumes "holds s ps" "reliable f" "queue f p s = (res, s')"
    and "\<forall>sid. length (filter (asks_for wid sid action needed) ps) \<le> 1"
    and "watcher_id p = wid \<Longrightarrow> service_id p = Some sid \<Longrightarrow> \<not> list_ex (asks_for wid sid action needed) ps"
    and "watcher_id p = wid \<Longrightarrow> service_id p = Some sid"
  shows "\<exists>ps'. holds s' ps' \<and> (\<forall>sid. length (filter (asks_for wid sid action needed) ps') \<le> 1)"
proof (cases res)
  case (Inl e)
  with assms show ?thesis using not_queued by blast
next
  case (Inr u)
  with assms(1,3) obtain q where q: "holds s' (ps @ [q])" "watcher_id q = watcher_id p" "service_id q = service_id p"
    using queued by blast
  have "length (filter (asks_for wid x action needed) (ps @ [q])) \<le> 1" for x
  proof (cases "asks_for wid x action needed q")
    case True
    then have "watcher_id p = wid" "service_id p = Some x" using q by (auto simp: asks_for_def)
    with assms(5,6) have "filter (asks_for wid x action needed) ps = []" by (auto simp: list_ex_iff filter_empty_conv)
    then show ?thesis by simp
  next
    case False
    then show ?thesis using assms(4) by simp
  qed
  with q(1) show ?thesis by blast
qed

end

interpretation stored: review_queue "\<lambda>s ps. codec_ok cd \<and> load_automation_proposals cd s = Inr ps"
    "\<lambda>f. append_automation_proposal cd (fst f) (snd f)" "\<lambda>f. \<not> check_fails (fst f)" for cd
proof
  fix s ps f p u s'
  assume h: "codec_ok cd \<and> load_automation_proposals cd s = Inr ps" "append_automation_proposal cd (fst f) (snd f) p s = (Inr u, s')"
  have "watcher_id (with_id (snd f) p) = watcher_id p" "service_id (with_id (snd f) p) = service_id p"
    by (simp_all add: with_id_def)
  with h append_loads(1) [of cd s ps "fst f" "snd f" p "Inr u" s']
  show "\<exists>q. (codec_ok cd \<and> load_automation_proposals cd s' = Inr (ps @ [q])) \<and> watcher_id q = watcher_id p \<and> service_id q = service_id p"
    by auto
next
  fix s ps f p e s'
  assume "codec_ok cd \<and> load_automation_proposals cd s = Inr ps" "append_automation_proposal cd (fst f) (snd f) p s = (Inl e, s')"
    "\<not> check_fails (fst f)"
  with append_loads(2) [of cd s ps "fst f" "snd f" p "Inl e" s']
  show "codec_ok cd \<and> load_automation_proposals cd s' = Inr ps" by auto
qed

text \<open>The state of the queue the watchers keep: readable, with at most one pending request per service
  of either kind.\<close>

definition one_request :: "outside \<Rightarrow> string \<Rightarrow> string \<Rightarrow> string \<Rightarrow> world \<Rightarrow> bool" where
  "one_request ox wid action needed w \<longleftrightarrow>
     (\<exists>ps. codec_ok (ox_codec ox) \<and> load_automation_proposals (ox_codec ox) (w_proposals w) = Inr ps \<and>
       (\<forall>sid. length (filter (asks_for wid sid action needed) ps) \<le> 1))"

lemma one_request_frame: "w_proposals w' = w_proposals w \<Longrightarrow> one_request ox wid action needed w' = one_request ox wid action needed w"
  by (simp add: one_request_def)

lemma queue_keeps_one_request:
  assumes "one_request ox wid action needed w" "\<forall>n. \<not> check_fails (ox_faults ox n)"
    and "who = wid \<Longrightarrow> for_service = Some sid \<and> pending_proposal_exists ox wid sid action needed w = Inr False"
  shows "one_request ox wid action needed (snd (queue_proposal_with_arguments ox who act ttl msg for_service args w))"
proof -
  obtain ps where ps: "codec_ok (ox_codec ox)" "load_automation_proposals (ox_codec ox) (w_proposals w) = Inr ps"
    "\<forall>sid. length (filter (asks_for wid sid action needed) ps) \<le> 1"
    using assms(1) by (auto simp: one_request_def)
  let ?f = "(ox_faults ox (w_reads w), ox_nanos ox (w_reads w))"
  let ?p = "\<lparr>at_unix_ms = unat (ox_clock ox (w_reads w)), proposal_id = [], watcher_id = who, p_action = act, title = ttl,
    message = msg, status = ''pending'', service_id = for_service, tool = proposal_tool_for_action act,
    arguments = ox_render ox args, reviewed_at_unix_ms = None\<rparr>"
  obtain res fs where q: "append_automation_proposal (ox_codec ox) (fst ?f) (snd ?f) ?p (w_proposals w) = (res, fs)" by fastforce
  have free: "\<not> list_ex (asks_for wid sid action needed) ps" "for_service = Some sid" if "who = wid"
    using assms(3) [OF that] ps by (simp_all add: pending_proposal_exists_def)
  have "\<exists>ps'. (codec_ok (ox_codec ox) \<and> load_automation_proposals (ox_codec ox) fs = Inr ps') \<and>
      (\<forall>sid. length (filter (asks_for wid sid action needed) ps') \<le> 1)"
    by (rule stored.at_most_one [of "ox_codec ox" "w_proposals w" ps ?f ?p res fs wid action needed sid])
      (use ps assms(2) q free in auto)
  moreover have "w_proposals (snd (queue_proposal_with_arguments ox who act ttl msg for_service args w)) = fs"
    using q by (simp add: queue_proposal_with_arguments_def time_millis_def)
  ultimately show ?thesis by (auto simp: one_request_def)
qed

lemma and_then_invariant:
  "P (snd oc) \<Longrightarrow> (\<And>u. fst oc = Inr u \<Longrightarrow> P (snd (g (snd oc)))) \<Longrightarrow> P (snd (and_then oc g))"
  by (cases "fst oc") (simp_all add: snd_and_then)

lemma pending_exists_frame: "w_proposals w' = w_proposals w \<Longrightarrow>
    pending_proposal_exists ox wid sid action needed w' = pending_proposal_exists ox wid sid action needed w"
  by (simp add: pending_proposal_exists_def)

text \<open>Record, then queue: the shape of every handler that queues.\<close>

lemma record_then_queue:
  assumes "one_request ox wid action needed w" "\<forall>n. \<not> check_fails (ox_faults ox n)"
    and "who = wid \<Longrightarrow> for_service = Some sid \<and> pending_proposal_exists ox wid sid action needed w = Inr False"
  shows "one_request ox wid action needed (snd (and_then (record_event ox who lv ac ms sv w)
    (queue_proposal_with_arguments ox who act ttl msg for_service args)))"
proof (rule and_then_invariant)
  let ?w1 = "snd (record_event ox who lv ac ms sv w)"
  have same: "w_proposals ?w1 = w_proposals w" by (simp add: frame)
  show one: "one_request ox wid action needed ?w1" using assms(1) one_request_frame [OF same] by simp
  have free: "for_service = Some sid \<and> pending_proposal_exists ox wid sid action needed ?w1 = Inr False" if "who = wid"
    using assms(3) [OF that] pending_exists_frame [OF same] by simp
  show "one_request ox wid action needed (snd (queue_proposal_with_arguments ox who act ttl msg for_service args ?w1))"
    using queue_keeps_one_request [OF one assms(2) free] .
qed

definition guarded_request :: "string \<Rightarrow> string \<Rightarrow> string \<Rightarrow> bool" where
  "guarded_request wid action needed \<longleftrightarrow>
     (wid, action, needed) = (''server-recover'', ''queue_restart_proposal'', ''restart_server'') \<or>
     (wid, action, needed) = (''gpu-thermal-protect'', ''queue_stop_server_proposal'', ''stop_server'')"

lemma recover_propose_one_request:
  assumes "guarded_request wid action needed" "one_request ox wid action needed w" "\<forall>n. \<not> check_fails (ox_faults ox n)"
  shows "one_request ox wid action needed (snd (recover_propose ox shown r w))"
proof (cases "pending_restart_proposal_exists ox (sr_service_id r) w = Inr False")
  case True
  have free: "Some (sr_service_id r) = Some (sr_service_id r) \<and>
      pending_proposal_exists ox wid (sr_service_id r) action needed w = Inr False" if "''server-recover'' = wid"
    using True assms(1) that by (auto simp: pending_restart_proposal_exists_def guarded_request_def)
  show ?thesis
    unfolding recover_propose_def True Let_def sum.case bool.case queue_proposal_def
    by (rule record_then_queue [OF assms(2,3) free])
next
  case False
  then have "w_proposals (snd (recover_propose ox shown r w)) = w_proposals w"
    unfolding recover_propose_def Let_def
    by (cases "pending_restart_proposal_exists ox (sr_service_id r) w") (simp_all add: frame split: bool.split)
  with assms(2) one_request_frame show ?thesis by blast
qed

lemma contained_proposals [frame]: "w_proposals (snd (recover_contained ox now shown r w)) = w_proposals w"
proof -
  obtain res r1 w1 where run: "restart_managed_service ox r w = (res, r1, w1)" by (metis prod_cases3)
  then have "w_proposals w1 = w_proposals w" by (rule restart_on_world) simp
  with run show ?thesis
    unfolding recover_contained_def
    by (cases res) (simp_all add: all_ok_def frame stamp_attempt_def split: sum.split)
qed

lemma recover_one_request:
  assumes "guarded_request wid action needed" "one_request ox wid action needed w" "\<forall>n. \<not> check_fails (ox_faults ox n)"
  shows "one_request ox wid action needed (snd (handle_server_recover_event ox mode ev w))"
proof -
  obtain res w' where run: "handle_server_recover_event ox mode ev w = (res, w')" by fastforce
  let ?w = "w\<lparr>w_registry := ox_others ox (w_reads w) (w_registry w)\<rparr>"
  have start: "one_request ox wid action needed w1" if "service_record_matches_recovery_event ox r ev ?w = (b, w1)" for r b w1
    using matches_frames(3) [of ox r ev ?w] that assms(2) one_request_frame [of w1 w] by simp
  from run have "one_request ox wid action needed w'"
  proof (cases rule: handle_recover_cases)
    case (ignored sid r w1 msg)
    have "w' = snd (recover_event ox ''info'' ''ignore_nonrecoverable_service'' msg r w1)" using ignored(4) by (metis snd_conv)
    then have "w_proposals w' = w_proposals w1" by (simp add: frame)
    with start [OF ignored(3)] one_request_frame show ?thesis by blast
  next
    case (handled sid r w1)
    let ?w2 = "w1\<lparr>w_reads := Suc (w_reads w1)\<rparr>"
    have w2: "one_request ox wid action needed ?w2" using start [OF handled(3)] one_request_frame [of ?w2 w1] by simp
    let ?shown = "display_recovery_reason (case te_reason ev of Some s \<Rightarrow> s | None \<Rightarrow> ''recoverable_event'')"
    have w': "w' = snd (handle_server_recover_event_with_record ox mode ev r w1)" using handled(4) by (metis snd_conv)
    show ?thesis
    proof (cases mode)
      case Propose
      with w' recover_propose_one_request [OF assms(1) w2 assms(3), of ?shown r] show ?thesis
        by (simp add: handle_server_recover_event_with_record_def time_millis_def)
    next
      case Observe
      then have "w_proposals w' = w_proposals ?w2"
        by (simp add: w' handle_server_recover_event_with_record_def time_millis_def frame)
      with w2 one_request_frame show ?thesis by blast
    next
      case Contained
      then have "w_proposals w' = w_proposals ?w2"
        by (simp add: w' handle_server_recover_event_with_record_def time_millis_def frame)
      with w2 one_request_frame show ?thesis by blast
    qed
  qed (use assms(2) one_request_frame [of ?w w] in auto)
  with run show ?thesis by simp
qed

lemma thermal_one_request:
  assumes "guarded_request wid action needed" "one_request ox wid action needed w" "\<forall>n. \<not> check_fails (ox_faults ox n)"
  shows "one_request ox wid action needed (snd (handle_gpu_thermal_protect_event ox mode ev w))"
proof (cases "\<exists>r. mode \<noteq> Observe \<and> resolve_gpu_pressure_service_target ox ev (w_registry w) = Inr (Some r) \<and>
    pending_stop_proposal_exists ox (sr_service_id r) w = Inr False")
  case True
  then obtain r where r: "mode \<noteq> Observe" "resolve_gpu_pressure_service_target ox ev (w_registry w) = Inr (Some r)"
    "pending_stop_proposal_exists ox (sr_service_id r) w = Inr False" by blast
  have free: "Some (sr_service_id r) = Some (sr_service_id r) \<and>
      pending_proposal_exists ox wid (sr_service_id r) action needed w = Inr False" if "''gpu-thermal-protect'' = wid"
    using r(3) assms(1) that by (auto simp: pending_stop_proposal_exists_def guarded_request_def)
  show ?thesis
    unfolding handle_gpu_thermal_protect_event_def Let_def r(2,3) queue_stop_def sum.case option.case bool.case
    using r(1) record_then_queue [OF assms(2,3) free] by (simp only: if_False)
next
  case False
  then have "w_proposals (snd (handle_gpu_thermal_protect_event ox mode ev w)) = w_proposals w"
    unfolding handle_gpu_thermal_protect_event_def Let_def
    by (simp add: frame split: sum.split option.split bool.split) metis
  with assms(2) one_request_frame show ?thesis by blast
qed

lemma other_queue_one_request:
  assumes "guarded_request wid action needed" "one_request ox wid action needed w" "\<forall>n. \<not> check_fails (ox_faults ox n)"
    and "who \<noteq> ''server-recover''" "who \<noteq> ''gpu-thermal-protect''"
  shows "one_request ox wid action needed (snd (and_then (record_event ox who lv ac ms sv w)
    (queue_proposal_with_arguments ox who act ttl msg for_service args)))"
  by (rule record_then_queue [OF assms(2,3)]) (use assms(1,4,5) in \<open>auto simp: guarded_request_def\<close>)

lemma cache_one_request:
  assumes "guarded_request wid action needed" "one_request ox wid action needed w" "\<forall>n. \<not> check_fails (ox_faults ox n)"
  shows "one_request ox wid action needed (snd (handle_cache_warm_event ox mode ev w))"
proof (cases "payload_string (te_payload ev) ''artifact_ref''")
  case None
  then have "w_proposals (snd (handle_cache_warm_event ox mode ev w)) = w_proposals w"
    by (simp add: handle_cache_warm_event_def frame)
  with assms(2) one_request_frame show ?thesis by blast
next
  case (Some artifact)
  show ?thesis
  proof (cases "ox_artifact ox (w_reads w) artifact = Inr True \<and> mode \<noteq> Observe")
    case True
    then have "ox_artifact ox (w_reads w) artifact = Inr True" "(mode = Observe) = False" by simp_all
    then show ?thesis
      unfolding handle_cache_warm_event_def Some option.case
      by (simp only: sum.case bool.case if_False) (rule other_queue_one_request [OF assms], simp_all)
  next
    case False
    with Some have "w_proposals (snd (handle_cache_warm_event ox mode ev w)) = w_proposals w"
      by (auto simp: handle_cache_warm_event_def frame split: sum.split bool.split)
    with assms(2) one_request_frame show ?thesis by blast
  qed
qed

lemma driver_one_request:
  assumes "guarded_request wid action needed" "one_request ox wid action needed w" "\<forall>n. \<not> check_fails (ox_faults ox n)"
  shows "one_request ox wid action needed (snd (handle_driver_upgrade_event ox mode ev w))"
proof (cases "mode = Propose \<and> payload_string (te_payload ev) ''component'' = Some ''driver''")
  case True
  then have "mode = Propose" "(payload_string (te_payload ev) ''component'' \<noteq> Some ''driver'') = False" by simp_all
  then show ?thesis
    unfolding handle_driver_upgrade_event_def Let_def queue_proposal_def
    by (simp only: if_False watcher_mode.case) (rule other_queue_one_request [OF assms], simp_all)
next
  case False
  then have "w_proposals (snd (handle_driver_upgrade_event ox mode ev w)) = w_proposals w"
    unfolding handle_driver_upgrade_event_def driver_plan_failed_def
    by (cases mode) (simp_all add: frame split: sum.split option.split)
  with assms(2) one_request_frame show ?thesis by blast
qed

lemma update_one_request:
  assumes "guarded_request wid action needed" "one_request ox wid action needed w" "\<forall>n. \<not> check_fails (ox_faults ox n)"
  shows "one_request ox wid action needed (snd (handle_therock_update_event ox mode ev w))"
proof (cases mode)
  case Propose
  show ?thesis
    unfolding Propose handle_therock_update_event_def watcher_policy_action.simps policy_action.case queue_proposal_def
    by (rule other_queue_one_request [OF assms]) simp_all
next
  case Observe
  have "w_proposals (snd (handle_therock_update_event ox Observe ev w)) = w_proposals w" by (simp add: frame)
  with assms(2) Observe one_request_frame show ?thesis by blast
next
  case Contained
  have "w_proposals (snd (handle_therock_update_event ox Contained ev w)) = w_proposals w"
    by (rule update_run_frames) (simp_all add: frame)
  with assms(2) Contained one_request_frame show ?thesis by blast
qed

lemma handler_one_request:
  assumes "guarded_request wid action needed" "one_request ox wid action needed w" "\<forall>n. \<not> check_fails (ox_faults ox n)"
  shows "one_request ox wid action needed (snd (watcher_handler ox who mode ev w))"
proof -
  have "w_proposals (snd (handle_gpu_metrics_event ox mode ev w)) = w_proposals w" by (simp add: frame)
  with assms(2) one_request_frame have "one_request ox wid action needed (snd (handle_gpu_metrics_event ox mode ev w))" by blast
  with update_one_request [OF assms, of mode ev] recover_one_request [OF assms, of mode ev] thermal_one_request [OF assms, of mode ev]
    cache_one_request [OF assms, of mode ev] driver_one_request [OF assms, of mode ev]
  show ?thesis by (simp only: watcher_handler_def split: if_split) simp
qed

text \<open>C20. The review queue holds at most one pending restart request and one pending stop request
  per service, whatever events arrive and however the watchers are configured, as long as the
  store can be read and a failed append can be checked.\<close>

theorem one_request_per_service:
  assumes "evaluate_watchers_for_events ox cfg evs w = (res, w')"
    and "codec_ok (ox_codec ox)" "\<forall>n. \<not> check_fails (ox_faults ox n)"
    and "load_automation_proposals (ox_codec ox) (w_proposals w) = Inr ps"
    and "\<forall>sid. length (filter (asks_for ''server-recover'' sid ''queue_restart_proposal'' ''restart_server'') ps) \<le> 1"
    and "\<forall>sid. length (filter (asks_for ''gpu-thermal-protect'' sid ''queue_stop_server_proposal'' ''stop_server'') ps) \<le> 1"
  shows "\<exists>ps'. load_automation_proposals (ox_codec ox) (w_proposals w') = Inr ps' \<and>
    (\<forall>sid. length (filter (asks_for ''server-recover'' sid ''queue_restart_proposal'' ''restart_server'') ps') \<le> 1) \<and>
    (\<forall>sid. length (filter (asks_for ''gpu-thermal-protect'' sid ''queue_stop_server_proposal'' ''stop_server'') ps') \<le> 1)"
proof -
  have inv: "one_request ox wid action needed w'"
    if "guarded_request wid action needed" "one_request ox wid action needed w" for wid action needed
  proof -
    have "one_request ox wid action needed (snd (evaluate_list ox cfg evs builtin_watchers w))"
      by (rule evaluate_list_invariant [where P = "one_request ox wid action needed", OF _ that(2)])
        (rule handler_one_request [OF that(1) _ assms(3)])
    with assms(1) show ?thesis by (simp add: evaluate_watchers_for_events_def)
  qed
  have "one_request ox ''server-recover'' ''queue_restart_proposal'' ''restart_server'' w'"
    by (rule inv) (use assms in \<open>auto simp: guarded_request_def one_request_def\<close>)
  moreover have "one_request ox ''gpu-thermal-protect'' ''queue_stop_server_proposal'' ''stop_server'' w'"
    by (rule inv) (use assms in \<open>auto simp: guarded_request_def one_request_def\<close>)
  ultimately show ?thesis by (auto simp: one_request_def)
qed

section \<open>Webhooks\<close>

lemma daemon_event_error: "daemon_event ox lv ac ms sv w = (Inl e, w') \<Longrightarrow> log_error e"
  unfolding daemon_event_def by (rule record_event_errors)

lemma write_state_error: "write_state ox w = (Inl e, w') \<Longrightarrow> e = StateNotWritten"
  by (auto simp: write_state_def split: if_splits)

lemma finish_tick_error: "finish_tick ox w = (Inl e, w') \<Longrightarrow> e = StateNotWritten"
  unfolding finish_tick_def by (auto simp: Let_def time_millis_def dest: write_state_error)

lemma webhook_dispatch_error: "webhook_dispatch ox cfg ev w = (Inl e, w') \<Longrightarrow> log_error e"
  unfolding webhook_dispatch_def by (auto simp: all_ok_def split: sum.splits prod.splits dest: daemon_event_error)

lemma and_then_error: "and_then oc f = (Inl e, w') \<Longrightarrow> oc = (Inl e, w') \<or> (\<exists>w1. oc = (Inr (), w1) \<and> f w1 = (Inl e, w'))"
  by (cases oc) (auto simp: and_then_def split: sum.splits)

lemma and_then_goes_on: "\<exists>w1. oc = (Inr (), w1) \<Longrightarrow> (\<And>w1. \<exists>w'. f w1 = (Inr (), w')) \<Longrightarrow> \<exists>w'. and_then oc f = (Inr (), w')"
  by (auto simp: and_then_def)

lemma daemon_event_goes_on:
  "(\<And>n. ox_event_ok ox n) \<Longrightarrow> (\<And>n. ox_audit_ok ox n) \<Longrightarrow> \<exists>w'. daemon_event ox lv ac ms sv w = (Inr (), w')"
  by (simp add: daemon_event_def record_event_def time_millis_def Let_def and_then_def append_audit_event_def
      append_automation_event_def)

lemma webhook_dispatch_goes_on:
  "(\<And>n. ox_event_ok ox n) \<Longrightarrow> (\<And>n. ox_audit_ok ox n) \<Longrightarrow> \<exists>w'. webhook_dispatch ox cfg ev w = (Inr (), w')"
  unfolding webhook_dispatch_def by (auto simp: all_ok_def split: prod.split sum.split intro: daemon_event_goes_on)

lemma write_state_goes_on: "(\<And>n. ox_state_ok ox n) \<Longrightarrow> \<exists>w'. write_state ox w = (Inr (), w')"
  by (simp add: write_state_def)

lemma finish_tick_goes_on: "(\<And>n. ox_state_ok ox n) \<Longrightarrow> \<exists>w'. finish_tick ox w = (Inr (), w')"
  by (simp add: finish_tick_def time_millis_def write_state_goes_on)

text \<open>A local webhook cannot end the daemon: whatever arrives from it, the only errors that
  leave its handling are failures to write the daemon's own logs and state file; when those can be
  written, the daemon goes on.\<close>

theorem webhook_cannot_end_daemon:
  "(\<forall>e w'. daemon_webhook ox cfg received w = (Inl e, w') \<longrightarrow> e \<in> {EventNotAppended, AuditNotAppended, StateNotWritten}) \<and>
   ((\<forall>n. ox_event_ok ox n \<and> ox_audit_ok ox n \<and> ox_state_ok ox n) \<longrightarrow>
      (\<exists>w'. daemon_webhook ox cfg received w = (Inr (), w')))"
proof (intro conjI allI impI)
  fix e w' assume "daemon_webhook ox cfg received w = (Inl e, w')"
  then have "log_error e \<or> e = StateNotWritten"
    unfolding daemon_webhook_def
    by (auto split: option.splits dest!: and_then_error dest: daemon_event_error webhook_dispatch_error
        finish_tick_error write_state_error)
  then show "e \<in> {EventNotAppended, AuditNotAppended, StateNotWritten}" by (auto simp: log_error_def)
next
  assume ok: "\<forall>n. ox_event_ok ox n \<and> ox_audit_ok ox n \<and> ox_state_ok ox n"
  show "\<exists>w'. daemon_webhook ox cfg received w = (Inr (), w')"
    unfolding daemon_webhook_def
    by (cases received) (auto intro!: and_then_goes_on daemon_event_goes_on webhook_dispatch_goes_on
        finish_tick_goes_on write_state_goes_on simp: ok)
qed

lemma builtin_ids: "map ws_id builtin_watchers =
    [''therock-update'', ''server-recover'', ''gpu-metrics'', ''cache-warm'', ''driver-upgrade'', ''gpu-thermal-protect'']"
  by (simp add: builtin_watchers_def)

lemma watcher_events_hint: "te_watcher_hint ev \<noteq> Some wid \<Longrightarrow> watcher_events wid [ev] = []"
  unfolding watcher_events_def events_for_watcher_def events_for_watcher_exact_def
  by (simp only: filter.simps simp_thms if_False append_Nil if_cancel)

lemma watcher_events_allowed:
  assumes "te_watcher_hint ev = Some hint" "local_webhook_kind_allowed hint (te_kind ev)"
  shows "watcher_events hint [ev] = [ev]"
  using assms(2) unfolding local_webhook_kind_allowed_def
  by (simp only: list.set insert_iff empty_iff prod.inject simp_thms, elim disjE conjE)
    (simp_all add: watcher_events_def events_for_watcher_def events_for_watcher_exact_def assms(1))

text \<open>The errors that handling a recovery event can end in once the record was read.\<close>

definition benign :: "outcome \<Rightarrow> bool" where
  "benign oc \<longleftrightarrow> (\<forall>e. fst oc = Inl e \<longrightarrow> log_error e \<or> (\<exists>x. e = ProposalNotQueued x))"

lemma benign_intros:
  "benign (record_event ox wid lv ac ms sv w)" "benign (all_ok w)"
  "benign (queue_proposal ox wid ac ttl ms sv w)"
  "benign oc \<Longrightarrow> (\<And>w. benign (f w)) \<Longrightarrow> benign (and_then oc f)"
proof -
  show "benign (record_event ox wid lv ac ms sv w)" unfolding benign_def using record_event_errors by (metis prod.collapse)
  show "benign (queue_proposal ox wid ac ttl ms sv w)"
    unfolding queue_proposal_def queue_proposal_with_arguments_def benign_def time_millis_def Let_def
    by (auto split: prod.splits) (metis map_sum.simps obj_sumE sum.distinct(1) sum.inject(1))
qed (auto simp: benign_def and_then_def all_ok_def split: sum.split)

lemma recover_benign: "benign (handle_server_recover_event_with_record ox mode ev r w)"
proof -
  have "benign (recover_observe ox shown r w1)" for shown w1
    unfolding recover_observe_def by (rule benign_intros)
  moreover have "benign (recover_propose ox shown r w1)" for shown w1
    unfolding recover_propose_def Let_def
    by (cases "pending_restart_proposal_exists ox (sr_service_id r) w1") (auto intro: benign_intros split: bool.split)
  moreover have "benign (recover_contained ox now shown r w1)" for now shown w1
    unfolding recover_contained_def by (auto intro: benign_intros split: sum.split prod.split)
  ultimately show ?thesis
    by (cases mode) (simp_all add: handle_server_recover_event_with_record_def time_millis_def)
qed

text \<open>C40. The events a webhook can raise are well formed: an accepted request names a watcher of the
  catalog and a kind of that watcher alone, so it is dispatched to that watcher and no other; a
  service id, where there is one, is a valid one, and a recovery event always has one, so that
  its handler never fails for a missing id.\<close>

theorem webhook_events_typed:
  assumes "local_webhook_event_from_request now q = Inr ev"
  shows "(\<exists>hint. te_watcher_hint ev = Some hint \<and> builtin_watcher hint \<noteq> None \<and>
      (\<forall>s \<in> set builtin_watchers. watcher_events (ws_id s) [ev] = (if ws_id s = hint then [ev] else []))) \<and>
    (\<forall>sid. te_service_id ev = Some sid \<longrightarrow> service_id_new sid = Inr sid) \<and>
    (te_watcher_hint ev = Some ''server-recover'' \<longrightarrow>
      (\<forall>ox mode w. fst (handle_server_recover_event ox mode ev w) \<noteq> Inl MissingServiceId))"
proof -
  let ?hint = "trim (wr_watcher_hint q)" and ?kind = "trim (wr_kind q)" and ?sid = "non_empty (wr_service_id q)"
  have ev: "te_watcher_hint ev = Some ?hint" "te_kind ev = ?kind" "te_service_id ev = ?sid"
    and hint: "builtin_watcher ?hint \<noteq> None" and allowed: "local_webhook_kind_allowed ?hint ?kind"
    and sid: "case ?sid of Some s \<Rightarrow> \<exists>x. service_id_new s = Inr x | None \<Rightarrow> ?hint \<noteq> ''server-recover''"
    using assms by (auto simp: local_webhook_event_from_request_def Let_def split: if_splits sum.splits option.splits)
  have routed: "\<forall>s \<in> set builtin_watchers. watcher_events (ws_id s) [ev] = (if ws_id s = ?hint then [ev] else [])"
    using watcher_events_allowed [of ev ?hint] watcher_events_hint [of ev] allowed ev by auto
  have valid: "service_id_new s = Inr s" if "?sid = Some s" for s
    using sid that by (auto simp: service_id_new_def split: if_splits)
  have "fst (handle_server_recover_event ox mode ev w) \<noteq> Inl MissingServiceId" if "?hint = ''server-recover''" for ox mode w
  proof -
    obtain res w' where run: "handle_server_recover_event ox mode ev w = (res, w')" by fastforce
    then have "res \<noteq> Inl MissingServiceId"
    proof (cases rule: handle_recover_cases)
      case no_id
      with sid that ev show ?thesis by simp
    next
      case (ignored s r w1 msg)
      then have "fst (recover_event ox ''info'' ''ignore_nonrecoverable_service'' msg r w1) = res" by (metis fst_conv)
      with benign_intros(1) [of ox "''server-recover''" "''info''" "''ignore_nonrecoverable_service''" msg
          "Some (sr_service_id r)" w1] show ?thesis
        by (auto simp: benign_def log_error_def)
    next
      case (handled s r w1)
      from arg_cong [where f = fst, OF handled(4)] recover_benign [of ox mode ev r w1] show ?thesis
        by (auto simp: benign_def log_error_def)
    qed auto
    with run show ?thesis by simp
  qed
  with ev hint routed valid show ?thesis by auto
qed

section \<open>Where recovery goes wrong\<close>

text \<open>An unreadable proposals store: the recovery watcher records it and goes on, the thermal watcher
  returns the error, which ends the daemon.\<close>

theorem unreadable_proposals_end_thermal_watch:
  assumes "mode \<noteq> Observe" "resolve_gpu_pressure_service_target ox ev (w_registry w) = Inr (Some r)"
    and "load_automation_proposals (ox_codec ox) (w_proposals w) = Inl e"
  shows "handle_gpu_thermal_protect_event ox mode ev w = (Inl (ProposalsUnreadable e), w) \<and>
    (\<forall>e'. fst (recover_propose ox shown r w) = Inl e' \<longrightarrow> e' = EventNotAppended \<or> e' = AuditNotAppended)"
proof
  show "handle_gpu_thermal_protect_event ox mode ev w = (Inl (ProposalsUnreadable e), w)"
    using assms by (simp add: handle_gpu_thermal_protect_event_def Let_def pending_stop_proposal_exists_def pending_proposal_exists_def)
  have "pending_restart_proposal_exists ox (sr_service_id r) w = Inl e"
    using assms(3) by (simp add: pending_restart_proposal_exists_def pending_proposal_exists_def)
  then obtain msg where "recover_propose ox shown r w = recover_event ox ''error'' ''restart_proposal_check_failed'' msg r w"
    by (simp add: recover_propose_def Let_def)
  then show "\<forall>e'. fst (recover_propose ox shown r w) = Inl e' \<longrightarrow> e' = EventNotAppended \<or> e' = AuditNotAppended"
    using record_event_errors unfolding log_error_def by (metis prod.collapse)
qed

text \<open>The backoff does not keep a failing service from starving the others. The watcher is due only
  when its last event is as old as the backoff, and an attempt is stamped before its event is
  recorded: when the watcher is due again, the service just attempted is out of its backoff,
  and being the newest it is chosen again.\<close>

lemma due_means_backoff_over:
  assumes "find (\<lambda>sn. sn_id sn = ''server-recover'' \<and> sn_enabled sn) sns = Some sn" "sn_last_event_unix_ms sn = Some t"
    and "server_recover_due sns now" "sr_last_restart_unix_ms r = Some s" "s \<le> t"
  shows "\<not> in_backoff r now"
proof -
  have "SERVER_RECOVER_BACKOFF_MS \<le> saturating_sub now t"
    using assms(1-3) by (simp add: server_recover_due_def watcher_due_def)
  moreover have "saturating_sub now t \<le> saturating_sub now s"
    using assms(5) by (simp add: word_le_nat_alt unat_saturating_sub)
  ultimately show ?thesis using assms(4) by (simp add: in_backoff_def)
qed

theorem failing_service_starves_the_rest:
  assumes "find (\<lambda>sn. sn_id sn = ''server-recover'' \<and> sn_enabled sn) sns = Some sn" "sn_last_event_unix_ms sn = Some t"
    and "server_recover_due sns now" "sr_last_restart_unix_ms r = Some s" "s \<le> t"
    and "sr_mode r = ''managed''" "\<not> stop_requested r" "sr_status r = ''failed''"
  shows "first_recoverable ox n now (r # older) = Some (r, ''manifest_status_failed'')"
  using due_means_backoff_over [OF assms(1-5)] assms(6-8)
  by (simp add: recovery_reason_def manifest_service_recovery_reason_def)

lemma snd_update_first:
  "find P (update_first Q f xs) = Some (f x)" if "find Q xs = Some x" "\<And>x. Q x \<Longrightarrow> P x \<longleftrightarrow> P (f x)" "\<And>x. P x \<Longrightarrow> Q x" "P x"
  using that by (induction xs) (auto split: if_splits)

text \<open>The stamp of a failed attempt is not later than the event that reports it.\<close>

theorem attempt_stamped_before_its_event:
  assumes "\<forall>i j. i \<le> j \<longrightarrow> ox_clock ox i \<le> ox_clock ox j"
    and "find (\<lambda>sn. sn_id sn = ''server-recover'') (w_state w) = Some sn" "sn_enabled sn"
    and "recover_contained ox (ox_clock ox k) shown r w = (res, w')" "k \<le> w_reads w"
    and "\<not> in_backoff r (ox_clock ox k)"
  shows "\<exists>sn' t. find (\<lambda>sn. sn_id sn = ''server-recover'' \<and> sn_enabled sn) (w_state w') = Some sn' \<and>
    sn_last_event_unix_ms sn' = Some t \<and> ox_clock ox k \<le> t"
proof -
  have event: "\<exists>sn' t. find (\<lambda>sn. sn_id sn = ''server-recover'' \<and> sn_enabled sn) (w_state w3) = Some sn' \<and>
      sn_last_event_unix_ms sn' = Some t \<and> ox_clock ox k \<le> t"
    if "record_event ox ''server-recover'' lv ac ms sv w2 = (res, w3)" "w_state w2 = w_state w" "w_reads w \<le> w_reads w2"
    for lv ac ms sv w2 w3
  proof -
    let ?f = "\<lambda>sn. sn\<lparr>sn_last_event := Some ms, sn_last_event_unix_ms := Some (ox_clock ox (w_reads w2))\<rparr>"
    have "w_state w3 = watcher_mut ''server-recover'' ?f (w_state w2)"
      using that(1) by (auto simp: record_event_def time_millis_def Let_def and_then_def append_audit_event_def
        append_automation_event_def split: if_splits sum.splits)
    moreover have "find (\<lambda>sn. sn_id sn = ''server-recover'' \<and> sn_enabled sn)
        (update_first (\<lambda>sn. sn_id sn = ''server-recover'') ?f (w_state w)) = Some (?f sn)"
      by (rule snd_update_first [OF assms(2)]) (use assms(2,3) in \<open>auto simp: find_Some_iff\<close>)
    moreover have "ox_clock ox k \<le> ox_clock ox (w_reads w2)"
      using assms(1) assms(5) that(3) le_trans by blast
    ultimately show ?thesis using that(2) by (simp add: watcher_mut_def)
  qed
  obtain rr r1 w1 where run: "restart_managed_service ox r w = (rr, r1, w1)" by (metis prod_cases3)
  then have w1: "w_state w1 = w_state w" "w_reads w1 = Suc (w_reads w)" by (rule restart_on_world, simp)+
  show ?thesis
  proof (cases "ensure_public_service_has_endpoint_key (sr_host r) (ox_key ox (w_reads w) (sr_service_id r)) (sr_requires_api_key r)")
    case (Inl e)
    then obtain ms where "recover_event ox ''error'' ''restart_managed_service_refused'' ms r w = (res, w')"
      using assms(4,6) by (simp add: recover_contained_def)
    from event [OF this] show ?thesis by simp
  next
    case (Inr u)
    then obtain lv ac ms sv w2 where "record_event ox ''server-recover'' lv ac ms sv w2 = (res, w')"
      "w_state w2 = w_state w" "w_reads w \<le> w_reads w2"
      using assms(4,6) run w1 by (cases rr) (fastforce simp: recover_contained_def stamp_attempt_def)+
    from event [OF this] show ?thesis .
  qed
qed

text \<open>A refusal for a missing key is not stamped at all, so it repeats at every due tick.\<close>

theorem refused_recovery_not_stamped:
  assumes "sr_requires_api_key r \<or> is_public_bind_host (sr_host r)" "\<not> ox_key ox (w_reads w) (sr_service_id r)"
  shows "w_registry (snd (recover_contained ox now shown r w)) = w_registry w"
proof -
  obtain e where "ensure_public_service_has_endpoint_key (sr_host r) (ox_key ox (w_reads w) (sr_service_id r)) (sr_requires_api_key r) = Inl e"
    using assms by (cases "sr_requires_api_key r") (auto simp: ensure_public_service_has_endpoint_key_def)
  then show ?thesis by (simp add: recover_contained_def all_ok_def frame)
qed

text \<open>A healthy service on \<^verbatim>\<open>localhost\<close>: the name is no socket address, so its endpoint counts as
  unreachable whatever answers there, and the service is restarted.\<close>

theorem healthy_localhost_service_recovered:
  assumes "sr_host r = ''localhost''" "\<not> ox_is_ipv6 ox ''localhost''"
    and "sr_mode r = ''managed''" "\<not> stop_requested r" "\<not> in_backoff r now" "sr_status r = ''ready''"
    and "ox_healthcheck ox n r = Some ''ready''"
  shows "recovery_reason ox n now r = Some ''endpoint_status_unreachable''"
proof -
  have addr: "format_host_port (ox_is_ipv6 ox) (sr_host r) (sr_port r) = ''localhost:'' @ show_nat (unat (sr_port r))"
    using assms(1,2) trim_graphic [of "''localhost''"]
    by (simp add: format_host_port_def format_host_for_url_def ascii_graphic_def)
  have "\<not> wait_for_port ox n (sr_host r) (sr_port r)"
    by (simp add: wait_for_port_def addr socket_address_def ipv4_text_def)
  with assms(3-7) show ?thesis
    by (simp add: recovery_reason_def manifest_service_recovery_reason_def endpoint_service_recovery_reason_def
      healthcheck_response_recoverable_def)
qed

section \<open>A failed service is restarted\<close>

text \<open>An outside in which nothing fails: the logs take every record, nobody else writes, and a
  restart of \<^verbatim>\<open>r\<close> is possible and spawns the supervisor \<^verbatim>\<open>p\<close>.\<close>

definition restart_possible :: "outside \<Rightarrow> u32 \<Rightarrow> service \<Rightarrow> registry \<Rightarrow> bool" where
  "restart_possible ox p r reg \<longleftrightarrow>
     ox_others ox = (\<lambda>n x. x) \<and> own_path (ox_host ox) (ox_paths ox) r \<and>
     (\<forall>n. ox_event_ok ox n \<and> ox_audit_ok ox n) \<and>
     (sr_requires_api_key r \<or> is_public_bind_host (sr_host r) \<longrightarrow> (\<forall>n. ox_key ox n (sr_service_id r))) \<and>
     (\<forall>n t. recheck (restart_env_at ox t n) r reg = None) \<and>
     (\<forall>n. rx_lock (ox_restart ox n) \<and> rx_publish (ox_restart ox n) \<and> rx_spawn (ox_restart ox n) = Some p \<and>
        rx_record_ok (ox_restart ox n) \<and> rx_wait (ox_restart ox n) = StillRunning \<and> undisturbed (ox_restart ox n) \<and>
        rx_last_ok (ox_restart ox n))"

lemma record_event_ok:
  assumes "\<forall>n. ox_event_ok ox n \<and> ox_audit_ok ox n"
  shows "fst (record_event ox wid lv ac ms sv w) = Inr ()"
  using assms by (simp add: record_event_def time_millis_def Let_def and_then_def append_audit_event_def append_automation_event_def)

lemma evaluate_disabled: "(\<And>s. s \<in> set ss \<Longrightarrow> \<not> watcher_enabled cfg s) \<Longrightarrow> evaluate_list ox cfg evs ss w = all_ok w"
  by (induction ss) auto

lemma builtin_split:
  "\<exists>a b rest. builtin_watchers = a # b # rest \<and> ws_id b = ''server-recover'' \<and> ws_id a \<noteq> ''server-recover'' \<and>
     (\<forall>s \<in> set rest. ws_id s \<noteq> ''server-recover'')"
  by (simp add: builtin_watchers_def)

lemma evaluate_only_recovery:
  assumes "\<forall>s \<in> set builtin_watchers. watcher_enabled cfg s \<longleftrightarrow> ws_id s = ''server-recover''"
    and "\<forall>s \<in> set builtin_watchers. ws_id s = ''server-recover'' \<longrightarrow> effective_watcher_mode cfg s = Contained"
    and "watcher_events ''server-recover'' evs = [ev]"
  shows "evaluate_watchers_for_events ox cfg evs w = and_then (handle_server_recover_event ox Contained ev w) all_ok"
proof -
  obtain a b rest where split: "builtin_watchers = a # b # rest" "ws_id b = ''server-recover''" "ws_id a \<noteq> ''server-recover''"
    "\<forall>s \<in> set rest. ws_id s \<noteq> ''server-recover''" using builtin_split by blast
  have "evaluate_list ox cfg evs rest = all_ok"
  proof (intro ext evaluate_disabled)
    show "\<not> watcher_enabled cfg s" if "s \<in> set rest" for s
    proof -
      have "s \<in> set builtin_watchers" unfolding split(1) using that by simp
      with assms(1) split(4) that show ?thesis by blast
    qed
  qed
  moreover have "watcher_handler ox ''server-recover'' = handle_server_recover_event ox" by (simp add: watcher_handler_def)
  moreover have "and_then (and_then oc all_ok) all_ok = and_then oc all_ok" for oc
    by (simp add: and_then_def all_ok_def split: sum.split)
  moreover have "handle_each h [] = all_ok" for h by (simp add: fun_eq_iff)
  moreover have "a \<in> set builtin_watchers" "b \<in> set builtin_watchers" unfolding split(1) by simp_all
  with assms(1,2) split(2,3) have "\<not> watcher_enabled cfg a" "watcher_enabled cfg b" "effective_watcher_mode cfg b = Contained"
    by blast+
  ultimately show ?thesis
    unfolding evaluate_watchers_for_events_def split(1) by (simp add: split(2) assms(3))
qed

lemma contained_restarts:
  assumes "restart_possible ox p r (w_registry w)" "sr_last_restart_unix_ms r = None"
  shows "\<exists>w' r'. recover_contained ox now shown r w = (Inr (), w') \<and> w_supervisors w' = w_supervisors w @ [Spawned p] \<and>
    load_service_record (ox_host ox) (ox_paths ox) (w_registry w') (sr_service_id r) = Inr r' \<and>
    sr_status r' = ''recovering'' \<and> sr_supervisor_pid r' = p \<and> \<not> stop_requested r'"
proof -
  let ?env = "restart_env_at ox (ox_clock ox (w_reads w)) (w_reads w)"
  let ?r2 = "with_supervisor ?env p (recovering (rx_now ?env) r)"
  have env: "rx_host ?env = ox_host ox" "rx_paths ?env = ox_paths ox" "undisturbed ?env"
    "rx_lock ?env" "rx_publish ?env" "rx_spawn ?env = Some p" "rx_record_ok ?env" "rx_wait ?env = StillRunning" "rx_last_ok ?env"
    using assms(1) by (simp_all add: restart_env_at_def restart_possible_def undisturbed_def)
  have own: "own_path (ox_host ox) (ox_paths ox) r" and rc: "recheck ?env r (w_registry w) = None"
    and others: "ox_others ox = (\<lambda>n x. x)" and logs: "\<forall>n. ox_event_ok ox n \<and> ox_audit_ok ox n"
    using assms(1) by (simp_all add: restart_possible_def)
  have "restart_managed_service_bounded ?env r (w_registry w) = (Inr (), ?r2, store_at (ox_host ox) ?r2 (w_registry w), [Spawned p])"
    using restart_spawned [of ?env r "w_registry w"] env own rc by (simp add: Let_def)
  then have run: "restart_managed_service ox r w = (Inr (), ?r2, w\<lparr>w_reads := Suc (w_reads w),
      w_registry := store_at (ox_host ox) ?r2 (w_registry w), w_supervisors := w_supervisors w @ [Spawned p]\<rparr>)"
    by (simp add: restart_managed_service_def time_millis_def others)
  have key: "ensure_public_service_has_endpoint_key (sr_host r) (ox_key ox (w_reads w) (sr_service_id r)) (sr_requires_api_key r) = Inr ()"
    using assms(1) by (auto simp: restart_possible_def ensure_public_service_has_endpoint_key_def)
  have over: "\<not> in_backoff r now" using assms(2) by (simp add: in_backoff_def)
  obtain lv ac ms sv where oc: "recover_contained ox now shown r w = record_event ox ''server-recover'' lv ac ms sv
      (w\<lparr>w_reads := Suc (w_reads w), w_registry := store_at (ox_host ox) ?r2 (w_registry w),
         w_supervisors := w_supervisors w @ [Spawned p]\<rparr>)"
    using over by (simp add: recover_contained_def key run)
  have own2: "own_path (ox_host ox) (ox_paths ox) ?r2" using own by (intro own_path_fields)
  have "load_service_record (ox_host ox) (ox_paths ox) (store_at (ox_host ox) ?r2 (w_registry w)) (sr_service_id r) =
      Inr (on_disk (ox_host ox) ?r2)"
    using load_after_put [OF own2] by (simp add: store_at_def)
  moreover have "sr_status ?r2 = ''recovering''" "sr_stop_requested_unix_ms ?r2 = None"
    by (simp_all add: with_supervisor_def record_supervisor_identity_def recovering_def clear_recorded_pids_def reset_for_restart_def)
  ultimately show ?thesis
    using record_event_ok [OF logs] unfolding oc
    by (intro exI [of _ "on_disk (ox_host ox) ?r2"] exI conjI) (auto simp: prod_eq_iff frame stop_requested_def)
qed

lemma first_recoverable_skip:
  "\<forall>x \<in> set newer. recovery_reason ox n t x = None \<Longrightarrow> first_recoverable ox n t (newer @ xs) = first_recoverable ox n t xs"
  by (induction newer) auto

lemma recovery_trigger_collected:
  assumes "server_recover_due (w_state w) (ox_clock ox (w_reads w))"
    and found: "find_recoverable_service ox (w\<lparr>w_reads := Suc (w_reads w)\<rparr>) = (Inr (Some (r, reason)), w2)"
    and pressure: "\<forall>n t m. \<forall>ev \<in> set (ox_pressure ox n t m). te_watcher_hint ev = Some ''gpu-thermal-protect''"
  shows "\<exists>evs. collect_automation_events ox w = (Inr evs, w2) \<and>
    watcher_events ''server-recover'' evs = [recovery_trigger (ox_clock ox (w_reads w)) r reason]"
proof -
  let ?now = "ox_clock ox (w_reads w)" and ?g = "ox_gpu_snapshot ox (w_reads w2)"
  let ?mine = "\<lambda>ev. te_watcher_hint ev = Some ''server-recover'' \<and> prefix ''service.'' (te_kind ev)"
  have p: "filter ?mine (ox_pressure ox n t m) = []" for n t m
    using pressure by (auto simp: filter_empty_conv)
  have m: "\<not> ?mine (metrics_trigger ?now ?g)" by (simp add: metrics_trigger_def Let_def)
  have t: "?mine (recovery_trigger ?now r reason)"
    by (simp add: recovery_trigger_def service_recovery_event_kind_def)
  show ?thesis
    using assms(1) found p m t
    by (cases "therock_update_due (w_state w) ?now"; cases "gpu_metrics_due (w_state w) ?now";
        cases "gpu_thermal_protect_due (w_state w) ?now"; cases "gs_monitor ?g")
      (simp_all add: collect_automation_events_def time_millis_def Let_def watcher_events_def events_for_watcher_def)
qed

text \<open>A failed service is restarted by one tick of the watchers: when the recovery watcher is the
  enabled one, contained and due, and no newer service needs recovery, the tick ends without an
  error with the service's record naming the new supervisor.\<close>

theorem failed_service_restarted:
  assumes cfg: "\<forall>s \<in> set builtin_watchers. watcher_enabled cfg s \<longleftrightarrow> ws_id s = ''server-recover''"
      "\<forall>s \<in> set builtin_watchers. ws_id s = ''server-recover'' \<longrightarrow> effective_watcher_mode cfg s = Contained"
    and due: "server_recover_due (w_state w) (ox_clock ox (w_reads w))"
    and recs: "load_managed_services (w_registry w) = Inr (newer @ r # older)"
      "\<forall>x \<in> set newer. \<forall>n t. recovery_reason ox n t x = None"
    and r: "sr_mode r = ''managed''" "\<not> stop_requested r" "sr_status r = ''failed''" "sr_last_restart_unix_ms r = None"
      "load_service_record (ox_host ox) (ox_paths ox) (w_registry w) (sr_service_id r) = Inr r"
    and possible: "restart_possible ox p r (w_registry w)"
    and pressure: "\<forall>n t m. \<forall>ev \<in> set (ox_pressure ox n t m). te_watcher_hint ev = Some ''gpu-thermal-protect''"
  shows "\<exists>w' r'. evaluate_watchers ox cfg w = (Inr (), w') \<and> w_supervisors w' = w_supervisors w @ [Spawned p] \<and>
    load_service_record (ox_host ox) (ox_paths ox) (w_registry w') (sr_service_id r) = Inr r' \<and>
    sr_status r' = ''recovering'' \<and> sr_supervisor_pid r' = p \<and> \<not> stop_requested r'"
proof -
  let ?now = "ox_clock ox (w_reads w)" and ?w2 = "w\<lparr>w_reads := Suc (Suc (w_reads w))\<rparr>"
  let ?trigger = "recovery_trigger ?now r ''manifest_status_failed''"
  have first: "first_recoverable ox n t (newer @ r # older) = Some (r, ''manifest_status_failed'')" for n t
    using recs(2) r(1-4) first_recoverable_skip [of newer ox n t "r # older"]
    by (simp add: recovery_reason_def in_backoff_def manifest_service_recovery_reason_def)
  have found: "find_recoverable_service ox (w\<lparr>w_reads := Suc (w_reads w)\<rparr>) = (Inr (Some (r, ''manifest_status_failed'')), ?w2)"
    using recs(1) first by (simp add: find_recoverable_service_def time_millis_def)
  have kind: "te_kind ?trigger = ''service.manifest_recoverable''" "te_watcher_hint ?trigger = Some ''server-recover''"
    "te_service_id ?trigger = Some (sr_service_id r)"
    by (simp_all add: recovery_trigger_def service_recovery_event_kind_def)
  obtain evs where coll: "collect_automation_events ox w = (Inr evs, ?w2)" and mine: "watcher_events ''server-recover'' evs = [?trigger]"
    using recovery_trigger_collected [OF due found pressure] by blast
  note ev = evaluate_only_recovery [OF cfg mine, of ox ?w2]
  have others: "ox_others ox = (\<lambda>n x. x)" using possible by (simp add: restart_possible_def)
  have matches: "service_record_matches_recovery_event ox r ?trigger ?w2 = (True, ?w2\<lparr>w_reads := Suc (w_reads ?w2)\<rparr>)"
    using r kind by (simp add: service_record_matches_recovery_event_def time_millis_def manifest_service_recovery_reason_def)
  let ?w4 = "?w2\<lparr>w_reads := Suc (Suc (w_reads ?w2))\<rparr>"
  have handle: "handle_server_recover_event ox Contained ?trigger ?w2 = recover_contained ox (ox_clock ox (Suc (w_reads ?w2)))
      (display_recovery_reason (case te_reason ?trigger of Some s \<Rightarrow> s | None \<Rightarrow> ''recoverable_event'')) r ?w4"
    using kind r(5) others matches
    by (simp add: handle_server_recover_event_def handle_server_recover_event_with_record_def time_millis_def)
  have possible4: "restart_possible ox p r (w_registry ?w4)" using possible by simp
  obtain w' r' where run: "handle_server_recover_event ox Contained ?trigger ?w2 = (Inr (), w')"
    and after: "w_supervisors w' = w_supervisors w @ [Spawned p]"
      "load_service_record (ox_host ox) (ox_paths ox) (w_registry w') (sr_service_id r) = Inr r'"
      "sr_status r' = ''recovering''" "sr_supervisor_pid r' = p" "\<not> stop_requested r'"
    using contained_restarts [OF possible4 r(4), of "ox_clock ox (Suc (w_reads ?w2))"
      "display_recovery_reason (case te_reason ?trigger of Some s \<Rightarrow> s | None \<Rightarrow> ''recoverable_event'')"]
    unfolding handle by auto
  have "evaluate_watchers ox cfg w = (Inr (), w')"
    by (simp add: evaluate_watchers_def coll ev run and_then_def all_ok_def)
  with after show ?thesis by blast
qed

section \<open>Instances\<close>

definition ex_failed :: service where
  "ex_failed = ex_service\<lparr>sr_status := ''failed''\<rparr>"

definition ex_failed_registry :: registry where
  "ex_failed_registry = [(''/d/services/svc.json'', Stored ex_failed)]"

definition ex_outside :: outside where
  "ex_outside = \<lparr>ox_clock = (\<lambda>n. 100000), ox_event_ok = (\<lambda>n. True), ox_audit_ok = (\<lambda>n. True), ox_faults = (\<lambda>n. no_faults),
     ox_nanos = (\<lambda>n. n), ox_codec = ex_codec, ox_render = (\<lambda>j. ''{}''), ox_host = Linux, ox_paths = ex_paths,
     ox_others = (\<lambda>n x. x), ox_is_ipv6 = (\<lambda>s. False), ox_connects = (\<lambda>n s. True), ox_healthcheck = (\<lambda>n r. None),
     ox_key = (\<lambda>n s. False), ox_restart = (\<lambda>n. ex_restart\<lparr>rx_wait := StillRunning\<rparr>), ox_stamp_window = (\<lambda>n x. x),
     ox_stamp_ok = (\<lambda>n. True), ox_artifact = (\<lambda>n s. Inr False), ox_tool = (\<lambda>n s. Inl ''none''), ox_error_text = (\<lambda>n. ''error''),
     ox_gpu_snapshot = (\<lambda>n. \<lparr>gs_amd_smi_available = False, gs_static = None, gs_monitor = None, gs_note = None\<rparr>),
     ox_pressure = (\<lambda>n t m. []), ox_state_ok = (\<lambda>n. True), ox_state_left = (\<lambda>n. None)\<rparr>"

definition ex_world :: world where
  "ex_world = \<lparr>w_reads = 0, w_state = [\<lparr>sn_id = ''server-recover'', sn_enabled = True, sn_mode = Contained, sn_summary = [],
       sn_last_event = None, sn_last_event_unix_ms = None\<rparr>], w_registry = ex_failed_registry, w_proposals = (\<lambda>g. None),
     w_events = [], w_audit = [], w_supervisors = [],
     w_daemon_pid = 90, w_running = True, w_last_tick = 0, w_endpoint = None, w_state_file = None\<rparr>"

definition ex_mode :: "watcher_mode \<Rightarrow> config" where
  "ex_mode mode = [(''server-recover'', \<lparr>wc_enabled = True, wc_mode = Some mode\<rparr>)]"

lemmas ex_failed_eval = ex_failed_def ex_service_def service_new_def normalize_paths_for_host_def
  normalize_runtime_path_for_host_def normalize_runtime_path_text_for_platform_def is_windows_def with_storage_paths_def
  normalize_runtime_path_for_storage_def service_manifest_path_def services_dir_def path_join_def
  ex_paths_def main_separator_def

lemma ex_failed_fields: "sr_service_id ex_failed = ''svc''" "sr_mode ex_failed = ''managed''" "sr_status ex_failed = ''failed''"
  "sr_last_restart_unix_ms ex_failed = None" "sr_stop_requested_unix_ms ex_failed = None" "sr_host ex_failed = ''127.0.0.1''"
  "sr_requires_api_key ex_failed = False"
  by (simp_all add: ex_failed_def ex_service_def service_new_def)

lemma ex_failed_own: "own_path Linux ex_paths ex_failed"
  by (simp add: own_path_def ex_failed_fields ex_svc_accepted) (simp add: ex_failed_eval)

lemma ex_failed_loaded:
  "load_service_record Linux ex_paths ex_failed_registry ''svc'' = Inr ex_failed"
  "load_managed_services ex_failed_registry = Inr [ex_failed]"
  by (simp_all add: load_service_record_def ex_svc_accepted ex_asked_path ex_failed_registry_def ex_failed_fields
    load_managed_services_def unreadable_entry_def map_filter_simps)

lemma ex_possible: "restart_possible ex_outside 60 ex_failed ex_failed_registry"
proof -
  have "recheck (restart_env_at ex_outside t n) ex_failed ex_failed_registry = None" for t n
    using ex_failed_loaded by (simp add: recheck_def restart_env_at_def ex_outside_def ex_restart_def ex_failed_fields)
  then show ?thesis
    using ex_failed_own
    by (simp add: restart_possible_def ex_outside_def ex_restart_def undisturbed_def ex_failed_fields is_public_bind_host_def)
qed

lemma ex_mode_enabled:
  "watcher_enabled (ex_mode mode) s = (ws_id s = ''server-recover'')"
  "ws_id s = ''server-recover'' \<Longrightarrow> effective_watcher_mode (ex_mode mode) s = mode"
  by (simp_all add: watcher_enabled_def effective_watcher_mode_def ex_mode_def)

text \<open>A witness.\<close>

theorem failed_service_restarted_witness:
  "\<exists>w'. evaluate_watchers ex_outside (ex_mode Contained) ex_world = (Inr (), w') \<and> w_supervisors w' = [Spawned 60]"
proof -
  have "server_recover_due (w_state ex_world) (ox_clock ex_outside (w_reads ex_world))"
    by (simp add: server_recover_due_def watcher_due_def ex_world_def)
  moreover have "load_managed_services (w_registry ex_world) = Inr ([] @ ex_failed # [])"
    by (simp add: ex_world_def ex_failed_loaded)
  moreover have "restart_possible ex_outside 60 ex_failed (w_registry ex_world)"
    using ex_possible by (simp add: ex_world_def)
  moreover have "load_service_record (ox_host ex_outside) (ox_paths ex_outside) (w_registry ex_world) (sr_service_id ex_failed) = Inr ex_failed"
    using ex_failed_loaded by (simp add: ex_outside_def ex_world_def ex_failed_fields)
  ultimately show ?thesis
    using failed_service_restarted [of "ex_mode Contained" ex_world ex_outside "[]" ex_failed "[]" 60]
    by (simp add: ex_mode_enabled ex_failed_fields stop_requested_def ex_outside_def ex_world_def) blast
qed

definition ex_trigger :: trigger_event where
  "ex_trigger = recovery_trigger 5 ex_failed ''manifest_status_failed''"

lemma ex_trigger_fields: "te_kind ex_trigger = ''service.manifest_recoverable''"
  "te_watcher_hint ex_trigger = Some ''server-recover''" "te_service_id ex_trigger = Some ''svc''"
  by (simp_all add: ex_trigger_def recovery_trigger_def service_recovery_event_kind_def ex_failed_fields)

text \<open>A witness.\<close>

theorem automation_acts_only_when_allowed_witness:
  "\<exists>res w'. evaluate_watchers_for_events ex_outside (ex_mode Observe) [ex_trigger] ex_world = (res, w') \<and>
     w_registry w' = ex_failed_registry \<and> w_supervisors w' = [] \<and> w_proposals w' = w_proposals ex_world"
proof -
  obtain res w' where run: "evaluate_watchers_for_events ex_outside (ex_mode Observe) [ex_trigger] ex_world = (res, w')" by fastforce
  have "ox_others ex_outside = (\<lambda>n x. x)" by (simp add: ex_outside_def)
  from automation_acts_only_when_allowed [OF run this] run show ?thesis
    by (auto simp: ex_mode_enabled ex_world_def)
qed


text \<open>A witness: two events, one request.\<close>

theorem one_request_per_service_witness:
  "\<exists>res w' ps'. evaluate_watchers_for_events ex_outside (ex_mode Propose) [ex_trigger, ex_trigger] ex_world = (res, w') \<and>
     load_automation_proposals ex_codec (w_proposals w') = Inr ps' \<and>
     length (filter (asks_for ''server-recover'' ''svc'' ''queue_restart_proposal'' ''restart_server'') ps') \<le> 1"
proof -
  obtain res w' where run: "evaluate_watchers_for_events ex_outside (ex_mode Propose) [ex_trigger, ex_trigger] ex_world = (res, w')"
    by fastforce
  have "codec_ok (ox_codec ex_outside)" "\<forall>n. \<not> check_fails (ox_faults ex_outside n)"
    "load_automation_proposals (ox_codec ex_outside) (w_proposals ex_world) = Inr []"
    using ex_codec_ok by (simp_all add: ex_outside_def no_faults_def ex_world_def load_automation_proposals_def)
  from one_request_per_service [OF run this] run show ?thesis by (auto simp: ex_outside_def)
qed

text \<open>A witness: a full disk.\<close>

theorem webhook_cannot_end_daemon_witness:
  "\<exists>e w'. daemon_webhook (ex_outside\<lparr>ox_event_ok := (\<lambda>n. False)\<rparr>) (ex_mode Observe) (Some ex_trigger) ex_world = (Inl e, w') \<and>
     e \<in> {EventNotAppended, AuditNotAppended, StateNotWritten} \<and>
     (\<exists>w'. daemon_webhook ex_outside (ex_mode Observe) (Some ex_trigger) ex_world = (Inr (), w'))"
proof -
  let ?full = "ex_outside\<lparr>ox_event_ok := (\<lambda>n. False)\<rparr>"
  obtain e w' where run: "daemon_webhook ?full (ex_mode Observe) (Some ex_trigger) ex_world = (Inl e, w')"
    by (simp add: daemon_webhook_def daemon_event_def record_event_def time_millis_def Let_def and_then_def append_automation_event_def)
  moreover have "e \<in> {EventNotAppended, AuditNotAppended, StateNotWritten}"
    using run by (rule webhook_cannot_end_daemon [THEN conjunct1, rule_format])
  moreover have "\<exists>w'. daemon_webhook ex_outside (ex_mode Observe) (Some ex_trigger) ex_world = (Inr (), w')"
    by (rule webhook_cannot_end_daemon [THEN conjunct2, rule_format]) (simp add: ex_outside_def)
  ultimately show ?thesis by blast
qed

definition ex_request :: webhook_request where
  "ex_request = \<lparr>wr_watcher_hint = ''server-recover'', wr_kind = ''service.manifest_recoverable'', wr_service_id = Some ''svc'',
     wr_reason = None, wr_payload = JNull\<rparr>"

lemma ex_request_event: "\<exists>ev. local_webhook_event_from_request 5 ex_request = Inr ev \<and> te_watcher_hint ev = Some ''server-recover''"
proof -
  have t: "trim ''server-recover'' = ''server-recover''" "trim ''service.manifest_recoverable'' = ''service.manifest_recoverable''"
    "trim ''svc'' = ''svc''"
    by (rule trim_graphic, simp add: ascii_graphic_def)+
  have "builtin_watcher ''server-recover'' \<noteq> None" by (simp add: builtin_watcher_def builtin_watchers_def)
  then show ?thesis
    by (simp add: local_webhook_event_from_request_def ex_request_def t non_empty_def ex_svc_accepted
      local_webhook_kind_allowed_def Let_def)
qed

text \<open>A witness.\<close>

theorem webhook_events_typed_witness:
  "\<exists>ev. local_webhook_event_from_request 5 ex_request = Inr ev \<and>
     fst (handle_server_recover_event ex_outside Contained ev ex_world) \<noteq> Inl MissingServiceId"
proof -
  obtain ev where ev: "local_webhook_event_from_request 5 ex_request = Inr ev" "te_watcher_hint ev = Some ''server-recover''"
    using ex_request_event by blast
  with webhook_events_typed [OF ev(1)] show ?thesis by blast
qed

end
