(* ===== verification/Autostart.thy ===== *)
theory Autostart
  imports Automation
begin

text \<open>
  The background helper (the automation daemon) and those who start it, as concurrent processes:
  \<^verbatim>\<open>rocm automations enable\<close> and \<^verbatim>\<open>disable\<close> (\<^verbatim>\<open>apps/rocm/src/automations.rs\<close>), the start with its
  lock and claim (\<^verbatim>\<open>apps/rocm/src/service_launch.rs\<close>, \<^verbatim>\<open>apps/rocm/src/background_helper.rs\<close>) and the
  helper's own exit once no watcher is enabled (\<^verbatim>\<open>apps/rocmd/src/daemon.rs\<close>).

  The processes share the configuration, the runtime state file, the claim file, the autostart
  lock and the clock. A step is one access of one process to one of these, so a run is any
  interleaving. What may go wrong beside the interleaving is named in a record, so that each
  property says what it needs.
\<close>

section \<open>Enabling and disabling a watcher\<close>

definition watcher_config_mut :: "string \<Rightarrow> (watcher_user_config \<Rightarrow> watcher_user_config) \<Rightarrow> config \<Rightarrow> config" where
  "watcher_config_mut wid f cfg =
     (if map_of cfg wid = None then cfg @ [(wid, f \<lparr>wc_enabled = False, wc_mode = None\<rparr>)]
      else update_first (\<lambda>e. fst e = wid) (\<lambda>e. (fst e, f (snd e))) cfg)"

definition enable_watcher :: "string \<Rightarrow> watcher_mode option \<Rightarrow> config \<Rightarrow> config option" where
  "enable_watcher wid mode cfg =
     (case builtin_watcher wid of
        None \<Rightarrow> None
      | Some spec \<Rightarrow> Some (watcher_config_mut (ws_id spec)
          (\<lambda>c. c\<lparr>wc_enabled := True, wc_mode := (case mode of Some m \<Rightarrow> Some m | None \<Rightarrow> wc_mode c)\<rparr>) cfg))"

definition disable_watcher :: "string \<Rightarrow> config \<Rightarrow> config option" where
  "disable_watcher wid cfg =
     (case builtin_watcher wid of
        None \<Rightarrow> None
      | Some spec \<Rightarrow> Some (watcher_config_mut (ws_id spec) (\<lambda>c. c\<lparr>wc_enabled := False\<rparr>) cfg))"

section \<open>The decision to start the helper\<close>

definition AUTOSTART_CLAIM_TTL_MS :: u128 where "AUTOSTART_CLAIM_TTL_MS = 30000"

record autostart_claim =
  ac_daemon_pid :: u32
  ac_spawned_at_ms :: u128

text \<open>The text of the claim file; \<^verbatim>\<open>None\<close> is a file that is not there or cannot be read.\<close>

definition write_autostart_claim :: "autostart_claim \<Rightarrow> string" where
  "write_autostart_claim c = show_nat (unat (ac_daemon_pid c)) @ '' '' @ show_nat (unat (ac_spawned_at_ms c))"

definition read_autostart_claim :: "string option \<Rightarrow> autostart_claim option" where
  "read_autostart_claim file =
     (case map_option split_whitespace file of
        Some (p # t # _) \<Rightarrow>
          (case (parse_uint 32 p, parse_uint 128 t) of
             (Some n, Some ms) \<Rightarrow> Some \<lparr>ac_daemon_pid = of_nat n, ac_spawned_at_ms = of_nat ms\<rparr>
           | _ \<Rightarrow> None)
      | _ \<Rightarrow> None)"

definition autostart_spawn_in_flight :: "autostart_claim option \<Rightarrow> u128 \<Rightarrow> u128 \<Rightarrow> (u32 \<Rightarrow> bool) \<Rightarrow> bool" where
  "autostart_spawn_in_flight c now ttl pid_alive =
     (case c of None \<Rightarrow> False
      | Some c \<Rightarrow> saturating_sub now (ac_spawned_at_ms c) < ttl \<and> pid_alive (ac_daemon_pid c))"

definition background_helper_already_running :: "(u32 \<Rightarrow> bool) \<Rightarrow> runtime_state option \<Rightarrow> bool" where
  "background_helper_already_running alive st =
     (case st of None \<Rightarrow> False | Some st \<Rightarrow> rs_running st \<and> alive (rs_daemon_pid st))"

text \<open>The helper removes the claim when its first word is its own PID.\<close>

definition own_claim :: "u32 \<Rightarrow> string option \<Rightarrow> bool" where
  "own_claim own file =
     (case map_option split_whitespace file of
        Some (p # _) \<Rightarrow> map_option of_nat (parse_uint 32 p) = Some own
      | _ \<Rightarrow> False)"

definition release_own_autostart_claim :: "u32 \<Rightarrow> string option \<Rightarrow> string option" where
  "release_own_autostart_claim own file = (if own_claim own file then None else file)"

lemma claim_read_back:
  "read_autostart_claim (Some (write_autostart_claim c)) = Some c"
  "own_claim p (Some (write_autostart_claim c)) \<longleftrightarrow> p = ac_daemon_pid c"
proof -
  have graphic: "list_all ascii_graphic (show_nat n)" for n
    using show_nat_digits [of n] by (auto simp: list_all_iff digit_graphic)
  have words: "split_whitespace (show_nat m @ '' '' @ show_nat n) = [show_nat m, show_nat n]" for m n
  proof -
    have "split_ws [] (show_nat m @ CHR '' '' # show_nat n) = emit_word (show_nat m) @ split_ws [] (show_nat n)"
      by (simp only: split_ws_word [OF graphic] split_ws_space append_Nil)
    then show ?thesis using split_ws_word [OF graphic, of "[]" n "[]"] by (simp add: split_whitespace_def emit_word_def)
  qed
  have u32: "parse_uint 32 (show_nat (unat (w :: u32))) = Some (unat w)" for w
    by (rule parse_uint_show_nat) (use unsigned_less [of w] in simp)
  have u128: "parse_uint 128 (show_nat (unat (w :: u128))) = Some (unat w)" for w
    by (rule parse_uint_show_nat) (use unsigned_less [of w] in simp)
  show "read_autostart_claim (Some (write_autostart_claim c)) = Some c"
    by (simp add: read_autostart_claim_def write_autostart_claim_def words u32 u128 del: append_Cons append.simps)
  show "own_claim p (Some (write_autostart_claim c)) \<longleftrightarrow> p = ac_daemon_pid c"
    by (auto simp add: own_claim_def write_autostart_claim_def words u32 simp del: append_Cons append.simps)
qed

lemma read_claim_own: "read_autostart_claim file = Some c \<Longrightarrow> own_claim (ac_daemon_pid c) file"
  by (auto simp: read_autostart_claim_def own_claim_def split: option.splits list.splits)

lemma released_claim: "read_autostart_claim (release_own_autostart_claim p file) = Some c \<Longrightarrow>
    ac_daemon_pid c \<noteq> p \<and> read_autostart_claim file = Some c"
  by (auto simp: release_own_autostart_claim_def read_autostart_claim_def [of None] dest: read_claim_own split: if_splits)

section \<open>The processes\<close>

text \<open>A caller that may start the helper, after the accesses it has made: none; it has seen a watcher
  enabled; it has the lock; it has seen no helper running; it has seen no claim in flight; it has
  spawned the helper.\<close>

datatype caller_phase = AboutToCheck | WaitsForLock | HasLock | SawNoHelper | SawNoClaim | HasSpawned u32

text \<open>The helper: before its first write of the state file; in a tick, after it has seen a watcher
  enabled; between ticks; the same with an exit attempt waiting for the lock; with the lock; after it
  has confirmed that no watcher is enabled; with its claim released; with its stop published; in the
  shutdown arm; and after the last access.\<close>

datatype helper_phase = Booting | Ticking | Looping | AwaitsLock | Confirming | Leaving | Releasing | Published |
  ShuttingDown | Exiting

datatype holder = HeldByCaller nat | HeldByHelper u32

record autostart =
  as_config :: config
  as_state :: "runtime_state option"
  as_claim :: "string option"
  as_lock :: "holder option"
  as_callers :: "nat \<Rightarrow> caller_phase option"
  as_helpers :: "u32 \<Rightarrow> helper_phase option"
  as_now :: u128

text \<open>What may go wrong: a helper is signalled or dies, the claim cannot be written or removed, a
  claim gets too old while it is needed, a spawn fails, a caller ends early, or a user starts a
  helper by hand.\<close>

record mishaps =
  mh_signal :: bool
  mh_crash :: bool
  mh_claim_write :: bool
  mh_claim_release :: bool
  mh_slow :: bool
  mh_spawn :: bool
  mh_caller :: bool
  mh_by_hand :: bool

text \<open>\<^verbatim>\<open>process_is_running\<close>: of the processes here, only helpers have their PID recorded.\<close>

definition alive :: "autostart \<Rightarrow> u32 \<Rightarrow> bool" where
  "alive s p \<longleftrightarrow> p \<noteq> 0 \<and> as_helpers s p \<noteq> None"

definition in_flight :: "autostart \<Rightarrow> bool" where
  "in_flight s \<longleftrightarrow>
     autostart_spawn_in_flight (read_autostart_claim (as_claim s)) (as_now s) AUTOSTART_CLAIM_TTL_MS (alive s)"

definition caller_at :: "nat \<Rightarrow> caller_phase \<Rightarrow> autostart \<Rightarrow> autostart" where
  "caller_at c ph s = s\<lparr>as_callers := (as_callers s)(c := Some ph)\<rparr>"

text \<open>A caller that ends closes the lock file if it has it.\<close>

definition caller_gone :: "nat \<Rightarrow> autostart \<Rightarrow> autostart" where
  "caller_gone c s = s\<lparr>as_callers := (as_callers s)(c := None),
     as_lock := (if as_lock s = Some (HeldByCaller c) then None else as_lock s)\<rparr>"

definition helper_at :: "u32 \<Rightarrow> helper_phase \<Rightarrow> autostart \<Rightarrow> autostart" where
  "helper_at p ph s = s\<lparr>as_helpers := (as_helpers s)(p := Some ph)\<rparr>"

definition helper_gone :: "u32 \<Rightarrow> autostart \<Rightarrow> autostart" where
  "helper_gone p s = s\<lparr>as_helpers := (as_helpers s)(p := None),
     as_lock := (if as_lock s = Some (HeldByHelper p) then None else as_lock s)\<rparr>"

definition state_of :: "bool \<Rightarrow> u32 \<Rightarrow> runtime_state \<Rightarrow> bool" where
  "state_of running p st \<longleftrightarrow> rs_running st = running \<and> rs_daemon_pid st = p"

inductive caller_step :: "mishaps \<Rightarrow> autostart \<Rightarrow> autostart \<Rightarrow> bool" for mh where
  enable: "enable_watcher wid mode (as_config s) = Some cfg \<Longrightarrow> as_callers s c = None \<Longrightarrow>
    caller_step mh s (caller_at c AboutToCheck (s\<lparr>as_config := cfg\<rparr>))"
| disable: "disable_watcher wid (as_config s) = Some cfg \<Longrightarrow> caller_step mh s (s\<lparr>as_config := cfg\<rparr>)"
| serve: "as_callers s c = None \<Longrightarrow> caller_step mh s (caller_at c AboutToCheck s)"
| saw_watcher: "as_callers s c = Some AboutToCheck \<Longrightarrow> automation_daemon_enabled (as_config s) \<Longrightarrow>
    caller_step mh s (caller_at c WaitsForLock s)"
| saw_none: "as_callers s c = Some AboutToCheck \<Longrightarrow> \<not> automation_daemon_enabled (as_config s) \<Longrightarrow>
    caller_step mh s (caller_gone c s)"
| take_lock: "as_callers s c = Some WaitsForLock \<Longrightarrow> as_lock s = None \<Longrightarrow>
    caller_step mh s (caller_at c HasLock (s\<lparr>as_lock := Some (HeldByCaller c)\<rparr>))"
| saw_helper: "as_callers s c = Some HasLock \<Longrightarrow> background_helper_already_running (alive s) (as_state s) \<Longrightarrow>
    caller_step mh s (caller_gone c s)"
| saw_no_helper: "as_callers s c = Some HasLock \<Longrightarrow> \<not> background_helper_already_running (alive s) (as_state s) \<Longrightarrow>
    caller_step mh s (caller_at c SawNoHelper s)"
| saw_claim: "as_callers s c = Some SawNoHelper \<Longrightarrow> in_flight s \<Longrightarrow> caller_step mh s (caller_gone c s)"
| saw_no_claim: "as_callers s c = Some SawNoHelper \<Longrightarrow> \<not> in_flight s \<Longrightarrow> caller_step mh s (caller_at c SawNoClaim s)"
| spawn: "as_callers s c = Some SawNoClaim \<Longrightarrow> as_helpers s p = None \<Longrightarrow> p \<noteq> 0 \<Longrightarrow>
    caller_step mh s (caller_at c (HasSpawned p) (helper_at p Booting s))"
| spawn_fails: "as_callers s c = Some SawNoClaim \<Longrightarrow> mh_spawn mh \<Longrightarrow> caller_step mh s (caller_gone c s)"
| write_claim: "as_callers s c = Some (HasSpawned p) \<Longrightarrow>
    caller_step mh s (caller_gone c (s\<lparr>as_claim := Some (write_autostart_claim
      \<lparr>ac_daemon_pid = p, ac_spawned_at_ms = as_now s\<rparr>)\<rparr>))"
| claim_fails: "as_callers s c = Some (HasSpawned p) \<Longrightarrow> mh_claim_write mh \<Longrightarrow>
    file = as_claim s \<or> (\<forall>cl. read_autostart_claim file = Some cl \<longrightarrow> ac_daemon_pid cl = p) \<Longrightarrow>
    caller_step mh s (caller_gone c (s\<lparr>as_claim := file\<rparr>))"
| caller_ends: "as_callers s c = Some ph \<Longrightarrow> mh_caller mh \<Longrightarrow> caller_step mh s (caller_gone c s)"

inductive helper_step :: "mishaps \<Rightarrow> autostart \<Rightarrow> autostart \<Rightarrow> bool" for mh where
  by_hand: "mh_by_hand mh \<Longrightarrow> as_helpers s p = None \<Longrightarrow> p \<noteq> 0 \<Longrightarrow> helper_step mh s (helper_at p Booting s)"
| publish: "as_helpers s p = Some Booting \<Longrightarrow> state_of True p st \<Longrightarrow>
    helper_step mh s (helper_at p Ticking (s\<lparr>as_state := Some st\<rparr>))"
| tick_saw_watcher: "as_helpers s p = Some ph \<Longrightarrow> ph \<in> {Looping, AwaitsLock} \<Longrightarrow> automation_daemon_enabled (as_config s) \<Longrightarrow>
    helper_step mh s (helper_at p Ticking s)"
| tick_saw_none: "as_helpers s p = Some ph \<Longrightarrow> ph \<in> {Looping, AwaitsLock} \<Longrightarrow> \<not> automation_daemon_enabled (as_config s) \<Longrightarrow>
    helper_step mh s (helper_at p AwaitsLock s)"
| write_tick: "as_helpers s p = Some Ticking \<Longrightarrow> state_of True p st \<Longrightarrow>
    helper_step mh s (helper_at p Looping (s\<lparr>as_state := Some st\<rparr>))"
| webhook: "as_helpers s p = Some ph \<Longrightarrow> ph \<in> {Looping, AwaitsLock} \<Longrightarrow> state_of True p st \<Longrightarrow>
    helper_step mh s (s\<lparr>as_state := Some st\<rparr>)"
| gives_up: "as_helpers s p = Some AwaitsLock \<Longrightarrow> helper_step mh s (helper_at p Looping s)"
| gets_lock: "as_helpers s p = Some AwaitsLock \<Longrightarrow> as_lock s = None \<Longrightarrow>
    helper_step mh s (helper_at p Confirming (s\<lparr>as_lock := Some (HeldByHelper p)\<rparr>))"
| stays: "as_helpers s p = Some Confirming \<Longrightarrow> automation_daemon_enabled (as_config s) \<Longrightarrow>
    helper_step mh s (helper_at p Looping (s\<lparr>as_lock := None\<rparr>))"
| leaves: "as_helpers s p = Some Confirming \<Longrightarrow> \<not> automation_daemon_enabled (as_config s) \<Longrightarrow>
    helper_step mh s (helper_at p Leaving s)"
| releases: "as_helpers s p = Some Leaving \<Longrightarrow>
    helper_step mh s (helper_at p Releasing (s\<lparr>as_claim := release_own_autostart_claim p (as_claim s)\<rparr>))"
| release_fails: "as_helpers s p = Some Leaving \<Longrightarrow> mh_claim_release mh \<Longrightarrow> helper_step mh s (helper_at p Releasing s)"
| publishes_stop: "as_helpers s p = Some Releasing \<Longrightarrow> state_of False p st \<Longrightarrow>
    helper_step mh s (helper_at p Published (s\<lparr>as_state := Some st\<rparr>))"
| unlocks: "as_helpers s p = Some Published \<Longrightarrow> helper_step mh s (helper_at p Exiting (s\<lparr>as_lock := None\<rparr>))"
| signalled: "as_helpers s p = Some ph \<Longrightarrow> ph \<in> {Looping, AwaitsLock} \<Longrightarrow> mh_signal mh \<Longrightarrow>
    helper_step mh s (helper_at p ShuttingDown s)"
| shut_down: "as_helpers s p = Some ShuttingDown \<Longrightarrow> state_of False p st \<Longrightarrow>
    helper_step mh s (helper_at p Exiting (s\<lparr>as_state := Some st\<rparr>))"
| exits: "as_helpers s p = Some Exiting \<Longrightarrow> helper_step mh s (helper_gone p s)"
| dies: "as_helpers s p = Some ph \<Longrightarrow> mh_crash mh \<Longrightarrow> helper_step mh s (helper_gone p s)"

text \<open>The wall clock moves as it likes. Unless \<^verbatim>\<open>mh_slow\<close>, a claim stays in flight while its helper
  boots, and while a caller is between its two readings.\<close>

definition claim_needed :: "autostart \<Rightarrow> bool" where
  "claim_needed s \<longleftrightarrow>
     (\<exists>cl. read_autostart_claim (as_claim s) = Some cl \<and> as_helpers s (ac_daemon_pid cl) = Some Booting) \<or>
     (\<exists>c. as_callers s c = Some SawNoHelper)"

inductive autostart_step :: "mishaps \<Rightarrow> autostart \<Rightarrow> autostart \<Rightarrow> bool" for mh where
  caller: "caller_step mh s s' \<Longrightarrow> autostart_step mh s s'"
| helper: "helper_step mh s s' \<Longrightarrow> autostart_step mh s s'"
| clock: "mh_slow mh \<or> \<not> (claim_needed s \<and> in_flight s) \<or> in_flight (s\<lparr>as_now := now\<rparr>) \<Longrightarrow>
    autostart_step mh s (s\<lparr>as_now := now\<rparr>)"

text \<open>At first no process runs and no watcher is enabled; the files hold whatever was left in them.\<close>

inductive autostart_reachable :: "mishaps \<Rightarrow> autostart \<Rightarrow> bool" for mh where
  start: "as_callers s = (\<lambda>c. None) \<Longrightarrow> as_helpers s = (\<lambda>p. None) \<Longrightarrow> as_lock s = None \<Longrightarrow>
    \<not> automation_daemon_enabled (as_config s) \<Longrightarrow> autostart_reachable mh s"
| step: "autostart_reachable mh s \<Longrightarrow> autostart_step mh s s' \<Longrightarrow> autostart_reachable mh s'"

section \<open>Invariants\<close>

lemmas moves = caller_at_def caller_gone_def helper_at_def helper_gone_def

lemma moves_frame [simp]:
  "as_config (caller_at c ph s) = as_config s" "as_state (caller_at c ph s) = as_state s" "as_claim (caller_at c ph s) = as_claim s"
  "as_lock (caller_at c ph s) = as_lock s" "as_helpers (caller_at c ph s) = as_helpers s" "as_now (caller_at c ph s) = as_now s"
  "as_config (caller_gone c s) = as_config s" "as_state (caller_gone c s) = as_state s" "as_claim (caller_gone c s) = as_claim s"
  "as_helpers (caller_gone c s) = as_helpers s" "as_now (caller_gone c s) = as_now s"
  "as_config (helper_at p hp s) = as_config s" "as_state (helper_at p hp s) = as_state s" "as_claim (helper_at p hp s) = as_claim s"
  "as_lock (helper_at p hp s) = as_lock s" "as_callers (helper_at p hp s) = as_callers s" "as_now (helper_at p hp s) = as_now s"
  "as_config (helper_gone p s) = as_config s" "as_state (helper_gone p s) = as_state s" "as_claim (helper_gone p s) = as_claim s"
  "as_callers (helper_gone p s) = as_callers s" "as_now (helper_gone p s) = as_now s"
  "as_callers (caller_at c ph s) = (as_callers s)(c := Some ph)" "as_callers (caller_gone c s) = (as_callers s)(c := None)"
  "as_helpers (helper_at p hp s) = (as_helpers s)(p := Some hp)" "as_helpers (helper_gone p s) = (as_helpers s)(p := None)"
  by (simp_all add: moves)

fun caller_locked :: "caller_phase option \<Rightarrow> bool" where
  "caller_locked None = False"
| "caller_locked (Some AboutToCheck) = False"
| "caller_locked (Some WaitsForLock) = False"
| "caller_locked (Some _) = True"

fun helper_locked :: "helper_phase option \<Rightarrow> bool" where
  "helper_locked (Some Confirming) = True"
| "helper_locked (Some Leaving) = True"
| "helper_locked (Some Releasing) = True"
| "helper_locked (Some Published) = True"
| "helper_locked _ = False"

definition lock_inv :: "autostart \<Rightarrow> bool" where
  "lock_inv s \<longleftrightarrow>
     (\<forall>c. caller_locked (as_callers s c) \<longleftrightarrow> as_lock s = Some (HeldByCaller c)) \<and>
     (\<forall>p. helper_locked (as_helpers s p) \<longleftrightarrow> as_lock s = Some (HeldByHelper p))"

lemma lock_held:
  assumes "lock_inv s"
  shows "as_callers s c = Some ph \<Longrightarrow> caller_locked (Some ph) \<longleftrightarrow> as_lock s = Some (HeldByCaller c)"
    and "as_helpers s p = Some hp \<Longrightarrow> helper_locked (Some hp) \<longleftrightarrow> as_lock s = Some (HeldByHelper p)"
  using assms unfolding lock_inv_def by metis+

lemma lock_inv_keeps:
  assumes "lock_inv s"
  shows "caller_locked (Some ph) = caller_locked (as_callers s c) \<Longrightarrow> lock_inv (caller_at c ph s)"
    and "helper_locked (Some hp) = helper_locked (as_helpers s p) \<Longrightarrow> lock_inv (helper_at p hp s)"
    and "lock_inv (caller_gone c s)" "lock_inv (helper_gone p s)"
    and "lock_inv (s\<lparr>as_config := cfg\<rparr>)" "lock_inv (s\<lparr>as_state := st\<rparr>)" "lock_inv (s\<lparr>as_claim := cl\<rparr>)"
      "lock_inv (s\<lparr>as_now := t\<rparr>)"
    and "as_lock s = None \<Longrightarrow> lock_inv (caller_at c HasLock (s\<lparr>as_lock := Some (HeldByCaller c)\<rparr>))"
    and "as_lock s = None \<Longrightarrow> lock_inv (helper_at p Confirming (s\<lparr>as_lock := Some (HeldByHelper p)\<rparr>))"
    and "helper_locked (as_helpers s p) \<Longrightarrow> \<not> helper_locked (Some hp) \<Longrightarrow> lock_inv (helper_at p hp (s\<lparr>as_lock := None\<rparr>))"
  using assms by (auto simp: lock_inv_def moves)

lemma lock_inv_spawn:
  "lock_inv s \<Longrightarrow> as_callers s c = Some SawNoClaim \<Longrightarrow> as_helpers s p = None \<Longrightarrow>
     lock_inv (caller_at c (HasSpawned p) (helper_at p Booting s))"
  by (auto intro!: lock_inv_keeps)

lemma caller_lock_inv: "caller_step mh s s' \<Longrightarrow> lock_inv s \<Longrightarrow> lock_inv s'"
  by (induction rule: caller_step.induct) (auto intro: lock_inv_keeps lock_inv_spawn)

lemma helper_lock_inv: "helper_step mh s s' \<Longrightarrow> lock_inv s \<Longrightarrow> lock_inv s'"
  by (induction rule: helper_step.induct) (auto intro: lock_inv_keeps simp: lock_held)

lemma step_lock_inv: "autostart_step mh s s' \<Longrightarrow> lock_inv s \<Longrightarrow> lock_inv s'"
  by (induction rule: autostart_step.induct) (auto intro: caller_lock_inv helper_lock_inv lock_inv_keeps)

text \<open>A state file that says the helper runs names no helper past its last write.\<close>

definition state_inv :: "autostart \<Rightarrow> bool" where
  "state_inv s \<longleftrightarrow> (\<forall>st. as_state s = Some st \<longrightarrow> rs_running st \<longrightarrow>
     as_helpers s (rs_daemon_pid st) \<notin> {Some Published, Some Exiting})"

lemma step_state_inv: "autostart_step mh s s' \<Longrightarrow> state_inv s \<Longrightarrow> state_inv s'"
  by (induction rule: autostart_step.induct; (erule caller_step.cases helper_step.cases)?)
    (auto simp: state_inv_def state_of_def split: if_splits)

section \<open>No watcher is left without a helper\<close>

fun on_duty :: "helper_phase option \<Rightarrow> bool" where
  "on_duty (Some Booting) = True"
| "on_duty (Some Ticking) = True"
| "on_duty (Some Looping) = True"
| "on_duty (Some AwaitsLock) = True"
| "on_duty (Some Confirming) = True"
| "on_duty _ = False"

fun claim_dropped :: "helper_phase option \<Rightarrow> bool" where
  "claim_dropped (Some Releasing) = True"
| "claim_dropped (Some Published) = True"
| "claim_dropped (Some Exiting) = True"
| "claim_dropped _ = False"

lemma duty_cases:
  "claim_dropped hp \<Longrightarrow> \<not> on_duty hp"
  "hp \<noteq> None \<Longrightarrow> \<not> helper_locked hp \<Longrightarrow> hp \<notin> {Some ShuttingDown, Some Exiting} \<Longrightarrow> on_duty hp"
  by (cases hp rule: on_duty.cases; simp)+

text \<open>Nobody is signalled, dies or ends early, spawning works and a helper can remove its claim. A
  claim may fail to be written or outlive its use, and helpers may be started by hand.\<close>

definition orderly :: "mishaps \<Rightarrow> bool" where
  "orderly mh \<longleftrightarrow> \<not> mh_signal mh \<and> \<not> mh_crash mh \<and> \<not> mh_claim_release mh \<and> \<not> mh_spawn mh \<and> \<not> mh_caller mh"

definition spawned_inv :: "autostart \<Rightarrow> bool" where
  "spawned_inv s \<longleftrightarrow> (\<forall>p. as_helpers s p \<noteq> Some ShuttingDown) \<and>
     (\<forall>c p. as_callers s c = Some (HasSpawned p) \<longrightarrow> on_duty (as_helpers s p))"

definition claim_inv :: "autostart \<Rightarrow> bool" where
  "claim_inv s \<longleftrightarrow> (\<forall>cl. read_autostart_claim (as_claim s) = Some cl \<longrightarrow> \<not> claim_dropped (as_helpers s (ac_daemon_pid cl)))"

definition watched :: "autostart \<Rightarrow> bool" where
  "watched s \<longleftrightarrow> (automation_daemon_enabled (as_config s) \<longrightarrow>
     (\<exists>c. as_callers s c \<noteq> None) \<or> (\<exists>p. on_duty (as_helpers s p)))"

lemma helper_unlocked: "lock_inv s \<Longrightarrow> as_callers s c = Some ph \<Longrightarrow> caller_locked (Some ph) \<Longrightarrow> \<not> helper_locked (as_helpers s p)"
  unfolding lock_inv_def by (metis holder.distinct(1) option.inject)

lemma one_holder: "lock_inv s \<Longrightarrow> caller_locked (as_callers s c) \<Longrightarrow> caller_locked (as_callers s c') \<Longrightarrow> c = c'"
  unfolding lock_inv_def by (metis holder.inject(1) option.inject)

lemma spawned_invI:
  "(\<And>p. as_helpers s p \<noteq> Some ShuttingDown) \<Longrightarrow>
   (\<And>c p. as_callers s c = Some (HasSpawned p) \<Longrightarrow> on_duty (as_helpers s p)) \<Longrightarrow> spawned_inv s"
  by (simp add: spawned_inv_def)

lemma spawned_invD:
  "spawned_inv s \<Longrightarrow> as_helpers s p \<noteq> Some ShuttingDown"
  "spawned_inv s \<Longrightarrow> as_callers s c = Some (HasSpawned p) \<Longrightarrow> on_duty (as_helpers s p)"
  "spawned_inv s \<Longrightarrow> as_callers s c = Some (HasSpawned p) \<Longrightarrow> as_helpers s p = Some hp \<Longrightarrow> on_duty (Some hp)"
  by (auto simp: spawned_inv_def) metis

lemma caller_spawned_inv: "caller_step mh s s' \<Longrightarrow> spawned_inv s \<Longrightarrow> spawned_inv s'"
  by (induction rule: caller_step.induct) (auto simp: spawned_inv_def)

lemma helper_spawned_inv:
  assumes "helper_step mh s s'" "orderly mh" "lock_inv s" "spawned_inv s"
  shows "spawned_inv s'"
proof -
  have free: "\<not> helper_locked (Some hp)" if "as_callers s c = Some (HasSpawned q)" "as_helpers s p = Some hp" for c p q hp
    using helper_unlocked [OF assms(3) that(1), of p] that(2) by simp
  note D = spawned_invD [OF assms(4)]
  from assms(1) show ?thesis
    by (cases; intro spawned_invI) (use assms(2) D(1) in \<open>auto simp: orderly_def D(2) split: if_splits dest: free D(3)\<close>)
qed

lemma caller_claim_inv: "caller_step mh s s' \<Longrightarrow> spawned_inv s \<Longrightarrow> claim_inv s \<Longrightarrow> claim_inv s'"
  by (induction rule: caller_step.induct)
    (auto simp: claim_inv_def spawned_inv_def claim_read_back dest: duty_cases(1))

lemma helper_claim_inv: "helper_step mh s s' \<Longrightarrow> orderly mh \<Longrightarrow> spawned_inv s \<Longrightarrow> claim_inv s \<Longrightarrow> claim_inv s'"
  by (induction rule: helper_step.induct)
    (auto simp: claim_inv_def orderly_def spawned_inv_def dest!: released_claim)

lemma seen_on_duty:
  assumes "lock_inv s" "spawned_inv s" "as_callers s c = Some ph"
  shows "state_inv s \<Longrightarrow> ph = HasLock \<Longrightarrow> background_helper_already_running (alive s) (as_state s) \<Longrightarrow>
      \<exists>p. on_duty (as_helpers s p)"
    and "claim_inv s \<Longrightarrow> ph = SawNoHelper \<Longrightarrow> in_flight s \<Longrightarrow> \<exists>p. on_duty (as_helpers s p)"
proof -
  have duty: "on_duty (as_helpers s p)" if "as_helpers s p \<noteq> None" "as_helpers s p \<noteq> Some Exiting" "caller_locked (Some ph)" for p
    using that duty_cases(2) helper_unlocked [OF assms(1,3)] assms(2) by (auto simp: spawned_inv_def)
  show "\<exists>p. on_duty (as_helpers s p)"
    if seen: "state_inv s" "ph = HasLock" "background_helper_already_running (alive s) (as_state s)"
  proof -
    obtain st where "as_state s = Some st" "rs_running st" "as_helpers s (rs_daemon_pid st) \<noteq> None"
      using seen(3) by (auto simp: background_helper_already_running_def alive_def split: option.splits)
    with seen(1,2) duty [of "rs_daemon_pid st"] show ?thesis unfolding state_inv_def by auto
  qed
  show "\<exists>p. on_duty (as_helpers s p)" if seen: "claim_inv s" "ph = SawNoHelper" "in_flight s"
  proof -
    obtain cl where "read_autostart_claim (as_claim s) = Some cl" "as_helpers s (ac_daemon_pid cl) \<noteq> None"
      using seen(3) by (auto simp: in_flight_def autostart_spawn_in_flight_def alive_def split: option.splits)
    with seen(1,2) duty [of "ac_daemon_pid cl"] show ?thesis unfolding claim_inv_def by fastforce
  qed
qed

lemma disable_only_disables:
  assumes "disable_watcher wid cfg = Some cfg'" "automation_daemon_enabled cfg'"
  shows "automation_daemon_enabled cfg"
proof -
  have kept: "list_ex (\<lambda>(wid, c). wc_enabled c) (update_first P (\<lambda>e. (fst e, (snd e)\<lparr>wc_enabled := False\<rparr>)) cfg) \<Longrightarrow>
      list_ex (\<lambda>(wid, c). wc_enabled c) cfg" for P :: "string \<times> watcher_user_config \<Rightarrow> bool"
    by (induction cfg) (auto split: if_splits)
  show ?thesis
    using assms kept by (auto simp: disable_watcher_def watcher_config_mut_def automation_daemon_enabled_def
        split: option.splits if_splits)
qed

lemma watchedI:
  "(automation_daemon_enabled (as_config s) \<Longrightarrow> as_callers s = (\<lambda>c. None) \<Longrightarrow> \<exists>p. on_duty (as_helpers s p)) \<Longrightarrow> watched s"
  unfolding watched_def by (metis ext)

lemma caller_watched:
  assumes "caller_step mh s s'" "orderly mh" "lock_inv s" "state_inv s" "spawned_inv s" "claim_inv s" "watched s"
  shows "watched s'"
  using assms(1)
proof cases
  case (disable wid cfg)
  then show ?thesis using assms(7) disable_only_disables by (auto simp: watched_def)
next
  case (write_claim c p)
  then show ?thesis using spawned_invD(2) [OF assms(5)] by (auto simp: watched_def)
next
  case (claim_fails c p f)
  then show ?thesis using spawned_invD(2) [OF assms(5)] by (auto simp: watched_def)
qed (use assms(2,4,6) seen_on_duty [OF assms(3,5)] in \<open>auto simp: watched_def orderly_def\<close>)

lemma helper_watched:
  assumes "helper_step mh s s'" "orderly mh" "watched s"
  shows "watched s'"
proof -
  have mono: "watched t" if "as_config t = as_config s" "as_callers t = as_callers s"
      "\<And>p. automation_daemon_enabled (as_config s) \<Longrightarrow> on_duty (as_helpers s p) \<Longrightarrow> on_duty (as_helpers t p)" for t
    using assms(3) that unfolding watched_def by metis
  from assms(1) show ?thesis
    by (cases; intro mono) (use assms(2) in \<open>auto simp: orderly_def split: if_splits\<close>)
qed

definition helped :: "autostart \<Rightarrow> bool" where
  "helped s \<longleftrightarrow> lock_inv s \<and> state_inv s \<and> spawned_inv s \<and> claim_inv s \<and> watched s"

lemma step_helped: "autostart_step mh s s' \<Longrightarrow> orderly mh \<Longrightarrow> helped s \<Longrightarrow> helped s'"
proof (induction rule: autostart_step.induct)
  case (caller s s')
  then show ?case unfolding helped_def
    by (blast intro: caller_lock_inv step_state_inv autostart_step.caller caller_spawned_inv caller_claim_inv caller_watched)
next
  case (helper s s')
  then show ?case unfolding helped_def
    by (blast intro: helper_lock_inv step_state_inv autostart_step.helper helper_spawned_inv helper_claim_inv helper_watched)
next
  case (clock s now)
  then show ?case by (auto simp: helped_def lock_inv_def state_inv_def spawned_inv_def claim_inv_def watched_def)
qed

lemma reachable_helped: "autostart_reachable mh s \<Longrightarrow> orderly mh \<Longrightarrow> helped s"
proof (induction rule: autostart_reachable.induct)
  case (start s)
  then show ?case by (simp add: helped_def lock_inv_def state_inv_def spawned_inv_def claim_inv_def watched_def)
next
  case (step s s')
  then show ?case using step_helped by blast
qed

section \<open>No second helper\<close>

text \<open>Claims are written and last long enough, callers run to their end, and nobody starts a helper by
  hand. Helpers may be signalled and die, a spawn or the removal of a claim may fail.\<close>

definition punctual :: "mishaps \<Rightarrow> bool" where
  "punctual mh \<longleftrightarrow> \<not> mh_slow mh \<and> \<not> mh_claim_write mh \<and> \<not> mh_caller mh \<and> \<not> mh_by_hand mh"

fun active :: "helper_phase option \<Rightarrow> bool" where
  "active None = False"
| "active (Some Published) = False"
| "active (Some Exiting) = False"
| "active (Some _) = True"

definition claimed :: "autostart \<Rightarrow> u32 \<Rightarrow> bool" where
  "claimed s p \<longleftrightarrow> (\<exists>cl. read_autostart_claim (as_claim s) = Some cl \<and> ac_daemon_pid cl = p \<and>
     saturating_sub (as_now s) (ac_spawned_at_ms cl) < AUTOSTART_CLAIM_TTL_MS)"

definition runs :: "autostart \<Rightarrow> u32 \<Rightarrow> bool" where
  "runs s p \<longleftrightarrow> (\<exists>st. as_state s = Some st \<and> state_of True p st)"

lemma in_flight_iff: "in_flight s \<longleftrightarrow> (\<exists>p. claimed s p \<and> alive s p)"
  by (auto simp: in_flight_def autostart_spawn_in_flight_def claimed_def split: option.split)

lemma running_iff: "background_helper_already_running (alive s) (as_state s) \<longleftrightarrow> (\<exists>p. runs s p \<and> alive s p)"
  by (auto simp: background_helper_already_running_def runs_def state_of_def split: option.split)

lemma single_frame [simp]:
  "claimed (caller_at c ph s) = claimed s" "claimed (caller_gone c s) = claimed s"
  "claimed (helper_at p hp s) = claimed s" "claimed (helper_gone p s) = claimed s"
  "claimed (s\<lparr>as_config := cfg\<rparr>) = claimed s" "claimed (s\<lparr>as_state := stf\<rparr>) = claimed s" "claimed (s\<lparr>as_lock := l\<rparr>) = claimed s"
  "runs (caller_at c ph s) = runs s" "runs (caller_gone c s) = runs s"
  "runs (helper_at p hp s) = runs s" "runs (helper_gone p s) = runs s"
  "runs (s\<lparr>as_config := cfg\<rparr>) = runs s" "runs (s\<lparr>as_claim := cl\<rparr>) = runs s" "runs (s\<lparr>as_lock := l\<rparr>) = runs s"
  "runs (s\<lparr>as_now := t\<rparr>) = runs s"
  "runs (s\<lparr>as_state := Some st\<rparr>) q = state_of True q st"
  by (auto simp: fun_eq_iff claimed_def runs_def)

text \<open>Where the one helper can be seen by a caller with the lock: in the state file once it has
  published itself, in the claim before.\<close>

definition single_inv :: "autostart \<Rightarrow> bool" where
  "single_inv s \<longleftrightarrow> as_helpers s 0 = None \<and>
     (\<forall>p q. active (as_helpers s p) \<longrightarrow> active (as_helpers s q) \<longrightarrow> p = q) \<and>
     (\<forall>p. as_helpers s p = Some Booting \<longrightarrow> claimed s p \<or> (\<exists>c. as_callers s c = Some (HasSpawned p))) \<and>
     (\<forall>p. active (as_helpers s p) \<longrightarrow> as_helpers s p = Some Booting \<or> runs s p) \<and>
     (\<forall>c p. as_callers s c = Some SawNoHelper \<longrightarrow> active (as_helpers s p) \<longrightarrow> claimed s p) \<and>
     (\<forall>c p. as_callers s c = Some SawNoClaim \<longrightarrow> \<not> active (as_helpers s p)) \<and>
     (\<forall>c p q. as_callers s c = Some (HasSpawned p) \<longrightarrow> active (as_helpers s q) \<longrightarrow> q = p)"

lemma single_invD:
  assumes "single_inv s"
  shows "as_helpers s 0 = None"
    and "active (as_helpers s p) \<Longrightarrow> active (as_helpers s q) \<Longrightarrow> p = q"
    and "as_helpers s p = Some Booting \<Longrightarrow> claimed s p \<or> (\<exists>c. as_callers s c = Some (HasSpawned p))"
    and "active (as_helpers s p) \<Longrightarrow> as_helpers s p = Some Booting \<or> runs s p"
    and "as_callers s c = Some SawNoHelper \<Longrightarrow> active (as_helpers s p) \<Longrightarrow> claimed s p"
    and "as_callers s c = Some SawNoClaim \<Longrightarrow> \<not> active (as_helpers s p)"
    and "as_callers s c = Some (HasSpawned p) \<Longrightarrow> active (as_helpers s q) \<Longrightarrow> q = p"
  using assms unfolding single_inv_def by blast+

lemma single_invI:
  assumes "as_helpers s 0 = None"
    and "\<And>p q. active (as_helpers s p) \<Longrightarrow> active (as_helpers s q) \<Longrightarrow> p = q"
    and "\<And>p. as_helpers s p = Some Booting \<Longrightarrow> claimed s p \<or> (\<exists>c. as_callers s c = Some (HasSpawned p))"
    and "\<And>p. active (as_helpers s p) \<Longrightarrow> as_helpers s p = Some Booting \<or> runs s p"
    and "\<And>c p. as_callers s c = Some SawNoHelper \<Longrightarrow> active (as_helpers s p) \<Longrightarrow> claimed s p"
    and "\<And>c p. as_callers s c = Some SawNoClaim \<Longrightarrow> \<not> active (as_helpers s p)"
    and "\<And>c p q. as_callers s c = Some (HasSpawned p) \<Longrightarrow> active (as_helpers s q) \<Longrightarrow> q = p"
  shows "single_inv s"
  using assms unfolding single_inv_def by blast

lemma single_quiet:
  assumes "single_inv s" "as_helpers t = as_helpers s" "claimed t = claimed s" "runs t = runs s"
    and "as_callers t = (as_callers s)(c := ph)" "ph \<in> {None, Some AboutToCheck, Some WaitsForLock, Some HasLock}"
    and "\<And>p. as_callers s c \<noteq> Some (HasSpawned p)"
  shows "single_inv t"
proof -
  note D = single_invD [OF assms(1)]
  have kept: "as_callers t c' = Some x \<Longrightarrow> x \<in> {SawNoHelper, SawNoClaim} \<or> (\<exists>p. x = HasSpawned p) \<Longrightarrow> as_callers s c' = Some x" for c' x
    using assms(5,6) by (auto split: if_splits)
  have spawned: "as_callers s c' = Some (HasSpawned p) \<Longrightarrow> as_callers t c' = Some (HasSpawned p)" for c' p
    using assms(5,7) by auto
  show ?thesis
    by (rule single_invI; unfold assms(2-4)) (use D(1,4) in simp, metis D(2), metis D(3) spawned, metis D(4),
        metis D(5) kept insertI1, metis D(6) kept insertI1 insertI2, metis D(7) kept)
qed

lemma single_config: "single_inv s \<Longrightarrow> single_inv (s\<lparr>as_config := cfg\<rparr>)"
  by (simp add: single_inv_def)

lemma caller_single:
  assumes "caller_step mh s s'" "punctual mh" "lock_inv s" "single_inv s"
  shows "single_inv s'"
proof -
  note D = single_invD [OF assms(4)]
  have only: "c' = c" if "caller_locked (as_callers s c)" "caller_locked (as_callers s c')" for c c'
    using one_holder [OF assms(3)] that by blast
  have alive: "alive s p" if "active (as_helpers s p)" for p
    using that D(1) by (cases "as_helpers s p") (auto simp: alive_def)
  from assms(1) show ?thesis
  proof cases
    case (saw_no_helper c)
    have "claimed s p" if "active (as_helpers s p)" for p
    proof -
      have "\<not> runs s p" using saw_no_helper alive [OF that] running_iff by blast
      then have "as_helpers s p = Some Booting" using D(4) [OF that] by blast
      moreover have "as_callers s c' \<noteq> Some (HasSpawned p)" for c'
        using only [of c c'] saw_no_helper by auto
      ultimately show ?thesis using D(3) by blast
    qed
    then show ?thesis using saw_no_helper D by (intro single_invI) (auto split: if_splits)
  next
    case (saw_no_claim c)
    have "\<not> active (as_helpers s p)" for p
      using D(5) alive saw_no_claim in_flight_iff by blast
    moreover from this have "as_helpers s p \<noteq> Some Booting" for p by (metis active.simps(4))
    ultimately show ?thesis using saw_no_claim D by (intro single_invI) (auto split: if_splits)
  next
    case (spawn c p)
    have "\<not> active (as_helpers s q)" for q using D(6) spawn(2) by blast
    moreover from this have "as_helpers s q \<noteq> Some Booting" for q by (metis active.simps(4))
    moreover have "as_callers s c' \<notin> {Some SawNoHelper, Some SawNoClaim, Some (HasSpawned q)}" if "c' \<noteq> c" for c' q
      using only [of c c'] spawn(2) that by auto
    ultimately show ?thesis using spawn D(1) by (intro single_invI) (auto split: if_splits)
  next
    case (write_claim c p)
    have new: "claimed s' p"
      using write_claim claim_read_back(1) by (simp add: claimed_def saturating_sub_def AUTOSTART_CLAIM_TTL_MS_def)
    have "as_callers s c' \<notin> {Some SawNoHelper, Some SawNoClaim, Some (HasSpawned q)}" if "c' \<noteq> c" for c' q
      using only [of c c'] write_claim(2) that by auto
    moreover have "q = p" if "active (as_helpers s q)" for q
      using D(7) write_claim(2) that by blast
    moreover from this new have "claimed s' q" if "as_helpers s q = Some Booting" for q
      using that by (metis active.simps(4))
    ultimately show ?thesis using write_claim D(1,2,4)
      by (intro single_invI) (auto split: if_splits)
  qed (use assms(2) in \<open>auto simp: punctual_def intro: single_quiet [OF assms(4)] single_config [OF assms(4)]\<close>)
qed

lemma single_move:
  assumes "single_inv s" "as_helpers s p \<noteq> None"
    and t: "as_callers t = as_callers s" "as_helpers t = (as_helpers s)(p := hp)" "hp \<noteq> Some Booting"
      "active hp \<Longrightarrow> active (as_helpers s p) \<and> runs t p" "active (as_helpers s p) \<or> runs t = runs s"
    and claim: "claimed t = claimed s \<or> (as_helpers s p = Some Leaving \<and> (\<forall>c. as_callers s c \<noteq> Some SawNoHelper))"
  shows "single_inv t"
proof -
  note D = single_invD [OF assms(1)]
  have other: "runs t q \<longleftrightarrow> runs s q" if "active (as_helpers s q)" "q \<noteq> p" for q
    using t(5) D(2) [OF that(1), of p] that(2) by auto
  have claims: "claimed t q \<longleftrightarrow> claimed s q"
    if "as_helpers s q = Some Booting \<or> as_callers s c = Some SawNoHelper" "active (as_helpers s q)" for q c
    using claim that D(2) [of p q] by auto
  show ?thesis
  proof (rule single_invI)
    show "as_helpers t 0 = None" using assms(2) t(2) D(1) by auto
    show "p' = q" if "active (as_helpers t p')" "active (as_helpers t q)" for p' q
      using that t(2,4) D(2) by (auto split: if_splits)
    show "claimed t q \<or> (\<exists>c. as_callers t c = Some (HasSpawned q))" if "as_helpers t q = Some Booting" for q
      using that t(1-3) D(3) claims [of q] by (auto split: if_splits)
    show "as_helpers t q = Some Booting \<or> runs t q" if "active (as_helpers t q)" for q
      using that t(2,4) D(4) other by (auto split: if_splits)
    show "claimed t q" if "as_callers t c = Some SawNoHelper" "active (as_helpers t q)" for c q
      using that t(1,2,4) D(5) claims [of q c] by (auto split: if_splits)
    show "\<not> active (as_helpers t q)" if "as_callers t c = Some SawNoClaim" for c q
      using that t(1,2,4) D(6) by (auto split: if_splits)
    show "q = p'" if "as_callers t c = Some (HasSpawned p')" "active (as_helpers t q)" for c p' q
      using that t(1,2,4) D(7) by (auto split: if_splits)
  qed
qed

lemma helper_single:
  assumes "helper_step mh s s'" "punctual mh" "lock_inv s" "single_inv s"
  shows "single_inv s'"
proof -
  note D = single_invD [OF assms(4)] and move = single_move [OF assms(4)]
  have runs: "runs s p" if "active (as_helpers s p)" "as_helpers s p \<noteq> Some Booting" for p
    using that D(4) by blast
  from assms(1) show ?thesis
  proof cases
    case (releases p)
    have "as_callers s c \<noteq> Some SawNoHelper" for c
      using helper_unlocked [OF assms(3), of c SawNoHelper p] releases by auto
    then show ?thesis using releases runs [of p] by (intro move [of p]) auto
  next
    case (webhook p ph st)
    then show ?thesis using runs [of p] by (intro move [of p]) auto
  qed (use assms(2) runs in \<open>auto simp: punctual_def intro!: move\<close>)
qed

lemma step_single:
  assumes "autostart_step mh s s'" "punctual mh" "lock_inv s" "single_inv s"
  shows "single_inv s'"
  using assms(1)
proof cases
  case (clock now)
  note D = single_invD [OF assms(4)]
  have claims: "claimed (s\<lparr>as_now := now\<rparr>) p"
    if "as_helpers s p = Some Booting \<or> as_callers s c = Some SawNoHelper" "as_helpers s p \<noteq> None"
      and was: "claimed s p" for p c
  proof -
    obtain cl where cl: "read_autostart_claim (as_claim s) = Some cl" "ac_daemon_pid cl = p"
      using was by (auto simp: claimed_def)
    have "alive s p" using that(2) D(1) by (auto simp: alive_def)
    then have "in_flight s" using was in_flight_iff by blast
    moreover have "claim_needed s" using that(1) cl by (auto simp: claim_needed_def)
    ultimately have "in_flight (s\<lparr>as_now := now\<rparr>)" using clock(2) assms(2) by (auto simp: punctual_def)
    then show ?thesis using cl by (auto simp: in_flight_iff claimed_def)
  qed
  have some: "as_helpers s p \<noteq> None" if "active (as_helpers s p)" for p
    using that by (cases "as_helpers s p") auto
  show ?thesis
    unfolding clock(1) using D claims some by (intro single_invI) (simp_all, metis+)
qed (use assms caller_single helper_single in blast)+

lemma reachable_single:
  assumes "autostart_reachable mh s" "punctual mh"
  shows "lock_inv s \<and> single_inv s"
  using assms(1)
proof (induction rule: autostart_reachable.induct)
  case (start s)
  then show ?case by (simp add: lock_inv_def single_inv_def)
next
  case (step s s')
  then show ?case using step_single assms(2) step_lock_inv by blast
qed

section \<open>What the protocol guarantees\<close>



text \<open>The way out of a helper, from the last phase backwards.\<close>

definition left :: "mishaps \<Rightarrow> u32 \<Rightarrow> (u32 \<Rightarrow> helper_phase option) \<Rightarrow> autostart \<Rightarrow> bool" where
  "left mh p hs s \<longleftrightarrow> (\<exists>s'. (helper_step mh)\<^sup>*\<^sup>* s s' \<and> as_helpers s' = hs(p := None) \<and> as_lock s' = None \<and>
     \<not> own_claim p (as_claim s') \<and> (\<exists>st. as_state s' = Some st \<and> state_of False p st))"

lemma left_step: "helper_step mh s t \<Longrightarrow> left mh p (as_helpers t) t \<Longrightarrow> as_helpers t = (as_helpers s)(p := ph) \<Longrightarrow> left mh p (as_helpers s) s"
  unfolding left_def by (auto intro: converse_rtranclp_into_rtranclp)

lemma some_state: "\<exists>st. state_of b p st"
  by (rule exI [of _ "\<lparr>rs_running = b, rs_daemon_pid = p, rs_last_tick_unix_ms = 0, rs_local_webhook_endpoint = None,
      rs_active_watchers = []\<rparr>"]) (simp add: state_of_def)

lemma not_own_released: "\<not> own_claim p (release_own_autostart_claim p file)"
  by (simp add: release_own_autostart_claim_def own_claim_def)

lemma leaving_helper_left:
  assumes "as_helpers s p = Some Leaving" "as_lock s = Some (HeldByHelper p)"
  shows "left mh p (as_helpers s) s"
proof -
  obtain st where st: "state_of False p st" using some_state by blast
  let ?s1 = "helper_at p Releasing (s\<lparr>as_claim := release_own_autostart_claim p (as_claim s)\<rparr>)"
  let ?s2 = "helper_at p Published (?s1\<lparr>as_state := Some st\<rparr>)"
  let ?s3 = "helper_at p Exiting (?s2\<lparr>as_lock := None\<rparr>)"
  have "helper_step mh ?s3 (helper_gone p ?s3)" by (rule helper_step.exits) simp
  moreover have "as_lock (helper_gone p ?s3) = None" by (simp add: helper_gone_def)
  ultimately have end_state: "left mh p (as_helpers ?s3) ?s3"
    unfolding left_def using st not_own_released [of p "as_claim s"]
    by (intro exI [of _ "helper_gone p ?s3"]) auto
  have "helper_step mh ?s2 ?s3" by (rule helper_step.unlocks) simp
  from left_step [OF this end_state] have "left mh p (as_helpers ?s2) ?s2" by simp
  moreover have "helper_step mh ?s1 ?s2" by (rule helper_step.publishes_stop) (simp_all add: st)
  ultimately have "left mh p (as_helpers ?s1) ?s1" using left_step [of mh ?s1 ?s2 p "Some Published"] by simp
  moreover have "helper_step mh s ?s1" by (rule helper_step.releases) (rule assms(1))
  ultimately show ?thesis using left_step [of mh s ?s1 p "Some Releasing"] by simp
qed

lemma awaiting_helper_left:
  assumes "as_helpers s p = Some AwaitsLock" "as_lock s = None" "\<not> automation_daemon_enabled (as_config s)"
  shows "left mh p (as_helpers s) s"
proof -
  let ?s1 = "helper_at p Confirming (s\<lparr>as_lock := Some (HeldByHelper p)\<rparr>)"
  have "left mh p (as_helpers (helper_at p Leaving ?s1)) (helper_at p Leaving ?s1)"
    by (rule leaving_helper_left) simp_all
  moreover have "helper_step mh ?s1 (helper_at p Leaving ?s1)" by (rule helper_step.leaves) (simp_all add: assms(3))
  ultimately have "left mh p (as_helpers ?s1) ?s1" using left_step [of mh ?s1 _ p "Some Leaving"] by simp
  moreover have "helper_step mh s ?s1" by (rule helper_step.gets_lock) (rule assms(1,2))+
  ultimately show ?thesis using left_step [of mh s ?s1 p "Some Confirming"] by simp
qed

lemma ticking_helper_left:
  assumes "as_helpers s p = Some Ticking" "as_lock s = None" "\<not> automation_daemon_enabled (as_config s)"
  shows "left mh p (as_helpers s) s"
proof -
  obtain st where st: "state_of True p st" using some_state by blast
  let ?s1 = "helper_at p Looping (s\<lparr>as_state := Some st\<rparr>)"
  have "left mh p (as_helpers (helper_at p AwaitsLock ?s1)) (helper_at p AwaitsLock ?s1)"
    by (rule awaiting_helper_left) (simp_all add: assms)
  moreover have "helper_step mh ?s1 (helper_at p AwaitsLock ?s1)"
    by (rule helper_step.tick_saw_none [of _ _ Looping]) (simp_all add: assms(3))
  ultimately have "left mh p (as_helpers ?s1) ?s1" using left_step [of mh ?s1 _ p "Some AwaitsLock"] by simp
  moreover have "helper_step mh s ?s1" by (rule helper_step.write_tick) (rule assms(1), rule st)
  ultimately show ?thesis using left_step [of mh s ?s1 p "Some Looping"] by simp
qed

lemma helper_left:
  assumes "as_helpers s p = Some ph" "on_duty (Some ph)" "\<not> automation_daemon_enabled (as_config s)"
    and "as_lock s = (if ph = Confirming then Some (HeldByHelper p) else None)"
  shows "left mh p (as_helpers s) s"
proof (cases ph)
  case Booting
  obtain st where st: "state_of True p st" using some_state by blast
  let ?s1 = "helper_at p Ticking (s\<lparr>as_state := Some st\<rparr>)"
  have "left mh p (as_helpers ?s1) ?s1" by (rule ticking_helper_left) (simp_all add: assms(3,4) Booting)
  moreover have "helper_step mh s ?s1" using assms(1) Booting st by (simp add: helper_step.publish)
  ultimately show ?thesis using left_step [of mh s ?s1 p "Some Ticking"] by simp
next
  case Looping
  let ?s1 = "helper_at p AwaitsLock s"
  have "left mh p (as_helpers ?s1) ?s1" by (rule awaiting_helper_left) (simp_all add: assms(3,4) Looping)
  moreover have "helper_step mh s ?s1" using assms(1,3) Looping by (simp add: helper_step.tick_saw_none)
  ultimately show ?thesis using left_step [of mh s ?s1 p "Some AwaitsLock"] by simp
next
  case Confirming
  let ?s1 = "helper_at p Leaving s"
  have "left mh p (as_helpers ?s1) ?s1" by (rule leaving_helper_left) (simp_all add: assms(4) Confirming)
  moreover have "helper_step mh s ?s1" using assms(1,3) Confirming by (simp add: helper_step.leaves)
  ultimately show ?thesis using left_step [of mh s ?s1 p "Some Leaving"] by simp
qed (use assms in \<open>auto intro: ticking_helper_left awaiting_helper_left\<close>)

text \<open>C36. A helper without work can always leave: when no watcher is enabled and nobody else has the
  lock, its own steps lead it to its end, with the lock free, its claim removed and its stop published.\<close>

theorem idle_helper_leaves:
  assumes "on_duty (as_helpers s p)" "\<not> automation_daemon_enabled (as_config s)"
    and "as_lock s = (if as_helpers s p = Some Confirming then Some (HeldByHelper p) else None)"
  shows "\<exists>s'. (helper_step mh)\<^sup>*\<^sup>* s s' \<and> as_helpers s' = (as_helpers s)(p := None) \<and> as_lock s' = None \<and>
    \<not> own_claim p (as_claim s') \<and> (\<exists>st. as_state s' = Some st \<and> state_of False p st)"
proof -
  obtain ph where ph: "as_helpers s p = Some ph" using assms(1) by (cases "as_helpers s p") auto
  have "left mh p (as_helpers s) s" using assms by (intro helper_left [OF ph]) (auto simp: ph)
  then show ?thesis unfolding left_def .
qed

section \<open>Instances\<close>

lemma reached:
  "autostart_reachable mh s \<Longrightarrow> caller_step mh s t \<Longrightarrow> autostart_reachable mh t"
  "autostart_reachable mh s \<Longrightarrow> helper_step mh s t \<Longrightarrow> autostart_reachable mh t"
  by (auto intro: autostart_reachable.step autostart_step.intros)

definition ex_config :: config where
  "ex_config = [(''server-recover'', \<lparr>wc_enabled = True, wc_mode = None\<rparr>)]"

definition ex_auto :: "config \<Rightarrow> string option \<Rightarrow> autostart" where
  "ex_auto cfg file = \<lparr>as_config = cfg, as_state = None, as_claim = file, as_lock = None, as_callers = (\<lambda>c. None),
     as_helpers = (\<lambda>p. None), as_now = 1000\<rparr>"

definition ex_claim :: string where
  "ex_claim = write_autostart_claim \<lparr>ac_daemon_pid = 7, ac_spawned_at_ms = 1000\<rparr>"

text \<open>Enabling the recovery watcher, up to the end of the command: the helper 7 boots.\<close>

lemma ex_enabled: "enable_watcher ''server-recover'' None [] = Some ex_config"
  by (simp add: enable_watcher_def builtin_watcher_def builtin_watchers_def watcher_config_mut_def ex_config_def)

lemma ex_disabled: "disable_watcher ''server-recover'' ex_config = Some [(''server-recover'', \<lparr>wc_enabled = False, wc_mode = None\<rparr>)]"
  by (simp add: disable_watcher_def builtin_watcher_def builtin_watchers_def watcher_config_mut_def ex_config_def)

lemma ex_config_on: "automation_daemon_enabled ex_config"
  by (simp add: automation_daemon_enabled_def ex_config_def)

lemma ex_boots: "autostart_reachable mh (helper_at 7 Booting (ex_auto ex_config (Some ex_claim)))"
proof -
  have "autostart_reachable mh (ex_auto [] None)"
    by (rule autostart_reachable.start) (simp_all add: ex_auto_def automation_daemon_enabled_def)
  from reached(1) [OF this caller_step.enable [of "''server-recover''" None _ ex_config 0]]
  have "autostart_reachable mh (caller_at 0 AboutToCheck (ex_auto ex_config None))"
    by (simp add: ex_auto_def ex_enabled caller_at_def)
  from reached(1) [OF this caller_step.saw_watcher [of _ 0]]
  have "autostart_reachable mh (caller_at 0 WaitsForLock (ex_auto ex_config None))"
    by (simp add: ex_auto_def ex_config_on caller_at_def)
  from reached(1) [OF this caller_step.take_lock [of _ 0]]
  have "autostart_reachable mh (caller_at 0 HasLock (ex_auto ex_config None\<lparr>as_lock := Some (HeldByCaller 0)\<rparr>))"
    by (simp add: ex_auto_def caller_at_def)
  from reached(1) [OF this caller_step.saw_no_helper [of _ 0]]
  have "autostart_reachable mh (caller_at 0 SawNoHelper (ex_auto ex_config None\<lparr>as_lock := Some (HeldByCaller 0)\<rparr>))"
    by (simp add: ex_auto_def caller_at_def background_helper_already_running_def)
  from reached(1) [OF this caller_step.saw_no_claim [of _ 0]]
  have "autostart_reachable mh (caller_at 0 SawNoClaim (ex_auto ex_config None\<lparr>as_lock := Some (HeldByCaller 0)\<rparr>))"
    by (simp add: ex_auto_def caller_at_def in_flight_def autostart_spawn_in_flight_def read_autostart_claim_def)
  from reached(1) [OF this caller_step.spawn [of _ 0 7]]
  have "autostart_reachable mh (caller_at 0 (HasSpawned 7) (helper_at 7 Booting (ex_auto ex_config None\<lparr>as_lock := Some (HeldByCaller 0)\<rparr>)))"
    by (simp add: ex_auto_def caller_at_def helper_at_def)
  from reached(1) [OF this caller_step.write_claim [of _ 0 7]]
  show ?thesis by (simp add: ex_auto_def caller_at_def helper_at_def caller_gone_def ex_claim_def fun_upd_idem)
qed

definition no_mishap :: mishaps where
  "no_mishap = \<lparr>mh_signal = False, mh_crash = False, mh_claim_write = False, mh_claim_release = False, mh_slow = False,
     mh_spawn = False, mh_caller = False, mh_by_hand = False\<rparr>"



text \<open>A witness: the helper that boots leaves when its watcher is disabled.\<close>

theorem idle_helper_leaves_witness:
  "\<exists>s'. (helper_step no_mishap)\<^sup>*\<^sup>* (helper_at 7 Booting (ex_auto [] (Some ex_claim))) s' \<and> as_helpers s' = (\<lambda>p. None) \<and>
     \<not> own_claim 7 (as_claim s')"
  using idle_helper_leaves [of "helper_at 7 Booting (ex_auto [] (Some ex_claim))" 7 no_mishap]
  by (auto simp: ex_auto_def automation_daemon_enabled_def fun_upd_idem)

text \<open>A helper that is told to shut down keeps its claim. A command that starts while the helper's
  process ends finds the helper stopped and its claim in flight, starts nothing, and nobody starts
  one later: the watcher stays without a helper.\<close>

theorem shutdown_leaves_a_claim:
  assumes "mh_signal mh"
  shows "\<exists>s. autostart_reachable mh s \<and> automation_daemon_enabled (as_config s) \<and> as_callers s = (\<lambda>c. None) \<and>
    as_helpers s = (\<lambda>p. None)"
proof -
  obtain st st' where st: "state_of True 7 st" "state_of False 7 st'" using some_state by blast
  let ?s = "ex_auto ex_config (Some ex_claim)"
  let ?t = "?s\<lparr>as_state := Some st'\<rparr>"
  from reached(2) [OF ex_boots helper_step.publish [of _ 7 st]]
  have "autostart_reachable mh (helper_at 7 Ticking (?s\<lparr>as_state := Some st\<rparr>))"
    by (simp add: ex_auto_def helper_at_def st)
  from reached(2) [OF this helper_step.write_tick [of _ 7 st]]
  have "autostart_reachable mh (helper_at 7 Looping (?s\<lparr>as_state := Some st\<rparr>))"
    by (simp add: ex_auto_def helper_at_def st)
  from reached(2) [OF this helper_step.signalled [of _ 7 Looping]]
  have "autostart_reachable mh (helper_at 7 ShuttingDown (?s\<lparr>as_state := Some st\<rparr>))"
    by (simp add: ex_auto_def helper_at_def assms)
  from reached(2) [OF this helper_step.shut_down [of _ 7 st']]
  have "autostart_reachable mh (helper_at 7 Exiting ?t)" by (simp add: ex_auto_def helper_at_def st)
  from reached(1) [OF this caller_step.serve [of _ 1]]
  have "autostart_reachable mh (caller_at 1 AboutToCheck (helper_at 7 Exiting ?t))" by (simp add: ex_auto_def helper_at_def)
  from reached(1) [OF this caller_step.saw_watcher [of _ 1]]
  have "autostart_reachable mh (caller_at 1 WaitsForLock (helper_at 7 Exiting ?t))"
    by (simp add: ex_auto_def helper_at_def caller_at_def ex_config_on)
  from reached(1) [OF this caller_step.take_lock [of _ 1]]
  have "autostart_reachable mh (caller_at 1 HasLock (helper_at 7 Exiting (?t\<lparr>as_lock := Some (HeldByCaller 1)\<rparr>)))"
    by (simp add: ex_auto_def helper_at_def caller_at_def)
  from reached(1) [OF this caller_step.saw_no_helper [of _ 1]]
  have "autostart_reachable mh (caller_at 1 SawNoHelper (helper_at 7 Exiting (?t\<lparr>as_lock := Some (HeldByCaller 1)\<rparr>)))"
    using st(2) by (simp add: ex_auto_def helper_at_def caller_at_def background_helper_already_running_def state_of_def)
  from reached(1) [OF this caller_step.saw_claim [of _ 1]]
  have "autostart_reachable mh (helper_at 7 Exiting ?t)"
    by (simp add: ex_auto_def helper_at_def caller_at_def caller_gone_def in_flight_def autostart_spawn_in_flight_def
        ex_claim_def claim_read_back alive_def AUTOSTART_CLAIM_TTL_MS_def saturating_sub_def fun_upd_idem)
  from reached(2) [OF this helper_step.exits [of _ 7]]
  have "autostart_reachable mh ?t" by (simp add: ex_auto_def helper_at_def helper_gone_def fun_upd_idem)
  moreover have "automation_daemon_enabled (as_config ?t)" "as_callers ?t = (\<lambda>c. None)" "as_helpers ?t = (\<lambda>p. None)"
    by (simp_all add: ex_auto_def ex_config_on)
  ultimately show ?thesis by blast
qed

end
