(* ===== verification/Launch.thy ===== *)
theory Launch
  imports Recovery Serve_Port
begin

text \<open>
  The managed launch of \<^verbatim>\<open>rocm serve\<close>: \<^verbatim>\<open>apps/rocm/src/service_launch.rs\<close> with the key storage
  of \<^verbatim>\<open>endpoint_keys.rs\<close>, \<^verbatim>\<open>crates/rocm-core/src/endpoint_key.rs\<close> and
  \<^verbatim>\<open>crates/rocm-engine-protocol/src/lib.rs\<close>, and the part of \<^verbatim>\<open>serve_cmd.rs\<close> that stages the key.

  A world is what a launch reads and writes: the registry, the key files, the logs, the engines'
  state files, the audit log and the processes it spawned. The process table, the port, the clock
  and whether each file operation succeeds are arguments, as is what other processes do to the
  world while the launch sleeps or waits. The model is the Unix build.
\<close>

section \<open>Endpoint keys\<close>

definition ENDPOINT_API_KEY_LEN :: nat where "ENDPOINT_API_KEY_LEN = 48"

text \<open>The random source is a library's; \<^verbatim>\<open>draw\<close> is its sequence of characters.\<close>

definition generate_endpoint_api_key :: "(nat \<Rightarrow> char) \<Rightarrow> string" where
  "generate_endpoint_api_key draw = map draw [0..<ENDPOINT_API_KEY_LEN]"

definition endpoint_api_key_has_forbidden_chars :: "string \<Rightarrow> bool" where
  "endpoint_api_key_has_forbidden_chars key = has_control key"

definition is_loopback_host :: "string \<Rightarrow> bool" where
  "is_loopback_host address \<longleftrightarrow> \<not> is_public_bind_host address"

datatype auth_error = NotLoopback string | EmptyKey | ControlInKey | EngineCannotEnforce

definition validate_bind_host :: "string \<Rightarrow> bool \<Rightarrow> auth_error + unit" where
  "validate_bind_host address allow_public_bind =
     (if \<not> is_loopback_host address \<and> \<not> allow_public_bind then Inl (NotLoopback address) else Inr ())"

definition resolve_endpoint_auth ::
  "(nat \<Rightarrow> char) \<Rightarrow> string \<Rightarrow> string option \<Rightarrow> bool \<Rightarrow> auth_error + string option" where
  "resolve_endpoint_auth draw address supplied required =
     (if is_loopback_host address \<and> \<not> required then Inr None
      else case supplied of
        Some raw \<Rightarrow>
          (let trimmed = trim raw in
           if trimmed = [] then Inl EmptyKey
           else if endpoint_api_key_has_forbidden_chars trimmed then Inl ControlInKey
           else Inr (Some trimmed))
      | None \<Rightarrow> Inr (Some (generate_endpoint_api_key draw)))"

definition ensure_public_bind_engine_supported :: "string \<Rightarrow> bool \<Rightarrow> bool \<Rightarrow> auth_error + unit" where
  "ensure_public_bind_engine_supported engine public_bind on_windows =
     (if public_bind \<and> on_windows \<and> engine = ''lemonade'' then Inl EngineCannotEnforce else Inr ())"

section \<open>The world of a launch\<close>

text \<open>A key file holds text, or bytes that are none.\<close>

type_synonym key_files = "string \<rightharpoonup> string option"

datatype launch_audit =
  LaunchSkipped string string
| LaunchCleanup string u32 termination_outcome
| Launched string endpoint_readiness

record spawned_child =
  sp_service_id :: string
  sp_args :: "string list"
  sp_key :: "string option"
  sp_port_held :: bool

record world =
  wo_registry :: registry
  wo_keys :: key_files
  wo_logs :: "string set"
  wo_states :: "string \<Rightarrow> state_file"
  wo_audit :: "launch_audit list"
  wo_spawned :: "spawned_child list"

definition store_endpoint_api_key :: "string \<Rightarrow> string \<Rightarrow> world \<Rightarrow> world" where
  "store_endpoint_api_key sid key w = w\<lparr>wo_keys := (wo_keys w)(sid \<mapsto> Some key)\<rparr>"

definition clear_endpoint_api_key :: "bool \<Rightarrow> string \<Rightarrow> world \<Rightarrow> world" where
  "clear_endpoint_api_key ok sid w = (if ok then w\<lparr>wo_keys := (wo_keys w)(sid := None)\<rparr> else w)"

definition endpoint_api_key_from_file :: "key_files \<Rightarrow> string \<Rightarrow> string option" where
  "endpoint_api_key_from_file keys sid =
     (case keys sid of
        Some (Some content) \<Rightarrow>
          (let trimmed = trim content in
           if trimmed = [] \<or> endpoint_api_key_has_forbidden_chars trimmed then None else Some trimmed)
      | _ \<Rightarrow> None)"

definition endpoint_key_file_if_present :: "key_files \<Rightarrow> string \<Rightarrow> bool" where
  "endpoint_key_file_if_present keys sid \<longleftrightarrow> keys sid \<noteq> None"

text \<open>What others do in a window; the children of this launch are its own.\<close>

definition meanwhile :: "(world \<Rightarrow> world) \<Rightarrow> world \<Rightarrow> world" where
  "meanwhile others w = (others w)\<lparr>wo_spawned := wo_spawned w\<rparr>"

definition audit :: "launch_audit \<Rightarrow> world \<Rightarrow> world" where
  "audit e w = w\<lparr>wo_audit := wo_audit w @ [e]\<rparr>"

definition drop_orphaned_endpoint_key_on_already_running ::
  "bool \<Rightarrow> string \<Rightarrow> string option \<Rightarrow> world \<Rightarrow> world" where
  "drop_orphaned_endpoint_key_on_already_running ok sid freshly_stored w =
     (if freshly_stored \<noteq> None then clear_endpoint_api_key ok sid w else w)"

section \<open>The request and its surroundings\<close>

datatype device_policy = GpuRequired | GpuPreferred | CpuOnly

fun device_policy_name :: "device_policy \<Rightarrow> string" where
  "device_policy_name GpuRequired = ''gpu_required''"
| "device_policy_name GpuPreferred = ''gpu_preferred''"
| "device_policy_name CpuOnly = ''cpu_only''"

fun status_for_readiness :: "endpoint_readiness \<Rightarrow> string" where
  "status_for_readiness Serving = ''ready''"
| "status_for_readiness Listing = ''running''"
| "status_for_readiness Unreachable = ''starting''"

text \<open>\<^verbatim>\<open>lq_recipe\<close>: the recipe hint as the JSON it is encoded to; the outer \<^verbatim>\<open>None\<close> is a hint that
  cannot be encoded.\<close>

record launch_request =
  lq_engine :: string
  lq_service_id :: string
  lq_requested_model :: string
  lq_canonical_model_id :: string
  lq_served_model_id :: "string option"
  lq_host :: string
  lq_port :: port_request
  lq_device_policy :: device_policy
  lq_gpu_indices :: "u32 list"
  lq_runtime_id :: "string option"
  lq_env_id :: "string option"
  lq_recipe :: "string option option"
  lq_require_api_key :: bool
  lq_gpu_refusal_waived :: bool

record launch_env =
  le_ready :: readiness_env
  le_paths :: app_paths
  le_linux :: bool
  le_now :: u128
  le_ipv6 :: "string \<Rightarrow> bool"
  le_dirs_ok :: bool
  le_bind :: bind_probe
  le_first_write :: bool
  le_state_dir_ok :: bool
  le_log_ok :: bool
  le_launcher_ok :: bool
  le_env_root_ok :: bool
  le_stdio_ok :: bool
  le_spawn :: "u32 option"
  le_ticks :: "u32 \<Rightarrow> u64 option"
  le_settle :: "world \<Rightarrow> world"
  le_wait :: wait_result
  le_last_write :: bool
  le_abandon_write :: bool
  le_unlink :: "string \<Rightarrow> bool"
  le_key_unlink :: bool

definition le_host :: "launch_env \<Rightarrow> runtime_platform" where
  "le_host env = re_host (le_ready env)"

datatype reuse_refusal = RecipeMismatch | MissingApiKey | DevicePolicyTooWeak

datatype launch_error = DirsNotMade | RecipeNotEncoded | PortFailed port_error | NotReusable string reuse_refusal |
  OtherPort string u16 | NoUsableGpu | RecordNotWritten | StateDirNotMade | LogNotCreated | NoLauncher |
  NoEnvRoot | LaunchKeyless key_error | LogNotAttached | ChildNotSpawned | ChildNotChecked | ChildExited |
  RecordNotPublished | DiedDuringWait | OutcomeNotWritten | KeyNotStored | HelperNotRunning | AuthRefused auth_error

section \<open>Live services and their ports\<close>

definition load_services :: "readiness_env \<Rightarrow> world \<Rightarrow> (control_error + service list) \<times> world" where
  "load_services env w =
     (let (res, reg, keys) = load_managed_services_refreshed (env\<lparr>re_state_files := wo_states w\<rparr>)
                               (wo_registry w) (dom (wo_keys w))
      in (res, w\<lparr>wo_registry := reg, wo_keys := wo_keys w |` keys\<rparr>))"

definition live_managed_services :: "readiness_env \<Rightarrow> world \<Rightarrow> service list \<times> world" where
  "live_managed_services env w =
     (let (res, w1) = load_services env w
      in (filter is_live (case res of Inr records \<Rightarrow> records | Inl _ \<Rightarrow> []), w1))"

definition existing_live_managed_service_in :: "service list \<Rightarrow> string \<Rightarrow> string \<Rightarrow> service option" where
  "existing_live_managed_service_in live engine canonical_model_id =
     find (\<lambda>r. sr_engine r = engine \<and> sr_canonical_model_id r = canonical_model_id) live"

definition find_live_managed_service :: "service list \<Rightarrow> string \<Rightarrow> string \<Rightarrow> service option" where
  "find_live_managed_service records engine canonical_model_id =
     find (\<lambda>r. sr_engine r = engine \<and> sr_canonical_model_id r = canonical_model_id \<and> is_live r) records"

definition reserved_service_ports :: "service list \<Rightarrow> reserved_port list" where
  "reserved_service_ports live =
     map (\<lambda>r. \<lparr>rv_port = sr_port r, rv_host = sr_host r, rv_service_id = sr_service_id r, rv_status = sr_status r\<rparr>) live"

datatype port_decision = AlreadyLive service | Lease port_lease

definition resolve_managed_port_in_transaction ::
  "launch_env \<Rightarrow> string \<Rightarrow> string \<Rightarrow> string \<Rightarrow> port_request \<Rightarrow> world \<Rightarrow> (port_error + port_decision) \<times> world" where
  "resolve_managed_port_in_transaction env engine canonical_model_id address request w =
     (let (live, w1) = live_managed_services (le_ready env) w in
      case existing_live_managed_service_in live engine canonical_model_id of
        Some existing \<Rightarrow> (Inr (AlreadyLive existing), w1)
      | None \<Rightarrow>
          (map_sum (\<lambda>e. e) Lease (resolve_serve_port False address request (reserved_service_ports live) (le_bind env)), w1))"

definition managed_service_reuse_refusal ::
  "service \<Rightarrow> string option \<Rightarrow> bool \<Rightarrow> device_policy \<Rightarrow> reuse_refusal option" where
  "managed_service_reuse_refusal existing recipe_json require_api_key policy =
     (if sr_engine_recipe_json existing \<noteq> recipe_json then Some RecipeMismatch
      else if require_api_key \<and> \<not> sr_requires_api_key existing then Some MissingApiKey
      else if policy = GpuRequired \<and> sr_device_policy existing = Some ''cpu_only'' then Some DevicePolicyTooWeak
      else None)"

section \<open>Undoing a failed launch\<close>

definition MANAGED_LAUNCH_CLEANUP_GRACE :: nat where "MANAGED_LAUNCH_CLEANUP_GRACE = 2000000000"

definition terminate_launch_child :: "os \<Rightarrow> nat terminate_fn" where
  "terminate_launch_child os t ident =
     (let (oc, t', log) = terminate_verified os t ident Tree MANAGED_LAUNCH_CLEANUP_GRACE True in (oc, t'))"

definition remove_manifest :: "bool \<Rightarrow> string \<Rightarrow> world \<Rightarrow> world" where
  "remove_manifest ok p w = (if ok then w\<lparr>wo_registry := filter (\<lambda>e. fst e \<noteq> p) (wo_registry w)\<rparr> else w)"

definition remove_log :: "bool \<Rightarrow> string \<Rightarrow> world \<Rightarrow> world" where
  "remove_log ok p w = (if ok then w\<lparr>wo_logs := wo_logs w - {p}\<rparr> else w)"

definition remove_state :: "bool \<Rightarrow> string \<Rightarrow> world \<Rightarrow> world" where
  "remove_state ok p w = (if ok then w\<lparr>wo_states := (wo_states w)(p := NotAFile)\<rparr> else w)"

definition write_service :: "launch_env \<Rightarrow> bool \<Rightarrow> service \<Rightarrow> world \<Rightarrow> bool \<times> world" where
  "write_service env ok r w =
     (let (res, reg) = write_record (le_host env) ok r (wo_registry w) in (is_ok res, w\<lparr>wo_registry := reg\<rparr>))"

text \<open>The child is killed by the identity recorded at its spawn. Without a start time, where start
  times exist, it was gone before it could be captured, and nothing is signalled.\<close>

definition abandon_failed_managed_launch ::
  "launch_env \<Rightarrow> 's terminate_fn \<Rightarrow> 's \<Rightarrow> service \<Rightarrow> world \<Rightarrow> 's \<times> world" where
  "abandon_failed_managed_launch env terminate s r w =
     (case (case sr_engine_pid r of Some p \<Rightarrow> if p \<noteq> 0 then Some p else None | None \<Rightarrow> None) of
        Some p \<Rightarrow>
          (let (outcome, s1) = (if sr_engine_start_ticks r = None \<and> le_linux env then (Unverified, s)
                                else terminate s \<lparr>pid = p, start_ticks = sr_engine_start_ticks r\<rparr>);
               w1 = audit (LaunchCleanup (sr_service_id r) p outcome) w;
               w2 = snd (write_service env (le_abandon_write env) (mark_launch_abandoned r) w1)
           in (s1, clear_endpoint_api_key (le_key_unlink env) (sr_service_id r) w2))
      | None \<Rightarrow>
          (let w1 = remove_manifest (le_unlink env (sr_manifest_path r)) (sr_manifest_path r) w;
               w2 = remove_log (le_unlink env (sr_log_path r)) (sr_log_path r) w1;
               w3 = remove_state (le_unlink env (sr_engine_state_path r)) (sr_engine_state_path r) w2
           in (s, clear_endpoint_api_key (le_key_unlink env) (sr_service_id r) w3)))"

section \<open>The launch transaction\<close>

definition builtin_engine_serve_http_args ::
  "launch_request \<Rightarrow> u16 \<Rightarrow> string option \<Rightarrow> string \<Rightarrow> string option \<Rightarrow> string list" where
  "builtin_engine_serve_http_args q port recipe_json state_path log_path =
     [''__engine-serve-http'', lq_engine q, lq_service_id q, lq_canonical_model_id q, ''--host'', lq_host q, ''--port'',
      show_nat (unat port), ''--device-policy'', device_policy_name (lq_device_policy q)] @
     csv_args (lq_gpu_indices q) @
     (if lq_env_id q = None then optional_arg ''--runtime-id'' (lq_runtime_id q) else []) @
     optional_arg ''--env-id'' (lq_env_id q) @
     optional_arg ''--engine-recipe-json'' recipe_json @
     [''--state-path'', state_path] @ optional_arg ''--log-path'' log_path"

text \<open>The lease is released before the spawn; \<^verbatim>\<open>le_settle\<close> is what others do in the 200 ms in which the
  child may exit at once. The record returned tells the cleanup whether a child ever ran.\<close>

definition launch_managed_engine_child_locked ::
  "launch_env \<Rightarrow> launch_request \<Rightarrow> string option \<Rightarrow> port_lease \<Rightarrow> service \<Rightarrow> world \<Rightarrow>
     (launch_error + u32) \<times> service \<times> world" where
  "launch_managed_engine_child_locked env q recipe_json lease r w =
     (if \<not> le_state_dir_ok env then (Inl StateDirNotMade, r, w)
      else if \<not> le_log_ok env then (Inl LogNotCreated, r, w)
      else
        let w1 = w\<lparr>wo_logs := insert (sr_log_path r) (wo_logs w)\<rparr> in
        if \<not> le_launcher_ok env then (Inl NoLauncher, r, w1)
        else
          let args = builtin_engine_serve_http_args q (sr_port r) recipe_json (sr_engine_state_path r) (Some (sr_log_path r)) in
          if lq_env_id q = None \<and> lq_runtime_id q \<noteq> None \<and> \<not> le_env_root_ok env then (Inl NoEnvRoot, r, w1)
          else
            let key = (if endpoint_key_file_if_present (wo_keys w1) (lq_service_id q)
                       then endpoint_api_key_from_file (wo_keys w1) (lq_service_id q) else None) in
            case ensure_public_service_has_endpoint_key (lq_host q) (key \<noteq> None) (sr_requires_api_key r) of
              Inl e \<Rightarrow> (Inl (LaunchKeyless e), r, w1)
            | Inr _ \<Rightarrow>
                (let (port, released) = release_lease lease in
                 if \<not> le_stdio_ok env then (Inl LogNotAttached, r, w1)
                 else case le_spawn env of
                   None \<Rightarrow> (Inl ChildNotSpawned, r, w1)
                 | Some p \<Rightarrow>
                     (let w2 = w1\<lparr>wo_spawned := wo_spawned w1 @ [\<lparr>sp_service_id = lq_service_id q, sp_args = args,
                                 sp_key = key, sp_port_held = lease_held released\<rparr>]\<rparr>;
                          r1 = record_engine_identity (le_ticks env) p r;
                          w3 = meanwhile (le_settle env) w2
                      in case le_wait env of
                           WaitError \<Rightarrow> (Inl ChildNotChecked, r1, w3)
                         | Exited \<Rightarrow> (Inl ChildExited, r1, w3)
                         | StillRunning \<Rightarrow>
                             (let r2 = (record_supervisor_identity (le_ticks env) p r1)\<lparr>sr_status := ''running''\<rparr>;
                                  (written, w4) = write_service env (le_last_write env) r2 w3
                              in if written then (Inr p, r2, w4) else (Inl RecordNotPublished, r2, w4)))))"

record launch_report =
  lr_service_id :: string
  lr_endpoint_url :: string
  lr_status :: string
  lr_already_running :: bool
  lr_child_pid :: "u32 option"
  lr_log_path :: "string option"
  lr_manifest_path :: "string option"

datatype managed_spawn = AlreadyRunning launch_report | SpawnedChild service u32

definition existing_report :: "service \<Rightarrow> launch_report" where
  "existing_report r =
     \<lparr>lr_service_id = sr_service_id r, lr_endpoint_url = sr_endpoint_url r, lr_status = sr_status r,
      lr_already_running = True, lr_child_pid = None, lr_log_path = None, lr_manifest_path = None\<rparr>"

definition claim_record :: "launch_env \<Rightarrow> launch_request \<Rightarrow> string option \<Rightarrow> u16 \<Rightarrow> service" where
  "claim_record env q recipe_json port =
     (service_new (le_host env) (le_ipv6 env) (le_now env) (le_paths env) (lq_service_id q) (lq_engine q)
        (lq_requested_model q) (lq_canonical_model_id q) (lq_host q) port ''managed'' 0 (lq_runtime_id q) (lq_env_id q)
        (Some (device_policy_name (lq_device_policy q))))
       \<lparr>sr_gpu_indices := lq_gpu_indices q, sr_served_model_id := lq_served_model_id q,
        sr_engine_recipe_json := recipe_json, sr_requires_api_key := lq_require_api_key q\<rparr>"

text \<open>What is answered when an equivalent service is live.\<close>

definition reuse_existing :: "launch_request \<Rightarrow> string option \<Rightarrow> service \<Rightarrow> world \<Rightarrow> (launch_error + managed_spawn) \<times> world" where
  "reuse_existing q recipe_json existing w =
     (case managed_service_reuse_refusal existing recipe_json (lq_require_api_key q) (lq_device_policy q) of
        Some why \<Rightarrow> (Inl (NotReusable (sr_service_id existing) why), w)
      | None \<Rightarrow>
          if (case explicit_port (lq_port q) of Some p \<Rightarrow> p \<noteq> sr_port existing | None \<Rightarrow> False)
          then (Inl (OtherPort (sr_service_id existing) (sr_port existing)), w)
          else (Inr (AlreadyRunning (existing_report existing)),
                audit (LaunchSkipped (sr_service_id existing) (sr_status existing)) w))"

definition spawn_managed_engine_child ::
  "launch_env \<Rightarrow> 's terminate_fn \<Rightarrow> 's \<Rightarrow> launch_request \<Rightarrow> world \<Rightarrow> (launch_error + managed_spawn) \<times> 's \<times> world" where
  "spawn_managed_engine_child env terminate s q w =
     (if \<not> le_dirs_ok env then (Inl DirsNotMade, s, w)
      else case lq_recipe q of
        None \<Rightarrow> (Inl RecipeNotEncoded, s, w)
      | Some recipe_json \<Rightarrow>
          (case resolve_managed_port_in_transaction env (lq_engine q) (lq_canonical_model_id q) (lq_host q) (lq_port q) w of
             (Inl e, w1) \<Rightarrow> (Inl (PortFailed e), s, w1)
           | (Inr (AlreadyLive existing), w1) \<Rightarrow>
               (let (res, w2) = reuse_existing q recipe_json existing w1 in (res, s, w2))
           | (Inr (Lease lease), w1) \<Rightarrow>
               if lq_gpu_refusal_waived q then (Inl NoUsableGpu, s, w1)
               else
                 let r = claim_record env q recipe_json (lease_port lease);
                     (written, w2) = write_service env (le_first_write env) r w1
                 in if \<not> written then (Inl RecordNotWritten, s, w2)
                    else
                      (case launch_managed_engine_child_locked env q recipe_json lease r w2 of
                         (Inr p, r1, w3) \<Rightarrow> (Inr (SpawnedChild r1 p), s, w3)
                       | (Inl e, r1, w3) \<Rightarrow>
                           (let (s1, w4) = abandon_failed_managed_launch env terminate s r1 w3 in (Inl e, s1, w4)))))"

section \<open>Waiting until the server answers\<close>

text \<open>Round \<^verbatim>\<open>k\<close> of the wait: what the probe found, and whether the server was still live after it.\<close>

partial_function (option) wait_past_readiness_budget ::
  "(nat \<Rightarrow> endpoint_readiness) \<Rightarrow> (nat \<Rightarrow> bool) \<Rightarrow> nat \<Rightarrow> (endpoint_readiness \<times> nat) option" where
  "wait_past_readiness_budget probe still_live k =
     (if probe k = Serving \<or> \<not> still_live k then Some (probe k, k)
      else wait_past_readiness_budget probe still_live (Suc k))"

definition record_still_live :: "service \<Rightarrow> (u32 \<Rightarrow> bool) \<Rightarrow> bool" where
  "record_still_live r pid_alive \<longleftrightarrow>
     is_live r \<and> (recorded_service_pids r = [] \<or> list_ex pid_alive (recorded_service_pids r))"

definition read_stored :: "launch_env \<Rightarrow> string \<Rightarrow> world \<Rightarrow> service option" where
  "read_stored env sid w =
     (case map_of (wo_registry w) (service_manifest_path (le_host env) (le_paths env) sid) of
        Some (Stored r) \<Rightarrow> Some r | _ \<Rightarrow> None)"

definition from_engine :: "launch_env \<Rightarrow> world \<Rightarrow> service \<Rightarrow> service" where
  "from_engine env w r = snd (refresh_from_engine_state (le_host env) (wo_states w) r)"

definition service_still_live :: "launch_env \<Rightarrow> string \<Rightarrow> (u32 \<Rightarrow> bool) \<Rightarrow> world \<Rightarrow> bool" where
  "service_still_live env sid pid_alive w =
     (case read_stored env sid w of
        None \<Rightarrow> False | Some latest \<Rightarrow> record_still_live (from_engine env w latest) pid_alive)"

definition settle_exited_service :: "launch_env \<Rightarrow> bool \<Rightarrow> string \<Rightarrow> world \<Rightarrow> world" where
  "settle_exited_service env ok sid w =
     (case read_stored env sid w of
        None \<Rightarrow> w
      | Some saved \<Rightarrow>
          (let latest = from_engine env w saved in
           if is_live latest then snd (write_service env ok (latest\<lparr>sr_status := ''stopped''\<rparr>) w)
           else if sr_status latest = sr_status saved then w
           else snd (write_service env ok latest w)))"

definition died_during_wait ::
  "launch_env \<Rightarrow> bool \<Rightarrow> string \<Rightarrow> bool \<Rightarrow> endpoint_readiness \<Rightarrow> (u32 \<Rightarrow> bool) \<Rightarrow> world \<Rightarrow> bool \<times> world" where
  "died_during_wait env ok sid wait_until_ready readiness pid_alive w =
     (if \<not> wait_until_ready \<or> readiness = Serving \<or> service_still_live env sid pid_alive w then (False, w)
      else (True, settle_exited_service env ok sid w))"

definition record_wait_outcome ::
  "launch_env \<Rightarrow> bool \<Rightarrow> u128 \<Rightarrow> service \<Rightarrow> string \<Rightarrow> bool \<Rightarrow> world \<Rightarrow> bool \<times> service \<times> world" where
  "record_wait_outcome env ok now held status verified w =
     (let latest = (case read_stored env (sr_service_id held) w of Some r \<Rightarrow> r | None \<Rightarrow> held)\<lparr>sr_status := status\<rparr>;
          latest = (if verified then latest\<lparr>sr_inference_verified_at_unix_ms := Some (as_u64 now)\<rparr> else latest);
          (written, w1) = write_service env ok latest w
      in if written then (True, latest, w1) else (False, held, w1))"

text \<open>The surroundings of a wait: the probe, the process table and the world by round, and what
  happens between the last round and the verdict.\<close>

record wait_env =
  we_probe :: "nat \<Rightarrow> endpoint_readiness"
  we_alive :: "nat \<Rightarrow> u32 \<Rightarrow> bool"
  we_world :: "nat \<Rightarrow> world \<Rightarrow> world"
  we_last_alive :: "u32 \<Rightarrow> bool"
  we_last_world :: "world \<Rightarrow> world"
  we_settle_write :: bool
  we_outcome_write :: bool
  we_now :: u128

definition wait_for_record_ready ::
  "launch_env \<Rightarrow> wait_env \<Rightarrow> string \<Rightarrow> bool \<Rightarrow> world \<Rightarrow> (endpoint_readiness \<times> world) option" where
  "wait_for_record_ready env we sid wait_until_ready w =
     (if wait_until_ready
      then map_option (\<lambda>(readiness, k). (readiness, meanwhile (we_last_world we) (meanwhile (we_world we k) w)))
        (wait_past_readiness_budget (we_probe we)
           (\<lambda>k. service_still_live env sid (we_alive we k) (meanwhile (we_world we k) w)) 0)
      else Some (we_probe we 0, meanwhile (we_last_world we) (meanwhile (we_world we 0) w)))"

definition wait_on_existing_service ::
  "launch_env \<Rightarrow> wait_env \<Rightarrow> launch_report \<Rightarrow> bool \<Rightarrow> world \<Rightarrow> ((launch_error + launch_report) \<times> world) option" where
  "wait_on_existing_service env we report wait_until_ready w =
     (if \<not> wait_until_ready \<or> lr_status report = ''ready'' then Some (Inr report, w)
      else case read_stored env (lr_service_id report) w of
        None \<Rightarrow> Some (Inr report, w)
      | Some r \<Rightarrow>
          (case wait_for_record_ready env we (lr_service_id report) True w of
             None \<Rightarrow> None
           | Some (readiness, w1) \<Rightarrow>
               (case died_during_wait env (we_settle_write we) (lr_service_id report) True readiness (we_last_alive we) w1 of
                  (True, w2) \<Rightarrow> Some (Inl DiedDuringWait, w2)
                | (False, w2) \<Rightarrow>
                    (case record_wait_outcome env (we_outcome_write we) (we_now we) r (status_for_readiness readiness)
                            (readiness = Serving) w2 of
                       (False, _, w3) \<Rightarrow> Some (Inl OutcomeNotWritten, w3)
                     | (True, _, w3) \<Rightarrow> Some (Inr (report\<lparr>lr_status := status_for_readiness readiness\<rparr>), w3)))))"

text \<open>\<^verbatim>\<open>None\<close> is a wait that does not end. \<^verbatim>\<open>freshly_stored\<close> is the key staged for this attempt.\<close>

definition start_managed_service ::
  "launch_env \<Rightarrow> wait_env \<Rightarrow> 's terminate_fn \<Rightarrow> 's \<Rightarrow> launch_request \<Rightarrow> string option \<Rightarrow> bool \<Rightarrow> world \<Rightarrow>
     ((launch_error + launch_report) \<times> 's \<times> world) option" where
  "start_managed_service env we terminate s q freshly_stored wait_until_ready w =
     (case spawn_managed_engine_child env terminate s q w of
        (Inl e, s1, w1) \<Rightarrow>
          Some (Inl e, s1, drop_orphaned_endpoint_key_on_already_running (le_key_unlink env) (lq_service_id q) freshly_stored w1)
      | (Inr (AlreadyRunning report), s1, w1) \<Rightarrow>
          map_option (\<lambda>(res, w2). (res, s1, w2)) (wait_on_existing_service env we report wait_until_ready w1)
      | (Inr (SpawnedChild r p), s1, w1) \<Rightarrow>
          (case wait_for_record_ready env we (lq_service_id q) wait_until_ready w1 of
             None \<Rightarrow> None
           | Some (readiness, w2) \<Rightarrow>
               (case died_during_wait env (we_settle_write we) (lq_service_id q) wait_until_ready readiness (we_last_alive we) w2 of
                  (True, w3) \<Rightarrow> Some (Inl DiedDuringWait, s1, w3)
                | (False, w3) \<Rightarrow>
                    (case record_wait_outcome env (we_outcome_write we) (we_now we) r (status_for_readiness readiness)
                            (readiness = Serving) w3 of
                       (False, _, w4) \<Rightarrow> Some (Inl OutcomeNotWritten, s1, w4)
                     | (True, r1, w4) \<Rightarrow>
                         Some (Inr \<lparr>lr_service_id = lq_service_id q,
                             lr_endpoint_url = format_http_base_url (le_ipv6 env) (lq_host q) (sr_port r) @ ''/v1'',
                             lr_status = status_for_readiness readiness, lr_already_running = False, lr_child_pid = Some p,
                             lr_log_path = Some (sr_log_path r1), lr_manifest_path = Some (sr_manifest_path r1)\<rparr>,
                           s1, audit (Launched (lq_service_id q) readiness) w4)))))"

section \<open>The command\<close>

text \<open>The checks of \<^verbatim>\<open>serve\<close> that decide how the endpoint is guarded, before anything has an effect.\<close>

definition serve_policy ::
  "(nat \<Rightarrow> char) \<Rightarrow> bool \<Rightarrow> string \<Rightarrow> port_request \<Rightarrow> bool \<Rightarrow> string option \<Rightarrow> string option \<Rightarrow> bool \<Rightarrow> string \<Rightarrow>
     launch_error + string option" where
  "serve_policy draw on_windows address request allow_public_bind api_key env_key require_api_key engine =
     (case validate_bind_host address allow_public_bind of
        Inl e \<Rightarrow> Inl (AuthRefused e)
      | Inr _ \<Rightarrow>
          (case validate_port_request address request of
             Inl e \<Rightarrow> Inl (PortFailed e)
           | Inr _ \<Rightarrow>
               (let supplied = (case api_key of Some k \<Rightarrow> Some k
                                | None \<Rightarrow> (case env_key of Some k \<Rightarrow> if trim k \<noteq> [] then Some k else None | None \<Rightarrow> None)) in
                case resolve_endpoint_auth draw address supplied require_api_key of
                  Inl e \<Rightarrow> Inl (AuthRefused e)
                | Inr auth \<Rightarrow>
                    (case ensure_public_bind_engine_supported engine (auth \<noteq> None) on_windows of
                       Inl e \<Rightarrow> Inl (AuthRefused e) | Inr _ \<Rightarrow> Inr auth))))"

text \<open>The background launch under the lock, from the staging of the key. \<^verbatim>\<open>Inl\<close> of the storing is what a
  failed write left in the file, if anything.\<close>

definition serve_background ::
  "launch_env \<Rightarrow> wait_env \<Rightarrow> string option option + unit \<Rightarrow> bool \<Rightarrow> 's terminate_fn \<Rightarrow> 's \<Rightarrow> launch_request \<Rightarrow>
     string option \<Rightarrow> bool \<Rightarrow> world \<Rightarrow> ((launch_error + launch_report) \<times> 's \<times> world) option" where
  "serve_background env we storing helper_ok terminate s q endpoint_auth wait_until_ready w =
     (case (case endpoint_auth of
              None \<Rightarrow> Inr w
            | Some key \<Rightarrow>
                (case storing of
                   Inr _ \<Rightarrow> Inr (store_endpoint_api_key (lq_service_id q) key w)
                 | Inl None \<Rightarrow> Inl w
                 | Inl (Some left) \<Rightarrow> Inl (w\<lparr>wo_keys := (wo_keys w)(lq_service_id q \<mapsto> left)\<rparr>))) of
        Inl w1 \<Rightarrow> Some (Inl KeyNotStored, s, w1)
      | Inr w1 \<Rightarrow>
          (case start_managed_service env we terminate s q endpoint_auth wait_until_ready w1 of
             None \<Rightarrow> None
           | Some (Inl e, s1, w2) \<Rightarrow> Some (Inl e, s1, w2)
           | Some (Inr report, s1, w2) \<Rightarrow>
               if \<not> helper_ok then Some (Inl HelperNotRunning, s1, w2)
               else Some (Inr report, s1,
                 if lr_already_running report
                 then drop_orphaned_endpoint_key_on_already_running (le_key_unlink env) (lq_service_id q) endpoint_auth w2
                 else w2)))"

end
