(* ===== verification/Launch_Safety.thy ===== *)
theory Launch_Safety
  imports Launch
begin

text \<open>
  The steps of a managed launch: what the refresh of the registry leaves of a claim, and the ways
  through the start of the child. The contracts of the launch are in \<^verbatim>\<open>Launch_Properties\<close>.
\<close>

section \<open>What a refresh keeps\<close>

text \<open>What decides where a record is stored and what it reserves.\<close>

definition same_claim :: "runtime_platform \<Rightarrow> service \<Rightarrow> service \<Rightarrow> bool" where
  "same_claim host r r' \<longleftrightarrow>
     sr_service_id r' = sr_service_id r \<and> sr_port r' = sr_port r \<and> sr_host r' = sr_host r \<and>
     fst (stored_form host r') = fst (stored_form host r) \<and> (is_live r' \<longrightarrow> is_live r)"

lemma same_claim_trans: "same_claim host a b \<Longrightarrow> same_claim host b c \<Longrightarrow> same_claim host a c"
  by (simp add: same_claim_def)

lemma same_claim_refl [simp]: "same_claim host r r"
  by (simp add: same_claim_def)

lemma same_claim_normalize [simp]: "same_claim host r (normalize_paths_for_host host r)"
  by (simp add: same_claim_def stored_form_def normalize_paths_for_host_def is_live_def)

lemma same_claim_adopt: "same_claim host r (adopt_state st s (normalize_paths_for_host host r))" if "is_live r"
  using that by (simp add: same_claim_def stored_form_def normalize_paths_for_host_def adopt_state_form)

lemma refresh_same_claim:
  assumes "refresh_from_engine_state host files r = (res, r')"
  shows "same_claim host r r'"
  using assms by (cases rule: refresh_cases) (simp_all add: same_claim_adopt)

lemma same_claim_fields:
  assumes "is_live r'' \<longrightarrow> is_live r"
    and "r'' = r\<lparr>sr_status := st, sr_stop_requested_unix_ms := m, sr_inference_probe_attempted_at_unix_ms := a,
        sr_inference_verified_at_unix_ms := v\<rparr>"
  shows "same_claim host r r''"
  using assms by (simp add: same_claim_def stored_form_def normalize_paths_for_host_def)

lemma settle_facts:
  assumes "settle_pending_stop_key_cleanup env r keys = (settled, r1, keys1)"
  shows "\<exists>m. r1 = refreshed r (sr_status r) m (sr_inference_probe_attempted_at_unix_ms r) (sr_inference_verified_at_unix_ms r)"
    and "keys1 \<subseteq> keys" and "keys - {sr_service_id r} \<subseteq> keys1" and "\<not> settled \<longrightarrow> r1 = r"
  using settle_cases [OF assms] by (auto simp: refreshed_def intro: exI [of _ None] exI [of _ "sr_stop_requested_unix_ms r"])

lemma same_claim_refreshed:
  "is_live (refreshed r st m a v) \<longrightarrow> is_live r \<Longrightarrow> same_claim host r (refreshed r st m a v)"
  unfolding refreshed_def by (rule same_claim_fields) simp_all

lemma is_live_refreshed [simp]: "is_live (refreshed r (sr_status r) m a v) = is_live r"
  by (simp add: is_live_def)

lemma apply_readiness_refreshed:
  assumes "apply_readiness env settled outcome (refreshed r st m a v) = (changed, r')"
  shows "\<exists>st. r' = refreshed r st m a v" and "\<not> changed \<longrightarrow> \<not> settled \<and> r' = refreshed r st m a v \<and>
    (\<not> snd outcome \<or> fst outcome = Unreachable)"
  using apply_readiness_cases [OF assms] by auto

lemma liveness_same_claim:
  assumes "refresh_managed_service_runtime_liveness env r keys = (changed, r', keys')"
  shows "same_claim host r r' \<and> keys' \<subseteq> keys \<and> keys - {sr_service_id r} \<subseteq> keys' \<and> (\<not> changed \<longrightarrow> r' = r)"
proof -
  obtain settled r1 keys1 where s: "settle_pending_stop_key_cleanup env r keys = (settled, r1, keys1)" by (metis prod_cases3)
  from settle_facts(1) [OF s] obtain m where
    r1: "r1 = refreshed r (sr_status r) m (sr_inference_probe_attempted_at_unix_ms r) (sr_inference_verified_at_unix_ms r)"
    by blast
  then have live: "is_live r1 = is_live r" by simp
  show ?thesis
  proof (cases "is_live r1")
    case False
    with assms s have "r' = r1" "keys' = keys1" "changed = settled"
      by (simp_all add: refresh_managed_service_runtime_liveness_def)
    moreover have "same_claim host r r1" unfolding r1 by (rule same_claim_refreshed) simp
    ultimately show ?thesis using settle_facts(2-4) [OF s] by simp
  next
    case True
    obtain outcome r2 sent where probe: "(outcome, r2, sent) = (if sr_status r1 \<in> {''ready'', ''running''}
        then managed_service_endpoint_readiness env r1 else ((Unreachable, False), r1, False))" by (metis prod_cases3)
    with assms s True have run: "apply_readiness env settled outcome r2 = (changed, r')" "keys' = keys1"
      by (auto simp: refresh_managed_service_runtime_liveness_def Let_def split: prod.splits if_splits)
    from probe_refreshed [OF probe r1] obtain a v where r2: "r2 = refreshed r (sr_status r) m a v"
      "\<not> snd outcome \<or> fst outcome = Unreachable \<longrightarrow> r2 = r1" by blast
    note applied = apply_readiness_refreshed [OF run(1) [unfolded r2(1)]]
    from applied(1) obtain st where r': "r' = refreshed r st m a v" by blast
    have "\<not> changed \<longrightarrow> r' = r" using applied(2) r2 settle_facts(4) [OF s] by auto
    moreover have "same_claim host r r'" unfolding r' using True live by (intro same_claim_refreshed) simp
    ultimately show ?thesis using run(2) settle_facts(2,3) [OF s] by simp
  qed
qed

lemma refresh_loaded_facts:
  assumes "refresh_loaded env r reg keys = (r', reg', keys')"
  shows "same_claim (re_host env) r r' \<and> keys' \<subseteq> keys \<and> keys - {sr_service_id r} \<subseteq> keys' \<and>
    (reg' = reg \<or> reg' = put (fst (stored_form (re_host env) r')) (snd (stored_form (re_host env) r')) reg) \<and>
    (re_write_ok env r' \<longrightarrow> sr_status r' \<noteq> sr_status r \<longrightarrow> 
       reg' = put (fst (stored_form (re_host env) r')) (snd (stored_form (re_host env) r')) reg)"
proof -
  obtain res r1 where e: "refresh_from_engine_state (re_host env) (re_state_files env) r = (res, r1)" by fastforce
  obtain live r2 keys2 where l: "refresh_managed_service_runtime_liveness env r1 keys = (live, r2, keys2)" by (metis prod_cases3)
  have c: "same_claim (re_host env) r r1" by (rule refresh_same_claim [OF e])
  have d: "same_claim (re_host env) r1 r2" "keys2 \<subseteq> keys" "keys - {sr_service_id r1} \<subseteq> keys2" "\<not> live \<longrightarrow> r2 = r1"
    using liveness_same_claim [OF l] by auto
  have s: "sr_service_id r1 = sr_service_id r" using c by (simp add: same_claim_def)
  have st: "sr_status r1 \<noteq> sr_status r \<longrightarrow> res = Inr True"
    using e by (cases rule: refresh_cases) (auto simp: adopt_state_fields)
  from assms e l have r': "r' = r2" "keys' = keys2"
    and reg': "reg' = (if (case res of Inr b \<Rightarrow> b | Inl _ \<Rightarrow> False) \<or> live
                  then snd (write_record (re_host env) (re_write_ok env r2) r2 reg) else reg)"
    by (simp_all add: refresh_loaded_def Let_def)
  have "same_claim (re_host env) r r2" using same_claim_trans [OF c d(1)] .
  moreover have "reg' = reg \<or> reg' = put (fst (stored_form (re_host env) r2)) (snd (stored_form (re_host env) r2)) reg"
    by (simp add: reg' write_record_form)
  moreover have "reg' = put (fst (stored_form (re_host env) r2)) (snd (stored_form (re_host env) r2)) reg"
    if "re_write_ok env r2" "sr_status r2 \<noteq> sr_status r"
    using that st d(4) by (auto simp: reg' write_record_form)
  ultimately show ?thesis using d s r' by auto
qed
lemma same_claim_on_disk [simp]: "same_claim host r (on_disk host r)"
  by (simp add: same_claim_def stored_path_on_disk is_live_def)

section \<open>The refresh of all records\<close>

text \<open>Nothing in the registry belongs to a service id or lies at its path.\<close>

definition unknown_id :: "runtime_platform \<Rightarrow> string \<Rightarrow> string \<Rightarrow> registry \<Rightarrow> bool" where
  "unknown_id host path sid reg \<longleftrightarrow>
     (\<forall>(p, m) \<in> set reg. p \<noteq> path \<and>
       (case m of Stored r \<Rightarrow> sr_service_id r \<noteq> sid \<and> fst (stored_form host r) \<noteq> path | _ \<Rightarrow> True))"

lemma unknown_Cons:
  "unknown_id host path sid ((p, m) # reg) \<longleftrightarrow> p \<noteq> path \<and>
     (case m of Stored r \<Rightarrow> sr_service_id r \<noteq> sid \<and> fst (stored_form host r) \<noteq> path | _ \<Rightarrow> True) \<and>
     unknown_id host path sid reg"
  by (simp add: unknown_id_def)

lemma set_put: "set (put p m reg) \<subseteq> insert (p, m) (set reg)"
  by (induction reg) auto

lemma fst_set_put: "fst ` set (put p m reg) = insert p (fst ` set reg)"
  by (induction reg) auto

lemma map_fst_put: "map fst (put p m reg) = (if p \<in> fst ` set reg then map fst reg else map fst reg @ [p])"
  by (induction reg) auto

lemma unknown_put:
  assumes "unknown_id host path sid reg" "sr_service_id r \<noteq> sid" "fst (stored_form host r) \<noteq> path"
  shows "unknown_id host path sid (put (fst (stored_form host r)) (snd (stored_form host r)) reg)"
  unfolding unknown_id_def
proof
  fix e assume "e \<in> set (put (fst (stored_form host r)) (snd (stored_form host r)) reg)"
  then have "e = (fst (stored_form host r), snd (stored_form host r)) \<or> e \<in> set reg" using set_put by fastforce
  with assms show "case e of (p, m) \<Rightarrow> p \<noteq> path \<and>
      (case m of Stored r \<Rightarrow> sr_service_id r \<noteq> sid \<and> fst (stored_form host r) \<noteq> path | _ \<Rightarrow> True)"
    by (auto simp: unknown_id_def stored_form_on_disk stored_path_on_disk)
qed

lemma refresh_entries_unknown:
  "refresh_entries env es reg keys = (res, reg', keys') \<Longrightarrow>
   unknown_id (re_host env) path sid es \<Longrightarrow> unknown_id (re_host env) path sid reg \<Longrightarrow>
     unknown_id (re_host env) path sid reg' \<and> keys' \<subseteq> keys \<and> (sid \<in> keys \<longrightarrow> sid \<in> keys')"
proof (induction env es reg keys arbitrary: res rule: refresh_entries.induct)
  case (4 env p r es reg keys)
  let ?n = "normalize_paths_for_host (re_host env) r"
  obtain r2 reg2 keys2 where l: "refresh_loaded env ?n reg keys = (r2, reg2, keys2)" by (metis prod_cases3)
  obtain res3 where rest: "refresh_entries env es reg2 keys2 = (res3, reg', keys')"
    using "4.prems"(1) l by (auto simp: Let_def split: prod.splits)
  note facts = refresh_loaded_facts [OF l]
  have claim: "same_claim (re_host env) r r2"
    using same_claim_trans [OF same_claim_normalize] facts by blast
  have r: "sr_service_id r \<noteq> sid" "fst (stored_form (re_host env) r) \<noteq> path" and es: "unknown_id (re_host env) path sid es"
    using "4.prems"(2) by (simp_all add: unknown_id_def)
  have "sr_service_id r2 \<noteq> sid" "fst (stored_form (re_host env) r2) \<noteq> path" using claim r by (simp_all add: same_claim_def)
  then have "unknown_id (re_host env) path sid reg2"
    using facts "4.prems"(3) unknown_put by blast
  from "4.IH" [OF l [symmetric] refl refl rest es this] show ?case
    using facts r by (auto simp: normalize_paths_for_host_def)
qed (auto simp: unknown_Cons)

lemma load_services_unknown:
  assumes "load_services env w = (res, w')" "unknown_id (re_host env) path sid (wo_registry w)"
  shows "unknown_id (re_host env) path sid (wo_registry w') \<and> wo_keys w' sid = wo_keys w sid"
proof -
  let ?env = "env\<lparr>re_state_files := wo_states w\<rparr>"
  obtain res2 reg keys where l: "refresh_entries ?env (wo_registry w) (wo_registry w) (dom (wo_keys w)) = (res2, reg, keys)"
    by (metis prod_cases3)
  with assms(1) have w': "w' = w\<lparr>wo_registry := reg, wo_keys := wo_keys w |` keys\<rparr>"
    by (auto simp: load_services_def load_managed_services_refreshed_def)
  from refresh_entries_unknown [OF l, of path sid] assms(2) show ?thesis
    by (cases "wo_keys w sid") (auto simp: w' restrict_map_def)
qed

lemma load_services_frame:
  assumes "load_services env w = (res, w')"
  shows "wo_spawned w' = wo_spawned w" "wo_logs w' = wo_logs w" "wo_states w' = wo_states w" "wo_audit w' = wo_audit w"
  using assms by (auto simp: load_services_def split: prod.splits)

text \<open>Every record lies at its own path, no path twice, and every file can be read.\<close>

definition well_placed :: "runtime_platform \<Rightarrow> registry \<Rightarrow> bool" where
  "well_placed host reg \<longleftrightarrow> distinct (map fst reg) \<and> \<not> list_ex unreadable_entry reg \<and>
     (\<forall>p r. (p, Stored r) \<in> set reg \<longrightarrow> fst (stored_form host r) = p)"

text \<open>The live claims of a registry all come from those of another.\<close>

definition claims_from :: "runtime_platform \<Rightarrow> registry \<Rightarrow> registry \<Rightarrow> bool" where
  "claims_from host reg reg' \<longleftrightarrow>
     (\<forall>p x. (p, Stored x) \<in> set reg' \<longrightarrow> (\<exists>x0. (p, Stored x0) \<in> set reg \<and> same_claim host x0 x))"

lemma put_entry:
  "distinct (map fst reg) \<Longrightarrow> e \<in> set (put p m reg) \<longleftrightarrow> e = (p, m) \<or> e \<in> set reg \<and> fst e \<noteq> p"
  by (induction reg) (auto simp: rev_image_eqI)

lemma well_placed_put:
  assumes "well_placed host reg"
  shows "well_placed host (put (fst (stored_form host r)) (snd (stored_form host r)) reg)"
proof -
  have "distinct (map fst reg)" using assms by (simp add: well_placed_def)
  then show ?thesis using assms
    by (auto simp: well_placed_def map_fst_put put_entry list_ex_iff unreadable_entry_def stored_form_on_disk stored_path_on_disk)
qed

lemma claims_from_refl [simp]: "claims_from host reg reg"
  by (auto simp: claims_from_def)

lemma claims_from_trans: "claims_from host a b \<Longrightarrow> claims_from host b c \<Longrightarrow> claims_from host a c"
  unfolding claims_from_def using same_claim_trans by blast

lemma claims_from_put:
  assumes "well_placed host reg" "(p, Stored x0) \<in> set reg" "same_claim host x0 r"
  shows "claims_from host reg (put (fst (stored_form host r)) (snd (stored_form host r)) reg)"
proof -
  have d: "distinct (map fst reg)" "fst (stored_form host r) = p" using assms by (auto simp: well_placed_def same_claim_def)
  have "same_claim host x0 (on_disk host r)" by (rule same_claim_trans [OF assms(3) same_claim_on_disk])
  with assms(2) d show ?thesis by (auto simp: claims_from_def put_entry stored_form_on_disk)
qed

lemma live_status: "sr_status r = sr_status r' \<Longrightarrow> is_live r = is_live r'"
  by (simp add: is_live_def)

lemma refresh_one:
  assumes l: "refresh_loaded env (normalize_paths_for_host (re_host env) r) reg keys = (r2, reg2, keys2)"
    and w: "well_placed (re_host env) reg" "(p, Stored r) \<in> set reg" and ok: "\<And>x. re_write_ok env x"
  shows "well_placed (re_host env) reg2" "claims_from (re_host env) reg reg2"
    "\<And>q m. q \<noteq> p \<Longrightarrow> (q, m) \<in> set reg2 \<longleftrightarrow> (q, m) \<in> set reg"
    "\<And>x. (p, Stored x) \<in> set reg2 \<Longrightarrow> is_live x \<Longrightarrow> is_live r2 \<and> sr_port r2 = sr_port x \<and> sr_host r2 = sr_host x"
    "fst (stored_form (re_host env) r2) = p"
proof -
  let ?h = "re_host env" and ?n = "normalize_paths_for_host (re_host env) r"
  note facts = refresh_loaded_facts [OF l]
  have claim: "same_claim ?h r r2" using same_claim_trans [OF same_claim_normalize] facts by blast
  have d: "distinct (map fst reg)" and pr: "fst (stored_form ?h r) = p" using w by (auto simp: well_placed_def)
  then show p: "fst (stored_form ?h r2) = p" using claim by (simp add: same_claim_def)
  have reg2: "reg2 = reg \<and> sr_status r2 = sr_status r \<or> reg2 = put p (Stored (on_disk ?h r2)) reg"
    using facts ok p by (auto simp: stored_form_on_disk)
  have "well_placed ?h (put p (Stored (on_disk ?h r2)) reg)" using well_placed_put [OF w(1), of r2] p by (simp add: stored_form_on_disk)
  with reg2 w show "well_placed ?h reg2" by auto
  have "claims_from ?h reg (put p (Stored (on_disk ?h r2)) reg)"
    using claims_from_put [OF w claim] p by (simp add: stored_form_on_disk)
  with reg2 show "claims_from ?h reg reg2" by auto
  show "(q, m) \<in> set reg2 \<longleftrightarrow> (q, m) \<in> set reg" if "q \<noteq> p" for q m using reg2 that by (auto simp: put_entry [OF d])
  show "is_live r2 \<and> sr_port r2 = sr_port x \<and> sr_host r2 = sr_host x" if "(p, Stored x) \<in> set reg2" "is_live x" for x
  proof (cases "reg2 = reg \<and> sr_status r2 = sr_status r")
    case True
    with that(1) w(2) d have "x = r" by (auto dest: eq_key_imp_eq_value)
    with True that(2) claim show ?thesis using live_status [of r2 r] by (simp add: same_claim_def)
  next
    case False
    with reg2 that(1) have "x = on_disk ?h r2" by (auto simp: put_entry [OF d])
    with that(2) show ?thesis by (simp add: is_live_def)
  qed
qed

lemma refresh_entries_claims:
  "refresh_entries env es reg keys = (res, reg', keys') \<Longrightarrow> well_placed (re_host env) reg \<Longrightarrow>
   distinct (map fst es) \<Longrightarrow> set es \<subseteq> set reg \<Longrightarrow> (\<And>x. re_write_ok env x) \<Longrightarrow>
     \<exists>rs. res = Inr rs \<and> well_placed (re_host env) reg' \<and> claims_from (re_host env) reg reg' \<and>
       (\<forall>p m. p \<notin> fst ` set es \<longrightarrow> ((p, m) \<in> set reg' \<longleftrightarrow> (p, m) \<in> set reg)) \<and>
       (\<forall>p x. p \<in> fst ` set es \<and> (p, Stored x) \<in> set reg' \<and> is_live x \<longrightarrow>
          (\<exists>r \<in> set rs. is_live r \<and> sr_port r = sr_port x \<and> sr_host r = sr_host x))"
proof (induction env es reg keys arbitrary: res rule: refresh_entries.induct)
  case (1 env reg keys)
  then show ?case by (intro exI [of _ "[]"]) auto
next
  case (2 env p es reg keys)
  then show ?case by (auto simp: well_placed_def list_ex_iff unreadable_entry_def)
next
  case (3 env p es reg keys)
  then obtain rs where rs: "res = Inr rs" and wp: "well_placed (re_host env) reg'" and c: "claims_from (re_host env) reg reg'"
    and f: "\<forall>p m. p \<notin> fst ` set es \<longrightarrow> ((p, m) \<in> set reg' \<longleftrightarrow> (p, m) \<in> set reg)"
    and live: "\<forall>p x. p \<in> fst ` set es \<and> (p, Stored x) \<in> set reg' \<and> is_live x \<longrightarrow>
          (\<exists>r \<in> set rs. is_live r \<and> sr_port r = sr_port x \<and> sr_host r = sr_host x)"
    by auto
  have gone: "(p, Stored x) \<notin> set reg'" for x
  proof -
    have "distinct (map fst reg)" "(p, Garbled) \<in> set reg" using "3.prems" by (auto simp: well_placed_def)
    then have "(p, Stored x) \<notin> set reg" by (auto dest: eq_key_imp_eq_value)
    then show ?thesis using f "3.prems"(3) by auto
  qed
  have "\<forall>q m. q \<notin> fst ` set ((p, Garbled) # es) \<longrightarrow> ((q, m) \<in> set reg' \<longleftrightarrow> (q, m) \<in> set reg)"
    using f by (metis insertCI image_insert list.simps(15))
  moreover have "\<forall>q x. q \<in> fst ` set ((p, Garbled) # es) \<and> (q, Stored x) \<in> set reg' \<and> is_live x \<longrightarrow>
          (\<exists>r \<in> set rs. is_live r \<and> sr_port r = sr_port x \<and> sr_host r = sr_host x)"
  proof (intro allI impI)
    fix q x assume a: "q \<in> fst ` set ((p, Garbled) # es) \<and> (q, Stored x) \<in> set reg' \<and> is_live x"
    with gone have "q \<noteq> p" by blast
    moreover have "q \<in> insert p (fst ` set es)" using a by simp
    ultimately have "q \<in> fst ` set es" by blast
    with live a show "\<exists>r \<in> set rs. is_live r \<and> sr_port r = sr_port x \<and> sr_host r = sr_host x" by blast
  qed
  ultimately show ?case by (intro exI [of _ rs] conjI rs wp c)
next
  case (4 env p r es reg keys)
  let ?h = "re_host env"
  obtain r2 reg2 keys2 where l: "refresh_loaded env (normalize_paths_for_host ?h r) reg keys = (r2, reg2, keys2)"
    by (metis prod_cases3)
  obtain res3 where rest: "refresh_entries env es reg2 keys2 = (res3, reg', keys')" and res: "res = map_sum (\<lambda>e. e) (\<lambda>rs. r2 # rs) res3"
    using "4.prems"(1) l by (auto simp: Let_def split: prod.splits)
  have pr: "(p, Stored r) \<in> set reg" using "4.prems"(4) by auto
  note one = refresh_one [OF l "4.prems"(2) pr "4.prems"(5)]
  have dist: "distinct (map fst es)" "p \<notin> fst ` set es" using "4.prems"(3) by simp_all
  have "set es \<subseteq> set reg2"
  proof
    fix e assume e: "e \<in> set es"
    then have "fst e \<noteq> p" "e \<in> set reg" using dist(2) "4.prems"(4) by auto
    then show "e \<in> set reg2" using one(3) [of "fst e" "snd e"] by simp
  qed
  note IH = "4.IH" [OF l [symmetric] refl refl rest one(1) dist(1) this "4.prems"(5)]
  obtain rs where rs: "res3 = Inr rs" and wp: "well_placed ?h reg'" and c: "claims_from ?h reg2 reg'"
    and f: "\<forall>q m. q \<notin> fst ` set es \<longrightarrow> ((q, m) \<in> set reg' \<longleftrightarrow> (q, m) \<in> set reg2)"
    and live: "\<forall>q x. q \<in> fst ` set es \<and> (q, Stored x) \<in> set reg' \<and> is_live x \<longrightarrow>
          (\<exists>r \<in> set rs. is_live r \<and> sr_port r = sr_port x \<and> sr_host r = sr_host x)"
    using IH by blast
  have "(p, Stored x) \<in> set reg' \<longleftrightarrow> (p, Stored x) \<in> set reg2" for x using f dist(2) by blast
  then have head: "is_live r2 \<and> sr_port r2 = sr_port x \<and> sr_host r2 = sr_host x" if "(p, Stored x) \<in> set reg'" "is_live x" for x
    using one(4) that by blast
  have "\<forall>q x. q \<in> fst ` set ((p, Stored r) # es) \<and> (q, Stored x) \<in> set reg' \<and> is_live x \<longrightarrow>
          (\<exists>r \<in> set (r2 # rs). is_live r \<and> sr_port r = sr_port x \<and> sr_host r = sr_host x)"
  proof (intro allI impI)
    fix q x assume a: "q \<in> fst ` set ((p, Stored r) # es) \<and> (q, Stored x) \<in> set reg' \<and> is_live x"
    show "\<exists>r \<in> set (r2 # rs). is_live r \<and> sr_port r = sr_port x \<and> sr_host r = sr_host x"
    proof (cases "q = p")
      case True
      then show ?thesis using a head [of x] by simp
    next
      case False
      moreover have "q \<in> insert p (fst ` set es)" using a by simp
      ultimately have "q \<in> fst ` set es" by blast
      with live a have "\<exists>r \<in> set rs. is_live r \<and> sr_port r = sr_port x \<and> sr_host r = sr_host x" by blast
      then show ?thesis by simp
    qed
  qed
  moreover have "\<forall>q m. q \<notin> fst ` set ((p, Stored r) # es) \<longrightarrow> ((q, m) \<in> set reg' \<longleftrightarrow> (q, m) \<in> set reg)"
    using f one(3) by simp
  moreover have "res = Inr (r2 # rs)" by (simp add: res rs)
  ultimately show ?case by (intro exI [of _ "r2 # rs"] conjI wp claims_from_trans [OF one(2) c])
qed

lemma load_services_claims:
  assumes "load_services env w = (res, w')" "well_placed (re_host env) (wo_registry w)" "\<And>x. re_write_ok env x"
  shows "\<exists>rs. res = Inr rs \<and> well_placed (re_host env) (wo_registry w') \<and>
    claims_from (re_host env) (wo_registry w) (wo_registry w') \<and>
    (\<forall>p x. (p, Stored x) \<in> set (wo_registry w') \<and> is_live x \<longrightarrow>
      (\<exists>r \<in> set rs. is_live r \<and> sr_port r = sr_port x \<and> sr_host r = sr_host x))"
proof -
  let ?env = "env\<lparr>re_state_files := wo_states w\<rparr>"
  obtain res2 reg keys where l: "refresh_entries ?env (wo_registry w) (wo_registry w) (dom (wo_keys w)) = (res2, reg, keys)"
    by (metis prod_cases3)
  with assms(1) have w': "wo_registry w' = reg"
    and res: "res = map_sum (\<lambda>e. e) (sort_key (\<lambda>r. - int (unat (sr_created_at_unix_ms r)))) res2"
    by (auto simp: load_services_def load_managed_services_refreshed_def)
  have "distinct (map fst (wo_registry w))" using assms(2) by (simp add: well_placed_def)
  with refresh_entries_claims [OF l _ _ subset_refl] assms(2,3) obtain rs where rs: "res2 = Inr rs"
    and wp: "well_placed (re_host env) reg" and c: "claims_from (re_host env) (wo_registry w) reg"
    and live: "\<forall>p x. p \<in> fst ` set (wo_registry w) \<and> (p, Stored x) \<in> set reg \<and> is_live x \<longrightarrow>
      (\<exists>r \<in> set rs. is_live r \<and> sr_port r = sr_port x \<and> sr_host r = sr_host x)" by auto
  have "p \<in> fst ` set (wo_registry w)" if "(p, Stored x) \<in> set reg" for p x
    using c that by (force simp: claims_from_def)
  with live have "\<forall>p x. (p, Stored x) \<in> set reg \<and> is_live x \<longrightarrow>
      (\<exists>r \<in> set rs. is_live r \<and> sr_port r = sr_port x \<and> sr_host r = sr_host x)" by blast
  with res rs wp c show ?thesis unfolding w' by simp
qed

section \<open>The steps of a launch\<close>

text \<open>A child is either never started, or started once with the released port and the key that was
  then in the key file.\<close>

definition new_child :: "launch_request \<Rightarrow> string option \<Rightarrow> service \<Rightarrow> world \<Rightarrow> spawned_child" where
  "new_child q recipe_json r w =
     \<lparr>sp_service_id = lq_service_id q,
      sp_args = builtin_engine_serve_http_args q (sr_port r) recipe_json (sr_engine_state_path r) (Some (sr_log_path r)),
      sp_key = endpoint_api_key_from_file (wo_keys w) (lq_service_id q), sp_port_held = False\<rparr>"

definition guarded :: "launch_request \<Rightarrow> service \<Rightarrow> world \<Rightarrow> bool" where
  "guarded q r w \<longleftrightarrow>
     (sr_requires_api_key r \<or> is_public_bind_host (lq_host q) \<longrightarrow> endpoint_api_key_from_file (wo_keys w) (lq_service_id q) \<noteq> None)"

lemma key_present [simp]:
  "(if endpoint_key_file_if_present keys sid then endpoint_api_key_from_file keys sid else None) =
     endpoint_api_key_from_file keys sid"
  by (simp add: endpoint_key_file_if_present_def endpoint_api_key_from_file_def)

lemma guard_passed:
  "ensure_public_service_has_endpoint_key a present required = Inr u \<longleftrightarrow>
     (required \<or> is_public_bind_host a \<longrightarrow> present)"
  by (auto simp: ensure_public_service_has_endpoint_key_def)

definition settled :: "launch_env \<Rightarrow> launch_request \<Rightarrow> string option \<Rightarrow> service \<Rightarrow> world \<Rightarrow> world" where
  "settled env q recipe_json r w =
     meanwhile (le_settle env)
       (w\<lparr>wo_logs := insert (sr_log_path r) (wo_logs w), wo_spawned := wo_spawned w @ [new_child q recipe_json r w]\<rparr>)"

definition running_record :: "launch_env \<Rightarrow> u32 \<Rightarrow> service \<Rightarrow> service" where
  "running_record env p r =
     (record_supervisor_identity (le_ticks env) p (record_engine_identity (le_ticks env) p r))\<lparr>sr_status := ''running''\<rparr>"

lemma launch_child_cases:
  assumes "launch_managed_engine_child_locked env q recipe_json lease r w = (res, r', w')"
  obtains (unstarted) e where "res = Inl e" "r' = r"
      "w' = w \<or> w' = w\<lparr>wo_logs := insert (sr_log_path r) (wo_logs w)\<rparr>"
  | (failed) e p where "le_spawn env = Some p" "guarded q r w" "res = Inl e"
      "r' = record_engine_identity (le_ticks env) p r" "w' = settled env q recipe_json r w" 
  | (unpublished) p where "le_spawn env = Some p" "guarded q r w" "res = Inl RecordNotPublished"
      "r' = running_record env p r"
      "w' = settled env q recipe_json r w"
  | (running) p where "le_spawn env = Some p" "guarded q r w" "res = Inr p" "r' = running_record env p r"
      "le_wait env = StillRunning" "w' = snd (write_service env True r' (settled env q recipe_json r w))"
proof -
  let ?w1 = "w\<lparr>wo_logs := insert (sr_log_path r) (wo_logs w)\<rparr>"
  note def = launch_managed_engine_child_locked_def Let_def key_present release_lease_def
  show ?thesis
  proof (cases "\<exists>p. le_spawn env = Some p \<and> le_state_dir_ok env \<and> le_log_ok env \<and> le_launcher_ok env \<and>
      \<not> (lq_env_id q = None \<and> lq_runtime_id q \<noteq> None \<and> \<not> le_env_root_ok env) \<and> guarded q r w \<and> le_stdio_ok env")
    case False
    have "(\<exists>e. res = Inl e) \<and> r' = r \<and> (w' = w \<or> w' = ?w1)"
      using assms False
      by (auto simp: def guarded_def guard_passed split: if_splits sum.splits option.splits prod.splits)
    then show ?thesis using unstarted by blast
  next
    case True
    then obtain p where p: "le_spawn env = Some p" and ok: "le_state_dir_ok env" "le_log_ok env" "le_launcher_ok env"
      "\<not> (lq_env_id q = None \<and> lq_runtime_id q \<noteq> None \<and> \<not> le_env_root_ok env)" "guarded q r w" "le_stdio_ok env" by blast
    obtain u where g: "ensure_public_service_has_endpoint_key (lq_host q)
        (endpoint_api_key_from_file (wo_keys w) (lq_service_id q) \<noteq> None) (sr_requires_api_key r) = Inr u"
      using ok(5) by (cases "ensure_public_service_has_endpoint_key (lq_host q)
        (endpoint_api_key_from_file (wo_keys w) (lq_service_id q) \<noteq> None) (sr_requires_api_key r)")
       (auto simp: guarded_def ensure_public_service_has_endpoint_key_def split: if_splits)
    have run: "launch_managed_engine_child_locked env q recipe_json lease r w = (case le_wait env of
        WaitError \<Rightarrow> (Inl ChildNotChecked, record_engine_identity (le_ticks env) p r, settled env q recipe_json r w)
      | Exited \<Rightarrow> (Inl ChildExited, record_engine_identity (le_ticks env) p r, settled env q recipe_json r w)
      | StillRunning \<Rightarrow>
          (let (written, w4) = write_service env (le_last_write env) (running_record env p r) (settled env q recipe_json r w)
           in if written then (Inr p, running_record env p r, w4) else (Inl RecordNotPublished, running_record env p r, w4)))"
      using p ok g
      by (cases "lq_env_id q"; cases "lq_runtime_id q"; cases "le_wait env")
        (simp_all add: def settled_def new_child_def running_record_def split: prod.split)
    show ?thesis
    proof (cases "le_wait env")
      case StillRunning
      show ?thesis
      proof (cases "le_last_write env")
        case True
        then show ?thesis using run assms StillRunning running [OF p ok(5)]
          by (simp add: write_service_def write_record_form is_ok_def Let_def)
      next
        case False
        then show ?thesis using run assms StillRunning unpublished [OF p ok(5)]
          by (simp add: write_service_def write_record_form is_ok_def Let_def)
      qed
    qed (use run assms failed [OF p ok(5)] in auto)
  qed
qed
end
