(* ===== verification/Launch_Properties.thy ===== *)
theory Launch_Properties
  imports Launch_Safety
begin

text \<open>
  The contracts of a managed launch: what a launch that succeeds, is satisfied by a live service or
  fails has done, which key its child gets, that live services never share a port, and what the
  wait for readiness concludes. The cleanup of a failed launch relies on the process terminator
  through the locale \<^verbatim>\<open>terminator\<close>, interpreted here with the grace the cleanup gives.
\<close>

section \<open>The transaction\<close>

lemma write_service_form:
  "write_service env ok r w =
     (ok, if ok then w\<lparr>wo_registry := put (fst (stored_form (le_host env) r)) (snd (stored_form (le_host env) r)) (wo_registry w)\<rparr>
          else w)"
  by (simp add: write_service_def write_record_form is_ok_def Let_def)

lemma spawn_cases:
  assumes "spawn_managed_engine_child env terminate s q w = (res, s', w')"
    and "live_managed_services (le_ready env) w = (live, w1)"
  obtains (early) e where "res = Inl e" "s' = s" "w' = w"
  | (refused) e where "res = Inl e" "s' = s" "w' = w1"
  | (existing) rj x where "lq_recipe q = Some rj"
      "existing_live_managed_service_in live (lq_engine q) (lq_canonical_model_id q) = Some x"
      "(res, w') = reuse_existing q rj x w1" "s' = s"
  | (launched) rj lease r p where "lq_recipe q = Some rj" "\<not> lq_gpu_refusal_waived q"
      "existing_live_managed_service_in live (lq_engine q) (lq_canonical_model_id q) = None"
      "resolve_serve_port False (lq_host q) (lq_port q) (reserved_service_ports live) (le_bind env) = Inr lease"
      "launch_managed_engine_child_locked env q rj lease (claim_record env q rj (lease_port lease))
         (snd (write_service env True (claim_record env q rj (lease_port lease)) w1)) = (Inr p, r, w')"
      "res = Inr (SpawnedChild r p)" "s' = s"
  | (abandoned) rj lease r e w2 where "lq_recipe q = Some rj" "\<not> lq_gpu_refusal_waived q"
      "existing_live_managed_service_in live (lq_engine q) (lq_canonical_model_id q) = None"
      "resolve_serve_port False (lq_host q) (lq_port q) (reserved_service_ports live) (le_bind env) = Inr lease"
      "launch_managed_engine_child_locked env q rj lease (claim_record env q rj (lease_port lease))
         (snd (write_service env True (claim_record env q rj (lease_port lease)) w1)) = (Inl e, r, w2)"
      "res = Inl e" "(s', w') = abandon_failed_managed_launch env terminate s r w2"
proof (cases "le_dirs_ok env \<and> lq_recipe q \<noteq> None")
  case False
  then have "(\<exists>e. res = Inl e) \<and> s' = s \<and> w' = w"
    using assms(1) by (auto simp: spawn_managed_engine_child_def split: if_splits)
  then show ?thesis using early by blast
next
  case True
  then obtain rj where ok: "le_dirs_ok env" and rj: "lq_recipe q = Some rj" by blast
  let ?port = "resolve_serve_port False (lq_host q) (lq_port q) (reserved_service_ports live) (le_bind env)"
  show ?thesis
  proof (cases "existing_live_managed_service_in live (lq_engine q) (lq_canonical_model_id q)")
    case (Some x)
    have "(res, w') = reuse_existing q rj x w1 \<and> s' = s"
      using assms ok rj Some
      by (auto simp: spawn_managed_engine_child_def resolve_managed_port_in_transaction_def split: prod.splits)
    then show ?thesis using existing [OF rj Some] by blast
  next
    case none: None
    show ?thesis
    proof (cases "\<exists>lease. ?port = Inr lease \<and> \<not> lq_gpu_refusal_waived q \<and> le_first_write env")
      case False
      have "(\<exists>e. res = Inl e) \<and> s' = s \<and> w' = w1"
        using assms ok rj none False
        by (cases ?port) (auto simp: spawn_managed_engine_child_def resolve_managed_port_in_transaction_def write_service_form
          split: prod.splits if_splits)
      then show ?thesis using refused by blast
    next
      case True
      then obtain lease where lease: "?port = Inr lease" and go: "\<not> lq_gpu_refusal_waived q" "le_first_write env" by blast
      let ?r = "claim_record env q rj (lease_port lease)"
      obtain res2 r2 w2 where l: "launch_managed_engine_child_locked env q rj lease ?r (snd (write_service env True ?r w1)) =
          (res2, r2, w2)" by (metis prod_cases3)
      have run: "(res, s', w') = (case res2 of
          Inr p \<Rightarrow> (Inr (SpawnedChild r2 p), s, w2)
        | Inl e \<Rightarrow> (let (s1, w4) = abandon_failed_managed_launch env terminate s r2 w2 in (Inl e, s1, w4)))"
        using assms ok rj none lease go l
        by (cases res2) (simp_all add: spawn_managed_engine_child_def resolve_managed_port_in_transaction_def write_service_form
          split: prod.splits)
      show ?thesis
      proof (cases res2)
        case (Inl e)
        with run have "res = Inl e" "(s', w') = abandon_failed_managed_launch env terminate s r2 w2"
          by (auto split: prod.splits)
        with l Inl show ?thesis using abandoned [OF rj go(1) none lease] by blast
      next
        case (Inr p)
        with run l show ?thesis using launched [OF rj go(1) none lease] by auto
      qed
    qed
  qed
qed
lemma world_frame [simp]:
  "wo_spawned (snd (write_service env ok r w)) = wo_spawned w"
  "wo_keys (snd (write_service env ok r w)) = wo_keys w"
  "wo_spawned (clear_endpoint_api_key ok sid w) = wo_spawned w"
  "wo_registry (clear_endpoint_api_key ok sid w) = wo_registry w"
  "wo_spawned (audit e w) = wo_spawned w" "wo_registry (audit e w) = wo_registry w" "wo_keys (audit e w) = wo_keys w"
  "wo_spawned (remove_manifest ok p w) = wo_spawned w" "wo_keys (remove_manifest ok p w) = wo_keys w"
  "wo_spawned (remove_log ok p w) = wo_spawned w" "wo_keys (remove_log ok p w) = wo_keys w"
  "wo_registry (remove_log ok p w) = wo_registry w"
  "wo_spawned (remove_state ok p w) = wo_spawned w" "wo_keys (remove_state ok p w) = wo_keys w"
  "wo_registry (remove_state ok p w) = wo_registry w"
  "wo_spawned (meanwhile f w) = wo_spawned w"
  by (simp_all add: write_service_form clear_endpoint_api_key_def audit_def remove_manifest_def remove_log_def
    remove_state_def meanwhile_def)

lemma live_services_frame:
  assumes "live_managed_services env w = (live, w1)"
  shows "wo_spawned w1 = wo_spawned w" "x \<in> set live \<Longrightarrow> is_live x"
  using assms load_services_frame [of env w] by (auto simp: live_managed_services_def split: prod.splits)

lemma abandon_frame:
  "(s', w') = abandon_failed_managed_launch env terminate s r w \<Longrightarrow> wo_spawned w' = wo_spawned w"
  by (auto simp: abandon_failed_managed_launch_def Let_def split: option.splits prod.splits if_splits)

text \<open>What the start of a child tells, whether it came to anything or not.\<close>

definition child_started :: "launch_request \<Rightarrow> world \<Rightarrow> world \<Rightarrow> bool" where
  "child_started q w w' \<longleftrightarrow> (\<exists>c. wo_spawned w' = wo_spawned w @ [c] \<and> sp_service_id c = lq_service_id q \<and> \<not> sp_port_held c \<and>
     (lq_require_api_key q \<or> is_public_bind_host (lq_host q) \<longrightarrow>
       (\<exists>k. sp_key c = Some k \<and> k \<noteq> [] \<and> \<not> has_control k)))"

lemma key_from_file_valid:
  "endpoint_api_key_from_file keys sid = Some k \<Longrightarrow> k \<noteq> [] \<and> \<not> has_control k"
  by (auto simp: endpoint_api_key_from_file_def endpoint_api_key_has_forbidden_chars_def Let_def
    split: option.splits if_splits)

lemma claim_record_fields [simp]:
  "sr_service_id (claim_record env q rj port) = lq_service_id q" "sr_port (claim_record env q rj port) = port"
  "sr_host (claim_record env q rj port) = lq_host q" "sr_requires_api_key (claim_record env q rj port) = lq_require_api_key q"
  "sr_engine_pid (claim_record env q rj port) = None" "sr_status (claim_record env q rj port) = ''starting''"
  "sr_manifest_path (claim_record env q rj port) = service_manifest_path (le_host env) (le_paths env) (lq_service_id q)"
  by (simp_all add: claim_record_def service_new_def)

lemma running_record_fields [simp]:
  "sr_service_id (running_record env p r) = sr_service_id r" "sr_port (running_record env p r) = sr_port r"
  "sr_status (running_record env p r) = ''running''" "sr_supervisor_pid (running_record env p r) = p"
  "sr_engine_pid (running_record env p r) = Some p" "sr_host (running_record env p r) = sr_host r"
  by (simp_all add: running_record_def record_supervisor_identity_def record_engine_identity_def)

lemma launch_child_started:
  assumes "launch_managed_engine_child_locked env q rj lease r w = (res, r', w')"
    and "sr_requires_api_key r = lq_require_api_key q"
  shows "wo_spawned w' = wo_spawned w \<and> (\<exists>e. res = Inl e) \<and> r' = r \<or> child_started q w w'"
proof -
  have started: "child_started q w w2" if "wo_spawned w2 = wo_spawned w @ [new_child q rj r w]" "guarded q r w" for w2
    using that assms(2) key_from_file_valid [of "wo_keys w" "lq_service_id q"]
    by (auto simp: child_started_def new_child_def guarded_def)
  have s: "wo_spawned (settled env q rj r w) = wo_spawned w @ [new_child q rj r w]" by (simp add: settled_def)
  show ?thesis using assms(1)
  proof (cases rule: launch_child_cases)
    case unstarted
    then show ?thesis by auto
  next
    case failed
    then show ?thesis using started [of w'] s by simp
  next
    case unpublished
    then show ?thesis using started [of w'] s by simp
  next
    case running
    then show ?thesis using started [of w'] s by simp
  qed
qed

lemma reserved_ports_contend:
  "(\<forall>r \<in> set (reserved_service_ports live). \<not> contends address port r) \<longleftrightarrow>
   (\<forall>x \<in> set live. sr_port x = port \<longrightarrow> \<not> is_canonical_loopback_host address \<and> \<not> hosts_overlap (sr_host x) address)"
  by (auto simp: reserved_service_ports_def contends_def)

lemma existing_live_Some:
  assumes "existing_live_managed_service_in live engine model = Some x"
  shows "x \<in> set live \<and> sr_engine x = engine \<and> sr_canonical_model_id x = model"
  using find_SomeD [OF assms [unfolded existing_live_managed_service_in_def]] by simp

section \<open>A failed launch\<close>

lemma terminate_launch_child_verdict:
  assumes "terminate_launch_child os t i = (oc, t')"
  shows "t \<le> t' \<and> (stopped oc \<longrightarrow> seen_exited os t t' i)"
proof -
  obtain oc2 t2 log where run: "terminate_verified os t i Tree MANAGED_LAUNCH_CLEANUP_GRACE True = (oc2, t2, log)"
    and holds: "stopped oc2 \<longrightarrow> (\<exists>m. pid m = pid i \<and> exited_between os t t2 m)"
    using terminate_verified_truthful [of os t i Tree MANAGED_LAUNCH_CLEANUP_GRACE True] by auto
  with assms have "oc2 = oc" "t2 = t'" by (auto simp: terminate_launch_child_def)
  with holds terminate_verified_mono [OF run] show ?thesis by (simp add: seen_exited_def)
qed

interpretation cleanup: terminator "terminate_launch_child os" "seen_exited os" "(\<le>)" for os
proof
  show "terminate_launch_child os s i = (oc, s') \<Longrightarrow> stopped oc \<Longrightarrow> seen_exited os s s' i" for s i oc s'
    using terminate_launch_child_verdict by blast
  show "terminate_launch_child os s i = (oc, s') \<Longrightarrow> s \<le> s'" for s i oc s'
    using terminate_launch_child_verdict by blast
  show "seen_exited os s s' i \<Longrightarrow> s0 \<le> s \<Longrightarrow> s' \<le> s1 \<Longrightarrow> seen_exited os s0 s1 i" for s s' i s0 s1
    unfolding seen_exited_def using exited_between_widen by blast
qed auto

definition manifest_of :: "launch_env \<Rightarrow> launch_request \<Rightarrow> string" where
  "manifest_of env q = service_manifest_path (le_host env) (le_paths env) (lq_service_id q)"

definition cleanup_works :: "launch_env \<Rightarrow> bool" where
  "cleanup_works env \<longleftrightarrow> le_abandon_write env \<and> (\<forall>p. le_unlink env p) \<and> le_key_unlink env"

text \<open>A record with the paths of the claim, whatever its other fields.\<close>

definition at_claim :: "launch_env \<Rightarrow> launch_request \<Rightarrow> service \<Rightarrow> bool" where
  "at_claim env q r \<longleftrightarrow> sr_service_id r = lq_service_id q \<and> sr_manifest_path r = manifest_of env q \<and>
     fst (stored_form (le_host env) r) = manifest_of env q"

lemma at_claim_fields:
  "at_claim env q (record_engine_identity ticks p r) = at_claim env q r"
  "at_claim env q (running_record env p r) = at_claim env q r"
  "at_claim env q (mark_launch_abandoned r) = at_claim env q r"
  by (simp_all add: at_claim_def stored_form_def normalize_paths_for_host_def record_engine_identity_def running_record_def
    record_supervisor_identity_def mark_launch_abandoned_def)

lemma unknown_manifest:
  "unknown_id host path sid reg \<Longrightarrow> map_of reg path = None"
  by (auto simp: unknown_id_def map_of_eq_None_iff)

context terminator
begin

text \<open>The undoing, by whether a child ran.\<close>

lemma abandon_child:
  assumes "(s', w') = abandon_failed_managed_launch env terminate s r w"
    and "sr_engine_pid r = Some p" "p \<noteq> 0" "at_claim env q r" "cleanup_works env"
  shows "wo_keys w' (lq_service_id q) = None"
    and "\<exists>x. map_of (wo_registry w') (manifest_of env q) = Some (Stored x) \<and> sr_status x = ''stopped''"
    and "\<exists>outcome. LaunchCleanup (lq_service_id q) p outcome \<in> set (wo_audit w') \<and>
      (stopped outcome \<longrightarrow> exited s s' \<lparr>pid = p, start_ticks = sr_engine_start_ticks r\<rparr>)"
proof -
  define go where "go = (if sr_engine_start_ticks r = None \<and> le_linux env then (Unverified, s)
    else terminate s \<lparr>pid = p, start_ticks = sr_engine_start_ticks r\<rparr>)"
  have w': "w' = clear_endpoint_api_key (le_key_unlink env) (sr_service_id r)
      (snd (write_service env (le_abandon_write env) (mark_launch_abandoned r)
        (audit (LaunchCleanup (sr_service_id r) p (fst go)) w)))" and s': "s' = snd go"
    using assms(1-3) by (auto simp: abandon_failed_managed_launch_def go_def [symmetric] split: prod.splits)
  show "wo_keys w' (lq_service_id q) = None" using assms(4,5)
    by (simp add: w' clear_endpoint_api_key_def cleanup_works_def at_claim_def)
  show "\<exists>x. map_of (wo_registry w') (manifest_of env q) = Some (Stored x) \<and> sr_status x = ''stopped''"
    using assms(4,5) at_claim_fields(3) [of env q r]
    by (simp add: w' cleanup_works_def write_service_form at_claim_def map_of_put stored_form_on_disk mark_launch_abandoned_def)
  have "stopped (fst go) \<longrightarrow> exited s (snd go) \<lparr>pid = p, start_ticks = sr_engine_start_ticks r\<rparr>"
  proof (cases "sr_engine_start_ticks r = None \<and> le_linux env")
    case False
    have "terminate s \<lparr>pid = p, start_ticks = sr_engine_start_ticks r\<rparr> = (fst go, snd go)"
      unfolding go_def if_not_P [OF False] by simp
    then show ?thesis using stopped_exited by blast
  qed (simp add: go_def)
  moreover have "LaunchCleanup (lq_service_id q) p (fst go) \<in> set (wo_audit w')" using assms(4)
    by (simp add: w' clear_endpoint_api_key_def write_service_form audit_def at_claim_def)
  ultimately show "\<exists>outcome. LaunchCleanup (lq_service_id q) p outcome \<in> set (wo_audit w') \<and>
      (stopped outcome \<longrightarrow> exited s s' \<lparr>pid = p, start_ticks = sr_engine_start_ticks r\<rparr>)"
    unfolding s' by blast
qed

end

lemma abandon_no_child:
  assumes "(s', w') = abandon_failed_managed_launch env terminate s r w"
    and "sr_engine_pid r = None" "at_claim env q r" "cleanup_works env"
  shows "wo_keys w' (lq_service_id q) = None \<and> map_of (wo_registry w') (manifest_of env q) = None \<and> s' = s"
  using assms
  by (auto simp: abandon_failed_managed_launch_def clear_endpoint_api_key_def cleanup_works_def at_claim_def remove_manifest_def
    map_of_eq_None_iff Let_def)

lemma claim_at_claim:
  "own_path (le_host env) (le_paths env) (claim_record env q rj port) \<Longrightarrow> at_claim env q (claim_record env q rj port)"
  by (simp add: at_claim_def manifest_of_def stored_at_own_path)

lemma own_path_claim:
  "own_path (le_host env) (le_paths env) (claim_record env q rj port) =
   own_path (le_host env) (le_paths env) (claim_record env q None 0)"
  by (simp add: own_path_def normalize_paths_for_host_def)

lemma live_services_unknown:
  assumes "live_managed_services env w = (live, w1)" "unknown_id (re_host env) path sid (wo_registry w)"
  shows "unknown_id (re_host env) path sid (wo_registry w1) \<and> wo_keys w1 sid = wo_keys w sid"
  using assms load_services_unknown [of env w] by (auto simp: live_managed_services_def split: prod.splits)

text \<open>What is left of a launch that failed: no key, no record but a stopped one.\<close>

definition nothing_left :: "launch_env \<Rightarrow> launch_request \<Rightarrow> world \<Rightarrow> bool" where
  "nothing_left env q w \<longleftrightarrow> wo_keys w (lq_service_id q) = None \<and>
     (\<forall>r. map_of (wo_registry w) (manifest_of env q) = Some (Stored r) \<longrightarrow> \<not> is_live r)"

lemma nothing_left_after_child:
  assumes "wo_keys w (lq_service_id q) = None"
    and "\<exists>x. map_of (wo_registry w) (manifest_of env q) = Some (Stored x) \<and> sr_status x = ''stopped''"
  shows "nothing_left env q w"
  using assms by (auto simp: nothing_left_def is_live_def)

lemma failed_spawn:
  assumes run: "spawn_managed_engine_child env (terminate_launch_child os) t q w = (Inl e, t', w')"
    and unknown: "unknown_id (le_host env) (manifest_of env q) (lq_service_id q) (wo_registry w)"
    and own: "own_path (le_host env) (le_paths env) (claim_record env q None 0)"
    and works: "cleanup_works env" and pid: "le_spawn env \<noteq> Some 0"
  shows "(nothing_left env q w' \<or>
      wo_keys w' (lq_service_id q) = wo_keys w (lq_service_id q) \<and> map_of (wo_registry w') (manifest_of env q) = None) \<and>
    (wo_spawned w' = wo_spawned w \<or>
     (\<exists>p outcome. le_spawn env = Some p \<and> LaunchCleanup (lq_service_id q) p outcome \<in> set (wo_audit w') \<and>
       (stopped outcome \<longrightarrow> seen_exited os t t' \<lparr>pid = p, start_ticks = le_ticks env p\<rparr>)))"
proof -
  obtain live w1 where live: "live_managed_services (le_ready env) w = (live, w1)" by fastforce
  have after: "unknown_id (le_host env) (manifest_of env q) (lq_service_id q) (wo_registry w1)"
    "wo_keys w1 (lq_service_id q) = wo_keys w (lq_service_id q)"
    using live_services_unknown [OF live] unknown by (simp_all add: le_host_def)
  show ?thesis using run live
  proof (cases rule: spawn_cases)
    case early
    then show ?thesis using unknown_manifest [OF unknown] by simp
  next
    case refused
    then show ?thesis using unknown_manifest [OF after(1)] after(2) live_services_frame(1) [OF live] by simp
  next
    case (existing rj x)
    then have "wo_registry w' = wo_registry w1" "wo_keys w' = wo_keys w1" "wo_spawned w' = wo_spawned w1"
      by (auto simp: reuse_existing_def split: option.splits if_splits)
    then show ?thesis using unknown_manifest [OF after(1)] after(2) live_services_frame(1) [OF live] by simp
  next
    case (launched rj lease r p)
    then show ?thesis by simp
  next
    case (abandoned rj lease r e2 w2)
    let ?c = "claim_record env q rj (lease_port lease)"
    have at: "at_claim env q ?c" using own own_path_claim claim_at_claim by blast
    have started: ?thesis if "le_spawn env = Some p" "sr_engine_pid r = Some p" "sr_engine_start_ticks r = le_ticks env p" "at_claim env q r" for p
    proof -
      have "p \<noteq> 0" using pid that(1) by auto
      note child = cleanup.abandon_child [OF abandoned(7) that(2) this that(4) works]
      from child(3) that(1,3) nothing_left_after_child [OF child(1,2)] show ?thesis by auto
    qed
    show ?thesis using abandoned(5)
    proof (cases rule: launch_child_cases)
      case unstarted
      have "nothing_left env q w'"
        using abandon_no_child [OF abandoned(7) _ _ works] unstarted at by (simp add: nothing_left_def)
      moreover have "wo_spawned w' = wo_spawned w"
        using abandon_frame [OF abandoned(7)] unstarted live_services_frame(1) [OF live] by auto
      ultimately show ?thesis by blast
    next
      case (failed e p)
      then show ?thesis using at by (intro started [of p]) (simp_all add: at_claim_fields, simp_all add: record_engine_identity_def)
    next
      case (unpublished p)
      then show ?thesis using at by (intro started [of p])
        (simp_all add: at_claim_fields, simp_all add: running_record_def record_engine_identity_def record_supervisor_identity_def)
    qed simp
  qed
qed

section \<open>The key a child is started with\<close>

lemma alphanumeric_code: "is_ascii_alphanumeric c \<Longrightarrow> 48 \<le> (of_char c :: nat) \<and> (of_char c :: nat) \<le> 122"
  by (auto simp: is_ascii_alphanumeric_def is_ascii_digit_def is_ascii_upper_def is_ascii_lower_def less_eq_char_def)

lemma alphanumeric_no_control: "list_all is_ascii_alphanumeric s \<Longrightarrow> \<not> has_control s"
  by (induction s rule: has_control.induct) (auto dest!: alphanumeric_code)

lemma alphanumeric_graphic: "is_ascii_alphanumeric c \<Longrightarrow> ascii_graphic c"
  using alphanumeric_code [of c] by (simp add: ascii_graphic_def)

lemma resolved_key_valid:
  assumes "resolve_endpoint_auth draw address supplied required = Inr (Some key)" "\<forall>i. is_ascii_alphanumeric (draw i)"
  shows "trim key = key \<and> key \<noteq> [] \<and> \<not> has_control key"
proof (cases supplied)
  case (Some raw)
  with assms(1) show ?thesis
    by (auto simp: resolve_endpoint_auth_def endpoint_api_key_has_forbidden_chars_def trim_idem Let_def split: if_splits)
next
  case None
  with assms(1) have key: "key = map draw [0..<48]"
    by (auto simp: resolve_endpoint_auth_def generate_endpoint_api_key_def ENDPOINT_API_KEY_LEN_def simp del: upt_rec_numeral split: if_splits)
  have "list_all is_ascii_alphanumeric key" using assms(2) unfolding key by (simp add: list_all_iff del: upt_rec_numeral)
  then show ?thesis using alphanumeric_no_control [of key] trim_graphic [of key] alphanumeric_graphic key
    by (auto simp: list_all_iff simp del: upt_rec_numeral)
qed

lemma stored_key_read_back:
  "trim key = key \<and> key \<noteq> [] \<and> \<not> has_control key \<Longrightarrow> wo_keys w sid = Some (Some key) \<Longrightarrow>
     endpoint_api_key_from_file (wo_keys w) sid = Some key"
  by (simp add: endpoint_api_key_from_file_def endpoint_api_key_has_forbidden_chars_def)

lemma serve_policy_auth:
  assumes "serve_policy draw on_windows address request allow api_key env_key required engine = Inr auth"
  shows "(\<exists>supplied. resolve_endpoint_auth draw address supplied required = Inr auth) \<and>
    (is_public_bind_host address \<longrightarrow> allow \<and> auth \<noteq> None) \<and> (required \<longrightarrow> auth \<noteq> None) \<and>
    (auth \<noteq> None \<longrightarrow> is_public_bind_host address \<or> required) \<and>
    (request = Auto \<longrightarrow> is_canonical_loopback_host address) \<and>
    (auth \<noteq> None \<and> on_windows \<longrightarrow> engine \<noteq> ''lemonade'')"
proof -
  let ?supplied = "case api_key of Some k \<Rightarrow> Some k
    | None \<Rightarrow> (case env_key of Some k \<Rightarrow> if trim k \<noteq> [] then Some k else None | None \<Rightarrow> None)"
  have a: "resolve_endpoint_auth draw address ?supplied required = Inr auth"
    and v: "\<not> (is_public_bind_host address \<and> \<not> allow)" "\<not> (request = Auto \<and> \<not> is_canonical_loopback_host address)"
    and e: "\<not> (auth \<noteq> None \<and> on_windows \<and> engine = ''lemonade'')"
    using assms
    by (auto simp: serve_policy_def validate_bind_host_def validate_port_request_def is_auto_def is_loopback_host_def Let_def
      ensure_public_bind_engine_supported_def simp del: not_None_eq split: sum.splits if_splits)
  have "auth = None \<longleftrightarrow> \<not> is_public_bind_host address \<and> \<not> required"
    using a by (auto simp: resolve_endpoint_auth_def is_loopback_host_def Let_def split: if_splits option.splits)
  with a v e show ?thesis by blast
qed

lemma settle_exited_frame [simp]:
  "wo_spawned (settle_exited_service env ok sid w) = wo_spawned w"
  "wo_keys (settle_exited_service env ok sid w) = wo_keys w"
  by (simp_all add: settle_exited_service_def Let_def split: option.split)

lemma died_frame:
  "died_during_wait env ok sid waiting rd alive w = (b, w') \<Longrightarrow> wo_spawned w' = wo_spawned w \<and> wo_keys w' = wo_keys w"
  by (auto simp: died_during_wait_def split: if_splits)

lemma outcome_frame:
  "record_wait_outcome env ok now held st v w = (b, r, w') \<Longrightarrow> wo_spawned w' = wo_spawned w \<and> wo_keys w' = wo_keys w"
  by (auto simp: record_wait_outcome_def write_service_form Let_def split: if_splits option.splits)

lemma wait_frame:
  "wait_for_record_ready env we sid waiting w = Some (rd, w') \<Longrightarrow> wo_spawned w' = wo_spawned w"
  by (auto simp: wait_for_record_ready_def split: if_splits)

lemma wait_existing_frame:
  "wait_on_existing_service env we report waiting w = Some (res, w') \<Longrightarrow> wo_spawned w' = wo_spawned w"
  by (auto simp: wait_on_existing_service_def split: if_splits option.splits prod.splits bool.splits
    dest!: died_frame outcome_frame wait_frame)

lemma start_frame:
  assumes "start_managed_service env we terminate s q staged waiting w = Some (res, s', w')"
  shows "\<exists>spawned s1 w1. spawn_managed_engine_child env terminate s q w = (spawned, s1, w1) \<and> wo_spawned w' = wo_spawned w1"
proof -
  obtain spawned s1 w1 where spawn: "spawn_managed_engine_child env terminate s q w = (spawned, s1, w1)" by (metis prod_cases3)
  have "wo_spawned w' = wo_spawned w1"
  proof (cases spawned)
    case (Inl e)
    with assms spawn show ?thesis
      by (auto simp: start_managed_service_def drop_orphaned_endpoint_key_on_already_running_def)
  next
    case (Inr m)
    show ?thesis
    proof (cases m)
      case (AlreadyRunning report)
      with assms spawn Inr show ?thesis
        by (auto simp: start_managed_service_def dest!: wait_existing_frame)
    next
      case (SpawnedChild r p)
      with assms spawn Inr obtain rd w2 where rd: "wait_for_record_ready env we (lq_service_id q) waiting w1 = Some (rd, w2)"
        by (auto simp: start_managed_service_def split: option.splits)
      obtain b w3 where d: "died_during_wait env (we_settle_write we) (lq_service_id q) waiting rd (we_last_alive we) w2 = (b, w3)"
        by fastforce
      obtain c r2 w4 where o: "record_wait_outcome env (we_outcome_write we) (we_now we) r (status_for_readiness rd)
          (rd = Serving) w3 = (c, r2, w4)" by (metis prod_cases3)
      have "wo_spawned w' = wo_spawned w3 \<or> wo_spawned w' = wo_spawned w4"
        using assms spawn Inr SpawnedChild rd d o
        by (cases b; cases c) (auto simp: start_managed_service_def)
      with wait_frame [OF rd] died_frame [OF d] outcome_frame [OF o] show ?thesis by auto
    qed
  qed
  with spawn show ?thesis by blast
qed

lemma spawned_with_key:
  assumes run: "spawn_managed_engine_child env terminate s q w = (res, s', w')"
    and unknown: "unknown_id (le_host env) (manifest_of env q) (lq_service_id q) (wo_registry w)"
  shows "\<exists>cs. wo_spawned w' = wo_spawned w @ cs \<and> length cs \<le> 1 \<and>
    list_all (\<lambda>c. sp_service_id c = lq_service_id q \<and> \<not> sp_port_held c \<and>
      sp_key c = endpoint_api_key_from_file (wo_keys w) (lq_service_id q)) cs"
proof -
  obtain live w1 where live: "live_managed_services (le_ready env) w = (live, w1)" by fastforce
  have key: "wo_keys w1 (lq_service_id q) = wo_keys w (lq_service_id q)" and sp: "wo_spawned w1 = wo_spawned w"
    using live_services_unknown [OF live] unknown live_services_frame(1) [OF live] by (simp_all add: le_host_def)
  have same: "endpoint_api_key_from_file (wo_keys w1) (lq_service_id q) = endpoint_api_key_from_file (wo_keys w) (lq_service_id q)"
    by (simp add: endpoint_api_key_from_file_def key)
  have step: "wo_spawned w2 = wo_spawned w \<or> wo_spawned w2 = wo_spawned w @ [new_child q rj r (snd (write_service env True r w1))]"
    if "launch_managed_engine_child_locked env q rj lease r (snd (write_service env True r w1)) = (res2, r2, w2)" for rj lease r res2 r2 w2
    using that by (cases rule: launch_child_cases) (auto simp: settled_def sp)
  have child: "sp_service_id (new_child q rj r (snd (write_service env True r w1))) = lq_service_id q \<and>
      \<not> sp_port_held (new_child q rj r (snd (write_service env True r w1))) \<and>
      sp_key (new_child q rj r (snd (write_service env True r w1))) = endpoint_api_key_from_file (wo_keys w) (lq_service_id q)" for rj r
    by (simp add: new_child_def same)
  have one: ?thesis if "wo_spawned w' = wo_spawned w \<or> wo_spawned w' = wo_spawned w @ [new_child q rj r (snd (write_service env True r w1))]" for rj r
    using that child [of rj r] by (elim disjE) (intro exI [of _ "[]"], simp, intro exI [of _ "[new_child q rj r (snd (write_service env True r w1))]"], simp)
  show ?thesis using run live
  proof (cases rule: spawn_cases)
    case early
    then show ?thesis by (intro exI [of _ "[]"]) simp
  next
    case refused
    then show ?thesis using sp by (intro exI [of _ "[]"]) simp
  next
    case (existing rj x)
    then have "wo_spawned w' = wo_spawned w1" by (auto simp: reuse_existing_def split: option.splits if_splits)
    then show ?thesis using sp by (intro exI [of _ "[]"]) simp
  next
    case (launched rj lease r p)
    then show ?thesis using step [OF launched(5)] one by blast
  next
    case (abandoned rj lease r e w2)
    then show ?thesis using step [OF abandoned(5)] abandon_frame [OF abandoned(7)] one by simp
  qed
qed

text \<open>C22. From the flags to the child: the command stages a key exactly for a public bind or when
  one is required, refuses a public bind that was not allowed, and the child it starts, at most
  one, is given exactly the staged key, read back from its file; a service on a loopback address
  without the requirement gets none.\<close>

theorem endpoint_guarded:
  assumes policy: "serve_policy draw on_windows (lq_host q) (lq_port q) allow api_key env_key (lq_require_api_key q) (lq_engine q) = Inr auth"
    and draws: "\<forall>i. is_ascii_alphanumeric (draw i)"
    and run: "serve_background env we storing helper_ok terminate s q auth waiting w = Some (res, s', w')"
    and unknown: "unknown_id (le_host env) (manifest_of env q) (lq_service_id q) (wo_registry w)"
    and fresh: "wo_keys w (lq_service_id q) = None"
  shows "(auth = None \<longleftrightarrow> \<not> is_public_bind_host (lq_host q) \<and> \<not> lq_require_api_key q) \<and>
    (is_public_bind_host (lq_host q) \<longrightarrow> allow) \<and>
    (\<exists>cs. wo_spawned w' = wo_spawned w @ cs \<and> length cs \<le> 1 \<and>
      list_all (\<lambda>c. sp_service_id c = lq_service_id q \<and> \<not> sp_port_held c \<and> sp_key c = auth) cs)"
proof -
  define staged where "staged = (case auth of None \<Rightarrow> w | Some key \<Rightarrow> store_endpoint_api_key (lq_service_id q) key w)"
  have reg: "wo_registry staged = wo_registry w" "wo_spawned staged = wo_spawned w"
    by (simp_all add: staged_def store_endpoint_api_key_def split: option.split)
  note pol = serve_policy_auth [OF policy]
  have key: "endpoint_api_key_from_file (wo_keys staged) (lq_service_id q) = auth"
  proof (cases auth)
    case None
    with fresh show ?thesis by (simp add: staged_def endpoint_api_key_from_file_def)
  next
    case (Some k)
    with pol obtain supplied where auth: "resolve_endpoint_auth draw (lq_host q) supplied (lq_require_api_key q) = Inr (Some k)" by blast
    have "wo_keys staged (lq_service_id q) = Some (Some k)" by (simp add: Some staged_def store_endpoint_api_key_def)
    from stored_key_read_back [OF resolved_key_valid [OF auth draws] this] Some show ?thesis
      by simp
  qed
  have "\<exists>cs. wo_spawned w' = wo_spawned w @ cs \<and> length cs \<le> 1 \<and>
      list_all (\<lambda>c. sp_service_id c = lq_service_id q \<and> \<not> sp_port_held c \<and> sp_key c = auth) cs"
  proof (cases "\<exists>res2 w2. start_managed_service env we terminate s q auth waiting staged = Some (res2, s', w2) \<and> wo_spawned w' = wo_spawned w2")
    case True
    then obtain res2 w2 where start: "start_managed_service env we terminate s q auth waiting staged = Some (res2, s', w2)"
      and w2: "wo_spawned w' = wo_spawned w2" by blast
    from start_frame [OF start] obtain spawned s1 w1 where spawn: "spawn_managed_engine_child env terminate s q staged = (spawned, s1, w1)"
      and w1: "wo_spawned w2 = wo_spawned w1" by blast
    have "unknown_id (le_host env) (manifest_of env q) (lq_service_id q) (wo_registry staged)" using unknown reg by simp
    from spawned_with_key [OF spawn this] show ?thesis unfolding key w2 w1 reg .
  next
    case False
    with run have "wo_spawned w' = wo_spawned w"
      by (auto simp: serve_background_def staged_def drop_orphaned_endpoint_key_on_already_running_def split: option.splits sum.splits prod.splits if_splits)
    then show ?thesis by (intro exI [of _ "[]"]) simp
  qed
  with pol show ?thesis by blast
qed
section \<open>Ports stay disjoint\<close>

definition ports_disjoint :: "registry \<Rightarrow> bool" where
  "ports_disjoint reg \<longleftrightarrow> (\<forall>p1 r1 p2 r2. (p1, Stored r1) \<in> set reg \<and> (p2, Stored r2) \<in> set reg \<and> p1 \<noteq> p2 \<and>
     is_live r1 \<and> is_live r2 \<and> sr_port r1 = sr_port r2 \<longrightarrow> \<not> hosts_overlap (sr_host r1) (sr_host r2))"

lemma ports_disjoint_claims:
  assumes "claims_from host reg reg'" "ports_disjoint reg"
  shows "ports_disjoint reg'"
  unfolding ports_disjoint_def
proof (intro allI impI)
  fix p1 r1 p2 r2
  assume a: "(p1, Stored r1) \<in> set reg' \<and> (p2, Stored r2) \<in> set reg' \<and> p1 \<noteq> p2 \<and> is_live r1 \<and> is_live r2 \<and>
    sr_port r1 = sr_port r2"
  with assms(1) obtain x1 x2 where "(p1, Stored x1) \<in> set reg" "same_claim host x1 r1" "(p2, Stored x2) \<in> set reg" "same_claim host x2 r2"
    unfolding claims_from_def by blast
  with a assms(2) show "\<not> hosts_overlap (sr_host r1) (sr_host r2)"
    unfolding ports_disjoint_def same_claim_def by metis
qed

lemma ports_disjoint_subset: "set reg' \<subseteq> set reg \<Longrightarrow> ports_disjoint reg \<Longrightarrow> ports_disjoint reg'"
  unfolding ports_disjoint_def by blast

lemma ports_disjoint_put:
  assumes "ports_disjoint reg" "distinct (map fst reg)"
    and "\<And>p x. is_live r \<Longrightarrow> (p, Stored x) \<in> set reg \<Longrightarrow> p \<noteq> q \<Longrightarrow> is_live x \<Longrightarrow> sr_port x = sr_port r \<Longrightarrow>
      \<not> hosts_overlap (sr_host x) (sr_host r)"
  shows "ports_disjoint (put q (Stored r) reg)"
  unfolding ports_disjoint_def put_entry [OF assms(2)]
proof (intro allI impI)
  fix p1 r1 p2 r2
  assume a: "((p1, Stored r1) = (q, Stored r) \<or> (p1, Stored r1) \<in> set reg \<and> fst (p1, Stored r1) \<noteq> q) \<and>
    ((p2, Stored r2) = (q, Stored r) \<or> (p2, Stored r2) \<in> set reg \<and> fst (p2, Stored r2) \<noteq> q) \<and>
    p1 \<noteq> p2 \<and> is_live r1 \<and> is_live r2 \<and> sr_port r1 = sr_port r2"
  show "\<not> hosts_overlap (sr_host r1) (sr_host r2)"
  proof (cases "p1 = q")
    case True
    with a have "r1 = r" "(p2, Stored r2) \<in> set reg" "p2 \<noteq> q" by auto
    with a assms(3) [of p2 r2] show ?thesis by (metis hosts_overlap_sym)
  next
    case False
    with a have r1: "(p1, Stored r1) \<in> set reg" by auto
    show ?thesis
    proof (cases "p2 = q")
      case True
      with a have "r2 = r" by auto
      with a assms(3) [OF _ r1 False] show ?thesis by metis
    next
      case False
      with a r1 assms(1) show ?thesis unfolding ports_disjoint_def by auto
    qed
  qed
qed

text \<open>What the transaction keeps, and the same with the new claim in it.\<close>

definition orderly :: "runtime_platform \<Rightarrow> registry \<Rightarrow> bool" where
  "orderly host reg \<longleftrightarrow> well_placed host reg \<and> ports_disjoint reg"

definition room_for :: "service \<Rightarrow> string \<Rightarrow> registry \<Rightarrow> bool" where
  "room_for r q reg \<longleftrightarrow> (\<forall>p x. (p, Stored x) \<in> set reg \<and> p \<noteq> q \<and> is_live x \<and> sr_port x = sr_port r \<longrightarrow>
     \<not> hosts_overlap (sr_host x) (sr_host r))"

lemma orderly_store:
  assumes "orderly host reg" "is_live r \<longrightarrow> room_for r (fst (stored_form host r)) reg"
  shows "orderly host (put (fst (stored_form host r)) (snd (stored_form host r)) reg)"
proof -
  have "distinct (map fst reg)" using assms(1) by (simp add: orderly_def well_placed_def)
  with assms show ?thesis unfolding orderly_def
    by (intro conjI well_placed_put, simp) (unfold stored_form_on_disk, rule ports_disjoint_put,
      auto simp: room_for_def is_live_def)
qed

lemma room_for_put:
  assumes "distinct (map fst reg)" "room_for r q reg"
  shows "room_for r q (put q m reg)"
  using assms by (auto simp: room_for_def put_entry)

lemma orderly_filter: "orderly host reg \<Longrightarrow> orderly host (filter P reg)"
  by (auto simp: orderly_def well_placed_def ports_disjoint_def list_ex_iff distinct_map_filter)

lemma abandon_orderly:
  assumes "(s', w') = abandon_failed_managed_launch env terminate s r w" "orderly (le_host env) (wo_registry w)"
  shows "orderly (le_host env) (wo_registry w')"
proof -
  have "\<not> is_live (mark_launch_abandoned r)" by (simp add: mark_launch_abandoned_def is_live_def)
  with assms orderly_store [OF assms(2), of "mark_launch_abandoned r"] show ?thesis
    by (auto simp: abandon_failed_managed_launch_def Let_def write_service_form remove_manifest_def audit_def orderly_filter
      split: option.splits if_splits prod.splits)
qed

lemma live_services_claims:
  assumes "live_managed_services env w = (live, w1)" "well_placed (re_host env) (wo_registry w)" "\<And>x. re_write_ok env x"
  shows "well_placed (re_host env) (wo_registry w1) \<and> claims_from (re_host env) (wo_registry w) (wo_registry w1) \<and>
    (\<forall>p x. (p, Stored x) \<in> set (wo_registry w1) \<and> is_live x \<longrightarrow>
      (\<exists>r \<in> set live. sr_port r = sr_port x \<and> sr_host r = sr_host x))"
proof -
  obtain res where l: "load_services env w = (res, w1)" and live: "live = filter is_live (case res of Inr rs \<Rightarrow> rs | Inl _ \<Rightarrow> [])"
    using assms(1) by (auto simp: live_managed_services_def split: prod.splits)
  from load_services_claims [OF l assms(2,3)] live show ?thesis by fastforce
qed

lemma running_record_path: "fst (stored_form host (running_record env p r)) = fst (stored_form host r)"
  by (simp add: stored_form_def normalize_paths_for_host_def running_record_def record_supervisor_identity_def
    record_engine_identity_def)

lemma launch_child_orderly:
  assumes run: "launch_managed_engine_child_locked env q rj lease r w = (res, r', w')"
    and alone: "le_settle env = (\<lambda>x. x)"
    and o: "orderly (le_host env) (wo_registry w)" and room: "room_for r (fst (stored_form (le_host env) r)) (wo_registry w)"
  shows "orderly (le_host env) (wo_registry w')"
proof -
  have s: "wo_registry (settled env q rj r w) = wo_registry w" by (simp add: settled_def meanwhile_def alone)
  show ?thesis using run
  proof (cases rule: launch_child_cases)
    case unstarted
    then show ?thesis using o by auto
  next
    case (running p)
    have "room_for (running_record env p r) (fst (stored_form (le_host env) (running_record env p r))) (wo_registry w)"
      using room by (simp add: room_for_def running_record_path)
    with orderly_store [OF o, of "running_record env p r"] running s show ?thesis by (simp add: write_service_form)
  qed (use s o in simp_all)
qed


section \<open>The wait\<close>

definition goes_on :: "launch_env \<Rightarrow> wait_env \<Rightarrow> string \<Rightarrow> world \<Rightarrow> nat \<Rightarrow> bool" where
  "goes_on env we sid w k \<longleftrightarrow>
     we_probe we k \<noteq> Serving \<and> service_still_live env sid (we_alive we k) (meanwhile (we_world we k) w)"

lemma wait_past_Some:
  assumes "wait_past_readiness_budget probe live k = Some result"
  shows "k \<le> snd result \<and> fst result = probe (snd result) \<and> \<not> (probe (snd result) \<noteq> Serving \<and> live (snd result)) \<and>
    (\<forall>j. k \<le> j \<and> j < snd result \<longrightarrow> probe j \<noteq> Serving \<and> live j)"
  using assms
proof (rule wait_past_readiness_budget.raw_induct [rotated])
  fix rec probe live k and result :: "endpoint_readiness \<times> nat"
  assume IH: "\<And>probe live k result. rec probe live k = Some result \<Longrightarrow>
      k \<le> snd result \<and> fst result = probe (snd result) \<and> \<not> (probe (snd result) \<noteq> Serving \<and> live (snd result)) \<and>
      (\<forall>j. k \<le> j \<and> j < snd result \<longrightarrow> probe j \<noteq> Serving \<and> live j)"
    and run: "(if probe k = Serving \<or> \<not> live k then Some (probe k, k) else rec probe live (Suc k)) = Some result"
  show "k \<le> snd result \<and> fst result = probe (snd result) \<and> \<not> (probe (snd result) \<noteq> Serving \<and> live (snd result)) \<and>
      (\<forall>j. k \<le> j \<and> j < snd result \<longrightarrow> probe j \<noteq> Serving \<and> live j)"
  proof (cases "probe k = Serving \<or> \<not> live k")
    case True
    with run show ?thesis by auto
  next
    case False
    with run have "rec probe live (Suc k) = Some result" by simp
    note later = IH [OF this]
    have "probe j \<noteq> Serving \<and> live j" if "k \<le> j" "j < snd result" for j
      using later False that by (cases "j = k") auto
    with later show ?thesis by auto
  qed
qed

lemma wait_past_returns:
  "\<not> (probe m \<noteq> Serving \<and> live m) \<Longrightarrow> k \<le> m \<Longrightarrow> \<exists>result. wait_past_readiness_budget probe live k = Some result"
proof (induction "m - k" arbitrary: k)
  case 0
  then show ?case by (subst wait_past_readiness_budget.simps) auto
next
  case (Suc d)
  then have "\<exists>result. wait_past_readiness_budget probe live (Suc k) = Some result" by simp
  then show ?case by (subst wait_past_readiness_budget.simps) auto
qed

text \<open>C38. A waiting command waits for ever exactly if in every round the server does not serve but
  is still live; otherwise it ends with the first round in which one of the two fails, and with
  what the probe found there.\<close>

theorem wait_ends:
  "(wait_for_record_ready env we sid True w = None \<longleftrightarrow> (\<forall>k. goes_on env we sid w k)) \<and>
   (wait_for_record_ready env we sid True w = Some (rd, w') \<longrightarrow>
     (\<exists>k. \<not> goes_on env we sid w k \<and> (\<forall>j < k. goes_on env we sid w j) \<and> rd = we_probe we k \<and>
       w' = meanwhile (we_last_world we) (meanwhile (we_world we k) w)))"
proof -
  let ?live = "\<lambda>k. service_still_live env sid (we_alive we k) (meanwhile (we_world we k) w)"
  let ?run = "wait_past_readiness_budget (we_probe we) ?live 0"
  have none: "?run = None \<longleftrightarrow> (\<forall>k. goes_on env we sid w k)"
  proof
    assume "?run = None"
    then show "\<forall>k. goes_on env we sid w k"
      using wait_past_returns [of "we_probe we" _ ?live 0] unfolding goes_on_def by fastforce
  next
    assume all: "\<forall>k. goes_on env we sid w k"
    show "?run = None"
    proof (cases ?run)
      case (Some result)
      with wait_past_Some [OF Some] all show ?thesis unfolding goes_on_def by blast
    qed simp
  qed
  have some: "\<exists>k. \<not> goes_on env we sid w k \<and> (\<forall>j < k. goes_on env we sid w j) \<and> rd = we_probe we k \<and>
       w' = meanwhile (we_last_world we) (meanwhile (we_world we k) w)"
    if "wait_for_record_ready env we sid True w = Some (rd, w')"
  proof -
    from that obtain k where "?run = Some (rd, k)" and w': "w' = meanwhile (we_last_world we) (meanwhile (we_world we k) w)"
      by (auto simp: wait_for_record_ready_def)
    from wait_past_Some [OF this(1)] w' show ?thesis unfolding goes_on_def by auto
  qed
  have "wait_for_record_ready env we sid True w = None \<longleftrightarrow> (\<forall>k. goes_on env we sid w k)"
    unfolding none [symmetric] by (simp add: wait_for_record_ready_def)
  then show ?thesis by (intro conjI impI some)
qed

text \<open>The command says that a server died only if, by the record as it is now, it is not
  live or none of its recorded processes is alive. Then its record is settled: stopped, or the
  final state the engine reported. Otherwise nothing is written.\<close>

theorem wait_verdict_truthful:
  assumes "died_during_wait env ok sid waiting readiness alive w = (dead, w')"
  shows "(\<not> dead \<longrightarrow> w' = w) \<and>
    (dead \<longrightarrow> readiness \<noteq> Serving \<and>
      (\<forall>r. read_stored env sid w = Some r \<longrightarrow>
        \<not> is_live (from_engine env w r) \<or> (\<forall>p \<in> set (recorded_service_pids (from_engine env w r)). \<not> alive p)) \<and>
      (\<forall>r. read_stored env sid w = Some r \<and> ok \<and> own_path (le_host env) (le_paths env) r \<and> sr_service_id r = sid \<longrightarrow>
        (\<exists>r'. read_stored env sid w' = Some r' \<and> \<not> is_live r' \<and>
          sr_status r' = (if is_live (from_engine env w r) then ''stopped'' else sr_status (from_engine env w r)))))"
proof (cases dead)
  case False
  with assms show ?thesis by (auto simp: died_during_wait_def split: if_splits)
next
  case True
  with assms have w': "w' = settle_exited_service env ok sid w" and rd: "readiness \<noteq> Serving"
    and gone: "\<not> service_still_live env sid alive w"
    by (auto simp: died_during_wait_def split: if_splits)
  have settled: "\<exists>r'. read_stored env sid w' = Some r' \<and> \<not> is_live r' \<and>
      sr_status r' = (if is_live (from_engine env w r) then ''stopped'' else sr_status (from_engine env w r))"
    if r: "read_stored env sid w = Some r" and ok: "ok" "own_path (le_host env) (le_paths env) r" "sr_service_id r = sid" for r
  proof -
    let ?e = "from_engine env w r" and ?path = "service_manifest_path (le_host env) (le_paths env) sid"
    have "same_claim (le_host env) r ?e"
      using refresh_same_claim [of "le_host env" "wo_states w" r] by (simp add: from_engine_def) (metis prod.collapse)
    then have path: "fst (stored_form (le_host env) ?e) = ?path"
      using stored_at_own_path [OF ok(2)] ok(3) by (simp add: same_claim_def)
    have path2: "fst (stored_form (le_host env) (?e\<lparr>sr_status := ''stopped''\<rparr>)) = ?path" using path by (simp add: stored_path_marker)
    show ?thesis
    proof (cases "is_live ?e")
      case True
      then show ?thesis using r ok(1) path2
        by (simp add: w' settle_exited_service_def Let_def write_service_form read_stored_def map_of_put stored_form_on_disk)
          (simp add: is_live_def)
    next
      case False
      then show ?thesis using r ok(1) path live_status [of r ?e]
        by (auto simp: w' settle_exited_service_def Let_def write_service_form read_stored_def map_of_put stored_form_on_disk
          is_live_def)
    qed
  qed
  moreover have "\<not> is_live (from_engine env w r) \<or> (\<forall>p \<in> set (recorded_service_pids (from_engine env w r)). \<not> alive p)"
    if "read_stored env sid w = Some r" for r
    using gone that by (auto simp: service_still_live_def record_still_live_def list_ex_iff)
  ultimately show ?thesis using True rd by blast
qed
section \<open>A key left behind\<close>

lemma existing_spawn_keys:
  assumes "spawn_managed_engine_child env terminate s q w = (Inr (AlreadyRunning report), s1, w1)"
    and "unknown_id (le_host env) (manifest_of env q) (lq_service_id q) (wo_registry w)"
  shows "wo_keys w1 (lq_service_id q) = wo_keys w (lq_service_id q) \<and> wo_spawned w1 = wo_spawned w"
proof -
  obtain live w2 where live: "live_managed_services (le_ready env) w = (live, w2)" by fastforce
  have w2: "wo_keys w2 (lq_service_id q) = wo_keys w (lq_service_id q)" "wo_spawned w2 = wo_spawned w"
    using live_services_unknown [OF live] assms(2) live_services_frame(1) [OF live] by (simp_all add: le_host_def)
  show ?thesis using assms(1) live
  proof (cases rule: spawn_cases)
    case (existing rj x)
    then have "wo_keys w1 = wo_keys w2" "wo_spawned w1 = wo_spawned w2"
      by (auto simp: reuse_existing_def split: option.splits if_splits)
    with w2 show ?thesis by simp
  qed simp_all
qed

lemma quiet_wait_keys:
  assumes "we_world we = (\<lambda>k x. x)" "we_last_world we = (\<lambda>x. x)"
    and "wait_on_existing_service env we report waiting w = Some (res, w')"
  shows "wo_keys w' = wo_keys w"
proof -
  have m: "meanwhile (\<lambda>x. x) v = v" for v :: world by (simp add: meanwhile_def)
  have "wo_keys v = wo_keys w" if "wait_for_record_ready env we sid True w = Some (rd, v)" for sid rd v
    using that assms(1,2) by (auto simp: wait_for_record_ready_def m)
  then show ?thesis using assms(3)
    by (auto simp: wait_on_existing_service_def split: if_splits option.splits prod.splits bool.splits
      dest!: died_frame outcome_frame)
qed

text \<open>\<^verbatim>\<open>rocm serve --wait\<close> attached to a server that is still starting: when that server dies, the
  command fails and the key staged for the launch that did not happen stays in its file, although
  no service has its id.\<close>

theorem waiting_serve_orphans_key:
  assumes "spawn_managed_engine_child env terminate s q (store_endpoint_api_key (lq_service_id q) key w) =
      (Inr (AlreadyRunning report), s1, w1)"
    and "wait_on_existing_service env we report True w1 = Some (Inl e, w2)"
    and "we_world we = (\<lambda>k x. x)" "we_last_world we = (\<lambda>x. x)"
    and "unknown_id (le_host env) (manifest_of env q) (lq_service_id q) (wo_registry w)"
  shows "serve_background env we (Inr ()) helper_ok terminate s q (Some key) True w = Some (Inl e, s1, w2) \<and>
    wo_keys w2 (lq_service_id q) = Some (Some key) \<and> wo_spawned w2 = wo_spawned w"
proof -
  have "unknown_id (le_host env) (manifest_of env q) (lq_service_id q) (wo_registry (store_endpoint_api_key (lq_service_id q) key w))"
    using assms(5) by (simp add: store_endpoint_api_key_def)
  from existing_spawn_keys [OF assms(1) this]
  have "wo_keys w1 (lq_service_id q) = Some (Some key)" "wo_spawned w1 = wo_spawned w"
    by (simp_all add: store_endpoint_api_key_def)
  with quiet_wait_keys [OF assms(3,4,2)] wait_existing_frame [OF assms(2)] assms(1,2) show ?thesis
    by (simp add: serve_background_def start_managed_service_def)
qed

section \<open>Instances\<close>

definition ex_launch :: "string \<Rightarrow> port_request \<Rightarrow> launch_request" where
  "ex_launch address port =
     \<lparr>lq_engine = ''vllm'', lq_service_id = ''new'', lq_requested_model = ''m'', lq_canonical_model_id = ''M'',
      lq_served_model_id = None, lq_host = address, lq_port = port, lq_device_policy = GpuRequired, lq_gpu_indices = [0],
      lq_runtime_id = Some ''rt'', lq_env_id = None, lq_recipe = Some None, lq_require_api_key = False,
      lq_gpu_refusal_waived = False\<rparr>"

definition ex_launch_env :: "wait_result \<Rightarrow> launch_env" where
  "ex_launch_env outcome =
     \<lparr>le_ready = ex_readiness, le_paths = ex_paths, le_linux = True, le_now = 9, le_ipv6 = (\<lambda>_. False), le_dirs_ok = True,
      le_bind = (\<lambda>_. None), le_first_write = True, le_state_dir_ok = True, le_log_ok = True, le_launcher_ok = True,
      le_env_root_ok = True, le_stdio_ok = True, le_spawn = Some 77, le_ticks = (\<lambda>_. None), le_settle = (\<lambda>x. x),
      le_wait = outcome, le_last_write = True, le_abandon_write = True, le_unlink = (\<lambda>_. True), le_key_unlink = True\<rparr>"

definition ex_world :: "key_files \<Rightarrow> world" where
  "ex_world keys = \<lparr>wo_registry = [], wo_keys = keys, wo_logs = {}, wo_states = (\<lambda>_. NotAFile), wo_audit = [], wo_spawned = []\<rparr>"

lemma ex_launch_fields [simp]:
  "lq_engine (ex_launch a p) = ''vllm''" "lq_service_id (ex_launch a p) = ''new''" "lq_canonical_model_id (ex_launch a p) = ''M''"
  "lq_host (ex_launch a p) = a" "lq_port (ex_launch a p) = p" "lq_env_id (ex_launch a p) = None"
  "lq_recipe (ex_launch a p) = Some None" "\<not> lq_require_api_key (ex_launch a p)" "\<not> lq_gpu_refusal_waived (ex_launch a p)"
  by (simp_all add: ex_launch_def)

lemma ex_launch_env_fields [simp]:
  "le_ready (ex_launch_env x) = ex_readiness" "le_paths (ex_launch_env x) = ex_paths" "le_linux (ex_launch_env x)"
  "le_dirs_ok (ex_launch_env x)" "le_bind (ex_launch_env x) = (\<lambda>_. None)" "le_first_write (ex_launch_env x)"
  "le_state_dir_ok (ex_launch_env x)" "le_log_ok (ex_launch_env x)" "le_launcher_ok (ex_launch_env x)"
  "le_env_root_ok (ex_launch_env x)" "le_stdio_ok (ex_launch_env x)" "le_spawn (ex_launch_env x) = Some 77"
  "le_ticks (ex_launch_env x) = (\<lambda>_. None)" "le_settle (ex_launch_env x) = (\<lambda>x. x)" "le_wait (ex_launch_env x) = x"
  "le_last_write (ex_launch_env x)" "le_host (ex_launch_env x) = Linux" "cleanup_works (ex_launch_env x)"
  by (simp_all add: ex_launch_env_def le_host_def ex_readiness_def cleanup_works_def)

lemma ex_live: "live_managed_services ex_readiness (ex_world keys) = ([], ex_world keys)"
  by (auto simp: live_managed_services_def load_services_def load_managed_services_refreshed_def ex_world_def
      restrict_map_def fun_eq_iff domIff)

lemma ex_auto_port:
  "resolve_serve_port False ''127.0.0.1'' Auto [] (\<lambda>_. None) = Inr \<lparr>lease_port = 11435, lease_held = True\<rparr>"
  by (simp add: resolve_canonical_auto canonical_default auto_candidates_form upt_rec lease_loopback_port_def)

lemma ex_spawn:
  assumes "resolve_serve_port False a p [] (\<lambda>_. None) = Inr lease"
    and "is_public_bind_host a \<longrightarrow> endpoint_api_key_from_file keys ''new'' \<noteq> None"
  shows "\<exists>r w'. spawn_managed_engine_child (ex_launch_env StillRunning) terminate s (ex_launch a p) (ex_world keys) =
     (Inr (SpawnedChild r 77), s, w') \<and> sr_port r = lease_port lease \<and> wo_spawned w' \<noteq> []"
  using assms unfolding spawn_managed_engine_child_def resolve_managed_port_in_transaction_def
  by (simp add: ex_live existing_live_managed_service_in_def reserved_service_ports_def write_service_form
      launch_managed_engine_child_locked_def Let_def release_lease_def ensure_public_service_has_endpoint_key_def meanwhile_def
      key_present del: not_None_eq)
    (auto simp: endpoint_key_file_if_present_def endpoint_api_key_from_file_def ex_world_def record_supervisor_identity_def record_engine_identity_def)


lemma ex_unknown: "unknown_id h path sid (wo_registry (ex_world keys))"
  by (simp add: unknown_id_def ex_world_def)

lemma ex_own: "own_path (le_host (ex_launch_env x)) (le_paths (ex_launch_env x)) (claim_record (ex_launch_env x) (ex_launch a p) None 0)"
  by (simp add: own_path_def claim_record_def service_new_def normalize_paths_for_host_def
    normalize_runtime_path_for_host_def normalize_runtime_path_text_for_platform_def is_windows_def
    service_manifest_path_def services_dir_def path_join_def ex_paths_def main_separator_def service_id_new_def
    str_contains.simps trim_graphic ascii_graphic_def)

definition ex_wait :: wait_env where
  "ex_wait = \<lparr>we_probe = (\<lambda>k. if k < 2 then Listing else Serving), we_alive = (\<lambda>_ _. True), we_world = (\<lambda>_ x. x),
     we_last_alive = (\<lambda>_. True), we_last_world = (\<lambda>x. x), we_settle_write = True, we_outcome_write = True, we_now = 12\<rparr>"

lemma ex_failed:
  "\<exists>w'. start_managed_service (ex_launch_env Exited) ex_wait (terminate_launch_child ex_os) 0 (ex_launch ''127.0.0.1'' Auto)
     None False (ex_world (\<lambda>_. None)) = Some (Inl ChildExited, 0, w') \<and> wo_spawned w' \<noteq> []"
  unfolding start_managed_service_def spawn_managed_engine_child_def resolve_managed_port_in_transaction_def
  by (simp add: ex_live existing_live_managed_service_in_def reserved_service_ports_def write_service_form ex_auto_port
      launch_managed_engine_child_locked_def Let_def release_lease_def ensure_public_service_has_endpoint_key_def meanwhile_def
      is_public_bind_host_def endpoint_key_file_if_present_def)
    (simp add: ex_world_def record_engine_identity_def abandon_failed_managed_launch_def write_service_form
      drop_orphaned_endpoint_key_on_already_running_def Let_def audit_def clear_endpoint_api_key_def)

lemma ex_public_policy:
  "serve_policy (\<lambda>_. CHR ''a'') False ''0.0.0.0'' (Explicit 8000) True (Some '' k'') None False ''vllm'' = Inr (Some ''k'')"
proof -
  have "trim '' k'' = ''k''" by (simp add: trim_def trim_end_def ws1_def)
  then show ?thesis
    by (simp add: serve_policy_def validate_bind_host_def is_loopback_host_def is_public_bind_host_def validate_port_request_def
      is_auto_def resolve_endpoint_auth_def endpoint_api_key_has_forbidden_chars_def ensure_public_bind_engine_supported_def)
qed

lemma ex_public_port: "resolve_serve_port False ''0.0.0.0'' (Explicit 8000) [] (\<lambda>_. None) = Inr (engine_owned 8000)"
  by (simp add: resolve_explicit is_canonical_loopback_host_def DEFAULT_LOCAL_HOST_def trim_graphic ascii_graphic_def)

lemma ex_background:
  "\<exists>res w'. serve_background (ex_launch_env StillRunning) ex_wait (Inr ()) True (terminate_launch_child ex_os) 0
     (ex_launch ''0.0.0.0'' (Explicit 8000)) (Some ''k'') False (ex_world (\<lambda>_. None)) = Some (res, 0, w') \<and> wo_spawned w' \<noteq> []"
proof -
  let ?keys = "(\<lambda>_. None)(''new'' \<mapsto> Some ''k'')"
  have staged: "store_endpoint_api_key ''new'' ''k'' (ex_world (\<lambda>_. None)) = ex_world ?keys"
    by (simp add: store_endpoint_api_key_def ex_world_def)
  have "endpoint_api_key_from_file ?keys ''new'' = Some ''k''"
    by (simp add: endpoint_api_key_from_file_def endpoint_api_key_has_forbidden_chars_def trim_graphic ascii_graphic_def)
  then obtain r w1 where spawn: "spawn_managed_engine_child (ex_launch_env StillRunning) (terminate_launch_child ex_os) 0
      (ex_launch ''0.0.0.0'' (Explicit 8000)) (ex_world ?keys) = (Inr (SpawnedChild r 77), 0, w1)" "wo_spawned w1 \<noteq> []"
    using ex_spawn [OF ex_public_port, of ?keys "terminate_launch_child ex_os" 0] by auto
  obtain c r2 w2 where o: "record_wait_outcome (ex_launch_env StillRunning) True 12 r ''running'' False w1 = (c, r2, w2)"
    by (metis prod_cases3)
  from outcome_frame [OF o] spawn(2) have "wo_spawned w2 \<noteq> []" by simp
  with o spawn(1) show ?thesis
    by (cases c) (simp_all add: serve_background_def start_managed_service_def staged wait_for_record_ready_def
      died_during_wait_def ex_wait_def meanwhile_def drop_orphaned_endpoint_key_on_already_running_def)
qed

theorem endpoint_guarded_witness:
  "\<exists>res w' c. serve_background (ex_launch_env StillRunning) ex_wait (Inr ()) True (terminate_launch_child ex_os) 0
     (ex_launch ''0.0.0.0'' (Explicit 8000)) (Some ''k'') False (ex_world (\<lambda>_. None)) = Some (res, 0, w') \<and>
     wo_spawned w' = [c] \<and> sp_key c = Some ''k''"
proof -
  obtain res w' where run: "serve_background (ex_launch_env StillRunning) ex_wait (Inr ()) True (terminate_launch_child ex_os) 0
     (ex_launch ''0.0.0.0'' (Explicit 8000)) (Some ''k'') False (ex_world (\<lambda>_. None)) = Some (res, 0, w')" "wo_spawned w' \<noteq> []"
    using ex_background by blast
  have policy: "serve_policy (\<lambda>_. CHR ''a'') False (lq_host (ex_launch ''0.0.0.0'' (Explicit 8000)))
      (lq_port (ex_launch ''0.0.0.0'' (Explicit 8000))) True (Some '' k'') None
      (lq_require_api_key (ex_launch ''0.0.0.0'' (Explicit 8000))) (lq_engine (ex_launch ''0.0.0.0'' (Explicit 8000))) = Inr (Some ''k'')"
    using ex_public_policy by simp
  have "\<forall>i::nat. is_ascii_alphanumeric ((\<lambda>_. CHR ''a'') i)"
    by (simp add: is_ascii_alphanumeric_def is_ascii_lower_def)
  from endpoint_guarded [OF policy this run(1) ex_unknown] obtain cs where "wo_spawned w' = cs" "length cs \<le> 1"
    "list_all (\<lambda>c. sp_key c = Some ''k'') cs"
    by (auto simp: ex_world_def list_all_iff)
  with run show ?thesis by (cases cs) auto
qed

text \<open>A server that is found serving in the third round.\<close>

definition ex_served :: world where
  "ex_served = (ex_world (\<lambda>_. None))\<lparr>wo_registry := [(''/d/services/svc.json'', Stored ex_service)]\<rparr>"

lemma ex_served_live: "service_still_live (ex_launch_env StillRunning) ''svc'' (\<lambda>_. True) ex_served"
  by (simp add: service_still_live_def read_stored_def ex_served_def ex_world_def service_manifest_path_def services_dir_def
      path_join_def ex_paths_def main_separator_def is_windows_def from_engine_def refresh_from_engine_state_def Let_def
      record_still_live_def)
    (simp add: ex_service_def service_new_def is_live_def recorded_service_pids_def normalize_paths_for_host_def)

lemma ex_goes_on: "goes_on (ex_launch_env StillRunning) ex_wait ''svc'' ex_served k \<longleftrightarrow> k < 2"
  using ex_served_live by (simp add: goes_on_def ex_wait_def meanwhile_def)

theorem wait_ends_witness:
  "\<exists>rd w'. wait_for_record_ready (ex_launch_env StillRunning) ex_wait ''svc'' True ex_served = Some (rd, w') \<and> rd = Serving"
proof -
  have "wait_for_record_ready (ex_launch_env StillRunning) ex_wait ''svc'' True ex_served \<noteq> None"
    using wait_ends [of "ex_launch_env StillRunning" ex_wait "''svc''" ex_served] ex_goes_on [of 2] by blast
  then obtain rd w' where run: "wait_for_record_ready (ex_launch_env StillRunning) ex_wait ''svc'' True ex_served = Some (rd, w')"
    by auto
  with wait_ends [of "ex_launch_env StillRunning" ex_wait "''svc''" ex_served rd w'] obtain k
    where "\<not> k < 2" "rd = we_probe ex_wait k" by (auto simp: ex_goes_on)
  with run show ?thesis by (simp add: ex_wait_def)
qed

lemma ex_died:
  "\<exists>w'. died_during_wait (ex_launch_env StillRunning) True ''svc'' True Listing (\<lambda>_. False) ex_served = (True, w')"
  by (simp add: died_during_wait_def service_still_live_def read_stored_def ex_served_def ex_world_def service_manifest_path_def
      services_dir_def path_join_def ex_paths_def main_separator_def is_windows_def from_engine_def refresh_from_engine_state_def Let_def
      record_still_live_def)
    (simp add: ex_service_def service_new_def is_live_def recorded_service_pids_def normalize_paths_for_host_def)

theorem wait_verdict_truthful_witness:
  "\<exists>w' r'. died_during_wait (ex_launch_env StillRunning) True ''svc'' True Listing (\<lambda>_. False) ex_served = (True, w') \<and>
     read_stored (ex_launch_env StillRunning) ''svc'' w' = Some r' \<and> \<not> is_live r'"
proof -
  obtain w' where run: "died_during_wait (ex_launch_env StillRunning) True ''svc'' True Listing (\<lambda>_. False) ex_served = (True, w')"
    using ex_died by blast
  have "read_stored (ex_launch_env StillRunning) ''svc'' ex_served = Some ex_service"
    by (simp add: read_stored_def ex_served_def ex_world_def service_manifest_path_def services_dir_def path_join_def
      ex_paths_def main_separator_def is_windows_def)
  moreover have "own_path (le_host (ex_launch_env StillRunning)) (le_paths (ex_launch_env StillRunning)) ex_service"
    "sr_service_id ex_service = ''svc''"
    by (simp_all add: own_path_def ex_running_eval service_id_new_def str_contains.simps trim_graphic ascii_graphic_def)
  ultimately show ?thesis using wait_verdict_truthful [OF run] run by blast
qed
end
