(* ===== verification/F64.thy ===== *)
theory F64
  imports Prelude "HOL-Library.Log_Nat"
begin

text \<open>
  What the Rust sources use of \<^verbatim>\<open>f64\<close>: binary floating point with a significand of 53 bits and
  rounding to the nearest value, ties to the even one. A value is the rational number it stands
  for and an operation is the exact one followed by a rounding, so \<^verbatim>\<open>mul_add\<close> rounds once where
  \<^verbatim>\<open>*\<close> and \<^verbatim>\<open>+\<close> round twice. The exponent is not bounded: every figure the modelled code forms
  from 64-bit integers lies between \<open>2\<^sup>-\<^sup>1\<^sup>0\<^sup>0\<close> and \<open>2\<^sup>2\<^sup>0\<^sup>0\<close> or is zero, so neither infinities nor
  subnormal numbers nor NaN arise. The lemmas are the ones the estimates rest on: rounding is
  monotone, exact on integers up to \<open>2\<^sup>5\<^sup>3\<close>, commutes with powers of two, and moves a figure by at
  most its \<open>2\<^sup>-\<^sup>5\<^sup>3\<close>-th part.
\<close>

type_synonym f64 = rat

section \<open>Rounding\<close>

text \<open>The exponent of a number other than zero: the whole part of its binary logarithm.\<close>

definition f64_exponent :: "rat \<Rightarrow> int" where
  "f64_exponent x =
     (if 1 \<le> \<bar>x\<bar> then bitlen \<lfloor>\<bar>x\<bar>\<rfloor> - 1 else - bitlen (\<lceil>1 / \<bar>x\<bar>\<rceil> - 1))"

definition round_half_even :: "rat \<Rightarrow> int" where
  "round_half_even q =
     (let f = \<lfloor>q\<rfloor>; d = q - of_int f
      in if d < 1 / 2 then f else if 1 / 2 < d then f + 1 else if even f then f else f + 1)"

definition ulp :: "rat \<Rightarrow> rat" where "ulp x = 2 powi (f64_exponent x - 52)"

definition rounded :: "rat \<Rightarrow> f64" where
  "rounded x = (if x = 0 then 0 else of_int (round_half_even (x / ulp x)) * ulp x)"

section \<open>Operations\<close>

definition fadd :: "f64 \<Rightarrow> f64 \<Rightarrow> f64" where "fadd x y = rounded (x + y)"
definition fsub :: "f64 \<Rightarrow> f64 \<Rightarrow> f64" where "fsub x y = rounded (x - y)"
definition fmul :: "f64 \<Rightarrow> f64 \<Rightarrow> f64" where "fmul x y = rounded (x * y)"
definition fdiv :: "f64 \<Rightarrow> f64 \<Rightarrow> f64" where "fdiv x y = rounded (x / y)"

text \<open>\<^verbatim>\<open>x.mul_add(y, z)\<close>, \<^verbatim>\<open>n as f64\<close>, \<^verbatim>\<open>x.round()\<close> (ties away from zero) and \<^verbatim>\<open>x as u64\<close>, which
  truncates and saturates.\<close>

definition mul_add :: "f64 \<Rightarrow> f64 \<Rightarrow> f64 \<Rightarrow> f64" where "mul_add x y z = rounded (x * y + z)"

definition f64_of_u64 :: "u64 \<Rightarrow> f64" where "f64_of_u64 n = rounded (of_nat (unat n))"

definition f64_round :: "f64 \<Rightarrow> int" where
  "f64_round x = (if 0 \<le> x then \<lfloor>x + 1 / 2\<rfloor> else - \<lfloor>1 / 2 - x\<rfloor>)"

definition u64_of_f64 :: "f64 \<Rightarrow> u64" where
  "u64_of_f64 x = (if x < 0 then 0 else if 2 ^ 64 \<le> x then - 1 else of_int \<lfloor>x\<rfloor>)"

section \<open>Exponents\<close>

lemma bitlen_floor:
  assumes "1 \<le> (a :: rat)"
  shows "2 powi (bitlen \<lfloor>a\<rfloor> - 1) \<le> a" "a < 2 powi bitlen \<lfloor>a\<rfloor>"
proof -
  have f: "1 \<le> \<lfloor>a\<rfloor>" using assms by simp
  then have b: "2 ^ nat (bitlen \<lfloor>a\<rfloor> - 1) \<le> \<lfloor>a\<rfloor>" "\<lfloor>a\<rfloor> < 2 ^ nat (bitlen \<lfloor>a\<rfloor>)"
    using bitlen_bounds [of "\<lfloor>a\<rfloor>"] by simp_all
  have l: "1 \<le> bitlen \<lfloor>a\<rfloor>" using f by (simp add: bitlen_alt_def)
  have "(2 :: rat) powi (bitlen \<lfloor>a\<rfloor> - 1) = of_int (2 ^ nat (bitlen \<lfloor>a\<rfloor> - 1))"
    using l by (simp add: power_int_nonneg_exp)
  also have "\<dots> \<le> of_int \<lfloor>a\<rfloor>" using b(1) by (simp only: of_int_le_iff)
  finally show "2 powi (bitlen \<lfloor>a\<rfloor> - 1) \<le> a" by (meson of_int_floor_le order_trans)
  have "of_int \<lfloor>a\<rfloor> + 1 \<le> (of_int (2 ^ nat (bitlen \<lfloor>a\<rfloor>)) :: rat)"
    using b(2) by (metis add.commute of_int_1 of_int_add of_int_le_iff zless_imp_add1_zle)
  moreover have "(2 :: rat) powi bitlen \<lfloor>a\<rfloor> = of_int (2 ^ nat (bitlen \<lfloor>a\<rfloor>))"
    using l by (simp add: power_int_nonneg_exp)
  ultimately show "a < 2 powi bitlen \<lfloor>a\<rfloor>" using floor_correct [of a] by linarith
qed

lemma bitlen_ceiling:
  assumes "1 < (a :: rat)"
  shows "2 powi (bitlen (\<lceil>a\<rceil> - 1) - 1) < a" "a \<le> 2 powi bitlen (\<lceil>a\<rceil> - 1)"
proof -
  have f: "1 \<le> \<lceil>a\<rceil> - 1" using assms by (simp add: le_ceiling_iff)
  then have b: "2 ^ nat (bitlen (\<lceil>a\<rceil> - 1) - 1) \<le> \<lceil>a\<rceil> - 1" "\<lceil>a\<rceil> - 1 < 2 ^ nat (bitlen (\<lceil>a\<rceil> - 1))"
    using bitlen_bounds [of "\<lceil>a\<rceil> - 1"] by simp_all
  have l: "1 \<le> bitlen (\<lceil>a\<rceil> - 1)" using f by (simp add: bitlen_alt_def)
  have "(2 :: rat) powi (bitlen (\<lceil>a\<rceil> - 1) - 1) = of_int (2 ^ nat (bitlen (\<lceil>a\<rceil> - 1) - 1))"
    using l by (simp add: power_int_nonneg_exp)
  also have "\<dots> \<le> of_int (\<lceil>a\<rceil> - 1)" using b(1) by (simp only: of_int_le_iff)
  finally show "2 powi (bitlen (\<lceil>a\<rceil> - 1) - 1) < a" using ceiling_correct [of a] by simp
  have "\<lceil>a\<rceil> \<le> 2 ^ nat (bitlen (\<lceil>a\<rceil> - 1))" using b(2) by linarith
  then have "of_int \<lceil>a\<rceil> \<le> (of_int (2 ^ nat (bitlen (\<lceil>a\<rceil> - 1))) :: rat)" by (simp only: of_int_le_iff)
  moreover have "(2 :: rat) powi bitlen (\<lceil>a\<rceil> - 1) = of_int (2 ^ nat (bitlen (\<lceil>a\<rceil> - 1)))"
    using l by (simp add: power_int_nonneg_exp)
  ultimately show "a \<le> 2 powi bitlen (\<lceil>a\<rceil> - 1)" using ceiling_correct [of a] by linarith
qed

lemma f64_exponent_bounds:
  assumes "x \<noteq> 0"
  shows "2 powi f64_exponent x \<le> \<bar>x\<bar>" "\<bar>x\<bar> < 2 powi (f64_exponent x + 1)"
proof -
  have "2 powi f64_exponent x \<le> \<bar>x\<bar> \<and> \<bar>x\<bar> < 2 powi (f64_exponent x + 1)"
  proof (cases "1 \<le> \<bar>x\<bar>")
    case True
    then show ?thesis using bitlen_floor [OF True] by (simp add: f64_exponent_def)
  next
    case False
    let ?a = "1 / \<bar>x\<bar>" and ?b = "bitlen (\<lceil>1 / \<bar>x\<bar>\<rceil> - 1)"
    have x: "0 < \<bar>x\<bar>" using assms by simp
    have a: "1 < ?a" using False x by (simp add: field_simps)
    have e: "f64_exponent x = - ?b" using False by (simp add: f64_exponent_def)
    have "(2 :: rat) powi (- ?b) \<le> \<bar>x\<bar>"
      using bitlen_ceiling(2) [OF a] x by (simp add: power_int_minus field_simps)
    moreover have "\<bar>x\<bar> < 2 powi (- (?b - 1))"
      using bitlen_ceiling(1) [OF a] x by (simp add: power_int_minus field_simps del: minus_diff_eq)
    ultimately show ?thesis by (simp add: e)
  qed
  then show "2 powi f64_exponent x \<le> \<bar>x\<bar>" "\<bar>x\<bar> < 2 powi (f64_exponent x + 1)" by simp_all
qed

lemma powi_less: "(2 :: rat) powi a < 2 powi b \<longleftrightarrow> a < b"
  by (meson linorder_not_less one_less_numeral_iff power_int_increasing power_int_strict_increasing
      order_less_imp_le semiring_norm(76) one_le_numeral)

lemma f64_exponent_unique:
  assumes "2 powi k \<le> \<bar>x\<bar>" "\<bar>x\<bar> < 2 powi (k + 1)"
  shows "f64_exponent x = k"
proof -
  have x: "x \<noteq> 0" using assms(1) by (metis abs_zero not_less zero_less_numeral zero_less_power_int)
  have "(2 :: rat) powi k < 2 powi (f64_exponent x + 1)"
    using assms(1) f64_exponent_bounds(2) [OF x] by linarith
  moreover have "(2 :: rat) powi f64_exponent x < 2 powi (k + 1)"
    using assms(2) f64_exponent_bounds(1) [OF x] by linarith
  ultimately show ?thesis by (simp add: powi_less)
qed

section \<open>Rounding is monotone, and exact where there is nothing to round\<close>

lemma round_half_even_int [simp]: "round_half_even (of_int n) = n"
  by (simp add: round_half_even_def)

lemma round_half_even_near: "\<bar>of_int (round_half_even q) - q\<bar> \<le> 1 / 2"
  using floor_correct [of q] by (auto simp: round_half_even_def Let_def)

lemma round_half_even_mono:
  assumes "p \<le> q"
  shows "round_half_even p \<le> round_half_even q"
proof (cases "\<lfloor>p\<rfloor> = \<lfloor>q\<rfloor>")
  case True
  with assms show ?thesis by (auto simp: round_half_even_def Let_def)
next
  case False
  with assms have "\<lfloor>p\<rfloor> + 1 \<le> \<lfloor>q\<rfloor>" by (meson floor_mono le_neq_trans zless_imp_add1_zle)
  moreover have "round_half_even p \<le> \<lfloor>p\<rfloor> + 1" "\<lfloor>q\<rfloor> \<le> round_half_even q"
    by (auto simp: round_half_even_def Let_def)
  ultimately show ?thesis by linarith
qed

lemma ulp_pos [simp]: "0 < ulp x" by (simp add: ulp_def)

lemma ulp_neq_0 [simp]: "ulp x \<noteq> 0" by (metis less_irrefl ulp_pos)

lemma rounded_0 [simp]: "rounded 0 = 0" by (simp add: rounded_def)

lemma rounded_eq: "rounded x = of_int (round_half_even (x / ulp x)) * ulp x"
  using round_half_even_int [of 0] by (simp add: rounded_def)

lemma rounded_error: "\<bar>rounded x - x\<bar> \<le> \<bar>x\<bar> / 2 ^ 53"
proof (cases "x = 0")
  case False
  have "rounded x - x = (of_int (round_half_even (x / ulp x)) - x / ulp x) * ulp x"
    by (simp add: rounded_eq left_diff_distrib)
  then have "\<bar>rounded x - x\<bar> = \<bar>of_int (round_half_even (x / ulp x)) - x / ulp x\<bar> * ulp x"
    by (simp add: abs_mult less_imp_le)
  also have "\<dots> \<le> 1 / 2 * ulp x"
    by (intro mult_right_mono round_half_even_near) (simp add: less_imp_le)
  also have "\<dots> = 2 powi f64_exponent x / 2 ^ 53"
    by (simp add: ulp_def power_int_diff)
  also have "\<dots> \<le> \<bar>x\<bar> / 2 ^ 53"
    using f64_exponent_bounds(1) [OF False] by (simp add: divide_right_mono)
  finally show ?thesis .
qed simp

lemma rounded_pow2_mult: "rounded (x * 2 powi k) = rounded x * 2 powi k"
proof (cases "x = 0")
  case False
  have p: "(2 :: rat) powi (a + k) = 2 powi a * 2 powi k" for a by (simp add: power_int_add)
  have s: "f64_exponent x + k + 1 = (f64_exponent x + 1) + k" by simp
  have a: "\<bar>x * 2 powi k\<bar> = \<bar>x\<bar> * 2 powi k" by (simp add: abs_mult)
  have k: "(0 :: rat) < 2 powi k" by simp
  have "f64_exponent (x * 2 powi k) = f64_exponent x + k"
  proof (rule f64_exponent_unique)
    show "2 powi (f64_exponent x + k) \<le> \<bar>x * 2 powi k\<bar>"
      unfolding a p by (rule mult_right_mono [OF f64_exponent_bounds(1) [OF False] less_imp_le [OF k]])
    show "\<bar>x * 2 powi k\<bar> < 2 powi (f64_exponent x + k + 1)"
      unfolding a s p by (rule mult_strict_right_mono [OF f64_exponent_bounds(2) [OF False] k])
  qed
  then have "ulp (x * 2 powi k) = 2 powi ((f64_exponent x - 52) + k)"
    by (simp add: ulp_def algebra_simps)
  also have "\<dots> = ulp x * 2 powi k" by (simp only: p ulp_def)
  finally have "ulp (x * 2 powi k) = ulp x * 2 powi k" .
  then show ?thesis by (simp add: rounded_eq)
qed simp

lemma rounded_double: "rounded (2 * x) = 2 * rounded x"
  using rounded_pow2_mult [of x 1] unfolding power_int_1_right mult.commute [of 2] .

lemma rounded_on_grid: "x = of_int m * ulp x \<Longrightarrow> rounded x = x"
  by (metis nonzero_eq_divide_eq round_half_even_int rounded_eq ulp_neq_0)

lemma rounded_small_int:
  assumes "\<bar>n\<bar> < 2 ^ 53"
  shows "rounded (of_int n) = of_int n"
proof (cases "n = 0")
  case False
  let ?x = "of_int n :: rat" and ?e = "f64_exponent (of_int n)"
  have x: "?x \<noteq> 0" using False by simp
  have "\<bar>?x\<bar> < 2 powi 53"
    using assms of_int_less_iff [of "\<bar>n\<bar>" "2 ^ 53", where ?'a = rat]
    by (simp add: power_int_def del: of_int_less_iff)
  with f64_exponent_bounds(1) [OF x] have "(2 :: rat) powi ?e < 2 powi 53" by (rule le_less_trans)
  then have "?e \<le> 52" unfolding powi_less by simp
  then have "?x = of_int (n * 2 ^ nat (52 - ?e)) * ulp ?x"
    by (simp add: ulp_def power_int_diff power_int_nonneg_exp [symmetric])
  then show ?thesis by (rule rounded_on_grid)
qed simp

lemma rounded_exact:
  assumes "\<bar>n\<bar> \<le> 2 ^ 53"
  shows "rounded (of_int n * 2 powi k) = of_int n * 2 powi k"
proof (cases "\<bar>n\<bar> < 2 ^ 53")
  case True
  then show ?thesis by (simp only: rounded_pow2_mult rounded_small_int)
next
  case False
  with assms have "n = 2 ^ 53 \<or> n = - (2 ^ 53)" by linarith
  then have n: "n = 1 * 2 ^ 53 \<or> n = (- 1) * 2 ^ 53" by simp
  have "rounded (of_int (s * 2 ^ 53)) = of_int (s * 2 ^ 53)" if "\<bar>s\<bar> \<le> 1" for s :: int
  proof -
    have "of_int (s * 2 ^ 53) = (of_int s * 2 powi 53 :: rat)" by (simp add: power_int_def)
    moreover have "rounded (of_int s) = of_int s" using that by (intro rounded_small_int) simp
    ultimately show ?thesis by (simp only: rounded_pow2_mult)
  qed
  from this [of 1] this [of "-1"] n have "rounded (of_int n) = of_int n"
    by (metis abs_minus_cancel abs_one order_refl)
  then show ?thesis by (simp only: rounded_pow2_mult)
qed

lemma rounded_of_int [simp]: "\<bar>n\<bar> \<le> 2 ^ 53 \<Longrightarrow> rounded (of_int n) = of_int n"
  using rounded_exact [of n 0] by simp

lemma rounded_of_nat [simp]: "n \<le> 2 ^ 53 \<Longrightarrow> rounded (of_nat n) = of_nat n"
  using rounded_of_int [of "int n"] by simp

lemma round_half_even_minus: "round_half_even (- q) = - round_half_even q"
proof (cases "q = of_int \<lfloor>q\<rfloor>")
  case True
  then show ?thesis by (metis of_int_minus round_half_even_int)
next
  case False
  then have "\<lfloor>- q\<rfloor> = - \<lfloor>q\<rfloor> - 1"
    using floor_correct [of q] by (intro floor_unique) (auto simp: order.strict_iff_order)
  then show ?thesis by (auto simp: round_half_even_def Let_def)
qed

lemma rounded_minus: "rounded (- x) = - rounded x"
proof -
  have "ulp (- x) = ulp x" by (simp add: ulp_def f64_exponent_def)
  then show ?thesis by (simp add: rounded_eq round_half_even_minus)
qed

lemma significand_bounds:
  assumes "0 < x"
  shows "2 ^ 52 \<le> round_half_even (x / ulp x)" "round_half_even (x / ulp x) \<le> 2 ^ 53"
proof -
  have u: "ulp x = 2 powi f64_exponent x / 2 ^ 52" by (simp add: ulp_def power_int_diff)
  have p: "(0 :: rat) < 2 powi f64_exponent x" by simp
  have "2 powi f64_exponent x \<le> x" "x < 2 * 2 powi f64_exponent x"
    using f64_exponent_bounds [of x] assms by (simp_all add: power_int_add)
  then have b: "of_int (2 ^ 52) \<le> x / ulp x" "x / ulp x \<le> of_int (2 ^ 53)"
    unfolding u using p by (simp_all add: field_simps)
  show "2 ^ 52 \<le> round_half_even (x / ulp x)"
    using round_half_even_mono [OF b(1)] by (simp only: round_half_even_int)
  show "round_half_even (x / ulp x) \<le> 2 ^ 53"
    using round_half_even_mono [OF b(2)] by (simp only: round_half_even_int)
qed

lemma rounded_in_binade:
  assumes "0 < x"
  shows "2 powi f64_exponent x \<le> rounded x" "rounded x \<le> 2 powi (f64_exponent x + 1)"
proof -
  have u: "of_int (2 ^ 52) * ulp x = 2 powi f64_exponent x"
    "of_int (2 ^ 53) * ulp x = 2 powi (f64_exponent x + 1)"
    by (simp_all add: ulp_def power_int_diff power_int_add)
  have "of_int (2 ^ 52) * ulp x \<le> of_int (round_half_even (x / ulp x)) * ulp x"
    by (intro mult_right_mono, unfold of_int_le_iff, rule significand_bounds [OF assms])
      (simp add: less_imp_le)
  then show "2 powi f64_exponent x \<le> rounded x" unfolding u rounded_eq .
  have "of_int (round_half_even (x / ulp x)) * ulp x \<le> of_int (2 ^ 53) * ulp x"
    by (intro mult_right_mono, unfold of_int_le_iff, rule significand_bounds [OF assms])
      (simp add: less_imp_le)
  then show "rounded x \<le> 2 powi (f64_exponent x + 1)" unfolding u rounded_eq .
qed

lemma rounded_pos: "0 < x \<Longrightarrow> 0 < rounded x"
  using rounded_in_binade(1) [of x] by (meson less_le_trans zero_less_numeral zero_less_power_int)

lemma rounded_mono_pos:
  assumes "0 < x" "x \<le> y"
  shows "rounded x \<le> rounded y"
proof -
  have y: "0 < y" using assms by simp
  have "(2 :: rat) powi f64_exponent x < 2 powi (f64_exponent y + 1)"
    using f64_exponent_bounds [of x] f64_exponent_bounds [of y] assms y by simp
  then have e: "f64_exponent x \<le> f64_exponent y" unfolding powi_less by simp
  show ?thesis
  proof (cases "f64_exponent x = f64_exponent y")
    case True
    then have u: "ulp x = ulp y" by (simp add: ulp_def)
    have "round_half_even (x / ulp y) \<le> round_half_even (y / ulp y)"
      using assms(2) by (intro round_half_even_mono divide_right_mono) (simp_all add: less_imp_le)
    then have "of_int (round_half_even (x / ulp y)) * ulp y \<le> of_int (round_half_even (y / ulp y)) * ulp y"
      by (intro mult_right_mono) (simp_all add: less_imp_le)
    then show ?thesis unfolding rounded_eq u .
  next
    case False
    with e have "(2 :: rat) powi (f64_exponent x + 1) \<le> 2 powi f64_exponent y"
      by (intro power_int_increasing) auto
    then show ?thesis using rounded_in_binade(2) [OF assms(1)] rounded_in_binade(1) [OF y] by linarith
  qed
qed

lemma rounded_mono:
  assumes "x \<le> y"
  shows "rounded x \<le> rounded y"
proof (cases "0 < x")
  case True
  then show ?thesis using assms by (rule rounded_mono_pos)
next
  case x: False
  have nonneg: "0 \<le> rounded z" if "0 \<le> z" for z
    using that rounded_pos [of z] by (cases "z = 0") simp_all
  show ?thesis
  proof (cases "0 < - y")
    case True
    then have "rounded (- y) \<le> rounded (- x)" using assms by (intro rounded_mono_pos) simp_all
    then show ?thesis by (simp add: rounded_minus)
  next
    case False
    have "0 \<le> rounded (- x)" "0 \<le> rounded y" using x False by (auto intro: nonneg)
    then show ?thesis by (simp add: rounded_minus)
  qed
qed

lemma rounded_nonneg: "0 \<le> x \<Longrightarrow> 0 \<le> rounded x"
  using rounded_mono [of 0 x] by simp

lemma rounded_idem [simp]: "rounded (rounded x) = rounded x"
proof -
  have "rounded (rounded x) = rounded x" if "0 < x" for x
  proof -
    have r: "rounded x = of_int (round_half_even (x / ulp x)) * 2 powi (f64_exponent x - 52)"
      by (simp add: rounded_eq ulp_def)
    show ?thesis
      unfolding r using significand_bounds [OF that] by (intro rounded_exact) simp
  qed
  from this [of x] this [of "- x"] show ?thesis
    by (cases x "0 :: rat" rule: linorder_cases) (simp_all add: rounded_minus)
qed

lemma rounded_upper: "0 \<le> x \<Longrightarrow> rounded x \<le> x + x / 2 ^ 53"
  using rounded_error [of x] abs_ge_self [of "rounded x - x"] by (simp only: abs_of_nonneg)

lemma rounded_lower: "0 \<le> x \<Longrightarrow> x - x / 2 ^ 53 \<le> rounded x"
  using rounded_error [of x] abs_ge_minus_self [of "rounded x - x"] by (simp only: abs_of_nonneg)

end
