(* ===== verification/Gguf_Fit.thy ===== *)
theory Gguf_Fit
  imports Gguf F64 Terminal
begin

text \<open>
  Will a GGUF model fit in GPU memory at a context size (\<^verbatim>\<open>rocm-core/src/gguf_fit.rs\<close>): the sizing
  of a model from its header, the figures of the report, the verdict, the largest context that
  fits and the suggestions for a model that does not. The header is the one of \<open>Gguf\<close>, figures
  are the \<^verbatim>\<open>f64\<close> of \<open>F64\<close>, and 64-bit sums and products wrap as in a release build. The texts of
  the report are values that carry the figures the texts print. A division by zero does not arise:
  a sizing has layers, data and a cost per token, and a context has a token.
\<close>

section \<open>Constants\<close>

definition GIB :: f64 where "GIB = 1024 * 1024 * 1024"
definition RUNTIME_RESERVE_BYTES :: f64 where "RUNTIME_RESERVE_BYTES = 1280 * 1024 * 1024"
definition COMPUTE_BATCH_TOKENS :: f64 where "COMPUTE_BATCH_TOKENS = 512"
definition MASK_BYTES :: f64 where "MASK_BYTES = 2"
definition MAX_CONTEXT_SIZE :: u64 where "MAX_CONTEXT_SIZE = push_bit 24 1"
definition MAX_PLAUSIBLE_BYTES :: f64 where "MAX_PLAUSIBLE_BYTES = 2 ^ 60"
definition MIB :: u64 where "MIB = 1024 * 1024"
definition CONTEXT_STEP :: u64 where "CONTEXT_STEP = 256"
definition MIN_PLAUSIBLE_BITS_PER_WEIGHT :: f64 where "MIN_PLAUSIBLE_BITS_PER_WEIGHT = 1"
definition MAX_PLAUSIBLE_BITS_PER_WEIGHT :: f64 where "MAX_PLAUSIBLE_BITS_PER_WEIGHT = 33"
definition QUANT_SMALLER_FACTOR :: f64 where "QUANT_SMALLER_FACTOR = rounded (95 / 100)"

definition QUANT_BITS_PER_WEIGHT :: "(string \<times> f64) list" where
  "QUANT_BITS_PER_WEIGHT =
     [(''Q2_K'', rounded (335 / 100)), (''Q3_K_M'', rounded (391 / 100)), (''IQ4_XS'', rounded (425 / 100)),
      (''Q4_K_M'', rounded (485 / 100)), (''Q5_K_M'', rounded (569 / 100)), (''Q6_K'', rounded (656 / 100)),
      (''Q8_0'', rounded (85 / 10))]"

section \<open>Types\<close>

datatype kv_cache_type = F16 | Q8_0 | Q4_0

definition kv_cache_all :: "kv_cache_type list" where "kv_cache_all = [F16, Q8_0, Q4_0]"

fun bytes_per_element :: "kv_cache_type \<Rightarrow> f64" where
  "bytes_per_element F16 = 2"
| "bytes_per_element Q8_0 = 34 / 32"
| "bytes_per_element Q4_0 = 18 / 32"

fun kv_cache_name :: "kv_cache_type \<Rightarrow> string" where
  "kv_cache_name F16 = ''f16''"
| "kv_cache_name Q8_0 = ''q8_0''"
| "kv_cache_name Q4_0 = ''q4_0''"

datatype estimate_outcome = Fits | DoesNotFit | CannotEstimate

datatype cannot_estimate_reason =
    HeaderUnreadable | NotAModel | SplitFile | LatentAttention | NoAttentionLayers | UnmeasuredLayout
  | MissingMetadata | NoGpu | AcceleratorMemoryUnknown | UnifiedMemoryUnreadable

datatype suggestion_kind = SmallerContext | KvCacheType | SmallerQuant | CpuOffload

text \<open>The texts of the report, by what they say.\<close>

datatype unmeasured = SsmAndMoe | Ssm | Moe | Widths

datatype fit_detail =
    ShardOfSplitModel | UsesLatentAttention | NotCarried string | LayerCountNotPlausible u64
  | NoLargerThanItsHeader | NoLayerKeepsCache | MoreThanAnExabyte u64 | NoGpuVisible
  | PoolNotReadable | GpuMemoryNotRead | NoVerdictBecause unmeasured int | Refused string
  | CouldNotBeRead string

datatype fit_note =
    SlidingWindowNote | StateSpaceNote | MixtureOfExpertsNote | WidthsMissingNote
  | BeyondTrained u64 u64

text \<open>A suggestion by the figures in its text: the largest context (and whether it is called
  conservative); a cache type with the total in MiB, the context and the largest context then; a
  cache type that is still too large; flash attention; a quantization with its weights, the present
  ones and the context; the smallest quantization that still does not fit; the layers kept on the
  GPU, of how many, the memory of the others and whether the system's memory was unread.\<close>

datatype fit_suggestion =
    UseContext u64 kv_cache_type bool
  | UseKvCache kv_cache_type u64 u64 "u64 option"
  | KvCacheStillTooLarge kv_cache_type u64
  | NeedsFlashAttention
  | UseQuant string f64 f64 u64
  | NoQuantFits string u64 kv_cache_type
  | OffloadLayers u64 u64 f64 bool

fun suggestion_kind_of :: "fit_suggestion \<Rightarrow> suggestion_kind" where
  "suggestion_kind_of (UseContext _ _ _) = SmallerContext"
| "suggestion_kind_of (UseKvCache _ _ _ _) = KvCacheType"
| "suggestion_kind_of (KvCacheStillTooLarge _ _) = KvCacheType"
| "suggestion_kind_of NeedsFlashAttention = KvCacheType"
| "suggestion_kind_of (UseQuant _ _ _ _) = SmallerQuant"
| "suggestion_kind_of (NoQuantFits _ _ _) = SmallerQuant"
| "suggestion_kind_of (OffloadLayers _ _ _ _) = CpuOffload"

record context_estimate =
  ce_source :: string
  ce_outcome :: estimate_outcome
  ce_cannot_estimate_reason :: "cannot_estimate_reason option"
  ce_detail :: "fit_detail option"
  ce_architecture :: "string option"
  ce_layers :: "u64 option"
  ce_context_size :: u64
  ce_context_size_defaulted :: bool
  ce_kv_cache_type :: kv_cache_type
  ce_weights_gib :: "f64 option"
  ce_kv_cache_gib :: "f64 option"
  ce_compute_buffer_gib :: "f64 option"
  ce_runtime_reserve_gib :: "f64 option"
  ce_total_gib :: "f64 option"
  ce_weights_bytes :: "u64 option"
  ce_kv_cache_bytes :: "u64 option"
  ce_compute_buffer_bytes :: "u64 option"
  ce_runtime_reserve_bytes :: "u64 option"
  ce_total_bytes :: "u64 option"
  ce_kv_cache_bytes_per_token :: "f64 option"
  ce_available_gib :: "f64 option"
  ce_max_context :: "u64 option"
  ce_training_context :: "u64 option"
  ce_conservative_ceiling :: bool
  ce_suggestions :: "fit_suggestion list"
  ce_notes :: "fit_note list"

record fit_request =
  rq_context_size :: u64
  rq_context_size_defaulted :: bool
  rq_kv_cache_type :: kv_cache_type

text \<open>\<^verbatim>\<open>AcceleratorMemory\<close> of \<^verbatim>\<open>model_readiness.rs\<close>.\<close>

datatype accelerator_memory = Dedicated f64 | NoAccelerator | UnknownMemory | UnifiedPoolUnreadable

fun measured_gib :: "accelerator_memory \<Rightarrow> f64 option" where
  "measured_gib (Dedicated gib) = Some gib"
| "measured_gib NoAccelerator = None"
| "measured_gib UnknownMemory = None"
| "measured_gib UnifiedPoolUnreadable = None"

section \<open>An estimate that could not be made\<close>

text \<open>Why the file could not be opened: a name refused as a projector, or anything else, with the
  text of the error.\<close>

datatype open_error = ProjectorNamed string | OtherError string

definition empty_estimate :: "string \<Rightarrow> fit_request \<Rightarrow> context_estimate" where
  "empty_estimate src rq =
     \<lparr>ce_source = src, ce_outcome = CannotEstimate, ce_cannot_estimate_reason = None, ce_detail = None,
      ce_architecture = None, ce_layers = None, ce_context_size = rq_context_size rq,
      ce_context_size_defaulted = rq_context_size_defaulted rq, ce_kv_cache_type = rq_kv_cache_type rq,
      ce_weights_gib = None, ce_kv_cache_gib = None, ce_compute_buffer_gib = None,
      ce_runtime_reserve_gib = None, ce_total_gib = None, ce_weights_bytes = None,
      ce_kv_cache_bytes = None, ce_compute_buffer_bytes = None, ce_runtime_reserve_bytes = None,
      ce_total_bytes = None, ce_kv_cache_bytes_per_token = None, ce_available_gib = None,
      ce_max_context = None, ce_training_context = None, ce_conservative_ceiling = False,
      ce_suggestions = [], ce_notes = []\<rparr>"

definition unreadable :: "string \<Rightarrow> fit_request \<Rightarrow> open_error \<Rightarrow> context_estimate" where
  "unreadable src rq err =
     (let (reason, detail) =
        (case err of ProjectorNamed t \<Rightarrow> (NotAModel, Refused t)
         | OtherError t \<Rightarrow> (HeaderUnreadable, CouldNotBeRead t))
      in (empty_estimate src rq)\<lparr>ce_cannot_estimate_reason := Some reason, ce_detail := Some detail\<rparr>)"

section \<open>Sizing\<close>

record sizing =
  sz_data :: f64
  sz_weights :: f64
  sz_compute_base :: f64
  sz_kv_elements_per_token :: f64
  sz_widest_layer_kv_elements :: f64
  sz_layers :: u64

definition kv_bytes :: "sizing \<Rightarrow> u64 \<Rightarrow> kv_cache_type \<Rightarrow> f64" where
  "kv_bytes s context kv =
     fmul (fmul (sz_kv_elements_per_token s) (f64_of_u64 context)) (bytes_per_element kv)"

definition compute_bytes_per_token :: "sizing \<Rightarrow> kv_cache_type \<Rightarrow> f64" where
  "compute_bytes_per_token s kv =
     (let mask = fmul COMPUTE_BATCH_TOKENS MASK_BYTES
      in if kv = F16 then mask else mul_add (sz_widest_layer_kv_elements s) 2 mask)"

definition compute_bytes :: "sizing \<Rightarrow> u64 \<Rightarrow> kv_cache_type \<Rightarrow> f64" where
  "compute_bytes s context kv =
     mul_add (compute_bytes_per_token s kv) (f64_of_u64 context) (sz_compute_base s)"

definition fixed :: "sizing \<Rightarrow> f64" where
  "fixed s = fadd (fadd (sz_weights s) (sz_compute_base s)) RUNTIME_RESERVE_BYTES"

definition bytes_per_token :: "sizing \<Rightarrow> kv_cache_type \<Rightarrow> f64" where
  "bytes_per_token s kv =
     mul_add (sz_kv_elements_per_token s) (bytes_per_element kv) (compute_bytes_per_token s kv)"

definition total_bytes :: "sizing \<Rightarrow> u64 \<Rightarrow> kv_cache_type \<Rightarrow> f64" where
  "total_bytes s context kv = mul_add (bytes_per_token s kv) (f64_of_u64 context) (fixed s)"

definition mib_up :: "u64 \<Rightarrow> u64" where "mib_up n = div_ceil n MIB"

definition round_bytes :: "f64 \<Rightarrow> u64" where "round_bytes part = u64_of_f64 (of_int (f64_round part))"

definition shown_sum :: "f64 list \<Rightarrow> f64" where
  "shown_sum parts =
     (let mib = sum_list (map (\<lambda>part. mib_up (round_bytes part)) parts)
      in f64_of_u64 (mib * MIB))"

definition shown_total_with :: "sizing \<Rightarrow> f64 \<Rightarrow> u64 \<Rightarrow> kv_cache_type \<Rightarrow> f64" where
  "shown_total_with s weights context kv =
     shown_sum [weights, kv_bytes s context kv, compute_bytes s context kv, RUNTIME_RESERVE_BYTES]"

definition shown_total :: "sizing \<Rightarrow> u64 \<Rightarrow> kv_cache_type \<Rightarrow> f64" where
  "shown_total s context kv = shown_total_with s (sz_weights s) context kv"

definition fits :: "sizing \<Rightarrow> u64 \<Rightarrow> kv_cache_type \<Rightarrow> f64 \<Rightarrow> bool" where
  "fits s context kv available \<longleftrightarrow> shown_total s context kv \<le> available"

definition layers_fit :: "sizing \<Rightarrow> u64 \<Rightarrow> u64 \<Rightarrow> kv_cache_type \<Rightarrow> f64 \<Rightarrow> bool" where
  "layers_fit s on_gpu context kv available \<longleftrightarrow>
     (let share = fdiv (f64_of_u64 on_gpu) (f64_of_u64 (sz_layers s))
      in shown_sum [fmul (sz_weights s) share, fmul (kv_bytes s context kv) share,
           compute_bytes s context kv, RUNTIME_RESERVE_BYTES] \<le> available)"

definition quant_weights :: "sizing \<Rightarrow> f64 \<Rightarrow> f64 \<Rightarrow> f64" where
  "quant_weights s params bits_per_weight =
     fmul (fdiv (fmul params bits_per_weight) 8) (fdiv (sz_weights s) (sz_data s))"

section \<open>The largest context that fits\<close>

function step_down :: "sizing \<Rightarrow> kv_cache_type \<Rightarrow> f64 \<Rightarrow> u64 \<Rightarrow> u64" where
  "step_down s kv available context =
     (if 0 < context \<and> \<not> fits s context kv available
      then step_down s kv available
        (if context mod CONTEXT_STEP = 0 then context - CONTEXT_STEP
         else context div CONTEXT_STEP * CONTEXT_STEP)
      else context)"
  by pat_completeness auto

lemma whole_steps: "unat (c div CONTEXT_STEP * CONTEXT_STEP) = unat c div 256 * 256"
  for c :: u64
proof -
  have "unat c < 2 ^ 64" using unsigned_less [of c] by simp
  then have "unat c div 256 * 256 < 2 ^ 64" by (simp add: less_mult_imp_div_less)
  then show ?thesis
    by (simp add: CONTEXT_STEP_def unat_word_ariths unat_div_distrib)
qed

lemma mod_step: "c mod CONTEXT_STEP = 0 \<longleftrightarrow> unat c mod 256 = 0" for c :: u64
  by (simp add: CONTEXT_STEP_def unat_eq_zero [symmetric] unat_mod_distrib)

lemma div_pred:
  fixes u :: nat
  assumes "u mod 256 \<noteq> 0"
  shows "(u - 1) div 256 = u div 256"
proof (rule div_nat_eqI)
  have "u = 256 * (u div 256) + u mod 256" by simp
  with assms show "256 * (u div 256) \<le> u - 1" by linarith
  show "u - 1 < 256 * Suc (u div 256)" by (simp add: dividend_less_times_div less_imp_diff_less)
qed

lemma step_down_less:
  fixes c :: u64
  assumes "0 < c"
  shows "unat (if c mod CONTEXT_STEP = 0 then c - CONTEXT_STEP
               else c div CONTEXT_STEP * CONTEXT_STEP)
         = (unat c - 1) div 256 * 256"
proof (cases "c mod CONTEXT_STEP = 0")
  case True
  then obtain q where q: "unat c = 256 * q" unfolding mod_step by (auto simp: mod_eq_0_iff_dvd dvd_def)
  have "0 < unat c" using assms by (simp add: word_less_nat_alt)
  with q obtain r where r: "q = Suc r" by (cases q) auto
  have "CONTEXT_STEP \<le> c" using q r by (simp add: CONTEXT_STEP_def word_le_nat_alt)
  then have "unat (c - CONTEXT_STEP) = 256 * r"
    using q r by (simp add: unat_sub CONTEXT_STEP_def)
  moreover have "(unat c - 1) div 256 = r" using q r by simp
  ultimately show ?thesis using True by simp
next
  case False
  then have "unat c mod 256 \<noteq> 0" by (simp add: mod_step)
  then have "(unat c - 1) div 256 = unat c div 256" by (rule div_pred)
  with False show ?thesis by (simp add: whole_steps)
qed

termination step_down
proof (relation "measure (\<lambda>(s, kv, a, c). unat c)", goal_cases)
  case (2 s kv a c)
  then have "0 < c" by simp
  then have "0 < unat c" by (simp add: word_less_nat_alt)
  moreover have "(unat c - 1) div 256 * 256 \<le> unat c - 1" by simp
  ultimately show ?case using \<open>0 < c\<close> by (simp only: in_measure split step_down_less)
qed simp

declare step_down.simps [simp del]

text \<open>The search upwards may pass every bound when the figures have wrapped, so that it may not
  return is part of the model.\<close>

partial_function (option) step_up ::
  "sizing \<Rightarrow> kv_cache_type \<Rightarrow> f64 \<Rightarrow> u64 option \<Rightarrow> u64 \<Rightarrow> u64 option" where
  "step_up s kv available cap context =
     (if (case cap of None \<Rightarrow> True | Some m \<Rightarrow> context + CONTEXT_STEP \<le> m) \<and>
         fits s (context + CONTEXT_STEP) kv available
      then step_up s kv available cap (context + CONTEXT_STEP)
      else Some context)"

definition search_start :: "sizing \<Rightarrow> f64 \<Rightarrow> kv_cache_type \<Rightarrow> u64 option \<Rightarrow> u64" where
  "search_start s available kv cap =
     (let room = fsub available (fixed s);
          per_token = bytes_per_token s kv;
          raw = of_int \<lfloor>fdiv room per_token\<rfloor>;
          whole = u64_of_f64 raw div CONTEXT_STEP * CONTEXT_STEP
      in case cap of None \<Rightarrow> whole | Some m \<Rightarrow> if m \<le> u64_of_f64 raw then m else whole)"

definition max_context :: "sizing \<Rightarrow> f64 \<Rightarrow> kv_cache_type \<Rightarrow> u64 option \<Rightarrow> u64 option option" where
  "max_context s available kv training =
     (if fsub available (fixed s) \<le> 0 then Some None
      else case step_up s kv available training
             (step_down s kv available (search_start s available kv training)) of
        None \<Rightarrow> None
      | Some context \<Rightarrow> Some (if 0 < context then Some context else None))"

section \<open>Sizing a model from its header\<close>

definition trained_context :: "gguf_header \<Rightarrow> u64 option" where
  "trained_context h =
     (case context_length h of Some trained \<Rightarrow> if 0 < trained then Some trained else None | None \<Rightarrow> None)"

text \<open>\<^verbatim>\<open>str::chars\<close> and its inverse, on well-formed UTF-8.\<close>

fun chars :: "string \<Rightarrow> scalar list" where
  "chars [] = []"
| "chars (b # s) =
     (let n = of_char b
      in if n < 128 then n # chars s
         else if n < 224 then (case s of c1 # t \<Rightarrow> (n mod 32 * 64 + of_char c1 mod 64) # chars t | _ \<Rightarrow> [])
         else if n < 240 then
           (case s of c1 # c2 # t \<Rightarrow>
              (n mod 16 * 4096 + of_char c1 mod 64 * 64 + of_char c2 mod 64) # chars t | _ \<Rightarrow> [])
         else (case s of c1 # c2 # c3 # t \<Rightarrow>
              (n mod 8 * 262144 + of_char c1 mod 64 * 4096 + of_char c2 mod 64 * 64 + of_char c3 mod 64)
                # chars t | _ \<Rightarrow> []))"

definition encode_utf8 :: "scalar \<Rightarrow> string" where
  "encode_utf8 c =
     (if c < 128 then [char_of c]
      else if c < 2048 then [char_of (192 + c div 64), char_of (128 + c mod 64)]
      else if c < 65536 then
        [char_of (224 + c div 4096), char_of (128 + c div 64 mod 64), char_of (128 + c mod 64)]
      else [char_of (240 + c div 262144), char_of (128 + c div 4096 mod 64),
            char_of (128 + c div 64 mod 64), char_of (128 + c mod 64)])"

definition shown_char :: "scalar \<Rightarrow> scalar" where
  "shown_char c = (if is_control_or_format c \<or> is_control_or_line_separator c then 63 else c)"

definition shown_text :: "string \<Rightarrow> string" where
  "shown_text t = concat (map (\<lambda>c. encode_utf8 (shown_char c)) (chars t))"

definition known_width :: "u64 option \<Rightarrow> bool" where
  "known_width w = (case w of Some n \<Rightarrow> 0 < n | None \<Rightarrow> False)"

definition widths_missing :: "gguf_header \<Rightarrow> bool" where
  "widths_missing h \<longleftrightarrow> \<not> known_width (feed_forward_length h) \<or> \<not> known_width (embedding_length h)"

type_synonym cannot = "cannot_estimate_reason \<times> fit_detail"

definition missing :: "string \<Rightarrow> cannot" where "missing what = (MissingMetadata, NotCarried what)"

definition head_width :: "gguf_header \<Rightarrow> u64 option \<Rightarrow> u64 option \<Rightarrow> cannot + u64" where
  "head_width h heads explicit =
     (case explicit of Some width \<Rightarrow> Inr width
      | None \<Rightarrow>
         (case (embedding_length h, heads) of
            (Some embedding, Some n) \<Rightarrow>
              if 0 < n then Inr (embedding div n) else Inl (missing ''the attention head width'')
          | _ \<Rightarrow> Inl (missing ''the attention head width'')))"

text \<open>The elements one layer caches per token; zero for a layer without KV heads.\<close>

definition layer_elements :: "gguf_header \<Rightarrow> nat \<Rightarrow> cannot + u64" where
  "layer_elements h layer =
     (let heads = Option.bind (head_count h) (\<lambda>p. per_layer_at p layer)
      in case (case head_count_kv h of Some p \<Rightarrow> per_layer_at p layer | None \<Rightarrow> heads) of
        None \<Rightarrow> Inl (missing ''a KV head count for every layer'')
      | Some kv_heads \<Rightarrow>
          if kv_heads = 0 then Inr 0
          else bind_result (head_width h heads (key_length h)) (\<lambda>k.
               bind_result (head_width h heads (value_length h)) (\<lambda>v.
               Inr (saturating_mul kv_heads (saturating_add k v)))))"

fun kv_layers :: "gguf_header \<Rightarrow> nat list \<Rightarrow> u64 \<times> u64 \<Rightarrow> cannot + u64 \<times> u64" where
  "kv_layers h [] acc = Inr acc"
| "kv_layers h (layer # rest) (kv_elements, widest) =
     bind_result (layer_elements h layer) (\<lambda>e.
       kv_layers h rest (saturating_add kv_elements e, max widest e))"

definition embedding_bytes :: "gguf_header \<Rightarrow> u64 \<Rightarrow> u64" where
  "embedding_bytes h data =
     (case (if has_output h then token_embd h else None) of
        None \<Rightarrow> 0
      | Some sp \<Rightarrow>
          saturating_sub (min (case next_offset sp of None \<Rightarrow> data | Some n \<Rightarrow> n) data) (offset sp))"

definition sizing_of :: "gguf_header \<Rightarrow> u64 \<Rightarrow> cannot + sizing" where
  "sizing_of h file_size =
     (if (case split_count h of Some count \<Rightarrow> 1 < count | None \<Rightarrow> False)
      then Inl (SplitFile, ShardOfSplitModel)
      else if latent_attention h then Inl (LatentAttention, UsesLatentAttention)
      else case (case block_count h of Some layers \<Rightarrow> if 0 < layers then Some layers else None | None \<Rightarrow> None) of
        None \<Rightarrow> Inl (missing ''a layer count'')
      | Some layers \<Rightarrow>
          if MAX_BLOCK_COUNT < layers then Inl (MissingMetadata, LayerCountNotPlausible layers)
          else case (case checked_sub file_size (data_offset h) of
                       Some w \<Rightarrow> if 0 < w then Some w else None | None \<Rightarrow> None) of
            None \<Rightarrow> Inl (MissingMetadata, NoLargerThanItsHeader)
          | Some data \<Rightarrow>
              (let weights = saturating_sub data (embedding_bytes h data)
               in bind_result (kv_layers h [0..<unat layers] (0, 0)) (\<lambda>(kv_elements, widest_layer).
                  if kv_elements = 0 then Inl (NoAttentionLayers, NoLayerKeepsCache)
                  else
                    (let activations =
                       mul_add 3 (f64_of_u64 (case feed_forward_length h of Some n \<Rightarrow> n | None \<Rightarrow> 0))
                         (fmul 3 (f64_of_u64 (case embedding_length h of Some n \<Rightarrow> n | None \<Rightarrow> 0)))
                     in Inr \<lparr>sz_data = f64_of_u64 data, sz_weights = f64_of_u64 weights,
                          sz_compute_base = fmul (fmul COMPUTE_BATCH_TOKENS activations) 4,
                          sz_kv_elements_per_token = f64_of_u64 kv_elements,
                          sz_widest_layer_kv_elements = f64_of_u64 widest_layer,
                          sz_layers = layers\<rparr>))))"

section \<open>The figures of the report\<close>

text \<open>\<^verbatim>\<open>need\<close>: the figure printed for a need, in GiB with one decimal, rounded up.\<close>

definition need :: "f64 \<Rightarrow> f64" where
  "need n = fdiv (of_int \<lceil>fmul (fdiv n GIB) 10\<rceil>) 10"

definition gib :: "f64 \<Rightarrow> f64" where "gib n = fdiv n GIB"

definition shown_parts :: "context_estimate \<Rightarrow> (u64 list \<times> u64) option" where
  "shown_parts e =
     (case (ce_weights_bytes e, ce_kv_cache_bytes e, ce_compute_buffer_bytes e, ce_runtime_reserve_bytes e) of
        (Some w, Some k, Some c, Some r) \<Rightarrow>
          (let parts = [mib_up w, mib_up k, mib_up c, mib_up r] in Some (parts, sum_list parts))
      | _ \<Rightarrow> None)"

definition whole_mib_offered :: "f64 \<Rightarrow> int" where
  "whole_mib_offered g = \<lfloor>mul_add g 1024 (rounded (1 / 10 ^ 6))\<rfloor>"

definition with_figures :: "sizing \<Rightarrow> fit_request \<Rightarrow> context_estimate \<Rightarrow> context_estimate" where
  "with_figures s rq e =
     (let c = rq_context_size rq; kv = rq_kv_cache_type rq;
          total = total_bytes s c kv; compute = compute_bytes s c kv
      in e\<lparr>ce_weights_gib := Some (gib (sz_weights s)),
           ce_kv_cache_gib := Some (gib (kv_bytes s c kv)),
           ce_compute_buffer_gib := Some (gib compute),
           ce_runtime_reserve_gib := Some (gib RUNTIME_RESERVE_BYTES),
           ce_total_gib := Some (gib total),
           ce_weights_bytes := Some (round_bytes (sz_weights s)),
           ce_kv_cache_bytes := Some (round_bytes (kv_bytes s c kv)),
           ce_compute_buffer_bytes := Some (round_bytes compute),
           ce_runtime_reserve_bytes := Some (round_bytes RUNTIME_RESERVE_BYTES),
           ce_total_bytes := Some (round_bytes total),
           ce_kv_cache_bytes_per_token := Some (fmul (sz_kv_elements_per_token s) (bytes_per_element kv))\<rparr>)"

definition notes_for :: "gguf_header \<Rightarrow> fit_request \<Rightarrow> fit_note list" where
  "notes_for h rq =
     (if sliding_window h then [SlidingWindowNote] else []) @
     (if ssm h then [StateSpaceNote] else []) @
     (if moe h then [MixtureOfExpertsNote] else []) @
     (if widths_missing h then [WidthsMissingNote] else []) @
     (case trained_context h of
        Some trained \<Rightarrow>
          if trained < rq_context_size rq then [BeyondTrained (rq_context_size rq) trained] else []
      | None \<Rightarrow> [])"

definition no_memory_reason :: "accelerator_memory \<Rightarrow> cannot_estimate_reason \<times> fit_detail" where
  "no_memory_reason memory =
     (case memory of
        NoAccelerator \<Rightarrow> (NoGpu, NoGpuVisible)
      | UnifiedPoolUnreadable \<Rightarrow> (UnifiedMemoryUnreadable, PoolNotReadable)
      | UnknownMemory \<Rightarrow> (AcceleratorMemoryUnknown, GpuMemoryNotRead)
      | Dedicated _ \<Rightarrow> (AcceleratorMemoryUnknown, GpuMemoryNotRead))"

definition no_verdict_reason :: "gguf_header \<Rightarrow> f64 \<Rightarrow> cannot_estimate_reason \<times> fit_detail" where
  "no_verdict_reason h available_gib =
     (let why = (if ssm h \<and> moe h then SsmAndMoe else if ssm h then Ssm else if moe h then Moe else Widths)
      in (if ssm h \<or> moe h then UnmeasuredLayout else MissingMetadata,
          NoVerdictBecause why (whole_mib_offered available_gib)))"

section \<open>Suggestions\<close>

text \<open>A narrower cache is only named when it lowers the need.\<close>

definition kv_cache_suggestion ::
  "gguf_header \<Rightarrow> sizing \<Rightarrow> u64 \<Rightarrow> f64 \<Rightarrow> kv_cache_type \<Rightarrow> fit_suggestion option" where
  "kv_cache_suggestion h s c available smaller =
     (let total_mib = u64_of_f64 (shown_total s c smaller) div MIB
      in if fits s c smaller available
         then (case max_context s available smaller (trained_context h) of
                 None \<Rightarrow> None
               | Some largest \<Rightarrow> Some (UseKvCache smaller total_mib c largest))
         else Some (KvCacheStillTooLarge smaller total_mib))"

fun all_some :: "'a option list \<Rightarrow> 'a list option" where
  "all_some [] = Some []"
| "all_some (x # xs) =
     (case x of None \<Rightarrow> None
      | Some y \<Rightarrow> (case all_some xs of None \<Rightarrow> None | Some ys \<Rightarrow> Some (y # ys)))"

definition kv_cache_suggestions ::
  "gguf_header \<Rightarrow> sizing \<Rightarrow> fit_request \<Rightarrow> f64 \<Rightarrow> fit_suggestion list option" where
  "kv_cache_suggestions h s rq available =
     (let kv = rq_kv_cache_type rq; c = rq_context_size rq; now = shown_total s c kv
      in case all_some (map (kv_cache_suggestion h s c available)
             (filter (\<lambda>other. bytes_per_element other < bytes_per_element kv \<and> shown_total s c other < now)
                kv_cache_all)) of
           None \<Rightarrow> None
         | Some named \<Rightarrow> Some (if named = [] then [] else named @ [NeedsFlashAttention]))"

definition quant_suggestion ::
  "gguf_header \<Rightarrow> sizing \<Rightarrow> fit_request \<Rightarrow> f64 \<Rightarrow> fit_suggestion list" where
  "quant_suggestion h s rq available =
     (let params = f64_of_u64 (param_count h);
          current_bpw = (if 0 < param_count h then fdiv (fmul (sz_data s) 8) params else 0);
          c = rq_context_size rq; kv = rq_kv_cache_type rq
      in if MIN_PLAUSIBLE_BITS_PER_WEIGHT \<le> current_bpw \<and> current_bpw \<le> MAX_PLAUSIBLE_BITS_PER_WEIGHT
         then
           (let candidates =
              map (\<lambda>(label, bpw). (label, quant_weights s params bpw))
                (filter (\<lambda>(label, bpw). bpw < fmul current_bpw QUANT_SMALLER_FACTOR)
                   (rev QUANT_BITS_PER_WEIGHT))
            in case find (\<lambda>(label, weights). shown_total_with s weights c kv \<le> available) candidates of
                 Some (label, weights) \<Rightarrow> [UseQuant label (need weights) (need (sz_weights s)) c]
               | None \<Rightarrow>
                   (if candidates = [] then [] else [NoQuantFits (fst (last candidates)) c kv]))
         else [])"

function layers_down :: "(u64 \<Rightarrow> bool) \<Rightarrow> u64 \<Rightarrow> u64" where
  "layers_down gpu_fits n =
     (if 0 < n \<and> \<not> gpu_fits n then layers_down gpu_fits (n - 1) else n)"
  by pat_completeness auto

termination layers_down
  by (relation "measure (\<lambda>(p, n). unat n)") (auto simp: unat_gt_0 unat_minus_one word_less_nat_alt)

function layers_up :: "(u64 \<Rightarrow> bool) \<Rightarrow> u64 \<Rightarrow> u64 \<Rightarrow> u64" where
  "layers_up gpu_fits layers n =
     (if n < layers \<and> gpu_fits (n + 1) then layers_up gpu_fits layers (n + 1) else n)"
  by pat_completeness auto

lemma unat_Suc_less: "n < (m :: u64) \<Longrightarrow> unat (n + 1) = unat n + 1"
  using unsigned_less [of m, where ?'a = nat] by (simp add: word_less_nat_alt unat_word_ariths)

termination layers_up
  by (relation "measure (\<lambda>(p, m, n). unat m - unat n)")
    (auto simp: unat_Suc_less word_less_nat_alt)

declare layers_down.simps [simp del] layers_up.simps [simp del]

definition layers_on_gpu :: "sizing \<Rightarrow> fit_request \<Rightarrow> f64 \<Rightarrow> u64" where
  "layers_on_gpu s rq available =
     (let layers = sz_layers s; c = rq_context_size rq; kv = rq_kv_cache_type rq;
          per_layer = fdiv (fadd (sz_weights s) (kv_bytes s c kv)) (f64_of_u64 layers);
          room = fsub (fsub available (compute_bytes s c kv)) RUNTIME_RESERVE_BYTES;
          gpu_fits = (\<lambda>n. layers_fit s n c kv available)
      in layers_up gpu_fits layers
           (layers_down gpu_fits
              (if 0 < room then min (u64_of_f64 (of_int \<lfloor>fdiv room per_layer\<rfloor>)) layers else 0)))"

definition offload_suggestion ::
  "sizing \<Rightarrow> fit_request \<Rightarrow> f64 \<Rightarrow> f64 option \<Rightarrow> fit_suggestion list" where
  "offload_suggestion s rq available system_ram_gib =
     (let layers = sz_layers s; c = rq_context_size rq; kv = rq_kv_cache_type rq;
          per_layer = fdiv (fadd (sz_weights s) (kv_bytes s c kv)) (f64_of_u64 layers);
          on_gpu = layers_on_gpu s rq available;
          host_bytes = fmul per_layer (f64_of_u64 (layers - on_gpu))
      in if on_gpu = 0 \<or> layers \<le> on_gpu then []
         else if (case system_ram_gib of Some ram \<Rightarrow> fmul ram GIB < host_bytes | None \<Rightarrow> False) then []
         else [OffloadLayers on_gpu layers (need host_bytes) (system_ram_gib = None)])"

definition suggestions ::
  "gguf_header \<Rightarrow> sizing \<Rightarrow> fit_request \<Rightarrow> f64 \<Rightarrow> u64 option \<Rightarrow> f64 option \<Rightarrow> fit_suggestion list option" where
  "suggestions h s rq available max_ctx system_ram_gib =
     (case kv_cache_suggestions h s rq available of
        None \<Rightarrow> None
      | Some narrower \<Rightarrow>
          Some ((case max_ctx of
                   Some m \<Rightarrow> [UseContext m (rq_kv_cache_type rq) (sliding_window h)] | None \<Rightarrow> []) @
                narrower @ quant_suggestion h s rq available @
                offload_suggestion s rq available system_ram_gib))"

section \<open>The estimate\<close>

definition base_estimate ::
  "gguf_header \<Rightarrow> string \<Rightarrow> fit_request \<Rightarrow> accelerator_memory \<Rightarrow> context_estimate" where
  "base_estimate h src rq memory =
     (empty_estimate src rq)\<lparr>ce_architecture := map_option shown_text (architecture h),
        ce_layers := block_count h, ce_available_gib := measured_gib memory,
        ce_training_context := trained_context h, ce_conservative_ceiling := sliding_window h\<rparr>"

definition declined :: "cannot_estimate_reason \<times> fit_detail \<Rightarrow> context_estimate \<Rightarrow> context_estimate" where
  "declined why e = e\<lparr>ce_cannot_estimate_reason := Some (fst why), ce_detail := Some (snd why)\<rparr>"

definition verdict ::
  "gguf_header \<Rightarrow> sizing \<Rightarrow> fit_request \<Rightarrow> f64 \<Rightarrow> f64 option \<Rightarrow> context_estimate \<Rightarrow>
     context_estimate option" where
  "verdict h s rq available system_ram_gib e =
     (let c = rq_context_size rq; kv = rq_kv_cache_type rq
      in case max_context s available kv (trained_context h) of
        None \<Rightarrow> None
      | Some max_ctx \<Rightarrow>
          (let e = e\<lparr>ce_max_context := max_ctx\<rparr>
           in if fits s c kv available then Some (e\<lparr>ce_outcome := Fits\<rparr>)
              else case suggestions h s rq available max_ctx system_ram_gib of
                None \<Rightarrow> None
              | Some out \<Rightarrow> Some (e\<lparr>ce_outcome := DoesNotFit, ce_suggestions := out\<rparr>)))"

definition estimate_fit ::
  "gguf_header \<Rightarrow> u64 \<Rightarrow> string \<Rightarrow> fit_request \<Rightarrow> accelerator_memory \<Rightarrow> f64 option \<Rightarrow>
     context_estimate option" where
  "estimate_fit h file_size src rq memory system_ram_gib =
     (let e = base_estimate h src rq memory
      in case sizing_of h file_size of
        Inl why \<Rightarrow> Some (declined why e)
      | Inr s \<Rightarrow>
          if MAX_PLAUSIBLE_BYTES \<le> total_bytes s (rq_context_size rq) (rq_kv_cache_type rq)
          then Some (declined (MissingMetadata, MoreThanAnExabyte (rq_context_size rq)) e)
          else
            (let e = (with_figures s rq e)\<lparr>ce_notes := notes_for h rq\<rparr>
             in case measured_gib memory of
               None \<Rightarrow> Some (declined (no_memory_reason memory) e)
             | Some available_gib \<Rightarrow>
                 if ssm h \<or> moe h \<or> widths_missing h
                 then Some (declined (no_verdict_reason h available_gib) e)
                 else verdict h s rq (fmul available_gib GIB) system_ram_gib e))"

section \<open>The lines of evidence\<close>

datatype evidence_line =
    EstimatedFrom string "string option" "u64 option"
  | DetailLine fit_detail
  | FiguresLine u64 bool "u64 list" kv_cache_type u64 f64
  | OfferedLine int f64
  | LargestContextLine kv_cache_type u64 bool
  | NoContextFitsLine kv_cache_type

definition ceiling_line :: "context_estimate \<Rightarrow> evidence_line list" where
  "ceiling_line e =
     (case (ce_outcome e, ce_max_context e) of
        (CannotEstimate, _) \<Rightarrow> []
      | (Fits, Some m) \<Rightarrow>
          if m < ce_context_size e then []
          else [LargestContextLine (ce_kv_cache_type e) m (ce_conservative_ceiling e)]
      | (Fits, None) \<Rightarrow> []
      | (DoesNotFit, Some m) \<Rightarrow> [LargestContextLine (ce_kv_cache_type e) m (ce_conservative_ceiling e)]
      | (DoesNotFit, None) \<Rightarrow> [NoContextFitsLine (ce_kv_cache_type e)])"

definition evidence_lines :: "context_estimate \<Rightarrow> evidence_line list" where
  "evidence_lines e =
     (if ce_cannot_estimate_reason e \<in> {Some HeaderUnreadable, Some NotAModel} then []
      else [EstimatedFrom (ce_source e) (ce_architecture e) (ce_layers e)]) @
     (case ce_detail e of Some d \<Rightarrow> [DetailLine d] | None \<Rightarrow> []) @
     (case shown_parts e of
        Some (parts, mib) \<Rightarrow>
          [FiguresLine (ce_context_size e) (ce_context_size_defaulted e) parts (ce_kv_cache_type e)
             mib (need (f64_of_u64 (mib * MIB)))]
      | None \<Rightarrow> []) @
     (case ce_available_gib e of
        Some available \<Rightarrow> OfferedLine (whole_mib_offered available) available # ceiling_line e
      | None \<Rightarrow> [])"

end
