(* ===== verification/Gguf_Fit_Properties.thy ===== *)
theory Gguf_Fit_Properties
  imports Gguf_Fit
begin

text \<open>
  What the memory estimate promises: the verdict is the one its printed figures give, the largest
  context is the largest one that the verdict accepts, what it suggests is true, and a layout it does
  not measure gets no verdict. The bounds are those of the code: a figure is given below \<open>2\<^sup>6\<^sup>0\<close> bytes,
  and a host has at most \<open>2\<^sup>5\<^sup>8\<close>.
\<close>

section \<open>Figures as whole MiB\<close>

definition mib_of :: "f64 \<Rightarrow> nat" where "mib_of x = unat (mib_up (round_bytes x))"

lemma unat_u64_of_f64: "unat (u64_of_f64 x) = min (nat \<lfloor>x\<rfloor>) (2 ^ 64 - 1)"
proof -
  consider "x < 0" | "0 \<le> x" "2 ^ 64 \<le> x" | "0 \<le> x" "x < 2 ^ 64" by linarith
  then show ?thesis
  proof cases
    case 1
    then show ?thesis by (simp add: u64_of_f64_def)
  next
    case 2
    then have "2 ^ 64 \<le> \<lfloor>x\<rfloor>" by (simp add: le_floor_iff)
    then have "2 ^ 64 \<le> nat \<lfloor>x\<rfloor>" by (simp add: le_nat_iff)
    with 2 show ?thesis by (simp add: u64_of_f64_def unat_minus_one_max min_absorb2)
  next
    case 3
    then have "0 \<le> \<lfloor>x\<rfloor>" "\<lfloor>x\<rfloor> < 2 ^ 64" by (simp_all add: floor_less_iff)
    have "nat z \<le> 2 ^ 64 - 1" if "z < 2 ^ 64" for z :: int using that by simp
    from this [OF \<open>\<lfloor>x\<rfloor> < 2 ^ 64\<close>] have "nat \<lfloor>x\<rfloor> \<le> 2 ^ 64 - 1" .
    moreover have "unat (of_int \<lfloor>x\<rfloor> :: u64) = nat \<lfloor>x\<rfloor>"
      using \<open>0 \<le> \<lfloor>x\<rfloor>\<close> \<open>\<lfloor>x\<rfloor> < 2 ^ 64\<close>
      by (simp add: unat_eq_nat_uint uint_word_of_int take_bit_int_eq_self)
    ultimately show ?thesis using 3 by (simp add: u64_of_f64_def min_absorb1)
  qed
qed

lemma f64_round_mono: "x \<le> y \<Longrightarrow> f64_round x \<le> f64_round y"
proof (cases "0 \<le> x \<or> y < 0")
  case True
  assume "x \<le> y"
  with True show ?thesis by (auto simp: f64_round_def intro!: floor_mono)
next
  case False
  assume "x \<le> y"
  have "0 \<le> \<lfloor>y + 1 / 2\<rfloor>" "0 \<le> \<lfloor>1 / 2 - x\<rfloor>" using False by (simp_all add: not_le not_less)
  then have "- \<lfloor>1 / 2 - x\<rfloor> \<le> \<lfloor>y + 1 / 2\<rfloor>" by linarith
  with False show ?thesis by (simp add: f64_round_def)
qed

lemma f64_round_near: "\<bar>of_int (f64_round x) - x\<bar> \<le> 1 / 2"
proof (cases "0 \<le> x")
  case True
  then have "f64_round x = \<lfloor>x + 1 / 2\<rfloor>" by (simp add: f64_round_def)
  then show ?thesis using floor_correct [of "x + 1 / 2"] by linarith
next
  case False
  then have "(of_int (f64_round x) :: rat) = - of_int \<lfloor>1 / 2 - x\<rfloor>" by (simp add: f64_round_def)
  then show ?thesis using floor_correct [of "1 / 2 - x"] by linarith
qed

lemma f64_round_of_int [simp]: "f64_round (of_int n) = n"
proof -
  have "\<bar>of_int (f64_round (of_int n)) - (of_int n :: rat)\<bar> < 1"
    using f64_round_near [of "of_int n"] by linarith
  then have "\<bar>f64_round (of_int n) - n\<bar> < 1" by (metis of_int_1 of_int_abs of_int_diff of_int_less_iff)
  then show ?thesis by simp
qed

lemma unat_round_bytes: "unat (round_bytes x) = min (nat (f64_round x)) (2 ^ 64 - 1)"
  by (simp add: round_bytes_def unat_u64_of_f64)

lemma mib_of_eq: "mib_of x = (min (nat (f64_round x)) (2 ^ 64 - 1) + 1048575) div 1048576"
  by (simp add: mib_of_def mib_up_def unat_div_ceil MIB_def unat_round_bytes)

lemma mib_of_mono: "x \<le> y \<Longrightarrow> mib_of x \<le> mib_of y"
  by (simp add: mib_of_eq div_le_mono min.coboundedI1 min.mono nat_mono f64_round_mono add_right_mono)

lemma mib_of_upper:
  assumes "x \<le> 2 ^ 20 * of_nat n"
  shows "mib_of x \<le> n"
proof -
  have "f64_round x \<le> f64_round (of_int (2 ^ 20 * int n))" using assms by (intro f64_round_mono) simp
  then have "f64_round x \<le> 2 ^ 20 * int n" by (simp only: f64_round_of_int)
  then have "nat (f64_round x) \<le> 1048576 * n" by simp
  then have "min (nat (f64_round x)) (2 ^ 64 - 1) \<le> 1048576 * n" by (rule min.coboundedI1)
  then have "(min (nat (f64_round x)) (2 ^ 64 - 1) + 1048575) div 1048576 \<le> (1048576 * n + 1048575) div 1048576"
    by (intro div_le_mono add_right_mono)
  also have "\<dots> = n" by simp
  finally show ?thesis by (simp add: mib_of_eq)
qed

lemma mib_of_lower:
  assumes "x \<le> 2 ^ 63"
  shows "x - 1 / 2 \<le> 2 ^ 20 * of_nat (mib_of x)"
proof -
  have b: "f64_round x \<le> 2 ^ 63"
    using f64_round_mono [OF assms] f64_round_of_int [of "2 ^ 63"] by simp
  have up: "n \<le> 1048576 * ((n + 1048575) div 1048576)" for n :: nat
    using dividend_less_times_div [of 1048576 "n + 1048575"] by simp
  have "nat (f64_round x) \<le> 2 ^ 63" using b by (simp add: nat_le_iff)
  then have "mib_of x = (nat (f64_round x) + 1048575) div 1048576"
    by (simp add: mib_of_eq min_absorb1)
  then have "int (nat (f64_round x)) \<le> int (1048576 * mib_of x)"
    using up [of "nat (f64_round x)"] by (simp only: of_nat_le_iff)
  moreover have "z \<le> 2 ^ 20 * int m" if "int (nat z) \<le> int (1048576 * m)" for z m
    using that by (cases "0 \<le> z") simp_all
  ultimately have "f64_round x \<le> 2 ^ 20 * int (mib_of x)" by blast
  then have "(of_int (f64_round x) :: rat) \<le> of_int (2 ^ 20 * int (mib_of x))" by (simp only: of_int_le_iff)
  moreover have "x - 1 / 2 \<le> of_int (f64_round x)" using f64_round_near [of x] by linarith
  ultimately show ?thesis by simp
qed

text \<open>As long as the parts stay below an exabyte each, the sum that is shown is exact.\<close>

lemma shown_sum_exact:
  assumes "sum_list (map mib_of parts) < 2 ^ 44"
  shows "shown_sum parts = of_nat (2 ^ 20 * sum_list (map mib_of parts))"
proof -
  have "unat (sum_list (map (\<lambda>part. mib_up (round_bytes part)) parts)) = sum_list (map mib_of parts)"
    using assms
  proof (induction parts)
    case (Cons p ps)
    then show ?case by (simp add: mib_of_def unat_word_ariths)
  qed simp
  then have "unat (sum_list (map (\<lambda>part. mib_up (round_bytes part)) parts) * MIB)
      = 2 ^ 20 * sum_list (map mib_of parts)"
    using assms by (simp add: MIB_def unat_word_ariths)
  moreover have "rounded (of_int (int (sum_list (map mib_of parts))) * 2 powi 20)
      = of_int (int (sum_list (map mib_of parts))) * 2 powi 20"
    using assms by (intro rounded_exact) simp
  moreover have "of_int (int n) * 2 powi 20 = (of_nat (2 ^ 20 * n) :: rat)" for n
    by (simp add: power_int_def)
  ultimately show ?thesis by (simp only: shown_sum_def f64_of_u64_def Let_def)
qed

section \<open>How the figures grow with the context\<close>

text \<open>What \<open>sizing_of\<close> gives: figures that are not negative, at least one element per token, and no
  layer wider than all of them.\<close>

definition sz_ok :: "sizing \<Rightarrow> bool" where
  "sz_ok s \<longleftrightarrow> 0 \<le> sz_weights s \<and> 0 \<le> sz_compute_base s \<and>
     rounded (sz_compute_base s) = sz_compute_base s \<and> 1 \<le> sz_kv_elements_per_token s \<and>
     0 \<le> sz_widest_layer_kv_elements s \<and>
     sz_widest_layer_kv_elements s \<le> sz_kv_elements_per_token s"

lemma f64_of_u64_nonneg [simp]: "0 \<le> f64_of_u64 n"
  unfolding f64_of_u64_def by (rule rounded_nonneg) (rule of_nat_0_le_iff)

lemma f64_of_u64_mono: "unat m \<le> unat n \<Longrightarrow> f64_of_u64 m \<le> f64_of_u64 n"
  unfolding f64_of_u64_def by (rule rounded_mono) (simp only: of_nat_le_iff)

lemma f64_of_u64_exact: "unat n \<le> 2 ^ 53 \<Longrightarrow> f64_of_u64 n = of_nat (unat n)"
  unfolding f64_of_u64_def by (rule rounded_of_nat)

lemma bytes_per_element_bounds: "1 / 2 \<le> bytes_per_element kv" "bytes_per_element kv \<le> 2"
  by (cases kv; simp)+

lemma bytes_per_element_nonneg [simp]: "0 \<le> bytes_per_element kv"
  using bytes_per_element_bounds(1) [of kv] by linarith

lemma compute_bytes_per_token_lower: "0 \<le> sz_widest_layer_kv_elements s \<Longrightarrow> 1024 \<le> compute_bytes_per_token s kv"
proof -
  assume w: "0 \<le> sz_widest_layer_kv_elements s"
  have r: "rounded 1024 = 1024" using rounded_of_int [of 1024] by simp
  have "rounded 1024 \<le> rounded (sz_widest_layer_kv_elements s * 2 + 1024)"
    using w by (intro rounded_mono) simp
  then show ?thesis
    by (simp add: compute_bytes_per_token_def mul_add_def fmul_def COMPUTE_BATCH_TOKENS_def MASK_BYTES_def r)
qed

lemma kv_bytes_mono:
  assumes "sz_ok s" "unat c \<le> unat d"
  shows "kv_bytes s c kv \<le> kv_bytes s d kv"
  using assms f64_of_u64_mono [OF assms(2)]
  by (auto simp: kv_bytes_def fmul_def sz_ok_def intro!: rounded_mono mult_left_mono mult_right_mono)

lemma compute_bytes_mono:
  assumes "sz_ok s" "unat c \<le> unat d"
  shows "compute_bytes s c kv \<le> compute_bytes s d kv"
proof -
  have "0 \<le> compute_bytes_per_token s kv"
    using compute_bytes_per_token_lower [of s kv] assms(1) by (simp add: sz_ok_def)
  then show ?thesis using f64_of_u64_mono [OF assms(2)]
    by (auto simp: compute_bytes_def mul_add_def intro!: rounded_mono mult_left_mono)
qed

lemma kv_bytes_nonneg: "sz_ok s \<Longrightarrow> 0 \<le> kv_bytes s c kv"
  by (auto simp: kv_bytes_def fmul_def sz_ok_def intro!: rounded_nonneg mult_nonneg_nonneg)

lemma compute_bytes_lower:
  assumes "sz_ok s"
  shows "1024 * f64_of_u64 c \<le> compute_bytes s c kv" "sz_compute_base s \<le> compute_bytes s c kv"
proof -
  let ?f = "f64_of_u64 c" and ?p = "compute_bytes_per_token s kv" and ?b = "sz_compute_base s"
  have p: "1024 \<le> ?p" and b: "0 \<le> ?b" "rounded ?b = ?b"
    using assms compute_bytes_per_token_lower [of s kv] by (simp_all add: sz_ok_def)
  have f: "1024 * ?f \<le> ?p * ?f" by (rule mult_right_mono [OF p]) simp
  have "rounded (?f * 2 powi 10) = ?f * 2 powi 10"
    unfolding rounded_pow2_mult by (simp add: f64_of_u64_def)
  then have "rounded (1024 * ?f) = 1024 * ?f" by (simp add: power_int_def mult.commute)
  moreover have "rounded (1024 * ?f) \<le> rounded (?p * ?f + ?b)" using f b by (intro rounded_mono) simp
  ultimately show "1024 * ?f \<le> compute_bytes s c kv" by (simp add: compute_bytes_def mul_add_def)
  have "rounded ?b \<le> rounded (?p * ?f + ?b)"
    using f f64_of_u64_nonneg [of c] by (intro rounded_mono) linarith
  then show "?b \<le> compute_bytes s c kv" by (simp add: compute_bytes_def mul_add_def b)
qed

text \<open>Parts below four exabytes add up without wrapping.\<close>

definition sound :: "sizing \<Rightarrow> u64 \<Rightarrow> kv_cache_type \<Rightarrow> bool" where
  "sound s c kv \<longleftrightarrow> sz_weights s \<le> 2 ^ 62 \<and> kv_bytes s c kv \<le> 2 ^ 62 \<and> compute_bytes s c kv \<le> 2 ^ 62"

definition shown_mib :: "sizing \<Rightarrow> u64 \<Rightarrow> kv_cache_type \<Rightarrow> nat" where
  "shown_mib s c kv = mib_of (sz_weights s) + mib_of (kv_bytes s c kv) + mib_of (compute_bytes s c kv) + 1280"

lemma mib_of_reserve: "mib_of RUNTIME_RESERVE_BYTES = 1280"
  using f64_round_of_int [of 1342177280] by (simp add: mib_of_eq RUNTIME_RESERVE_BYTES_def)

lemma mib_of_62: "x \<le> 2 ^ 62 \<Longrightarrow> mib_of x \<le> 2 ^ 42"
  by (rule mib_of_upper) simp

lemma shown_total_sound:
  assumes "sound s c kv"
  shows "shown_total s c kv = of_nat (2 ^ 20 * shown_mib s c kv)"
proof -
  let ?ps = "[sz_weights s, kv_bytes s c kv, compute_bytes s c kv, RUNTIME_RESERVE_BYTES]"
  have m: "sum_list (map mib_of ?ps) = shown_mib s c kv"
    by (simp add: shown_mib_def mib_of_reserve)
  have "mib_of (sz_weights s) \<le> 2 ^ 42" "mib_of (kv_bytes s c kv) \<le> 2 ^ 42"
    "mib_of (compute_bytes s c kv) \<le> 2 ^ 42"
    using assms unfolding sound_def by (blast intro: mib_of_62)+
  then have "shown_mib s c kv < 2 ^ 44" by (simp add: shown_mib_def)
  then show ?thesis
    using shown_sum_exact [of ?ps] by (simp only: m shown_total_def shown_total_with_def)
qed

lemma shown_mib_mono:
  "sz_ok s \<Longrightarrow> unat c \<le> unat d \<Longrightarrow> shown_mib s c kv \<le> shown_mib s d kv"
  by (simp add: shown_mib_def add_mono mib_of_mono kv_bytes_mono compute_bytes_mono)

lemma sound_mono: "sz_ok s \<Longrightarrow> sound s d kv \<Longrightarrow> unat c \<le> unat d \<Longrightarrow> sound s c kv"
  unfolding sound_def by (meson compute_bytes_mono kv_bytes_mono order_trans)

lemma fits_mono:
  assumes "sz_ok s" "sound s d kv" "unat c \<le> unat d" "fits s d kv available"
  shows "fits s c kv available"
proof -
  have "shown_total s c kv \<le> shown_total s d kv"
    unfolding shown_total_sound [OF assms(2)] shown_total_sound [OF sound_mono [OF assms(1-3)]] of_nat_le_iff
    by (intro mult_le_mono2 shown_mib_mono assms)
  then show ?thesis using assms(4) unfolding fits_def by linarith
qed

text \<open>A total that the report would show is one whose parts are sound.\<close>

lemma rounded_crude:
  assumes "0 \<le> x"
  shows "7 / 8 * x \<le> rounded x" "rounded x \<le> 9 / 8 * x"
  using rounded_lower [OF assms] rounded_upper [OF assms] assms by (simp_all add: field_simps)

lemma total_bytes_lower:
  assumes "sz_ok s"
  shows "343 / 512 * (sz_kv_elements_per_token s * bytes_per_element kv * f64_of_u64 c
      + compute_bytes_per_token s kv * f64_of_u64 c + sz_weights s + sz_compute_base s)
    \<le> total_bytes s c kv"
proof -
  let ?f = "f64_of_u64 c" and ?p = "compute_bytes_per_token s kv" and ?w = "sz_weights s"
    and ?cb = "sz_compute_base s" and ?kb = "sz_kv_elements_per_token s * bytes_per_element kv"
  have p: "0 \<le> ?p" "0 \<le> ?kb" "0 \<le> ?w" "0 \<le> ?cb"
    using assms compute_bytes_per_token_lower [of s kv] by (auto simp: sz_ok_def)
  have "7 / 8 * (?kb + ?p) \<le> bytes_per_token s kv"
    unfolding bytes_per_token_def mul_add_def by (rule rounded_crude(1)) (use p in linarith)
  then have "7 / 8 * (?kb + ?p) * ?f \<le> bytes_per_token s kv * ?f" by (rule mult_right_mono) simp
  then have a: "7 / 8 * (?kb * ?f + ?p * ?f) \<le> bytes_per_token s kv * ?f" by (simp add: algebra_simps)
  have x: "7 / 8 * (?w + ?cb) \<le> fadd ?w ?cb" unfolding fadd_def by (rule rounded_crude(1)) (use p in linarith)
  then have "7 / 8 * (fadd ?w ?cb + RUNTIME_RESERVE_BYTES) \<le> fixed s"
    using p unfolding fixed_def fadd_def [of _ RUNTIME_RESERVE_BYTES]
    by (intro rounded_crude) (simp add: RUNTIME_RESERVE_BYTES_def)
  then have b: "49 / 64 * (?w + ?cb) \<le> fixed s"
    using x by (simp add: RUNTIME_RESERVE_BYTES_def)
  have q: "0 \<le> ?kb * ?f" "0 \<le> ?p * ?f" using p by (auto intro: mult_nonneg_nonneg)
  have "0 \<le> bytes_per_token s kv" unfolding bytes_per_token_def mul_add_def
    by (intro rounded_nonneg add_nonneg_nonneg p)
  then have "0 \<le> bytes_per_token s kv * ?f" by simp
  moreover have "0 \<le> fixed s" using b p by simp
  ultimately have "7 / 8 * (bytes_per_token s kv * ?f + fixed s) \<le> total_bytes s c kv"
    unfolding total_bytes_def mul_add_def by (intro rounded_crude(1) add_nonneg_nonneg)
  moreover have "343 / 512 * (y + z + w + cb) \<le> m"
    if "7 / 8 * (y + z) \<le> u" "49 / 64 * (w + cb) \<le> v" "7 / 8 * (u + v) \<le> m" "0 \<le> y" "0 \<le> z"
    for y z w cb u v m :: rat using that by simp
  ultimately show ?thesis using a b q by blast
qed

lemma plausible_sound:
  assumes "sz_ok s" "total_bytes s c kv \<le> 2 ^ 61"
  shows "sound s c kv"
proof -
  let ?f = "f64_of_u64 c" and ?p = "compute_bytes_per_token s kv" and ?w = "sz_weights s"
    and ?cb = "sz_compute_base s" and ?k = "sz_kv_elements_per_token s" and ?b = "bytes_per_element kv"
  have p: "0 \<le> ?p" "0 \<le> ?k" "0 \<le> ?w" "0 \<le> ?cb"
    using assms(1) compute_bytes_per_token_lower [of s kv] by (auto simp: sz_ok_def)
  have q: "0 \<le> ?k * ?b * ?f" "0 \<le> ?p * ?f" "0 \<le> ?k * ?f" using p by (auto intro: mult_nonneg_nonneg)
  have t: "343 / 512 * (?k * ?b * ?f + ?p * ?f + ?w + ?cb) \<le> 2 ^ 61"
    using total_bytes_lower [OF assms(1), of kv c] assms(2) by linarith
  have "rounded (?k * ?f) * ?b \<le> 9 / 8 * (?k * ?f) * ?b"
    by (intro mult_right_mono rounded_crude q) simp
  then have "rounded (?k * ?f) * ?b \<le> 9 / 8 * (?k * ?b * ?f)" by (simp add: algebra_simps)
  moreover have "0 \<le> rounded (?k * ?f) * ?b" using q by (simp add: rounded_nonneg)
  ultimately have "kv_bytes s c kv \<le> 9 / 8 * (9 / 8 * (?k * ?b * ?f))"
    unfolding kv_bytes_def fmul_def using rounded_crude(2) [of "rounded (?k * ?f) * ?b"] by linarith
  moreover have "compute_bytes s c kv \<le> 9 / 8 * (?p * ?f + ?cb)"
    unfolding compute_bytes_def mul_add_def using q p by (intro rounded_crude) linarith
  moreover have "w \<le> 2 ^ 62 \<and> k \<le> 2 ^ 62 \<and> m \<le> 2 ^ 62"
    if "343 / 512 * (y + z + w + cb) \<le> 2 ^ 61" "0 \<le> y" "0 \<le> z" "0 \<le> w" "0 \<le> cb"
      "k \<le> 9 / 8 * (9 / 8 * y)" "m \<le> 9 / 8 * (z + cb)" for w k m y z cb :: rat
    using that by simp
  ultimately show ?thesis unfolding sound_def using t p q by blast
qed

section \<open>One more step of the search\<close>

text \<open>What fits on a host stays sound for the next step: from one step on, the next is at most the
  double, and doubling is exact.\<close>

lemma part_below_shown:
  assumes "sound s c kv" "fits s c kv available" "available \<le> 2 ^ 58"
  shows "sz_weights s \<le> 2 ^ 59" "kv_bytes s c kv \<le> 2 ^ 59" "compute_bytes s c kv \<le> 2 ^ 59"
proof -
  have b: "sz_weights s \<le> 2 ^ 63" "kv_bytes s c kv \<le> 2 ^ 63" "compute_bytes s c kv \<le> 2 ^ 63"
    using assms(1) by (auto simp: sound_def)
  have s: "(2 ^ 20 * of_nat (shown_mib s c kv) :: rat) \<le> 2 ^ 58"
    using assms(2,3) unfolding fits_def shown_total_sound [OF assms(1)] by simp
  have m: "(of_nat (shown_mib s c kv) :: rat) = of_nat (mib_of (sz_weights s)) + of_nat (mib_of (kv_bytes s c kv))
      + of_nat (mib_of (compute_bytes s c kv)) + 1280"
    by (simp add: shown_mib_def)
  have n: "(0 :: rat) \<le> of_nat (mib_of x)" for x by simp
  show "sz_weights s \<le> 2 ^ 59" "kv_bytes s c kv \<le> 2 ^ 59" "compute_bytes s c kv \<le> 2 ^ 59"
    using mib_of_lower [OF b(1)] mib_of_lower [OF b(2)] mib_of_lower [OF b(3)] s
      n [of "sz_weights s"] n [of "kv_bytes s c kv"] n [of "compute_bytes s c kv"]
    unfolding m by simp_all
qed

lemma context_bound:
  assumes "sz_ok s" "compute_bytes s c kv \<le> 2 ^ 59"
  shows "unat c < 2 ^ 50"
proof (rule ccontr)
  assume "\<not> unat c < 2 ^ 50"
  then have "f64_of_u64 (2 ^ 50) \<le> f64_of_u64 c" by (intro f64_of_u64_mono) simp
  then have "2 ^ 50 \<le> f64_of_u64 c" by (simp add: f64_of_u64_exact)
  with compute_bytes_lower(1) [OF assms(1), of c kv] assms(2) show False by simp
qed

lemma unat_next_step:
  assumes "unat c < 2 ^ 50"
  shows "unat (c + CONTEXT_STEP) = unat c + 256"
  using assms by (simp add: CONTEXT_STEP_def unat_word_ariths)

lemma step_doubles:
  assumes "sz_ok s" "unat c < 2 ^ 50" "256 \<le> unat c"
  shows "kv_bytes s (c + CONTEXT_STEP) kv \<le> 2 * kv_bytes s c kv"
    "compute_bytes s (c + CONTEXT_STEP) kv \<le> 2 * compute_bytes s c kv"
proof -
  let ?f = "f64_of_u64 c" and ?g = "f64_of_u64 (c + CONTEXT_STEP)" and ?k = "sz_kv_elements_per_token s"
    and ?p = "compute_bytes_per_token s kv" and ?cb = "sz_compute_base s" and ?b = "bytes_per_element kv"
  have k: "0 \<le> ?k" "0 \<le> ?p" "0 \<le> ?cb"
    using assms(1) compute_bytes_per_token_lower [of s kv] by (auto simp: sz_ok_def)
  have "?g \<le> rounded (2 * of_nat (unat c))"
    unfolding f64_of_u64_def unat_next_step [OF assms(2)] by (rule rounded_mono) (use assms(3) in linarith)
  also have "\<dots> = 2 * ?f" by (simp only: rounded_double f64_of_u64_def)
  finally have g: "?g \<le> 2 * ?f" .
  have "?k * ?g \<le> 2 * (?k * ?f)" using mult_left_mono [OF g k(1)] by (simp only: mult.left_commute)
  then have "rounded (?k * ?g) \<le> 2 * rounded (?k * ?f)" by (metis rounded_double rounded_mono)
  then have "rounded (?k * ?g) * ?b \<le> 2 * (rounded (?k * ?f) * ?b)"
    using mult_right_mono [of _ _ ?b] by (metis bytes_per_element_nonneg mult.assoc)
  then show "kv_bytes s (c + CONTEXT_STEP) kv \<le> 2 * kv_bytes s c kv"
    unfolding kv_bytes_def fmul_def by (metis rounded_double rounded_mono)
  have "?p * ?g \<le> 2 * (?p * ?f)" using mult_left_mono [OF g k(2)] by (simp only: mult.left_commute)
  then have "?p * ?g + ?cb \<le> 2 * (?p * ?f + ?cb)" using k(3) by simp
  then show "compute_bytes s (c + CONTEXT_STEP) kv \<le> 2 * compute_bytes s c kv"
    unfolding compute_bytes_def mul_add_def by (metis rounded_double rounded_mono)
qed

text \<open>The state of the search: the context is none, or one that fits and is sound; a first step is
  sound in any case.\<close>

definition searching :: "sizing \<Rightarrow> kv_cache_type \<Rightarrow> f64 \<Rightarrow> u64 \<Rightarrow> bool" where
  "searching s kv available c \<longleftrightarrow> c = 0 \<or> fits s c kv available \<and> sound s c kv"

lemma searching_bound:
  assumes "sz_ok s" "available \<le> 2 ^ 58" "searching s kv available c"
  shows "unat c < 2 ^ 50"
proof (cases "c = 0")
  case False
  then have "fits s c kv available" "sound s c kv" using assms(3) by (auto simp: searching_def)
  then have "compute_bytes s c kv \<le> 2 ^ 59" using assms(2) by (intro part_below_shown)
  then show ?thesis by (rule context_bound [OF assms(1)])
qed simp

lemma next_step_sound:
  assumes "sz_ok s" "sound s (2 * CONTEXT_STEP) kv" "available \<le> 2 ^ 58" "searching s kv available c"
  shows "sound s (c + CONTEXT_STEP) kv"
proof (cases "256 \<le> unat c")
  case True
  then have c: "fits s c kv available" "sound s c kv" using assms(4) by (auto simp: searching_def)
  note p = part_below_shown [OF c(2,1) assms(3)]
  note d = step_doubles [OF assms(1) searching_bound [OF assms(1,3,4)] True, of kv]
  have "kv_bytes s (c + CONTEXT_STEP) kv \<le> 2 ^ 62" "compute_bytes s (c + CONTEXT_STEP) kv \<le> 2 ^ 62"
    using p d by simp_all
  then show ?thesis using c(2) by (simp add: sound_def)
next
  case False
  then have "unat (c + CONTEXT_STEP) \<le> unat (2 * CONTEXT_STEP)"
    by (simp add: unat_next_step) (simp add: CONTEXT_STEP_def)
  then show ?thesis by (rule sound_mono [OF assms(1,2)])
qed

text \<open>Two steps are sound when one step is a plausible total, also with a narrower cache, whose
  dequantization adds at most its own width to the compute buffer.\<close>

lemma narrower_compute:
  assumes "sz_ok s" "bytes_per_element kv' \<le> bytes_per_element kv"
  shows "compute_bytes_per_token s kv'
    \<le> 9 / 8 * (sz_kv_elements_per_token s * bytes_per_element kv + compute_bytes_per_token s kv)"
proof (cases "kv' \<noteq> F16 \<and> kv = F16")
  case True
  let ?w = "sz_widest_layer_kv_elements s" and ?k = "sz_kv_elements_per_token s"
  have w: "0 \<le> ?w" "?w \<le> ?k" using assms(1) by (simp_all add: sz_ok_def)
  have r: "rounded 1024 = 1024" using rounded_of_int [of 1024] by simp
  have "compute_bytes_per_token s kv' = rounded (?w * 2 + 1024)" "compute_bytes_per_token s kv = 1024"
    using True by (simp_all add: compute_bytes_per_token_def mul_add_def fmul_def COMPUTE_BATCH_TOKENS_def MASK_BYTES_def r)
  moreover have "rounded (?w * 2 + 1024) \<le> 9 / 8 * (?w * 2 + 1024)" using w by (intro rounded_crude(2)) simp
  ultimately show ?thesis using True w by simp
next
  case False
  then have "compute_bytes_per_token s kv' = compute_bytes_per_token s kv"
    using assms(2) by (cases kv'; cases kv) (simp_all add: compute_bytes_per_token_def)
  moreover have "1024 \<le> compute_bytes_per_token s kv"
    using compute_bytes_per_token_lower [of s kv] assms(1) by (simp add: sz_ok_def)
  moreover have "0 \<le> sz_kv_elements_per_token s * bytes_per_element kv" using assms(1) by (simp add: sz_ok_def)
  ultimately show ?thesis by simp
qed

lemma two_steps_sound:
  assumes "sz_ok s" "total_bytes s CONTEXT_STEP kv \<le> 2 ^ 60" "bytes_per_element kv' \<le> bytes_per_element kv"
  shows "sound s (2 * CONTEXT_STEP) kv'"
proof -
  let ?p = "compute_bytes_per_token s kv" and ?p' = "compute_bytes_per_token s kv'" and ?w = "sz_weights s"
    and ?cb = "sz_compute_base s" and ?k = "sz_kv_elements_per_token s"
    and ?b = "bytes_per_element kv" and ?b' = "bytes_per_element kv'"
  have f: "f64_of_u64 CONTEXT_STEP = 256" "f64_of_u64 (2 * CONTEXT_STEP) = 512"
    by (simp_all add: f64_of_u64_exact CONTEXT_STEP_def)
  have p: "0 \<le> ?p" "0 \<le> ?p'" "0 \<le> ?k" "0 \<le> ?w" "0 \<le> ?cb" "0 \<le> ?k * ?b" "0 \<le> ?k * ?b'"
    using assms(1) compute_bytes_per_token_lower [of s kv] compute_bytes_per_token_lower [of s kv']
    by (auto simp: sz_ok_def)
  have t: "343 / 512 * (?k * ?b * 256 + ?p * 256 + ?w + ?cb) \<le> 2 ^ 60"
    using total_bytes_lower [OF assms(1), of kv CONTEXT_STEP] assms(2) unfolding f by linarith
  have "rounded (?k * 512) * ?b' \<le> 9 / 8 * (?k * 512) * ?b'"
    by (intro mult_right_mono rounded_crude) (use p in simp_all)
  then have k1: "rounded (?k * 512) * ?b' \<le> 576 * (?k * ?b')" by simp
  have "0 \<le> rounded (?k * 512) * ?b'" using p by (simp add: rounded_nonneg)
  then have "kv_bytes s (2 * CONTEXT_STEP) kv' \<le> 9 / 8 * (rounded (?k * 512) * ?b')"
    unfolding kv_bytes_def fmul_def f by (rule rounded_crude(2))
  moreover have "?k * ?b' \<le> ?k * ?b" using p assms(3) by (intro mult_left_mono)
  ultimately have k2: "kv_bytes s (2 * CONTEXT_STEP) kv' \<le> 648 * (?k * ?b)" using k1 by simp
  have "compute_bytes s (2 * CONTEXT_STEP) kv' \<le> 9 / 8 * (?p' * 512 + ?cb)"
    unfolding compute_bytes_def mul_add_def f using p by (intro rounded_crude) simp
  also have "\<dots> \<le> 9 / 8 * (9 / 8 * (?k * ?b + ?p) * 512 + ?cb)"
    by (intro mult_left_mono add_right_mono mult_right_mono narrower_compute assms) simp_all
  also have "9 / 8 * (?k * ?b + ?p) * 512 = 576 * (?k * ?b) + 576 * ?p" by simp
  finally have c: "compute_bytes s (2 * CONTEXT_STEP) kv' \<le> 9 / 8 * (576 * (?k * ?b) + 576 * ?p + ?cb)" .
  have "w \<le> 2 ^ 62 \<and> x \<le> 2 ^ 62 \<and> m \<le> 2 ^ 62"
    if "343 / 512 * (y * 256 + z * 256 + w + cb) \<le> 2 ^ 60" "0 \<le> y" "0 \<le> z" "0 \<le> w" "0 \<le> cb"
      "x \<le> 648 * y" "m \<le> 9 / 8 * (576 * y + 576 * z + cb)" for w x m y z cb :: rat
    using that by simp
  then show ?thesis unfolding sound_def using t p k2 c by blast
qed

section \<open>The search stops at the right place\<close>

lemma le_mult_of_div: "(a :: nat) div 256 \<le> b \<Longrightarrow> a mod 256 = 0 \<Longrightarrow> a \<le> b * 256"
  by (metis add.right_neutral mult.commute mult_div_mod_eq mult_le_mono2)

lemma skip_step:
  assumes n: "unat n = (unat c - 1) div 256 * 256"
    and k: "unat n < unat k" "unat k \<le> unat c" "unat k mod 256 = 0"
  shows "k = (c :: u64)"
proof -
  have "unat k = unat c"
  proof (rule ccontr)
    assume "unat k \<noteq> unat c"
    then have "unat k \<le> unat c - 1" using k(2) by simp
    then have "unat k div 256 \<le> (unat c - 1) div 256" by (rule div_le_mono)
    then have "unat k \<le> unat n" using k(3) unfolding n by (rule le_mult_of_div)
    with k(1) show False by simp
  qed
  then show ?thesis by (rule unsigned_word_eqI)
qed

lemma step_down_unfold:
  assumes "0 < c" "\<not> fits s c kv av"
  obtains n where "step_down s kv av c = step_down s kv av n" "unat n = (unat c - 1) div 256 * 256" "unat n < unat c"
proof -
  let ?n = "if c mod CONTEXT_STEP = 0 then c - CONTEXT_STEP else c div CONTEXT_STEP * CONTEXT_STEP"
  have "step_down s kv av c = step_down s kv av ?n" using assms step_down.simps [of s kv av c] by simp
  moreover have u: "unat ?n = (unat c - 1) div 256 * 256" by (rule step_down_less [OF assms(1)])
  moreover have "unat ?n < unat c"
  proof -
    have "(unat c - 1) div 256 * 256 \<le> unat c - 1" by simp
    moreover have "0 < unat c" using assms(1) by (simp add: word_less_nat_alt)
    ultimately show ?thesis unfolding u by linarith
  qed
  ultimately show ?thesis by (rule that)
qed

lemma step_down_stop: "\<not> (0 < c \<and> \<not> fits s c kv av) \<Longrightarrow> step_down s kv av c = c"
  by (subst step_down.simps) (simp only: if_False)

text \<open>Going down passes over every step that fits no more, and only over those.\<close>

lemma step_down_cases:
  shows step_down_le: "unat (step_down s kv av c) \<le> unat c"
    and step_down_fits: "step_down s kv av c = 0 \<or> fits s (step_down s kv av c) kv av"
    and step_down_whole: "step_down s kv av c = c \<or> unat (step_down s kv av c) mod 256 = 0"
    and step_down_skips: "unat (step_down s kv av c) < unat k \<Longrightarrow> unat k \<le> unat c \<Longrightarrow>
      unat k mod 256 = 0 \<Longrightarrow> \<not> fits s k kv av"
proof (induction "unat c" arbitrary: c rule: less_induct)
  case less
  { case 1
    show ?case
    proof (cases "0 < c \<and> \<not> fits s c kv av")
      case True
      then obtain n where n: "step_down s kv av c = step_down s kv av n" "unat n < unat c"
        using step_down_unfold by blast
      show ?thesis using less(1) [OF n(2)] n(2) unfolding n(1) by linarith
    qed (simp add: step_down_stop) }
  { case 2
    show ?case
    proof (cases "0 < c \<and> \<not> fits s c kv av")
      case True
      then obtain n where n: "step_down s kv av c = step_down s kv av n" "unat n < unat c"
        using step_down_unfold by blast
      show ?thesis using less(2) [OF n(2)] unfolding n(1) .
    next
      case False
      then have "c = 0 \<or> fits s c kv av" by (metis word_gt_0)
      then show ?thesis unfolding step_down_stop [OF False] .
    qed }
  { case 3
    show ?case
    proof (cases "0 < c \<and> \<not> fits s c kv av")
      case True
      then obtain n where n: "step_down s kv av c = step_down s kv av n"
        "unat n = (unat c - 1) div 256 * 256" "unat n < unat c"
        using step_down_unfold by blast
      have m: "unat n mod 256 = 0" by (simp add: n(2))
      show ?thesis using less(3) [OF n(3)] m unfolding n(1) by metis
    qed (simp add: step_down_stop) }
  { case 4
    show ?case
    proof (cases "0 < c \<and> \<not> fits s c kv av")
      case True
      then obtain n where n: "step_down s kv av c = step_down s kv av n"
        "unat n = (unat c - 1) div 256 * 256" "unat n < unat c"
        using step_down_unfold by blast
      show ?thesis
      proof (cases "unat k \<le> unat n")
        case le: True
        show ?thesis using 4(1) unfolding n(1) by (rule less(4) [OF n(3) _ le 4(3)])
      next
        case False
        then show ?thesis using skip_step [OF n(2) _ 4(2,3)] True by simp
      qed
    next
      case False
      show ?thesis using 4(1,2) unfolding step_down_stop [OF False] by simp
    qed }
qed

definition may_climb :: "sizing \<Rightarrow> kv_cache_type \<Rightarrow> f64 \<Rightarrow> u64 option \<Rightarrow> u64 \<Rightarrow> bool" where
  "may_climb s kv av cap c \<longleftrightarrow>
     (case cap of None \<Rightarrow> True | Some m \<Rightarrow> c + CONTEXT_STEP \<le> m) \<and> fits s (c + CONTEXT_STEP) kv av"

lemma step_up_unfold:
  "step_up s kv av cap c = (if may_climb s kv av cap c then step_up s kv av cap (c + CONTEXT_STEP) else Some c)"
  unfolding may_climb_def by (rule step_up.simps)

definition under_cap :: "u64 option \<Rightarrow> u64 \<Rightarrow> bool" where
  "under_cap cap c \<longleftrightarrow> (case cap of None \<Rightarrow> True | Some m \<Rightarrow> unat c \<le> unat m)"

lemma step_up_returns:
  assumes "sz_ok s" "sound s (2 * CONTEXT_STEP) kv" "av \<le> 2 ^ 58" "searching s kv av c" "under_cap cap c"
  shows "\<exists>r. step_up s kv av cap c = Some r \<and> searching s kv av r \<and> \<not> may_climb s kv av cap r \<and>
    unat c \<le> unat r \<and> unat r mod 256 = unat c mod 256 \<and> under_cap cap r"
  using assms(4,5)
proof (induction "2 ^ 50 - unat c" arbitrary: c rule: less_induct)
  case less
  show ?case
  proof (cases "may_climb s kv av cap c")
    case True
    let ?n = "c + CONTEXT_STEP"
    have b: "unat c < 2 ^ 50" by (rule searching_bound [OF assms(1,3) less(2)])
    have u: "unat ?n = unat c + 256" by (rule unat_next_step [OF b])
    have "searching s kv av ?n"
      using True next_step_sound [OF assms(1-3) less(2)] by (simp add: searching_def may_climb_def)
    moreover have "under_cap cap ?n" using True by (simp add: under_cap_def may_climb_def word_le_nat_alt split: option.splits)
    moreover have "2 ^ 50 - unat ?n < 2 ^ 50 - unat c" using b unfolding u by (intro diff_less_mono2) simp_all
    ultimately obtain r where "step_up s kv av cap ?n = Some r" "searching s kv av r" "\<not> may_climb s kv av cap r"
      "unat ?n \<le> unat r" "unat r mod 256 = unat ?n mod 256" "under_cap cap r"
      using less(1) [of ?n] by blast
    moreover have "unat ?n mod 256 = unat c mod 256" unfolding u by simp
    ultimately show ?thesis using True u by (auto simp: step_up_unfold [of s kv av cap c])
  next
    case False
    then show ?thesis using less(2,3) by (simp add: step_up_unfold [of s kv av cap c])
  qed
qed

text \<open>The search starts where the estimate of the room puts it, which is sound.\<close>

lemma search_start_le:
  assumes "0 \<le> x" "x = fdiv (fsub av (fixed s)) (bytes_per_token s kv)"
  shows "of_nat (unat (search_start s av kv cap)) \<le> x"
proof -
  let ?raw = "u64_of_f64 (of_int \<lfloor>x\<rfloor>)"
  have r: "of_nat (unat ?raw) \<le> x"
  proof -
    have "unat ?raw \<le> nat \<lfloor>x\<rfloor>" by (simp add: unat_u64_of_f64)
    then have "(of_nat (unat ?raw) :: rat) \<le> of_nat (nat \<lfloor>x\<rfloor>)" by (simp only: of_nat_le_iff)
    also have "\<dots> \<le> x" using assms(1) by simp
    finally show ?thesis .
  qed
  have "unat (search_start s av kv cap) \<le> unat ?raw"
    using whole_steps [of ?raw]
    by (auto simp: search_start_def Let_def assms(2) [symmetric] word_le_nat_alt split: option.splits)
  then have "(of_nat (unat (search_start s av kv cap)) :: rat) \<le> of_nat (unat ?raw)" by (simp only: of_nat_le_iff)
  then show ?thesis using r by linarith
qed

lemma search_start_cases:
  "unat (search_start s av kv cap) mod 256 = 0 \<or> cap = Some (search_start s av kv cap)"
  using whole_steps by (auto simp: search_start_def Let_def split: option.splits)

lemma search_start_under_cap: "under_cap cap (search_start s av kv cap)"
proof -
  have "unat c div 256 * 256 \<le> unat m" if "unat c < unat m" for c m :: u64
    using that by (meson div_times_less_eq_dividend le_trans less_imp_le)
  then show ?thesis
    by (auto simp: under_cap_def search_start_def Let_def whole_steps word_le_nat_alt split: option.splits)
qed

lemma search_start_sound:
  assumes "sz_ok s" "av \<le> 2 ^ 58" "0 < fsub av (fixed s)"
  shows "sound s (search_start s av kv cap) kv"
proof (rule plausible_sound [OF assms(1)])
  let ?c = "search_start s av kv cap" and ?per = "bytes_per_token s kv" and ?room = "fsub av (fixed s)"
    and ?x = "fdiv (fsub av (fixed s)) (bytes_per_token s kv)" and ?f = "f64_of_u64 (search_start s av kv cap)"
  have "1024 \<le> compute_bytes_per_token s kv"
    using compute_bytes_per_token_lower [of s kv] assms(1) by (simp add: sz_ok_def)
  moreover have "0 \<le> sz_kv_elements_per_token s * bytes_per_element kv" using assms(1) by (simp add: sz_ok_def)
  ultimately have per: "0 < ?per" unfolding bytes_per_token_def mul_add_def by (intro rounded_pos) simp
  have fx: "0 \<le> fixed s" using assms(1) unfolding fixed_def fadd_def sz_ok_def
    by (auto intro!: rounded_nonneg add_nonneg_nonneg simp: RUNTIME_RESERVE_BYTES_def)
  have d: "0 < av - fixed s"
    using assms(3) unfolding fsub_def by (metis linorder_not_less rounded_0 rounded_mono)
  have room: "?room \<le> 9 / 8 * (av - fixed s)" unfolding fsub_def by (rule rounded_crude(2)) (use d in simp)
  have q: "0 \<le> ?room / ?per" using assms(3) per by simp
  have x: "0 \<le> ?x" "?x \<le> 9 / 8 * (?room / ?per)"
    unfolding fdiv_def by (rule rounded_nonneg [OF q], rule rounded_crude(2) [OF q])
  have "?f \<le> 9 / 8 * of_nat (unat ?c)" unfolding f64_of_u64_def
    by (rule rounded_crude(2)) (rule of_nat_0_le_iff)
  also have "\<dots> \<le> 9 / 8 * ?x" using search_start_le [OF x(1) refl, of cap] by simp
  also have "\<dots> \<le> 81 / 64 * (?room / ?per)" using x(2) by simp
  finally have "?per * ?f \<le> ?per * (81 / 64 * (?room / ?per))" using per by (intro mult_left_mono) simp_all
  also have "\<dots> = 81 / 64 * ?room" using per by simp
  finally have pf: "?per * ?f \<le> 81 / 64 * ?room" .
  have "0 \<le> ?per * ?f" using per by simp
  then have "total_bytes s ?c kv \<le> 9 / 8 * (?per * ?f + fixed s)"
    unfolding total_bytes_def mul_add_def using fx by (intro rounded_crude(2)) simp
  then show "total_bytes s ?c kv \<le> 2 ^ 61" using pf room d fx assms(2) by simp
qed

text \<open>Where the fixed part alone takes all there is, no step fits.\<close>

lemma reserve: "RUNTIME_RESERVE_BYTES = 1342177280" by (simp add: RUNTIME_RESERVE_BYTES_def)

lemma no_room_no_step:
  assumes "sz_ok s" "sound s c kv" "fsub av (fixed s) \<le> 0" "256 \<le> unat c"
  shows "\<not> fits s c kv av"
proof
  let ?w = "sz_weights s" and ?cb = "sz_compute_base s"
  assume "fits s c kv av"
  then have sh: "2 ^ 20 * of_nat (shown_mib s c kv) \<le> av"
    by (simp add: fits_def shown_total_sound [OF assms(2)])
  have ok: "0 \<le> ?w" "0 \<le> ?cb" "1 \<le> sz_kv_elements_per_token s" using assms(1) by (simp_all add: sz_ok_def)
  have b: "?w \<le> 2 ^ 62" "kv_bytes s c kv \<le> 2 ^ 62" "compute_bytes s c kv \<le> 2 ^ 62"
    using assms(2) by (simp_all add: sound_def)
  have cb: "?cb \<le> compute_bytes s c kv" by (rule compute_bytes_lower(2) [OF assms(1)])
  have "1 \<le> mib_of (kv_bytes s c kv)"
  proof -
    have "f64_of_u64 256 \<le> f64_of_u64 c" by (rule f64_of_u64_mono) (use assms(4) in simp)
    then have f: "256 \<le> f64_of_u64 c" by (simp add: f64_of_u64_exact)
    have "rounded 256 \<le> rounded (sz_kv_elements_per_token s * f64_of_u64 c)"
      using mult_mono [OF ok(3) f] ok(3) by (intro rounded_mono) simp
    then have "256 \<le> rounded (sz_kv_elements_per_token s * f64_of_u64 c)"
      using rounded_of_int [of 256] by simp
    then have "256 * (1 / 2) \<le> rounded (sz_kv_elements_per_token s * f64_of_u64 c) * bytes_per_element kv"
      by (intro mult_mono bytes_per_element_bounds) simp_all
    then have "rounded 128 \<le> kv_bytes s c kv" unfolding kv_bytes_def fmul_def by (intro rounded_mono) simp
    then have "of_int 128 \<le> kv_bytes s c kv" using rounded_of_int [of 128] by simp
    then have "mib_of (of_int 128) \<le> mib_of (kv_bytes s c kv)" by (rule mib_of_mono)
    then show ?thesis by (simp only: mib_of_eq f64_round_of_int) simp
  qed
  then have k: "1 \<le> (of_nat (mib_of (kv_bytes s c kv)) :: rat)" by simp
  have m: "(of_nat (shown_mib s c kv) :: rat) = of_nat (mib_of ?w) + of_nat (mib_of (kv_bytes s c kv))
      + of_nat (mib_of (compute_bytes s c kv)) + 1280"
    by (simp add: shown_mib_def)
  have low: "?w - 1 / 2 \<le> 2 ^ 20 * of_nat (mib_of ?w)"
    "compute_bytes s c kv - 1 / 2 \<le> 2 ^ 20 * of_nat (mib_of (compute_bytes s c kv))"
    by (rule mib_of_lower, use b in simp)+
  have "fadd ?w ?cb \<le> (?w + ?cb) + (?w + ?cb) / 2 ^ 53"
    unfolding fadd_def by (rule rounded_upper) (use ok in simp)
  moreover have "0 \<le> fadd ?w ?cb" unfolding fadd_def by (rule rounded_nonneg) (use ok in simp)
  then have "fixed s \<le> (fadd ?w ?cb + RUNTIME_RESERVE_BYTES) + (fadd ?w ?cb + RUNTIME_RESERVE_BYTES) / 2 ^ 53"
    unfolding fixed_def fadd_def [of _ RUNTIME_RESERVE_BYTES]
    by (intro rounded_upper) (simp add: RUNTIME_RESERVE_BYTES_def)
  moreover have "av \<le> fixed s"
    using assms(3) rounded_pos [of "av - fixed s"] unfolding fsub_def by linarith
  moreover have False
    if "x \<le> (w + p) + (w + p) / 2 ^ 53" "fx \<le> (x + r) + (x + r) / 2 ^ 53" "av \<le> fx" "r = 1342177280"
      "2 ^ 20 * (mw + mk + mc + 1280) \<le> av" "1 \<le> mk" "w - 1 / 2 \<le> 2 ^ 20 * mw"
      "c - 1 / 2 \<le> 2 ^ 20 * mc" "w \<le> 2 ^ 62" "c \<le> 2 ^ 62" "p \<le> c"
    for x w p fx r mw mk mc c :: rat
  proof -
    have "(w + p) / 2 ^ 53 \<le> 2 ^ 10" using that(9-11) by simp
    then have x: "x \<le> w + p + 2 ^ 10" using that(1) by linarith
    have "(x + r) / 2 ^ 53 \<le> 2 ^ 11" using x that(4,9-11) by simp
    then have "fx \<le> x + r + 2 ^ 11" using that(2) by linarith
    then show False using x that(3-8,11) by simp
  qed
  ultimately show False
    using sh k low b(1,3) cb unfolding m using reserve by blast
qed

text \<open>The largest step: what the search returns, for a host of at most \<open>2\<^sup>5\<^sup>8\<close> bytes.\<close>

definition largest_context :: "sizing \<Rightarrow> kv_cache_type \<Rightarrow> f64 \<Rightarrow> u64 option \<Rightarrow> u64 option \<Rightarrow> bool" where
  "largest_context s kv av cap m \<longleftrightarrow>
     (case m of None \<Rightarrow> True
      | Some c \<Rightarrow> 0 < c \<and> fits s c kv av \<and> under_cap cap c \<and> (unat c mod 256 = 0 \<or> cap = Some c)) \<and>
     (\<forall>k. 0 < k \<and> unat k mod 256 = 0 \<and> under_cap cap k \<and> total_bytes s k kv < MAX_PLAUSIBLE_BYTES \<and>
        fits s k kv av \<longrightarrow> (case m of None \<Rightarrow> False | Some c \<Rightarrow> k \<le> c))"

lemma climbed_is_largest:
  assumes "sz_ok s" "\<not> may_climb s kv av cap r" "unat r mod 256 = 0 \<or> cap = Some r"
    and "unat r < 2 ^ 50" "unat k mod 256 = 0" "under_cap cap k" "sound s k kv" "fits s k kv av"
  shows "unat k \<le> unat r"
proof (rule ccontr)
  assume "\<not> unat k \<le> unat r"
  then have k: "unat r < unat k" by simp
  with assms(3,6) have r: "unat r mod 256 = 0" by (auto simp: under_cap_def)
  have n: "unat (r + CONTEXT_STEP) = unat r + 256" by (rule unat_next_step [OF assms(4)])
  have "unat r div 256 < unat k div 256"
    using k r assms(5) by (metis add.right_neutral le_mult_of_div linorder_not_less mult.commute mult_div_mod_eq)
  then have "unat r div 256 * 256 + 256 \<le> unat k div 256 * 256" by simp
  then have le: "unat (r + CONTEXT_STEP) \<le> unat k"
    unfolding n using r assms(5) by (metis add.right_neutral mult.commute mult_div_mod_eq)
  have "fits s (r + CONTEXT_STEP) kv av" by (rule fits_mono [OF assms(1,7) le assms(8)])
  moreover have "case cap of None \<Rightarrow> True | Some m \<Rightarrow> r + CONTEXT_STEP \<le> m"
    using assms(6) le by (auto simp: under_cap_def word_le_nat_alt split: option.splits)
  ultimately show False using assms(2) by (simp add: may_climb_def)
qed

lemma max_context_exact:
  assumes "sz_ok s" "sound s (2 * CONTEXT_STEP) kv" "av \<le> 2 ^ 58"
  shows "\<exists>m. max_context s av kv cap = Some m \<and> largest_context s kv av cap m"
proof (cases "fsub av (fixed s) \<le> 0")
  case True
  have "\<not> fits s k kv av" if "0 < k" "unat k mod 256 = 0" "total_bytes s k kv < MAX_PLAUSIBLE_BYTES" for k
  proof (rule no_room_no_step [OF assms(1) _ True])
    show "sound s k kv" using that(3) by (intro plausible_sound [OF assms(1)]) (simp add: MAX_PLAUSIBLE_BYTES_def)
    show "256 \<le> unat k" using that(1,2) by (auto simp: mod_eq_0_iff_dvd word_less_nat_alt intro!: dvd_imp_le)
  qed
  then show ?thesis using True by (auto simp: max_context_def largest_context_def)
next
  case False
  define a where "a = search_start s av kv cap"
  define d where "d = step_down s kv av a"
  have "sound s a kv" unfolding a_def using False by (intro search_start_sound assms) simp
  then have snd: "sound s d kv" unfolding d_def by (rule sound_mono [OF assms(1) _ step_down_le])
  then have sr: "searching s kv av d" using step_down_fits [of s kv av a] by (auto simp: searching_def d_def)
  have uc: "under_cap cap d"
    using search_start_under_cap [of cap s av kv] step_down_le [of s kv av a]
    by (auto simp: under_cap_def a_def d_def split: option.splits)
  obtain r where r: "step_up s kv av cap d = Some r" "searching s kv av r" "\<not> may_climb s kv av cap r"
    "unat d \<le> unat r" "unat r mod 256 = unat d mod 256" "under_cap cap r"
    using step_up_returns [OF assms sr uc] by blast
  have w: "unat r mod 256 = 0 \<or> cap = Some r"
  proof (cases "unat d mod 256 = 0")
    case False
    then have "d = a" using step_down_whole [of s kv av a] by (auto simp: d_def)
    then have c: "cap = Some d" using search_start_cases [of s av kv cap] False by (auto simp: a_def)
    with r(4,6) have "unat r = unat d" by (simp add: under_cap_def)
    then have "r = d" by (rule unsigned_word_eqI)
    with c show ?thesis by simp
  qed (simp add: r(5))
  have l: "k \<le> r" if "unat k mod 256 = 0" "under_cap cap k" "total_bytes s k kv < MAX_PLAUSIBLE_BYTES"
    "fits s k kv av" for k
  proof -
    have "sound s k kv" using that(3) by (intro plausible_sound [OF assms(1)]) (simp add: MAX_PLAUSIBLE_BYTES_def)
    then show ?thesis
      using climbed_is_largest [OF assms(1) r(3) w searching_bound [OF assms(1,3) r(2)] that(1,2) _ that(4)]
      by (simp add: word_le_nat_alt)
  qed
  have m: "max_context s av kv cap = Some (if 0 < r then Some r else None)"
    using False r(1) by (simp add: max_context_def a_def d_def)
  have "largest_context s kv av cap (if 0 < r then Some r else None)"
  proof (cases "0 < r")
    case True
    then have "fits s r kv av" using r(2) by (auto simp: searching_def)
    with True show ?thesis using l r(6) w by (simp add: largest_context_def)
  next
    case False
    then have "r = 0" by (metis word_gt_0)
    then have "\<not> (0 < k \<and> unat k mod 256 = 0 \<and> under_cap cap k \<and>
      total_bytes s k kv < MAX_PLAUSIBLE_BYTES \<and> fits s k kv av)" for k
      using l [of k] by (metis word_gt_0 word_le_0_iff)
    with False show ?thesis by (simp only: largest_context_def if_False option.case) blast
  qed
  with m show ?thesis by blast
qed

section \<open>What the sizing is\<close>

lemma kv_layers_sum:
  assumes "kv_layers h ls (k, w) = Inr (k', w')"
  shows "\<exists>es. map (layer_elements h) ls = map Inr es \<and>
    unat k' = min (unat k + sum_list (map unat es)) (2 ^ 64 - 1) \<and> w' = fold max es w"
  using assms
proof (induction ls arbitrary: k w)
  case Nil
  have "unat k \<le> 2 ^ 64 - 1" using unsigned_less [of k, where ?'a = nat] by simp
  with Nil show ?case by (intro exI [of _ "[]"]) simp
next
  case (Cons l ls)
  then obtain e where e: "layer_elements h l = Inr e"
    and r: "kv_layers h ls (saturating_add k e, max w e) = Inr (k', w')"
    by (cases "layer_elements h l") auto
  obtain es where es: "map (layer_elements h) ls = map Inr es"
    "unat k' = min (unat (saturating_add k e) + sum_list (map unat es)) (2 ^ 64 - 1)"
    "w' = fold max es (max w e)"
    using Cons.IH [OF r] by blast
  have "min (min (a :: nat) m + b) m = min (a + b) m" for a b m by simp
  then have "unat k' = min (unat k + sum_list (map unat (e # es))) (2 ^ 64 - 1)"
    using es(2) by (simp add: unat_saturating_add add.assoc)
  then show ?case using e es(1,3) by (intro exI [of _ "e # es"]) (simp add: max.commute)
qed

lemma fold_max_bounds:
  "(w :: u64) \<le> fold max es w" "e \<in> set es \<Longrightarrow> e \<le> fold max es w"
proof (induction es arbitrary: w)
  case (Cons a es)
  { case 1 show ?case using Cons.IH(1) [of "max a w"] by simp }
  { case 2 then show ?case using Cons.IH(1) [of "max a w"] Cons.IH(2) [of "max a w"] by auto }
qed simp_all

lemma fold_max_in: "fold max es (w :: u64) = w \<or> fold max es w \<in> set es"
proof (induction es arbitrary: w)
  case (Cons a es)
  then show ?case using Cons.IH [of "max a w"] by (auto simp: max_def split: if_splits)
qed simp

lemma kv_layers_widest:
  assumes "kv_layers h ls (0, 0) = Inr (k, w)"
  shows "w \<le> k"
proof -
  obtain es where es: "unat k = min (0 + sum_list (map unat es)) (2 ^ 64 - 1)" "w = fold max es 0"
    using kv_layers_sum [OF assms] by auto
  have "unat e \<le> unat k" if "e \<in> set es" for e
  proof -
    have "unat e \<le> sum_list (map unat es)" using that by (intro member_le_sum_list) simp_all
    moreover have "unat e \<le> 2 ^ 64 - 1" using unsigned_less [of e, where ?'a = nat] by simp
    ultimately show ?thesis using es(1) by simp
  qed
  then show ?thesis using fold_max_in [of es 0] es(2) by (auto simp: word_le_nat_alt)
qed

text \<open>The sizing of a header, case by case.\<close>

lemma sizing_of_Inr:
  assumes "sizing_of h bs = Inr s"
  obtains layers data kv_elements widest where
    "block_count h = Some layers" "0 < layers" "layers \<le> MAX_BLOCK_COUNT" "\<not> latent_attention h"
    "\<not> (case split_count h of Some count \<Rightarrow> 1 < count | None \<Rightarrow> False)"
    "unat data + unat (data_offset h) = unat bs" "0 < data"
    "kv_layers h [0..<unat layers] (0, 0) = Inr (kv_elements, widest)" "kv_elements \<noteq> 0"
    "s = \<lparr>sz_data = f64_of_u64 data,
          sz_weights = f64_of_u64 (saturating_sub data (embedding_bytes h data)),
          sz_compute_base = fmul (fmul COMPUTE_BATCH_TOKENS
            (mul_add 3 (f64_of_u64 (case feed_forward_length h of Some n \<Rightarrow> n | None \<Rightarrow> 0))
              (fmul 3 (f64_of_u64 (case embedding_length h of Some n \<Rightarrow> n | None \<Rightarrow> 0))))) 4,
          sz_kv_elements_per_token = f64_of_u64 kv_elements,
          sz_widest_layer_kv_elements = f64_of_u64 widest, sz_layers = layers\<rparr>"
proof -
  have ns: "\<not> (case split_count h of Some count \<Rightarrow> 1 < count | None \<Rightarrow> False)" "\<not> latent_attention h"
    using assms by (auto simp: sizing_of_def split: if_splits)
  obtain layers where l: "block_count h = Some layers" "0 < layers" "\<not> MAX_BLOCK_COUNT < layers"
    using assms ns by (auto simp: sizing_of_def split: if_splits option.splits)
  obtain data where d: "checked_sub bs (data_offset h) = Some data" "0 < data"
    using assms ns l by (auto simp: sizing_of_def split: if_splits option.splits)
  obtain k w where k: "kv_layers h [0..<unat layers] (0, 0) = Inr (k, w)"
    using assms ns l d by (cases "kv_layers h [0..<unat layers] (0, 0)") (auto simp: sizing_of_def)
  have nz: "k \<noteq> 0" using assms ns l d k by (auto simp: sizing_of_def)
  show ?thesis
  proof (rule that [OF l(1,2) _ ns(2,1) checked_sub_Some [OF d(1)] d(2) k nz])
    show "layers \<le> MAX_BLOCK_COUNT" using l(3) by simp
  qed (use assms ns l d k nz in \<open>auto simp: sizing_of_def Let_def\<close>)
qed

lemma sizing_ok:
  assumes "sizing_of h bs = Inr s"
  shows "sz_ok s"
proof (rule sizing_of_Inr [OF assms], goal_cases)
  case (1 layers data k w)
  note s = 1(8,9) and eq = 1(10)
  have "f64_of_u64 1 \<le> f64_of_u64 k"
    using s(2) by (intro f64_of_u64_mono) (metis Suc_leI One_nat_def unat_1 unat_gt_0)
  then have k: "1 \<le> f64_of_u64 k" using f64_of_u64_exact [of 1] by simp
  have w: "f64_of_u64 w \<le> f64_of_u64 k"
    using kv_layers_widest [OF s(1)] by (intro f64_of_u64_mono) (simp add: word_le_nat_alt)
  have "0 \<le> sz_compute_base s"
    unfolding eq sizing.simps fmul_def mul_add_def COMPUTE_BATCH_TOKENS_def
    by (intro rounded_nonneg mult_nonneg_nonneg add_nonneg_nonneg) simp_all
  then show ?thesis using k w by (simp add: sz_ok_def eq fmul_def)
qed

section \<open>Every search of an estimate ends\<close>

lemma total_bytes_mono:
  assumes "sz_ok s" "unat c \<le> unat d"
  shows "total_bytes s c kv \<le> total_bytes s d kv"
proof -
  have "0 \<le> compute_bytes_per_token s kv"
    using compute_bytes_per_token_lower [of s kv] assms(1) by (simp add: sz_ok_def)
  then have "0 \<le> bytes_per_token s kv" using assms(1) unfolding bytes_per_token_def mul_add_def
    by (intro rounded_nonneg add_nonneg_nonneg mult_nonneg_nonneg) (simp_all add: sz_ok_def)
  then show ?thesis unfolding total_bytes_def mul_add_def
    by (intro rounded_mono add_right_mono mult_left_mono f64_of_u64_mono assms)
qed

lemma all_some_map: "(\<And>x. x \<in> set xs \<Longrightarrow> \<exists>y. f x = Some y) \<Longrightarrow> \<exists>ys. all_some (map f xs) = Some ys"
proof (induction xs)
  case (Cons a xs)
  from Cons.prems [of a] obtain y where "f a = Some y" by auto
  moreover from Cons obtain ys where "all_some (map f xs) = Some ys" by force
  ultimately show ?case by simp
qed simp

lemma suggestions_return:
  assumes "sz_ok s" "total_bytes s CONTEXT_STEP (rq_kv_cache_type rq) \<le> 2 ^ 60" "av \<le> 2 ^ 58"
  shows "\<exists>out. suggestions h s rq av m ram = Some out"
proof -
  have "\<exists>y. kv_cache_suggestion h s (rq_context_size rq) av kv' = Some y"
    if "bytes_per_element kv' < bytes_per_element (rq_kv_cache_type rq)" for kv'
  proof -
    have "sound s (2 * CONTEXT_STEP) kv'" using that by (intro two_steps_sound [OF assms(1,2)]) simp
    then obtain m where "max_context s av kv' (trained_context h) = Some m"
      using max_context_exact [OF assms(1) _ assms(3)] by blast
    then show ?thesis by (simp add: kv_cache_suggestion_def Let_def)
  qed
  then have "\<exists>ys. all_some (map (kv_cache_suggestion h s (rq_context_size rq) av)
      (filter (\<lambda>other. bytes_per_element other < bytes_per_element (rq_kv_cache_type rq) \<and>
         shown_total s (rq_context_size rq) other < shown_total s (rq_context_size rq) (rq_kv_cache_type rq))
        kv_cache_all)) = Some ys"
    by (intro all_some_map) auto
  then show ?thesis by (auto simp: suggestions_def kv_cache_suggestions_def Let_def)
qed

section \<open>The properties of an estimate\<close>

lemma verdict_returns:
  assumes "sz_ok s" "total_bytes s (rq_context_size rq) (rq_kv_cache_type rq) < MAX_PLAUSIBLE_BYTES"
    and "256 \<le> unat (rq_context_size rq)" "av \<le> 2 ^ 58"
  shows "\<exists>e'. verdict h s rq av ram e = Some e' \<and> ce_outcome e' \<noteq> CannotEstimate \<and>
    largest_context s (rq_kv_cache_type rq) av (trained_context h) (ce_max_context e') \<and>
    (ce_outcome e' = Fits \<longleftrightarrow> fits s (rq_context_size rq) (rq_kv_cache_type rq) av)"
proof -
  let ?c = "rq_context_size rq" and ?kv = "rq_kv_cache_type rq"
  have "total_bytes s CONTEXT_STEP ?kv \<le> total_bytes s ?c ?kv"
    using assms(3) by (intro total_bytes_mono [OF assms(1)]) (simp add: CONTEXT_STEP_def)
  then have t: "total_bytes s CONTEXT_STEP ?kv \<le> 2 ^ 60" using assms(2) by (simp add: MAX_PLAUSIBLE_BYTES_def)
  obtain m where m: "max_context s av ?kv (trained_context h) = Some m"
    "largest_context s ?kv av (trained_context h) m"
    using max_context_exact [OF assms(1) two_steps_sound [OF assms(1) t order_refl] assms(4)] by blast
  obtain out where "suggestions h s rq av m ram = Some out"
    using suggestions_return [OF assms(1) t assms(4)] by blast
  with m show ?thesis by (auto simp: verdict_def Let_def)
qed

text \<open>C25. On a host of at most \<open>2\<^sup>5\<^sup>8\<close> bytes and for a request of at least one step, the estimate of a
  model that can be sized returns, and where it gives a verdict the largest context it reports is
  exactly the largest one the verdict's own predicate accepts: it fits, it is a whole number of
  steps or the trained context, it is within the trained context, and no plausible step beyond it
  fits; where it reports none, not one step fits. The verdict is that predicate at the request.\<close>

theorem largest_context_exact:
  assumes "sizing_of h bs = Inr s" "256 \<le> unat (rq_context_size rq)" "fmul g GIB \<le> 2 ^ 58"
  shows "\<exists>e. estimate_fit h bs src rq (Dedicated g) ram = Some e \<and>
    (ce_outcome e = CannotEstimate \<or>
     largest_context s (rq_kv_cache_type rq) (fmul g GIB) (trained_context h) (ce_max_context e) \<and>
     (ce_outcome e = Fits \<longleftrightarrow> fits s (rq_context_size rq) (rq_kv_cache_type rq) (fmul g GIB)))"
proof -
  let ?c = "rq_context_size rq" and ?kv = "rq_kv_cache_type rq"
  have o: "ce_outcome (declined why e') = ce_outcome e'" for why e' by (simp add: declined_def)
  have b: "ce_outcome ((with_figures s rq (base_estimate h src rq m))\<lparr>ce_notes := n\<rparr>) = CannotEstimate"
    "ce_outcome (base_estimate h src rq m) = CannotEstimate" for m n
    by (simp_all add: with_figures_def base_estimate_def empty_estimate_def Let_def)
  show ?thesis
  proof (cases "MAX_PLAUSIBLE_BYTES \<le> total_bytes s ?c ?kv \<or> ssm h \<or> moe h \<or> widths_missing h")
    case True
    then show ?thesis by (auto simp: estimate_fit_def assms(1) o b Let_def)
  next
    case False
    then have t: "total_bytes s ?c ?kv < MAX_PLAUSIBLE_BYTES" by simp
    have "estimate_fit h bs src rq (Dedicated g) ram = verdict h s rq (fmul g GIB) ram
        ((with_figures s rq (base_estimate h src rq (Dedicated g)))\<lparr>ce_notes := notes_for h rq\<rparr>)"
      using False by (simp add: estimate_fit_def assms(1) Let_def)
    then show ?thesis using verdict_returns [OF sizing_ok [OF assms(1)] t assms(2,3)] by metis
  qed
qed

section \<open>A verdict and what it is given on\<close>

lemma verdict_Some:
  assumes "verdict h s rq av ram e = Some e'"
  obtains m where "max_context s av (rq_kv_cache_type rq) (trained_context h) = Some m"
    "fits s (rq_context_size rq) (rq_kv_cache_type rq) av"
    "e' = e\<lparr>ce_max_context := m, ce_outcome := Fits\<rparr>"
  | m out where "max_context s av (rq_kv_cache_type rq) (trained_context h) = Some m"
    "\<not> fits s (rq_context_size rq) (rq_kv_cache_type rq) av" "suggestions h s rq av m ram = Some out"
    "e' = e\<lparr>ce_max_context := m, ce_outcome := DoesNotFit, ce_suggestions := out\<rparr>"
  using assms by (auto simp: verdict_def Let_def split: option.splits if_splits)

text \<open>Where the estimate comes from, by the branches of \<open>estimate_fit\<close>.\<close>

lemma estimate_fit_cases:
  assumes "estimate_fit h bs src rq memory ram = Some e"
  obtains (sized) why where "sizing_of h bs = Inl why" "e = declined why (base_estimate h src rq memory)"
  | (implausible) s where "sizing_of h bs = Inr s"
      "MAX_PLAUSIBLE_BYTES \<le> total_bytes s (rq_context_size rq) (rq_kv_cache_type rq)"
      "e = declined (MissingMetadata, MoreThanAnExabyte (rq_context_size rq)) (base_estimate h src rq memory)"
  | (unmeasured) s where "sizing_of h bs = Inr s" "measured_gib memory = None"
      "e = declined (no_memory_reason memory)
        ((with_figures s rq (base_estimate h src rq memory))\<lparr>ce_notes := notes_for h rq\<rparr>)"
  | (no_verdict) s g where "sizing_of h bs = Inr s" "measured_gib memory = Some g"
      "ssm h \<or> moe h \<or> widths_missing h"
      "e = declined (no_verdict_reason h g)
        ((with_figures s rq (base_estimate h src rq memory))\<lparr>ce_notes := notes_for h rq\<rparr>)"
  | (verdict) s g where "sizing_of h bs = Inr s" "memory = Dedicated g"
      "total_bytes s (rq_context_size rq) (rq_kv_cache_type rq) < MAX_PLAUSIBLE_BYTES"
      "\<not> ssm h" "\<not> moe h" "\<not> widths_missing h"
      "verdict h s rq (fmul g GIB) ram
        ((with_figures s rq (base_estimate h src rq memory))\<lparr>ce_notes := notes_for h rq\<rparr>) = Some e"
proof (cases "sizing_of h bs")
  case (Inl why)
  then show ?thesis using assms sized by (simp add: estimate_fit_def Let_def)
next
  case (Inr s)
  show ?thesis
  proof (cases "MAX_PLAUSIBLE_BYTES \<le> total_bytes s (rq_context_size rq) (rq_kv_cache_type rq)")
    case True
    then show ?thesis using assms Inr implausible by (simp add: estimate_fit_def Let_def)
  next
    case False
    show ?thesis
    proof (cases "measured_gib memory")
      case None
      then show ?thesis using assms Inr False unmeasured by (simp add: estimate_fit_def Let_def)
    next
      case (Some g)
      then have m: "memory = Dedicated g" by (cases memory) simp_all
      show ?thesis
      proof (cases "ssm h \<or> moe h \<or> widths_missing h")
        case True
        then show ?thesis using assms Inr False Some no_verdict by (simp add: estimate_fit_def Let_def)
      next
        case nv: False
        have "verdict h s rq (fmul g GIB) ram
            ((with_figures s rq (base_estimate h src rq memory))\<lparr>ce_notes := notes_for h rq\<rparr>) = Some e"
          using assms Inr False nv m by (simp add: estimate_fit_def Let_def)
        then show ?thesis using verdict [OF Inr m] False nv by simp
      qed
    qed
  qed
qed

lemma base_fields [simp]:
  "ce_outcome (base_estimate h src rq memory) = CannotEstimate"
  "ce_cannot_estimate_reason (base_estimate h src rq memory) = None"
  "ce_detail (base_estimate h src rq memory) = None"
  "ce_max_context (base_estimate h src rq memory) = None"
  "ce_suggestions (base_estimate h src rq memory) = []"
  "shown_parts (base_estimate h src rq memory) = None"
  by (simp_all add: base_estimate_def empty_estimate_def shown_parts_def)

lemma declined_fields [simp]:
  "ce_outcome (declined why e) = ce_outcome e"
  "ce_cannot_estimate_reason (declined why e) = Some (fst why)"
  "ce_detail (declined why e) = Some (snd why)"
  "ce_max_context (declined why e) = ce_max_context e"
  "ce_suggestions (declined why e) = ce_suggestions e"
  "shown_parts (declined why e) = shown_parts e"
  by (simp_all add: declined_def shown_parts_def)

lemma with_figures_fields [simp]:
  "ce_outcome (with_figures s rq e) = ce_outcome e"
  "ce_cannot_estimate_reason (with_figures s rq e) = ce_cannot_estimate_reason e"
  "ce_detail (with_figures s rq e) = ce_detail e"
  "ce_max_context (with_figures s rq e) = ce_max_context e"
  "ce_suggestions (with_figures s rq e) = ce_suggestions e"
  by (simp_all add: with_figures_def Let_def)

lemma shown_parts_figures [simp]:
  "shown_parts (with_figures s rq e) =
     (let parts = [mib_up (round_bytes (sz_weights s)),
            mib_up (round_bytes (kv_bytes s (rq_context_size rq) (rq_kv_cache_type rq))),
            mib_up (round_bytes (compute_bytes s (rq_context_size rq) (rq_kv_cache_type rq))),
            mib_up (round_bytes RUNTIME_RESERVE_BYTES)] in Some (parts, sum_list parts))"
  by (simp add: with_figures_def shown_parts_def Let_def)

lemma shown_parts_update [simp]:
  "shown_parts (e\<lparr>ce_notes := n\<rparr>) = shown_parts e"
  "shown_parts (e\<lparr>ce_max_context := m\<rparr>) = shown_parts e"
  "shown_parts (e\<lparr>ce_outcome := x\<rparr>) = shown_parts e"
  "shown_parts (e\<lparr>ce_suggestions := y\<rparr>) = shown_parts e"
  by (simp_all add: shown_parts_def)

lemma sized_header:
  assumes "sizing_of h bs = Inr s"
  shows "\<not> latent_attention h" "case split_count h of None \<Rightarrow> True | Some n \<Rightarrow> n \<le> 1"
    "case block_count h of None \<Rightarrow> False | Some n \<Rightarrow> 0 < n \<and> n \<le> 10000" "unat (data_offset h) < unat bs"
proof (rule_tac [!] sizing_of_Inr [OF assms], goal_cases)
  case (1 layers data k w)
  show ?case by (rule 1(4))
next
  case (2 layers data k w)
  then show ?case by (simp split: option.splits)
next
  case (3 layers data k w)
  then show ?case by (simp add: MAX_BLOCK_COUNT_def)
next
  case (4 layers data k w)
  have "0 < unat data" using 4(7) by (simp add: word_less_nat_alt)
  then show ?case using 4(6) by linarith
qed

text \<open>An estimate gives a verdict only when the file is whole and one the formula describes,
  its layers are plausible and each keeps a cache that can be sized, the GPU's memory was measured,
  and no part is unmeasured or understated; then it names no reason against one and has its figures.
  Without a verdict it says why, and neither a largest context nor a suggestion is given.\<close>

theorem verdict_only_when_measured:
  assumes "estimate_fit h bs src rq memory ram = Some e"
  shows "if ce_outcome e = CannotEstimate
    then ce_cannot_estimate_reason e \<noteq> None \<and> ce_detail e \<noteq> None \<and> ce_max_context e = None \<and> ce_suggestions e = []
    else ce_cannot_estimate_reason e = None \<and> (\<exists>g. memory = Dedicated g) \<and> shown_parts e \<noteq> None \<and>
      \<not> ssm h \<and> \<not> moe h \<and> \<not> latent_attention h \<and> known_width (feed_forward_length h) \<and>
      known_width (embedding_length h) \<and>
      (case split_count h of None \<Rightarrow> True | Some n \<Rightarrow> n \<le> 1) \<and>
      (case block_count h of None \<Rightarrow> False | Some n \<Rightarrow> 0 < n \<and> n \<le> 10000) \<and>
      unat (data_offset h) < unat bs"
  using assms
proof (cases rule: estimate_fit_cases)
  case (verdict s g)
  note d = sized_header [OF verdict(1)]
  have k: "known_width (feed_forward_length h)" "known_width (embedding_length h)"
    using verdict(6) by (simp_all add: widths_missing_def)
  from verdict(7) have "ce_outcome e \<noteq> CannotEstimate" "ce_cannot_estimate_reason e = None" "shown_parts e \<noteq> None"
    by (cases rule: verdict_Some; simp add: Let_def)+
  then show ?thesis using d k verdict(2,4,5) by simp
qed simp_all

section \<open>The printed figures\<close>

text \<open>A verdict is the one the printed parts give.\<close>

lemma parts_add_up:
  assumes "sz_ok s" "total_bytes s (rq_context_size rq) (rq_kv_cache_type rq) < MAX_PLAUSIBLE_BYTES"
    and "shown_parts e = shown_parts (with_figures s rq e0)"
  obtains parts mib where "shown_parts e = Some (parts, mib)" "unat mib = sum_list (map unat parts)"
    "unat mib < 2 ^ 44" "length parts = 4"
    "shown_total s (rq_context_size rq) (rq_kv_cache_type rq) = of_nat (2 ^ 20 * unat mib)"
proof -
  let ?c = "rq_context_size rq" and ?kv = "rq_kv_cache_type rq"
  let ?ps = "[sz_weights s, kv_bytes s ?c ?kv, compute_bytes s ?c ?kv, RUNTIME_RESERVE_BYTES]"
  let ?ws = "map (\<lambda>x. mib_up (round_bytes x)) ?ps"
  have sd: "sound s ?c ?kv"
    using assms(2) by (intro plausible_sound [OF assms(1)]) (simp add: MAX_PLAUSIBLE_BYTES_def)
  have m: "sum_list (map mib_of ?ps) = shown_mib s ?c ?kv" by (simp add: shown_mib_def mib_of_reserve)
  have "mib_of (sz_weights s) \<le> 2 ^ 42" "mib_of (kv_bytes s ?c ?kv) \<le> 2 ^ 42"
    "mib_of (compute_bytes s ?c ?kv) \<le> 2 ^ 42"
    using sd unfolding sound_def by (blast intro: mib_of_62)+
  then have l: "shown_mib s ?c ?kv < 2 ^ 44" by (simp add: shown_mib_def)
  have u: "unat (sum_list (map (\<lambda>x. mib_up (round_bytes x)) ps)) = sum_list (map mib_of ps)"
    if "sum_list (map mib_of ps) < 2 ^ 44" for ps
    using that by (induction ps) (simp_all add: mib_of_def unat_word_ariths)
  have s: "unat (sum_list ?ws) = shown_mib s ?c ?kv" using u [of ?ps] l by (simp only: m)
  have p: "shown_parts e = Some (?ws, sum_list ?ws)" by (simp add: assms(3) Let_def)
  have "map unat ?ws = map mib_of ?ps" by (simp add: mib_of_def)
  then have "sum_list (map unat ?ws) = unat (sum_list ?ws)" by (simp only: m s)
  with p s l shown_total_sound [OF sd] show ?thesis by (intro that [of ?ws "sum_list ?ws"]) simp_all
qed

lemma figures_after_verdict:
  assumes "verdict h s rq av ram ((with_figures s rq e0)\<lparr>ce_notes := n\<rparr>) = Some e"
  shows "shown_parts e = shown_parts (with_figures s rq e0)"
    "(ce_outcome e = Fits) = fits s (rq_context_size rq) (rq_kv_cache_type rq) av"
    "(ce_outcome e = DoesNotFit) = (\<not> fits s (rq_context_size rq) (rq_kv_cache_type rq) av)"
  using assms by (cases rule: verdict_Some; simp)+

text \<open>C26. The verdict never contradicts the figures printed beside it: where one is given, the four
  parts are printed, their sum is the sum printed (nothing has wrapped), and the model is said to
  fit exactly if that many MiB are no more than the GPU's memory.\<close>

theorem verdict_agrees_with_figures:
  assumes "estimate_fit h bs src rq memory ram = Some e" "ce_outcome e \<noteq> CannotEstimate"
  shows "\<exists>g parts mib. memory = Dedicated g \<and> shown_parts e = Some (parts, mib) \<and> length parts = 4 \<and>
    unat mib = sum_list (map unat parts) \<and> unat (mib * MIB) = sum_list (map unat parts) * 2 ^ 20 \<and>
    (if of_nat (sum_list (map unat parts) * 2 ^ 20) \<le> fmul g GIB then ce_outcome e = Fits else ce_outcome e = DoesNotFit)"
  using assms(1)
proof (cases rule: estimate_fit_cases)
  case (verdict s g)
  note f = figures_after_verdict [OF verdict(7)]
  obtain parts mib where p: "shown_parts e = Some (parts, mib)" "unat mib = sum_list (map unat parts)"
    "unat mib < 2 ^ 44" "length parts = 4"
    "shown_total s (rq_context_size rq) (rq_kv_cache_type rq) = of_nat (2 ^ 20 * unat mib)"
    using parts_add_up [OF sizing_ok [OF verdict(1)] verdict(3) f(1)] by blast
  have "unat (mib * MIB) = unat mib * 2 ^ 20" using p(3) by (simp add: MIB_def unat_word_ariths)
  moreover have "fits s (rq_context_size rq) (rq_kv_cache_type rq) (fmul g GIB) \<longleftrightarrow>
      of_nat (sum_list (map unat parts) * 2 ^ 20) \<le> fmul g GIB"
    unfolding fits_def p(5) p(2) by (simp only: mult.commute)
  ultimately show ?thesis using p(1,2,4) f(2,3) verdict(2) by simp
qed (use assms(2) in simp_all)

section \<open>What the suggestions say\<close>

lemma step_up_fits:
  assumes "step_up s kv av cap c = Some r"
  shows "r = c \<or> fits s r kv av"
proof (rule step_up.raw_induct [rotated, OF assms])
  fix f s kv av cap c r
  assume ih: "\<And>s kv av cap c r. f s kv av cap c = Some r \<Longrightarrow> r = c \<or> fits s r kv av"
    and eq: "(if (case cap of None \<Rightarrow> True | Some m \<Rightarrow> c + CONTEXT_STEP \<le> m) \<and> fits s (c + CONTEXT_STEP) kv av
       then f s kv av cap (c + CONTEXT_STEP) else Some c) = Some r"
  show "r = c \<or> fits s r kv av" using ih [of s kv av cap "c + CONTEXT_STEP" r] eq by (auto split: if_splits)
qed

lemma max_context_fits:
  assumes "max_context s av kv cap = Some (Some m)"
  shows "0 < m \<and> fits s m kv av"
proof -
  let ?d = "step_down s kv av (search_start s av kv cap)"
  have u: "step_up s kv av cap ?d = Some m" and m: "0 < m"
    using assms by (auto simp: max_context_def split: if_splits option.splits)
  from step_up_fits [OF u] step_down_fits [of s kv av "search_start s av kv cap"] m
  show ?thesis by auto
qed

lemma layers_down_result: "layers_down p n = 0 \<or> p (layers_down p n)"
proof (induction p n rule: layers_down.induct)
  case (1 p n)
  show ?case
  proof (cases "0 < n \<and> \<not> p n")
    case True
    then show ?thesis using 1 by (simp add: layers_down.simps [of p n])
  next
    case False
    then have "layers_down p n = n" by (subst layers_down.simps) (simp only: if_False)
    with False show ?thesis by (metis word_gt_0)
  qed
qed

lemma layers_up_result:
  "(layers_up p m n = n \<or> p (layers_up p m n)) \<and> (layers_up p m n < m \<longrightarrow> \<not> p (layers_up p m n + 1))"
proof (induction p m n rule: layers_up.induct)
  case (1 p m n)
  show ?case
  proof (cases "n < m \<and> p (n + 1)")
    case True
    then show ?thesis using 1 by (auto simp: layers_up.simps [of p m n])
  next
    case False
    then have "layers_up p m n = n" by (subst layers_up.simps) (simp only: if_False)
    with False show ?thesis by auto
  qed
qed

text \<open>What a suggestion claims.\<close>

fun suggestion_true :: "gguf_header \<Rightarrow> sizing \<Rightarrow> fit_request \<Rightarrow> f64 \<Rightarrow> fit_suggestion \<Rightarrow> bool" where
  "suggestion_true h s rq av (UseContext m kv _) \<longleftrightarrow>
     kv = rq_kv_cache_type rq \<and> 0 < m \<and> fits s m kv av"
| "suggestion_true h s rq av (UseKvCache kv mib c largest) \<longleftrightarrow>
     c = rq_context_size rq \<and> bytes_per_element kv < bytes_per_element (rq_kv_cache_type rq) \<and>
     fits s c kv av \<and> (case largest of None \<Rightarrow> True | Some m \<Rightarrow> 0 < m \<and> fits s m kv av)"
| "suggestion_true h s rq av (KvCacheStillTooLarge kv mib) \<longleftrightarrow>
     bytes_per_element kv < bytes_per_element (rq_kv_cache_type rq) \<and>
     shown_total s (rq_context_size rq) kv < shown_total s (rq_context_size rq) (rq_kv_cache_type rq) \<and>
     \<not> fits s (rq_context_size rq) kv av"
| "suggestion_true h s rq av NeedsFlashAttention \<longleftrightarrow> rq_kv_cache_type rq \<noteq> Q4_0"
| "suggestion_true h s rq av (UseQuant label weights now c) \<longleftrightarrow>
     c = rq_context_size rq \<and> now = need (sz_weights s) \<and>
     (\<exists>(l, bpw) \<in> set QUANT_BITS_PER_WEIGHT. l = label \<and>
        weights = need (quant_weights s (f64_of_u64 (param_count h)) bpw) \<and>
        shown_total_with s (quant_weights s (f64_of_u64 (param_count h)) bpw) c (rq_kv_cache_type rq) \<le> av)"
| "suggestion_true h s rq av (NoQuantFits label c kv) \<longleftrightarrow>
     c = rq_context_size rq \<and> kv = rq_kv_cache_type rq \<and>
     (\<exists>(l, bpw) \<in> set QUANT_BITS_PER_WEIGHT. l = label \<and>
        \<not> shown_total_with s (quant_weights s (f64_of_u64 (param_count h)) bpw) c kv \<le> av)"
| "suggestion_true h s rq av (OffloadLayers n layers host _) \<longleftrightarrow>
     layers = sz_layers s \<and> 0 < n \<and> n < layers \<and>
     layers_fit s n (rq_context_size rq) (rq_kv_cache_type rq) av \<and>
     \<not> layers_fit s (n + 1) (rq_context_size rq) (rq_kv_cache_type rq) av"

lemma kv_cache_suggestion_true:
  assumes "kv_cache_suggestion h s (rq_context_size rq) av kv = Some t"
    and "bytes_per_element kv < bytes_per_element (rq_kv_cache_type rq)"
    and "shown_total s (rq_context_size rq) kv < shown_total s (rq_context_size rq) (rq_kv_cache_type rq)"
  shows "suggestion_true h s rq av t"
  using assms max_context_fits [of s av kv "trained_context h"]
  by (auto simp: kv_cache_suggestion_def Let_def split: if_splits option.splits)

lemma all_some_in:
  "all_some xs = Some ys \<Longrightarrow> y \<in> set ys \<Longrightarrow> Some y \<in> set xs"
  by (induction xs arbitrary: ys) (auto split: option.splits)

lemma kv_cache_suggestions_true:
  assumes "kv_cache_suggestions h s rq av = Some out" "t \<in> set out"
  shows "suggestion_true h s rq av t"
proof -
  let ?kv = "rq_kv_cache_type rq" and ?c = "rq_context_size rq"
  let ?ks = "filter (\<lambda>other. bytes_per_element other < bytes_per_element ?kv \<and>
      shown_total s ?c other < shown_total s ?c ?kv) kv_cache_all"
  obtain named where n: "all_some (map (kv_cache_suggestion h s ?c av) ?ks) = Some named"
    and o: "out = (if named = [] then [] else named @ [NeedsFlashAttention])"
    using assms(1) by (auto simp: kv_cache_suggestions_def Let_def split: option.splits)
  show ?thesis
  proof (cases "t \<in> set named")
    case True
    from all_some_in [OF n this] obtain kv where "kv \<in> set ?ks" "kv_cache_suggestion h s ?c av kv = Some t"
      by auto
    then show ?thesis by (intro kv_cache_suggestion_true [of h s rq av kv]) auto
  next
    case False
    with o assms(2) have t: "t = NeedsFlashAttention" and "named \<noteq> []" by (auto split: if_splits)
    have "?kv \<noteq> Q4_0"
    proof
      assume q: "?kv = Q4_0"
      have "\<not> bytes_per_element k < bytes_per_element Q4_0" for k by (cases k) simp_all
      then have "?ks = []" using q by simp
      with n have "named = []" by simp
      with \<open>named \<noteq> []\<close> show False by simp
    qed
    then show ?thesis by (simp add: t)
  qed
qed

lemma find_holds: "find P xs = Some x \<Longrightarrow> x \<in> set xs \<and> P x"
  by (auto simp: find_Some_iff)

lemma quant_suggestion_true:
  assumes "t \<in> set (quant_suggestion h s rq av)"
  shows "suggestion_true h s rq av t"
proof -
  let ?w = "quant_weights s (f64_of_u64 (param_count h))" and ?c = "rq_context_size rq"
    and ?kv = "rq_kv_cache_type rq"
  obtain P where P: "quant_suggestion h s rq av = [] \<or>
    quant_suggestion h s rq av =
      (let candidates = map (\<lambda>(label, bpw). (label, ?w bpw)) (filter P (rev QUANT_BITS_PER_WEIGHT))
       in case find (\<lambda>(label, weights). shown_total_with s weights ?c ?kv \<le> av) candidates of
            Some (label, weights) \<Rightarrow> [UseQuant label (need weights) (need (sz_weights s)) ?c]
          | None \<Rightarrow> (if candidates = [] then [] else [NoQuantFits (fst (last candidates)) ?c ?kv]))"
    unfolding quant_suggestion_def Let_def by (metis (no_types, lifting))
  let ?cs = "map (\<lambda>(label, bpw). (label, ?w bpw)) (filter P (rev QUANT_BITS_PER_WEIGHT))"
  have c: "\<exists>(l, bpw) \<in> set QUANT_BITS_PER_WEIGHT. l = label \<and> weights = ?w bpw" if "(label, weights) \<in> set ?cs"
    for label weights using that by fastforce
  show ?thesis
  proof (cases "find (\<lambda>(label, weights). shown_total_with s weights ?c ?kv \<le> av) ?cs")
    case None
    then have nf: "\<not> shown_total_with s weights ?c ?kv \<le> av" if "(label, weights) \<in> set ?cs" for label weights
      using that by (auto simp: find_None_iff)
    have t: "?cs \<noteq> []" "t = NoQuantFits (fst (last ?cs)) ?c ?kv"
      using P assms None by (auto simp: Let_def split: if_splits)
    obtain l w where lw: "last ?cs = (l, w)" by fastforce
    with t(1) have "(l, w) \<in> set ?cs" by (metis last_in_set)
    with c [OF this] nf [OF this] show ?thesis by (auto simp: t(2) lw)
  next
    case (Some x)
    obtain l w where lw: "x = (l, w)" by fastforce
    then have "(l, w) \<in> set ?cs" "shown_total_with s w ?c ?kv \<le> av"
      using find_holds [OF Some] by simp_all
    moreover have "t = UseQuant l (need w) (need (sz_weights s)) ?c"
      using P assms Some lw by (auto simp: Let_def)
    ultimately show ?thesis using c [of l w] by auto
  qed
qed

lemma offload_suggestion_true:
  assumes "t \<in> set (offload_suggestion s rq av ram)"
  shows "suggestion_true h s rq av t"
proof -
  let ?p = "\<lambda>n. layers_fit s n (rq_context_size rq) (rq_kv_cache_type rq) av"
  obtain a where n: "layers_on_gpu s rq av = layers_up ?p (sz_layers s) (layers_down ?p a)"
    unfolding layers_on_gpu_def Let_def by blast
  have "layers_on_gpu s rq av \<noteq> 0" "layers_on_gpu s rq av < sz_layers s"
    and t: "\<exists>x y. t = OffloadLayers (layers_on_gpu s rq av) (sz_layers s) x y"
    using assms by (auto simp: offload_suggestion_def Let_def split: if_splits)
  moreover have "?p (layers_on_gpu s rq av)"
    using layers_up_result [of ?p "sz_layers s" "layers_down ?p a"] layers_down_result [of ?p a] calculation(1)
    unfolding n by metis
  moreover have "\<not> ?p (layers_on_gpu s rq av + 1)"
    using layers_up_result [of ?p "sz_layers s" "layers_down ?p a"] calculation(2) unfolding n by blast
  ultimately show ?thesis by (auto simp: word_gt_0)
qed

text \<open>Suggestions come only with the verdict that the model does not fit, and what each says is
  true of the sizing: a smaller context or a narrower cache that is said to fit does, a quantization
  named as fitting does, one named as not fitting does not, and the layers to keep on the GPU fit
  there while one more would not.\<close>

theorem suggestions_hold:
  assumes "estimate_fit h bs src rq memory ram = Some e" "t \<in> set (ce_suggestions e)"
  shows "ce_outcome e = DoesNotFit \<and>
    (\<exists>s g. sizing_of h bs = Inr s \<and> memory = Dedicated g \<and> suggestion_true h s rq (fmul g GIB) t)"
  using assms(1)
proof (cases rule: estimate_fit_cases)
  case (verdict s g)
  from verdict(7) show ?thesis
  proof (cases rule: verdict_Some)
    case (1 m)
    then show ?thesis using assms(2) by simp
  next
    case (2 m out)
    have "t \<in> set out" using assms(2) 2(4) by simp
    moreover obtain narrower where n: "kv_cache_suggestions h s rq (fmul g GIB) = Some narrower"
      and o: "out = (case m of Some m \<Rightarrow> [UseContext m (rq_kv_cache_type rq) (sliding_window h)] | None \<Rightarrow> []) @
        narrower @ quant_suggestion h s rq (fmul g GIB) @ offload_suggestion s rq (fmul g GIB) ram"
      using 2(3) by (auto simp: suggestions_def split: option.splits)
    ultimately consider m' b where "m = Some m'" "t = UseContext m' (rq_kv_cache_type rq) b"
      | "t \<in> set narrower" | "t \<in> set (quant_suggestion h s rq (fmul g GIB))"
      | "t \<in> set (offload_suggestion s rq (fmul g GIB) ram)" by (auto split: option.splits)
    then have "suggestion_true h s rq (fmul g GIB) t"
    proof cases
      case 1
      then show ?thesis using max_context_fits 2(1) by simp
    next
      case 2
      then show ?thesis by (rule kv_cache_suggestions_true [OF n])
    next
      case 3
      then show ?thesis by (rule quant_suggestion_true)
    next
      case 4
      then show ?thesis by (rule offload_suggestion_true)
    qed
    then show ?thesis using 2(4) verdict(1,2) by simp
  qed
qed (use assms(2) in simp_all)

text \<open>The sizing is the one the format lays down: the bytes behind the header less those of the
  input embedding when the file has its own output layer (never more than there are), and per token
  the elements of every layer added up, which is its KV heads times both head widths, saturating at
  64 bits, with the widest layer noted; a layer without KV heads adds nothing.\<close>

theorem sizing_from_header:
  assumes "sizing_of h bs = Inr s"
  shows "\<exists>layers data kv widest es. block_count h = Some layers \<and> sz_layers s = layers \<and>
    unat data = unat bs - unat (data_offset h) \<and> sz_data s = f64_of_u64 data \<and>
    sz_weights s = f64_of_u64 (data - min data (embedding_bytes h data)) \<and>
    map (layer_elements h) [0..<unat layers] = map Inr es \<and>
    sz_kv_elements_per_token s = f64_of_u64 kv \<and> kv \<noteq> 0 \<and>
    unat kv = min (sum_list (map unat es)) (2 ^ 64 - 1) \<and>
    sz_widest_layer_kv_elements s = f64_of_u64 widest \<and> widest = fold max es 0 \<and> widest \<le> kv"
proof (rule sizing_of_Inr [OF assms], goal_cases)
  case (1 layers data k w)
  obtain es where es: "map (layer_elements h) [0..<unat layers] = map Inr es"
    "unat k = min (unat (0 :: u64) + sum_list (map unat es)) (2 ^ 64 - 1)" "w = fold max es 0"
    using kv_layers_sum [OF 1(8)] by blast
  have d: "unat data = unat bs - unat (data_offset h)" using 1(6) by linarith
  have w: "saturating_sub data x = data - min data x" for x :: u64
    by (auto simp: saturating_sub_def min_def)
  show ?case
    by (rule exI [of _ layers], rule exI [of _ data], rule exI [of _ k], rule exI [of _ w], rule exI [of _ es])
      (use 1(1,9,10) es d kv_layers_widest [OF 1(8)] in \<open>simp add: w\<close>)
qed

section \<open>A header whose search never ends\<close>

text \<open>Where a single step is not a plausible figure the sums wrap: the cache and the compute buffer
  saturate, come to a multiple of \<open>2\<^sup>6\<^sup>4\<close> bytes, and the step seems to fit. A request of a few tokens for
  such a header passes the check of the total.\<close>

definition wrapping :: sizing where
  "wrapping = \<lparr>sz_data = 2 ^ 20, sz_weights = 2 ^ 20, sz_compute_base = 12288,
     sz_kv_elements_per_token = 2 ^ 57, sz_widest_layer_kv_elements = 2 ^ 57, sz_layers = 1\<rparr>"

definition corrupt_header :: gguf_header where
  "corrupt_header = \<lparr>version = 3, architecture = Some ''llama'', tensor_count = 1, param_count = 1,
     data_offset = 1024, block_count = Some 1, embedding_length = Some 1, head_count = Some (Uniform 1),
     head_count_kv = Some (Uniform 1), key_length = Some (2 ^ 56), value_length = Some (2 ^ 56),
     feed_forward_length = Some 1, context_length = None, split_count = None, sliding_window = False,
     ssm = False, latent_attention = False, moe = False, token_embd = None, has_output = True\<rparr>"

lemma rounded_pow2: "rounded (2 ^ n) = 2 ^ n"
  using rounded_exact [of 1 "int n"] by (simp add: power_int_def)

lemma rounded_numeral: "(numeral n :: int) \<le> 2 ^ 53 \<Longrightarrow> rounded (numeral n) = numeral n"
  using rounded_of_int [of "numeral n"] by simp

lemma step_up_diverges:
  assumes "\<And>c. unat c mod 256 = 0 \<Longrightarrow> fits s c kv av" "unat c mod 256 = 0"
  shows "step_up s kv av None c = None"
proof (rule ccontr)
  assume "step_up s kv av None c \<noteq> None"
  then obtain r where r: "step_up s kv av None c = Some r" by auto
  have "\<not> (unat c mod 256 = 0 \<and> s' = s \<and> kv' = kv \<and> av' = av \<and> cap = None)"
    if "step_up s' kv' av' cap c = Some r" for s' kv' av' cap c r
  proof (rule step_up.raw_induct [rotated, OF that])
    fix f s' kv' av' cap c r
    assume ih: "\<And>s' kv' av' cap c r. f s' kv' av' cap c = Some r \<Longrightarrow>
        \<not> (unat c mod 256 = 0 \<and> s' = s \<and> kv' = kv \<and> av' = av \<and> cap = None)"
      and eq: "(if (case cap of None \<Rightarrow> True | Some m \<Rightarrow> c + CONTEXT_STEP \<le> m) \<and> fits s' (c + CONTEXT_STEP) kv' av'
        then f s' kv' av' cap (c + CONTEXT_STEP) else Some c) = Some r"
    have "unat (c + CONTEXT_STEP) mod 256 = 0" if "unat c mod 256 = 0"
    proof -
      have "unat (c + CONTEXT_STEP) mod 256 = (unat c + 256) mod 2 ^ 64 mod 256"
        by (simp add: CONTEXT_STEP_def unat_word_ariths)
      also have "\<dots> = (unat c + 256) mod 256" by (rule mod_mod_cancel) simp
      finally show ?thesis using that by simp
    qed
    then show "\<not> (unat c mod 256 = 0 \<and> s' = s \<and> kv' = kv \<and> av' = av \<and> cap = None)"
      using eq ih [of s' kv' av' cap "c + CONTEXT_STEP" r] assms(1) [of "c + CONTEXT_STEP"]
      by (auto split: if_splits)
  qed
  from this [OF r] assms(2) show False by simp
qed

lemma saturated_mib:
  assumes "2 ^ 64 \<le> x"
  shows "mib_of x = 2 ^ 44"
proof -
  have "f64_round (of_int (2 ^ 64)) \<le> f64_round x" using assms by (intro f64_round_mono) simp
  then have "2 ^ 64 \<le> f64_round x" by (simp only: f64_round_of_int)
  then have "2 ^ 64 \<le> nat (f64_round x)" by (simp add: le_nat_iff)
  then have "min (nat (f64_round x)) (2 ^ 64 - 1) = 2 ^ 64 - 1" by simp
  then show ?thesis by (simp add: mib_of_eq)
qed

lemma wrapping_ok: "sz_ok wrapping"
  using rounded_numeral [of "num.Bit0 num.One"] rounded_of_int [of 12288] by (simp add: sz_ok_def wrapping_def)

lemma wrapping_fits:
  assumes "unat c mod 256 = 0" "2 ^ 31 \<le> av"
  shows "fits wrapping c Q8_0 av"
proof -
  have w: "mib_of (2 ^ 20) = 1" using f64_round_of_int [of "2 ^ 20"] by (simp add: mib_of_eq)
  have m: "mib_up (round_bytes x) = of_nat (mib_of x)" for x by (simp add: mib_of_def)
  have "shown_total wrapping c Q8_0 \<le> 2 ^ 31"
  proof (cases "c = 0")
    case True
    have r: "rounded 12288 = 12288" using rounded_of_int [of 12288] by simp
    have k: "kv_bytes wrapping c Q8_0 = 0" "compute_bytes wrapping c Q8_0 = 12288"
      by (simp_all add: True kv_bytes_def compute_bytes_def fmul_def mul_add_def f64_of_u64_def wrapping_def r)
    have "sound wrapping c Q8_0" unfolding sound_def k by (simp add: wrapping_def)
    moreover have "mib_of 0 = 0" "mib_of 12288 = 1"
      using f64_round_of_int [of 0] f64_round_of_int [of 12288] by (simp_all add: mib_of_eq)
    then have "shown_mib wrapping c Q8_0 = 1282" unfolding shown_mib_def k using w by (simp add: wrapping_def)
    ultimately show ?thesis by (simp add: shown_total_sound)
  next
    case False
    then have "0 < unat c" by (simp add: unat_gt_0)
    then have "256 \<le> unat c" using assms(1) by (auto intro!: dvd_imp_le)
    then have "f64_of_u64 256 \<le> f64_of_u64 c" by (intro f64_of_u64_mono) simp
    then have f: "256 \<le> f64_of_u64 c" by (simp add: f64_of_u64_exact)
    have "rounded (2 ^ 65) \<le> rounded (2 ^ 57 * f64_of_u64 c)" using f by (intro rounded_mono) simp
    then have "2 ^ 65 \<le> rounded (2 ^ 57 * f64_of_u64 c)" by (simp only: rounded_pow2)
    then have "rounded (2 ^ 64) \<le> rounded (rounded (2 ^ 57 * f64_of_u64 c) * (34 / 32))"
      by (intro rounded_mono) simp
    then have k: "2 ^ 64 \<le> kv_bytes wrapping c Q8_0"
      by (simp only: rounded_pow2) (simp add: kv_bytes_def fmul_def wrapping_def)
    have "rounded (2 ^ 58) \<le> rounded (2 ^ 57 * 2 + rounded (512 * 2))"
      using rounded_of_int [of 1024] by (intro rounded_mono) simp
    then have "2 ^ 58 \<le> compute_bytes_per_token wrapping Q8_0"
      by (simp only: rounded_pow2)
        (simp add: compute_bytes_per_token_def mul_add_def fmul_def wrapping_def COMPUTE_BATCH_TOKENS_def MASK_BYTES_def)
    then have "2 ^ 58 * 256 \<le> compute_bytes_per_token wrapping Q8_0 * f64_of_u64 c" using f by (intro mult_mono) simp_all
    then have "rounded (2 ^ 64) \<le> compute_bytes wrapping c Q8_0"
      unfolding compute_bytes_def mul_add_def by (intro rounded_mono) (simp add: wrapping_def)
    then have c: "2 ^ 64 \<le> compute_bytes wrapping c Q8_0" by (simp only: rounded_pow2)
    have "sum_list (map (\<lambda>x. mib_up (round_bytes x))
        [sz_weights wrapping, kv_bytes wrapping c Q8_0, compute_bytes wrapping c Q8_0, RUNTIME_RESERVE_BYTES]) * MIB
      = (1281 * 2 ^ 20 :: u64)"
      unfolding m by (simp add: saturated_mib [OF k] saturated_mib [OF c] mib_of_reserve MIB_def)
        (simp add: wrapping_def w [simplified])
    then have "shown_total wrapping c Q8_0 = f64_of_u64 (1281 * 2 ^ 20)"
      by (simp add: shown_total_def shown_total_with_def shown_sum_def Let_def del: list.map sum_list.Cons)
    then show ?thesis by (simp add: f64_of_u64_exact)
  qed
  then show ?thesis using assms(2) by (simp add: fits_def)
qed

lemma corrupt_sizing: "sizing_of corrupt_header 1049600 = Inr wrapping"
proof -
  have w: "kv_layers corrupt_header [0..<unat (1 :: u64)] (0, 0) = Inr (2 ^ 57, 2 ^ 57)"
    by (simp add: layer_elements_def corrupt_header_def per_layer_at_def head_width_def
        saturating_add_def saturating_mul_def max_def)
  have r: "rounded 3 = 3" "rounded 6 = 6" "rounded 3072 = 3072" "rounded 12288 = 12288"
    using rounded_of_int [of 3] rounded_of_int [of 6] rounded_of_int [of 3072] rounded_of_int [of 12288]
    by simp_all
  have f: "f64_of_u64 (2 ^ 57) = 2 ^ 57" "f64_of_u64 (2 ^ 20) = 2 ^ 20" "f64_of_u64 1 = 1"
    using rounded_pow2 [of 57] by (simp_all add: f64_of_u64_exact) (simp add: f64_of_u64_def)
  have u: "checked_sub 1049600 (data_offset corrupt_header) = Some 1048576"
    "embedding_bytes corrupt_header 1048576 = 0"
    by (simp_all add: checked_sub_def embedding_bytes_def corrupt_header_def)
  have h: "split_count corrupt_header = None" "\<not> latent_attention corrupt_header"
    "block_count corrupt_header = Some 1" "feed_forward_length corrupt_header = Some 1"
    "embedding_length corrupt_header = Some 1"
    by (simp_all add: corrupt_header_def)
  show ?thesis
    using w f by (simp add: sizing_of_def u h MAX_BLOCK_COUNT_def saturating_sub_def mul_add_def fmul_def COMPUTE_BATCH_TOKENS_def
        r wrapping_def Let_def)
qed

text \<open>The header above is one of a file with a megabyte of weights and a single KV head whose width is
  given as \<open>2\<^sup>5\<^sup>6\<close>. Asked for one token with a quantized cache on a GPU of 64 GiB, the estimate does not
  return: the total of that token is below an exabyte, and every further step seems to fit.\<close>

theorem corrupt_header_search_never_ends:
  "estimate_fit corrupt_header 1049600 src
     \<lparr>rq_context_size = 1, rq_context_size_defaulted = False, rq_kv_cache_type = Q8_0\<rparr> (Dedicated 64) ram = None"
proof -
  let ?rq = "\<lparr>rq_context_size = 1, rq_context_size_defaulted = False, rq_kv_cache_type = Q8_0\<rparr>"
  have av: "fmul 64 GIB = 2 ^ 36" using rounded_pow2 [of 36] by (simp add: fmul_def GIB_def)
  have fx: "fixed wrapping \<le> 2 ^ 32"
  proof -
    have "fadd (sz_weights wrapping) (sz_compute_base wrapping) \<le> 9 / 8 * (2 ^ 20 + 12288)"
      unfolding fadd_def by (rule order_trans [OF rounded_crude(2)]) (simp_all add: wrapping_def)
    moreover have "0 \<le> fadd (sz_weights wrapping) (sz_compute_base wrapping)"
      unfolding fadd_def by (rule rounded_nonneg) (simp add: wrapping_def)
    then have "fixed wrapping \<le> 9 / 8 * (fadd (sz_weights wrapping) (sz_compute_base wrapping) + RUNTIME_RESERVE_BYTES)"
      unfolding fixed_def fadd_def [of _ RUNTIME_RESERVE_BYTES] by (intro rounded_crude(2)) (simp add: reserve)
    ultimately show ?thesis by (simp add: reserve)
  qed
  have room: "\<not> fsub (fmul 64 GIB) (fixed wrapping) \<le> 0"
    using rounded_pos [of "fmul 64 GIB - fixed wrapping"] fx unfolding av fsub_def by simp
  have t: "total_bytes wrapping 1 Q8_0 < MAX_PLAUSIBLE_BYTES"
  proof -
    have one: "f64_of_u64 1 = 1" by (simp add: f64_of_u64_exact)
    have r: "rounded 1024 = 1024" using rounded_of_int [of 1024] by simp
    have "compute_bytes_per_token wrapping Q8_0 \<le> 9 / 8 * (2 ^ 57 * 2 + 1024)"
      unfolding compute_bytes_per_token_def mul_add_def fmul_def
      by (simp only: COMPUTE_BATCH_TOKENS_def MASK_BYTES_def Let_def kv_cache_type.distinct if_False)
        (rule order_trans [OF rounded_crude(2)], simp_all add: wrapping_def r)
    moreover have "1024 \<le> compute_bytes_per_token wrapping Q8_0"
      using wrapping_ok by (intro compute_bytes_per_token_lower) (simp add: sz_ok_def)
    then have "bytes_per_token wrapping Q8_0 \<le> 9 / 8 * (2 ^ 57 * (34 / 32) + compute_bytes_per_token wrapping Q8_0)"
      unfolding bytes_per_token_def mul_add_def
      by (intro order_trans [OF rounded_crude(2)]) (simp_all add: wrapping_def)
    moreover have "0 \<le> bytes_per_token wrapping Q8_0" unfolding bytes_per_token_def mul_add_def
      by (rule rounded_nonneg) (use \<open>1024 \<le> compute_bytes_per_token wrapping Q8_0\<close> in \<open>simp add: wrapping_def\<close>)
    moreover have "0 \<le> fixed wrapping" unfolding fixed_def fadd_def
      by (intro rounded_nonneg add_nonneg_nonneg) (simp_all add: wrapping_def reserve)
    then have "total_bytes wrapping 1 Q8_0 \<le> 9 / 8 * (bytes_per_token wrapping Q8_0 * 1 + fixed wrapping)"
      unfolding total_bytes_def mul_add_def one
      by (rule_tac rounded_crude(2)) (simp add: \<open>0 \<le> bytes_per_token wrapping Q8_0\<close>)
    ultimately show ?thesis using fx by (simp add: MAX_PLAUSIBLE_BYTES_def)
  qed
  have start: "unat (step_down wrapping Q8_0 (fmul 64 GIB) (search_start wrapping (fmul 64 GIB) Q8_0 None)) mod 256 = 0"
    (is "unat (step_down _ _ _ ?a) mod 256 = 0")
    using step_down_whole [of wrapping Q8_0 "fmul 64 GIB" ?a] search_start_cases [of wrapping "fmul 64 GIB" Q8_0 None]
    by auto
  have "step_up wrapping Q8_0 (fmul 64 GIB) None (step_down wrapping Q8_0 (fmul 64 GIB) ?a) = None"
    by (rule step_up_diverges [OF wrapping_fits start]) (simp_all add: av)
  then have m: "max_context wrapping (fmul 64 GIB) Q8_0 (trained_context corrupt_header) = None"
    using room by (simp add: max_context_def trained_context_def corrupt_header_def)
  have h: "\<not> ssm corrupt_header" "\<not> moe corrupt_header" "\<not> widths_missing corrupt_header"
    by (simp_all add: corrupt_header_def widths_missing_def known_width_def)
  show ?thesis using t m h by (simp add: estimate_fit_def corrupt_sizing verdict_def Let_def)
qed

section \<open>A small model\<close>

text \<open>The same header with heads of width 64 and a trained context of 8192 tokens, for a file with a
  megabyte of weights: every figure is a whole number of bytes.\<close>

definition sample_header :: gguf_header where
  "sample_header = corrupt_header\<lparr>key_length := Some 64, value_length := Some 64, context_length := Some 8192\<rparr>"

definition sample_sizing :: sizing where
  "sample_sizing = \<lparr>sz_data = 2 ^ 20, sz_weights = 2 ^ 20, sz_compute_base = 12288,
     sz_kv_elements_per_token = 128, sz_widest_layer_kv_elements = 128, sz_layers = 1\<rparr>"

definition sample_request :: "u64 \<Rightarrow> fit_request" where
  "sample_request c = \<lparr>rq_context_size = c, rq_context_size_defaulted = False, rq_kv_cache_type = F16\<rparr>"

lemma rounded_whole: "x = of_int n \<Longrightarrow> \<bar>n\<bar> \<le> 2 ^ 53 \<Longrightarrow> rounded x = x"
  by simp

lemma sample_sizing_of: "sizing_of sample_header 1049600 = Inr sample_sizing"
proof -
  have w: "kv_layers sample_header [0..<unat (1 :: u64)] (0, 0) = Inr (128, 128)"
    by (simp add: layer_elements_def sample_header_def corrupt_header_def per_layer_at_def head_width_def
        saturating_add_def saturating_mul_def max_def)
  have r: "rounded 3 = 3" "rounded 6 = 6" "rounded 3072 = 3072" "rounded 12288 = 12288"
    by (rule rounded_whole [of _ 3] rounded_whole [of _ 6] rounded_whole [of _ 3072] rounded_whole [of _ 12288]; simp)+
  have f: "f64_of_u64 128 = 128" "f64_of_u64 1048576 = 1048576" "f64_of_u64 1 = 1"
    by (simp_all add: f64_of_u64_exact)
  have u: "checked_sub 1049600 (data_offset sample_header) = Some 1048576"
    "embedding_bytes sample_header 1048576 = 0"
    by (simp_all add: checked_sub_def embedding_bytes_def sample_header_def corrupt_header_def)
  have h: "split_count sample_header = None" "\<not> latent_attention sample_header"
    "block_count sample_header = Some 1" "feed_forward_length sample_header = Some 1"
    "embedding_length sample_header = Some 1"
    by (simp_all add: sample_header_def corrupt_header_def)
  show ?thesis
    using w f by (simp add: sizing_of_def u h MAX_BLOCK_COUNT_def saturating_sub_def mul_add_def fmul_def
        COMPUTE_BATCH_TOKENS_def r sample_sizing_def Let_def)
qed

lemma sample_figures:
  assumes "unat c \<le> 2 ^ 20"
  shows "kv_bytes sample_sizing c F16 = of_nat (256 * unat c)"
    "compute_bytes sample_sizing c F16 = of_nat (1024 * unat c + 12288)"
    "total_bytes sample_sizing c F16 = of_nat (1280 * unat c + 1343238144)"
proof -
  have n: "rounded (of_nat m) = of_nat m" if "m \<le> 2 ^ 40" for m using that by simp
  have c: "f64_of_u64 c = of_nat (unat c)" using assms by (intro f64_of_u64_exact) simp
  have "rounded (128 * of_nat (unat c)) = of_nat (128 * unat c)" using n [of "128 * unat c"] assms by simp
  moreover have "rounded (of_nat (128 * unat c) * 2) = of_nat (256 * unat c)" using n [of "256 * unat c"] assms by simp
  ultimately show "kv_bytes sample_sizing c F16 = of_nat (256 * unat c)"
    unfolding kv_bytes_def fmul_def c by (simp only: sample_sizing_def sizing.simps bytes_per_element.simps)
  have p: "compute_bytes_per_token sample_sizing F16 = 1024"
    using n [of 1024] by (simp add: compute_bytes_per_token_def fmul_def COMPUTE_BATCH_TOKENS_def MASK_BYTES_def)
  have "rounded (1024 * of_nat (unat c) + 12288) = of_nat (1024 * unat c + 12288)"
    using n [of "1024 * unat c + 12288"] assms by simp
  then show "compute_bytes sample_sizing c F16 = of_nat (1024 * unat c + 12288)"
    unfolding compute_bytes_def mul_add_def c p by (simp only: sample_sizing_def sizing.simps)
  have b: "bytes_per_token sample_sizing F16 = 1280"
    using n [of 1280] unfolding bytes_per_token_def mul_add_def p by (simp add: sample_sizing_def)
  have "fixed sample_sizing = 1343238144"
    using n [of 1060864] n [of 1343238144] by (simp add: fixed_def fadd_def sample_sizing_def reserve)
  moreover have "rounded (1280 * of_nat (unat c) + 1343238144) = of_nat (1280 * unat c + 1343238144)"
    using n [of "1280 * unat c + 1343238144"] assms by simp
  ultimately show "total_bytes sample_sizing c F16 = of_nat (1280 * unat c + 1343238144)"
    unfolding total_bytes_def mul_add_def c b by (simp only:)
qed

lemma sample_shown:
  assumes "unat c \<le> 2 ^ 20"
  shows "shown_total sample_sizing c F16
    = of_nat (2 ^ 20 * (1281 + (256 * unat c + 1048575) div 1048576 + (1024 * unat c + 1060863) div 1048576))"
proof -
  have m: "mib_of (of_nat n) = (n + 1048575) div 1048576" if "n \<le> 2 ^ 40" for n
    using that f64_round_of_int [of "int n"] by (simp add: mib_of_eq)
  have ok: "sz_ok sample_sizing"
    using rounded_whole [of 12288 12288] by (simp add: sz_ok_def sample_sizing_def)
  have "sound sample_sizing c F16"
  proof (rule plausible_sound [OF ok])
    have "(of_nat (1280 * unat c + 1343238144) :: rat) \<le> of_nat (2 ^ 61)"
      unfolding of_nat_le_iff using assms by simp
    then show "total_bytes sample_sizing c F16 \<le> 2 ^ 61" unfolding sample_figures(3) [OF assms] by simp
  qed
  moreover have "shown_mib sample_sizing c F16
      = 1281 + (256 * unat c + 1048575) div 1048576 + (1024 * unat c + 1060863) div 1048576"
  proof -
    have "mib_of (sz_weights sample_sizing) = 1" using m [of 1048576] by (simp add: sample_sizing_def)
    moreover have "mib_of (of_nat (256 * unat c)) = (256 * unat c + 1048575) div 1048576"
      using assms by (intro m) simp
    moreover have "mib_of (of_nat (1024 * unat c + 12288)) = (1024 * unat c + 12288 + 1048575) div 1048576"
      using assms by (intro m) simp
    ultimately show ?thesis unfolding shown_mib_def sample_figures(1,2) [OF assms] by simp
  qed
  ultimately show ?thesis by (simp only: shown_total_sound)
qed

lemma sample_memory: "fmul 64 GIB = 2 ^ 36" "fmul 2 GIB = 2 ^ 31"
  using rounded_pow2 [of 36] rounded_pow2 [of 31] by (simp_all add: fmul_def GIB_def)

lemma sample_fits: "fits sample_sizing 4096 F16 (2 ^ 36)" "fits sample_sizing 8192 F16 (2 ^ 36)"
  "fits sample_sizing 256 F16 (2 ^ 31)" "\<not> fits sample_sizing 1048576 F16 (2 ^ 31)"
  using sample_shown [of 4096] sample_shown [of 8192] sample_shown [of 256] sample_shown [of 1048576]
  by (simp_all add: fits_def)

lemma sample_plausible: "unat c \<le> 2 ^ 20 \<Longrightarrow> total_bytes sample_sizing c F16 < MAX_PLAUSIBLE_BYTES"
proof -
  assume c: "unat c \<le> 2 ^ 20"
  have "(of_nat (1280 * unat c + 1343238144) :: rat) < of_nat (2 ^ 60)"
    unfolding of_nat_less_iff using c by simp
  then show ?thesis unfolding sample_figures(3) [OF c] MAX_PLAUSIBLE_BYTES_def by simp
qed

lemma sample_estimate:
  assumes "unat c \<le> 2 ^ 20"
  shows "estimate_fit sample_header 1049600 src (sample_request c) (Dedicated g) ram =
    verdict sample_header sample_sizing (sample_request c) (fmul g GIB) ram
      ((with_figures sample_sizing (sample_request c)
         (base_estimate sample_header src (sample_request c) (Dedicated g)))
       \<lparr>ce_notes := notes_for sample_header (sample_request c)\<rparr>)"
proof -
  have h: "\<not> ssm sample_header" "\<not> moe sample_header" "\<not> widths_missing sample_header"
    by (simp_all add: sample_header_def corrupt_header_def widths_missing_def known_width_def)
  have "\<not> MAX_PLAUSIBLE_BYTES \<le> total_bytes sample_sizing c F16" using sample_plausible [OF assms] by simp
  then show ?thesis by (simp add: estimate_fit_def sample_sizing_of Let_def h sample_request_def)
qed

lemma sample_verdict:
  assumes "256 \<le> unat c" "unat c \<le> 2 ^ 20" "fmul g GIB \<le> 2 ^ 58"
  shows "\<exists>e. estimate_fit sample_header 1049600 src (sample_request c) (Dedicated g) ram = Some e \<and>
    ce_outcome e \<noteq> CannotEstimate \<and>
    largest_context sample_sizing F16 (fmul g GIB) (Some 8192) (ce_max_context e) \<and>
    (ce_outcome e = Fits \<longleftrightarrow> fits sample_sizing c F16 (fmul g GIB))"
proof -
  have t: "trained_context sample_header = Some 8192" by (simp add: trained_context_def sample_header_def)
  have q: "rq_context_size (sample_request c) = c" "rq_kv_cache_type (sample_request c) = F16"
    by (simp_all add: sample_request_def)
  show ?thesis
    unfolding sample_estimate [OF assms(2)]
    by (rule verdict_returns [of sample_sizing "sample_request c", unfolded q, of _ sample_header,
          unfolded t, OF sizing_ok [OF sample_sizing_of] sample_plausible [OF assms(2)] assms(1,3)])
qed

text \<open>On 64 GiB the trained context of 8192 tokens is the largest.\<close>

theorem largest_context_exact_witness:
  "\<exists>e. estimate_fit sample_header 1049600 ''m'' (sample_request 4096) (Dedicated 64) None = Some e \<and>
    ce_outcome e = Fits \<and> ce_max_context e = Some 8192"
proof -
  have r: "256 \<le> unat (rq_context_size (sample_request 4096))" "fmul 64 GIB \<le> 2 ^ 58"
    by (simp_all add: sample_request_def sample_memory)
  have tc: "trained_context sample_header = Some 8192" by (simp add: trained_context_def sample_header_def)
  obtain e where e: "estimate_fit sample_header 1049600 ''m'' (sample_request 4096) (Dedicated 64) None = Some e"
    "ce_outcome e = CannotEstimate \<or>
     largest_context sample_sizing F16 (2 ^ 36) (Some 8192) (ce_max_context e) \<and>
     (ce_outcome e = Fits \<longleftrightarrow> fits sample_sizing 4096 F16 (2 ^ 36))"
    using largest_context_exact [OF sample_sizing_of r, of "''m''" None]
    by (auto simp: sample_memory tc sample_request_def)
  have "ce_outcome e \<noteq> CannotEstimate"
    using sample_verdict [of 4096 64 "''m''" None] e(1) r(2) by simp
  with e(2) have l: "largest_context sample_sizing F16 (2 ^ 36) (Some 8192) (ce_max_context e)" "ce_outcome e = Fits"
    using sample_fits(1) by auto
  have "case ce_max_context e of None \<Rightarrow> False | Some c \<Rightarrow> 8192 \<le> c"
    using l(1) sample_fits(2) sample_plausible [of 8192]
    unfolding largest_context_def by (elim conjE allE [of _ 8192] impE) (simp_all add: under_cap_def)
  moreover have "case ce_max_context e of None \<Rightarrow> True | Some c \<Rightarrow> under_cap (Some 8192) c"
    using l(1) by (simp add: largest_context_def split: option.splits)
  ultimately have "ce_max_context e = Some 8192"
    by (auto simp: under_cap_def word_le_nat_alt split: option.splits intro: unsigned_word_eqI)
  then show ?thesis using e(1) l(2) by blast
qed

theorem verdict_only_when_measured_witness:
  "\<exists>e. estimate_fit sample_header 1049600 ''m'' (sample_request 4096) (Dedicated 64) None = Some e \<and>
    ce_cannot_estimate_reason e = None \<and> shown_parts e \<noteq> None"
proof -
  obtain e where e: "estimate_fit sample_header 1049600 ''m'' (sample_request 4096) (Dedicated 64) None = Some e"
    "ce_outcome e \<noteq> CannotEstimate"
    using sample_verdict [of 4096 64 "''m''" None] by (auto simp: sample_memory)
  then show ?thesis using verdict_only_when_measured [OF e(1)] by simp
qed

theorem verdict_agrees_with_figures_witness:
  "\<exists>e parts mib. estimate_fit sample_header 1049600 ''m'' (sample_request 4096) (Dedicated 64) None = Some e \<and>
    shown_parts e = Some (parts, mib) \<and> unat mib = sum_list (map unat parts)"
proof -
  obtain e where e: "estimate_fit sample_header 1049600 ''m'' (sample_request 4096) (Dedicated 64) None = Some e"
    "ce_outcome e \<noteq> CannotEstimate"
    using sample_verdict [of 4096 64 "''m''" None] by (auto simp: sample_memory)
  then show ?thesis using verdict_agrees_with_figures [OF e] by blast
qed

text \<open>On 2 GiB a context of a million tokens does not fit, and a smaller one is suggested.\<close>

theorem suggestions_hold_witness:
  "\<exists>e m. estimate_fit sample_header 1049600 ''m'' (sample_request 1048576) (Dedicated 2) None = Some e \<and>
    ce_outcome e = DoesNotFit \<and> UseContext m F16 False \<in> set (ce_suggestions e) \<and>
    fits sample_sizing m F16 (2 ^ 31)"
proof -
  obtain e where e: "estimate_fit sample_header 1049600 ''m'' (sample_request 1048576) (Dedicated 2) None = Some e"
    "ce_outcome e \<noteq> Fits" "ce_outcome e \<noteq> CannotEstimate"
    "largest_context sample_sizing F16 (2 ^ 31) (Some 8192) (ce_max_context e)"
    using sample_verdict [of 1048576 2 "''m''" None] sample_fits(4) by (auto simp: sample_memory)
  have "case ce_max_context e of None \<Rightarrow> False | Some c \<Rightarrow> 256 \<le> c"
    using e(4) sample_fits(3) sample_plausible [of 256]
    unfolding largest_context_def by (elim conjE allE [of _ 256] impE) (simp_all add: under_cap_def)
  then obtain m where m: "ce_max_context e = Some m" by (auto split: option.splits)
  have "UseContext m F16 False \<in> set (ce_suggestions e)"
    using e(1) unfolding sample_estimate [of 1048576, simplified]
  proof (cases rule: verdict_Some)
    case (2 m' out)
    then show ?thesis using m
      by (auto simp: suggestions_def sample_request_def sample_header_def corrupt_header_def split: option.splits)
  qed (use e(2) in simp)
  from suggestions_hold [OF e(1) this] this e(1) show ?thesis
    by (auto simp: sample_sizing_of sample_memory)
qed

theorem sizing_from_header_witness:
  "sz_layers sample_sizing = 1 \<and> sz_weights sample_sizing \<le> sz_data sample_sizing \<and>
   (\<exists>layers. block_count sample_header = Some layers \<and> sz_layers sample_sizing = layers)"
  using sizing_from_header [OF sample_sizing_of] by (auto simp: sample_sizing_def)

end
