(* ===== verification/Service_Prune.thy ===== *)
theory Service_Prune
  imports Service_Readiness
begin

text \<open>
  Removing the records of services that no longer run (\<^verbatim>\<open>apps/rocm/src/service_records.rs\<close>): the
  files one record owns, \<^verbatim>\<open>rocm services remove\<close> and \<^verbatim>\<open>rocm services prune\<close> with its plan and its
  application, and what they may delete.

  A file beneath the data directory is named by what it is: the manifest, the log or the endpoint
  key of a service id, or the state file an engine keeps for it. Directories are listed in any
  order, the code sorts what it collects. Other processes act between the plan and each deletion: a
  window is an arbitrary function on the files. Every file the commands themselves delete is noted
  with the manifests as they were then. The texts printed are not modelled, and the reasons for
  leaving a record alone are kept in the order they are found (the code sorts their texts).
\<close>

section \<open>The files\<close>

datatype artifact = ManifestFile string | LogFile string | StateFile string string | KeyFile string

record file_store =
  st_registry :: registry
  st_logs :: "string list"
  st_states :: "(string \<times> string list) list"
  st_keys :: "string list"
  st_unlinked :: "(artifact \<times> registry) list"

text \<open>The path of an artifact below the data directory, by its components.\<close>

fun artifact_components :: "artifact \<Rightarrow> string list" where
  "artifact_components (ManifestFile sid) = [''services'', sid @ ''.json'']"
| "artifact_components (LogFile sid) = [''services'', sid @ ''.log'']"
| "artifact_components (StateFile engine sid) = [''engines'', engine, ''state'', sid @ ''.json'']"
| "artifact_components (KeyFile sid) = [''services'', sid @ ''.endpoint-key'']"

fun artifact_id :: "artifact \<Rightarrow> string" where
  "artifact_id (ManifestFile sid) = sid"
| "artifact_id (LogFile sid) = sid"
| "artifact_id (StateFile engine sid) = sid"
| "artifact_id (KeyFile sid) = sid"

definition manifest_present :: "runtime_platform \<Rightarrow> app_paths \<Rightarrow> registry \<Rightarrow> string \<Rightarrow> bool" where
  "manifest_present host paths reg sid \<longleftrightarrow> service_manifest_path host paths sid \<in> fst ` set reg"

fun file_there :: "runtime_platform \<Rightarrow> app_paths \<Rightarrow> file_store \<Rightarrow> artifact \<Rightarrow> bool" where
  "file_there host paths st (ManifestFile sid) \<longleftrightarrow> manifest_present host paths (st_registry st) sid"
| "file_there host paths st (LogFile sid) \<longleftrightarrow> sid \<in> set (st_logs st)"
| "file_there host paths st (StateFile engine sid) \<longleftrightarrow>
     list_ex (\<lambda>(e, ids). e = engine \<and> sid \<in> set ids) (st_states st)"
| "file_there host paths st (KeyFile sid) \<longleftrightarrow> sid \<in> set (st_keys st)"

fun delete_file :: "runtime_platform \<Rightarrow> app_paths \<Rightarrow> artifact \<Rightarrow> file_store \<Rightarrow> file_store" where
  "delete_file host paths (ManifestFile sid) st =
     st\<lparr>st_registry := filter (\<lambda>e. fst e \<noteq> service_manifest_path host paths sid) (st_registry st)\<rparr>"
| "delete_file host paths (LogFile sid) st = st\<lparr>st_logs := removeAll sid (st_logs st)\<rparr>"
| "delete_file host paths (StateFile engine sid) st =
     st\<lparr>st_states := map (\<lambda>(e, ids). (e, if e = engine then removeAll sid ids else ids)) (st_states st)\<rparr>"
| "delete_file host paths (KeyFile sid) st = st\<lparr>st_keys := removeAll sid (st_keys st)\<rparr>"

text \<open>\<^verbatim>\<open>fs::remove_file\<close>: it is done, there is no such file, or it fails.\<close>

datatype unlink_result = Unlinked | NoSuchFile | UnlinkFailed

definition remove_file ::
  "runtime_platform \<Rightarrow> app_paths \<Rightarrow> (artifact \<Rightarrow> bool) \<Rightarrow> artifact \<Rightarrow> file_store \<Rightarrow> unlink_result \<times> file_store" where
  "remove_file host paths allowed a st =
     (if \<not> file_there host paths st a then (NoSuchFile, st)
      else if allowed a
      then (Unlinked, (delete_file host paths a st)\<lparr>st_unlinked := st_unlinked st @ [(a, st_registry st)]\<rparr>)
      else (UnlinkFailed, st))"

section \<open>What one record owns\<close>

record record_artifacts =
  ra_manifest :: artifact
  ra_log :: artifact
  ra_engine_state :: artifact
  ra_endpoint_key :: artifact

definition artifact_paths :: "record_artifacts \<Rightarrow> artifact list" where
  "artifact_paths ra = [ra_manifest ra, ra_log ra, ra_engine_state ra, ra_endpoint_key ra]"

datatype artifact_error = BadServiceId id_error | BadEngine id_error

definition validate_engine_component :: "string \<Rightarrow> artifact_error + unit" where
  "validate_engine_component engine =
     (case service_id_new engine of Inl e \<Rightarrow> Inl (BadEngine e) | Inr _ \<Rightarrow> Inr ())"

definition service_record_artifacts :: "string \<Rightarrow> string \<Rightarrow> artifact_error + record_artifacts" where
  "service_record_artifacts sid engine =
     (case service_id_new sid of
        Inl e \<Rightarrow> Inl (BadServiceId e)
      | Inr _ \<Rightarrow>
          bind_result (validate_engine_component engine) (\<lambda>_.
            Inr \<lparr>ra_manifest = ManifestFile sid, ra_log = LogFile sid,
                 ra_engine_state = StateFile engine sid, ra_endpoint_key = KeyFile sid\<rparr>))"

text \<open>Every artifact is tried; a missing file is no failure.\<close>

fun remove_all ::
  "runtime_platform \<Rightarrow> app_paths \<Rightarrow> (artifact \<Rightarrow> bool) \<Rightarrow> artifact list \<Rightarrow> file_store \<Rightarrow>
     (artifact list \<times> artifact list) \<times> file_store" where
  "remove_all host paths allowed [] st = (([], []), st)"
| "remove_all host paths allowed (a # as) st =
     (let (res, st1) = remove_file host paths allowed a st;
          ((removed, failures), st2) = remove_all host paths allowed as st1
      in ((if res = Unlinked then a # removed else removed,
           if res = UnlinkFailed then a # failures else failures), st2))"

definition try_remove_service_record_artifacts ::
  "runtime_platform \<Rightarrow> app_paths \<Rightarrow> (artifact \<Rightarrow> bool) \<Rightarrow> record_artifacts \<Rightarrow> file_store \<Rightarrow>
     (artifact list \<times> artifact list) \<times> file_store" where
  "try_remove_service_record_artifacts host paths allowed ra st =
     remove_all host paths allowed (artifact_paths ra) st"

definition remove_service_record_artifacts ::
  "runtime_platform \<Rightarrow> app_paths \<Rightarrow> (artifact \<Rightarrow> bool) \<Rightarrow> record_artifacts \<Rightarrow> file_store \<Rightarrow>
     (artifact list + artifact list) \<times> file_store" where
  "remove_service_record_artifacts host paths allowed ra st =
     (let ((removed, failures), st1) = try_remove_service_record_artifacts host paths allowed ra st
      in (if failures \<noteq> [] then Inl failures else Inr removed, st1))"

section \<open>Liveness\<close>

definition managed_service_record_is_in_use :: "(u32 \<Rightarrow> bool) \<Rightarrow> service \<Rightarrow> bool" where
  "managed_service_record_is_in_use running r \<longleftrightarrow> is_live r \<or> list_ex running (recorded_service_pids r)"

text \<open>The loaders refresh what they read, write it back, and drop the key of a service whose stop has
  been completed.\<close>

definition load_one :: "readiness_env \<Rightarrow> app_paths \<Rightarrow> string \<Rightarrow> file_store \<Rightarrow> (control_error + service) \<times> file_store" where
  "load_one env paths sid st =
     (let (res, reg, keys) = load_managed_service env paths sid (st_registry st) (set (st_keys st))
      in (res, st\<lparr>st_registry := reg, st_keys := filter (\<lambda>k. k \<in> keys) (st_keys st)\<rparr>))"

definition load_all :: "readiness_env \<Rightarrow> file_store \<Rightarrow> (control_error + service list) \<times> file_store" where
  "load_all env st =
     (let (res, reg, keys) = load_managed_services_refreshed env (st_registry st) (set (st_keys st))
      in (res, st\<lparr>st_registry := reg, st_keys := filter (\<lambda>k. k \<in> keys) (st_keys st)\<rparr>))"

section \<open>Removing one record\<close>

datatype remove_error =
    RemoveBadId id_error
  | RemoveNotLoaded control_error
  | RemoveStillInUse string string
  | RemoveNeedsYes string
  | RemoveArtifacts artifact_error
  | RemoveFailed "artifact list"

definition remove_managed_service_record ::
  "readiness_env \<Rightarrow> app_paths \<Rightarrow> (u32 \<Rightarrow> bool) \<Rightarrow> (artifact \<Rightarrow> bool) \<Rightarrow> string \<Rightarrow> bool \<Rightarrow> file_store \<Rightarrow>
     (remove_error + artifact list) \<times> file_store" where
  "remove_managed_service_record env paths running allowed sid yes st =
     (case service_id_new sid of
        Inl e \<Rightarrow> (Inl (RemoveBadId e), st)
      | Inr _ \<Rightarrow>
          (case load_one env paths sid st of
             (Inl e, st1) \<Rightarrow> (Inl (RemoveNotLoaded e), st1)
           | (Inr r, st1) \<Rightarrow>
               if managed_service_record_is_in_use running r
               then (Inl (RemoveStillInUse sid (sr_status r)), st1)
               else if \<not> yes then (Inl (RemoveNeedsYes sid), st1)
               else case service_record_artifacts (sr_service_id r) (sr_engine r) of
                 Inl e \<Rightarrow> (Inl (RemoveArtifacts e), st1)
               | Inr ra \<Rightarrow>
                   (let (res, st2) = remove_service_record_artifacts (re_host env) paths allowed ra st1
                    in (case res of Inl fs \<Rightarrow> Inl (RemoveFailed fs) | Inr removed \<Rightarrow> Inr removed, st2))))"

section \<open>The age gate\<close>

text \<open>Times and ages in nanoseconds; a time that cannot be read is none.\<close>

definition DEFAULT_SERVICE_PRUNE_MIN_AGE_HOURS :: u64 where "DEFAULT_SERVICE_PRUNE_MIN_AGE_HOURS = 24"

definition service_prune_min_age_hours :: "u64 \<Rightarrow> bool \<Rightarrow> u64" where
  "service_prune_min_age_hours older_than_hours any_age = (if any_age then 0 else older_than_hours)"

definition age_from_modified :: "nat option \<Rightarrow> nat \<Rightarrow> nat option" where
  "age_from_modified modified now =
     (case modified of None \<Rightarrow> None | Some t \<Rightarrow> if t \<le> now then Some (now - t) else None)"

definition prunable_by_modified :: "nat option \<Rightarrow> nat \<Rightarrow> nat \<Rightarrow> bool" where
  "prunable_by_modified modified min_age now \<longleftrightarrow>
     (if min_age = 0 then True
      else case age_from_modified modified now of None \<Rightarrow> False | Some age \<Rightarrow> min_age \<le> age)"

section \<open>The plan\<close>

record prune_entry =
  pn_service_id :: string
  pn_engine :: string
  pn_status :: string
  pn_artifacts :: record_artifacts

datatype skip_reason = StillInUse string string | UnsafeNames string artifact_error | TooRecent string u64

record prune_plan =
  pp_remove :: "prune_entry list"
  pp_orphans :: "artifact list"
  pp_skipped :: "skip_reason list"
  pp_skipped_live :: nat
  pp_skipped_recent :: nat

text \<open>What the commands find outside: the processes and the probe at the plan, the times of the
  manifests before it and of the files at it, which directories can be listed, which files may be
  deleted, and what others do before each entry and each orphan.\<close>

record prune_env =
  pe_paths :: app_paths
  pe_load :: readiness_env
  pe_running :: "u32 \<Rightarrow> bool"
  pe_now :: nat
  pe_manifest_time :: "string \<Rightarrow> nat option"
  pe_file_time :: "artifact \<Rightarrow> nat option"
  pe_services_listed_first :: bool
  pe_services_listed :: bool
  pe_engines_listed :: bool
  pe_states_listed :: "string \<Rightarrow> bool"
  pe_lock_taken :: bool
  pe_allowed :: "artifact \<Rightarrow> bool"
  pe_reload :: "nat \<Rightarrow> readiness_env"
  pe_running_then :: "nat \<Rightarrow> u32 \<Rightarrow> bool"
  pe_before_entry :: "nat \<Rightarrow> file_store \<Rightarrow> file_store"
  pe_before_orphan :: "nat \<Rightarrow> file_store \<Rightarrow> file_store"

definition pe_host :: "prune_env \<Rightarrow> runtime_platform" where "pe_host env = re_host (pe_load env)"

definition service_manifest_modified_times :: "prune_env \<Rightarrow> registry \<Rightarrow> string \<Rightarrow> nat option" where
  "service_manifest_modified_times env reg p =
     (if pe_services_listed_first env \<and> p \<in> fst ` set reg then pe_manifest_time env p else None)"

definition prunable_by_age :: "prune_env \<Rightarrow> nat \<Rightarrow> artifact \<Rightarrow> bool" where
  "prunable_by_age env min_age a \<longleftrightarrow> prunable_by_modified (pe_file_time env a) min_age (pe_now env)"

text \<open>A file whose whole name is the extension has none.\<close>

definition orphan_candidates :: "prune_env \<Rightarrow> file_store \<Rightarrow> artifact list" where
  "orphan_candidates env st =
     filter (\<lambda>a. artifact_id a \<noteq> [])
       ((if pe_services_listed env then map LogFile (st_logs st) @ map KeyFile (st_keys st) else []) @
        (if pe_engines_listed env
         then concat (map (\<lambda>(engine, ids). if pe_states_listed env engine then map (StateFile engine) ids else [])
                (st_states st))
         else []))"

definition collect_service_orphans :: "prune_env \<Rightarrow> nat \<Rightarrow> file_store \<Rightarrow> artifact list" where
  "collect_service_orphans env min_age st =
     sort_key artifact_components
       (filter (\<lambda>a. \<not> manifest_present (pe_host env) (pe_paths env) (st_registry st) (artifact_id a) \<and>
          prunable_by_age env min_age a) (orphan_candidates env st))"

text \<open>What becomes of one record: in use, not safe to name files by, too recent, or an entry.\<close>

definition plan_record ::
  "prune_env \<Rightarrow> (string \<Rightarrow> nat option) \<Rightarrow> nat \<Rightarrow> u64 \<Rightarrow> service \<Rightarrow> prune_plan \<Rightarrow> prune_plan" where
  "plan_record env mtimes min_age hours r plan =
     (if managed_service_record_is_in_use (pe_running env) r
      then plan\<lparr>pp_skipped_live := pp_skipped_live plan + 1,
                pp_skipped := pp_skipped plan @ [StillInUse (sr_service_id r) (sr_status r)]\<rparr>
      else case service_record_artifacts (sr_service_id r) (sr_engine r) of
        Inl e \<Rightarrow> plan\<lparr>pp_skipped := pp_skipped plan @ [UnsafeNames (sr_service_id r) e]\<rparr>
      | Inr ra \<Rightarrow>
          if \<not> prunable_by_modified
                (mtimes (service_manifest_path (pe_host env) (pe_paths env) (sr_service_id r))) min_age (pe_now env)
          then plan\<lparr>pp_skipped_recent := pp_skipped_recent plan + 1,
                    pp_skipped := pp_skipped plan @ [TooRecent (sr_service_id r) hours]\<rparr>
          else plan\<lparr>pp_remove := pp_remove plan @
                 [\<lparr>pn_service_id = sr_service_id r, pn_engine = sr_engine r, pn_status = sr_status r,
                   pn_artifacts = ra\<rparr>]\<rparr>)"

definition empty_plan :: prune_plan where
  "empty_plan = \<lparr>pp_remove = [], pp_orphans = [], pp_skipped = [], pp_skipped_live = 0, pp_skipped_recent = 0\<rparr>"

definition build_service_prune_plan ::
  "prune_env \<Rightarrow> nat \<Rightarrow> u64 \<Rightarrow> file_store \<Rightarrow> (control_error + prune_plan) \<times> file_store" where
  "build_service_prune_plan env min_age hours st =
     (let mtimes = service_manifest_modified_times env (st_registry st);
          (loaded, st1) = load_all (pe_load env) st
      in case loaded of
        Inl e \<Rightarrow> (Inl e, st1)
      | Inr records \<Rightarrow>
          (let plan = fold (plan_record env mtimes min_age hours) records empty_plan
           in (Inr (plan\<lparr>pp_orphans := collect_service_orphans env min_age st1,
                    pp_remove := sort_key pn_service_id (pp_remove plan)\<rparr>), st1)))"

section \<open>Carrying it out\<close>

record prune_outcome =
  po_removed_records :: nat
  po_removed_files :: nat
  po_skipped_live :: nat
  po_skipped_recent :: nat
  po_failures :: "artifact list"
  po_started_again :: "string list"

definition prune_entry_step :: "prune_env \<Rightarrow> nat \<Rightarrow> prune_entry \<Rightarrow> prune_outcome \<times> file_store \<Rightarrow> prune_outcome \<times> file_store" where
  "prune_entry_step env i entry = (\<lambda>(oc, st).
     (case load_one (pe_reload env i) (pe_paths env) (pn_service_id entry) (pe_before_entry env i st) of
        (res, st1) \<Rightarrow>
          if (case res of Inr r \<Rightarrow> managed_service_record_is_in_use (pe_running_then env i) r | Inl _ \<Rightarrow> False)
          then (oc\<lparr>po_skipped_live := po_skipped_live oc + 1,
                   po_started_again := po_started_again oc @ [pn_service_id entry]\<rparr>, st1)
          else
            (let ((removed, failures), st2) =
                   try_remove_service_record_artifacts (pe_host env) (pe_paths env) (pe_allowed env)
                     (pn_artifacts entry) st1
             in (oc\<lparr>po_removed_files := po_removed_files oc + length removed,
                    po_removed_records := po_removed_records oc + (if failures = [] then 1 else 0),
                    po_failures := po_failures oc @ failures\<rparr>, st2))))"

definition prune_orphan_step :: "prune_env \<Rightarrow> nat \<Rightarrow> artifact \<Rightarrow> prune_outcome \<times> file_store \<Rightarrow> prune_outcome \<times> file_store" where
  "prune_orphan_step env i a = (\<lambda>(oc, st).
     (case remove_file (pe_host env) (pe_paths env) (pe_allowed env) a (pe_before_orphan env i st) of
        (Unlinked, st1) \<Rightarrow> (oc\<lparr>po_removed_files := po_removed_files oc + 1\<rparr>, st1)
      | (NoSuchFile, st1) \<Rightarrow> (oc, st1)
      | (UnlinkFailed, st1) \<Rightarrow> (oc\<lparr>po_failures := po_failures oc @ [a]\<rparr>, st1)))"

definition apply_service_prune_plan ::
  "prune_env \<Rightarrow> prune_plan \<Rightarrow> prune_outcome \<times> file_store \<Rightarrow> prune_outcome \<times> file_store" where
  "apply_service_prune_plan env plan s =
     fold (\<lambda>(i, a). prune_orphan_step env i a) (enumerate 0 (pp_orphans plan))
       (fold (\<lambda>(i, entry). prune_entry_step env i entry) (enumerate 0 (pp_remove plan)) s)"

datatype prune_error = PruneNeedsYes | PruneLockFailed | PruneNotLoaded control_error

definition planned_outcome :: "prune_plan \<Rightarrow> prune_outcome" where
  "planned_outcome plan =
     \<lparr>po_removed_records = 0, po_removed_files = 0, po_skipped_live = pp_skipped_live plan,
      po_skipped_recent = pp_skipped_recent plan, po_failures = [], po_started_again = []\<rparr>"

definition prune_min_age :: "u64 \<Rightarrow> nat" where
  "prune_min_age hours = unat (saturating_mul hours 3600) * 1000000000"

definition prune_managed_service_records ::
  "prune_env \<Rightarrow> u64 \<Rightarrow> bool \<Rightarrow> bool \<Rightarrow> file_store \<Rightarrow> (prune_error + prune_outcome) \<times> file_store" where
  "prune_managed_service_records env hours dry_run yes st =
     (if \<not> dry_run \<and> \<not> yes then (Inl PruneNeedsYes, st)
      else if \<not> pe_lock_taken env then (Inl PruneLockFailed, st)
      else case build_service_prune_plan env (prune_min_age hours) hours st of
        (Inl e, st1) \<Rightarrow> (Inl (PruneNotLoaded e), st1)
      | (Inr plan, st1) \<Rightarrow>
          if dry_run then (Inr (planned_outcome plan), st1)
          else (case apply_service_prune_plan env plan (planned_outcome plan, st1) of
                  (oc, st2) \<Rightarrow> (Inr oc, st2)))"

section \<open>Deleting files\<close>

lemma manifest_path_inj [simp]:
  "service_manifest_path host paths a = service_manifest_path host paths b \<longleftrightarrow> a = b"
  by (auto simp: service_manifest_path_def path_join_def)

lemma present_delete:
  "file_there host paths (delete_file host paths a st) b \<longleftrightarrow> file_there host paths st b \<and> b \<noteq> a"
proof (cases a)
  case (ManifestFile sid)
  then show ?thesis by (cases b) (auto simp: manifest_present_def)
next
  case (StateFile engine sid)
  have s: "list_ex (\<lambda>(e, ids). e = x \<and> y \<in> set ids)
      (map (\<lambda>(e, ids). (e, if e = engine then removeAll sid ids else ids)) xs) \<longleftrightarrow>
    list_ex (\<lambda>(e, ids). e = x \<and> y \<in> set ids) xs \<and> \<not> (x = engine \<and> y = sid)" for x y xs
    by (induction xs) (auto split: prod.splits)
  from StateFile show ?thesis by (cases b) (simp_all add: s)
qed (cases b; auto)+

lemma present_unlinked [simp]: "file_there host paths (st\<lparr>st_unlinked := l\<rparr>) a \<longleftrightarrow> file_there host paths st a"
  by (cases a) simp_all

lemma delete_keeps_log [simp]: "st_unlinked (delete_file host paths a st) = st_unlinked st"
  by (cases a) simp_all

lemma remove_file_cases:
  obtains "\<not> file_there host paths st a" "remove_file host paths allowed a st = (NoSuchFile, st)"
  | "file_there host paths st a" "\<not> allowed a" "remove_file host paths allowed a st = (UnlinkFailed, st)"
  | "file_there host paths st a" "allowed a"
    "remove_file host paths allowed a st =
       (Unlinked, (delete_file host paths a st)\<lparr>st_unlinked := st_unlinked st @ [(a, st_registry st)]\<rparr>)"
  by (cases "file_there host paths st a"; cases "allowed a") (auto simp: remove_file_def)

text \<open>What deleting a list of different files does: it deletes those that are there and may be
  deleted, reports those that are there and may not, and leaves everything else.\<close>

lemma remove_all_result:
  assumes "distinct as" "remove_all host paths allowed as st = ((removed, failures), st')"
  shows "removed = filter (\<lambda>a. file_there host paths st a \<and> allowed a) as"
    and "failures = filter (\<lambda>a. file_there host paths st a \<and> \<not> allowed a) as"
    and "file_there host paths st' b \<longleftrightarrow> file_there host paths st b \<and> b \<notin> set removed"
    and "\<exists>l. st_unlinked st' = st_unlinked st @ l \<and> map fst l = removed"
proof -
  have "removed = filter (\<lambda>a. file_there host paths st a \<and> allowed a) as \<and>
    failures = filter (\<lambda>a. file_there host paths st a \<and> \<not> allowed a) as \<and>
    (\<forall>b. file_there host paths st' b \<longleftrightarrow> file_there host paths st b \<and> b \<notin> set removed) \<and>
    (\<exists>l. st_unlinked st' = st_unlinked st @ l \<and> map fst l = removed)"
    using assms
  proof (induction as arbitrary: st removed failures)
    case (Cons a as)
    obtain res st1 where r: "remove_file host paths allowed a st = (res, st1)" by fastforce
    obtain rm fs where q: "remove_all host paths allowed as st1 = ((rm, fs), st')"
      using Cons.prems(2) r by (auto split: prod.splits)
    have o: "removed = (if res = Unlinked then a # rm else rm)" "failures = (if res = UnlinkFailed then a # fs else fs)"
      using Cons.prems(2) r q by simp_all
    have d: "distinct as" "a \<notin> set as" using Cons.prems(1) by simp_all
    note ih = Cons.IH [OF d(1) q]
    note ih1 = conjunct1 [OF ih] and ih2 = conjunct1 [OF conjunct2 [OF ih]]
    note ih34 = conjunct2 [OF conjunct2 [OF ih]]
    note ih3 = conjunct1 [OF ih34] and ih4 = conjunct2 [OF ih34]
    show ?case
    proof (cases rule: remove_file_cases [of host paths st a allowed])
      case 1
      then have s: "st1 = st" "res = NoSuchFile" using r by simp_all
      have "removed = rm" "failures = fs" using o s(2) by simp_all
      then show ?thesis using ih1 ih2 ih3 ih4 1(1) by (simp add: s(1))
    next
      case 2
      then have s: "st1 = st" "res = UnlinkFailed" using r by simp_all
      have "removed = rm" "failures = a # fs" using o s(2) by simp_all
      then show ?thesis using ih1 ih2 ih3 ih4 2(1,2) by (simp add: s(1))
    next
      case 3
      have st1: "st1 = (delete_file host paths a st)\<lparr>st_unlinked := st_unlinked st @ [(a, st_registry st)]\<rparr>"
        and res: "res = Unlinked" using 3(3) r by simp_all
      have p: "file_there host paths st1 b \<longleftrightarrow> file_there host paths st b \<and> b \<noteq> a" for b
        by (simp add: st1 present_delete)
      have f: "filter (\<lambda>x. file_there host paths st1 x \<and> P x) as = filter (\<lambda>x. file_there host paths st x \<and> P x) as" for P
        using d(2) by (intro filter_cong) (auto simp: p)
      obtain l where l: "st_unlinked st' = st_unlinked st1 @ l" "map fst l = rm" using ih4 by blast
      have "st_unlinked st' = st_unlinked st @ ((a, st_registry st) # l)" using l(1) by (simp add: st1)
      then have "\<exists>l. st_unlinked st' = st_unlinked st @ l \<and> map fst l = a # rm"
        using l(2) by (intro exI [of _ "(a, st_registry st) # l"]) simp
      moreover have "removed = a # rm" "failures = fs" using o res by simp_all
      moreover have "rm = filter (\<lambda>x. file_there host paths st x \<and> allowed x) as"
        "fs = filter (\<lambda>x. file_there host paths st x \<and> \<not> allowed x) as" using ih1 ih2 by (simp_all only: f)
      moreover have "file_there host paths st' b \<longleftrightarrow> file_there host paths st b \<and> b \<noteq> a \<and> b \<notin> set rm" for b
        using ih3 by (simp add: p)
      ultimately show ?thesis using 3(1,2) by simp
    qed
  qed simp
  then show "removed = filter (\<lambda>a. file_there host paths st a \<and> allowed a) as"
    "failures = filter (\<lambda>a. file_there host paths st a \<and> \<not> allowed a) as"
    "file_there host paths st' b \<longleftrightarrow> file_there host paths st b \<and> b \<notin> set removed"
    "\<exists>l. st_unlinked st' = st_unlinked st @ l \<and> map fst l = removed" by blast+
qed

lemma artifacts_Inr:
  assumes "service_record_artifacts sid engine = Inr ra"
  shows "artifact_paths ra = [ManifestFile sid, LogFile sid, StateFile engine sid, KeyFile sid]"
    "service_id_new sid = Inr sid" "service_id_new engine = Inr engine"
  using assms
  by (auto simp: service_record_artifacts_def validate_engine_component_def artifact_paths_def service_id_new_def
      split: sum.splits if_splits)

lemma load_one_keeps [simp]:
  "st_unlinked (snd (load_one env paths sid st)) = st_unlinked st"
  "st_logs (snd (load_one env paths sid st)) = st_logs st"
  "st_states (snd (load_one env paths sid st)) = st_states st"
  by (simp_all add: load_one_def split: prod.splits)

lemma load_all_keeps [simp]:
  "st_unlinked (snd (load_all env st)) = st_unlinked st"
  by (simp add: load_all_def split: prod.splits)

section \<open>What a run deletes\<close>

lemma remove_all_log:
  assumes "remove_all host paths allowed as st = ((removed, failures), st')"
  shows "\<exists>l. st_unlinked st' = st_unlinked st @ l \<and> map fst l = removed" (is "?L")
    and "set removed \<subseteq> set as" (is "?R") and "\<forall>a \<in> set failures. \<not> allowed a" (is "?F")
proof -
  have "?L \<and> ?R \<and> ?F" using assms
  proof (induction as arbitrary: st removed failures)
    case (Cons a as)
    obtain rm fs where q: "remove_all host paths allowed as (snd (remove_file host paths allowed a st)) = ((rm, fs), st')"
      using Cons.prems by (auto split: prod.splits)
    obtain l where l: "st_unlinked st' = st_unlinked (snd (remove_file host paths allowed a st)) @ l" "map fst l = rm"
      using Cons.IH [OF q] by blast
    have ih: "set rm \<subseteq> set as" "\<forall>a \<in> set fs. \<not> allowed a" using Cons.IH [OF q] by blast+
    show ?case
    proof (cases rule: remove_file_cases [of host paths st a allowed])
      case 1
      then show ?thesis using Cons.prems q l ih by (auto intro: exI [of _ l])
    next
      case 2
      then show ?thesis using Cons.prems q l ih by (auto intro: exI [of _ l])
    next
      case 3
      have o: "removed = a # rm" "failures = fs" using Cons.prems q 3(3) by simp_all
      have "\<exists>l. st_unlinked st' = st_unlinked st @ l \<and> map fst l = removed"
        using l 3(3) o(1) by (intro exI [of _ "(a, st_registry st) # l"]) simp
      then show ?thesis using ih o by auto
    qed
  qed simp
  then show ?L ?R ?F by blast+
qed

text \<open>The record of an entry is read again before its files are touched.\<close>

definition reloaded_in_use :: "prune_env \<Rightarrow> nat \<Rightarrow> prune_entry \<Rightarrow> file_store \<Rightarrow> bool" where
  "reloaded_in_use env i entry st \<longleftrightarrow>
     (case fst (load_one (pe_reload env i) (pe_paths env) (pn_service_id entry) (pe_before_entry env i st)) of
        Inr r \<Rightarrow> managed_service_record_is_in_use (pe_running_then env i) r
      | Inl _ \<Rightarrow> False)"

text \<open>The outcome and the files after the first entries.\<close>

definition entries_run :: "prune_env \<Rightarrow> prune_plan \<Rightarrow> nat \<Rightarrow> prune_outcome \<times> file_store \<Rightarrow> prune_outcome \<times> file_store" where
  "entries_run env plan n s =
     fold (\<lambda>(i, entry). prune_entry_step env i entry) (take n (enumerate 0 (pp_remove plan))) s"

definition orphans_run :: "prune_env \<Rightarrow> prune_plan \<Rightarrow> nat \<Rightarrow> prune_outcome \<times> file_store \<Rightarrow> prune_outcome \<times> file_store" where
  "orphans_run env plan n s = fold (\<lambda>(i, a). prune_orphan_step env i a) (take n (enumerate 0 (pp_orphans plan))) s"

lemma entries_run_0 [simp]: "entries_run env plan 0 s = s" "orphans_run env plan 0 s = s"
  by (simp_all add: entries_run_def orphans_run_def)

lemma entries_run_Suc:
  "n < length (pp_remove plan) \<Longrightarrow>
     entries_run env plan (Suc n) s = prune_entry_step env n (pp_remove plan ! n) (entries_run env plan n s)"
  by (simp add: entries_run_def take_Suc_conv_app_nth nth_enumerate_eq)

lemma orphans_run_Suc:
  "n < length (pp_orphans plan) \<Longrightarrow>
     orphans_run env plan (Suc n) s = prune_orphan_step env n (pp_orphans plan ! n) (orphans_run env plan n s)"
  by (simp add: orphans_run_def take_Suc_conv_app_nth nth_enumerate_eq)

lemma apply_plan_runs:
  "apply_service_prune_plan env plan s =
     orphans_run env plan (length (pp_orphans plan)) (entries_run env plan (length (pp_remove plan)) s)"
  by (simp add: apply_service_prune_plan_def entries_run_def orphans_run_def)

text \<open>Others leave the note of what the command deleted alone.\<close>

definition windows_quiet :: "prune_env \<Rightarrow> bool" where
  "windows_quiet env \<longleftrightarrow>
     (\<forall>i st. st_unlinked (pe_before_entry env i st) = st_unlinked st \<and>
       st_unlinked (pe_before_orphan env i st) = st_unlinked st)"

text \<open>One entry: either its service is in use again and nothing is deleted, or some of its artifacts
  are, each counted, and a failure names one that may not be deleted.\<close>

lemma prune_entry_step_cases:
  assumes "windows_quiet env"
  obtains "reloaded_in_use env i entry (snd s)"
    "st_unlinked (snd (prune_entry_step env i entry s)) = st_unlinked (snd s)"
    "fst (prune_entry_step env i entry s) = (fst s)\<lparr>po_skipped_live := po_skipped_live (fst s) + 1,
       po_started_again := po_started_again (fst s) @ [pn_service_id entry]\<rparr>"
  | l failures where "\<not> reloaded_in_use env i entry (snd s)"
    "st_unlinked (snd (prune_entry_step env i entry s)) = st_unlinked (snd s) @ l"
    "fst ` set l \<subseteq> set (artifact_paths (pn_artifacts entry))" "\<forall>a \<in> set failures. \<not> pe_allowed env a"
    "fst (prune_entry_step env i entry s) = (fst s)\<lparr>po_removed_files := po_removed_files (fst s) + length l,
       po_removed_records := po_removed_records (fst s) + (if failures = [] then 1 else 0),
       po_failures := po_failures (fst s) @ failures\<rparr>"
proof -
  obtain oc st where s: "s = (oc, st)" by fastforce
  obtain res st1 where l: "load_one (pe_reload env i) (pe_paths env) (pn_service_id entry) (pe_before_entry env i st) = (res, st1)"
    by fastforce
  have u: "st_unlinked st1 = st_unlinked st"
    using load_one_keeps(1) [of "pe_reload env i" "pe_paths env" "pn_service_id entry" "pe_before_entry env i st"] assms l
    by (simp add: windows_quiet_def)
  show thesis
  proof (cases "reloaded_in_use env i entry st")
    case True
    then have c: "case res of Inr r \<Rightarrow> managed_service_record_is_in_use (pe_running_then env i) r | Inl _ \<Rightarrow> False"
      by (simp add: reloaded_in_use_def l)
    show thesis by (rule that(1)) (use True c in \<open>simp_all add: s prune_entry_step_def l u\<close>)
  next
    case False
    then have c: "\<not> (case res of Inr r \<Rightarrow> managed_service_record_is_in_use (pe_running_then env i) r | Inl _ \<Rightarrow> False)"
      by (simp add: reloaded_in_use_def l)
    obtain rm fs st2 where t: "try_remove_service_record_artifacts (pe_host env) (pe_paths env) (pe_allowed env)
        (pn_artifacts entry) st1 = ((rm, fs), st2)" by (metis prod.exhaust)
    note ra = remove_all_log [OF t [unfolded try_remove_service_record_artifacts_def]]
    obtain lg where lg: "st_unlinked st2 = st_unlinked st1 @ lg" "map fst lg = rm" using ra(1) by blast
    have len: "length rm = length lg" and sub: "fst ` set lg = set rm" by (simp_all flip: lg(2))
    show thesis
      by (rule that(2) [of lg fs]) (use False c lg(1) ra(2,3) len sub in \<open>simp_all add: s prune_entry_step_def l u t\<close>)
  qed
qed

text \<open>One orphan.\<close>

lemma prune_orphan_step_cases:
  assumes "windows_quiet env"
  obtains l failures where "st_unlinked (snd (prune_orphan_step env i a s)) = st_unlinked (snd s) @ l"
    "fst ` set l \<subseteq> {a}" "\<forall>x \<in> set failures. \<not> pe_allowed env x"
    "fst (prune_orphan_step env i a s) = (fst s)\<lparr>po_removed_files := po_removed_files (fst s) + length l,
       po_failures := po_failures (fst s) @ failures\<rparr>"
proof -
  obtain oc st where s: "s = (oc, st)" by fastforce
  let ?st = "pe_before_orphan env i st"
  have u: "st_unlinked ?st = st_unlinked st" using assms by (simp add: windows_quiet_def)
  show thesis
  proof (cases rule: remove_file_cases [of "pe_host env" "pe_paths env" ?st a "pe_allowed env"])
    case 1
    then show thesis by (intro that [of "[]" "[]"]) (simp_all add: s prune_orphan_step_def u)
  next
    case 2
    then show thesis by (intro that [of "[]" "[a]"]) (simp_all add: s prune_orphan_step_def u)
  next
    case 3
    then show thesis
      by (intro that [of "[(a, st_registry ?st)]" "[]"]) (simp_all add: s prune_orphan_step_def u)
  qed
qed

text \<open>What is true of the entries carried out so far: every deletion is of an artifact of an entry
  whose service was not in use when its record was read again, and the report counts each of them.\<close>

definition entry_unlink :: "prune_env \<Rightarrow> prune_plan \<Rightarrow> prune_outcome \<times> file_store \<Rightarrow> artifact \<Rightarrow> bool" where
  "entry_unlink env plan s a \<longleftrightarrow>
     (\<exists>i < length (pp_remove plan). a \<in> set (artifact_paths (pn_artifacts (pp_remove plan ! i))) \<and>
        \<not> reloaded_in_use env i (pp_remove plan ! i) (snd (entries_run env plan i s)))"

lemma entries_run_log:
  assumes quiet: "windows_quiet env" and n: "n \<le> length (pp_remove plan)"
  obtains l failures records again where
    "st_unlinked (snd (entries_run env plan n s)) = st_unlinked (snd s) @ l"
    "\<forall>a \<in> fst ` set l. entry_unlink env plan s a" "\<forall>a \<in> set failures. \<not> pe_allowed env a"
    "records + length again \<le> n" "failures = [] \<longrightarrow> records + length again = n"
    "fst (entries_run env plan n s) = (fst s)\<lparr>po_removed_files := po_removed_files (fst s) + length l,
       po_removed_records := po_removed_records (fst s) + records,
       po_skipped_live := po_skipped_live (fst s) + length again,
       po_failures := po_failures (fst s) @ failures,
       po_started_again := po_started_again (fst s) @ again\<rparr>"
  using n
proof (induction n arbitrary: thesis)
  case 0
  show thesis by (rule "0.prems"(1) [of "[]" "[]" 0 "[]"]) simp_all
next
  case (Suc n)
  let ?e = "pp_remove plan ! n" and ?s = "entries_run env plan n s"
  have n: "n < length (pp_remove plan)" using Suc.prems(2) by simp
  obtain l fs rs ag where ih:
    "st_unlinked (snd ?s) = st_unlinked (snd s) @ l"
    "\<forall>a \<in> fst ` set l. entry_unlink env plan s a" "\<forall>a \<in> set fs. \<not> pe_allowed env a"
    "rs + length ag \<le> n" "fs = [] \<longrightarrow> rs + length ag = n"
    "fst ?s = (fst s)\<lparr>po_removed_files := po_removed_files (fst s) + length l,
       po_removed_records := po_removed_records (fst s) + rs,
       po_skipped_live := po_skipped_live (fst s) + length ag,
       po_failures := po_failures (fst s) @ fs,
       po_started_again := po_started_again (fst s) @ ag\<rparr>"
    by (rule Suc.IH) (use n in simp_all)
  show thesis
  proof (rule prune_entry_step_cases [OF quiet, of n ?e ?s], goal_cases)
    case 1
    show thesis
      by (rule Suc.prems(1) [of l fs rs "ag @ [pn_service_id ?e]"])
        (use 1 ih in \<open>simp_all add: entries_run_Suc [OF n]\<close>)
  next
    case (2 l' fs')
    have new: "\<forall>a \<in> fst ` set l'. entry_unlink env plan s a"
      using 2(1,3) n by (auto simp: entry_unlink_def)
    show thesis
      by (rule Suc.prems(1) [of "l @ l'" "fs @ fs'" "rs + (if fs' = [] then 1 else 0)" ag])
        (use 2(2,4,5) new ih in \<open>auto simp: entries_run_Suc [OF n]\<close>)
  qed
qed

lemma orphans_run_log:
  assumes quiet: "windows_quiet env" and n: "n \<le> length (pp_orphans plan)"
  obtains l failures where
    "st_unlinked (snd (orphans_run env plan n s)) = st_unlinked (snd s) @ l"
    "fst ` set l \<subseteq> set (pp_orphans plan)" "\<forall>a \<in> set failures. \<not> pe_allowed env a"
    "fst (orphans_run env plan n s) = (fst s)\<lparr>po_removed_files := po_removed_files (fst s) + length l,
       po_failures := po_failures (fst s) @ failures\<rparr>"
  using n
proof (induction n arbitrary: thesis)
  case 0
  show thesis by (rule "0.prems"(1) [of "[]" "[]"]) simp_all
next
  case (Suc n)
  have n: "n < length (pp_orphans plan)" using Suc.prems(2) by simp
  obtain l fs where ih:
    "st_unlinked (snd (orphans_run env plan n s)) = st_unlinked (snd s) @ l"
    "fst ` set l \<subseteq> set (pp_orphans plan)" "\<forall>a \<in> set fs. \<not> pe_allowed env a"
    "fst (orphans_run env plan n s) = (fst s)\<lparr>po_removed_files := po_removed_files (fst s) + length l,
       po_failures := po_failures (fst s) @ fs\<rparr>"
    by (rule Suc.IH) (use n in simp_all)
  show thesis
  proof (rule prune_orphan_step_cases [OF quiet, of n "pp_orphans plan ! n" "orphans_run env plan n s"], goal_cases)
    case (1 l' fs')
    have "{pp_orphans plan ! n} \<subseteq> set (pp_orphans plan)" using nth_mem [OF n] by simp
    with 1(2) have new: "fst ` set l' \<subseteq> set (pp_orphans plan)" by (rule order_trans)
    note step = orphans_run_Suc [OF n, of env s]
    show thesis
    proof (rule Suc.prems(1) [of "l @ l'" "fs @ fs'"])
      show "st_unlinked (snd (orphans_run env plan (Suc n) s)) = st_unlinked (snd s) @ l @ l'"
        using 1(1) ih(1) by (simp add: step)
      show "fst ` set (l @ l') \<subseteq> set (pp_orphans plan)" using new ih(2) by (simp add: image_Un)
      show "\<forall>a \<in> set (fs @ fs'). \<not> pe_allowed env a" using 1(3) ih(3) by auto
      show "fst (orphans_run env plan (Suc n) s) = (fst s)\<lparr>po_removed_files := po_removed_files (fst s) + length (l @ l'),
          po_failures := po_failures (fst s) @ fs @ fs'\<rparr>" using 1(4) ih(4) by (simp add: step)
    qed
  qed
qed

section \<open>What a plan names\<close>

text \<open>A record that may go: nothing of it runs, its names are safe in a path, it is old enough.\<close>

definition removable ::
  "prune_env \<Rightarrow> (string \<Rightarrow> nat option) \<Rightarrow> nat \<Rightarrow> service \<Rightarrow> prune_entry \<Rightarrow> bool" where
  "removable env mtimes min_age r entry \<longleftrightarrow>
     \<not> managed_service_record_is_in_use (pe_running env) r \<and>
     pn_service_id entry = sr_service_id r \<and>
     service_record_artifacts (sr_service_id r) (sr_engine r) = Inr (pn_artifacts entry) \<and>
     prunable_by_modified (mtimes (service_manifest_path (pe_host env) (pe_paths env) (sr_service_id r)))
       min_age (pe_now env)"

text \<open>A file that belongs to no record: it is there and no manifest of its id is.\<close>

definition leftover :: "prune_env \<Rightarrow> nat \<Rightarrow> file_store \<Rightarrow> artifact \<Rightarrow> bool" where
  "leftover env min_age st a \<longleftrightarrow>
     file_there (pe_host env) (pe_paths env) st a \<and> (\<forall>sid. a \<noteq> ManifestFile sid) \<and>
     \<not> manifest_present (pe_host env) (pe_paths env) (st_registry st) (artifact_id a) \<and>
     prunable_by_modified (pe_file_time env a) min_age (pe_now env)"

lemma plan_record_step:
  "e \<in> set (pp_remove (plan_record env mtimes min_age hours r plan)) \<Longrightarrow>
     e \<in> set (pp_remove plan) \<or> removable env mtimes min_age r e"
  by (auto simp: plan_record_def removable_def split: if_splits sum.splits)

lemma plan_record_fold:
  assumes "fold (plan_record env mtimes min_age hours) records plan = plan'"
  shows "\<forall>e \<in> set (pp_remove plan'). e \<in> set (pp_remove plan) \<or> (\<exists>r \<in> set records. removable env mtimes min_age r e)"
    and "length (pp_remove plan') + length (pp_skipped plan') =
      length (pp_remove plan) + length (pp_skipped plan) + length records"
  using assms
proof (induction records arbitrary: plan)
  case (Cons r rs)
  {
    case 1
    show ?case using Cons.IH(1) [of "plan_record env mtimes min_age hours r plan"] 1
        plan_record_step [of _ env mtimes min_age hours r plan] by fastforce
  next
    case 2
    show ?case using Cons.IH(2) [of "plan_record env mtimes min_age hours r plan"] 2
      by (simp add: plan_record_def split: if_splits sum.splits)
  }
qed simp_all

lemma candidate_present:
  assumes "a \<in> set (orphan_candidates env st)"
  shows "file_there host paths st a" "a \<noteq> ManifestFile sid"
  using assms by (auto simp: orphan_candidates_def list_ex_iff split: if_splits, force)

lemma prune_plan_names:
  assumes "build_service_prune_plan env min_age hours st = (Inr plan, st1)"
  obtains records where "load_all (pe_load env) st = (Inr records, st1)"
    "\<forall>e \<in> set (pp_remove plan). \<exists>r \<in> set records.
       removable env (service_manifest_modified_times env (st_registry st)) min_age r e"
    "length (pp_remove plan) + length (pp_skipped plan) = length records"
    "\<forall>a \<in> set (pp_orphans plan). leftover env min_age st1 a"
proof -
  obtain records where l: "load_all (pe_load env) st = (Inr records, st1)"
    using assms by (auto simp: build_service_prune_plan_def Let_def split: prod.splits sum.splits)
  let ?m = "service_manifest_modified_times env (st_registry st)"
  define q where "q = fold (plan_record env ?m min_age hours) records empty_plan"
  have plan: "plan = q\<lparr>pp_orphans := collect_service_orphans env min_age st1,
      pp_remove := sort_key pn_service_id (pp_remove q)\<rparr>"
    using assms l by (simp add: build_service_prune_plan_def q_def Let_def)
  have e: "pp_remove empty_plan = []" "pp_skipped empty_plan = []" by (simp_all add: empty_plan_def)
  show thesis
  proof (rule that [OF l])
    show "\<forall>e \<in> set (pp_remove plan). \<exists>r \<in> set records. removable env ?m min_age r e"
      using plan_record_fold(1) [OF q_def [symmetric]] by (simp add: plan e)
    show "length (pp_remove plan) + length (pp_skipped plan) = length records"
      using plan_record_fold(2) [OF q_def [symmetric]] by (simp add: plan e)
    show "\<forall>a \<in> set (pp_orphans plan). leftover env min_age st1 a"
      by (auto simp: plan collect_service_orphans_def leftover_def prunable_by_age_def dest: candidate_present)
  qed
qed

section \<open>A whole run\<close>

lemma applied_plan:
  assumes quiet: "windows_quiet env"
    and run: "apply_service_prune_plan env plan (planned_outcome plan, st1) = (oc, st2)"
  obtains l where "st_unlinked st2 = st_unlinked st1 @ l"
    "\<forall>a \<in> fst ` set l. a \<in> set (pp_orphans plan) \<or> entry_unlink env plan (planned_outcome plan, st1) a"
    "po_removed_files oc = length l" "\<forall>a \<in> set (po_failures oc). \<not> pe_allowed env a"
    "po_removed_records oc + length (po_started_again oc) \<le> length (pp_remove plan)"
    "po_failures oc = [] \<longrightarrow> po_removed_records oc + length (po_started_again oc) = length (pp_remove plan)"
    "po_skipped_live oc = pp_skipped_live plan + length (po_started_again oc)"
    "po_skipped_recent oc = pp_skipped_recent plan"
proof -
  let ?s = "(planned_outcome plan, st1)"
  let ?s1 = "entries_run env plan (length (pp_remove plan)) ?s"
  obtain l fs rs ag where e: "st_unlinked (snd ?s1) = st_unlinked st1 @ l"
    "\<forall>a \<in> fst ` set l. entry_unlink env plan ?s a" "\<forall>a \<in> set fs. \<not> pe_allowed env a"
    "rs + length ag \<le> length (pp_remove plan)" "fs = [] \<longrightarrow> rs + length ag = length (pp_remove plan)"
    "fst ?s1 = (planned_outcome plan)\<lparr>po_removed_files := po_removed_files (planned_outcome plan) + length l,
       po_removed_records := po_removed_records (planned_outcome plan) + rs,
       po_skipped_live := po_skipped_live (planned_outcome plan) + length ag,
       po_failures := po_failures (planned_outcome plan) @ fs,
       po_started_again := po_started_again (planned_outcome plan) @ ag\<rparr>"
    using entries_run_log [OF quiet order_refl, of plan ?s] by (metis fst_conv snd_conv)
  obtain l' fs' where o: "st_unlinked st2 = st_unlinked (snd ?s1) @ l'"
    "fst ` set l' \<subseteq> set (pp_orphans plan)" "\<forall>a \<in> set fs'. \<not> pe_allowed env a"
    "oc = (fst ?s1)\<lparr>po_removed_files := po_removed_files (fst ?s1) + length l',
       po_failures := po_failures (fst ?s1) @ fs'\<rparr>"
    using orphans_run_log [OF quiet order_refl, of plan ?s1] run unfolding apply_plan_runs by (metis fst_conv snd_conv)
  show thesis
    by (rule that [of "l @ l'"]) (use e o in \<open>auto simp: planned_outcome_def\<close>)
qed

lemma prune_cases:
  assumes "prune_managed_service_records env hours dry_run yes st = (res, st')"
  obtains (refused) "\<exists>e. res = Inl e" "st_unlinked st' = st_unlinked st"
  | (dry) plan where "dry_run" "build_service_prune_plan env (prune_min_age hours) hours st = (Inr plan, st')"
    "res = Inr (planned_outcome plan)" "st_unlinked st' = st_unlinked st"
  | (applied) plan st1 oc where "yes" "\<not> dry_run" "pe_lock_taken env"
    "build_service_prune_plan env (prune_min_age hours) hours st = (Inr plan, st1)"
    "apply_service_prune_plan env plan (planned_outcome plan, st1) = (oc, st')" "res = Inr oc"
    "st_unlinked st1 = st_unlinked st"
proof -
  obtain p st1 where b: "build_service_prune_plan env (prune_min_age hours) hours st = (p, st1)" by fastforce
  have "st1 = snd (load_all (pe_load env) st)"
    using b by (auto simp: build_service_prune_plan_def Let_def split: prod.splits sum.splits)
  then have u: "st_unlinked st1 = st_unlinked st" by simp
  show thesis
  proof (cases "(\<not> dry_run \<and> \<not> yes) \<or> \<not> pe_lock_taken env")
    case True
    with assms have "\<exists>e. res = Inl e" "st' = st" by (auto simp: prune_managed_service_records_def split: if_splits)
    then show thesis by (intro refused) simp_all
  next
    case False
    show thesis
    proof (cases p)
      case (Inl e)
      with False assms b u show thesis by (intro refused) (auto simp: prune_managed_service_records_def)
    next
      case (Inr plan)
      obtain oc st2 where a: "apply_service_prune_plan env plan (planned_outcome plan, st1) = (oc, st2)" by fastforce
      show thesis
      proof (cases dry_run)
        case True
        with False assms b u Inr show thesis by (intro dry) (auto simp: prune_managed_service_records_def)
      next
        case nd: False
        then show thesis
          by (intro applied [of plan st1 oc]) (use False assms b u Inr a in \<open>auto simp: prune_managed_service_records_def\<close>)
      qed
    qed
  qed
qed

section \<open>Properties\<close>


text \<open>The report of a prune is what it did: it counts exactly the files deleted, each failure is a
  file that may not be deleted, every planned record is removed, left alone because its service
  started again, or has a failure, and each record loaded is planned or listed with a reason.\<close>

theorem prune_report_exact:
  assumes "windows_quiet env" "prune_managed_service_records env hours dry_run yes st = (Inr oc, st')"
  shows "\<exists>plan st1 records l. build_service_prune_plan env (prune_min_age hours) hours st = (Inr plan, st1) \<and>
    load_all (pe_load env) st = (Inr records, st1) \<and>
    length records = length (pp_remove plan) + length (pp_skipped plan) \<and>
    st_unlinked st' = st_unlinked st @ l \<and> po_removed_files oc = length l \<and>
    (\<forall>a \<in> set (po_failures oc). \<not> pe_allowed env a) \<and>
    po_removed_records oc + length (po_started_again oc) \<le> length (pp_remove plan) \<and>
    (\<not> dry_run \<and> po_failures oc = [] \<longrightarrow>
       po_removed_records oc + length (po_started_again oc) = length (pp_remove plan)) \<and>
    po_skipped_live oc = pp_skipped_live plan + length (po_started_again oc) \<and>
    po_skipped_recent oc = pp_skipped_recent plan"
proof (cases rule: prune_cases [OF assms(2)])
  case (2 plan)
  obtain records where rs: "load_all (pe_load env) st = (Inr records, st')"
    "length (pp_remove plan) + length (pp_skipped plan) = length records"
    by (rule prune_plan_names [OF 2(2)]) (rule that)
  show ?thesis
    by (rule exI [of _ plan], rule exI [of _ st'], rule exI [of _ records], rule exI [of _ "[]"])
      (use 2(1,3,4) rs in \<open>simp add: 2(2) planned_outcome_def\<close>)
next
  case (3 plan st1 oc')
  obtain records where rs: "load_all (pe_load env) st = (Inr records, st1)"
    "length (pp_remove plan) + length (pp_skipped plan) = length records"
    by (rule prune_plan_names [OF 3(4)]) (rule that)
  have oc: "oc' = oc" using 3(6) by simp
  obtain l where "st_unlinked st' = st_unlinked st1 @ l"
    "po_removed_files oc' = length l" "\<forall>a \<in> set (po_failures oc'). \<not> pe_allowed env a"
    "po_removed_records oc' + length (po_started_again oc') \<le> length (pp_remove plan)"
    "po_failures oc' = [] \<longrightarrow> po_removed_records oc' + length (po_started_again oc') = length (pp_remove plan)"
    "po_skipped_live oc' = pp_skipped_live plan + length (po_started_again oc')"
    "po_skipped_recent oc' = pp_skipped_recent plan"
    by (rule applied_plan [OF assms(1) 3(5)]) (rule that)
  note l = this [unfolded oc]
  show ?thesis
  proof (rule exI [of _ plan], rule exI [of _ st1], rule exI [of _ records], rule exI [of _ l], intro conjI)
    show "st_unlinked st' = st_unlinked st @ l" using l(1) by (simp only: 3(7))
    show "\<not> dry_run \<and> po_failures oc = [] \<longrightarrow>
        po_removed_records oc + length (po_started_again oc) = length (pp_remove plan)" using l(5) by blast
  qed (fact 3(4) rs(1) rs(2) [symmetric] l)+
qed simp

text \<open>The four files of a record.\<close>

definition artifacts_of :: "service \<Rightarrow> artifact list" where
  "artifacts_of r = [ManifestFile (sr_service_id r), LogFile (sr_service_id r),
     StateFile (sr_engine r) (sr_service_id r), KeyFile (sr_service_id r)]"

lemma removed_record:
  assumes "service_record_artifacts (sr_service_id r) (sr_engine r) = Inr ra"
    and "remove_service_record_artifacts host paths allowed ra st = (res, st')"
  shows "res = Inr removed \<Longrightarrow> removed = filter (file_there host paths st) (artifacts_of r)"
    and "res = Inr removed \<Longrightarrow> file_there host paths st' b \<longleftrightarrow> file_there host paths st b \<and> b \<notin> set (artifacts_of r)"
    and "res = Inl fs \<Longrightarrow> fs = filter (\<lambda>a. file_there host paths st a \<and> \<not> allowed a) (artifacts_of r) \<and> fs \<noteq> []"
    and "res = Inl fs \<Longrightarrow>
      file_there host paths st' b \<longleftrightarrow> file_there host paths st b \<and> (b \<in> set (artifacts_of r) \<longrightarrow> b \<in> set fs)"
proof -
  have ra: "artifact_paths ra = artifacts_of r" using artifacts_Inr(1) [OF assms(1)] by (simp add: artifacts_of_def)
  have d: "distinct (artifacts_of r)" by (simp add: artifacts_of_def)
  obtain rm fl where q: "remove_all host paths allowed (artifacts_of r) st = ((rm, fl), st')"
    and res: "res = (if fl \<noteq> [] then Inl fl else Inr rm)"
    using assms(2) by (auto simp: remove_service_record_artifacts_def try_remove_service_record_artifacts_def ra
      split: prod.splits)
  note rr = remove_all_result [OF d q]
  show "removed = filter (file_there host paths st) (artifacts_of r)" if "res = Inr removed"
  proof -
    have "fl = []" "removed = rm" using that res by (simp_all split: if_splits)
    then show ?thesis using rr(1,2) by (auto simp: filter_empty_conv intro!: filter_cong)
  qed
  show "file_there host paths st' b \<longleftrightarrow> file_there host paths st b \<and> b \<notin> set (artifacts_of r)" if "res = Inr removed"
  proof -
    have "fl = []" using that res by (simp split: if_splits)
    then show ?thesis using rr(2) rr(3) [of b] rr(1) by (auto simp: filter_empty_conv)
  qed
  show "fs = filter (\<lambda>a. file_there host paths st a \<and> \<not> allowed a) (artifacts_of r) \<and> fs \<noteq> []" if "res = Inl fs"
    using that res rr(2) by (simp split: if_splits)
  show "file_there host paths st' b \<longleftrightarrow> file_there host paths st b \<and> (b \<in> set (artifacts_of r) \<longrightarrow> b \<in> set fs)"
    if "res = Inl fs"
  proof -
    have "fs = fl" using that res by (simp split: if_splits)
    then show ?thesis using rr(3) [of b] rr(1,2) by auto
  qed
qed

lemma load_one_id: "load_one env paths sid st = (Inr r, st1) \<Longrightarrow> sr_service_id r = sid"
  by (auto simp: load_one_def load_managed_service_def Let_def split: prod.splits sum.splits if_splits)

lemma remove_record_facts:
  assumes "remove_managed_service_record env paths running allowed sid yes st = (res, st')"
    and "load_one env paths sid st = (loaded, st1)"
  shows "loaded = Inr r \<and> service_id_new sid = Inr sid \<and> managed_service_record_is_in_use running r \<longrightarrow>
      res = Inl (RemoveStillInUse sid (sr_status r))"
    and "(\<nexists>removed. res = Inr removed) \<and> (\<nexists>fs. res = Inl (RemoveFailed fs)) \<longrightarrow> st_unlinked st' = st_unlinked st"
    and "res = Inr removed \<longrightarrow> (\<exists>r. loaded = Inr r \<and> sr_service_id r = sid \<and> yes \<and>
      \<not> managed_service_record_is_in_use running r \<and>
      removed = filter (file_there (re_host env) paths st1) (artifacts_of r) \<and>
      (\<forall>b. file_there (re_host env) paths st' b \<longleftrightarrow>
         file_there (re_host env) paths st1 b \<and> b \<notin> set (artifacts_of r)))"
    and "res = Inl (RemoveFailed fs) \<longrightarrow> (\<exists>r. loaded = Inr r \<and> yes \<and>
      \<not> managed_service_record_is_in_use running r \<and> fs \<noteq> [] \<and>
      fs = filter (\<lambda>a. file_there (re_host env) paths st1 a \<and> \<not> allowed a) (artifacts_of r) \<and>
      (\<forall>b. file_there (re_host env) paths st' b \<longleftrightarrow>
         file_there (re_host env) paths st1 b \<and> (b \<in> set (artifacts_of r) \<longrightarrow> b \<in> set fs)))"
proof -
  note def = assms(1) [unfolded remove_managed_service_record_def assms(2)]
  have u: "st_unlinked st1 = st_unlinked st" using load_one_keeps(1) [of env paths sid st] assms(2) by simp
  have ok: "\<exists>r ra q. loaded = Inr r \<and> sr_service_id r = sid \<and> yes \<and> \<not> managed_service_record_is_in_use running r \<and>
      service_record_artifacts (sr_service_id r) (sr_engine r) = Inr ra \<and>
      remove_service_record_artifacts (re_host env) paths allowed ra st1 = (q, st') \<and>
      res = (case q of Inl fs \<Rightarrow> Inl (RemoveFailed fs) | Inr removed \<Rightarrow> Inr removed)"
    if "(\<exists>removed. res = Inr removed) \<or> (\<exists>fs. res = Inl (RemoveFailed fs))"
    using that def load_one_id [of env paths sid st] assms(2)
    by (auto split: sum.splits if_splits prod.splits)
  show "loaded = Inr r \<and> service_id_new sid = Inr sid \<and> managed_service_record_is_in_use running r \<longrightarrow>
      res = Inl (RemoveStillInUse sid (sr_status r))"
    using def by (auto split: sum.splits)
  show "(\<nexists>removed. res = Inr removed) \<and> (\<nexists>fs. res = Inl (RemoveFailed fs)) \<longrightarrow> st_unlinked st' = st_unlinked st"
    using def u by (auto split: sum.splits if_splits prod.splits)
  show "res = Inr removed \<longrightarrow> (\<exists>r. loaded = Inr r \<and> sr_service_id r = sid \<and> yes \<and>
      \<not> managed_service_record_is_in_use running r \<and>
      removed = filter (file_there (re_host env) paths st1) (artifacts_of r) \<and>
      (\<forall>b. file_there (re_host env) paths st' b \<longleftrightarrow>
         file_there (re_host env) paths st1 b \<and> b \<notin> set (artifacts_of r)))"
  proof
    assume res: "res = Inr removed"
    then obtain r ra q where r: "loaded = Inr r" "sr_service_id r = sid" "yes"
      "\<not> managed_service_record_is_in_use running r"
      and ra: "service_record_artifacts (sr_service_id r) (sr_engine r) = Inr ra"
      "remove_service_record_artifacts (re_host env) paths allowed ra st1 = (q, st')"
      and q: "res = (case q of Inl fs \<Rightarrow> Inl (RemoveFailed fs) | Inr removed \<Rightarrow> Inr removed)" using ok by blast
    have "q = Inr removed" using q res by (simp split: sum.splits)
    with removed_record(1,2) [OF ra this] r show "\<exists>r. loaded = Inr r \<and> sr_service_id r = sid \<and> yes \<and>
      \<not> managed_service_record_is_in_use running r \<and>
      removed = filter (file_there (re_host env) paths st1) (artifacts_of r) \<and>
      (\<forall>b. file_there (re_host env) paths st' b \<longleftrightarrow>
         file_there (re_host env) paths st1 b \<and> b \<notin> set (artifacts_of r))" by (intro exI [of _ r] conjI allI)
  qed
  show "res = Inl (RemoveFailed fs) \<longrightarrow> (\<exists>r. loaded = Inr r \<and> yes \<and>
      \<not> managed_service_record_is_in_use running r \<and> fs \<noteq> [] \<and>
      fs = filter (\<lambda>a. file_there (re_host env) paths st1 a \<and> \<not> allowed a) (artifacts_of r) \<and>
      (\<forall>b. file_there (re_host env) paths st' b \<longleftrightarrow>
         file_there (re_host env) paths st1 b \<and> (b \<in> set (artifacts_of r) \<longrightarrow> b \<in> set fs)))"
  proof
    assume res: "res = Inl (RemoveFailed fs)"
    then obtain r ra q where r: "loaded = Inr r" "sr_service_id r = sid" "yes"
      "\<not> managed_service_record_is_in_use running r"
      and ra: "service_record_artifacts (sr_service_id r) (sr_engine r) = Inr ra"
      "remove_service_record_artifacts (re_host env) paths allowed ra st1 = (q, st')"
      and q: "res = (case q of Inl fs \<Rightarrow> Inl (RemoveFailed fs) | Inr removed \<Rightarrow> Inr removed)" using ok by blast
    have "q = Inl fs" using q res by (simp split: sum.splits)
    note conjunct2 [OF removed_record(3) [OF ra this]] conjunct1 [OF removed_record(3) [OF ra this]]
      removed_record(4) [OF ra this]
    with r show "\<exists>r. loaded = Inr r \<and> yes \<and>
      \<not> managed_service_record_is_in_use running r \<and> fs \<noteq> [] \<and>
      fs = filter (\<lambda>a. file_there (re_host env) paths st1 a \<and> \<not> allowed a) (artifacts_of r) \<and>
      (\<forall>b. file_there (re_host env) paths st' b \<longleftrightarrow>
         file_there (re_host env) paths st1 b \<and> (b \<in> set (artifacts_of r) \<longrightarrow> b \<in> set fs))"
      by (intro exI [of _ r] conjI allI)
  qed
qed


section \<open>Instances\<close>

text \<open>A record of a service that failed, with its log and key, beside the log of a service without a
  manifest.\<close>

definition ex_gone :: service where
  "ex_gone = ex_service\<lparr>sr_status := ''failed''\<rparr>"

definition ex_files :: "registry \<Rightarrow> file_store" where
  "ex_files reg = \<lparr>st_registry = reg, st_logs = [''svc'', ''old''], st_states = [], st_keys = [''svc''],
     st_unlinked = []\<rparr>"

definition ex_prune :: prune_env where
  "ex_prune = \<lparr>pe_paths = ex_paths, pe_load = ex_readiness, pe_running = (\<lambda>p. False), pe_now = 9,
     pe_manifest_time = (\<lambda>p. Some 5), pe_file_time = (\<lambda>a. Some 5), pe_services_listed_first = True,
     pe_services_listed = True, pe_engines_listed = True, pe_states_listed = (\<lambda>e. True), pe_lock_taken = True,
     pe_allowed = (\<lambda>a. True), pe_reload = (\<lambda>i. ex_readiness), pe_running_then = (\<lambda>i p. False),
     pe_before_entry = (\<lambda>i st. st), pe_before_orphan = (\<lambda>i st. st)\<rparr>"

lemmas ex_gone_eval = ex_gone_def ex_service_def service_new_def normalize_paths_for_host_def
  normalize_runtime_path_for_host_def normalize_runtime_path_text_for_platform_def is_windows_def
  service_manifest_path_def services_dir_def path_join_def ex_paths_def main_separator_def

lemma ex_gone_fields:
  "sr_service_id ex_gone = ''svc''" "sr_engine ex_gone = ''vllm''" "sr_status ex_gone = ''failed''"
  "sr_stop_requested_unix_ms ex_gone = None" "recorded_service_pids ex_gone = [41]"
  "normalize_paths_for_host Linux ex_gone = ex_gone"
  "service_manifest_path Linux ex_paths ''svc'' = ''/d/services/svc.json''"
  by (simp_all add: ex_gone_eval recorded_service_pids_def)

lemma ex_names: "service_id_new ''svc'' = Inr ''svc''" "service_id_new ''vllm'' = Inr ''vllm''"
  by code_simp+

lemma ex_refresh_failed: "refresh_loaded ex_readiness ex_gone reg keys = (ex_gone, reg, keys)"
  by (simp add: refresh_loaded_def refresh_from_engine_state_def refresh_managed_service_runtime_liveness_def
    settle_pending_stop_key_cleanup_def is_live_def ex_gone_fields)

lemma ex_load:
  "load_one ex_readiness ex_paths ''svc'' (ex_files [(p, Stored ex_gone), (''/d/services/svc.json'', Garbled)]) =
     (if p = ''/d/services/svc.json'' then Inr ex_gone else Inl ManifestCorrupt,
      ex_files [(p, Stored ex_gone), (''/d/services/svc.json'', Garbled)])"
  "load_all ex_readiness (ex_files [(p, Stored ex_gone), (''/d/services/svc.json'', Garbled)]) =
     (Inr [ex_gone], ex_files [(p, Stored ex_gone), (''/d/services/svc.json'', Garbled)])"
  "load_one ex_readiness ex_paths ''svc'' (ex_files [(''/d/services/svc.json'', Stored ex_gone)]) =
     (Inr ex_gone, ex_files [(''/d/services/svc.json'', Stored ex_gone)])"
  "load_all ex_readiness (ex_files [(''/d/services/svc.json'', Stored ex_gone)]) =
     (Inr [ex_gone], ex_files [(''/d/services/svc.json'', Stored ex_gone)])"
proof -
  have h: "re_host ex_readiness = Linux" by (simp add: ex_readiness_def)
  show
  "load_one ex_readiness ex_paths ''svc'' (ex_files [(p, Stored ex_gone), (''/d/services/svc.json'', Garbled)]) =
     (if p = ''/d/services/svc.json'' then Inr ex_gone else Inl ManifestCorrupt,
      ex_files [(p, Stored ex_gone), (''/d/services/svc.json'', Garbled)])"
  "load_all ex_readiness (ex_files [(p, Stored ex_gone), (''/d/services/svc.json'', Garbled)]) =
     (Inr [ex_gone], ex_files [(p, Stored ex_gone), (''/d/services/svc.json'', Garbled)])"
  "load_one ex_readiness ex_paths ''svc'' (ex_files [(''/d/services/svc.json'', Stored ex_gone)]) =
     (Inr ex_gone, ex_files [(''/d/services/svc.json'', Stored ex_gone)])"
  "load_all ex_readiness (ex_files [(''/d/services/svc.json'', Stored ex_gone)]) =
     (Inr [ex_gone], ex_files [(''/d/services/svc.json'', Stored ex_gone)])"
    by (simp_all add: load_one_def load_all_def load_managed_service_def load_managed_services_refreshed_def
      read_managed_service_manifest_def h ex_names ex_gone_fields ex_refresh_failed ex_files_def)
qed

text \<open>What the run deletes, by the manifests that are there.\<close>

lemma ex_artifacts: "service_record_artifacts ''svc'' ''vllm'' =
    Inr \<lparr>ra_manifest = ManifestFile ''svc'', ra_log = LogFile ''svc'', ra_engine_state = StateFile ''vllm'' ''svc'',
      ra_endpoint_key = KeyFile ''svc''\<rparr>"
  by (simp add: service_record_artifacts_def validate_engine_component_def ex_names)

lemma ex_idle: "\<not> managed_service_record_is_in_use (\<lambda>p. False) ex_gone"
  by (simp add: managed_service_record_is_in_use_def is_live_def ex_gone_fields)

lemma ex_old_path: "service_manifest_path Linux ex_paths ''old'' = ''/d/services/old.json''"
  by (simp add: ex_gone_eval)

lemmas ex_prune_eval = ex_prune_def pe_host_def ex_artifacts ex_idle ex_gone_fields ex_load ex_readiness_def

definition ex_entry :: prune_entry where
  "ex_entry = \<lparr>pn_service_id = ''svc'', pn_engine = ''vllm'', pn_status = ''failed'',
      pn_artifacts = \<lparr>ra_manifest = ManifestFile ''svc'', ra_log = LogFile ''svc'',
        ra_engine_state = StateFile ''vllm'' ''svc'', ra_endpoint_key = KeyFile ''svc''\<rparr>\<rparr>"

definition ex_plan :: prune_plan where
  "ex_plan = empty_plan\<lparr>pp_remove := [ex_entry], pp_orphans := [LogFile ''old'']\<rparr>"

lemma ex_orphans:
  "''/d/services/svc.json'' \<in> fst ` set reg \<Longrightarrow> ''/d/services/old.json'' \<notin> fst ` set reg \<Longrightarrow>
     collect_service_orphans ex_prune 0 (ex_files reg) = [LogFile ''old'']"
  by (simp add: collect_service_orphans_def orphan_candidates_def ex_files_def ex_prune_def pe_host_def
    ex_readiness_def manifest_present_def ex_gone_fields ex_old_path prunable_by_age_def prunable_by_modified_def)

lemma ex_build:
  assumes "load_all ex_readiness (ex_files reg) = (Inr [ex_gone], ex_files reg)"
    "''/d/services/svc.json'' \<in> fst ` set reg" "''/d/services/old.json'' \<notin> fst ` set reg"
  shows "build_service_prune_plan ex_prune 0 0 (ex_files reg) = (Inr ex_plan, ex_files reg)"
proof -
  have p: "pe_load ex_prune = ex_readiness" "pe_running ex_prune = (\<lambda>p. False)" by (simp_all add: ex_prune_def)
  show ?thesis
    by (simp add: build_service_prune_plan_def p assms(1) ex_orphans [OF assms(2,3)] plan_record_def ex_idle
      ex_gone_fields ex_artifacts prunable_by_modified_def ex_plan_def ex_entry_def empty_plan_def)
qed

lemma ex_quiet: "windows_quiet ex_prune"
  by (simp add: windows_quiet_def ex_prune_def)

text \<open>The entry and the orphan of that plan, one file after another.\<close>

lemma ex_applied:
  assumes "\<not> reloaded_in_use ex_prune 0 ex_entry (ex_files reg)"
    and "snd (load_one ex_readiness ex_paths ''svc'' (ex_files reg)) = ex_files reg"
    and "''/d/services/svc.json'' \<in> fst ` set reg"
  shows "\<exists>oc st'. apply_service_prune_plan ex_prune ex_plan (planned_outcome ex_plan, ex_files reg) = (oc, st') \<and>
    st_unlinked st' = [(ManifestFile ''svc'', reg), (LogFile ''svc'', filter (\<lambda>e. fst e \<noteq> ''/d/services/svc.json'') reg),
      (KeyFile ''svc'', filter (\<lambda>e. fst e \<noteq> ''/d/services/svc.json'') reg),
      (LogFile ''old'', filter (\<lambda>e. fst e \<noteq> ''/d/services/svc.json'') reg)]"
proof -
  have env: "pe_reload ex_prune 0 = ex_readiness" "pe_paths ex_prune = ex_paths" "pe_before_entry ex_prune 0 = (\<lambda>st. st)"
    "pe_before_orphan ex_prune 0 = (\<lambda>st. st)" "pe_allowed ex_prune = (\<lambda>a. True)" "pe_host ex_prune = Linux"
    by (simp_all add: ex_prune_def pe_host_def ex_readiness_def)
  obtain res where l: "load_one ex_readiness ex_paths ''svc'' (ex_files reg) = (res, ex_files reg)"
    using assms(2) by (metis prod.collapse)
  have e: "pp_remove ex_plan = [ex_entry]" "pn_service_id ex_entry = ''svc''" "pp_orphans ex_plan = [LogFile ''old'']"
    "artifact_paths (pn_artifacts ex_entry) = [ManifestFile ''svc'', LogFile ''svc'', StateFile ''vllm'' ''svc'', KeyFile ''svc'']"
    by (simp_all add: ex_plan_def ex_entry_def artifact_paths_def)
  have u: "\<not> (case res of Inr r \<Rightarrow> managed_service_record_is_in_use (pe_running_then ex_prune 0) r | Inl _ \<Rightarrow> False)"
    using assms(1) by (simp add: reloaded_in_use_def env e(2) l)
  have m: "manifest_present Linux ex_paths reg ''svc''" using assms(3) by (simp add: manifest_present_def ex_gone_fields)
  have f: "st_registry (ex_files reg) = reg" "st_logs (ex_files reg) = [''svc'', ''old'']" "st_states (ex_files reg) = []"
    "st_keys (ex_files reg) = [''svc'']" "st_unlinked (ex_files reg) = []" by (simp_all add: ex_files_def)
  show ?thesis
    unfolding apply_service_prune_plan_def e(1,3)
    by (simp add: prune_entry_step_def prune_orphan_step_def env e l u try_remove_service_record_artifacts_def remove_file_def
      m f ex_gone_fields)
qed

text \<open>Witnesses: a record that failed goes with its files, and so does the log of no service.\<close>

lemma ex_prune_run:
  assumes "load_all ex_readiness (ex_files reg) = (Inr [ex_gone], ex_files reg)"
    "''/d/services/svc.json'' \<in> fst ` set reg" "''/d/services/old.json'' \<notin> fst ` set reg"
    "\<not> reloaded_in_use ex_prune 0 ex_entry (ex_files reg)"
    "snd (load_one ex_readiness ex_paths ''svc'' (ex_files reg)) = ex_files reg"
  shows "\<exists>oc st'. prune_managed_service_records ex_prune 0 False True (ex_files reg) = (Inr oc, st') \<and>
    map fst (st_unlinked st') = [ManifestFile ''svc'', LogFile ''svc'', KeyFile ''svc'', LogFile ''old''] \<and>
    hd (st_unlinked st') = (ManifestFile ''svc'', reg)"
proof -
  have z: "prune_min_age 0 = 0" by (simp add: prune_min_age_def saturating_mul_def)
  obtain oc st' where a: "apply_service_prune_plan ex_prune ex_plan (planned_outcome ex_plan, ex_files reg) = (oc, st')"
    and l: "map fst (st_unlinked st') = [ManifestFile ''svc'', LogFile ''svc'', KeyFile ''svc'', LogFile ''old'']"
      "hd (st_unlinked st') = (ManifestFile ''svc'', reg)"
    using ex_applied [OF assms(4,5,2)] by auto
  have "pe_lock_taken ex_prune" by (simp add: ex_prune_def)
  then have "prune_managed_service_records ex_prune 0 False True (ex_files reg) = (Inr oc, st')"
    by (simp add: prune_managed_service_records_def z ex_build [OF assms(1-3)] a)
  with l show ?thesis by (intro exI conjI)
qed

lemma ex_stored_run:
  "\<exists>oc st'. prune_managed_service_records ex_prune 0 False True
       (ex_files [(''/d/services/svc.json'', Stored ex_gone)]) = (Inr oc, st') \<and>
     map fst (st_unlinked st') = [ManifestFile ''svc'', LogFile ''svc'', KeyFile ''svc'', LogFile ''old'']"
proof -
  let ?reg = "[(''/d/services/svc.json'', Stored ex_gone)]"
  have "\<not> reloaded_in_use ex_prune 0 ex_entry (ex_files ?reg)"
    by (simp add: reloaded_in_use_def ex_prune_def ex_entry_def ex_load ex_idle)
  from ex_prune_run [OF ex_load(4) _ _ this] show ?thesis by (auto simp: ex_load)
qed


text \<open>A witness: four files, one record.\<close>

theorem prune_report_exact_witness:
  "\<exists>oc st'. prune_managed_service_records ex_prune 0 False True
       (ex_files [(''/d/services/svc.json'', Stored ex_gone)]) = (Inr oc, st') \<and>
     po_removed_files oc = 4 \<and> po_skipped_live oc = length (po_started_again oc)"
proof -
  let ?st = "ex_files [(''/d/services/svc.json'', Stored ex_gone)]"
  obtain oc st' where run: "prune_managed_service_records ex_prune 0 False True ?st = (Inr oc, st')"
    and u: "map fst (st_unlinked st') = [ManifestFile ''svc'', LogFile ''svc'', KeyFile ''svc'', LogFile ''old'']"
    using ex_stored_run by (elim exE conjE) (rule that)
  have z: "prune_min_age 0 = 0" by (simp add: prune_min_age_def saturating_mul_def)
  have n: "length (st_unlinked st') = 4" using arg_cong [OF u, of length] by simp
  have e: "st_unlinked ?st = []" by (simp add: ex_files_def)
  have b: "build_service_prune_plan ex_prune 0 0 ?st = (Inr ex_plan, ?st)" by (rule ex_build) (simp_all add: ex_load)
  have "po_removed_files oc = 4 \<and> po_skipped_live oc = length (po_started_again oc)"
    using prune_report_exact [OF ex_quiet run] n by (auto simp: e z b ex_plan_def empty_plan_def)
  with run show ?thesis by blast
qed


section \<open>A corrupt manifest can go\<close>

text \<open>The sweep keeps a manifest that cannot be parsed, with its log and key. Where another file of the
  directory holds a record of the same id, say a copy made before, the plan names the files by that
  id, reading the record again fails on the corrupt manifest, which counts as not in use, and the
  corrupt manifest is deleted with its log and key.\<close>

theorem corrupt_manifest_pruned:
  "\<exists>oc st' reg. prune_managed_service_records ex_prune 0 False True
       (ex_files [(''/d/services/bak.json'', Stored ex_gone), (''/d/services/svc.json'', Garbled)]) = (Inr oc, st') \<and>
     map fst (st_unlinked st') = [ManifestFile ''svc'', LogFile ''svc'', KeyFile ''svc'', LogFile ''old''] \<and>
     hd (st_unlinked st') = (ManifestFile ''svc'', reg) \<and>
     map_of reg (service_manifest_path Linux ex_paths ''svc'') = Some Garbled"
proof -
  let ?reg = "[(''/d/services/bak.json'', Stored ex_gone), (''/d/services/svc.json'', Garbled)]"
  have "\<not> reloaded_in_use ex_prune 0 ex_entry (ex_files ?reg)"
    by (simp add: reloaded_in_use_def ex_prune_def ex_entry_def ex_load)
  from ex_prune_run [OF ex_load(2) _ _ this] obtain oc st' where
    "prune_managed_service_records ex_prune 0 False True (ex_files ?reg) = (Inr oc, st')"
    "map fst (st_unlinked st') = [ManifestFile ''svc'', LogFile ''svc'', KeyFile ''svc'', LogFile ''old'']"
    "hd (st_unlinked st') = (ManifestFile ''svc'', ?reg)" by (auto simp: ex_load)
  then show ?thesis by (intro exI [of _ oc] exI [of _ st'] exI [of _ ?reg] conjI) (simp_all add: ex_gone_fields)
qed

end
