(* ===== verification/Protected_Path.thy ===== *)
theory Protected_Path
  imports Service_Record
begin

text \<open>
  Which folders an install may not use as its root and a removal may not delete: the comparison of
  paths and the guard on system folders in \<^verbatim>\<open>crates/rocm-core/src/runtime.rs\<close>, beside the
  normalisation of \<open>Runtime_Path\<close>. The comparison is on the text of a path, as the code's is: the disk
  is not consulted. The home folder, read from the environment, is an argument. The specification is
  the place a path of components leads to from the root.
\<close>

section \<open>One text per folder\<close>

text \<open>The share of a Windows path \<^verbatim>\<open>//server/share/...\<close> ends before its second slash.\<close>

definition split_share :: "string \<Rightarrow> string \<times> string" where
  "split_share rest =
     (let server = takeWhile (\<lambda>c. c \<noteq> CHR ''/'') rest;
          behind = drop (length server) rest
      in case behind of
           [] \<Rightarrow> (rest, [])
         | c # further \<Rightarrow>
             (let share = takeWhile (\<lambda>c. c \<noteq> CHR ''/'') further
              in (server @ c # share, drop (length share) further)))"

definition split_runtime_path_anchor :: "string \<Rightarrow> runtime_platform \<Rightarrow> string \<times> string" where
  "split_runtime_path_anchor value platform =
     (let common = (if prefix ''/'' value then (take 1 value, drop 1 value) else ([], value)) in
      if is_windows platform then
        (case strip_prefix ''//'' value of
           Some rest \<Rightarrow> (let (tail, behind) = split_share rest in (''//'' @ tail, behind))
         | None \<Rightarrow>
             (case value of
                a # b # s \<Rightarrow>
                  if is_ascii_alphabetic a \<and> b = CHR '':''
                  then (if prefix ''/'' s then (take 3 value, drop 3 value) else (take 2 value, drop 2 value))
                  else common
              | _ \<Rightarrow> common))
      else common)"

text \<open>\<^verbatim>\<open>split('/')\<close>.\<close>

fun split_slash :: "string \<Rightarrow> string list" where
  "split_slash [] = [[]]"
| "split_slash (c # s) =
     (if c = CHR ''/'' then [] # split_slash s
      else (case split_slash s of w # ws \<Rightarrow> (c # w) # ws | [] \<Rightarrow> [[c]]))"

definition resolve_part :: "bool \<Rightarrow> string list \<Rightarrow> string \<Rightarrow> string list" where
  "resolve_part anchored parts part =
     (if part = [] \<or> part = ''.'' then parts
      else if part = ''..''
      then (if parts = [] then (if anchored then [] else [''..''])
            else if last parts = ''..'' then parts @ [''..'']
            else butlast parts)
      else parts @ [part])"

fun join_slash :: "string list \<Rightarrow> string" where
  "join_slash [] = []"
| "join_slash [p] = p"
| "join_slash (p # q # ps) = p @ CHR ''/'' # join_slash (q # ps)"

definition trim_end_slashes :: "string \<Rightarrow> string" where
  "trim_end_slashes s = rev (dropWhile (\<lambda>c. c = CHR ''/'') (rev s))"

definition lexically_resolved_runtime_path_text :: "string \<Rightarrow> runtime_platform \<Rightarrow> string" where
  "lexically_resolved_runtime_path_text value platform =
     (let (anchor, rest) = split_runtime_path_anchor value platform;
          anchored = (anchor \<noteq> []);
          joined = join_slash (foldl (resolve_part anchored) [] (split_slash rest))
      in if anchored then trim_end_slashes anchor @ ''/'' @ joined
         else if joined = [] then ''.'' else joined)"

definition comparable_runtime_path_text :: "runtime_platform \<Rightarrow> string \<Rightarrow> string" where
  "comparable_runtime_path_text host path =
     (let norm = normalize_runtime_path_text_for_platform host path host
      in lexically_resolved_runtime_path_text
           (if is_windows host then replace_char backslash (CHR ''/'') norm else norm) host)"

text \<open>\<^verbatim>\<open>eq_ignore_ascii_case\<close> on Windows.\<close>

definition same_text :: "runtime_platform \<Rightarrow> string \<Rightarrow> string \<Rightarrow> bool" where
  "same_text host a b \<longleftrightarrow>
     (if is_windows host then to_ascii_lowercase a = to_ascii_lowercase b else a = b)"

definition runtime_paths_equivalent :: "runtime_platform \<Rightarrow> string \<Rightarrow> string \<Rightarrow> bool" where
  "runtime_paths_equivalent host a b \<longleftrightarrow>
     same_text host (comparable_runtime_path_text host a) (comparable_runtime_path_text host b)"

definition runtime_path_is_same_or_inside :: "runtime_platform \<Rightarrow> string \<Rightarrow> string \<Rightarrow> bool" where
  "runtime_path_is_same_or_inside host path base \<longleftrightarrow>
     (let p = comparable_runtime_path_text host path;
          b = comparable_runtime_path_text host base;
          inside_prefix = trim_end_slashes b @ ''/''
      in if length p \<le> length inside_prefix then runtime_paths_equivalent host p b
         else same_text host (take (length inside_prefix) p) inside_prefix)"

definition windows_system_roots :: "string list" where
  "windows_system_roots = [''C:/Windows'', ''C:/Program Files'', ''C:/Program Files (x86)'']"

definition system_roots :: "string list" where
  "system_roots = [''/bin'', ''/boot'', ''/dev'', ''/etc'', ''/lib'', ''/lib64'', ''/opt'', ''/proc'', ''/root'',
     ''/sbin'', ''/sys'', ''/usr'', ''/var'']"

definition runtime_install_root_is_protected :: "runtime_platform \<Rightarrow> string option \<Rightarrow> string \<Rightarrow> bool" where
  "runtime_install_root_is_protected host home_dir path0 \<longleftrightarrow>
     (let path = normalize_runtime_path_for_host host path0 in
      if (case home_dir of
            None \<Rightarrow> False
          | Some h0 \<Rightarrow>
              (let h = normalize_runtime_path_for_host host h0
               in runtime_path_is_same_or_inside host path h \<and> \<not> runtime_paths_equivalent host path h))
      then False
      else if is_windows host then list_ex (runtime_path_is_same_or_inside host path) windows_system_roots
      else if runtime_paths_equivalent host path ''/'' then True
      else list_ex (runtime_path_is_same_or_inside host path) system_roots)"

section \<open>The place a path names\<close>

text \<open>The specification: the names met on the way down from the root, where \<^verbatim>\<open>..\<close> goes back up and stays
  at the root.\<close>

fun walk_down :: "string list \<Rightarrow> string list \<Rightarrow> string list" where
  "walk_down at [] = at"
| "walk_down at (name # names) =
     walk_down (if name = [] \<or> name = ''.'' then at else if name = ''..'' then butlast at else at @ [name]) names"

definition place :: "string \<Rightarrow> string list" where
  "place path = walk_down [] (split_slash path)"

definition is_name :: "string \<Rightarrow> bool" where
  "is_name w \<longleftrightarrow> w \<noteq> [] \<and> w \<noteq> ''.'' \<and> w \<noteq> ''..'' \<and> CHR ''/'' \<notin> set w"

text \<open>The text of a place.\<close>

definition place_text :: "string list \<Rightarrow> string" where
  "place_text ps = (if ps = [] then ''/'' else concat (map (\<lambda>p. CHR ''/'' # p) ps))"

lemma split_slash_nonempty: "split_slash s \<noteq> []"
  by (induction s) (auto split: list.split)

lemma split_slash_free: "w \<in> set (split_slash s) \<Longrightarrow> CHR ''/'' \<notin> set w"
  by (induction s arbitrary: w) (auto split: if_splits list.splits)

lemma split_slash_append: "split_slash (a @ CHR ''/'' # b) = split_slash a @ split_slash b"
proof (induction a)
  case (Cons c a)
  then show ?case using split_slash_nonempty [of a] by (auto split: list.split)
qed auto

lemma split_slash_single: "CHR ''/'' \<notin> set w \<Longrightarrow> split_slash w = [w]"
  by (induction w) auto

lemma walk_down_names:
  assumes "\<forall>w \<in> set at. is_name w" "\<forall>w \<in> set names. CHR ''/'' \<notin> set w"
  shows "foldl (resolve_part True) at names = walk_down at names"
    and "\<forall>w \<in> set (walk_down at names). is_name w"
proof -
  have "foldl (resolve_part True) at names = walk_down at names \<and> (\<forall>w \<in> set (walk_down at names). is_name w)"
    using assms
  proof (induction names arbitrary: at)
    case (Cons n ns)
    have dd: "last at \<noteq> ''..''" if "at \<noteq> []" using that Cons.prems(1) last_in_set [OF that] by (auto simp: is_name_def)
    have step: "resolve_part True at n =
        (if n = [] \<or> n = ''.'' then at else if n = ''..'' then butlast at else at @ [n])"
      using dd by (auto simp: resolve_part_def)
    have ok: "\<forall>w \<in> set (resolve_part True at n). is_name w"
      using Cons.prems by (auto simp: step is_name_def dest: in_set_butlastD)
    from Cons.IH [OF ok] Cons.prems(2) show ?case by (simp add: step)
  qed simp
  then show "foldl (resolve_part True) at names = walk_down at names"
    "\<forall>w \<in> set (walk_down at names). is_name w" by blast+
qed

lemma place_names: "w \<in> set (place p) \<Longrightarrow> is_name w"
  using walk_down_names(2) [of "[]" "split_slash p"] split_slash_free by (auto simp: place_def)

lemma join_slash_text: "CHR ''/'' # join_slash ps = place_text ps"
proof -
  have "ps \<noteq> [] \<Longrightarrow> CHR ''/'' # join_slash ps = concat (map (\<lambda>p. CHR ''/'' # p) ps)"
    by (induction ps rule: join_slash.induct) simp_all
  then show ?thesis by (cases "ps = []") (simp_all add: place_text_def)
qed

lemma resolved_absolute:
  assumes "\<not> is_windows platform" "prefix ''/'' p"
  shows "lexically_resolved_runtime_path_text p platform = place_text (place p)"
proof -
  obtain s where p: "p = CHR ''/'' # s" using assms(2) by (cases p) auto
  have "place p = walk_down [] (split_slash s)" by (simp add: place_def p)
  also have "\<dots> = foldl (resolve_part True) [] (split_slash s)"
    using walk_down_names(1) [of "[]" "split_slash s"] split_slash_free by auto
  finally have "place p = foldl (resolve_part True) [] (split_slash s)" .
  then show ?thesis
    using assms(1) join_slash_text [of "place p"]
    by (simp add: lexically_resolved_runtime_path_text_def split_runtime_path_anchor_def p trim_end_slashes_def)
qed

lemma comparable_absolute:
  "\<not> is_windows host \<Longrightarrow> prefix ''/'' p \<Longrightarrow> comparable_runtime_path_text host p = place_text (place p)"
  by (simp add: comparable_runtime_path_text_def normalize_runtime_path_text_for_platform_def resolved_absolute)

text \<open>The text determines the place, and is its own text.\<close>

lemma walk_down_text:
  assumes "\<forall>w \<in> set ps. is_name w"
  shows "walk_down at (split_slash (concat (map (\<lambda>p. CHR ''/'' # p) ps))) = at @ ps"
  using assms
proof (induction ps arbitrary: at)
  case (Cons p ps)
  have p: "CHR ''/'' \<notin> set p" "p \<noteq> []" "p \<noteq> ''.''" "p \<noteq> ''..''" using Cons.prems by (simp_all add: is_name_def)
  have s: "split_slash (p @ concat (map (\<lambda>p. CHR ''/'' # p) ps)) =
      (if ps = [] then [p] else p # tl (split_slash (concat (map (\<lambda>p. CHR ''/'' # p) ps))))"
    using p(1) split_slash_append [of p] by (cases ps) (simp_all add: split_slash_single)
  show ?case
  proof (cases ps)
    case Nil
    then show ?thesis using s p by simp
  next
    case (Cons q qs)
    then have "split_slash (concat (map (\<lambda>p. CHR ''/'' # p) ps)) = [] # tl (split_slash (concat (map (\<lambda>p. CHR ''/'' # p) ps)))"
      by simp
    then show ?thesis using Cons.IH [of "at @ [p]"] Cons.prems s p Cons by simp
  qed
qed simp

lemma place_of_text [simp]: "\<forall>w \<in> set ps. is_name w \<Longrightarrow> place (place_text ps) = ps"
  using walk_down_text [of ps "[]"] by (simp add: place_def place_text_def)

lemma place_text_absolute [simp]: "prefix ''/'' (place_text ps)"
  by (cases ps) (simp_all add: place_text_def)

section \<open>Same and inside\<close>

abbreviation (input) below :: "string list \<Rightarrow> string" where
  "below ps \<equiv> concat (map (\<lambda>p. CHR ''/'' # p) ps)"

lemma below_last:
  assumes "\<forall>w \<in> set ps. is_name w" "ps \<noteq> []"
  shows "below ps \<noteq> []" "last (below ps) \<noteq> CHR ''/''"
proof -
  obtain qs q where q: "ps = qs @ [q]" using assms(2) by (cases ps rule: rev_cases) auto
  have "q \<noteq> []" "CHR ''/'' \<notin> set q" using assms(1) q by (simp_all add: is_name_def)
  then have "last q \<noteq> CHR ''/''" using last_in_set by metis
  with \<open>q \<noteq> []\<close> show "below ps \<noteq> []" "last (below ps) \<noteq> CHR ''/''" by (simp_all add: q)
qed

lemma trim_place_text:
  assumes "\<forall>w \<in> set ps. is_name w"
  shows "trim_end_slashes (place_text ps) = below ps"
proof (cases "ps = []")
  case False
  obtain x c where x: "below ps = x @ [c]" "c \<noteq> CHR ''/''"
    using below_last [OF assms False] by (metis append_butlast_last_id)
  show ?thesis using False x by (simp add: place_text_def trim_end_slashes_def)
qed (simp add: place_text_def trim_end_slashes_def)

lemma below_prefix:
  assumes "\<forall>w \<in> set ps. is_name w" "\<forall>w \<in> set qs. is_name w"
  shows "prefix (below ps @ ''/'') (below qs) \<longleftrightarrow> strict_prefix ps qs"
  using assms
proof (induction ps arbitrary: qs)
  case Nil
  then show ?case by (cases qs) simp_all
next
  case (Cons p ps)
  show ?case
  proof (cases qs)
    case (Cons q qs')
    have p: "CHR ''/'' \<notin> set p" "CHR ''/'' \<notin> set q" using Cons.prems Cons by (simp_all add: is_name_def)
    obtain r where h: "below ps @ ''/'' = CHR ''/'' # r" by (cases ps) simp_all
    have eq: "p = q \<and> prefix (below ps @ ''/'') (below qs')" if pre: "prefix (p @ below ps @ ''/'') (q @ below qs')"
    proof -
      obtain z where z: "q @ below qs' = p @ (CHR ''/'' # r) @ z"
        using pre [unfolded h] by (elim prefixE) simp
      have "takeWhile (\<lambda>c. c \<noteq> CHR ''/'') (q @ below qs') = q" using p(2) by (cases qs') (auto simp: takeWhile_append)
      moreover have "takeWhile (\<lambda>c. c \<noteq> CHR ''/'') (p @ (CHR ''/'' # r) @ z) = p"
          using p(1) by (auto simp: takeWhile_append)
      ultimately have "p = q" using z by simp
      then show ?thesis using pre by simp
    qed
    have "prefix (below (p # ps) @ ''/'') (below qs) \<longleftrightarrow> p = q \<and> prefix (below ps @ ''/'') (below qs')"
      using eq by (auto simp: Cons)
    also have "\<dots> \<longleftrightarrow> strict_prefix (p # ps) qs" using Cons.IH [of qs'] Cons.prems Cons by simp
    finally show ?thesis .
  qed simp
qed

lemma place_text_inj:
  "\<forall>w \<in> set ps. is_name w \<Longrightarrow> \<forall>w \<in> set qs. is_name w \<Longrightarrow> place_text ps = place_text qs \<longleftrightarrow> ps = qs"
  by (metis place_of_text)

lemma equivalent_absolute:
  assumes "\<not> is_windows host" "prefix ''/'' a" "prefix ''/'' b"
  shows "runtime_paths_equivalent host a b \<longleftrightarrow> place a = place b"
  using assms place_text_inj [of "place a" "place b"] place_names
  by (simp add: runtime_paths_equivalent_def same_text_def comparable_absolute)

lemma take_prefix: "take (length a) b = a \<longleftrightarrow> prefix a b"
  by (metis append_eq_conv_conj prefix_def)

lemma prefix_by_length:
  fixes P I :: string
  assumes "prefix I P \<longleftrightarrow> strict_prefix ps qs" "P \<noteq> I" "ps = qs \<longrightarrow> length P \<le> length I"
  shows "(if length P \<le> length I then qs = ps else take (length I) P = I) \<longleftrightarrow> prefix ps qs"
proof (cases "length P \<le> length I")
  case True
  then have "\<not> prefix I P" using assms(2) by (metis le_antisym prefix_length_le take_all take_prefix)
  then show ?thesis using True assms(1) by (simp add: strict_prefix_def) blast
next
  case False
  then show ?thesis using assms(1,3) unfolding take_prefix by (auto simp: strict_prefix_def)
qed

lemma inside_absolute:
  assumes w: "\<not> is_windows host" and p: "prefix ''/'' p" and b: "prefix ''/'' b"
  shows "runtime_path_is_same_or_inside host p b \<longleftrightarrow> prefix (place b) (place p)"
proof -
  have np: "\<forall>w \<in> set (place p). is_name w" "\<forall>w \<in> set (place b). is_name w" using place_names by blast+
  have eq: "runtime_paths_equivalent host (place_text (place p)) (place_text (place b)) \<longleftrightarrow> place p = place b"
    using w np equivalent_absolute [OF w place_text_absolute place_text_absolute] by (simp only: place_of_text)
  have run: "runtime_path_is_same_or_inside host p b \<longleftrightarrow>
      (if length (place_text (place p)) \<le> length (below (place b) @ ''/'') then place p = place b
       else take (length (below (place b) @ ''/'')) (place_text (place p)) = below (place b) @ ''/'')"
    unfolding runtime_path_is_same_or_inside_def comparable_absolute [OF w p] comparable_absolute [OF w b] Let_def
      trim_place_text [OF np(2)] eq same_text_def using w by (simp only: if_False)
  show ?thesis
  proof (cases "place p = []")
    case True
    have "length (place_text (place p)) \<le> length (below (place b) @ ''/'')" using True by (simp add: place_text_def)
    then show ?thesis unfolding run True by (simp only: if_True prefix_Nil) auto
  next
    case False
    have here: "place_text (place p) = below (place p)" using False by (simp only: place_text_def if_False)
    show ?thesis unfolding run here
    proof (rule prefix_by_length)
      show "prefix (below (place b) @ ''/'') (below (place p)) \<longleftrightarrow> strict_prefix (place b) (place p)"
        by (rule below_prefix [OF np(2,1)])
      show "below (place p) \<noteq> below (place b) @ ''/''" using below_last [OF np(1) False] by (metis last_snoc)
      show "place b = place p \<longrightarrow> length (below (place p)) \<le> length (below (place b) @ ''/'')" by simp
    qed
  qed
qed

section \<open>Properties\<close>



definition system_folders :: "string list" where
  "system_folders = [''bin'', ''boot'', ''dev'', ''etc'', ''lib'', ''lib64'', ''opt'', ''proc'', ''root'', ''sbin'',
     ''sys'', ''usr'', ''var'']"

lemma system_roots_places:
  "\<forall>r \<in> set system_roots. prefix ''/'' r" "map place system_roots = map (\<lambda>f. [f]) system_folders"
  by (simp_all add: system_roots_def system_folders_def place_def)

lemma normalize_off_windows [simp]: "\<not> is_windows host \<Longrightarrow> normalize_runtime_path_for_host host p = p"
  by (simp add: normalize_runtime_path_for_host_def normalize_runtime_path_text_for_platform_def)

lemma in_system_root:
  assumes "\<not> is_windows host" "prefix ''/'' path"
  shows "list_ex (runtime_path_is_same_or_inside host path) system_roots \<longleftrightarrow>
    place path \<noteq> [] \<and> hd (place path) \<in> set system_folders"
proof -
  have "list_ex (runtime_path_is_same_or_inside host path) system_roots \<longleftrightarrow>
      (\<exists>r \<in> set system_roots. prefix (place r) (place path))"
    using inside_absolute [OF assms] system_roots_places(1) by (auto simp: list_ex_iff)
  also have "\<dots> \<longleftrightarrow> (\<exists>q \<in> set (map place system_roots). prefix q (place path))" by simp
  also have "\<dots> \<longleftrightarrow> (\<exists>f \<in> set system_folders. prefix [f] (place path))" by (simp add: system_roots_places(2))
  also have "\<dots> \<longleftrightarrow> place path \<noteq> [] \<and> hd (place path) \<in> set system_folders" by (cases "place path") auto
  finally show ?thesis .
qed

text \<open>The guard on system folders, off Windows and for absolute paths: a folder is protected exactly
  if its place is not strictly below the place of the home folder and it is the root itself or a
  system folder or anything below one, however it is spelled.\<close>

theorem protected_roots:
  assumes "\<not> is_windows host" "prefix ''/'' path" "\<forall>h. home = Some h \<longrightarrow> prefix ''/'' h"
  shows "runtime_install_root_is_protected host home path \<longleftrightarrow>
    (\<forall>h. home = Some h \<longrightarrow> \<not> strict_prefix (place h) (place path)) \<and>
    (place path = [] \<or> hd (place path) \<in> set system_folders)"
proof -
  have root: "runtime_paths_equivalent host path ''/'' \<longleftrightarrow> place path = []"
    using equivalent_absolute [OF assms(1,2), of "''/''"] by (simp add: place_def)
  have home: "(case home of None \<Rightarrow> False
      | Some h0 \<Rightarrow> (let h = normalize_runtime_path_for_host host h0
          in runtime_path_is_same_or_inside host path h \<and> \<not> runtime_paths_equivalent host path h)) \<longleftrightarrow>
      (\<exists>h. home = Some h \<and> strict_prefix (place h) (place path))"
    using assms inside_absolute [OF assms(1,2)] equivalent_absolute [OF assms(1,2)]
    by (cases home) (auto simp: strict_prefix_def)
  show ?thesis
    unfolding runtime_install_root_is_protected_def Let_def normalize_off_windows [OF assms(1)]
      home [unfolded Let_def normalize_off_windows [OF assms(1)]] in_system_root [OF assms(1,2)] root
    using assms(1) by auto
qed

theorem protected_roots_witness:
  "runtime_install_root_is_protected Linux (Some ''/root'') ''/root/../usr/local/rocm'' \<and>
   \<not> runtime_install_root_is_protected Linux (Some ''/root'') ''/root/rocm''"
proof -
  have "place ''/root/../usr/local/rocm'' = [''usr'', ''local'', ''rocm'']" "place ''/root/rocm'' = [''root'', ''rocm'']"
    "place ''/root'' = [''root'']" by (simp_all add: place_def)
  then show ?thesis
    using protected_roots [of Linux "''/root/../usr/local/rocm''" "Some ''/root''"]
      protected_roots [of Linux "''/root/rocm''" "Some ''/root''"]
    by (simp add: is_windows_def system_folders_def)
qed

section \<open>Where the guard is open\<close>

text \<open>With the root as the home folder, which is what a process without a home of its own often has,
  everything is below it: no system folder is protected. A relative path is compared as it stands,
  without the folder it starts from, so one that climbs to a system folder is not protected either.\<close>

theorem root_home_unprotects:
  "\<not> runtime_install_root_is_protected Linux (Some ''/'') ''/etc'' \<and>
   \<not> runtime_install_root_is_protected Linux (Some ''/home/u'') ''../../etc''"
proof
  show "\<not> runtime_install_root_is_protected Linux (Some ''/'') ''/etc''"
    by (simp add: runtime_install_root_is_protected_def inside_absolute equivalent_absolute is_windows_def place_def)
  show "\<not> runtime_install_root_is_protected Linux (Some ''/home/u'') ''../../etc''" by code_simp
qed

end
