(* ===== verification/Tool_Policy.thy ===== *)
theory Tool_Policy
  imports Automation Launch Quoting Version Protected_Path
begin

text \<open>
  The policy on the tool calls of the chat assistant: \<^verbatim>\<open>apps/rocm/src/tool_policy.rs\<close> with the argv
  helpers of \<^verbatim>\<open>apps/rocm/src/rocm_argv.rs\<close>. A model names a tool and gives arguments in JSON; the policy
  refuses malformed or unsafe requests, sorts the rest into those that run at once and those that
  need the operator, and writes the command line the operator is shown. The platform and the home
  folder are arguments. The wording of refusals is not modelled, only what they are and name.
\<close>

section \<open>Characters of a string\<close>

text \<open>Strings are UTF-8; the screening and the quoting of a value are on its characters.\<close>

definition next_char :: "string \<Rightarrow> scalar \<times> string" where
  "next_char s =
     (case s of
        [] \<Rightarrow> (0, [])
      | a # s1 \<Rightarrow>
          (let n = of_char a :: nat;
               low = (\<lambda>c. (of_char c :: nat) mod 64)
           in if n < 192 then (n, s1)
              else case s1 of
                [] \<Rightarrow> (n, [])
              | b # s2 \<Rightarrow>
                  if n < 224 then ((n - 192) * 64 + low b, s2)
                  else case s2 of
                    [] \<Rightarrow> (n, [])
                  | c # s3 \<Rightarrow>
                      if n < 240 then ((n - 224) * 4096 + low b * 64 + low c, s3)
                      else case s3 of
                        [] \<Rightarrow> (n, [])
                      | d # s4 \<Rightarrow> ((n - 240) * 262144 + low b * 4096 + low c * 64 + low d, s4)))"

lemma next_char_shorter: "s \<noteq> [] \<Longrightarrow> length (snd (next_char s)) < length s"
  by (auto simp: next_char_def Let_def split: list.splits)

function chars_of :: "string \<Rightarrow> scalar list" where
  "chars_of [] = []"
| "chars_of (a # s) = fst (next_char (a # s)) # chars_of (snd (next_char (a # s)))"
  by pat_completeness auto
termination
proof (relation "measure length")
  show "(snd (next_char (a # s)), a # s) \<in> measure length" for a s
    using next_char_shorter [of "a # s"] by simp
qed simp

declare chars_of.simps(2) [simp del]

lemma chars_of_ascii: "\<forall>c \<in> set s. (of_char c :: nat) < 128 \<Longrightarrow> chars_of s = map of_char s"
  by (induction s) (simp_all add: chars_of.simps(2) next_char_def)

definition shows_control :: "string \<Rightarrow> bool" where
  "shows_control s \<longleftrightarrow> has_terminal_control_character (chars_of s)"

definition eq_ignore_ascii_case :: "string \<Rightarrow> string \<Rightarrow> bool" where
  "eq_ignore_ascii_case a b \<longleftrightarrow> to_ascii_lowercase a = to_ascii_lowercase b"

section \<open>Reading an argv\<close>

definition ensure_flag :: "string list \<Rightarrow> string \<Rightarrow> string list" where
  "ensure_flag args flag = (if flag \<in> set args then args else args @ [flag])"

definition attached_value :: "string \<Rightarrow> string \<Rightarrow> string option" where
  "attached_value arg name =
     (case split_once (CHR ''='') arg of
        Some (opt, v) \<Rightarrow> if opt = name then Some v else None
      | None \<Rightarrow> None)"

fun chat_cli_arg_value :: "string list \<Rightarrow> string \<Rightarrow> string option" where
  "chat_cli_arg_value [] name = None"
| "chat_cli_arg_value (arg # rest) name =
     (case attached_value arg name of
        Some v \<Rightarrow> Some v
      | None \<Rightarrow> if arg = name then (case rest of [] \<Rightarrow> None | v # _ \<Rightarrow> Some v) else chat_cli_arg_value rest name)"

datatype (plugins only: size code) tool_error =
    ControlInName | NotAnObject string | ControlInArgument string | UnsupportedTool string
  | MissingArgument string | TooLong string | BadAction string
  | BadChannel string | BadFormat string | WheelOnly string | BothSelectors | SelectorNeedsWheel
  | BadVersion | BadBuildDate date_error | NeedsPrefix | SystemPrefix string
  | PublicBind | NonLocalHost string | BadPortArgument | NeedsPortFor string | CpuDevice
  | BadServiceId id_error | UnknownWatcher string | ModeOnDisable | BadMode string
  | NotAnInteger string | OutOfRange string
  | ArgsCount | ArgNotText | ArgHasControl | ArgTooLong | ArgsEmpty | ReasonNotText
  | UseEngines | NotManaged | PortRule port_error | OmittedValue string | GivenEmpty string
  | UnsupportedCommand string | NotForApproval string | NeedsMutation string | NotInProcess

fun chat_cli_arg_value_checked :: "string list \<Rightarrow> string \<Rightarrow> tool_error + string option" where
  "chat_cli_arg_value_checked [] name = Inr None"
| "chat_cli_arg_value_checked (arg # rest) name =
     (case attached_value arg name of
        Some v \<Rightarrow> if trim v = [] then Inl (GivenEmpty name) else Inr (Some v)
      | None \<Rightarrow>
          if arg = name
          then (case rest of
                  [] \<Rightarrow> Inl (OmittedValue name)
                | v # _ \<Rightarrow> if prefix ''--'' v \<or> trim v = [] then Inl (OmittedValue name) else Inr (Some v))
          else chat_cli_arg_value_checked rest name)"

definition chat_cli_has_flag :: "string list \<Rightarrow> string \<Rightarrow> bool" where
  "chat_cli_has_flag args name \<longleftrightarrow>
     list_ex (\<lambda>arg. arg = name \<or>
       (case strip_prefix name arg of Some rest \<Rightarrow> prefix ''='' rest | None \<Rightarrow> False)) args"

definition device_policy_is_cpu_mode :: "string \<Rightarrow> bool" where
  "device_policy_is_cpu_mode policy \<longleftrightarrow> to_ascii_lowercase (trim policy) \<in> {''cpu'', ''cpu_only''}"

fun serve_args_request_cpu_device :: "string list \<Rightarrow> bool" where
  "serve_args_request_cpu_device [] \<longleftrightarrow> False"
| "serve_args_request_cpu_device (arg # rest) \<longleftrightarrow>
     (case strip_prefix ''--device='' arg of Some v \<Rightarrow> device_policy_is_cpu_mode v | None \<Rightarrow> False) \<or>
     (arg = ''--device'' \<and> (case rest of v # _ \<Rightarrow> device_policy_is_cpu_mode v | [] \<Rightarrow> False)) \<or>
     serve_args_request_cpu_device rest"

definition format_structured_tool_call :: "string \<Rightarrow> string list \<Rightarrow> scalar list" where
  "format_structured_tool_call program args =
     join [32] (chars_of program # map (\<lambda>arg. shell_quote (chars_of arg)) args)"

section \<open>A tool call\<close>

text \<open>The id a provider gives a call plays no part in the policy.\<close>

record chat_tool_call =
  ct_name :: string
  ct_arguments :: json

fun as_object :: "json \<Rightarrow> (string \<times> json) list option" where
  "as_object (JObj kvs) = Some kvs"
| "as_object _ = None"

fun as_array :: "json \<Rightarrow> json list option" where
  "as_array (JArr vs) = Some vs"
| "as_array _ = None"

fun as_u64_json :: "json \<Rightarrow> nat option" where
  "as_u64_json (JInt i) = (if 0 \<le> i \<and> i < 2 ^ 64 then Some (nat i) else None)"
| "as_u64_json _ = None"

definition json_string :: "(string \<times> json) list \<Rightarrow> string \<Rightarrow> string option" where
  "json_string obj key =
     (case Option.bind (map_of obj key) as_str of
        Some v \<Rightarrow> if trim v = [] then None else Some v
      | None \<Rightarrow> None)"

definition json_flag :: "(string \<times> json) list \<Rightarrow> string \<Rightarrow> bool" where
  "json_flag obj key \<longleftrightarrow> Option.bind (map_of obj key) as_bool = Some True"

definition with_object :: "chat_tool_call \<Rightarrow> ((string \<times> json) list \<Rightarrow> tool_error + 'a) \<Rightarrow> tool_error + 'a" where
  "with_object call f =
     (case as_object (ct_arguments call) of None \<Rightarrow> Inl (NotAnObject (ct_name call)) | Some obj \<Rightarrow> f obj)"

definition required :: "string \<Rightarrow> 'a option \<Rightarrow> tool_error + 'a" where
  "required key v = (case v of None \<Rightarrow> Inl (MissingArgument key) | Some x \<Rightarrow> Inr x)"

definition refuse_if :: "bool \<Rightarrow> tool_error \<Rightarrow> tool_error + unit" where
  "refuse_if b e = (if b then Inl e else Inr ())"

abbreviation (input) seq :: "tool_error + unit \<Rightarrow> tool_error + 'a \<Rightarrow> tool_error + 'a" where
  "seq a b \<equiv> bind_result a (\<lambda>_. b)"

text \<open>Every string of the arguments, however deep, keys excepted.\<close>

fun carries_control :: "json \<Rightarrow> bool" where
  "carries_control (JStr s) \<longleftrightarrow> shows_control s"
| "carries_control (JArr vs) \<longleftrightarrow> list_ex carries_control vs"
| "carries_control (JObj kvs) \<longleftrightarrow> list_ex (\<lambda>kv. carries_control (snd kv)) kvs"
| "carries_control _ \<longleftrightarrow> False"

definition CHAT_TOOLS_SCREENING_THEIR_OWN_ARGUMENTS :: "string list" where
  "CHAT_TOOLS_SCREENING_THEIR_OWN_ARGUMENTS = [''rocm_command'']"

definition reject_control_characters_in_tool_arguments :: "string \<Rightarrow> json \<Rightarrow> tool_error + unit" where
  "reject_control_characters_in_tool_arguments called args =
     (if called \<in> set CHAT_TOOLS_SCREENING_THEIR_OWN_ARGUMENTS then Inr ()
      else refuse_if (carries_control args) (ControlInArgument called))"

section \<open>The rules on one tool\<close>

definition validate_chat_proposal_action_tool_call :: "chat_tool_call \<Rightarrow> tool_error + unit" where
  "validate_chat_proposal_action_tool_call call =
     with_object call (\<lambda>obj.
       bind_result (required ''proposal_id'' (json_string obj ''proposal_id'')) (\<lambda>proposal_id.
         seq (refuse_if (128 < length proposal_id) (TooLong ''proposal_id''))
           (bind_result (required ''action'' (json_string obj ''action'')) (\<lambda>action.
              refuse_if (action \<notin> {''show'', ''approve'', ''reject''}) (BadAction action)))))"

text \<open>\<^verbatim>\<open>RuntimeVersionSelector::version\<close> and \<^verbatim>\<open>build_date\<close>.\<close>

definition is_whitespace :: "scalar \<Rightarrow> bool" where
  "is_whitespace c \<longleftrightarrow> between 9 13 c \<or> c \<in> {32, 0x85, 0xa0, 0x1680, 0x2028, 0x2029, 0x202f, 0x205f, 0x3000} \<or>
     between 0x2000 0x200a c"

definition selector_version :: "string \<Rightarrow> tool_error + string" where
  "selector_version v =
     (let trimmed = trim v in
      if trimmed = [] then Inl BadVersion
      else if list_ex (\<lambda>c. is_control c \<or> is_whitespace c) (chars_of trimmed) then Inl BadVersion
      else Inr trimmed)"

definition selector_build_date :: "string \<Rightarrow> tool_error + string" where
  "selector_build_date v = map_sum BadBuildDate (\<lambda>d. d) (normalize_requested_build_date v)"

definition check_selectors :: "string option \<Rightarrow> string option \<Rightarrow> tool_error + unit" where
  "check_selectors version build_date =
     seq (case version of None \<Rightarrow> Inr () | Some v \<Rightarrow> map_sum (\<lambda>e. e) (\<lambda>_. ()) (selector_version v))
       (case build_date of None \<Rightarrow> Inr () | Some d \<Rightarrow> map_sum (\<lambda>e. e) (\<lambda>_. ()) (selector_build_date d))"

definition chat_install_prefix_is_system :: "runtime_platform \<Rightarrow> string option \<Rightarrow> string \<Rightarrow> bool" where
  "chat_install_prefix_is_system host home pre \<longleftrightarrow>
     pre = [] \<or> runtime_install_root_is_protected host home pre"

definition validate_chat_install_sdk_tool_call ::
  "runtime_platform \<Rightarrow> string option \<Rightarrow> chat_tool_call \<Rightarrow> tool_error + unit" where
  "validate_chat_install_sdk_tool_call host home call =
     with_object call (\<lambda>obj.
       let channel = (case json_string obj ''channel'' of Some c \<Rightarrow> c | None \<Rightarrow> ''release'');
           format = (case json_string obj ''format'' of Some f \<Rightarrow> f | None \<Rightarrow> ''wheel'');
           version = json_string obj ''version'';
           build_date = json_string obj ''build_date''
       in seq (refuse_if (channel \<notin> {''release'', ''nightly''}) (BadChannel channel))
           (seq (refuse_if (format \<notin> {''wheel'', ''tarball''}) (BadFormat format))
             (seq (refuse_if (is_windows host \<and> format \<noteq> ''wheel'') (WheelOnly format))
               (seq (refuse_if (version \<noteq> None \<and> build_date \<noteq> None) BothSelectors)
                 (seq (refuse_if (format \<noteq> ''wheel'' \<and> (version \<noteq> None \<or> build_date \<noteq> None)) SelectorNeedsWheel)
                   (seq (check_selectors version build_date)
                     (case json_string obj ''prefix'' of
                        None \<Rightarrow> Inl NeedsPrefix
                      | Some pre \<Rightarrow> refuse_if (chat_install_prefix_is_system host home pre) (SystemPrefix pre))))))))"

definition launch_port_argument :: "json option \<Rightarrow> tool_error + u16 option" where
  "launch_port_argument v =
     (case v of
        None \<Rightarrow> Inr None
      | Some JNull \<Rightarrow> Inr None
      | Some j \<Rightarrow>
          (case as_u64_json j of
             None \<Rightarrow> Inl BadPortArgument
           | Some n \<Rightarrow> if n < 65536 \<and> n \<noteq> 0 then Inr (Some (of_nat n)) else Inl BadPortArgument))"

definition validate_chat_launch_server_tool_call :: "chat_tool_call \<Rightarrow> tool_error + unit" where
  "validate_chat_launch_server_tool_call call =
     with_object call (\<lambda>obj.
       seq (refuse_if (json_flag obj ''allow_public_bind'') PublicBind)
         (let address = (case json_string obj ''host'' of Some h \<Rightarrow> h | None \<Rightarrow> DEFAULT_LOCAL_HOST) in
          seq (refuse_if (\<not> is_loopback_host address) (NonLocalHost address))
            (bind_result (launch_port_argument (map_of obj ''port'')) (\<lambda>port.
               seq (refuse_if (port = None \<and> \<not> is_canonical_loopback_host address) (NeedsPortFor address))
                 (refuse_if
                    (case Option.bind (map_of obj ''device'') as_str of
                       Some device \<Rightarrow> str_contains (to_ascii_lowercase device) ''cpu'' | None \<Rightarrow> False)
                    CpuDevice)))))"

definition validate_optional_chat_integer :: "chat_tool_call \<Rightarrow> string \<Rightarrow> nat \<Rightarrow> nat \<Rightarrow> tool_error + unit" where
  "validate_optional_chat_integer call key lo hi =
     with_object call (\<lambda>obj.
       case map_of obj key of
         None \<Rightarrow> Inr ()
       | Some v \<Rightarrow>
           (case as_u64_json v of
              None \<Rightarrow> Inl (NotAnInteger key)
            | Some n \<Rightarrow> refuse_if (n < lo \<or> hi < n) (OutOfRange key)))"

definition validate_chat_service_tool_call :: "chat_tool_call \<Rightarrow> tool_error + unit" where
  "validate_chat_service_tool_call call =
     with_object call (\<lambda>obj.
       bind_result (required ''service_id'' (json_string obj ''service_id'')) (\<lambda>sid.
         seq (case service_id_new sid of Inl e \<Rightarrow> Inl (BadServiceId e) | Inr _ \<Rightarrow> Inr ())
           (if ct_name call = ''service_logs'' then validate_optional_chat_integer call ''lines'' 1 500 else Inr ())))"

definition validate_chat_watcher_tool_call :: "chat_tool_call \<Rightarrow> bool \<Rightarrow> tool_error + unit" where
  "validate_chat_watcher_tool_call call allow_mode =
     with_object call (\<lambda>obj.
       bind_result (required ''watcher'' (json_string obj ''watcher'')) (\<lambda>watcher.
         seq (refuse_if (128 < length watcher) (TooLong ''watcher''))
           (seq (refuse_if (builtin_watcher watcher = None) (UnknownWatcher watcher))
             (case json_string obj ''mode'' of
                None \<Rightarrow> Inr ()
              | Some mode \<Rightarrow>
                  seq (refuse_if (\<not> allow_mode) ModeOnDisable)
                    (refuse_if (mode \<notin> {''observe'', ''propose'', ''contained''}) (BadMode mode))))))"

definition validate_chat_port_status_tool_call :: "chat_tool_call \<Rightarrow> tool_error + unit" where
  "validate_chat_port_status_tool_call call =
     with_object call (\<lambda>obj.
       let address = (case json_string obj ''host'' of Some h \<Rightarrow> h | None \<Rightarrow> DEFAULT_LOCAL_HOST)
       in seq (refuse_if (\<not> is_loopback_host address) (NonLocalHost address))
           (case Option.bind (map_of obj ''port'') as_u64_json of
              None \<Rightarrow> Inl (NotAnInteger ''port'')
            | Some port \<Rightarrow> refuse_if (\<not> (1 \<le> port \<and> port \<le> 65535)) (OutOfRange ''port'')))"

definition validate_required_chat_string :: "chat_tool_call \<Rightarrow> string \<Rightarrow> tool_error + unit" where
  "validate_required_chat_string call key =
     with_object call (\<lambda>obj. map_sum (\<lambda>e. e) (\<lambda>_. ()) (required key (json_string obj key)))"

section \<open>Commands of the \<open>rocm_command\<close> tool\<close>

datatype rocm_command_action = ReadOnly "string list" | Approval "string list" string string

fun checked_arg :: "json \<Rightarrow> tool_error + string" where
  "checked_arg v =
     (case as_str v of
        None \<Rightarrow> Inl ArgNotText
      | Some s \<Rightarrow>
          (let arg = trim s in
           if arg = [] then Inl ArgNotText
           else if shows_control arg then Inl ArgHasControl
           else if 512 < length arg then Inl ArgTooLong
           else Inr arg))"

fun checked_args :: "json list \<Rightarrow> tool_error + string list" where
  "checked_args [] = Inr []"
| "checked_args (v # vs) =
     bind_result (checked_arg v) (\<lambda>arg. bind_result (checked_args vs) (\<lambda>args. Inr (arg # args)))"

definition drop_program_name :: "string list \<Rightarrow> string list" where
  "drop_program_name args =
     (case args of
        arg # rest \<Rightarrow> if eq_ignore_ascii_case arg ''rocm'' then rest else args
      | [] \<Rightarrow> [])"

definition normalized_chat_rocm_command_args :: "chat_tool_call \<Rightarrow> tool_error + string list" where
  "normalized_chat_rocm_command_args call =
     with_object call (\<lambda>obj.
       bind_result (required ''args'' (Option.bind (map_of obj ''args'') as_array)) (\<lambda>vs.
         seq (refuse_if (vs = [] \<or> 64 < length vs) ArgsCount)
           (bind_result (checked_args vs) (\<lambda>args.
              let args = drop_program_name args in
              seq (refuse_if (args = []) ArgsEmpty)
                (seq (refuse_if (case map_of obj ''reason'' of Some r \<Rightarrow> as_str r = None | None \<Rightarrow> False) ReasonNotText)
                  (Inr args))))))"

definition canonicalize_chat_rocm_command :: "string list \<Rightarrow> tool_error + string list" where
  "canonicalize_chat_rocm_command args0 =
     (let args = (case args0 of
                    arg # rest \<Rightarrow> if eq_ignore_ascii_case arg ''comfy'' then ''comfyui'' # rest else args0
                  | [] \<Rightarrow> [])
      in case args of
           arg # rest \<Rightarrow> if eq_ignore_ascii_case arg ''engine'' then Inl UseEngines else Inr args
         | [] \<Rightarrow> Inr args)"

definition validate_serve_command_safety :: "string list \<Rightarrow> tool_error + unit" where
  "validate_serve_command_safety args =
     seq (refuse_if (chat_cli_has_flag args ''--allow-public-bind'') PublicBind)
       (seq (refuse_if (serve_args_request_cpu_device args) CpuDevice)
         (seq (case chat_cli_arg_value args ''--host'' of
                 Some address \<Rightarrow> refuse_if (\<not> is_loopback_host address) (NonLocalHost address)
               | None \<Rightarrow> Inr ())
           (refuse_if (chat_cli_has_flag args ''--foreground'' \<or> \<not> chat_cli_has_flag args ''--managed'') NotManaged)))"

definition first_is :: "string list \<Rightarrow> string \<Rightarrow> bool" where
  "first_is args word \<longleftrightarrow> (case args of arg # _ \<Rightarrow> eq_ignore_ascii_case arg word | [] \<Rightarrow> False)"

definition second_is :: "string list \<Rightarrow> string \<Rightarrow> bool" where
  "second_is args word \<longleftrightarrow> (case args of _ # arg # _ \<Rightarrow> eq_ignore_ascii_case arg word | _ \<Rightarrow> False)"

definition validate_serve_port :: "string list \<Rightarrow> tool_error + unit" where
  "validate_serve_port args =
     bind_result (case chat_cli_arg_value args ''--port'' of
                    None \<Rightarrow> Inr None | Some v \<Rightarrow> map_sum PortRule Some (parse_serve_port v)) (\<lambda>port.
       map_sum PortRule (\<lambda>u. u)
         (validate_port_request
           (case chat_cli_arg_value args ''--host'' of Some h \<Rightarrow> h | None \<Rightarrow> DEFAULT_LOCAL_HOST) (from_flag port)))"

definition validate_install_sdk_args :: "runtime_platform \<Rightarrow> string option \<Rightarrow> string list \<Rightarrow> tool_error + unit" where
  "validate_install_sdk_args host home args =
     seq (refuse_if (is_windows host \<and>
            (case chat_cli_arg_value args ''--format'' of
               Some v \<Rightarrow> \<not> eq_ignore_ascii_case v ''wheel'' | None \<Rightarrow> False)) (WheelOnly ''--format''))
       (bind_result (chat_cli_arg_value_checked args ''--version'') (\<lambda>version.
         bind_result (chat_cli_arg_value_checked args ''--build-date'') (\<lambda>build_date.
           seq (refuse_if (version \<noteq> None \<and> build_date \<noteq> None) BothSelectors)
             (seq (refuse_if ((version \<noteq> None \<or> build_date \<noteq> None) \<and>
                     \<not> eq_ignore_ascii_case (case chat_cli_arg_value args ''--format'' of Some f \<Rightarrow> f | None \<Rightarrow> ''wheel'') ''wheel'')
                     SelectorNeedsWheel)
               (seq (check_selectors version build_date)
                 (bind_result (chat_cli_arg_value_checked args ''--prefix'') (\<lambda>pre.
                    case pre of
                      None \<Rightarrow> Inl NeedsPrefix
                    | Some p \<Rightarrow> refuse_if (chat_install_prefix_is_system host home p) (SystemPrefix p))))))))"

definition validate_chat_rocm_command_safety ::
  "runtime_platform \<Rightarrow> string option \<Rightarrow> string list \<Rightarrow> tool_error + unit" where
  "validate_chat_rocm_command_safety host home args =
     seq (if first_is args ''serve'' then seq (validate_serve_command_safety args) (validate_serve_port args) else Inr ())
       (seq (if first_is args ''comfyui'' \<and> second_is args ''start''
             then (case chat_cli_arg_value args ''--host'' of
                     Some address \<Rightarrow> refuse_if (\<not> is_loopback_host address) (NonLocalHost address)
                   | None \<Rightarrow> Inr ())
             else Inr ())
         (if first_is args ''install'' \<and> second_is args ''sdk'' then validate_install_sdk_args host home args else Inr ()))"

text \<open>The operating system on which \<^verbatim>\<open>rocm install driver\<close> only reports.\<close>

definition install_driver_only_reports_on :: "runtime_platform \<Rightarrow> bool" where
  "install_driver_only_reports_on host \<longleftrightarrow> is_windows host"

definition drop_yes :: "string list \<Rightarrow> string list" where
  "drop_yes args = filter (\<lambda>arg. arg \<noteq> ''--yes'' \<and> \<not> prefix ''--yes='' arg) args"

definition chat_install_driver_action :: "string list \<Rightarrow> bool \<Rightarrow> rocm_command_action" where
  "chat_install_driver_action args0 only_reports =
     (let args = drop_yes args0 in
      if only_reports then ReadOnly args
      else Approval (ensure_flag args ''--yes'') ''Install driver'' ''Install'')"

definition install_sdk_consent :: "string list \<Rightarrow> string list" where
  "install_sdk_consent args0 =
     (let args = drop_yes args0
      in if ''--dry-run'' \<in> set args then args else ensure_flag args ''--approve-replacing-active-default'')"

text \<open>\<^verbatim>\<open>Option::is_none_or\<close> and \<^verbatim>\<open>is_some_and\<close> over the second word.\<close>

definition none_or :: "string list \<Rightarrow> string option \<Rightarrow> bool" where
  "none_or words second \<longleftrightarrow> (case second of None \<Rightarrow> True | Some w \<Rightarrow> w \<in> set words)"

definition some_of :: "string list \<Rightarrow> string option \<Rightarrow> bool" where
  "some_of words second \<longleftrightarrow> (case second of None \<Rightarrow> False | Some w \<Rightarrow> w \<in> set words)"

definition first_word :: "string list \<Rightarrow> string option" where
  "first_word args = (case args of arg # _ \<Rightarrow> Some (to_ascii_lowercase arg) | [] \<Rightarrow> None)"

definition second_word :: "string list \<Rightarrow> string option" where
  "second_word args = (case args of _ # arg # _ \<Rightarrow> Some (to_ascii_lowercase arg) | _ \<Rightarrow> None)"

text \<open>The arms of the match in their order; the first that fits decides.\<close>

definition classify_rocm_command :: "runtime_platform \<Rightarrow> string list \<Rightarrow> tool_error + rocm_command_action" where
  "classify_rocm_command host args =
     (let second = second_word args in
      case first_word args of
        None \<Rightarrow> Inl ArgsEmpty
      | Some first \<Rightarrow>
          if first \<in> {''examine'', ''version'', ''model'', ''models'', ''daemon'', ''logs''} then Inr (ReadOnly args)
          else if first = ''update'' \<and> ''--apply'' \<notin> set args then Inr (ReadOnly args)
          else if first = ''runtimes'' \<and> none_or [''list''] second then Inr (ReadOnly args)
          else if first = ''engines'' \<and> some_of [''list''] second then Inr (ReadOnly args)
          else if first = ''services'' \<and> none_or [''list'', ''logs''] second then Inr (ReadOnly args)
          else if first = ''automations'' \<and> none_or [''list''] second then Inr (ReadOnly args)
          else if first = ''config'' \<and> some_of [''show''] second then Inr (ReadOnly args)
          else if first = ''comfyui'' \<and> none_or [''status'', ''logs'', ''log''] second then Inr (ReadOnly args)
          else if first = ''install'' \<and> some_of [''sdk''] second
          then Inr (Approval (install_sdk_consent args) ''Install ROCm'' ''Install'')
          else if first = ''install'' \<and> some_of [''driver''] second
          then Inr (chat_install_driver_action args (install_driver_only_reports_on host))
          else if first = ''update'' then Inr (Approval (ensure_flag args ''--yes'') ''Apply ROCm update'' ''Update'')
          else if first = ''runtimes'' \<and> some_of [''uninstall'', ''remove''] second \<and> ''--dry-run'' \<in> set args
          then Inr (ReadOnly args)
          else if first = ''runtimes'' \<and> some_of [''uninstall'', ''remove''] second
          then Inr (Approval (ensure_flag args ''--yes'') ''Remove ROCm install'' ''Runtimes'')
          else if first = ''runtimes'' then Inr (Approval args ''Change ROCm runtime'' ''Runtimes'')
          else if first = ''engines'' \<and> some_of [''install''] second then Inr (Approval args ''Install engine'' ''Engine'')
          else if first = ''serve'' then Inr (Approval args ''Start local model server'' ''Serve'')
          else if first = ''services'' \<and> some_of [''stop'', ''restart''] second
          then Inr (Approval (ensure_flag args ''--yes'') ''Change local model server'' ''Services'')
          else if first = ''automations'' \<and> some_of [''enable'', ''disable''] second
          then Inr (Approval args ''Change automation'' ''Automations'')
          else if first = ''config'' then Inr (Approval args ''Change settings'' ''Config'')
          else if first = ''uninstall'' \<and> ''--dry-run'' \<in> set args then Inr (ReadOnly args)
          else if first = ''uninstall'' then Inr (Approval (ensure_flag args ''--yes'') ''Uninstall ROCm CLI'' ''Uninstall'')
          else if first = ''storage'' \<and> none_or [''report''] second then Inr (ReadOnly args)
          else if first = ''storage'' then Inr (Approval (ensure_flag args ''--yes'') ''Free up disk space'' ''Storage'')
          else if first = ''comfyui'' \<and> some_of [''install''] second
          then Inr (Approval (ensure_flag args ''--yes'') ''Install ComfyUI'' ''ComfyUI'')
          else if first = ''comfyui'' \<and> some_of [''start''] second
          then Inr (Approval (ensure_flag args ''--yes'') ''Start ComfyUI'' ''ComfyUI'')
          else if first = ''comfyui'' \<and> some_of [''stop''] second
          then Inr (Approval (ensure_flag args ''--yes'') ''Stop ComfyUI'' ''ComfyUI'')
          else if first = ''setup'' \<and> none_or [''status''] second then Inr (ReadOnly args)
          else if first = ''setup'' \<and> some_of [''reset''] second
          then Inr (Approval (ensure_flag args ''--yes'') ''Reset first-time setup'' ''Setup'')
          else if first = ''remote'' \<and> some_of [''targets'', ''doctor'', ''status''] second then Inr (ReadOnly args)
          else if first = ''remote'' \<and> some_of [''serve'', ''attach'', ''stop''] second
          then Inr (Approval args (''Remote '' @ (case second of Some verb \<Rightarrow> verb | None \<Rightarrow> [])) ''Remote'')
          else Inl (UnsupportedCommand first))"

definition chat_rocm_command_action_from_args ::
  "runtime_platform \<Rightarrow> string option \<Rightarrow> string list \<Rightarrow> tool_error + rocm_command_action" where
  "chat_rocm_command_action_from_args host home args0 =
     bind_result (canonicalize_chat_rocm_command args0) (\<lambda>args.
       seq (validate_chat_rocm_command_safety host home args) (classify_rocm_command host args))"

definition chat_rocm_command_action ::
  "runtime_platform \<Rightarrow> string option \<Rightarrow> chat_tool_call \<Rightarrow> tool_error + rocm_command_action" where
  "chat_rocm_command_action host home call =
     bind_result (normalized_chat_rocm_command_args call) (chat_rocm_command_action_from_args host home)"

section \<open>Any tool\<close>

definition chat_tools :: "string list" where
  "chat_tools = [''examine'', ''doctor'', ''bridge_snapshot'', ''gpu_snapshot'', ''engines'', ''services'',
     ''service_logs'', ''automations'', ''natural_language_plan'', ''path_exists'', ''port_status'', ''rocm_command'',
     ''update_check'', ''install_sdk_dry_run'', ''install_sdk'', ''install_engine'', ''launch_server'', ''stop_server'',
     ''watcher_enable'', ''watcher_disable'', ''proposal_action'']"

definition validate_one_tool :: "runtime_platform \<Rightarrow> string option \<Rightarrow> chat_tool_call \<Rightarrow> tool_error + unit" where
  "validate_one_tool host home call =
     (let called = ct_name call in
      if called = ''install_sdk'' then validate_chat_install_sdk_tool_call host home call
      else if called = ''install_engine'' then validate_required_chat_string call ''engine''
      else if called = ''launch_server'' then validate_chat_launch_server_tool_call call
      else if called = ''service_logs'' \<or> called = ''stop_server'' then validate_chat_service_tool_call call
      else if called = ''automations'' then validate_optional_chat_integer call ''event_limit'' 1 64
      else if called = ''natural_language_plan'' then validate_required_chat_string call ''request''
      else if called = ''path_exists'' then validate_required_chat_string call ''path''
      else if called = ''port_status'' then validate_chat_port_status_tool_call call
      else if called = ''rocm_command'' then map_sum (\<lambda>e. e) (\<lambda>_. ()) (chat_rocm_command_action host home call)
      else if called = ''watcher_enable'' then validate_chat_watcher_tool_call call True
      else if called = ''watcher_disable'' then validate_chat_watcher_tool_call call False
      else if called = ''proposal_action'' then validate_chat_proposal_action_tool_call call
      else Inr ())"

definition validate_chat_tool_call :: "runtime_platform \<Rightarrow> string option \<Rightarrow> chat_tool_call \<Rightarrow> tool_error + unit" where
  "validate_chat_tool_call host home call =
     seq (refuse_if (shows_control (ct_name call)) ControlInName)
       (seq (refuse_if (as_object (ct_arguments call) = None) (NotAnObject (ct_name call)))
         (seq (reject_control_characters_in_tool_arguments (ct_name call) (ct_arguments call))
           (seq (refuse_if (ct_name call \<notin> set chat_tools) (UnsupportedTool (ct_name call)))
             (validate_one_tool host home call))))"

definition chat_tool_call_is_read_only :: "runtime_platform \<Rightarrow> string option \<Rightarrow> chat_tool_call \<Rightarrow> bool" where
  "chat_tool_call_is_read_only host home call \<longleftrightarrow>
     (if ct_name call = ''rocm_command''
      then (case chat_rocm_command_action host home call of Inr (ReadOnly _) \<Rightarrow> True | _ \<Rightarrow> False)
      else if ct_name call = ''proposal_action''
      then Option.bind (as_object (ct_arguments call)) (\<lambda>obj. json_string obj ''action'') = Some ''show''
      else ct_name call \<in> {''examine'', ''doctor'', ''bridge_snapshot'', ''gpu_snapshot'', ''engines'', ''services'',
        ''service_logs'', ''automations'', ''natural_language_plan'', ''path_exists'', ''port_status'', ''update_check'',
        ''install_sdk_dry_run''})"

section \<open>The command line of a tool\<close>

definition push_optional_json_cli_arg ::
  "(string \<times> json) list \<Rightarrow> string \<Rightarrow> string \<Rightarrow> string list \<Rightarrow> string list" where
  "push_optional_json_cli_arg obj flag key args =
     (case json_string obj key of Some v \<Rightarrow> args @ [flag, v] | None \<Rightarrow> args)"

definition rocm_chat_tool_requested_args ::
  "runtime_platform \<Rightarrow> string option \<Rightarrow> chat_tool_call \<Rightarrow> string list option" where
  "rocm_chat_tool_requested_args host home call =
     Option.bind (as_object (ct_arguments call)) (\<lambda>obj.
       let called = ct_name call in
       if called = ''install_sdk'' then
         Some (push_optional_json_cli_arg obj ''--build-date'' ''build_date''
           (push_optional_json_cli_arg obj ''--version'' ''version''
             (push_optional_json_cli_arg obj ''--prefix'' ''prefix''
               [''install'', ''sdk'', ''--channel'', case json_string obj ''channel'' of Some c \<Rightarrow> c | None \<Rightarrow> ''release'',
                ''--format'', case json_string obj ''format'' of Some f \<Rightarrow> f | None \<Rightarrow> ''wheel'',
                ''--approve-replacing-active-default''])))
       else if called = ''install_engine'' then
         map_option (\<lambda>engine.
           push_optional_json_cli_arg obj ''--python-version'' ''python_version''
             (push_optional_json_cli_arg obj ''--runtime-id'' ''runtime_id'' [''engines'', ''install'', engine])
           @ (if json_flag obj ''reinstall'' then [''--reinstall''] else [])) (json_string obj ''engine'')
       else if called = ''launch_server'' then
         map_option (\<lambda>model.
           push_optional_json_cli_arg obj ''--host'' ''host''
             (push_optional_json_cli_arg obj ''--env-id'' ''env_id''
               (push_optional_json_cli_arg obj ''--runtime-id'' ''runtime_id''
                 (push_optional_json_cli_arg obj ''--device'' ''device''
                   (push_optional_json_cli_arg obj ''--engine'' ''engine'' [''serve'', model, ''--managed'']))))
           @ (case Option.bind (map_of obj ''port'') as_u64_json of
                Some port \<Rightarrow> [''--port'', show_nat port] | None \<Rightarrow> [])) (json_string obj ''model'')
       else if called = ''stop_server'' then
         map_option (\<lambda>sid. [''services'', ''stop'', sid, ''--yes'']) (json_string obj ''service_id'')
       else if called = ''watcher_enable'' then
         map_option (\<lambda>watcher. push_optional_json_cli_arg obj ''--mode'' ''mode'' [''automations'', ''enable'', watcher])
           (json_string obj ''watcher'')
       else if called = ''watcher_disable'' then
         map_option (\<lambda>watcher. [''automations'', ''disable'', watcher]) (json_string obj ''watcher'')
       else if called = ''rocm_command'' then
         (case chat_rocm_command_action host home call of
            Inl _ \<Rightarrow> None
          | Inr (Approval args _ _) \<Rightarrow> Some args
          | Inr (ReadOnly args) \<Rightarrow> Some args)
       else None)"

definition rocm_chat_tool_requested_command ::
  "runtime_platform \<Rightarrow> string option \<Rightarrow> chat_tool_call \<Rightarrow> scalar list option" where
  "rocm_chat_tool_requested_command host home call =
     map_option (format_structured_tool_call ''rocm'') (rocm_chat_tool_requested_args host home call)"

section \<open>The request for approval\<close>

text \<open>What the operator is shown: two titles and the command line. The explanation of the model is
  shown as it came.\<close>

record approval_request =
  ap_pending_title :: string
  ap_command_title :: string
  ap_args :: "string list"
  ap_display :: "scalar list option"
  ap_explanation :: "string option"

definition shown_explanation :: "string option \<Rightarrow> string option" where
  "shown_explanation explanation =
     (case explanation of None \<Rightarrow> None | Some e \<Rightarrow> if trim e = [] then None else Some (trim e))"

definition approval_titles :: "string \<Rightarrow> (string \<times> string) option" where
  "approval_titles called =
     (if called = ''install_sdk'' then Some (''Install ROCm'', ''Install'')
      else if called = ''install_engine'' then Some (''Install engine'', ''Engine'')
      else if called = ''launch_server'' then Some (''Start local model server'', ''Serve'')
      else if called = ''stop_server'' then Some (''Stop local model server'', ''Services'')
      else if called = ''watcher_enable'' then Some (''Enable automation'', ''Automations'')
      else if called = ''watcher_disable'' then Some (''Disable automation'', ''Automations'')
      else None)"

definition proposal_approval_request :: "chat_tool_call \<Rightarrow> string option \<Rightarrow> tool_error + approval_request" where
  "proposal_approval_request call explanation =
     with_object call (\<lambda>obj.
       bind_result (required ''proposal_id'' (json_string obj ''proposal_id'')) (\<lambda>proposal_id.
         bind_result (required ''action'' (json_string obj ''action'')) (\<lambda>action.
           bind_result (if action = ''approve'' then Inr ''Approve proposal''
                        else if action = ''reject'' then Inr ''Reject proposal'' else Inl (NotForApproval action)) (\<lambda>title.
             Inr \<lparr>ap_pending_title = title, ap_command_title = ''Reviews'', ap_args = [],
                  ap_display = Some (chars_of (''proposal '' @ proposal_id)),
                  ap_explanation = shown_explanation explanation\<rparr>))))"

definition chat_tool_approval_request ::
  "runtime_platform \<Rightarrow> string option \<Rightarrow> chat_tool_call \<Rightarrow> string option \<Rightarrow> tool_error + approval_request" where
  "chat_tool_approval_request host home call explanation =
     seq (validate_chat_tool_call host home call)
       (if ct_name call = ''rocm_command'' then
          (case chat_rocm_command_action host home call of
             Inl e \<Rightarrow> Inl e
           | Inr (ReadOnly _) \<Rightarrow> Inl (NotForApproval ''rocm_command'')
           | Inr (Approval args caption heading) \<Rightarrow>
               Inr \<lparr>ap_pending_title = caption, ap_command_title = heading, ap_args = args,
                    ap_display = Some (format_structured_tool_call ''rocm'' args),
                    ap_explanation = shown_explanation explanation\<rparr>)
        else if ct_name call = ''proposal_action'' then proposal_approval_request call explanation
        else
          bind_result (required (ct_name call) (rocm_chat_tool_requested_args host home call)) (\<lambda>args.
            case approval_titles (ct_name call) of
              None \<Rightarrow> Inl (NotForApproval (ct_name call))
            | Some (caption, heading) \<Rightarrow>
                Inr \<lparr>ap_pending_title = caption, ap_command_title = heading, ap_args = args,
                     ap_display = rocm_chat_tool_requested_command host home call,
                     ap_explanation = shown_explanation explanation\<rparr>))"

end
