(* ===== verification/Tool_Run.thy ===== *)
theory Tool_Run
  imports Tool_Policy
begin

text \<open>
  Where a tool call is carried out. In the command line: \<^verbatim>\<open>chat/mcp_bridge.rs\<close>, which runs one call, the
  seam to the dashboard (\<^verbatim>\<open>dash_seam.rs\<close>) and the loop over the calls of one answer (\<^verbatim>\<open>chat/turn.rs\<close>). In
  the daemon: the MCP server (\<^verbatim>\<open>mcp.rs\<close>, \<^verbatim>\<open>mcp_argv.rs\<close>). A call is modelled by what it is led to do: a
  report made in the process, a review looked up or decided, or a child \<^verbatim>\<open>rocm\<close> with its argv. What the
  reports say, and the output of the child, is not modelled.
\<close>

section \<open>The read-only commands\<close>

datatype read_only_report =
    RExamine | RVersion | RModels | RDaemon | RLogs "string option" | RRuntimes | REngines | RServices bool
  | RServiceLogs string | RAutomations | RConfig | RComfyStatus | RComfyLogs nat | RUpdate
  | RInstallDryRun "string list" | RUninstallDryRun | RSetup | RDriverPlan bool

definition DEFAULT_LOG_TAIL_LINES :: nat where "DEFAULT_LOG_TAIL_LINES = 80"

fun parse_optional_query :: "string list \<Rightarrow> tool_error + string option" where
  "parse_optional_query [] = Inr None"
| "parse_optional_query (arg # rest) =
     (if arg = ''--query'' \<or> arg = ''-q''
      then (case rest of v # _ \<Rightarrow> Inr (Some v) | [] \<Rightarrow> Inl (OmittedValue ''--query''))
      else if prefix ''--'' arg then parse_optional_query rest
      else Inr (Some arg))"

fun parse_optional_lines :: "string list \<Rightarrow> tool_error + nat" where
  "parse_optional_lines [] = Inr DEFAULT_LOG_TAIL_LINES"
| "parse_optional_lines (arg # rest) =
     (if arg = ''--lines'' \<or> arg = ''-n''
      then (case rest of
              [] \<Rightarrow> Inl (OmittedValue ''--lines'')
            | v # _ \<Rightarrow> (case parse_uint 64 v of None \<Rightarrow> Inl (NotAnInteger ''--lines'') | Some n \<Rightarrow> Inr n))
      else parse_optional_lines rest)"

definition comfy_log_lines :: "string list \<Rightarrow> nat" where
  "comfy_log_lines rest = (case parse_optional_lines rest of Inr n \<Rightarrow> n | Inl _ \<Rightarrow> DEFAULT_LOG_TAIL_LINES)"

abbreviation (input) has_word :: "string \<Rightarrow> string list \<Rightarrow> bool" where
  "has_word w args \<equiv> list_ex (\<lambda>arg. eq_ignore_ascii_case arg w) args"

text \<open>The arms of the match over the argv, in their order.\<close>

definition run_rocm_read_only_in_process :: "string list \<Rightarrow> tool_error + read_only_report" where
  "run_rocm_read_only_in_process args =
     (case args of
        [] \<Rightarrow> Inl ArgsEmpty
      | command # rest \<Rightarrow>
          (let is = eq_ignore_ascii_case command;
               alone = (rest = []);
               second = (\<lambda>w. case rest of sub # _ \<Rightarrow> eq_ignore_ascii_case sub w | [] \<Rightarrow> False);
               two = (length rest = 1)
           in if alone \<and> is ''examine'' then Inr RExamine
              else if alone \<and> (is ''version'' \<or> command = ''--version'' \<or> command = ''-V'') then Inr RVersion
              else if alone \<and> (is ''model'' \<or> is ''models'') then Inr RModels
              else if alone \<and> is ''daemon'' then Inr RDaemon
              else if alone \<and> is ''logs'' then Inr (RLogs None)
              else if is ''logs'' then map_sum (\<lambda>e. e) RLogs (parse_optional_query rest)
              else if alone \<and> is ''runtimes'' then Inr RRuntimes
              else if two \<and> is ''runtimes'' \<and> second ''list'' then Inr RRuntimes
              else if two \<and> is ''engines'' \<and> second ''list'' then Inr REngines
              else if alone \<and> is ''services'' then Inr (RServices False)
              else if two \<and> is ''services'' \<and> second ''list'' then Inr (RServices False)
              else if length rest = 2 \<and> is ''services'' \<and> second ''list'' \<and> rest ! 1 \<in> {''-a'', ''--all''}
              then Inr (RServices True)
              else if length rest = 2 \<and> is ''services'' \<and> (second ''logs'' \<or> second ''log'')
              then Inr (RServiceLogs (rest ! 1))
              else if alone \<and> is ''automations'' then Inr RAutomations
              else if two \<and> is ''automations'' \<and> second ''list'' then Inr RAutomations
              else if two \<and> is ''config'' \<and> second ''show'' then Inr RConfig
              else if alone \<and> is ''comfyui'' then Inr RComfyStatus
              else if two \<and> is ''comfyui'' \<and> second ''status'' then Inr RComfyStatus
              else if is ''comfyui'' \<and> (second ''logs'' \<or> second ''log'')
              then Inr (RComfyLogs (comfy_log_lines (drop 1 rest)))
              else if is ''update'' \<and> \<not> has_word ''--apply'' rest then Inr RUpdate
              else if is ''install'' \<and> second ''sdk'' \<and> has_word ''--dry-run'' (drop 1 rest)
              then Inr (RInstallDryRun (drop 1 rest))
              else if is ''uninstall'' \<and> has_word ''--dry-run'' rest then Inr RUninstallDryRun
              else if alone \<and> is ''setup'' then Inr RSetup
              else if two \<and> is ''setup'' \<and> second ''status'' then Inr RSetup
              else if is ''install'' \<and> second ''driver'' \<and>
                list_all (\<lambda>arg. eq_ignore_ascii_case arg ''--dkms'' \<or> eq_ignore_ascii_case arg ''--dry-run'') (drop 1 rest)
              then Inr (RDriverPlan (has_word ''--dkms'' (drop 1 rest)))
              else Inl NotInProcess))"

section \<open>One call\<close>

text \<open>What a call leads to. A tool that only reports carries the arguments it reads.\<close>

datatype tool_effect =
    Report string "(string \<times> json) list"
  | InProcess read_only_report
  | Child "string list"
  | ShowProposal string
  | SetProposalStatus string string

text \<open>Arguments wrapped once more, in an object under the key \<^verbatim>\<open>arguments\<close>, are unwrapped.\<close>

definition internal_mcp_arguments :: "json \<Rightarrow> (string \<times> json) list" where
  "internal_mcp_arguments v =
     (case Option.bind (json_get v ''arguments'') as_object of
        Some obj \<Rightarrow> obj
      | None \<Rightarrow> (case as_object v of Some obj \<Rightarrow> obj | None \<Rightarrow> []))"

definition internal_mcp_install_sdk_args ::
  "runtime_platform \<Rightarrow> string option \<Rightarrow> (string \<times> json) list \<Rightarrow> bool \<Rightarrow> tool_error + string list" where
  "internal_mcp_install_sdk_args host home obj dry_run =
     (let start = [''install'', ''sdk'', ''--channel'',
            case json_string obj ''channel'' of Some c \<Rightarrow> c | None \<Rightarrow> ''release'',
            ''--format'', case json_string obj ''format'' of Some f \<Rightarrow> f | None \<Rightarrow> ''wheel'']
      in seq (case json_string obj ''prefix'' of
                Some pre \<Rightarrow> refuse_if (chat_install_prefix_is_system host home pre) (SystemPrefix pre) | None \<Rightarrow> Inr ())
           (Inr (push_optional_json_cli_arg obj ''--build-date'' ''build_date''
              (push_optional_json_cli_arg obj ''--version'' ''version''
                (push_optional_json_cli_arg obj ''--prefix'' ''prefix'' start))
              @ (if dry_run then [''--dry-run''] else []))))"

definition proposal_effect :: "(string \<times> json) list \<Rightarrow> tool_error + tool_effect" where
  "proposal_effect obj =
     bind_result (required ''proposal_id'' (json_string obj ''proposal_id'')) (\<lambda>proposal_id.
       bind_result (required ''action'' (json_string obj ''action'')) (\<lambda>action.
         if action = ''show'' then Inr (ShowProposal proposal_id)
         else if action = ''approve'' then Inr (SetProposalStatus proposal_id ''approved'')
         else if action = ''reject'' then Inr (SetProposalStatus proposal_id ''rejected'')
         else Inl (BadAction action)))"

definition run_internal_mcp_call ::
  "runtime_platform \<Rightarrow> string option \<Rightarrow> string \<Rightarrow> json \<Rightarrow> bool \<Rightarrow> tool_error + tool_effect" where
  "run_internal_mcp_call host home called args allow_mutation =
     (let obj = internal_mcp_arguments args;
          call = \<lparr>ct_name = called, ct_arguments = JObj obj\<rparr>
      in seq (validate_chat_tool_call host home call)
        (seq (refuse_if (\<not> chat_tool_call_is_read_only host home call \<and> \<not> allow_mutation) (NeedsMutation called))
          (if called \<in> {''examine'', ''doctor'', ''bridge_snapshot'', ''gpu_snapshot'', ''engines'', ''services'',
             ''port_status'', ''service_logs'', ''automations'', ''natural_language_plan'', ''path_exists''}
           then Inr (Report called obj)
           else if called = ''rocm_command'' then
             (case chat_rocm_command_action host home call of
                Inl e \<Rightarrow> Inl e
              | Inr (ReadOnly argv) \<Rightarrow> map_sum (\<lambda>e. e) InProcess (run_rocm_read_only_in_process argv)
              | Inr (Approval argv _ _) \<Rightarrow> if allow_mutation then Inr (Child argv) else Inl (NeedsMutation called))
           else if called = ''update_check''
           then map_sum (\<lambda>e. e) InProcess (run_rocm_read_only_in_process [''update''])
           else if called = ''install_sdk_dry_run'' then
             bind_result (internal_mcp_install_sdk_args host home obj True)
               (\<lambda>argv. map_sum (\<lambda>e. e) InProcess (run_rocm_read_only_in_process argv))
           else if called = ''proposal_action'' then proposal_effect obj
           else if called \<in> {''install_sdk'', ''install_engine'', ''launch_server'', ''stop_server'', ''watcher_enable'',
             ''watcher_disable''}
           then map_sum (\<lambda>e. e) Child (required called (rocm_chat_tool_requested_args host home call))
           else Inl (UnsupportedTool called))))"

definition run_chat_read_only_tool ::
  "runtime_platform \<Rightarrow> string option \<Rightarrow> chat_tool_call \<Rightarrow> tool_error + tool_effect" where
  "run_chat_read_only_tool host home call =
     (let called = ct_name call in
      if called = ''path_exists'' then
        with_object call (\<lambda>obj. map_sum (\<lambda>e. e) (\<lambda>_. Report called obj) (required ''path'' (json_string obj ''path'')))
      else if called = ''port_status'' then
        with_object call (\<lambda>obj.
          map_sum (\<lambda>e. e) (\<lambda>_. Report called obj) (required ''port'' (Option.bind (map_of obj ''port'') as_u64_json)))
      else if called = ''rocm_command'' then
        (case chat_rocm_command_action host home call of
           Inl e \<Rightarrow> Inl e
         | Inr (ReadOnly argv) \<Rightarrow> map_sum (\<lambda>e. e) InProcess (run_rocm_read_only_in_process argv)
         | Inr (Approval _ _ _) \<Rightarrow> Inl (NeedsMutation called))
      else if called = ''update_check''
      then map_sum (\<lambda>e. e) InProcess (run_rocm_read_only_in_process [''update''])
      else if called = ''install_sdk_dry_run'' then
        bind_result (internal_mcp_install_sdk_args host home (internal_mcp_arguments (ct_arguments call)) True)
          (\<lambda>argv. map_sum (\<lambda>e. e) InProcess (run_rocm_read_only_in_process argv))
      else run_internal_mcp_call host home called (ct_arguments call) False)"

section \<open>The seam to the dashboard\<close>

text \<open>The card the operator decides on, and the call that is run when it is approved.\<close>

record approval_intent =
  ai_title :: string
  ai_heading :: string
  ai_command :: "scalar list option"
  ai_name :: string
  ai_arguments :: json

datatype tool_outcome = Result tool_effect | ApprovalRequired approval_intent | Failed tool_error

definition outcome_of :: "tool_error + tool_effect \<Rightarrow> tool_outcome" where
  "outcome_of r = (case r of Inl e \<Rightarrow> Failed e | Inr v \<Rightarrow> Result v)"

definition execute :: "runtime_platform \<Rightarrow> string option \<Rightarrow> string \<Rightarrow> json \<Rightarrow> tool_outcome" where
  "execute host home called args =
     (let call = \<lparr>ct_name = called, ct_arguments = args\<rparr> in
      case validate_chat_tool_call host home call of
        Inl e \<Rightarrow> Failed e
      | Inr _ \<Rightarrow>
          if chat_tool_call_is_read_only host home call
          then outcome_of (run_internal_mcp_call host home called args False)
          else (case chat_tool_approval_request host home call None of
                  Inl e \<Rightarrow> Failed e
                | Inr req \<Rightarrow>
                    ApprovalRequired \<lparr>ai_title = ap_pending_title req, ai_heading = ap_command_title req,
                      ai_command = ap_display req, ai_name = called, ai_arguments = args\<rparr>))"

definition execute_approved :: "runtime_platform \<Rightarrow> string option \<Rightarrow> string \<Rightarrow> json \<Rightarrow> tool_outcome" where
  "execute_approved host home called args = outcome_of (run_internal_mcp_call host home called args True)"

section \<open>The calls of one answer\<close>

text \<open>An install without a folder is put off; a call that only reads runs; of those that change
  something, the first becomes the request for approval. A refused call ends the answer.\<close>

definition asks_install_without_prefix :: "chat_tool_call \<Rightarrow> bool" where
  "asks_install_without_prefix call \<longleftrightarrow>
     (case as_object (ct_arguments call) of
        None \<Rightarrow> False
      | Some obj \<Rightarrow>
          if ct_name call = ''install_sdk'' then json_string obj ''prefix'' = None
          else if ct_name call = ''rocm_command'' then
            (case Option.bind (map_of obj ''args'') as_array of
               None \<Rightarrow> False
             | Some vs \<Rightarrow>
                 (let argv = List.map_filter as_str vs
                  in first_is argv ''install'' \<and> second_is argv ''sdk'' \<and> chat_cli_arg_value argv ''--prefix'' = None))
          else False)"

record turn =
  tn_effects :: "tool_effect list"
  tn_approval :: "approval_request option"
  tn_needs_folder :: bool

fun append_chat_tool_results ::
  "runtime_platform \<Rightarrow> string option \<Rightarrow> string option \<Rightarrow> chat_tool_call list \<Rightarrow> turn \<Rightarrow> (tool_error + unit) \<times> turn" where
  "append_chat_tool_results host home explanation [] t = (Inr (), t)"
| "append_chat_tool_results host home explanation (call # calls) t =
     (if asks_install_without_prefix call
      then append_chat_tool_results host home explanation calls (t\<lparr>tn_needs_folder := True\<rparr>)
      else case validate_chat_tool_call host home call of
        Inl e \<Rightarrow> (Inl e, t)
      | Inr _ \<Rightarrow>
          if chat_tool_call_is_read_only host home call
          then (case run_chat_read_only_tool host home call of
                  Inl e \<Rightarrow> (Inl e, t)
                | Inr eff \<Rightarrow>
                    append_chat_tool_results host home explanation calls (t\<lparr>tn_effects := tn_effects t @ [eff]\<rparr>))
          else (case tn_approval t of
                  Some _ \<Rightarrow> append_chat_tool_results host home explanation calls t
                | None \<Rightarrow>
                    (case chat_tool_approval_request host home call explanation of
                       Inl e \<Rightarrow> (Inl e, t)
                     | Inr req \<Rightarrow>
                         append_chat_tool_results host home explanation calls (t\<lparr>tn_approval := Some req\<rparr>))))"

section \<open>The daemon\<close>

fun daemon_arg :: "json \<Rightarrow> tool_error + string" where
  "daemon_arg v =
     (case as_str v of
        None \<Rightarrow> Inl ArgNotText
      | Some s \<Rightarrow>
          (let arg = trim s in
           if arg = [] then Inl ArgNotText
           else if list_ex (\<lambda>c. c = CHR 0x00 \<or> c = CHR 0x0A \<or> c = CHR 0x0D) arg then Inl ArgHasControl
           else if 512 < length arg then Inl ArgTooLong
           else Inr arg))"

fun daemon_args :: "json list \<Rightarrow> tool_error + string list" where
  "daemon_args [] = Inr []"
| "daemon_args (v # vs) = bind_result (daemon_arg v) (\<lambda>arg. bind_result (daemon_args vs) (\<lambda>args. Inr (arg # args)))"

definition comfy_alias :: "string list \<Rightarrow> string list" where
  "comfy_alias args =
     (case args of
        arg # rest \<Rightarrow> if eq_ignore_ascii_case arg ''comfy'' then ''comfyui'' # rest else args
      | [] \<Rightarrow> [])"

definition normalized_rocm_command_args :: "(string \<times> json) list \<Rightarrow> tool_error + string list" where
  "normalized_rocm_command_args obj =
     bind_result (required ''args'' (Option.bind (map_of obj ''args'') as_array)) (\<lambda>vs.
       seq (refuse_if (vs = [] \<or> 64 < length vs) ArgsCount)
         (bind_result (daemon_args vs) (\<lambda>args.
            let args = comfy_alias (drop_program_name args) in seq (refuse_if (args = []) ArgsEmpty) (Inr args))))"

definition ensure_rocm_command_is_read_only :: "string list \<Rightarrow> tool_error + unit" where
  "ensure_rocm_command_is_read_only args =
     (let second = second_word args;
          read_only =
            (case first_word args of
               None \<Rightarrow> False
             | Some first \<Rightarrow>
                 if first \<in> {''examine'', ''version'', ''model'', ''models'', ''daemon'', ''logs''} then True
                 else if first = ''update'' then ''--apply'' \<notin> set args
                 else if first = ''runtimes'' then
                   none_or [''list''] second \<or> (some_of [''uninstall'', ''remove''] second \<and> ''--dry-run'' \<in> set args)
                 else if first = ''engines'' then some_of [''list''] second
                 else if first = ''services'' then none_or [''list'', ''logs''] second
                 else if first = ''automations'' then none_or [''list''] second
                 else if first = ''config'' then some_of [''show''] second
                 else if first = ''comfyui'' then none_or [''status'', ''logs'', ''log''] second
                 else if first = ''uninstall'' then ''--dry-run'' \<in> set args
                 else if first = ''storage'' then none_or [''report''] second
                 else if first = ''setup'' then none_or [''status''] second
                 else if first = ''remote'' then some_of [''targets'', ''doctor'', ''status''] second
                 else False)
      in refuse_if (\<not> read_only) (NeedsMutation ''rocm_command''))"

definition raw_string :: "(string \<times> json) list \<Rightarrow> string \<Rightarrow> string option" where
  "raw_string obj key = Option.bind (map_of obj key) as_str"

definition given_or :: "string \<Rightarrow> string option \<Rightarrow> string" where
  "given_or d v = (case v of Some s \<Rightarrow> s | None \<Rightarrow> d)"

definition flag_value :: "string \<Rightarrow> string option \<Rightarrow> string list" where
  "flag_value flag v = (case v of Some s \<Rightarrow> [flag, s] | None \<Rightarrow> [])"

definition system_prefix_requires_ack :: "runtime_platform \<Rightarrow> string option \<Rightarrow> string \<Rightarrow> bool" where
  "system_prefix_requires_ack host home pre \<longleftrightarrow>
     (case home of Some h \<Rightarrow> \<not> runtime_path_is_same_or_inside host pre h | None \<Rightarrow> True)"

definition build_install_sdk_args ::
  "runtime_platform \<Rightarrow> string option \<Rightarrow> (string \<times> json) list \<Rightarrow> bool \<Rightarrow> tool_error + string list" where
  "build_install_sdk_args host home obj dry_run =
     (let version = raw_string obj ''version'';
          build_date = raw_string obj ''build_date''
      in seq (refuse_if (version \<noteq> None \<and> build_date \<noteq> None) BothSelectors)
        (seq (case raw_string obj ''prefix'' of
                None \<Rightarrow> Inr ()
              | Some pre \<Rightarrow>
                  refuse_if (system_prefix_requires_ack host home pre \<and> \<not> json_flag obj ''allow_system_prefix'')
                    (SystemPrefix pre))
          (seq (refuse_if (case version of Some v \<Rightarrow> trim v = [] | None \<Rightarrow> False) (GivenEmpty ''version''))
            (seq (refuse_if (case build_date of Some d \<Rightarrow> trim d = [] | None \<Rightarrow> False) (GivenEmpty ''build_date''))
              (Inr ([''install'', ''sdk'', ''--channel'', given_or ''release'' (raw_string obj ''channel''),
                     ''--format'', given_or ''wheel'' (raw_string obj ''format'')]
                @ flag_value ''--prefix'' (raw_string obj ''prefix'')
                @ flag_value ''--version'' version @ flag_value ''--build-date'' build_date
                @ (if dry_run then [''--dry-run''] else [''--approve-replacing-active-default''])))))))"

definition build_install_engine_args :: "(string \<times> json) list \<Rightarrow> tool_error + string list" where
  "build_install_engine_args obj =
     bind_result (required ''engine'' (raw_string obj ''engine'')) (\<lambda>engine.
       Inr ([''engines'', ''install'', engine, ''--runtime-id'',
             given_or ''therock-release'' (raw_string obj ''runtime_id'')]
         @ flag_value ''--python-version'' (raw_string obj ''python_version'')
         @ (if json_flag obj ''reinstall'' then [''--reinstall''] else [])))"

definition build_launch_server_args :: "(string \<times> json) list \<Rightarrow> tool_error + string list" where
  "build_launch_server_args obj =
     bind_result (required ''model'' (raw_string obj ''model'')) (\<lambda>model.
       let address = given_or DEFAULT_LOCAL_HOST (raw_string obj ''host'');
           allow_public_bind = json_flag obj ''allow_public_bind''
       in seq (refuse_if (\<not> is_loopback_host address \<and> \<not> allow_public_bind) (NonLocalHost address))
           (bind_result (launch_port_argument (map_of obj ''port'')) (\<lambda>port.
              seq (refuse_if (port = None \<and> \<not> is_canonical_loopback_host address) (NeedsPortFor address))
                (Inr ([''serve'', model, ''--managed'']
                  @ flag_value ''--engine'' (raw_string obj ''engine'')
                  @ flag_value ''--device'' (raw_string obj ''device'')
                  @ flag_value ''--runtime-id'' (raw_string obj ''runtime_id'')
                  @ flag_value ''--env-id'' (raw_string obj ''env_id'')
                  @ [''--host'', address]
                  @ (if allow_public_bind then [''--allow-public-bind''] else [])
                  @ (case port of Some p \<Rightarrow> [''--port'', show_nat (unat p)] | None \<Rightarrow> []))))))"

definition build_watcher_enable_args :: "(string \<times> json) list \<Rightarrow> tool_error + string list" where
  "build_watcher_enable_args obj =
     bind_result (required ''watcher'' (raw_string obj ''watcher'')) (\<lambda>watcher.
       Inr ([''automations'', ''enable'', watcher] @ flag_value ''--mode'' (raw_string obj ''mode'')))"

datatype daemon_effect =
    DReport string
  | DChild "string list"
  | DStop string
  | DUnknown string

definition mcp_tool_requires_direct_approval :: "string \<Rightarrow> bool" where
  "mcp_tool_requires_direct_approval called \<longleftrightarrow>
     called \<in> {''install_sdk'', ''install_engine'', ''launch_server'', ''stop_server'', ''watcher_enable'',
       ''watcher_disable''}"

definition ensure_direct_mcp_call_allowed :: "string \<Rightarrow> bool \<Rightarrow> tool_error + unit" where
  "ensure_direct_mcp_call_allowed called allow_mutation =
     refuse_if (mcp_tool_requires_direct_approval called \<and> \<not> allow_mutation) (NeedsMutation called)"

definition handle_mcp_tool_call ::
  "runtime_platform \<Rightarrow> string option \<Rightarrow> json \<Rightarrow> tool_error + daemon_effect" where
  "handle_mcp_tool_call host home params =
     (let called = given_or [] (Option.bind (json_get params ''name'') as_str);
          obj = (case Option.bind (json_get params ''arguments'') as_object of Some kvs \<Rightarrow> kvs | None \<Rightarrow> [])
      in if called = ''examine'' then Inr (DChild [''examine''])
         else if called \<in> {''bridge_snapshot'', ''gpu_snapshot'', ''engines'', ''services'', ''automations''}
         then Inr (DReport called)
         else if called = ''service_logs''
         then map_sum (\<lambda>e. e) (\<lambda>_. DReport called) (required ''service_id'' (raw_string obj ''service_id''))
         else if called = ''natural_language_plan''
         then map_sum (\<lambda>e. e) (\<lambda>request. DChild [request]) (required ''request'' (raw_string obj ''request''))
         else if called = ''rocm_command''
         then bind_result (normalized_rocm_command_args obj)
           (\<lambda>argv. seq (ensure_rocm_command_is_read_only argv) (Inr (DChild argv)))
         else if called = ''update_check'' then Inr (DChild [''update''])
         else if called = ''install_sdk_dry_run''
         then map_sum (\<lambda>e. e) DChild (build_install_sdk_args host home obj True)
         else if called = ''install_sdk'' then map_sum (\<lambda>e. e) DChild (build_install_sdk_args host home obj False)
         else if called = ''install_engine'' then map_sum (\<lambda>e. e) DChild (build_install_engine_args obj)
         else if called = ''launch_server'' then map_sum (\<lambda>e. e) DChild (build_launch_server_args obj)
         else if called = ''stop_server''
         then map_sum (\<lambda>e. e) DStop (required ''service_id'' (raw_string obj ''service_id''))
         else if called = ''watcher_enable'' then map_sum (\<lambda>e. e) DChild (build_watcher_enable_args obj)
         else if called = ''watcher_disable''
         then map_sum (\<lambda>e. e) (\<lambda>watcher. DChild [''automations'', ''disable'', watcher])
           (required ''watcher'' (raw_string obj ''watcher''))
         else Inr (DUnknown called))"

text \<open>\<^verbatim>\<open>rocmd mcp-call\<close>, which asks for the approval flag; a client of the MCP server asks its user.\<close>

definition mcp_call :: "runtime_platform \<Rightarrow> string option \<Rightarrow> string \<Rightarrow> json \<Rightarrow> bool \<Rightarrow> tool_error + daemon_effect" where
  "mcp_call host home called args allow_mutation =
     seq (refuse_if (as_object args = None) (NotAnObject called))
       (seq (ensure_direct_mcp_call_allowed called allow_mutation)
         (handle_mcp_tool_call host home (JObj [(''name'', JStr called), (''arguments'', args)])))"

end
