(* ===== verification/Tool_Properties.thy ===== *)
theory Tool_Properties
  imports Tool_Run
begin

text \<open>
  What the tool policy promises: the two read-only lists agree, nothing is changed without the
  operator, what is approved is what was shown (and where it is not), what a model may ask of
  \<^verbatim>\<open>serve\<close> and of an install.
\<close>

section \<open>Reading the checks back\<close>

named_theorems checks \<open>when a check passes\<close>

lemma refuse_if_Inr [simp, checks]: "refuse_if b e = Inr u \<longleftrightarrow> \<not> b"
  by (simp add: refuse_if_def)

lemma required_Inr [simp, checks]: "required key v = Inr x \<longleftrightarrow> v = Some x"
  by (simp add: required_def split: option.splits)

lemma with_object_Inr [checks]:
  "with_object call f = Inr x \<longleftrightarrow> (\<exists>obj. ct_arguments call = JObj obj \<and> f obj = Inr x)"
  by (cases "ct_arguments call") (simp_all add: with_object_def)

lemma as_object_Some [simp]: "as_object j = Some obj \<longleftrightarrow> j = JObj obj"
  by (cases j) auto

lemma map_sum_Inr [simp]: "map_sum f g r = Inr x \<longleftrightarrow> (\<exists>y. r = Inr y \<and> x = g y)"
  by (cases r) auto

lemma seq_Inr [checks]: "seq a b = Inr x \<longleftrightarrow> a = Inr () \<and> b = Inr x"
  by (cases a) auto

section \<open>The two read-only lists\<close>

lemma word_ci: "eq_ignore_ascii_case arg w \<longleftrightarrow> to_ascii_lowercase arg = to_ascii_lowercase w"
  by (simp add: eq_ignore_ascii_case_def)

lemma first_is_word: "to_ascii_lowercase w = w \<Longrightarrow> first_is args w \<longleftrightarrow> first_word args = Some w"
  by (cases args) (simp_all add: first_is_def first_word_def word_ci)

lemma second_is_word: "to_ascii_lowercase w = w \<Longrightarrow> second_is args w \<longleftrightarrow> second_word args = Some w"
  by (auto simp: second_is_def second_word_def word_ci split: list.splits)

lemma lower_words [simp]:
  "to_ascii_lowercase ''serve'' = ''serve''" "to_ascii_lowercase ''comfyui'' = ''comfyui''"
  "to_ascii_lowercase ''start'' = ''start''" "to_ascii_lowercase ''install'' = ''install''"
  "to_ascii_lowercase ''sdk'' = ''sdk''" "to_ascii_lowercase ''engine'' = ''engine''"
  "to_ascii_lowercase ''comfy'' = ''comfy''" "to_ascii_lowercase ''rocm'' = ''rocm''"
  by code_simp+

lemma canonical_form:
  "canonicalize_chat_rocm_command args =
     (if first_word args = Some ''engine'' then Inl UseEngines else Inr (comfy_alias args))"
  by (cases args) (auto simp: canonicalize_chat_rocm_command_def comfy_alias_def first_word_def word_ci)

lemma alias_not_engine: "first_word args \<noteq> Some ''engine'' \<longleftrightarrow> first_word (comfy_alias args) \<noteq> Some ''engine''"
  by (cases args) (auto simp: comfy_alias_def first_word_def word_ci)

text \<open>The daemon's list, as a condition on the first two words.\<close>

definition reads_only :: "string list \<Rightarrow> bool" where
  "reads_only args \<longleftrightarrow> ensure_rocm_command_is_read_only args = Inr ()"

lemmas read_only_defs = classify_rocm_command_def reads_only_def ensure_rocm_command_is_read_only_def some_of_def none_or_def
  Let_def

text \<open>One lemma for each word whose arguments decide.\<close>

lemma classify_update:
  assumes "first_word args = Some ''update''"
  shows "classify_rocm_command host args = Inr (ReadOnly a) \<longleftrightarrow> reads_only args \<and> args = a"
  using assms by (cases "second_word args") (auto simp: read_only_defs)

lemma classify_runtimes:
  assumes "first_word args = Some ''runtimes''"
  shows "classify_rocm_command host args = Inr (ReadOnly a) \<longleftrightarrow> reads_only args \<and> args = a"
  using assms by (cases "second_word args") (auto simp: read_only_defs)

lemma classify_engines:
  assumes "first_word args = Some ''engines''"
  shows "classify_rocm_command host args = Inr (ReadOnly a) \<longleftrightarrow> reads_only args \<and> args = a"
  using assms by (cases "second_word args") (auto simp: read_only_defs)

lemma classify_services:
  assumes "first_word args = Some ''services''"
  shows "classify_rocm_command host args = Inr (ReadOnly a) \<longleftrightarrow> reads_only args \<and> args = a"
  using assms by (cases "second_word args") (auto simp: read_only_defs)

lemma classify_automations:
  assumes "first_word args = Some ''automations''"
  shows "classify_rocm_command host args = Inr (ReadOnly a) \<longleftrightarrow> reads_only args \<and> args = a"
  using assms by (cases "second_word args") (auto simp: read_only_defs)

lemma classify_config:
  assumes "first_word args = Some ''config''"
  shows "classify_rocm_command host args = Inr (ReadOnly a) \<longleftrightarrow> reads_only args \<and> args = a"
  using assms by (cases "second_word args") (auto simp: read_only_defs)

lemma classify_comfyui:
  assumes "first_word args = Some ''comfyui''"
  shows "classify_rocm_command host args = Inr (ReadOnly a) \<longleftrightarrow> reads_only args \<and> args = a"
  using assms by (cases "second_word args") (auto simp: read_only_defs)

lemma classify_uninstall:
  assumes "first_word args = Some ''uninstall''"
  shows "classify_rocm_command host args = Inr (ReadOnly a) \<longleftrightarrow> reads_only args \<and> args = a"
  using assms by (cases "second_word args") (auto simp: read_only_defs)

lemma classify_storage:
  assumes "first_word args = Some ''storage''"
  shows "classify_rocm_command host args = Inr (ReadOnly a) \<longleftrightarrow> reads_only args \<and> args = a"
  using assms by (cases "second_word args") (auto simp: read_only_defs)

lemma classify_setup:
  assumes "first_word args = Some ''setup''"
  shows "classify_rocm_command host args = Inr (ReadOnly a) \<longleftrightarrow> reads_only args \<and> args = a"
  using assms by (cases "second_word args") (auto simp: read_only_defs)

lemma classify_remote:
  assumes "first_word args = Some ''remote''"
  shows "classify_rocm_command host args = Inr (ReadOnly a) \<longleftrightarrow> reads_only args \<and> args = a"
  using assms by (cases "second_word args") (auto simp: read_only_defs)

lemmas classify_listed = classify_update classify_runtimes classify_engines classify_services classify_automations classify_config classify_comfyui classify_uninstall classify_storage classify_setup classify_remote

lemma classify_install:
  assumes "first_word args = Some ''install''"
  shows "classify_rocm_command host args = Inr (ReadOnly a) \<longleftrightarrow>
      is_windows host \<and> second_word args = Some ''driver'' \<and> drop_yes args = a"
    and "\<not> reads_only args"
  using assms
  by (cases "second_word args"; auto simp: classify_rocm_command_def reads_only_def some_of_def Let_def
    ensure_rocm_command_is_read_only_def chat_install_driver_action_def install_driver_only_reports_on_def)+

lemma classify_always:
  assumes "first_word args = Some first" "first \<in> set [''examine'', ''version'', ''model'', ''models'', ''daemon'', ''logs'']"
  shows "classify_rocm_command host args = Inr (ReadOnly args)" "reads_only args"
  using assms by (simp_all add: classify_rocm_command_def reads_only_def ensure_rocm_command_is_read_only_def)

lemma classify_other:
  assumes "first_word args = Some first"
    and "first \<notin> set [''update'', ''runtimes'', ''engines'', ''services'', ''automations'', ''config'', ''comfyui'',
      ''uninstall'', ''storage'', ''setup'', ''remote'', ''install'', ''examine'', ''version'', ''model'', ''models'',
      ''daemon'', ''logs'']"
  shows "classify_rocm_command host args \<noteq> Inr (ReadOnly a)" "\<not> reads_only args"
  using assms by (simp_all add: classify_rocm_command_def reads_only_def ensure_rocm_command_is_read_only_def Let_def)

lemma classify_word:
  assumes "first_word args = Some first" "first \<noteq> ''install''"
  shows "classify_rocm_command host args = Inr (ReadOnly a) \<longleftrightarrow> reads_only args \<and> args = a"
proof (cases "first \<in> set [''examine'', ''version'', ''model'', ''models'', ''daemon'', ''logs'']")
  case True
  then show ?thesis
    using classify_always(1) [OF assms(1) True, of host] classify_always(2) [OF assms(1) True] by simp
next
  case n: False
  have listed: ?thesis if "first \<in> set [''update'', ''runtimes'', ''engines'', ''services'', ''automations'', ''config'',
      ''comfyui'', ''uninstall'', ''storage'', ''setup'', ''remote'']"
  proof -
    from that have "first = ''update'' \<or>
      first = ''runtimes'' \<or>
      first = ''engines'' \<or>
      first = ''services'' \<or>
      first = ''automations'' \<or>
      first = ''config'' \<or>
      first = ''comfyui'' \<or>
      first = ''uninstall'' \<or>
      first = ''storage'' \<or>
      first = ''setup'' \<or>
      first = ''remote''"
      by (simp only: list.set insert_iff empty_iff simp_thms)
    with assms(1) show ?thesis
      by (elim disjE) (hypsubst, erule classify_listed)+
  qed
  show ?thesis
  proof (cases "first \<in> set [''update'', ''runtimes'', ''engines'', ''services'', ''automations'', ''config'',
      ''comfyui'', ''uninstall'', ''storage'', ''setup'', ''remote'']")
    case True
    then show ?thesis by (rule listed)
  next
    case False
    with n assms(2) have out: "first \<notin> set [''update'', ''runtimes'', ''engines'', ''services'', ''automations'', ''config'', ''comfyui'',
      ''uninstall'', ''storage'', ''setup'', ''remote'', ''install'', ''examine'', ''version'', ''model'', ''models'',
      ''daemon'', ''logs'']" by simp
    show ?thesis using classify_other(1) [OF assms(1) out] classify_other(2) [OF assms(1) out] by simp
  qed
qed

lemma classify_reads_only:
  "classify_rocm_command host args = Inr (ReadOnly a) \<longleftrightarrow>
     reads_only args \<and> args = a \<or>
     is_windows host \<and> first_word args = Some ''install'' \<and> second_word args = Some ''driver'' \<and> drop_yes args = a"
proof (cases "first_word args")
  case None
  then show ?thesis
    by (simp add: classify_rocm_command_def reads_only_def ensure_rocm_command_is_read_only_def)
next
  case (Some first)
  show ?thesis
  proof (cases "first = ''install''")
    case True
    then show ?thesis using classify_install(1) [of args host a] classify_install(2) [of args] Some by simp
  next
    case False
    then show ?thesis using classify_word [OF Some False, of host a] Some by simp
  qed
qed

lemma lower_driver [simp]: "to_ascii_lowercase ''driver'' = ''driver''"
  by code_simp

lemma serve_not_read: "first_word args = Some ''serve'' \<Longrightarrow> \<not> reads_only args"
  by (simp add: reads_only_def ensure_rocm_command_is_read_only_def)

lemma install_not_read: "first_word args = Some ''install'' \<Longrightarrow> \<not> reads_only args"
  by (simp add: reads_only_def ensure_rocm_command_is_read_only_def)

lemma engine_not_read: "first_word args = Some ''engine'' \<Longrightarrow> \<not> reads_only args"
  by (simp add: reads_only_def ensure_rocm_command_is_read_only_def)

lemma comfy_start_not_read:
  "first_word args = Some ''comfyui'' \<Longrightarrow> second_word args = Some ''start'' \<Longrightarrow> \<not> reads_only args"
  by (simp add: reads_only_def ensure_rocm_command_is_read_only_def none_or_def)

text \<open>No rule on a value stands in the way of a command that only reads.\<close>

lemma safe_when_reads:
  assumes "reads_only args \<or> first_word args = Some ''install'' \<and> second_word args = Some ''driver''"
  shows "validate_chat_rocm_command_safety host home args = Inr ()"
proof -
  have "first_word args \<noteq> Some ''serve''" using assms serve_not_read [of args] by auto
  moreover have "\<not> (first_word args = Some ''comfyui'' \<and> second_word args = Some ''start'')"
    using assms comfy_start_not_read [of args] by auto
  moreover have "\<not> (first_word args = Some ''install'' \<and> second_word args = Some ''sdk'')"
    using assms install_not_read [of args] by auto
  ultimately show ?thesis
    by (auto simp: validate_chat_rocm_command_safety_def first_is_word second_is_word)
qed

lemma alias_install: "first_word (comfy_alias args) = Some ''install'' \<longleftrightarrow> first_word args = Some ''install''"
  by (cases args) (auto simp: comfy_alias_def first_word_def word_ci)

lemma alias_kept: "first_word args = Some ''install'' \<Longrightarrow> comfy_alias args = args"
  by (cases args) (auto simp: comfy_alias_def first_word_def word_ci)

lemma action_reads_only:
  "chat_rocm_command_action_from_args host home args = Inr (ReadOnly a) \<longleftrightarrow>
     reads_only (comfy_alias args) \<and> a = comfy_alias args \<or>
     is_windows host \<and> first_is args ''install'' \<and> second_is args ''driver'' \<and> a = drop_yes args"
proof (cases "first_word args = Some ''engine''")
  case True
  then have "first_word (comfy_alias args) = Some ''engine''"
    by (cases args) (auto simp: comfy_alias_def first_word_def word_ci)
  then show ?thesis
    using True by (simp add: chat_rocm_command_action_from_args_def canonical_form engine_not_read first_is_word)
next
  case False
  have "chat_rocm_command_action_from_args host home args = Inr (ReadOnly a) \<longleftrightarrow>
      validate_chat_rocm_command_safety host home (comfy_alias args) = Inr () \<and>
      classify_rocm_command host (comfy_alias args) = Inr (ReadOnly a)"
    using False by (simp add: chat_rocm_command_action_from_args_def canonical_form seq_Inr)
  also have "\<dots> \<longleftrightarrow> classify_rocm_command host (comfy_alias args) = Inr (ReadOnly a)"
    using safe_when_reads by (auto simp: classify_reads_only)
  finally show ?thesis
    by (auto simp: classify_reads_only first_is_word second_is_word alias_install alias_kept)
qed

text \<open>C30. The two lists of commands that only read are one. A command line is run at once by the
  assistant exactly if the daemon's own list accepts it, with the same words, up to the one
  exception on Windows: there \<^verbatim>\<open>install driver\<close> only reports, and it is run without any \<^verbatim>\<open>--yes\<close>.
  No command on the list is refused for one of its values.\<close>

theorem read_only_surfaces_agree:
  "chat_rocm_command_action_from_args host home args = Inr (ReadOnly a) \<longleftrightarrow>
     ensure_rocm_command_is_read_only (comfy_alias args) = Inr () \<and> a = comfy_alias args \<or>
     is_windows host \<and> first_is args ''install'' \<and> second_is args ''driver'' \<and> a = drop_yes args"
  by (rule action_reads_only [unfolded reads_only_def])

section \<open>Nothing without the operator\<close>

fun changes_nothing :: "tool_effect \<Rightarrow> bool" where
  "changes_nothing (Child argv) \<longleftrightarrow> False"
| "changes_nothing (SetProposalStatus p s) \<longleftrightarrow> False"
| "changes_nothing _ \<longleftrightarrow> True"

definition mutating_tools :: "string set" where
  "mutating_tools = {''install_sdk'', ''install_engine'', ''launch_server'', ''stop_server'', ''watcher_enable'',
     ''watcher_disable''}"

lemma titles_mutating: "approval_titles called = Some x \<Longrightarrow> called \<in> mutating_tools"
  by (auto simp: approval_titles_def mutating_tools_def split: if_splits)

lemma mutating_not_read_only:
  "called \<in> mutating_tools \<Longrightarrow> \<not> chat_tool_call_is_read_only host home \<lparr>ct_name = called, ct_arguments = v\<rparr>"
  by (auto simp: mutating_tools_def chat_tool_call_is_read_only_def)

lemma proposal_effect_show:
  "proposal_effect obj = Inr eff \<Longrightarrow> json_string obj ''action'' = Some ''show'' \<Longrightarrow> changes_nothing eff"
  by (auto simp: proposal_effect_def)

lemma in_process_changes_nothing: "map_sum (\<lambda>e. e) InProcess r = Inr eff \<Longrightarrow> changes_nothing eff"
  by auto

text \<open>The body behind the two checks of a run, one lemma for each kind of tool.\<close>

lemma if_Inr_cases:
  "(if b then x else y) = Inr eff \<Longrightarrow> (x = Inr eff \<Longrightarrow> R) \<Longrightarrow> (y = Inr eff \<Longrightarrow> R) \<Longrightarrow> R"
  by (cases b) simp_all

lemma run_checks:
  assumes "run_internal_mcp_call host home called args allow = Inr eff"
  shows "validate_chat_tool_call host home
      \<lparr>ct_name = called, ct_arguments = JObj (internal_mcp_arguments args)\<rparr> = Inr ()"
    and "chat_tool_call_is_read_only host home
      \<lparr>ct_name = called, ct_arguments = JObj (internal_mcp_arguments args)\<rparr> \<or> allow"
  using assms by (simp_all add: run_internal_mcp_call_def seq_Inr Let_def)

lemma read_only_rocm_command:
  "chat_tool_call_is_read_only host home \<lparr>ct_name = ''rocm_command'', ct_arguments = v\<rparr> \<longleftrightarrow>
     (\<exists>argv. chat_rocm_command_action host home \<lparr>ct_name = ''rocm_command'', ct_arguments = v\<rparr> = Inr (ReadOnly argv))"
  by (simp add: chat_tool_call_is_read_only_def split: sum.splits rocm_command_action.splits)

lemma read_only_proposal:
  "chat_tool_call_is_read_only host home \<lparr>ct_name = ''proposal_action'', ct_arguments = JObj obj\<rparr> \<longleftrightarrow>
     json_string obj ''action'' = Some ''show''"
  by (simp add: chat_tool_call_is_read_only_def)

lemma run_rocm_command:
  "run_internal_mcp_call host home ''rocm_command'' args allow = Inr eff \<longleftrightarrow>
     (let call = \<lparr>ct_name = ''rocm_command'', ct_arguments = JObj (internal_mcp_arguments args)\<rparr> in
        validate_chat_tool_call host home call = Inr () \<and>
        ((\<exists>argv r. chat_rocm_command_action host home call = Inr (ReadOnly argv) \<and>
            run_rocm_read_only_in_process argv = Inr r \<and> eff = InProcess r) \<or>
         (\<exists>argv c h. chat_rocm_command_action host home call = Inr (Approval argv c h) \<and> allow \<and> eff = Child argv)))"
  by (simp add: run_internal_mcp_call_def seq_Inr Let_def read_only_rocm_command)
    (auto split: sum.splits rocm_command_action.splits)

lemma run_proposal_action:
  "run_internal_mcp_call host home ''proposal_action'' args allow = Inr eff \<longleftrightarrow>
     (let obj = internal_mcp_arguments args; call = \<lparr>ct_name = ''proposal_action'', ct_arguments = JObj obj\<rparr> in
        validate_chat_tool_call host home call = Inr () \<and>
        (json_string obj ''action'' = Some ''show'' \<or> allow) \<and> proposal_effect obj = Inr eff)"
  by (simp add: run_internal_mcp_call_def seq_Inr Let_def read_only_proposal)

lemma run_mutating:
  assumes "called \<in> mutating_tools"
  shows "run_internal_mcp_call host home called args allow = Inr eff \<longleftrightarrow>
     (let call = \<lparr>ct_name = called, ct_arguments = JObj (internal_mcp_arguments args)\<rparr> in
        validate_chat_tool_call host home call = Inr () \<and> allow \<and>
        (\<exists>argv. rocm_chat_tool_requested_args host home call = Some argv \<and> eff = Child argv))"
proof -
  let ?call = "\<lparr>ct_name = called, ct_arguments = JObj (internal_mcp_arguments args)\<rparr>"
  have six: "called \<in> {''install_sdk'', ''install_engine'', ''launch_server'', ''stop_server'',
      ''watcher_enable'', ''watcher_disable''}"
    using assms by (simp only: mutating_tools_def)
  have apart: "called \<notin> {''examine'', ''doctor'', ''bridge_snapshot'', ''gpu_snapshot'', ''engines'', ''services'',
      ''port_status'', ''service_logs'', ''automations'', ''natural_language_plan'', ''path_exists''}"
    "called \<noteq> ''rocm_command''" "called \<noteq> ''update_check''" "called \<noteq> ''install_sdk_dry_run''"
    "called \<noteq> ''proposal_action''"
    using assms by (auto simp: mutating_tools_def)
  have "run_internal_mcp_call host home called args allow = Inr eff \<longleftrightarrow>
      validate_chat_tool_call host home ?call = Inr () \<and> (chat_tool_call_is_read_only host home ?call \<or> allow) \<and>
      map_sum (\<lambda>e. e) Child (required called (rocm_chat_tool_requested_args host home ?call)) = Inr eff"
    unfolding run_internal_mcp_call_def Let_def seq_Inr refuse_if_Inr
    by (simp only: six apart if_True if_False de_Morgan_conj not_not)
  then show ?thesis
    using mutating_not_read_only [OF assms, of host home] by (auto simp: Let_def)
qed

lemma run_reporting:
  assumes run: "run_internal_mcp_call host home called args allow = Inr eff"
    and "called \<noteq> ''rocm_command''" "called \<noteq> ''proposal_action''" "called \<notin> mutating_tools"
  shows "changes_nothing eff"
proof -
  have six: "called \<notin> {''install_sdk'', ''install_engine'', ''launch_server'', ''stop_server'',
      ''watcher_enable'', ''watcher_disable''}"
    using assms(4) by (simp only: mutating_tools_def not_False_eq_True)
  from run show ?thesis
    unfolding run_internal_mcp_call_def Let_def seq_Inr
    by (simp only: six assms(2,3) if_False) (elim conjE if_Inr_cases; auto)
qed

lemma run_without_mutation:
  assumes run: "run_internal_mcp_call host home called args False = Inr eff"
  shows "changes_nothing eff"
proof (cases "called \<in> mutating_tools")
  case True
  then show ?thesis using run by (simp add: run_mutating Let_def)
next
  case six: False
  show ?thesis
  proof (cases "called = ''rocm_command''")
    case True
    then show ?thesis using run run_rocm_command [of host home args False eff] by (auto simp: Let_def)
  next
    case rc: False
    show ?thesis
    proof (cases "called = ''proposal_action''")
      case True
      then have "proposal_effect (internal_mcp_arguments args) = Inr eff"
        "json_string (internal_mcp_arguments args) ''action'' = Some ''show''"
        using run run_proposal_action [of host home args False eff] by (auto simp: Let_def)
      then show ?thesis by (rule proposal_effect_show)
    next
      case False
      show ?thesis using run rc False six by (rule run_reporting)
    qed
  qed
qed

text \<open>The loop over the calls of one answer.\<close>

lemma read_only_tool_changes_nothing:
  assumes "run_chat_read_only_tool host home call = Inr eff"
  shows "changes_nothing eff"
  using assms unfolding run_chat_read_only_tool_def Let_def
  by (elim if_Inr_cases) (auto simp: with_object_Inr split: sum.splits rocm_command_action.splits
    intro: run_without_mutation)

definition turn_ok :: "(approval_request \<Rightarrow> bool) \<Rightarrow> turn \<Rightarrow> bool" where
  "turn_ok ok t \<longleftrightarrow> list_all changes_nothing (tn_effects t) \<and> pred_option ok (tn_approval t)"

lemma turn_ok_updates [simp]:
  "turn_ok ok (t\<lparr>tn_needs_folder := b\<rparr>) \<longleftrightarrow> turn_ok ok t"
  "turn_ok ok (t\<lparr>tn_effects := tn_effects t @ [eff]\<rparr>) \<longleftrightarrow> turn_ok ok t \<and> changes_nothing eff"
  "turn_ok ok (t\<lparr>tn_approval := Some req\<rparr>) \<longleftrightarrow> list_all changes_nothing (tn_effects t) \<and> ok req"
  by (auto simp: turn_ok_def)

lemma turn_keeps_promises:
  assumes "append_chat_tool_results host home explanation calls t = (r, t')" and "turn_ok ok t"
    and "\<And>call req. call \<in> set calls \<Longrightarrow> \<not> chat_tool_call_is_read_only host home call \<Longrightarrow>
      chat_tool_approval_request host home call explanation = Inr req \<Longrightarrow> ok req"
  shows "turn_ok ok t'"
  using assms
proof (induction calls arbitrary: t)
  case Nil
  then show ?case by simp
next
  case (Cons call calls)
  have later: "turn_ok ok t'"
    if "append_chat_tool_results host home explanation calls s = (r, t')" "turn_ok ok s" for s
    by (rule Cons.IH [OF that], rule Cons.prems(3), simp_all)
  note reported = later [OF _ turn_ok_updates(2) [THEN iffD2, OF conjI, OF Cons.prems(2)]]
  have effects: "list_all changes_nothing (tn_effects t)" using Cons.prems(2) by (simp add: turn_ok_def)
  note asked = later [OF _ turn_ok_updates(3) [THEN iffD2, OF conjI, OF effects]]
  show ?case
    using Cons.prems(1,2) Cons.prems(3) [of call]
    by (auto split: if_splits sum.splits option.splits intro: later reported asked dest: read_only_tool_changes_nothing)
qed

end
