(* ===== verification/Tool_Approval.thy ===== *)
theory Tool_Approval
  imports Tool_Properties
begin

text \<open>
  From the card the operator sees to the call that runs once it is approved: the line on the card is
  the argv of the child, word for word and safe to print, except where the arguments of the call
  hold arguments of their own.
\<close>

section \<open>The line on the card\<close>

abbreviation (input) disturbs :: "scalar \<Rightarrow> bool" where
  "disturbs c \<equiv> is_control_or_format c \<or> is_control_or_line_separator c"

definition plain :: "string \<Rightarrow> bool" where
  "plain s \<longleftrightarrow> list_all (\<lambda>c. 32 \<le> (of_char c :: nat) \<and> (of_char c :: nat) < 127) s"

lemma plain_chars: "plain s \<Longrightarrow> chars_of s = map of_char s"
  by (rule chars_of_ascii) (auto simp: plain_def list_all_iff)

lemma printable: "32 \<le> c \<Longrightarrow> c < 127 \<Longrightarrow> \<not> disturbs c"
  by (simp add: is_control_or_format_def is_control_or_line_separator_def is_control_def between_def)

lemma plain_clean: "plain s \<Longrightarrow> \<not> shows_control s"
  by (auto simp: shows_control_def plain_chars has_terminal_control_character_def list_ex_iff plain_def list_all_iff
    dest: printable)

lemma chars_of_append: "plain p \<Longrightarrow> chars_of (p @ s) = map of_char p @ chars_of s"
  by (induction p) (simp_all add: plain_def chars_of.simps(2) next_char_def)

lemma clean_iff: "\<not> has_terminal_control_character v \<longleftrightarrow> (\<forall>c \<in> set v. \<not> disturbs c)"
  by (auto simp: has_terminal_control_character_def list_ex_iff)

lemma set_join: "set (join sep vs) \<subseteq> set sep \<union> (\<Union>v \<in> set vs. set v)"
  by (induction sep vs rule: join.induct) auto

lemma set_shell_quote: "set (shell_quote v) \<subseteq> {39, 92} \<union> set v"
  by (auto simp: shell_quote_def posix_shell_quote_def replace_quote_def split: if_splits)

lemma rocm_chars: "chars_of ''rocm'' = [114, 111, 99, 109]"
  by (simp add: plain_chars plain_def)

lemma rocm_quoted: "shell_quote (chars_of ''rocm'') = chars_of ''rocm''"
  unfolding rocm_chars by (simp add: shell_quote_def posix_shell_quote_def inert_def ascii_alphanumeric_def between_def)

lemma line_quotes: "format_structured_tool_call ''rocm'' argv = join [32] (map shell_quote (map chars_of (''rocm'' # argv)))"
  by (simp add: format_structured_tool_call_def rocm_quoted comp_def)

lemma line_reads_back: "sh_words (format_structured_tool_call ''rocm'' argv) = Some (map chars_of (''rocm'' # argv))"
proof -
  have "shell_quote = posix_shell_quote" by (simp add: fun_eq_iff shell_quote_def)
  then show ?thesis unfolding line_quotes by (simp only: posix.argv_roundtrip)
qed

lemma quoted_clean: "\<not> has_terminal_control_character v \<Longrightarrow> \<not> has_terminal_control_character (shell_quote v)"
proof -
  assume v: "\<not> has_terminal_control_character v"
  have "\<not> disturbs 39" "\<not> disturbs 92" by (rule printable; simp)+
  with v show ?thesis unfolding clean_iff using set_shell_quote [of v] by blast
qed

lemma joined_clean:
  assumes "\<forall>v \<in> set vs. \<not> has_terminal_control_character v"
  shows "\<not> has_terminal_control_character (join [32] vs)"
proof -
  have "\<not> disturbs 32" by (rule printable; simp)
  with assms show ?thesis unfolding clean_iff using set_join [of "[32]" vs] by force
qed

lemma rocm_clean: "\<not> has_terminal_control_character (chars_of ''rocm'')"
  using plain_clean [of "''rocm''"] by (simp add: shows_control_def plain_def)

lemma line_clean:
  assumes "\<forall>arg \<in> set argv. \<not> shows_control arg"
  shows "\<not> has_terminal_control_character (format_structured_tool_call ''rocm'' argv)"
  unfolding line_quotes
proof (rule joined_clean, rule ballI)
  fix q assume "q \<in> set (map shell_quote (map chars_of (''rocm'' # argv)))"
  then obtain arg where "arg = ''rocm'' \<or> arg \<in> set argv" "q = shell_quote (chars_of arg)" by auto
  moreover from this have "\<not> has_terminal_control_character (chars_of arg)"
    using assms rocm_clean by (auto simp: shows_control_def)
  ultimately show "\<not> has_terminal_control_character q" by (simp add: quoted_clean)
qed

section \<open>The argv on the card\<close>

lemma map_of_clean: "\<not> carries_control (JObj obj) \<Longrightarrow> map_of obj key = Some v \<Longrightarrow> \<not> carries_control v"
  using map_of_SomeD [of obj key v] by (auto simp: list_ex_iff)

lemma as_str_Some [simp]: "as_str v = Some s \<longleftrightarrow> v = JStr s"
  by (cases v) auto

lemma json_string_clean:
  assumes "\<not> carries_control (JObj obj)" "json_string obj key = Some s"
  shows "\<not> shows_control s"
proof -
  from assms(2) have "map_of obj key = Some (JStr s)"
    by (auto simp: json_string_def bind_eq_Some_conv split: option.splits if_splits)
  from map_of_clean [OF assms(1) this] show ?thesis by simp
qed

definition clean_args :: "string list \<Rightarrow> bool" where
  "clean_args argv \<longleftrightarrow> (\<forall>arg \<in> set argv. \<not> shows_control arg)"

lemma clean_args_simps [simp]:
  "clean_args []" "clean_args (arg # argv) \<longleftrightarrow> \<not> shows_control arg \<and> clean_args argv"
  "clean_args (a @ b) \<longleftrightarrow> clean_args a \<and> clean_args b"
  by (auto simp: clean_args_def)

lemma push_clean:
  "\<not> carries_control (JObj obj) \<Longrightarrow> \<not> shows_control flag \<Longrightarrow>
     clean_args (push_optional_json_cli_arg obj flag key args) \<longleftrightarrow> clean_args args"
  using json_string_clean [of obj key]
  by (auto simp: push_optional_json_cli_arg_def split: option.splits)

lemma show_nat_clean: "\<not> shows_control (show_nat n)"
proof (rule plain_clean)
  show "plain (show_nat n)"
    using show_nat_digits [of n] by (auto simp: plain_def list_all_iff is_ascii_digit_def less_eq_char_def)
qed

lemma flags_clean:
  "\<forall>w \<in> set [''install'', ''sdk'', ''--channel'', ''release'', ''--format'', ''wheel'', ''--approve-replacing-active-default'',
     ''--prefix'', ''--version'', ''--build-date'', ''engines'', ''--runtime-id'', ''--python-version'', ''--reinstall'',
     ''serve'', ''--managed'', ''--engine'', ''--device'', ''--env-id'', ''--host'', ''--port'', ''services'', ''stop'',
     ''--yes'', ''automations'', ''enable'', ''disable'', ''--mode'']. \<not> shows_control w"
proof -
  have "list_all plain [''install'', ''sdk'', ''--channel'', ''release'', ''--format'', ''wheel'', ''--approve-replacing-active-default'',
     ''--prefix'', ''--version'', ''--build-date'', ''engines'', ''--runtime-id'', ''--python-version'', ''--reinstall'',
     ''serve'', ''--managed'', ''--engine'', ''--device'', ''--env-id'', ''--host'', ''--port'', ''services'', ''stop'',
     ''--yes'', ''automations'', ''enable'', ''disable'', ''--mode'']"
    by code_simp
  then show ?thesis unfolding list_all_iff by (intro ballI plain_clean) (erule bspec)
qed

lemma requested_cases:
  "(if b then x else y) = Some r \<Longrightarrow> (x = Some r \<Longrightarrow> R) \<Longrightarrow> (y = Some r \<Longrightarrow> R) \<Longrightarrow> R"
  by (cases b) simp_all

lemma requested_clean:
  assumes "ct_arguments call = JObj obj" "\<not> carries_control (JObj obj)" "ct_name call \<noteq> ''rocm_command''"
    and "rocm_chat_tool_requested_args host home call = Some argv"
  shows "clean_args argv"
proof -
  note clean = push_clean [OF assms(2)]
  note words = json_string_clean [OF assms(2)]
  have flags: "\<not> shows_control w" if "w \<in> set [''install'', ''sdk'', ''--channel'', ''release'', ''--format'', ''wheel'',
     ''--approve-replacing-active-default'', ''--prefix'', ''--version'', ''--build-date'', ''engines'', ''--runtime-id'',
     ''--python-version'', ''--reinstall'', ''serve'', ''--managed'', ''--engine'', ''--device'', ''--env-id'', ''--host'',
     ''--port'', ''services'', ''stop'', ''--yes'', ''automations'', ''enable'', ''disable'', ''--mode'']" for w
    using flags_clean that by (rule bspec)
  from assms(4) show ?thesis
    unfolding rocm_chat_tool_requested_args_def Let_def assms(1) as_object.simps bind.bind_lunit
    by (simp only: assms(3) if_False)
      (elim requested_cases; auto simp: flags show_nat_clean clean split: option.splits dest: words)
qed

text \<open>A command line of the model has been screened word by word.\<close>

lemma checked_arg_clean: "checked_arg v = Inr arg \<Longrightarrow> \<not> shows_control arg"
  by (auto simp: Let_def split: option.splits if_splits)

lemma checked_args_clean: "checked_args vs = Inr args \<Longrightarrow> clean_args args"
  by (induction vs arbitrary: args) (auto simp del: checked_arg.simps dest: checked_arg_clean)

lemma drop_program_clean: "clean_args args \<Longrightarrow> clean_args (drop_program_name args)"
  by (cases args) (auto simp: drop_program_name_def)

lemma normalized_clean: "normalized_chat_rocm_command_args call = Inr args \<Longrightarrow> clean_args args"
  by (auto simp: normalized_chat_rocm_command_args_def with_object_Inr seq_Inr Let_def
    dest!: checked_args_clean intro: drop_program_clean)

lemma alias_clean: "clean_args args \<Longrightarrow> clean_args (comfy_alias args)"
proof (cases args)
  case (Cons arg rest)
  have "\<not> shows_control ''comfyui''" by (rule plain_clean) code_simp
  moreover assume "clean_args args"
  ultimately show ?thesis using Cons by (simp add: comfy_alias_def)
qed (simp add: comfy_alias_def)

lemma ensure_clean: "clean_args args \<Longrightarrow> \<not> shows_control flag \<Longrightarrow> clean_args (ensure_flag args flag)"
  by (simp add: ensure_flag_def)

lemma drop_yes_clean: "clean_args args \<Longrightarrow> clean_args (drop_yes args)"
  by (auto simp: clean_args_def drop_yes_def)

lemma consent_flags_clean: "\<not> shows_control ''--yes''" "\<not> shows_control ''--approve-replacing-active-default''"
  by (rule plain_clean, code_simp)+

lemma consent_clean: "clean_args args \<Longrightarrow> clean_args (install_sdk_consent args)"
  by (simp add: install_sdk_consent_def Let_def drop_yes_clean ensure_clean consent_flags_clean)

fun action_args :: "rocm_command_action \<Rightarrow> string list" where
  "action_args (ReadOnly args) = args"
| "action_args (Approval args caption heading) = args"

lemma driver_clean: "clean_args args \<Longrightarrow> clean_args (action_args (chat_install_driver_action args b))"
  by (simp add: chat_install_driver_action_def Let_def drop_yes_clean ensure_clean consent_flags_clean)

lemma classify_clean:
  assumes "clean_args args" "classify_rocm_command host args = Inr act"
  shows "clean_args (action_args act)"
proof (cases "first_word args")
  case None
  then show ?thesis using assms(2) by (simp add: classify_rocm_command_def)
next
  case (Some first)
  note kept = assms(1) ensure_clean [OF assms(1) consent_flags_clean(1)] consent_clean [OF assms(1)] driver_clean [OF assms(1)]
  from assms(2) show ?thesis
    unfolding classify_rocm_command_def Let_def Some option.case
    by (elim if_Inr_cases) (auto simp: kept)
qed

lemma action_clean:
  assumes "chat_rocm_command_action host home call = Inr act"
  shows "clean_args (action_args act)"
proof -
  from assms obtain args where args: "normalized_chat_rocm_command_args call = Inr args"
    and act: "chat_rocm_command_action_from_args host home args = Inr act"
    by (auto simp: chat_rocm_command_action_def)
  from act have "classify_rocm_command host (comfy_alias args) = Inr act"
    by (auto simp: chat_rocm_command_action_from_args_def canonical_form seq_Inr split: if_splits)
  then show ?thesis using classify_clean alias_clean normalized_clean [OF args] by blast
qed

section \<open>From the card to the run\<close>

lemma validated:
  assumes "validate_chat_tool_call host home call = Inr ()"
  obtains obj where "ct_arguments call = JObj obj"
    and "ct_name call = ''rocm_command'' \<or> \<not> carries_control (JObj obj)"
proof -
  from assms have "as_object (ct_arguments call) \<noteq> None"
    and screened: "reject_control_characters_in_tool_arguments (ct_name call) (ct_arguments call) = Inr ()"
    by (simp_all add: validate_chat_tool_call_def seq_Inr)
  then obtain obj where obj: "ct_arguments call = JObj obj" by auto
  moreover have "ct_name call = ''rocm_command'' \<or> \<not> carries_control (JObj obj)"
    using screened unfolding obj
    by (auto simp: reject_control_characters_in_tool_arguments_def CHAT_TOOLS_SCREENING_THEIR_OWN_ARGUMENTS_def
      simp del: carries_control.simps)
  ultimately show ?thesis by (rule that)
qed

text \<open>The card of a command: its line is that of the argv the same call asks for.\<close>

lemma command_card:
  assumes req: "chat_tool_approval_request host home call explanation = Inr req"
    and name: "ct_name call \<noteq> ''proposal_action''"
  shows "clean_args (ap_args req)" and "ap_display req = Some (format_structured_tool_call ''rocm'' (ap_args req))"
    and "ct_name call = ''rocm_command'' \<and> (\<exists>c h. chat_rocm_command_action host home call = Inr (Approval (ap_args req) c h)) \<or>
      ct_name call \<in> mutating_tools \<and> rocm_chat_tool_requested_args host home call = Some (ap_args req)"
proof -
  from req have valid: "validate_chat_tool_call host home call = Inr ()"
    by (simp add: chat_tool_approval_request_def seq_Inr)
  have "clean_args (ap_args req) \<and> ap_display req = Some (format_structured_tool_call ''rocm'' (ap_args req)) \<and>
    (ct_name call = ''rocm_command'' \<and> (\<exists>c h. chat_rocm_command_action host home call = Inr (Approval (ap_args req) c h)) \<or>
      ct_name call \<in> mutating_tools \<and> rocm_chat_tool_requested_args host home call = Some (ap_args req))"
  proof (cases "ct_name call = ''rocm_command''")
    case True
    then obtain args c h where act: "chat_rocm_command_action host home call = Inr (Approval args c h)"
      and "ap_args req = args" "ap_display req = Some (format_structured_tool_call ''rocm'' args)"
      using req by (auto simp: chat_tool_approval_request_def seq_Inr split: sum.splits rocm_command_action.splits)
    then show ?thesis using True action_clean [OF act] by auto
  next
    case False
    from req False name obtain x where titles: "approval_titles (ct_name call) = Some x"
      and args: "rocm_chat_tool_requested_args host home call = Some (ap_args req)"
      and line: "ap_display req = rocm_chat_tool_requested_command host home call"
      by (auto simp: chat_tool_approval_request_def seq_Inr split: option.splits)
    obtain obj where obj: "ct_arguments call = JObj obj" "\<not> carries_control (JObj obj)"
      using validated [OF valid] False by metis
    show ?thesis
      using requested_clean [OF obj False args] line args titles_mutating [OF titles]
      by (simp add: rocm_chat_tool_requested_command_def)
  qed
  then show "clean_args (ap_args req)" "ap_display req = Some (format_structured_tool_call ''rocm'' (ap_args req))"
    "ct_name call = ''rocm_command'' \<and> (\<exists>c h. chat_rocm_command_action host home call = Inr (Approval (ap_args req) c h)) \<or>
      ct_name call \<in> mutating_tools \<and> rocm_chat_tool_requested_args host home call = Some (ap_args req)" by simp_all
qed

text \<open>Arguments without an object under \<^verbatim>\<open>arguments\<close> are taken as they are.\<close>

lemma not_nested:
  "Option.bind (json_get (JObj obj) ''arguments'') as_object = None \<Longrightarrow> internal_mcp_arguments (JObj obj) = obj"
  by (simp add: internal_mcp_arguments_def)

lemma approved_command_runs:
  assumes req: "chat_tool_approval_request host home \<lparr>ct_name = called, ct_arguments = JObj obj\<rparr> explanation = Inr req"
    and name: "called \<noteq> ''proposal_action''" and own: "internal_mcp_arguments (JObj obj) = obj"
  shows "run_internal_mcp_call host home called (JObj obj) True = Inr (Child (ap_args req))"
proof -
  let ?call = "\<lparr>ct_name = called, ct_arguments = JObj obj\<rparr>"
  from req have valid: "validate_chat_tool_call host home ?call = Inr ()"
    by (simp add: chat_tool_approval_request_def seq_Inr)
  from command_card(3) [OF req] name consider
      c h where "called = ''rocm_command''" "chat_rocm_command_action host home ?call = Inr (Approval (ap_args req) c h)"
    | "called \<in> mutating_tools" "rocm_chat_tool_requested_args host home ?call = Some (ap_args req)"
    by auto
  then show ?thesis
  proof cases
    case 1
    then show ?thesis using valid own by (simp add: run_rocm_command Let_def)
  next
    case 2
    then show ?thesis using valid own by (simp add: run_mutating Let_def)
  qed
qed

lemma proposal_card:
  assumes req: "proposal_approval_request \<lparr>ct_name = called, ct_arguments = JObj obj\<rparr> explanation = Inr req"
  obtains p s where "proposal_effect obj = Inr (SetProposalStatus p s)" and "json_string obj ''proposal_id'' = Some p"
    and "ap_display req = Some (chars_of (''proposal '' @ p))"
    and "ap_pending_title req = ''Approve proposal'' \<and> s = ''approved'' \<or> ap_pending_title req = ''Reject proposal'' \<and> s = ''rejected''"
proof -
  from req obtain p a caption where p: "json_string obj ''proposal_id'' = Some p" "json_string obj ''action'' = Some a"
    and title: "(if a = ''approve'' then Inr ''Approve proposal''
      else if a = ''reject'' then Inr ''Reject proposal'' else Inl (NotForApproval a)) = Inr caption"
    and card: "ap_pending_title req = caption" "ap_display req = Some (chars_of (''proposal '' @ p))"
    by (auto simp: proposal_approval_request_def with_object_Inr)
  from title consider "a = ''approve''" "caption = ''Approve proposal''" | "a = ''reject''" "caption = ''Reject proposal''"
    by (auto split: if_splits)
  then show ?thesis
  proof cases
    case 1
    then show ?thesis using p card by (intro that [of p "''approved''"]) (simp_all add: proposal_effect_def)
  next
    case 2
    then show ?thesis using p card by (intro that [of p "''rejected''"]) (simp_all add: proposal_effect_def)
  qed
qed

lemma proposal_line_clean:
  assumes "\<not> shows_control p"
  shows "\<not> has_terminal_control_character (chars_of (''proposal '' @ p))"
proof -
  have plain: "plain ''proposal ''" by code_simp
  show ?thesis
    using assms plain_clean [OF plain]
    unfolding chars_of_append [OF plain] shows_control_def clean_iff plain_chars [OF plain] by auto
qed

lemma execute_card:
  assumes "execute host home called args = ApprovalRequired ai"
  obtains obj req where "args = JObj obj" "called = ''rocm_command'' \<or> \<not> carries_control (JObj obj)"
    and "validate_chat_tool_call host home \<lparr>ct_name = called, ct_arguments = JObj obj\<rparr> = Inr ()"
    and "chat_tool_approval_request host home \<lparr>ct_name = called, ct_arguments = JObj obj\<rparr> None = Inr req"
    and "ai = \<lparr>ai_title = ap_pending_title req, ai_heading = ap_command_title req, ai_command = ap_display req,
      ai_name = called, ai_arguments = JObj obj\<rparr>"
proof -
  let ?call = "\<lparr>ct_name = called, ct_arguments = args\<rparr>"
  from assms obtain req where valid: "validate_chat_tool_call host home ?call = Inr ()"
    and req: "chat_tool_approval_request host home ?call None = Inr req"
    and ai: "ai = \<lparr>ai_title = ap_pending_title req, ai_heading = ap_command_title req, ai_command = ap_display req,
      ai_name = called, ai_arguments = args\<rparr>"
    by (auto simp: execute_def outcome_of_def Let_def split: sum.splits if_splits)
  obtain obj where obj: "ct_arguments ?call = JObj obj" "ct_name ?call = ''rocm_command'' \<or> \<not> carries_control (JObj obj)"
    by (rule validated [OF valid])
  show ?thesis by (rule that [of obj req]) (use valid req ai obj in \<open>simp_all del: carries_control.simps\<close>)
qed

lemma approved_run:
  assumes shown: "execute host home called args = ApprovalRequired ai"
    and own: "Option.bind (json_get args ''arguments'') as_object = None"
  shows "(\<exists>argv line. execute_approved host home (ai_name ai) (ai_arguments ai) = Result (Child argv) \<and>
        ai_command ai = Some line \<and> sh_words line = Some (map chars_of (''rocm'' # argv)) \<and>
        \<not> has_terminal_control_character line) \<or>
     (\<exists>p s. execute_approved host home (ai_name ai) (ai_arguments ai) = Result (SetProposalStatus p s) \<and>
        ai_command ai = Some (chars_of (''proposal '' @ p)) \<and>
        \<not> has_terminal_control_character (chars_of (''proposal '' @ p)) \<and>
        (ai_title ai = ''Approve proposal'' \<and> s = ''approved'' \<or> ai_title ai = ''Reject proposal'' \<and> s = ''rejected''))"
proof -
  from shown obtain obj req where args: "args = JObj obj"
    and clean: "called = ''rocm_command'' \<or> \<not> carries_control (JObj obj)"
    and valid: "validate_chat_tool_call host home \<lparr>ct_name = called, ct_arguments = JObj obj\<rparr> = Inr ()"
    and req: "chat_tool_approval_request host home \<lparr>ct_name = called, ct_arguments = JObj obj\<rparr> None = Inr req"
    and ai: "ai = \<lparr>ai_title = ap_pending_title req, ai_heading = ap_command_title req, ai_command = ap_display req,
      ai_name = called, ai_arguments = JObj obj\<rparr>"
    by (rule execute_card)
  have same: "internal_mcp_arguments (JObj obj) = obj" by (rule not_nested) (use own args in simp)
  show ?thesis
  proof (cases "called = ''proposal_action''")
    case True
    from req True have "proposal_approval_request \<lparr>ct_name = called, ct_arguments = JObj obj\<rparr> None = Inr req"
      by (simp add: chat_tool_approval_request_def seq_Inr)
    then obtain p s where run: "proposal_effect obj = Inr (SetProposalStatus p s)"
      and p: "json_string obj ''proposal_id'' = Some p" and line: "ap_display req = Some (chars_of (''proposal '' @ p))"
      and title: "ap_pending_title req = ''Approve proposal'' \<and> s = ''approved'' \<or>
        ap_pending_title req = ''Reject proposal'' \<and> s = ''rejected''"
      by (rule proposal_card)
    have "run_internal_mcp_call host home called (JObj obj) True = Inr (SetProposalStatus p s)"
      using True valid run same run_proposal_action [of host home "JObj obj" True] by (simp add: Let_def)
    then have "execute_approved host home (ai_name ai) (ai_arguments ai) = Result (SetProposalStatus p s)"
      by (simp add: execute_approved_def outcome_of_def ai)
    moreover have "\<not> has_terminal_control_character (chars_of (''proposal '' @ p))"
      by (rule proposal_line_clean, rule json_string_clean [OF _ p]) (use clean True in \<open>simp del: carries_control.simps\<close>)
    ultimately show ?thesis using line title
      by - (rule disjI2, rule exI [of _ p], rule exI [of _ s], simp add: ai)
  next
    case False
    then have name: "ct_name \<lparr>ct_name = called, ct_arguments = JObj obj\<rparr> \<noteq> ''proposal_action''" by simp
    have "execute_approved host home (ai_name ai) (ai_arguments ai) = Result (Child (ap_args req))"
      using approved_command_runs [OF req False same] by (simp add: execute_approved_def outcome_of_def ai)
    then show ?thesis
      using command_card(1,2) [OF req name] line_reads_back line_clean [of "ap_args req"]
      by - (rule disjI1, rule exI [of _ "ap_args req"], simp add: ai clean_args_def)
  qed
qed

section \<open>Two calls\<close>

text \<open>An engine to install, and a call with arguments inside its arguments.\<close>

definition engine_call :: "(string \<times> json) list" where
  "engine_call = [(''engine'', JStr ''vllm'')]"

definition inner_call :: "(string \<times> json) list" where
  "inner_call = [(''args'', JArr [JStr ''uninstall''])]"

definition nested_call :: "(string \<times> json) list" where
  "nested_call = [(''args'', JArr [JStr ''services'', JStr ''stop'', JStr ''a'']), (''arguments'', JObj inner_call)]"

lemma plain_words: "plain ''vllm''" "plain ''install_engine''" "plain ''rocm_command''" "plain ''services''"
  "plain ''stop''" "plain ''a''" "plain ''uninstall''"
  by code_simp+

lemmas clean_words = plain_words [THEN plain_clean]

lemma trimmed_words: "trim ''vllm'' = ''vllm''" "trim ''services'' = ''services''" "trim ''stop'' = ''stop''"
  "trim ''a'' = ''a''" "trim ''uninstall'' = ''uninstall''"
  by code_simp+

lemma engine_values:
  "json_string engine_call ''engine'' = Some ''vllm''" "json_string engine_call ''runtime_id'' = None"
  "json_string engine_call ''python_version'' = None" "json_flag engine_call ''reinstall'' = False"
  "\<not> carries_control (JObj engine_call)"
  by (simp_all add: json_string_def json_flag_def engine_call_def trimmed_words clean_words)

lemma engine_valid:
  "validate_chat_tool_call Linux None \<lparr>ct_name = ''install_engine'', ct_arguments = JObj engine_call\<rparr> = Inr ()"
  by (simp add: validate_chat_tool_call_def seq_Inr clean_words reject_control_characters_in_tool_arguments_def
    chat_tools_def validate_one_tool_def validate_required_chat_string_def with_object_def engine_values required_def
    CHAT_TOOLS_SCREENING_THEIR_OWN_ARGUMENTS_def del: carries_control.simps)

lemma engine_argv:
  "rocm_chat_tool_requested_args Linux None \<lparr>ct_name = ''install_engine'', ct_arguments = JObj engine_call\<rparr> =
     Some [''engines'', ''install'', ''vllm'']"
  by (simp add: rocm_chat_tool_requested_args_def Let_def engine_values push_optional_json_cli_arg_def)

lemma engine_card:
  "execute Linux None ''install_engine'' (JObj engine_call) = ApprovalRequired \<lparr>ai_title = ''Install engine'',
     ai_heading = ''Engine'', ai_command = Some (format_structured_tool_call ''rocm'' [''engines'', ''install'', ''vllm'']),
     ai_name = ''install_engine'', ai_arguments = JObj engine_call\<rparr>"
proof -
  have "\<not> chat_tool_call_is_read_only Linux None \<lparr>ct_name = ''install_engine'', ct_arguments = JObj engine_call\<rparr>"
    by (simp add: chat_tool_call_is_read_only_def)
  then show ?thesis
    by (simp add: execute_def engine_valid chat_tool_approval_request_def engine_argv approval_titles_def
      rocm_chat_tool_requested_command_def required_def)
qed

lemma nested_words:
  "internal_mcp_arguments (JObj nested_call) = inner_call"
  "normalized_chat_rocm_command_args \<lparr>ct_name = ''rocm_command'', ct_arguments = JObj nested_call\<rparr> =
     Inr [''services'', ''stop'', ''a'']"
  "normalized_chat_rocm_command_args \<lparr>ct_name = ''rocm_command'', ct_arguments = JObj inner_call\<rparr> = Inr [''uninstall'']"
proof -
  have "drop_program_name [''services'', ''stop'', ''a''] = [''services'', ''stop'', ''a'']"
    "drop_program_name [''uninstall''] = [''uninstall'']" by code_simp+
  then show "normalized_chat_rocm_command_args \<lparr>ct_name = ''rocm_command'', ct_arguments = JObj nested_call\<rparr> =
      Inr [''services'', ''stop'', ''a'']"
    "normalized_chat_rocm_command_args \<lparr>ct_name = ''rocm_command'', ct_arguments = JObj inner_call\<rparr> = Inr [''uninstall'']"
    by (simp_all add: normalized_chat_rocm_command_args_def with_object_def nested_call_def inner_call_def required_def
      refuse_if_def trimmed_words clean_words)
  show "internal_mcp_arguments (JObj nested_call) = inner_call"
    by (simp add: internal_mcp_arguments_def nested_call_def inner_call_def)
qed

lemma nested_actions:
  "chat_rocm_command_action_from_args Linux None [''services'', ''stop'', ''a''] =
     Inr (Approval [''services'', ''stop'', ''a'', ''--yes''] ''Change local model server'' ''Services'')"
  "chat_rocm_command_action_from_args Linux None [''uninstall''] =
     Inr (Approval [''uninstall'', ''--yes''] ''Uninstall ROCm CLI'' ''Uninstall'')"
  by code_simp+

lemma command_valid:
  "chat_rocm_command_action host home \<lparr>ct_name = ''rocm_command'', ct_arguments = JObj obj\<rparr> = Inr act \<Longrightarrow>
     validate_chat_tool_call host home \<lparr>ct_name = ''rocm_command'', ct_arguments = JObj obj\<rparr> = Inr ()"
  by (simp add: validate_chat_tool_call_def seq_Inr clean_words reject_control_characters_in_tool_arguments_def
    chat_tools_def validate_one_tool_def CHAT_TOOLS_SCREENING_THEIR_OWN_ARGUMENTS_def)

section \<open>Properties\<close>



text \<open>C9. What is approved is what was shown. The line on the card, read by a POSIX shell, is exactly the
  argv of the child that runs once the operator approves, and holds nothing that could disturb the
  terminal; a card for a review decides that review, the way its title says. Only for arguments
  that hold an object under \<^verbatim>\<open>arguments\<close> is this not so (see \<open>approved_call_differs\<close>).\<close>

theorem approved_is_what_was_shown:
  assumes "execute host home called args = ApprovalRequired ai"
    and "Option.bind (json_get args ''arguments'') as_object = None"
  shows "(\<exists>argv line. execute_approved host home (ai_name ai) (ai_arguments ai) = Result (Child argv) \<and>
        ai_command ai = Some line \<and> sh_words line = Some (map chars_of (''rocm'' # argv)) \<and>
        \<not> has_terminal_control_character line) \<or>
     (\<exists>p s. execute_approved host home (ai_name ai) (ai_arguments ai) = Result (SetProposalStatus p s) \<and>
        ai_command ai = Some (chars_of (''proposal '' @ p)) \<and>
        \<not> has_terminal_control_character (chars_of (''proposal '' @ p)) \<and>
        (ai_title ai = ''Approve proposal'' \<and> s = ''approved'' \<or> ai_title ai = ''Reject proposal'' \<and> s = ''rejected''))"
  using assms by (rule approved_run)

text \<open>A witness: an engine to install.\<close>

theorem approved_is_what_was_shown_witness:
  "execute_approved Linux None ''install_engine'' (JObj engine_call) = Result (Child [''engines'', ''install'', ''vllm'']) \<and>
   sh_words (format_structured_tool_call ''rocm'' [''engines'', ''install'', ''vllm'']) =
     Some (map chars_of [''rocm'', ''engines'', ''install'', ''vllm''])"
proof -
  let ?call = "\<lparr>ct_name = ''install_engine'', ct_arguments = JObj engine_call\<rparr>"
  have own: "Option.bind (json_get (JObj engine_call) ''arguments'') as_object = None" by (simp add: engine_call_def)
  have "''install_engine'' \<in> mutating_tools" by (simp add: mutating_tools_def)
  then have "run_internal_mcp_call Linux None ''install_engine'' (JObj engine_call) True =
      Inr (Child [''engines'', ''install'', ''vllm''])"
    using engine_valid engine_argv not_nested [OF own] by (simp add: run_mutating Let_def)
  then have "execute_approved Linux None ''install_engine'' (JObj engine_call) =
      Result (Child [''engines'', ''install'', ''vllm''])"
    by (simp add: execute_approved_def outcome_of_def)
  then show ?thesis using approved_is_what_was_shown [OF engine_card own] by auto
qed

text \<open>Where it is not so: a call with arguments inside its arguments. The card is made from the outer
  ones; the run unwraps the object under \<^verbatim>\<open>arguments\<close> first. The operator approves the stop of one
  server, and ROCm is uninstalled.\<close>

theorem approved_call_differs:
  "\<exists>ai. execute Linux None ''rocm_command'' (JObj nested_call) = ApprovalRequired ai \<and>
     ai_command ai = Some (format_structured_tool_call ''rocm'' [''services'', ''stop'', ''a'', ''--yes'']) \<and>
     execute_approved Linux None (ai_name ai) (ai_arguments ai) = Result (Child [''uninstall'', ''--yes''])"
proof (intro exI conjI)
  let ?outer = "\<lparr>ct_name = ''rocm_command'', ct_arguments = JObj nested_call\<rparr>"
  let ?inner = "\<lparr>ct_name = ''rocm_command'', ct_arguments = JObj inner_call\<rparr>"
  let ?ai = "\<lparr>ai_title = ''Change local model server'', ai_heading = ''Services'',
    ai_command = Some (format_structured_tool_call ''rocm'' [''services'', ''stop'', ''a'', ''--yes'']),
    ai_name = ''rocm_command'', ai_arguments = JObj nested_call\<rparr>"
  have outer: "chat_rocm_command_action Linux None ?outer =
      Inr (Approval [''services'', ''stop'', ''a'', ''--yes''] ''Change local model server'' ''Services'')"
    and inner: "chat_rocm_command_action Linux None ?inner =
      Inr (Approval [''uninstall'', ''--yes''] ''Uninstall ROCm CLI'' ''Uninstall'')"
    by (simp_all add: chat_rocm_command_action_def nested_words nested_actions)
  show "execute Linux None ''rocm_command'' (JObj nested_call) = ApprovalRequired ?ai"
    using command_valid [OF outer] outer
    by (simp add: execute_def read_only_rocm_command chat_tool_approval_request_def shown_explanation_def)
  have "run_internal_mcp_call Linux None ''rocm_command'' (JObj nested_call) True = Inr (Child [''uninstall'', ''--yes''])"
    using command_valid [OF inner] inner by (simp add: run_rocm_command nested_words Let_def)
  then show "execute_approved Linux None (ai_name ?ai) (ai_arguments ?ai) = Result (Child [''uninstall'', ''--yes''])"
    by (simp add: execute_approved_def outcome_of_def)
qed simp

end
