(* ===== verification/Tool_Requests.thy ===== *)
theory Tool_Requests
  imports Tool_Properties
begin

text \<open>
  What a model may ask for: the bounds on a server and on an install, which hold of the argv that
  runs and not only of the one that was checked, and what a call to the daemon does that nobody has
  approved. The dispatch of \<^verbatim>\<open>rocm daemon\<close> (\<^verbatim>\<open>main.rs\<close>, \<^verbatim>\<open>engine_runtime_select.rs\<close>) is modelled for the
  latter.
\<close>

section \<open>The consent flags\<close>

text \<open>Taking out \<^verbatim>\<open>--yes\<close> and adding a flag at the end changes no value that was checked.\<close>

definition is_yes :: "string \<Rightarrow> bool" where
  "is_yes arg \<longleftrightarrow> arg = ''--yes'' \<or> prefix ''--yes='' arg"

lemma drop_yes_simps [simp]:
  "drop_yes [] = []" "drop_yes (arg # args) = (if is_yes arg then drop_yes args else arg # drop_yes args)"
  by (simp_all add: drop_yes_def is_yes_def)

lemma yes_is_long: "is_yes arg \<Longrightarrow> prefix ''--'' arg"
  by (auto simp: is_yes_def prefix_def)

lemma split_once_yes: "split_once (CHR ''='') (''--yes='' @ r) = Some (''--yes'', r)"
  by simp

lemma yes_has_no_value:
  assumes "is_yes arg" "name \<noteq> ''--yes''"
  shows "attached_value arg name = None"
  using assms by (auto simp: is_yes_def attached_value_def prefix_def split: option.splits)

lemma yes_is_not: "is_yes arg \<Longrightarrow> \<not> is_yes name \<Longrightarrow> arg \<noteq> name"
  by auto

lemma checked_without_yes:
  assumes "chat_cli_arg_value_checked args name = Inr r" "\<not> is_yes name"
  shows "chat_cli_arg_value_checked (drop_yes args) name = Inr r"
  using assms
proof (induction args)
  case (Cons arg args)
  have plain: "name \<noteq> ''--yes''" using Cons.prems(2) by (auto simp: is_yes_def)
  show ?case
  proof (cases "is_yes arg")
    case True
    then have "attached_value arg name = None" "arg \<noteq> name"
      using yes_has_no_value [OF True plain] yes_is_not [OF True Cons.prems(2)] by auto
    then show ?thesis using Cons True by simp
  next
    case False
    show ?thesis
    proof (cases "attached_value arg name")
      case None
      then show ?thesis
        using Cons False yes_is_long by (cases args) (auto split: if_splits)
    next
      case (Some v)
      then show ?thesis using Cons.prems False by simp
    qed
  qed
qed simp

lemma checked_value: "chat_cli_arg_value_checked args name = Inr r \<Longrightarrow> chat_cli_arg_value args name = r"
proof (induction args)
  case (Cons arg args)
  show ?case
  proof (cases "attached_value arg name")
    case None
    show ?thesis
    proof (cases "arg = name")
      case True
      with None Cons.prems show ?thesis by (cases args) (simp_all split: if_splits)
    next
      case False
      with None Cons show ?thesis by simp
    qed
  next
    case (Some v)
    with Cons.prems show ?thesis by (simp split: if_splits)
  qed
qed simp

lemma checked_with_flag:
  assumes "chat_cli_arg_value_checked args name = Inr (Some v)"
  shows "chat_cli_arg_value_checked (ensure_flag args flag) name = Inr (Some v)"
proof -
  have "chat_cli_arg_value_checked (args @ [flag]) name = Inr (Some v)"
    using assms
  proof (induction args)
    case (Cons arg args)
    show ?case
    proof (cases "attached_value arg name")
      case None
      show ?thesis
      proof (cases "arg = name")
        case True
        with None Cons.prems show ?thesis by (cases args) simp_all
      next
        case False
        with None Cons show ?thesis by simp
      qed
    next
      case (Some v)
      with Cons.prems show ?thesis by simp
    qed
  qed simp
  with assms show ?thesis by (simp add: ensure_flag_def)
qed

lemma not_yes: "\<not> is_yes ''--prefix''" "\<not> is_yes ''--approve-replacing-active-default''"
  by (simp_all add: is_yes_def)

lemma consent_value:
  assumes "chat_cli_arg_value_checked args ''--prefix'' = Inr (Some v)"
  shows "chat_cli_arg_value (install_sdk_consent args) ''--prefix'' = Some v"
proof -
  have "chat_cli_arg_value_checked (drop_yes args) ''--prefix'' = Inr (Some v)"
    using assms not_yes(1) by (rule checked_without_yes)
  then have "chat_cli_arg_value_checked (install_sdk_consent args) ''--prefix'' = Inr (Some v)"
    by (simp add: install_sdk_consent_def Let_def checked_with_flag)
  then show ?thesis by (rule checked_value)
qed

lemma consent_flags:
  "list_all (\<lambda>arg. \<not> is_yes arg) (install_sdk_consent args)"
  "''--approve-replacing-active-default'' \<in> set (install_sdk_consent args) \<or> ''--dry-run'' \<in> set (install_sdk_consent args)"
proof -
  have "list_all (\<lambda>arg. \<not> is_yes arg) (drop_yes args)" by (induction args) auto
  then show "list_all (\<lambda>arg. \<not> is_yes arg) (install_sdk_consent args)"
    using not_yes(2) by (simp add: install_sdk_consent_def Let_def ensure_flag_def)
  show "''--approve-replacing-active-default'' \<in> set (install_sdk_consent args) \<or> ''--dry-run'' \<in> set (install_sdk_consent args)"
    by (simp add: install_sdk_consent_def Let_def ensure_flag_def)
qed

section \<open>The bounds on a request\<close>

lemma action_parts:
  assumes "chat_rocm_command_action_from_args host home args = Inr act"
  shows "validate_chat_rocm_command_safety host home (comfy_alias args) = Inr ()"
    and "classify_rocm_command host (comfy_alias args) = Inr act"
  using assms by (auto simp: chat_rocm_command_action_from_args_def canonical_form seq_Inr split: if_splits)

lemma alias_other: "first_word args = Some w \<Longrightarrow> w \<noteq> ''comfy'' \<Longrightarrow> comfy_alias args = args"
  by (cases args) (auto simp: comfy_alias_def first_word_def word_ci)

lemma classify_serve:
  "first_word args = Some ''serve'' \<Longrightarrow>
     classify_rocm_command host args = Inr (Approval args ''Start local model server'' ''Serve'')"
  by (simp add: classify_rocm_command_def)

lemma classify_install_sdk:
  "first_word args = Some ''install'' \<Longrightarrow> second_word args = Some ''sdk'' \<Longrightarrow>
     classify_rocm_command host args = Inr (Approval (install_sdk_consent args) ''Install ROCm'' ''Install'')"
  by (simp add: classify_rocm_command_def some_of_def Let_def)

definition serve_bounded :: "string list \<Rightarrow> bool" where
  "serve_bounded args \<longleftrightarrow>
     chat_cli_has_flag args ''--managed'' \<and> \<not> chat_cli_has_flag args ''--foreground'' \<and>
     \<not> chat_cli_has_flag args ''--allow-public-bind'' \<and> \<not> serve_args_request_cpu_device args \<and>
     (\<forall>address. chat_cli_arg_value args ''--host'' = Some address \<longrightarrow> is_loopback_host address) \<and>
     (\<forall>v. chat_cli_arg_value args ''--port'' = Some v \<longrightarrow> (\<exists>p. parse_serve_port v = Inr p))"

definition install_bounded :: "runtime_platform \<Rightarrow> string option \<Rightarrow> string list \<Rightarrow> bool" where
  "install_bounded host home args \<longleftrightarrow>
     list_all (\<lambda>arg. \<not> is_yes arg) args \<and>
     (''--approve-replacing-active-default'' \<in> set args \<or> ''--dry-run'' \<in> set args) \<and>
     (\<exists>p. chat_cli_arg_value args ''--prefix'' = Some p \<and> p \<noteq> [] \<and> \<not> runtime_install_root_is_protected host home p)"

lemma serve_checks:
  assumes "seq (validate_serve_command_safety args) (validate_serve_port args) = Inr ()"
  shows "serve_bounded args"
proof -
  from assms have safe: "validate_serve_command_safety args = Inr ()" and port: "validate_serve_port args = Inr ()"
    by (simp_all add: seq_Inr)
  have "\<exists>p. parse_serve_port v = Inr p" if "chat_cli_arg_value args ''--port'' = Some v" for v
    using port that by (auto simp: validate_serve_port_def)
  moreover have "is_loopback_host address" if "chat_cli_arg_value args ''--host'' = Some address" for address
    using safe that by (simp add: validate_serve_command_safety_def seq_Inr)
  ultimately show ?thesis
    using safe by (simp add: serve_bounded_def validate_serve_command_safety_def seq_Inr)
qed

lemma install_checks:
  assumes "validate_install_sdk_args host home args = Inr ()"
  shows "install_bounded host home (install_sdk_consent args)"
proof -
  from assms obtain p where p: "chat_cli_arg_value_checked args ''--prefix'' = Inr (Some p)"
    and place: "\<not> chat_install_prefix_is_system host home p"
    by (auto simp: validate_install_sdk_args_def seq_Inr split: option.splits)
  show ?thesis
    using consent_value [OF p] consent_flags [of args] place
    by (auto simp: install_bounded_def chat_install_prefix_is_system_def)
qed

lemma request_bounds:
  assumes act: "chat_rocm_command_action_from_args host home args = Inr (Approval argv caption heading)"
  shows "first_is args ''serve'' \<Longrightarrow> argv = args \<and> serve_bounded argv"
    and "first_is args ''install'' \<Longrightarrow> second_is args ''sdk'' \<Longrightarrow> install_bounded host home argv"
proof -
  note parts = action_parts [OF act]
  show "argv = args \<and> serve_bounded argv" if "first_is args ''serve''"
  proof -
    from that have w: "first_word args = Some ''serve''" by (simp add: first_is_word)
    have same: "comfy_alias args = args" by (rule alias_other [OF w]) simp
    have "seq (validate_serve_command_safety args) (validate_serve_port args) = Inr ()"
      using parts(1) that unfolding same by (simp add: validate_chat_rocm_command_safety_def seq_Inr)
    then show ?thesis using parts(2) classify_serve [OF w, of host] serve_checks unfolding same by auto
  qed
  show "install_bounded host home argv" if one: "first_is args ''install''" and two: "second_is args ''sdk''"
  proof -
    from one two have w: "first_word args = Some ''install''" "second_word args = Some ''sdk''"
      by (simp_all add: first_is_word second_is_word)
    have same: "comfy_alias args = args" by (rule alias_other [OF w(1)]) simp
    have "validate_install_sdk_args host home args = Inr ()"
      using parts(1) one two unfolding same by (simp add: validate_chat_rocm_command_safety_def seq_Inr)
    then show ?thesis using parts(2) classify_install_sdk [OF w, of host] install_checks unfolding same by auto
  qed
qed



section \<open>Calls to the daemon that nobody approved\<close>

text \<open>\<^verbatim>\<open>rocm daemon\<close>: with \<^verbatim>\<open>--status\<close> a text, else the background helper itself, in the foreground.\<close>

definition daemon_run_argv :: "string list" where
  "daemon_run_argv = [''rocmd'', ''run'', ''--automations-enabled'']"

definition daemon_command :: "bool \<Rightarrow> string list option" where
  "daemon_command only_status = (if only_status then None else Some daemon_run_argv)"

definition unapproved_child :: "string \<Rightarrow> string list \<Rightarrow> bool" where
  "unapproved_child called argv \<longleftrightarrow>
     ensure_rocm_command_is_read_only argv = Inr () \<or>
     called = ''natural_language_plan'' \<and> length argv = 1 \<or>
     called = ''install_sdk_dry_run'' \<and> take 2 argv = [''install'', ''sdk''] \<and> last argv = ''--dry-run''"

lemma reads_words:
  "ensure_rocm_command_is_read_only [''examine''] = Inr ()" "ensure_rocm_command_is_read_only [''update''] = Inr ()"
  by code_simp+

lemma dry_run_argv:
  "build_install_sdk_args host home obj True = Inr argv \<Longrightarrow> take 2 argv = [''install'', ''sdk''] \<and> last argv = ''--dry-run''"
  by (auto simp: build_install_sdk_args_def seq_Inr Let_def)

lemma direct_call:
  assumes "handle_mcp_tool_call host home params = Inr eff"
    and "\<not> mcp_tool_requires_direct_approval (given_or [] (Option.bind (json_get params ''name'') as_str))"
  shows "(\<forall>sid. eff \<noteq> DStop sid) \<and>
    (\<forall>argv. eff = DChild argv \<longrightarrow> unapproved_child (given_or [] (Option.bind (json_get params ''name'') as_str)) argv)"
proof -
  let ?called = "given_or [] (Option.bind (json_get params ''name'') as_str)"
  have apart: "?called \<noteq> ''install_sdk''" "?called \<noteq> ''install_engine''" "?called \<noteq> ''launch_server''"
    "?called \<noteq> ''stop_server''" "?called \<noteq> ''watcher_enable''" "?called \<noteq> ''watcher_disable''"
    using assms(2) unfolding mcp_tool_requires_direct_approval_def by blast+
  show ?thesis
  proof (cases "?called = ''natural_language_plan'' \<or> ?called = ''install_sdk_dry_run''")
    case True
    then show ?thesis
      using assms(1) dry_run_argv unfolding handle_mcp_tool_call_def Let_def unapproved_child_def
      by (elim disjE) (auto simp: reads_words)
  next
    case False
    with assms(1) show ?thesis
      unfolding handle_mcp_tool_call_def Let_def apart [THEN eq_False [THEN iffD2]]
      by (simp only: if_False apart de_Morgan_disj)
        (elim if_Inr_cases; auto simp: unapproved_child_def reads_words seq_Inr)
  qed
qed



text \<open>The list holds one command that does not only read: \<^verbatim>\<open>rocm daemon\<close> without \<^verbatim>\<open>--status\<close> runs the
  background helper with its watchers. The assistant's own run of it prints the status; the daemon starts
  the command as a child, without an approval.\<close>

theorem read_only_call_starts_helper:
  "mcp_call Linux None ''rocm_command'' (JObj [(''args'', JArr [JStr ''daemon''])]) False = Inr (DChild [''daemon'']) \<and>
   daemon_command (''--status'' \<in> set [''daemon'']) = Some [''rocmd'', ''run'', ''--automations-enabled''] \<and>
   run_rocm_read_only_in_process [''daemon''] = Inr RDaemon"
  by (intro conjI) code_simp+

text \<open>Some commands on the list cannot be run by the assistant at all: they count as read-only, so no approval
  is asked for, and the run in the process does not know them.\<close>

definition unrunnable :: "string list list" where
  "unrunnable = [[''storage''], [''storage'', ''report''], [''remote'', ''targets''], [''remote'', ''doctor''],
     [''remote'', ''status''], [''engines'', ''list'', ''--json''], [''services'', ''logs'']]"

theorem read_only_commands_not_run:
  "list_all (\<lambda>args. chat_rocm_command_action_from_args Linux None args = Inr (ReadOnly args) \<and>
     run_rocm_read_only_in_process args = Inl NotInProcess) unrunnable"
  by code_simp

end
