(* ===== verification/Profile_Block.thy ===== *)
theory Profile_Block
  imports Prelude
begin

text \<open>
  The lines that the installer adds to a shell profile, and their removal by \<^verbatim>\<open>rocm uninstall\<close>
  (\<^verbatim>\<open>apps/rocm/src/uninstall.rs\<close>). A profile is a sequence of bytes. What the installer
  writes (\<^verbatim>\<open>install.sh\<close>) is specification: the two blocks below are its two here-documents.
\<close>

section \<open>Lines\<close>

abbreviation (input) line_feed :: char where "line_feed \<equiv> CHR 0x0A"

text \<open>\<^verbatim>\<open>split_inclusive\<close>: each line with its line feed.\<close>

fun split_inclusive :: "string \<Rightarrow> string list" where
  "split_inclusive [] = []"
| "split_inclusive (c # s) =
     (if c = line_feed then [line_feed] # split_inclusive s
      else (case split_inclusive s of [] \<Rightarrow> [[c]] | l # ls \<Rightarrow> (c # l) # ls))"

definition ascii_white :: "char \<Rightarrow> bool" where
  "ascii_white c \<longleftrightarrow> c \<in> {CHR '' '', CHR 0x09, CHR 0x0A, CHR 0x0C, CHR 0x0D}"

definition trim_ascii_end :: "string \<Rightarrow> string" where
  "trim_ascii_end s = rev (dropWhile ascii_white (rev s))"

definition blank_line :: "string \<Rightarrow> bool" where
  "blank_line s \<longleftrightarrow> list_all ascii_white s"

section \<open>Taking the block out\<close>

definition PROFILE_BLOCK_START :: string where "PROFILE_BLOCK_START = ''# >>> rocm-cli path >>>''"
definition PROFILE_BLOCK_END :: string where "PROFILE_BLOCK_END = ''# <<< rocm-cli path <<<''"

text \<open>A folder as the block quotes it, on its own or in front of a colon.\<close>

definition escape_for_double_quotes :: "string \<Rightarrow> string" where
  "escape_for_double_quotes expr =
     concat (map (\<lambda>c. if c = CHR 0x5C \<or> c = CHR 0x22 then [CHR 0x5C, c] else [c]) expr)"

definition needles :: "string \<Rightarrow> string list" where
  "needles expr =
     [CHR 0x22 # escape_for_double_quotes expr @ [CHR 0x22], CHR 0x22 # escape_for_double_quotes expr @ '':'']"

definition names_dir :: "string list \<Rightarrow> string \<Rightarrow> bool" where
  "names_dir path_exprs body \<longleftrightarrow> list_ex (\<lambda>expr. list_ex (str_contains body) (needles expr)) path_exprs"

definition is_end :: "string \<Rightarrow> bool" where
  "is_end line \<longleftrightarrow> trim_ascii_end line = PROFILE_BLOCK_END"

definition is_start :: "string \<Rightarrow> bool" where
  "is_start line \<longleftrightarrow> trim_ascii_end line = PROFILE_BLOCK_START"

definition pop_blank :: "string list \<Rightarrow> string list" where
  "pop_blank kept = (if kept \<noteq> [] \<and> blank_line (last kept) then butlast kept else kept)"

text \<open>The loop, with the lines kept so far, and whether a block was found.\<close>

function remove_blocks :: "string list \<Rightarrow> string list \<Rightarrow> bool \<Rightarrow> string list \<Rightarrow> string list \<times> bool" where
  "remove_blocks exprs kept removed [] = (kept, removed)"
| "remove_blocks exprs kept removed (line # rest) =
     (let body = takeWhile (\<lambda>l. \<not> is_end l) rest;
          after = dropWhile (\<lambda>l. \<not> is_end l) rest
      in if is_start line \<and> after \<noteq> [] \<and> names_dir exprs (concat body)
         then remove_blocks exprs (pop_blank kept) True (tl after)
         else remove_blocks exprs (kept @ [line]) removed rest)"
  by pat_completeness auto
termination
proof (relation "measure (\<lambda>(exprs, kept, removed, ls). length ls)")
  show "((exprs, pop_blank kept, True, tl after), exprs, kept, removed, line # rest)
      \<in> measure (\<lambda>(exprs, kept, removed, ls). length ls)"
    if "after = dropWhile (\<lambda>l. \<not> is_end l) rest" for exprs kept removed line rest after
    using length_dropWhile_le [of "\<lambda>l. \<not> is_end l" rest] that by simp
qed simp_all

definition remove_profile_block_bytes :: "string \<Rightarrow> string list \<Rightarrow> string option" where
  "remove_profile_block_bytes text path_exprs =
     (let (kept, removed) = remove_blocks path_exprs [] False (split_inclusive text)
      in if removed then Some (concat kept) else None)"

section \<open>What the installer writes\<close>

datatype shell_kind = FishShell | PosixShell

text \<open>A blank line in front, the markers, and between them the change of the path.\<close>

definition block_body :: "shell_kind \<Rightarrow> string \<Rightarrow> string list" where
  "block_body kind expr =
     (let e = escape_for_double_quotes expr; q = [CHR 0x22]; nl = [line_feed] in
      case kind of
        FishShell \<Rightarrow>
          [''if not contains -- '' @ q @ e @ q @ '' $PATH'' @ nl,
           ''    set -gx PATH '' @ q @ e @ q @ '' $PATH'' @ nl,
           ''end'' @ nl]
      | PosixShell \<Rightarrow>
          [''case '' @ q @ '':$PATH:'' @ q @ '' in'' @ nl,
           ''  *:'' @ q @ e @ q @ '':*) ;;'' @ nl,
           ''  *) export PATH='' @ q @ e @ '':$PATH'' @ q @ '' ;;'' @ nl,
           ''esac'' @ nl])"

definition install_block :: "shell_kind \<Rightarrow> string \<Rightarrow> string list" where
  "install_block kind expr =
     [[line_feed], PROFILE_BLOCK_START @ [line_feed]] @ block_body kind expr @ [PROFILE_BLOCK_END @ [line_feed]]"

section \<open>Lines of a text\<close>

lemma concat_split_inclusive [simp]: "concat (split_inclusive s) = s"
  by (induction s) (auto split: list.splits)

lemma split_inclusive_Nil [simp]: "split_inclusive s = [] \<longleftrightarrow> s = []"
  by (cases s) (auto split: list.splits)

lemma split_inclusive_append:
  "a = [] \<or> last a = line_feed \<Longrightarrow> split_inclusive (a @ b) = split_inclusive a @ split_inclusive b"
proof (induction a)
  case (Cons c a)
  then show ?case by (cases "a = []") (auto split: list.splits)
qed simp

text \<open>A line: no line feed but its last byte.\<close>

definition whole_line :: "string \<Rightarrow> bool" where
  "whole_line l \<longleftrightarrow> l \<noteq> [] \<and> last l = line_feed \<and> line_feed \<notin> set (butlast l)"

lemma split_whole_line: "whole_line l \<Longrightarrow> split_inclusive (l @ s) = l # split_inclusive s"
proof (induction l)
  case (Cons c l)
  show ?case
  proof (cases "l = []")
    case True
    then show ?thesis using Cons.prems by (simp add: whole_line_def)
  next
    case False
    then have "whole_line l" "c \<noteq> line_feed" using Cons.prems by (auto simp: whole_line_def)
    then show ?thesis using Cons.IH by simp
  qed
qed (simp add: whole_line_def)

lemma split_whole_lines: "list_all whole_line ls \<Longrightarrow> split_inclusive (concat ls @ s) = ls @ split_inclusive s"
  by (induction ls) (simp_all add: split_whole_line)

section \<open>The loop over lines\<close>

lemma keep_lines:
  "list_all (\<lambda>l. \<not> is_start l) ls \<Longrightarrow>
     remove_blocks exprs kept removed (ls @ ms) = remove_blocks exprs (kept @ ls) removed ms"
  by (induction ls arbitrary: kept) (simp_all add: Let_def)

lemma keep_all_lines:
  "list_all (\<lambda>l. \<not> is_start l) ls \<Longrightarrow> remove_blocks exprs kept removed ls = (kept @ ls, removed)"
  using keep_lines [of ls exprs kept removed "[]"] by simp

lemma takeWhile_lines: "list_all (\<lambda>l. \<not> P l) body \<Longrightarrow> P e \<Longrightarrow> takeWhile (\<lambda>l. \<not> P l) (body @ e # rest) = body"
  by (induction body) simp_all

lemma dropWhile_lines: "list_all (\<lambda>l. \<not> P l) body \<Longrightarrow> P e \<Longrightarrow> dropWhile (\<lambda>l. \<not> P l) (body @ e # rest) = e # rest"
  by (induction body) simp_all

lemma drop_block:
  assumes "is_start s" "list_all (\<lambda>l. \<not> is_end l) body" "is_end e" "names_dir exprs (concat body)"
  shows "remove_blocks exprs kept removed (s # body @ e # rest) = remove_blocks exprs (pop_blank kept) True rest"
  using assms by (simp add: Let_def takeWhile_lines dropWhile_lines)

lemma keep_block:
  assumes "is_start s" "list_all (\<lambda>l. \<not> is_end l) body" "is_end e" "\<not> names_dir exprs (concat body)"
  shows "remove_blocks exprs kept removed (s # body @ e # rest) = remove_blocks exprs (kept @ [s]) removed (body @ e # rest)"
  using assms by (simp add: Let_def takeWhile_lines dropWhile_lines)

section \<open>The block\<close>

lemma trimmed_head: "trim_ascii_end l = c # cs \<Longrightarrow> l \<noteq> [] \<and> hd l = c"
proof -
  assume t: "trim_ascii_end l = c # cs"
  have "l = trim_ascii_end l @ rev (takeWhile ascii_white (rev l))"
    by (metis rev_append rev_rev_ident takeWhile_dropWhile_id trim_ascii_end_def)
  with t have "l = (c # cs) @ rev (takeWhile ascii_white (rev l))" by simp
  then show ?thesis by (metis append_Cons list.discI list.sel(1))
qed

lemma other_head: "l \<noteq> [] \<Longrightarrow> hd l \<noteq> CHR ''#'' \<Longrightarrow> \<not> is_end l \<and> \<not> is_start l"
  using trimmed_head [of l] by (auto simp: is_end_def is_start_def PROFILE_BLOCK_END_def PROFILE_BLOCK_START_def)

lemma body_heads: "list_all (\<lambda>l. l \<noteq> [] \<and> hd l \<noteq> CHR ''#'') (block_body kind expr)"
  by (cases kind) (simp_all add: block_body_def Let_def)

lemma body_no_marker: "list_all (\<lambda>l. \<not> is_end l \<and> \<not> is_start l) (block_body kind expr)"
  using body_heads [of kind expr] other_head by (auto simp: list_all_iff)

lemma marker_lines:
  "is_start (PROFILE_BLOCK_START @ [line_feed])" "is_end (PROFILE_BLOCK_END @ [line_feed])"
  "\<not> is_start (PROFILE_BLOCK_END @ [line_feed])" "\<not> is_start [line_feed]" "blank_line [line_feed]"
  by code_simp+

lemma contains_mid: "str_contains (a @ t @ b) t"
proof (induction a)
  case Nil
  have "prefix t (t @ b)" by simp
  then show ?case by (cases "t @ b") auto
next
  case (Cons c a)
  then show ?case by simp
qed

lemma body_names_dir: "expr \<in> set exprs \<Longrightarrow> names_dir exprs (concat (block_body kind expr))"
proof -
  assume e: "expr \<in> set exprs"
  let ?q = "[CHR 0x22]" and ?e = "escape_for_double_quotes expr"
  have "str_contains (concat (block_body kind expr)) (?q @ ?e @ ?q)"
  proof (cases kind)
    case FishShell
    then show ?thesis
      using contains_mid [of "''if not contains -- ''" "?q @ ?e @ ?q"
        "'' $PATH'' @ [line_feed] @ ''    set -gx PATH '' @ ?q @ ?e @ ?q @ '' $PATH'' @ [line_feed] @ ''end'' @ [line_feed]"]
      by (simp add: block_body_def Let_def)
  next
    case PosixShell
    then show ?thesis
      using contains_mid [of "''case '' @ ?q @ '':$PATH:'' @ ?q @ '' in'' @ [line_feed] @ ''  *:''" "?q @ ?e @ ?q"
        "'':*) ;;'' @ [line_feed] @ ''  *) export PATH='' @ ?q @ ?e @ '':$PATH'' @ ?q @ '' ;;'' @ [line_feed] @ ''esac'' @ [line_feed]"]
      by (simp add: block_body_def Let_def)
  qed
  with e show ?thesis by (auto simp: names_dir_def needles_def list_ex_iff)
qed

lemma whole_lineI: "line_feed \<notin> set l \<Longrightarrow> whole_line (l @ [line_feed])"
  by (simp add: whole_line_def)

lemma escaped_no_feed: "line_feed \<notin> set expr \<Longrightarrow> line_feed \<notin> set (escape_for_double_quotes expr)"
  by (auto simp: escape_for_double_quotes_def split: if_splits)

lemma block_whole_lines:
  assumes "line_feed \<notin> set expr"
  shows "list_all whole_line (install_block kind expr)"
proof -
  note e = escaped_no_feed [OF assms]
  have markers: "whole_line (PROFILE_BLOCK_START @ [line_feed])" "whole_line (PROFILE_BLOCK_END @ [line_feed])"
    by (simp_all add: whole_line_def PROFILE_BLOCK_START_def PROFILE_BLOCK_END_def)
  have "list_all whole_line (block_body kind expr)"
  proof (cases kind)
    case FishShell
    then show ?thesis using e by (simp add: block_body_def Let_def whole_line_def butlast_append)
  next
    case PosixShell
    then show ?thesis using e by (simp add: block_body_def Let_def whole_line_def butlast_append)
  qed
  then show ?thesis using markers by (simp add: install_block_def whole_line_def)
qed

text \<open>A text with its last line ended.\<close>

definition ended :: "string \<Rightarrow> string" where
  "ended text = (if text = [] \<or> last text = line_feed then text else text @ [line_feed])"

lemma ended_last: "ended text = [] \<or> last (ended text) = line_feed"
  by (simp add: ended_def)

text \<open>The lines of a profile the installer has appended its block to. Where the last line was not
  ended, the blank line of the block ends it.\<close>

lemma installed_lines:
  assumes "line_feed \<notin> set expr"
  shows "split_inclusive (text @ concat (install_block kind expr) @ after) =
    split_inclusive (ended text) @ (if ended text = text then [[line_feed]] else []) @
    (PROFILE_BLOCK_START @ [line_feed]) # block_body kind expr @ (PROFILE_BLOCK_END @ [line_feed]) # split_inclusive after"
proof -
  let ?block = "(PROFILE_BLOCK_START @ [line_feed]) # block_body kind expr @ [PROFILE_BLOCK_END @ [line_feed]]"
  have whole: "list_all whole_line ?block" using block_whole_lines [OF assms, of kind] by (simp add: install_block_def)
  have block: "concat (install_block kind expr) = line_feed # concat ?block" by (simp add: install_block_def)
  have tail: "split_inclusive (concat ?block @ after) = ?block @ split_inclusive after" by (rule split_whole_lines [OF whole])
  show ?thesis
  proof (cases "ended text = text")
    case True
    then have "text = [] \<or> last text = line_feed" by (simp add: ended_def split: if_splits)
    then show ?thesis using True tail by (simp add: split_inclusive_append block)
  next
    case False
    then have e: "ended text = text @ [line_feed]" by (simp add: ended_def split: if_splits)
    have "split_inclusive (text @ concat (install_block kind expr) @ after) =
        split_inclusive (ended text @ (concat ?block @ after))" by (simp add: e block)
    also have "\<dots> = split_inclusive (ended text) @ split_inclusive (concat ?block @ after)"
      by (rule split_inclusive_append [OF ended_last])
    finally show ?thesis unfolding tail using False by simp
  qed
qed

lemma removed_block:
  assumes "line_feed \<notin> set expr" "expr \<in> set exprs"
    and "list_all (\<lambda>l. \<not> is_start l) (split_inclusive (ended text))" "list_all (\<lambda>l. \<not> is_start l) (split_inclusive after)"
    and "ended text \<noteq> text \<Longrightarrow> \<not> blank_line (last (split_inclusive (ended text)))"
  shows "remove_profile_block_bytes (text @ concat (install_block kind expr) @ after) exprs = Some (ended text @ after)"
proof -
  let ?lead = "if ended text = text then [[line_feed]] else []"
  have "list_all (\<lambda>l. \<not> is_end l) (block_body kind expr)" using body_no_marker [of kind expr] by (simp add: list_all_iff)
  then have "remove_blocks exprs [] False (split_inclusive (text @ concat (install_block kind expr) @ after)) =
    (pop_blank (split_inclusive (ended text) @ ?lead) @ split_inclusive after, True)"
    using assms(3,4) marker_lines body_names_dir [OF assms(2)]
    by (simp add: installed_lines [OF assms(1)] keep_lines drop_block keep_all_lines del: remove_blocks.simps)
  moreover have "pop_blank (split_inclusive (ended text) @ ?lead) = split_inclusive (ended text)"
    using assms(5) marker_lines(5) by (simp add: pop_blank_def)
  ultimately show ?thesis by (simp add: remove_profile_block_bytes_def)
qed

lemma foreign_block:
  assumes "line_feed \<notin> set expr" "\<not> names_dir exprs (concat (block_body kind expr))"
    and "list_all (\<lambda>l. \<not> is_start l) (split_inclusive (ended text))" "list_all (\<lambda>l. \<not> is_start l) (split_inclusive after)"
  shows "remove_profile_block_bytes (text @ concat (install_block kind expr) @ after) exprs = None"
proof -
  let ?lead = "if ended text = text then [[line_feed]] else []"
  let ?rest = "block_body kind expr @ (PROFILE_BLOCK_END @ [line_feed]) # split_inclusive after"
  have body: "list_all (\<lambda>l. \<not> is_end l) (block_body kind expr)" using body_no_marker [of kind expr] by (simp add: list_all_iff)
  have rest: "list_all (\<lambda>l. \<not> is_start l) ?rest"
    using assms(4) marker_lines(3) body_no_marker [of kind expr] by (auto simp: list_all_iff)
  have "\<exists>kept. remove_blocks exprs [] False (split_inclusive (text @ concat (install_block kind expr) @ after)) = (kept, False)"
    using assms(3) marker_lines keep_block [OF marker_lines(1) body marker_lines(2) assms(2)] keep_all_lines [OF rest]
    by (simp add: installed_lines [OF assms(1)] keep_lines del: remove_blocks.simps)
  then show ?thesis by (auto simp: remove_profile_block_bytes_def)
qed

section \<open>Install and uninstall\<close>



section \<open>A marker without its end\<close>

text \<open>Below a start marker that lost its end, the removal takes the lines of the user along with the block.\<close>

theorem unended_marker_takes_lines:
  "remove_profile_block_bytes
     (PROFILE_BLOCK_START @ [line_feed] @ ''alias m=x'' @ [line_feed] @ concat (install_block PosixShell ''/b'')) [''/b''] = Some []"
  by code_simp

end
