(* ===== verification/Uninstall.thy ===== *)
theory Uninstall
  imports Profile_Block Protected_Path Service_Record "HOL-Library.Product_Lexorder"
begin

text \<open>
  \<^verbatim>\<open>rocm uninstall\<close> on Unix: the plan (\<^verbatim>\<open>apps/rocm/src/uninstall_plan.rs\<close>) and its execution
  (\<^verbatim>\<open>apps/rocm/src/uninstall.rs\<close>). Paths are their text. While the plan is built the files answer by
  the fields of an environment, one for each question; while it is carried out everything answers anew
  at every question, by a clock that counts them. Every change of the disk is noted, with the lines
  reported. What the notes of the plan say is kept as a value, their wording is not.
\<close>

section \<open>Paths\<close>

text \<open>What is cut out of a path is spelled by its components; where the code would keep repeated separators
  inside, the path of the running program, from which all of these are cut, has none.\<close>

definition path_parts :: "string \<Rightarrow> string list" where
  "path_parts p = filter (\<lambda>w. w \<noteq> [] \<and> w \<noteq> ''.'') (split_slash p)"

definition is_rooted :: "string \<Rightarrow> bool" where
  "is_rooted p \<longleftrightarrow> prefix ''/'' p"

text \<open>A relative path keeps a \<^verbatim>\<open>.\<close> in front.\<close>

definition lead_parts :: "string \<Rightarrow> string list" where
  "lead_parts p = (if \<not> is_rooted p \<and> hd (split_slash p) = ''.'' then [''.''] else [])"

definition entry_path :: "string \<Rightarrow> string" where
  "entry_path p = (if is_rooted p then ''/'' else []) @ join_slash (lead_parts p @ path_parts p)"

definition same_path :: "string \<Rightarrow> string \<Rightarrow> bool" where
  "same_path a b \<longleftrightarrow> entry_path a = entry_path b"

text \<open>The order of paths: by their components, a root before \<^verbatim>\<open>.\<close> before \<^verbatim>\<open>..\<close> before names.\<close>

definition component_key :: "string \<Rightarrow> nat \<times> string" where
  "component_key w = (if w = ''.'' then 1 else if w = ''..'' then 2 else 3, w)"

definition path_key :: "string \<Rightarrow> (nat \<times> string) list" where
  "path_key p = (if is_rooted p then [(0, [])] else []) @ map component_key (lead_parts p @ path_parts p)"

definition path_name :: "string \<Rightarrow> string option" where
  "path_name p = (let ps = path_parts p in if ps = [] \<or> last ps = ''..'' then None else Some (last ps))"

definition path_parent :: "string \<Rightarrow> string option" where
  "path_parent p =
     (let ps = lead_parts p @ path_parts p in
      if ps = [] then None else Some ((if is_rooted p then ''/'' else []) @ join_slash (butlast ps)))"

definition join_path :: "string \<Rightarrow> string \<Rightarrow> string" where
  "join_path base name = path_join Linux base name"

definition spelled_as_directory :: "string \<Rightarrow> bool" where
  "spelled_as_directory p \<longleftrightarrow> ends_with p ''/'' \<or> ends_with p ''/.''"

section \<open>What a path names\<close>

datatype stat_answer = StatFile | StatDir | StatLink | StatOther | StatNotFound | StatNotADirectory | StatFailed

definition existing_entry :: "(string \<Rightarrow> stat_answer) \<Rightarrow> string \<Rightarrow> unit + (string \<times> stat_answer) option" where
  "existing_entry stat p =
     (let entry = entry_path p; answer = stat entry in
      if answer = StatNotFound \<or> answer = StatNotADirectory then Inr None
      else if answer = StatFailed then Inl ()
      else if spelled_as_directory p \<and> answer \<noteq> StatDir \<and> answer \<noteq> StatLink then Inr None
      else Inr (Some (entry, answer)))"

section \<open>The plan\<close>

record uninstall_options =
  uo_yes :: bool
  uo_dry_run :: bool
  uo_keep_binaries :: bool
  uo_keep_config :: bool
  uo_keep_data :: bool
  uo_keep_cache :: bool
  uo_force_dev_binaries :: bool

datatype entry_kind = BinaryEntry | ConfigEntry | DataEntry | CacheEntry

record plan_entry =
  en_kind :: entry_kind
  en_path :: string

datatype path_edit = ShellProfile string "string list" | UserPath string

datatype skipped_note =
    KeptByFlag entry_kind | BinariesKept | DevLayout string | NotPresent entry_kind string
  | NothingToUndo string | SharedFolder string "string list" "string option"

datatype plan_warning =
    RecordUnreadable string | RecordedProfileUnreadable string | ProfileUnreadable string | FolderUnlisted string
  | SharedCache string | ServicesRemain nat | HelperRuns bool | SessionsUnread | SessionsRemain "string list"

record uninstall_plan =
  up_actions :: "plan_entry list"
  up_skipped :: "skipped_note list"
  up_warnings :: "plan_warning list"
  up_path_edits :: "path_edit list"
  up_path_record :: "string option"
  up_self_delete :: "string option"

definition no_removals :: uninstall_plan where
  "no_removals = \<lparr>up_actions = [], up_skipped = [], up_warnings = [], up_path_edits = [], up_path_record = None,
     up_self_delete = None\<rparr>"

text \<open>An entry of the folder of the program: its name, whether that is UTF-8, and whether it is a file.\<close>

record folder_entry =
  fe_name :: string
  fe_text :: bool
  fe_file :: bool

datatype read_answer = Content string | ReadNotFound | ReadFailed

record plan_env =
  pe_exe :: "string option"
  pe_home :: "string option"
  pe_stat :: "string \<Rightarrow> stat_answer"
  pe_listing :: "folder_entry list option"
  pe_listing_again :: "folder_entry list option"
  pe_read :: "string \<Rightarrow> read_answer"
  pe_canonical :: "string \<Rightarrow> string option"
  pe_exists :: "string \<Rightarrow> bool"
  pe_var :: "string \<Rightarrow> string option"
  pe_services :: nat
  pe_helper :: "(bool \<times> bool) option"
  pe_sessions :: "string list option"

datatype plan_error = ProgramUnknown | ProgramFolderUnknown | ProgramFolderUnread | CannotCheck entry_kind string

definition PATH_EDIT_RECORD :: string where "PATH_EDIT_RECORD = ''.rocm-cli-path-edit''"

definition is_rocm_install_entry_name :: "string \<Rightarrow> bool" where
  "is_rocm_install_entry_name name \<longleftrightarrow>
     name = ''.rocm-cli-manifest'' \<or> name = PATH_EDIT_RECORD \<or>
     (let normalized = (if ends_with name ''.exe'' then take (length name - 4) name else name)
      in normalized = ''rocm'' \<or> normalized = ''rocmd'' \<or> normalized = ''rocm-codex'' \<or> prefix ''rocm-engine-'' normalized)"

definition is_dev_binary_layout :: "string \<Rightarrow> bool" where
  "is_dev_binary_layout p \<longleftrightarrow>
     (case path_parent p of
        None \<Rightarrow> False
      | Some parent \<Rightarrow>
          path_name parent \<in> {Some ''debug'', Some ''release''} \<and>
          Option.bind (path_parent parent) path_name = Some ''target'')"

definition collect_installed_binary_candidates :: "plan_env \<Rightarrow> string \<Rightarrow> plan_error + string list" where
  "collect_installed_binary_candidates env exe =
     (case path_parent exe of
        None \<Rightarrow> Inl ProgramFolderUnknown
      | Some bin_dir \<Rightarrow>
          (case pe_listing env of
             None \<Rightarrow> Inl ProgramFolderUnread
           | Some entries \<Rightarrow>
               Inr (sort_key path_key (map (\<lambda>e. join_path bin_dir (fe_name e))
                 (filter (\<lambda>e. fe_text e \<and> fe_file e \<and> is_rocm_install_entry_name (fe_name e)) entries)))))"

section \<open>The change of the search path\<close>

definition split_lines :: "string \<Rightarrow> string list" where
  "split_lines s = map (\<lambda>l. if ends_with l [CHR 0x0A] then butlast l else l) (split_inclusive s)"

text \<open>A kind that is not UTF-8 is dropped by the code; here it stays, and equals no kind that is looked for.\<close>

definition parse_record_line :: "string \<Rightarrow> (string \<times> string) option" where
  "parse_record_line line0 =
     (let line = (if ends_with line0 [CHR 0x0D] then butlast line0 else line0) in
      case split_once (CHR '' '') line of
        None \<Rightarrow> None
      | Some (kind, target) \<Rightarrow> if blank_line target then None else Some (kind, target))"

definition parse_path_edit_record :: "string \<Rightarrow> (string \<times> string) list" where
  "parse_path_edit_record record_bytes = List.map_filter parse_record_line (split_lines record_bytes)"

definition push_new :: "'a list \<Rightarrow> 'a \<Rightarrow> 'a list" where
  "push_new xs x = (if x \<in> set xs then xs else xs @ [x])"

definition with_resolved :: "plan_env \<Rightarrow> string \<Rightarrow> string list" where
  "with_resolved env p =
     (let resolved = (case pe_canonical env p of Some r \<Rightarrow> r | None \<Rightarrow> p)
      in if same_path resolved p then [p] else [p, resolved])"

text \<open>The spelling of a folder below a home folder, by its components.\<close>

definition home_spelling :: "string \<Rightarrow> string \<Rightarrow> string option" where
  "home_spelling bin home =
     (if same_path bin home then Some ''$HOME''
      else if is_rooted bin = is_rooted home \<and> prefix (lead_parts home @ path_parts home) (lead_parts bin @ path_parts bin)
      then Some (''$HOME/'' @ join_slash (drop (length (lead_parts home @ path_parts home)) (lead_parts bin @ path_parts bin)))
      else None)"

definition profile_path_exprs :: "plan_env \<Rightarrow> string \<Rightarrow> string list" where
  "profile_path_exprs env bin_dir =
     (let bins = with_resolved env bin_dir;
          homes = (case pe_home env of None \<Rightarrow> [] | Some h \<Rightarrow> with_resolved env h)
      in foldl (\<lambda>exprs bin.
           foldl (\<lambda>exprs home. case home_spelling bin home of Some e \<Rightarrow> push_new exprs e | None \<Rightarrow> exprs)
             (push_new exprs bin) homes) [] bins)"

definition legacy_profile_candidates :: "string \<Rightarrow> string list" where
  "legacy_profile_candidates home =
     [join_path home ''.bashrc'', join_path home ''.zshrc'',
      join_path (join_path (join_path home ''.config'') ''fish'') ''config.fish'',
      join_path home ''.kshrc'', join_path home ''.profile'']"

definition contains_path :: "string list \<Rightarrow> string \<Rightarrow> bool" where
  "contains_path ps p \<longleftrightarrow> list_ex (same_path p) ps"

definition profile_has_block :: "plan_env \<Rightarrow> string \<Rightarrow> string list \<Rightarrow> unit + bool" where
  "profile_has_block env profile exprs =
     (case pe_read env profile of
        Content bytes \<Rightarrow> Inr (remove_profile_block_bytes bytes exprs \<noteq> None)
      | ReadNotFound \<Rightarrow> Inr False
      | ReadFailed \<Rightarrow> Inl ())"

record edit_search =
  es_edits :: "path_edit list"
  es_skipped :: "skipped_note list"
  es_warnings :: "plan_warning list"
  es_unreadable :: bool

definition search_profile :: "plan_env \<Rightarrow> string list \<Rightarrow> string list \<Rightarrow> edit_search \<Rightarrow> string \<Rightarrow> edit_search" where
  "search_profile env exprs recorded found profile =
     (case profile_has_block env profile exprs of
        Inr True \<Rightarrow> found\<lparr>es_edits := es_edits found @ [ShellProfile profile exprs]\<rparr>
      | Inr False \<Rightarrow>
          if contains_path recorded profile then found\<lparr>es_skipped := es_skipped found @ [NothingToUndo profile]\<rparr> else found
      | Inl _ \<Rightarrow>
          if contains_path recorded profile
          then found\<lparr>es_warnings := es_warnings found @ [RecordedProfileUnreadable profile],
                     es_edits := es_edits found @ [ShellProfile profile exprs]\<rparr>
          else found\<lparr>es_warnings := es_warnings found @ [ProfileUnreadable profile], es_unreadable := True\<rparr>)"

definition other_entries :: "plan_env \<Rightarrow> string \<Rightarrow> string list \<Rightarrow> string list option" where
  "other_entries env bin_dir removed =
     map_option (\<lambda>entries.
       sort (map fe_name (filter (\<lambda>e. \<not> contains_path removed (join_path bin_dir (fe_name e)) \<and>
         \<not> is_rocm_install_entry_name (fe_name e)) entries))) (pe_listing_again env)"

text \<open>The spellings a block may use, and the profiles looked at: those recorded, then those of every shell.\<close>

definition recorded_edits :: "read_answer \<Rightarrow> (string \<times> string) list" where
  "recorded_edits answer = (case answer of Content bytes \<Rightarrow> parse_path_edit_record bytes | _ \<Rightarrow> [])"

definition recorded_of :: "string \<Rightarrow> (string \<times> string) list \<Rightarrow> string list" where
  "recorded_of kind entries = map snd (filter (\<lambda>e. fst e = kind) entries)"

definition block_exprs :: "plan_env \<Rightarrow> string \<Rightarrow> (string \<times> string) list \<Rightarrow> string list" where
  "block_exprs env bin_dir entries = foldl push_new (profile_path_exprs env bin_dir) (recorded_of ''path-expr'' entries)"

definition push_path :: "string list \<Rightarrow> string \<Rightarrow> string list" where
  "push_path ps p = (if contains_path ps p then ps else ps @ [p])"

definition profile_candidates :: "plan_env \<Rightarrow> (string \<times> string) list \<Rightarrow> string list" where
  "profile_candidates env entries =
     foldl push_path (recorded_of ''profile'' entries)
       (case pe_home env of None \<Rightarrow> [] | Some h \<Rightarrow> legacy_profile_candidates h)"

definition plan_path_edits :: "plan_env \<Rightarrow> string \<Rightarrow> string list \<Rightarrow> uninstall_plan \<Rightarrow> uninstall_plan" where
  "plan_path_edits env bin_dir removed plan =
     (let record_path = join_path bin_dir PATH_EDIT_RECORD; answer = pe_read env record_path in
      if answer = ReadFailed then plan\<lparr>up_warnings := up_warnings plan @ [RecordUnreadable record_path]\<rparr>
      else
        (let entries = recorded_edits answer;
             found = foldl (search_profile env (block_exprs env bin_dir entries) (recorded_of ''profile'' entries))
               \<lparr>es_edits = [], es_skipped = up_skipped plan, es_warnings = up_warnings plan, es_unreadable = False\<rparr>
               (profile_candidates env entries);
             recorded_there = (answer \<noteq> ReadNotFound);
             plan1 = plan\<lparr>up_skipped := es_skipped found, up_warnings := es_warnings found\<rparr>;
             plan2 = (if recorded_there \<and> \<not> es_unreadable found then plan1\<lparr>up_path_record := Some record_path\<rparr> else plan1)
         in if es_edits found = [] then plan2
            else (case other_entries env bin_dir removed of
              None \<Rightarrow> plan1\<lparr>up_warnings := up_warnings plan1 @ [FolderUnlisted bin_dir]\<rparr>
            | Some others \<Rightarrow>
                if others = [] then plan2\<lparr>up_path_edits := es_edits found\<rparr>
                else plan1\<lparr>up_skipped := up_skipped plan1 @
                  [SharedFolder bin_dir others (if recorded_there then Some record_path else None)]\<rparr>)))"

definition plan_installed_binaries :: "uninstall_options \<Rightarrow> plan_env \<Rightarrow> uninstall_plan \<Rightarrow> plan_error + uninstall_plan" where
  "plan_installed_binaries options env plan =
     (if uo_keep_binaries options then Inr (plan\<lparr>up_skipped := up_skipped plan @ [BinariesKept]\<rparr>)
      else case pe_exe env of
        None \<Rightarrow> Inl ProgramUnknown
      | Some exe \<Rightarrow>
          if is_dev_binary_layout exe \<and> \<not> uo_force_dev_binaries options
          then Inr (plan\<lparr>up_skipped := up_skipped plan @ [DevLayout exe]\<rparr>)
          else bind_result (collect_installed_binary_candidates env exe) (\<lambda>binaries.
            let plan1 = plan\<lparr>up_actions := up_actions plan @
                  map (\<lambda>p. \<lparr>en_kind = BinaryEntry, en_path = p\<rparr>)
                    (filter (\<lambda>p. path_name p \<noteq> Some PATH_EDIT_RECORD) binaries)\<rparr>
            in Inr (case path_parent exe of
                 None \<Rightarrow> plan1
               | Some bin_dir \<Rightarrow> plan_path_edits env bin_dir binaries plan1)))"

section \<open>The whole plan\<close>

definition plan_root ::
  "plan_env \<Rightarrow> bool \<Rightarrow> entry_kind \<Rightarrow> string \<Rightarrow> uninstall_plan \<Rightarrow> plan_error + uninstall_plan" where
  "plan_root env keep kind p plan =
     (if keep then Inr (plan\<lparr>up_skipped := up_skipped plan @ [KeptByFlag kind]\<rparr>)
      else case existing_entry (pe_stat env) p of
        Inl _ \<Rightarrow> Inl (CannotCheck kind p)
      | Inr (Some (entry, _)) \<Rightarrow> Inr (plan\<lparr>up_actions := up_actions plan @ [\<lparr>en_kind = kind, en_path = entry\<rparr>]\<rparr>)
      | Inr None \<Rightarrow> Inr (plan\<lparr>up_skipped := up_skipped plan @ [NotPresent kind p]\<rparr>))"

definition env_path :: "plan_env \<Rightarrow> string \<Rightarrow> string option" where
  "env_path env name = (case pe_var env name of Some v \<Rightarrow> if v = [] then None else Some v | None \<Rightarrow> None)"

definition or_else :: "'a option \<Rightarrow> 'a option \<Rightarrow> 'a option" where
  "or_else a b = (case a of Some x \<Rightarrow> Some x | None \<Rightarrow> b)"

definition shared_cache_candidates :: "plan_env \<Rightarrow> string list" where
  "shared_cache_candidates env =
     (let below = (\<lambda>names. map_option (\<lambda>home. foldl join_path home names) (pe_home env))
      in List.map_filter (\<lambda>c. c)
        [or_else (env_path env ''UV_CACHE_DIR'') (below [''.cache'', ''uv'']),
         or_else (map_option (\<lambda>home. join_path home ''hub'') (env_path env ''HF_HOME''))
           (or_else (env_path env ''HUGGINGFACE_HUB_CACHE'') (below [''.cache'', ''huggingface'', ''hub'']))])"

definition path_starts_with :: "string \<Rightarrow> string \<Rightarrow> bool" where
  "path_starts_with p base \<longleftrightarrow>
     is_rooted p = is_rooted base \<and> prefix (lead_parts base @ path_parts base) (lead_parts p @ path_parts p)"

definition shared_cache_notes :: "plan_env \<Rightarrow> app_paths \<Rightarrow> plan_warning list" where
  "shared_cache_notes env paths =
     map SharedCache (filter (\<lambda>p. pe_exists env p \<and>
       \<not> list_ex (path_starts_with p) [config_dir paths, data_dir paths, cache_dir paths]) (shared_cache_candidates env))"

definition remaining_notes :: "plan_env \<Rightarrow> plan_warning list" where
  "remaining_notes env =
     (if pe_services env = 0 then [] else [ServicesRemain (pe_services env)])
     @ (case pe_helper env of Some (running, outlives) \<Rightarrow> if running then [HelperRuns outlives] else [] | None \<Rightarrow> [])
     @ (case pe_sessions env of
          None \<Rightarrow> [SessionsUnread] | Some ids \<Rightarrow> if ids = [] then [] else [SessionsRemain ids])"

text \<open>\<^verbatim>\<open>dedup_by\<close>: of neighbours that are the same path the first stays.\<close>

fun dedup_entries :: "plan_entry list \<Rightarrow> plan_entry list" where
  "dedup_entries [] = []"
| "dedup_entries [e] = [e]"
| "dedup_entries (e # f # es) =
     (if same_path (en_path e) (en_path f) then dedup_entries (e # es) else e # dedup_entries (f # es))"

definition build_uninstall_plan :: "plan_env \<Rightarrow> app_paths \<Rightarrow> uninstall_options \<Rightarrow> plan_error + uninstall_plan" where
  "build_uninstall_plan env paths options =
     bind_result (plan_installed_binaries options env no_removals) (\<lambda>plan1.
       bind_result (plan_root env (uo_keep_config options) ConfigEntry (config_dir paths) plan1) (\<lambda>plan2.
         bind_result (plan_root env (uo_keep_data options) DataEntry (data_dir paths) plan2) (\<lambda>plan3.
           bind_result (plan_root env (uo_keep_cache options) CacheEntry (cache_dir paths) plan3) (\<lambda>plan4.
             Inr (plan4\<lparr>up_warnings := up_warnings plan4 @ shared_cache_notes env paths @ remaining_notes env,
                        up_actions := dedup_entries (sort_key (\<lambda>e. path_key (en_path e)) (up_actions plan4))\<rparr>)))))"

definition plan_is_empty :: "uninstall_plan \<Rightarrow> bool" where
  "plan_is_empty plan \<longleftrightarrow>
     up_actions plan = [] \<and> up_path_edits plan = [] \<and> up_path_record plan = None \<and> up_self_delete plan = None"

definition removal_count :: "uninstall_plan \<Rightarrow> nat" where
  "removal_count plan =
     length (up_actions plan) + (if up_path_record plan \<noteq> None then 1 else 0) + (if up_self_delete plan \<noteq> None then 1 else 0)"

section \<open>Carrying it out\<close>

record run_env =
  rx_stat :: "nat \<Rightarrow> string \<Rightarrow> stat_answer"
  rx_read :: "nat \<Rightarrow> string \<Rightarrow> string option"
  rx_canonical :: "nat \<Rightarrow> string \<Rightarrow> string option"
  rx_done :: "nat \<Rightarrow> bool"

text \<open>The steps of a run, as they are reported, and what a run does to the disk. A removal of a folder that
  fails may have removed part of it.\<close>

datatype step = UndoEdit path_edit | RemoveEntry plan_entry | RemoveRecord string | RemoveProgram string

datatype run_event =
    Unlinked string | TreeRemoved string | TreeDamaged string
  | TempCreated string | Replaced string string | Reported step

record run_state =
  rn_clock :: nat
  rn_log :: "run_event list"

definition tick :: "run_state \<Rightarrow> run_state" where
  "tick s = s\<lparr>rn_clock := Suc (rn_clock s)\<rparr>"

definition noted :: "run_event \<Rightarrow> run_state \<Rightarrow> run_state" where
  "noted ev s = s\<lparr>rn_log := rn_log s @ [ev]\<rparr>"

datatype run_error = EditFailed path_edit | RemovalFailed string | NotConfirmable

text \<open>An operation of the disk: done, with its event, or failed, with the event of a failure if it has one.\<close>

definition attempt :: "run_env \<Rightarrow> run_event list \<Rightarrow> run_event list \<Rightarrow> run_state \<Rightarrow> bool \<times> run_state" where
  "attempt env done_events failed_events s =
     (if rx_done env (rn_clock s) then (True, fold noted done_events (tick s)) else (False, fold noted failed_events (tick s)))"

definition remove_path :: "run_env \<Rightarrow> string \<Rightarrow> run_state \<Rightarrow> bool \<times> run_state" where
  "remove_path env p s =
     (case existing_entry (rx_stat env (rn_clock s)) p of
        Inl _ \<Rightarrow> (False, tick s)
      | Inr None \<Rightarrow> (True, tick s)
      | Inr (Some (entry, answer)) \<Rightarrow>
          if answer = StatLink \<or> answer = StatFile then attempt env [Unlinked entry] [] (tick s)
          else if answer = StatDir then attempt env [TreeRemoved entry] [TreeDamaged entry] (tick s)
          else (False, tick s))"

definition temp_of :: "string \<Rightarrow> string \<Rightarrow> string" where
  "temp_of target name =
     (case path_parent target of Some parent \<Rightarrow> join_path parent (name @ ''.rocm-uninstall.tmp'')
      | None \<Rightarrow> name @ ''.rocm-uninstall.tmp'')"

text \<open>Writing, syncing, the permissions and the rename fail alike: the file beside is removed again.\<close>

definition write_replacing :: "run_env \<Rightarrow> string \<Rightarrow> string \<Rightarrow> run_state \<Rightarrow> bool \<times> run_state" where
  "write_replacing env target contents s =
     (case path_name target of
        None \<Rightarrow> (False, s)
      | Some name \<Rightarrow>
          (let temp = temp_of target name; (permissions, s1) = attempt env [] [] s in
           if \<not> permissions then (False, s1)
           else
             (let there = rx_stat env (rn_clock s1) temp;
                  s2 = (if there \<in> {StatFile, StatLink, StatOther} then snd (attempt env [Unlinked temp] [] (tick s1)) else tick s1);
                  (created, s3) = attempt env [TempCreated temp] [] s2
              in if \<not> created then (False, s3)
                 else (let (replaced, s4) = attempt env [Replaced target contents] [] s3 in
                   if replaced then (True, s4) else (False, snd (attempt env [Unlinked temp] [] s4))))))"

definition apply_path_edit :: "run_env \<Rightarrow> path_edit \<Rightarrow> run_state \<Rightarrow> bool \<times> run_state" where
  "apply_path_edit env edit s =
     (case edit of
        UserPath dir \<Rightarrow> (False, s)
      | ShellProfile profile exprs \<Rightarrow>
          (case rx_read env (rn_clock s) profile of
             None \<Rightarrow> (False, tick s)
           | Some bytes \<Rightarrow>
               (case remove_profile_block_bytes bytes exprs of
                  None \<Rightarrow> (True, tick s)
                | Some updated \<Rightarrow>
                    (let s1 = tick s in
                     case rx_canonical env (rn_clock s1) profile of
                       None \<Rightarrow> (False, tick s1)
                     | Some target \<Rightarrow> write_replacing env target updated (tick s1)))))"

fun undo_edits :: "run_env \<Rightarrow> path_edit list \<Rightarrow> run_state \<Rightarrow> (run_error + unit) \<times> run_state" where
  "undo_edits env [] s = (Inr (), s)"
| "undo_edits env (edit # edits) s =
     (let (ok, s1) = apply_path_edit env edit s in
      if ok then undo_edits env edits (noted (Reported (UndoEdit edit)) s1) else (Inl (EditFailed edit), s1))"

fun remove_entries :: "run_env \<Rightarrow> plan_entry list \<Rightarrow> run_state \<Rightarrow> (run_error + unit) \<times> run_state" where
  "remove_entries env [] s = (Inr (), s)"
| "remove_entries env (e # es) s =
     (let (ok, s1) = remove_path env (en_path e) s in
      if ok then remove_entries env es (noted (Reported (RemoveEntry e)) s1) else (Inl (RemovalFailed (en_path e)), s1))"

definition remove_one :: "run_env \<Rightarrow> (string \<Rightarrow> step) \<Rightarrow> string option \<Rightarrow> run_state \<Rightarrow> (run_error + unit) \<times> run_state" where
  "remove_one env report_as p s =
     (case p of
        None \<Rightarrow> (Inr (), s)
      | Some q \<Rightarrow>
          (let (ok, s1) = remove_path env q s in
           if ok then (Inr (), noted (Reported (report_as q)) s1) else (Inl (RemovalFailed q), s1)))"

definition then_run ::
  "(run_error + unit) \<times> run_state \<Rightarrow> (run_state \<Rightarrow> (run_error + unit) \<times> run_state) \<Rightarrow> (run_error + unit) \<times> run_state" where
  "then_run r f = (case r of (Inl e, s) \<Rightarrow> (Inl e, s) | (Inr _, s) \<Rightarrow> f s)"

definition is_binary :: "plan_entry \<Rightarrow> bool" where
  "is_binary e \<longleftrightarrow> en_kind e = BinaryEntry"

definition execute_plan :: "run_env \<Rightarrow> uninstall_plan \<Rightarrow> run_state \<Rightarrow> (run_error + unit) \<times> run_state" where
  "execute_plan env plan s =
     then_run (undo_edits env (up_path_edits plan) s) (\<lambda>s1.
       then_run (remove_entries env (filter (\<lambda>e. \<not> is_binary e) (up_actions plan) @ filter is_binary (up_actions plan)) s1) (\<lambda>s2.
         then_run (remove_one env RemoveRecord (up_path_record plan) s2)
           (remove_one env RemoveProgram (up_self_delete plan))))"

section \<open>The command\<close>

definition require_yes_or_interactive :: "bool \<Rightarrow> bool \<Rightarrow> run_error + bool" where
  "require_yes_or_interactive yes interactive =
     (if yes then Inr True else if \<not> interactive then Inl NotConfirmable else Inr False)"

definition is_affirmative_answer :: "string \<Rightarrow> bool" where
  "is_affirmative_answer line \<longleftrightarrow> to_ascii_lowercase (trim line) \<in> {''y'', ''yes''}"

datatype uninstall_result =
    PlanFailed plan_error | NothingDone uninstall_plan | Cancelled uninstall_plan
  | Stopped uninstall_plan run_error | Completed uninstall_plan

text \<open>The answer is none if it cannot be asked for or read.\<close>

definition uninstall ::
  "plan_env \<Rightarrow> run_env \<Rightarrow> app_paths \<Rightarrow> uninstall_options \<Rightarrow> bool \<Rightarrow> string option \<Rightarrow> run_state \<Rightarrow>
     uninstall_result \<times> run_state" where
  "uninstall penv renv paths options interactive answer s =
     (case build_uninstall_plan penv paths options of
        Inl e \<Rightarrow> (PlanFailed e, s)
      | Inr plan \<Rightarrow>
          if plan_is_empty plan \<or> uo_dry_run options then (NothingDone plan, s)
          else case require_yes_or_interactive (uo_yes options) interactive of
            Inl e \<Rightarrow> (Stopped plan e, s)
          | Inr already_approved \<Rightarrow>
              if \<not> already_approved \<and> answer = None then (Stopped plan NotConfirmable, s)
              else if \<not> already_approved \<and> \<not> is_affirmative_answer (the answer) then (Cancelled plan, s)
              else (case execute_plan renv plan s of
                (Inl e, s1) \<Rightarrow> (Stopped plan e, s1)
              | (Inr _, s1) \<Rightarrow> (Completed plan, s1)))"

end
