(* ===== verification/Uninstall_Properties.thy ===== *)
theory Uninstall_Properties
  imports Uninstall
begin

text \<open>
  What \<^verbatim>\<open>rocm uninstall\<close> promises: it changes nothing without an approval, and then step by step what
  the review listed, in an order that leaves a failed run to be tried again; what the plan may list; and
  that the change of the search path is undone only where nothing else can rely on it.
\<close>

section \<open>Steps\<close>

definition plan_steps :: "uninstall_plan \<Rightarrow> step list" where
  "plan_steps plan =
     map UndoEdit (up_path_edits plan)
     @ map RemoveEntry (filter (\<lambda>e. \<not> is_binary e) (up_actions plan) @ filter is_binary (up_actions plan))
     @ (case up_path_record plan of Some p \<Rightarrow> [RemoveRecord p] | None \<Rightarrow> [])
     @ (case up_self_delete plan of Some p \<Rightarrow> [RemoveProgram p] | None \<Rightarrow> [])"

text \<open>What a step may do to the disk: a link is unlinked and only a real folder is removed with all below it;
  a profile is replaced by what is left of it without the block, through a file beside it.\<close>

definition removal_changes :: "run_env \<Rightarrow> string \<Rightarrow> run_event \<Rightarrow> bool" where
  "removal_changes env p c \<longleftrightarrow>
     c = Unlinked (entry_path p) \<and> (\<exists>n. rx_stat env n (entry_path p) \<in> {StatFile, StatLink}) \<or>
     c \<in> {TreeRemoved (entry_path p), TreeDamaged (entry_path p)} \<and> (\<exists>n. rx_stat env n (entry_path p) = StatDir)"

definition profile_changes :: "run_env \<Rightarrow> string \<Rightarrow> string list \<Rightarrow> run_event \<Rightarrow> bool" where
  "profile_changes env profile exprs c \<longleftrightarrow>
     (\<exists>m n target name bytes updated.
        rx_read env m profile = Some bytes \<and> remove_profile_block_bytes bytes exprs = Some updated \<and>
        rx_canonical env n profile = Some target \<and> path_name target = Some name \<and>
        c \<in> {Unlinked (temp_of target name), TempCreated (temp_of target name), Replaced target updated})"

fun step_changes :: "run_env \<Rightarrow> step \<Rightarrow> run_event \<Rightarrow> bool" where
  "step_changes env (UndoEdit (ShellProfile profile exprs)) c \<longleftrightarrow> profile_changes env profile exprs c"
| "step_changes env (UndoEdit (UserPath dir)) c \<longleftrightarrow> False"
| "step_changes env (RemoveEntry e) c \<longleftrightarrow> removal_changes env (en_path e) c"
| "step_changes env (RemoveRecord p) c \<longleftrightarrow> removal_changes env p c"
| "step_changes env (RemoveProgram p) c \<longleftrightarrow> removal_changes env p c"

text \<open>A run over steps: each is reported once it is done, and the first that fails is the last.\<close>

inductive carried_out :: "run_env \<Rightarrow> step list \<Rightarrow> run_event list \<Rightarrow> bool \<Rightarrow> bool" for env where
  all_done: "carried_out env [] [] True"
| step_done: "carried_out env (st # steps) (cs @ Reported st # evs) ok"
    if "list_all (step_changes env st) cs" "carried_out env steps evs ok"
| step_failed: "carried_out env (st # steps) cs False" if "list_all (step_changes env st) cs"

inductive_cases carried_out_Nil: "carried_out env [] evs ok"
inductive_cases carried_out_Cons: "carried_out env (st # steps) evs ok"

section \<open>One step\<close>

definition adds :: "(run_event \<Rightarrow> bool) \<Rightarrow> run_state \<Rightarrow> run_state \<Rightarrow> bool" where
  "adds P s s' \<longleftrightarrow> (\<exists>cs. rn_log s' = rn_log s @ cs \<and> list_all P cs)"

lemma adds_refl [simp, intro]: "adds P s s"
  by (simp add: adds_def)

lemma adds_tick [simp]: "adds P s (tick s') \<longleftrightarrow> adds P s s'" "adds P (tick s) s' \<longleftrightarrow> adds P s s'"
  by (simp_all add: adds_def tick_def)

lemma adds_trans: "adds P s t \<Longrightarrow> adds P t u \<Longrightarrow> adds P s u"
  by (auto simp: adds_def)

lemma adds_noted: "adds P s s' \<Longrightarrow> P ev \<Longrightarrow> adds P s (noted ev s')"
  by (auto simp: adds_def noted_def)

lemma attempt_adds:
  "attempt env ds fs s = (ok, s') \<Longrightarrow> list_all P ds \<Longrightarrow> list_all P fs \<Longrightarrow> adds P s s'"
proof -
  assume r: "attempt env ds fs s = (ok, s')" "list_all P ds" "list_all P fs"
  have "adds P s (fold noted evs t)" if "adds P s t" "list_all P evs" for evs t
    using that by (induction evs arbitrary: t) (auto intro: adds_noted)
  with r show ?thesis by (auto simp: attempt_def split: if_splits)
qed

lemma existing_entry_Some:
  "existing_entry stat p = Inr (Some (entry, answer)) \<Longrightarrow> entry = entry_path p \<and> answer = stat entry"
  by (auto simp: existing_entry_def Let_def split: if_splits)

lemma remove_path_adds:
  assumes "remove_path env p s = (ok, s')"
  shows "adds (removal_changes env p) s s'"
proof (cases "existing_entry (rx_stat env (rn_clock s)) p")
  case (Inl e)
  then show ?thesis using assms by (auto simp: remove_path_def)
next
  case (Inr found)
  show ?thesis
  proof (cases found)
    case None
    then show ?thesis using Inr assms by (auto simp: remove_path_def)
  next
    case (Some ea)
    obtain entry answer where ea: "ea = (entry, answer)" by (cases ea)
    have there: "entry = entry_path p" "rx_stat env (rn_clock s) (entry_path p) = answer"
      using existing_entry_Some [of "rx_stat env (rn_clock s)" p entry answer] Inr Some ea by auto
    show ?thesis
      using assms Inr Some ea there
      by (auto simp: remove_path_def removal_changes_def split: if_splits dest!: attempt_adds [where P = "removal_changes env p"])
  qed
qed

lemma step_changes_of:
  "step_changes env (UndoEdit (ShellProfile profile exprs)) = profile_changes env profile exprs"
  "step_changes env (RemoveEntry e) = removal_changes env (en_path e)"
  "step_changes env (RemoveRecord p) = removal_changes env p"
  "step_changes env (RemoveProgram p) = removal_changes env p"
  by (simp_all add: fun_eq_iff)

lemma write_replacing_adds:
  assumes "write_replacing env target contents s = (ok, s')"
    and "\<And>name. path_name target = Some name \<Longrightarrow>
      P (Unlinked (temp_of target name)) \<and> P (TempCreated (temp_of target name)) \<and> P (Replaced target contents)"
  shows "adds P s s'"
proof (cases "path_name target")
  case None
  then show ?thesis using assms(1) by (simp add: write_replacing_def)
next
  case (Some name)
  let ?temp = "temp_of target name"
  have P: "P (Unlinked ?temp)" "P (TempCreated ?temp)" "P (Replaced target contents)" using assms(2) [OF Some] by simp_all
  obtain permissions s1 where a1: "attempt env [] [] s = (permissions, s1)" by force
  have t1: "adds P s s1" using attempt_adds [OF a1] by simp
  show ?thesis
  proof (cases permissions)
    case False
    then show ?thesis using assms(1) Some a1 t1 by (simp add: write_replacing_def Let_def)
  next
    case True
    let ?s2 = "if rx_stat env (rn_clock s1) ?temp \<in> {StatFile, StatLink, StatOther}
      then snd (attempt env [Unlinked ?temp] [] (tick s1)) else tick s1"
    obtain gone0 s1' where a2: "attempt env [Unlinked ?temp] [] (tick s1) = (gone0, s1')" by force
    have "adds P s1 (snd (attempt env [Unlinked ?temp] [] (tick s1)))"
      using attempt_adds [OF a2, of P] P a2 by simp
    then have t2: "adds P s ?s2" using t1 by (auto intro: adds_trans)
    obtain created s3 where a3: "attempt env [TempCreated ?temp] [] ?s2 = (created, s3)" by force
    have t3: "adds P s s3" using t2 attempt_adds [OF a3, of P] P by (auto intro: adds_trans)
    show ?thesis
    proof (cases created)
      case False
      then show ?thesis using assms(1) Some a1 a3 t3 \<open>permissions\<close> by (simp add: write_replacing_def Let_def)
    next
      case True
      obtain replaced s4 where a4: "attempt env [Replaced target contents] [] s3 = (replaced, s4)" by force
      have t4: "adds P s s4" using t3 attempt_adds [OF a4, of P] P by (auto intro: adds_trans)
      obtain gone s5 where a5: "attempt env [Unlinked ?temp] [] s4 = (gone, s5)" by force
      have t5: "adds P s s5" using t4 attempt_adds [OF a5, of P] P by (auto intro: adds_trans)
      have "s' = s4 \<or> s' = s5"
        using assms(1) Some a1 a3 a4 a5 True \<open>permissions\<close> by (auto simp: write_replacing_def Let_def split: if_splits)
      then show ?thesis using t4 t5 by auto
    qed
  qed
qed

lemma apply_path_edit_adds:
  assumes "apply_path_edit env edit s = (ok, s')"
  shows "adds (step_changes env (UndoEdit edit)) s s'"
proof (cases edit)
  case (UserPath dir)
  then show ?thesis using assms by (simp add: apply_path_edit_def)
next
  case (ShellProfile profile exprs)
  show ?thesis
  proof (cases "rx_read env (rn_clock s) profile")
    case None
    then show ?thesis using assms ShellProfile by (auto simp: apply_path_edit_def)
  next
    case read: (Some bytes)
    show ?thesis
    proof (cases "remove_profile_block_bytes bytes exprs")
      case None
      then show ?thesis using assms ShellProfile read by (auto simp: apply_path_edit_def)
    next
      case left: (Some updated)
      show ?thesis
      proof (cases "rx_canonical env (rn_clock (tick s)) profile")
        case None
        then show ?thesis using assms ShellProfile read left by (auto simp: apply_path_edit_def Let_def)
      next
        case (Some target)
        have "write_replacing env target updated (tick (tick s)) = (ok, s')"
          using assms ShellProfile read left Some by (simp add: apply_path_edit_def Let_def)
        then have "adds (profile_changes env profile exprs) (tick (tick s)) s'"
        proof (rule write_replacing_adds)
          fix name assume "path_name target = Some name"
          then show "profile_changes env profile exprs (Unlinked (temp_of target name)) \<and>
              profile_changes env profile exprs (TempCreated (temp_of target name)) \<and>
              profile_changes env profile exprs (Replaced target updated)"
            using read left Some unfolding profile_changes_def by blast
        qed
        then show ?thesis using ShellProfile by (simp add: step_changes_of)
      qed
    qed
  qed
qed

section \<open>All steps\<close>

text \<open>A run from one state to another that does some steps, and what a run does with later steps after it.\<close>

definition runs_over :: "run_env \<Rightarrow> step list \<Rightarrow> run_state \<Rightarrow> bool \<Rightarrow> run_state \<Rightarrow> bool" where
  "runs_over env steps s ok s' \<longleftrightarrow> (\<exists>evs. rn_log s' = rn_log s @ evs \<and> carried_out env steps evs ok)"

lemma carried_out_append:
  "carried_out env steps evs True \<Longrightarrow> carried_out env later evs2 ok \<Longrightarrow> carried_out env (steps @ later) (evs @ evs2) ok"
proof (induction steps arbitrary: evs)
  case Nil
  from Nil(1) have "evs = []" by (rule carried_out_Nil) auto
  then show ?case using Nil by simp
next
  case (Cons st steps)
  from Cons.prems(1) obtain cs rest where e: "evs = cs @ Reported st # rest" "list_all (step_changes env st) cs"
    "carried_out env steps rest True" by (rule carried_out_Cons) auto
  have "carried_out env (steps @ later) (rest @ evs2) ok" by (rule Cons.IH [OF e(3) Cons.prems(2)])
  then show ?case using e carried_out.step_done [of env st cs "steps @ later" "rest @ evs2" ok] by simp
qed

lemma carried_out_stopped: "carried_out env steps evs False \<Longrightarrow> carried_out env (steps @ later) evs False"
proof (induction steps arbitrary: evs)
  case Nil
  from Nil show ?case by (rule carried_out_Nil) auto
next
  case (Cons st steps)
  from Cons.prems show ?case
  proof (rule carried_out_Cons)
    fix cs evs' assume "evs = cs @ Reported st # evs'" "list_all (step_changes env st) cs" "carried_out env steps evs' False"
    then show ?thesis using Cons.IH carried_out.step_done [of env st cs "steps @ later" evs' False] by simp
  next
    assume "list_all (step_changes env st) evs"
    then show ?thesis using carried_out.step_failed [of env st evs "steps @ later"] by simp
  qed
qed

lemma runs_done: "runs_over env steps s True t \<Longrightarrow> runs_over env later t ok u \<Longrightarrow> runs_over env (steps @ later) s ok u"
  unfolding runs_over_def using carried_out_append by fastforce

lemma runs_stopped: "runs_over env steps s False t \<Longrightarrow> runs_over env (steps @ later) s False t"
  unfolding runs_over_def using carried_out_stopped by fastforce

lemma runs_Nil: "runs_over env [] s True s"
  by (simp add: runs_over_def carried_out.all_done)

lemma runs_one_done: "adds (step_changes env st) s t \<Longrightarrow> runs_over env [st] s True (noted (Reported st) t)"
  unfolding runs_over_def adds_def noted_def
  using carried_out.step_done [OF _ carried_out.all_done] by fastforce

lemma runs_one_failed: "adds (step_changes env st) s t \<Longrightarrow> runs_over env [st] s False t"
  unfolding runs_over_def adds_def using carried_out.step_failed by fastforce

abbreviation (input) went :: "run_env \<Rightarrow> step list \<Rightarrow> run_state \<Rightarrow> (run_error + unit) \<times> run_state \<Rightarrow> bool" where
  "went env steps s r \<equiv> runs_over env steps s (fst r = Inr ()) (snd r)"

lemma went_step:
  assumes "adds (step_changes env st) s s1"
    and "ok \<Longrightarrow> went env steps (noted (Reported st) s1) r" and "\<not> ok \<Longrightarrow> r = (Inl e, s1)"
  shows "went env (st # steps) s r"
proof (cases ok)
  case True
  then show ?thesis using runs_done [OF runs_one_done [OF assms(1)] assms(2)] by simp
next
  case False
  then show ?thesis using runs_stopped [OF runs_one_failed [OF assms(1)], of steps] assms(3) by simp
qed

lemma undo_edits_runs: "went env (map UndoEdit edits) s (undo_edits env edits s)"
proof (induction edits arbitrary: s)
  case Nil
  then show ?case by (simp add: runs_Nil)
next
  case (Cons edit edits)
  obtain ok s1 where step: "apply_path_edit env edit s = (ok, s1)" by force
  have "went env (UndoEdit edit # map UndoEdit edits) s (undo_edits env (edit # edits) s)"
    by (rule went_step [OF apply_path_edit_adds [OF step], where ok = ok and e = "EditFailed edit"])
      (simp_all add: step Cons.IH)
  then show ?case by simp
qed

lemma remove_entries_runs: "went env (map RemoveEntry es) s (remove_entries env es s)"
proof (induction es arbitrary: s)
  case Nil
  then show ?case by (simp add: runs_Nil)
next
  case (Cons e es)
  obtain ok s1 where step: "remove_path env (en_path e) s = (ok, s1)" by force
  have "adds (step_changes env (RemoveEntry e)) s s1" using remove_path_adds [OF step] by (simp add: step_changes_of)
  then have "went env (RemoveEntry e # map RemoveEntry es) s (remove_entries env (e # es) s)"
    by (rule went_step [where ok = ok and e = "RemovalFailed (en_path e)"]) (simp_all add: step Cons.IH)
  then show ?case by simp
qed

lemma remove_one_runs:
  assumes "\<And>q. step_changes env (mk q) = removal_changes env q"
  shows "went env (case p of Some q \<Rightarrow> [mk q] | None \<Rightarrow> []) s (remove_one env mk p s)"
proof (cases p)
  case None
  then show ?thesis by (simp add: remove_one_def runs_Nil)
next
  case (Some q)
  obtain ok s1 where step: "remove_path env q s = (ok, s1)" by force
  have "adds (step_changes env (mk q)) s s1" using remove_path_adds [OF step] by (simp add: assms)
  then have "went env [mk q] s (remove_one env mk p s)"
    by (rule went_step [where ok = ok and e = "RemovalFailed q"]) (simp_all add: step Some remove_one_def runs_Nil)
  then show ?thesis using Some by simp
qed

lemma then_run_runs:
  assumes "went env steps s r" "\<And>t. went env later t (f t)"
  shows "went env (steps @ later) s (then_run r f)"
proof (cases r)
  case (Pair res t)
  show ?thesis
  proof (cases res)
    case (Inl e)
    then show ?thesis using assms(1) Pair runs_stopped by (simp add: then_run_def)
  next
    case (Inr u)
    then have "runs_over env steps s True t" using assms(1) Pair by simp
    then show ?thesis using runs_done [OF _ assms(2)] Pair Inr by (simp add: then_run_def)
  qed
qed

lemma execute_plan_runs: "went env (plan_steps plan) s (execute_plan env plan s)"
  unfolding execute_plan_def plan_steps_def
  by (intro then_run_runs undo_edits_runs remove_entries_runs remove_one_runs step_changes_of)

section \<open>What the plan lists\<close>

definition planned_binary :: "plan_env \<Rightarrow> uninstall_options \<Rightarrow> string \<Rightarrow> bool" where
  "planned_binary env options p \<longleftrightarrow>
     \<not> uo_keep_binaries options \<and>
     (\<exists>exe bin_dir name. pe_exe env = Some exe \<and> (is_dev_binary_layout exe \<longrightarrow> uo_force_dev_binaries options) \<and>
        path_parent exe = Some bin_dir \<and> p = join_path bin_dir name \<and> is_rocm_install_entry_name name)"

definition planned_entry :: "plan_env \<Rightarrow> app_paths \<Rightarrow> uninstall_options \<Rightarrow> plan_entry \<Rightarrow> bool" where
  "planned_entry env paths options e \<longleftrightarrow>
     (case en_kind e of
        BinaryEntry \<Rightarrow> planned_binary env options (en_path e)
      | ConfigEntry \<Rightarrow> \<not> uo_keep_config options \<and> en_path e = entry_path (config_dir paths)
      | DataEntry \<Rightarrow> \<not> uo_keep_data options \<and> en_path e = entry_path (data_dir paths)
      | CacheEntry \<Rightarrow> \<not> uo_keep_cache options \<and> en_path e = entry_path (cache_dir paths))"

text \<open>An undone change of the search path: only for a folder in which nothing else was seen.\<close>

definition edits_justified :: "plan_env \<Rightarrow> uninstall_plan \<Rightarrow> bool" where
  "edits_justified env plan \<longleftrightarrow>
     (\<exists>exe bin_dir binaries entries.
        pe_exe env = Some exe \<and> path_parent exe = Some bin_dir \<and> collect_installed_binary_candidates env exe = Inr binaries \<and>
        entries = recorded_edits (pe_read env (join_path bin_dir PATH_EDIT_RECORD)) \<and>
        (up_path_edits plan \<noteq> [] \<longrightarrow> other_entries env bin_dir binaries = Some []) \<and>
        (\<forall>edit \<in> set (up_path_edits plan). \<exists>profile. edit = ShellProfile profile (block_exprs env bin_dir entries) \<and>
           profile \<in> set (profile_candidates env entries) \<and> profile_has_block env profile (block_exprs env bin_dir entries) \<noteq> Inr False) \<and>
        (\<forall>r. up_path_record plan = Some r \<longrightarrow> r = join_path bin_dir PATH_EDIT_RECORD \<and>
           (\<forall>profile \<in> set (profile_candidates env entries).
              profile_has_block env profile (block_exprs env bin_dir entries) = Inr False \<or>
              ShellProfile profile (block_exprs env bin_dir entries) \<in> set (up_path_edits plan))))"

lemma dedup_entries_set: "set (dedup_entries es) \<subseteq> set es"
  by (induction es rule: dedup_entries.induct) auto

lemma search_profile_edits:
  "es_edits (search_profile env exprs recorded found p) =
     es_edits found @ (if profile_has_block env p exprs = Inr True \<or>
       (\<exists>u. profile_has_block env p exprs = Inl u) \<and> contains_path recorded p then [ShellProfile p exprs] else [])"
  "es_unreadable (search_profile env exprs recorded found p) \<longleftrightarrow>
     es_unreadable found \<or> (\<exists>u. profile_has_block env p exprs = Inl u) \<and> \<not> contains_path recorded p"
  by (auto simp: search_profile_def split: sum.splits bool.splits)

definition finds :: "plan_env \<Rightarrow> string list \<Rightarrow> string list \<Rightarrow> edit_search \<Rightarrow> edit_search \<Rightarrow> bool" where
  "finds env exprs ps found after \<longleftrightarrow>
     set (es_edits after) \<subseteq> set (es_edits found) \<union> {ShellProfile p exprs |p. p \<in> set ps \<and> profile_has_block env p exprs \<noteq> Inr False} \<and>
     set (es_edits found) \<subseteq> set (es_edits after) \<and> (es_unreadable found \<longrightarrow> es_unreadable after) \<and>
     (\<not> es_unreadable after \<longrightarrow>
        (\<forall>p \<in> set ps. profile_has_block env p exprs = Inr False \<or> ShellProfile p exprs \<in> set (es_edits after)))"

lemma finds_one: "finds env exprs [p] found (search_profile env exprs recorded found p)"
  by (cases "profile_has_block env p exprs") (auto simp: finds_def search_profile_edits split: if_splits)

lemma finds_more:
  assumes first: "finds env exprs [p] found mid" and rest: "finds env exprs ps mid after"
  shows "finds env exprs (p # ps) found after"
  unfolding finds_def
proof (intro conjI impI ballI subsetI)
  let ?new = "\<lambda>ps. {ShellProfile q exprs |q. q \<in> set ps \<and> profile_has_block env q exprs \<noteq> Inr False}"
  have sub: "set (es_edits mid) \<subseteq> set (es_edits found) \<union> ?new [p]" "set (es_edits after) \<subseteq> set (es_edits mid) \<union> ?new ps"
    using first rest by (simp_all add: finds_def)
  have up: "set (es_edits found) \<subseteq> set (es_edits mid)" "set (es_edits mid) \<subseteq> set (es_edits after)"
    using first rest by (simp_all add: finds_def)
  show "x \<in> set (es_edits found) \<union> ?new (p # ps)" if "x \<in> set (es_edits after)" for x
    using that sub by auto
  show "x \<in> set (es_edits after)" if "x \<in> set (es_edits found)" for x using that up by blast
  show "es_unreadable after" if "es_unreadable found" using that first rest by (simp add: finds_def)
  fix q assume readable: "\<not> es_unreadable after" and q: "q \<in> set (p # ps)"
  have "\<not> es_unreadable mid" using readable rest by (auto simp: finds_def)
  then have "profile_has_block env p exprs = Inr False \<or> ShellProfile p exprs \<in> set (es_edits mid)"
    using first by (simp add: finds_def)
  moreover have "q \<in> set ps \<Longrightarrow> profile_has_block env q exprs = Inr False \<or> ShellProfile q exprs \<in> set (es_edits after)"
    using readable rest by (simp add: finds_def)
  ultimately show "profile_has_block env q exprs = Inr False \<or> ShellProfile q exprs \<in> set (es_edits after)"
    using q up(2) by auto
qed

lemma search_finds: "finds env exprs ps found (foldl (search_profile env exprs recorded) found ps)"
proof (induction ps arbitrary: found)
  case Nil
  then show ?case by (simp add: finds_def)
next
  case (Cons p ps)
  show ?case using finds_more [OF finds_one Cons.IH] by simp
qed

lemma collected_binaries:
  assumes "collect_installed_binary_candidates env exe = Inr binaries" "p \<in> set binaries"
  obtains bin_dir name where "path_parent exe = Some bin_dir" "p = join_path bin_dir name" "is_rocm_install_entry_name name"
  using assms by (auto simp: collect_installed_binary_candidates_def split: option.splits)

lemma path_edits_keep:
  "up_actions (plan_path_edits env bin_dir removed plan) = up_actions plan"
  "up_self_delete (plan_path_edits env bin_dir removed plan) = up_self_delete plan"
  by (simp_all add: plan_path_edits_def Let_def split: option.splits)

lemma path_edits_justified:
  assumes "pe_exe env = Some exe" "path_parent exe = Some bin_dir"
    and "collect_installed_binary_candidates env exe = Inr binaries"
    and "up_path_edits plan = []" "up_path_record plan = None"
  shows "edits_justified env (plan_path_edits env bin_dir binaries plan)"
proof -
  let ?kept_at = "join_path bin_dir PATH_EDIT_RECORD"
  let ?entries = "recorded_edits (pe_read env ?kept_at)"
  let ?exprs = "block_exprs env bin_dir ?entries"
  let ?cands = "profile_candidates env ?entries"
  let ?start = "\<lparr>es_edits = [], es_skipped = up_skipped plan, es_warnings = up_warnings plan, es_unreadable = False\<rparr>"
  let ?found = "foldl (search_profile env ?exprs (recorded_of ''profile'' ?entries)) ?start ?cands"
  let ?plan = "plan_path_edits env bin_dir binaries plan"
  have only: "set (es_edits ?found) \<subseteq> {ShellProfile p ?exprs |p. p \<in> set ?cands \<and> profile_has_block env p ?exprs \<noteq> Inr False}"
    using search_finds [of env ?exprs ?cands ?start "recorded_of ''profile'' ?entries"] by (simp add: finds_def)
  have all: "\<forall>p \<in> set ?cands. profile_has_block env p ?exprs = Inr False \<or> ShellProfile p ?exprs \<in> set (es_edits ?found)"
    if "\<not> es_unreadable ?found"
    using search_finds [of env ?exprs ?cands ?start "recorded_of ''profile'' ?entries"] that by (simp add: finds_def)
  have edits: "up_path_edits ?plan = [] \<or> up_path_edits ?plan = es_edits ?found \<and> other_entries env bin_dir binaries = Some []"
    using assms(4) by (simp add: plan_path_edits_def Let_def split: option.splits)
  have rec: "r = ?kept_at \<and> \<not> es_unreadable ?found \<and> up_path_edits ?plan = es_edits ?found" if "up_path_record ?plan = Some r" for r
    using that assms(4,5) by (simp add: plan_path_edits_def Let_def split: if_splits option.splits)
  show ?thesis
    unfolding edits_justified_def
  proof (rule exI [of _ exe], rule exI [of _ bin_dir], rule exI [of _ binaries], rule exI [of _ ?entries], intro conjI)
    show "up_path_edits ?plan \<noteq> [] \<longrightarrow> other_entries env bin_dir binaries = Some []" using edits by blast
    show "\<forall>edit \<in> set (up_path_edits ?plan). \<exists>profile. edit = ShellProfile profile ?exprs \<and> profile \<in> set ?cands \<and>
        profile_has_block env profile ?exprs \<noteq> Inr False"
      using edits only by auto
    show "\<forall>r. up_path_record ?plan = Some r \<longrightarrow> r = ?kept_at \<and>
        (\<forall>profile \<in> set ?cands. profile_has_block env profile ?exprs = Inr False \<or> ShellProfile profile ?exprs \<in> set (up_path_edits ?plan))"
      using rec all by metis
  qed (fact assms(1-3) refl)+
qed

lemma plan_root_keeps:
  assumes "plan_root env keep kind p plan = Inr plan'"
  shows "up_path_edits plan' = up_path_edits plan" "up_path_record plan' = up_path_record plan" "up_self_delete plan' = up_self_delete plan"
    and "\<forall>e \<in> set (up_actions plan'). e \<in> set (up_actions plan) \<or> \<not> keep \<and> en_kind e = kind \<and> en_path e = entry_path p"
  using assms by (auto simp: plan_root_def split: if_splits sum.splits option.splits dest: existing_entry_Some)

lemma binaries_planned:
  assumes "plan_installed_binaries options env no_removals = Inr plan"
  shows "\<forall>e \<in> set (up_actions plan). en_kind e = BinaryEntry \<and> planned_binary env options (en_path e)"
    and "up_self_delete plan = None"
    and "up_path_edits plan = [] \<and> up_path_record plan = None \<or> \<not> uo_keep_binaries options \<and> edits_justified env plan"
proof -
  have start: "up_actions no_removals = []" "up_self_delete no_removals = None" "up_path_edits no_removals = []"
    "up_path_record no_removals = None" by (simp_all add: no_removals_def)
  have "(\<forall>e \<in> set (up_actions plan). en_kind e = BinaryEntry \<and> planned_binary env options (en_path e)) \<and> up_self_delete plan = None \<and>
    (up_path_edits plan = [] \<and> up_path_record plan = None \<or> \<not> uo_keep_binaries options \<and> edits_justified env plan)"
  proof (cases "uo_keep_binaries options")
    case True
    then show ?thesis using assms start by (auto simp: plan_installed_binaries_def)
  next
    case keep: False
    then obtain exe where exe: "pe_exe env = Some exe"
      using assms by (auto simp: plan_installed_binaries_def split: option.splits)
    show ?thesis
    proof (cases "is_dev_binary_layout exe \<and> \<not> uo_force_dev_binaries options")
      case True
      then show ?thesis using assms keep exe start by (auto simp: plan_installed_binaries_def)
    next
      case False
      then obtain binaries where bins: "collect_installed_binary_candidates env exe = Inr binaries"
        using assms keep exe by (auto simp: plan_installed_binaries_def)
      let ?plan1 = "no_removals\<lparr>up_actions := map (\<lambda>p. \<lparr>en_kind = BinaryEntry, en_path = p\<rparr>)
        (filter (\<lambda>p. path_name p \<noteq> Some PATH_EDIT_RECORD) binaries)\<rparr>"
      obtain bin_dir where parent: "path_parent exe = Some bin_dir"
        using bins by (auto simp: collect_installed_binary_candidates_def split: option.splits)
      have plan: "plan = plan_path_edits env bin_dir binaries ?plan1"
        using assms keep exe False bins parent start by (auto simp: plan_installed_binaries_def Let_def)
      have "planned_binary env options p" if "p \<in> set binaries" for p
        using collected_binaries [OF bins that] keep exe False parent unfolding planned_binary_def by metis
      then show ?thesis
        using path_edits_justified [OF exe parent bins, of ?plan1] keep start unfolding plan
        by (auto simp: path_edits_keep)
    qed
  qed
  then show "\<forall>e \<in> set (up_actions plan). en_kind e = BinaryEntry \<and> planned_binary env options (en_path e)"
    "up_self_delete plan = None"
    "up_path_edits plan = [] \<and> up_path_record plan = None \<or> \<not> uo_keep_binaries options \<and> edits_justified env plan"
    by blast+
qed

section \<open>The promises\<close>


text \<open>The example: a program and its record in \<^verbatim>\<open>/b\<close>, a block in the profile the record names, and the settings.\<close>

definition ex_shell_profile :: string where
  "ex_shell_profile = concat (install_block PosixShell ''/b'')"

definition ex_plan_env :: plan_env where
  "ex_plan_env = \<lparr>pe_exe = Some ''/b/rocm'', pe_home = None,
     pe_stat = (\<lambda>p. if p = ''/c'' then StatLink else StatNotFound),
     pe_listing = Some [\<lparr>fe_name = ''rocm'', fe_text = True, fe_file = True\<rparr>, \<lparr>fe_name = PATH_EDIT_RECORD, fe_text = True, fe_file = True\<rparr>],
     pe_listing_again = Some [\<lparr>fe_name = ''rocm'', fe_text = True, fe_file = True\<rparr>],
     pe_read = (\<lambda>p. if p = ''/b/.rocm-cli-path-edit'' then Content (''profile /p'' @ [line_feed])
                 else if p = ''/p'' then Content ex_shell_profile else ReadNotFound),
     pe_canonical = Some, pe_exists = (\<lambda>p. False), pe_var = (\<lambda>v. None), pe_services = 0, pe_helper = None, pe_sessions = Some []\<rparr>"

definition ex_folders :: app_paths where
  "ex_folders = \<lparr>config_dir = ''/c/'', data_dir = ''/d'', cache_dir = ''/e''\<rparr>"

definition ex_options :: uninstall_options where
  "ex_options = \<lparr>uo_yes = False, uo_dry_run = False, uo_keep_binaries = False, uo_keep_config = False, uo_keep_data = True,
     uo_keep_cache = False, uo_force_dev_binaries = False\<rparr>"

definition ex_plan :: uninstall_plan where
  "ex_plan = \<lparr>up_actions = [\<lparr>en_kind = BinaryEntry, en_path = ''/b/rocm''\<rparr>, \<lparr>en_kind = ConfigEntry, en_path = ''/c''\<rparr>],
     up_skipped = [KeptByFlag DataEntry, NotPresent CacheEntry ''/e''], up_warnings = [],
     up_path_edits = [ShellProfile ''/p'' [''/b'']], up_path_record = Some ''/b/.rocm-cli-path-edit'', up_self_delete = None\<rparr>"

text \<open>The profile is rewritten and the settings are unlinked; then the removal of the program fails.\<close>

definition ex_run_env :: run_env where
  "ex_run_env = \<lparr>rx_stat = (\<lambda>n p. if p = ''/c'' then StatLink else if p = ''/b/rocm'' then StatFile else StatNotFound),
     rx_read = (\<lambda>n p. if p = ''/p'' then Some ex_shell_profile else None), rx_canonical = (\<lambda>n p. Some p), rx_done = (\<lambda>n. n < 9)\<rparr>"

definition ex_run_log :: "run_event list" where
  "ex_run_log = [TempCreated ''/p.rocm-uninstall.tmp'', Replaced ''/p'' [], Reported (UndoEdit (ShellProfile ''/p'' [''/b''])),
     Unlinked ''/c'', Reported (RemoveEntry \<lparr>en_kind = ConfigEntry, en_path = ''/c''\<rparr>)]"

lemma ex_plan_built: "build_uninstall_plan ex_plan_env ex_folders ex_options = Inr ex_plan"
  by code_simp

lemma ex_uninstall:
  "uninstall ex_plan_env ex_run_env ex_folders ex_options True (Some ''Yes'') \<lparr>rn_clock = 0, rn_log = []\<rparr> =
     (Stopped ex_plan (RemovalFailed ''/b/rocm''), \<lparr>rn_clock = 10, rn_log = ex_run_log\<rparr>)"
  by code_simp




section \<open>Where the comments say otherwise\<close>

text \<open>A name that is not UTF-8 is not counted among the other programs if it begins like an engine.\<close>

theorem undecodable_engine_not_counted:
  "other_entries (ex_plan_env\<lparr>pe_listing_again := Some [\<lparr>fe_name = ''rocm-engine-'' @ [CHR 0xFF], fe_text = False, fe_file = True\<rparr>]\<rparr>)
     ''/b'' [] = Some []"
  by code_simp

end
