(* ===== verification/Spec2Isabelle.thy ===== *)
theory Spec2Isabelle
  imports Prelude Terminal Quoting Version Gguf Jsonl_Store Proposals Proc_Lifecycle Runtime_Path
    Service_Record Registry Service_Readiness Service_Control Recovery Automation Watchers
    Watcher_Properties Autostart Serve_Port Launch Launch_Safety Launch_Properties
    F64 Gguf_Fit Gguf_Fit_Properties Service_Prune Protected_Path Tool_Policy Tool_Run Tool_Properties
    Tool_Approval Tool_Requests Profile_Block Uninstall Uninstall_Properties
begin

text \<open>
  A verification development for the ROCm command line and its daemon (a Rust workspace:
  \<^verbatim>\<open>apps/rocm\<close>, \<^verbatim>\<open>apps/rocmd\<close> and the crates under \<^verbatim>\<open>crates\<close>).

  \<^bold>\<open>The program and its parts.\<close> \<^verbatim>\<open>rocm\<close> installs ROCm runtimes and serves models through engines;
  \<^verbatim>\<open>rocmd\<close> supervises the services and runs the automation watchers; both, and the dashboard, meet
  in files: one manifest per service, the JSONL stores of events, audits and review proposals, the
  configuration, the state file of the daemon and the claim of its start. The model follows the
  parts that decide something about these files and about processes:

  \<^item> \<open>Terminal\<close>, \<open>Quoting\<close>, \<open>Version\<close>, \<open>Runtime_Path\<close>, \<open>Gguf\<close> are pure: stripping of terminal
    control sequences (\<^verbatim>\<open>rocm-core/src/terminal.rs\<close>), quoting for POSIX shells and PowerShell
    (\<^verbatim>\<open>quoting.rs\<close>, \<^verbatim>\<open>shell_quote.rs\<close>, \<^verbatim>\<open>ui/exec.rs\<close>), the version grammar of TheRock
    (\<^verbatim>\<open>therock/version.rs\<close>), path normalisation (\<^verbatim>\<open>runtime.rs\<close>) and the GGUF header reader
    (\<^verbatim>\<open>gguf.rs\<close>). \<open>Gguf_Fit\<close> (\<^verbatim>\<open>gguf_fit.rs\<close>) estimates from such a header whether a model fits in
    GPU memory, on the floating point of \<open>F64\<close>; \<open>Gguf_Fit_Properties\<close> is what the estimate promises.
  \<^item> \<open>Jsonl_Store\<close> is the storage engine (\<^verbatim>\<open>jsonl_store.rs\<close>): appending with repair of a torn tail,
    rotation, reading forwards and backwards. \<open>Proposals\<close> (\<^verbatim>\<open>automation.rs\<close>) keeps the review queue
    in it.
  \<^item> \<open>Proc_Lifecycle\<close> (\<^verbatim>\<open>proc_lifecycle.rs\<close>, \<^verbatim>\<open>process.rs\<close>) terminates a recorded process after
    verifying its identity.
  \<^item> \<open>Service_Record\<close> (\<^verbatim>\<open>service_record.rs\<close>, \<^verbatim>\<open>service_identity.rs\<close>) is the manifest of a service
    with its operations; \<open>Registry\<close> (\<^verbatim>\<open>persistence.rs\<close>, \<^verbatim>\<open>services_text.rs\<close>) the directory of
    manifests; \<open>Service_Readiness\<close> (\<^verbatim>\<open>endpoint_readiness.rs\<close>, \<^verbatim>\<open>managed_service_status.rs\<close>) the probe
    and the liveness refresh; \<open>Service_Control\<close> (\<^verbatim>\<open>rocmd/src/service.rs\<close>,
    \<^verbatim>\<open>rocm/src/service_control.rs\<close>) the two stops; \<open>Service_Prune\<close> (\<^verbatim>\<open>service_records.rs\<close>) the removal
    of records with their files, one by one and in bulk; \<open>Recovery\<close> (\<^verbatim>\<open>supervise.rs\<close>) the supervisor
    and the restart of a failed service.
  \<^item> \<open>Serve_Port\<close> (\<^verbatim>\<open>serve_port.rs\<close>) decides the port of a service. \<open>Launch\<close> (\<^verbatim>\<open>service_launch.rs\<close>,
    \<^verbatim>\<open>endpoint_keys.rs\<close>, \<^verbatim>\<open>serve_cmd.rs\<close>) is the launch of a background service: the transaction under
    the launch lock from the port to the published record, its undoing, the reuse of a live service,
    the endpoint key and the wait for readiness. \<open>Launch_Safety\<close> and \<open>Launch_Properties\<close> are what a
    launch keeps and claims.
  \<^item> \<open>Automation\<close> (\<^verbatim>\<open>config.rs\<close>, \<^verbatim>\<open>automation.rs\<close>, \<^verbatim>\<open>policy.rs\<close>) holds what the watchers share,
    \<open>Watchers\<close> the six watchers with their dispatch, the ticks of the daemon and the webhook
    (\<^verbatim>\<open>watchers.rs\<close>, \<^verbatim>\<open>watchers/*.rs\<close>, \<^verbatim>\<open>daemon.rs\<close>, \<^verbatim>\<open>webhook.rs\<close>), \<open>Watcher_Properties\<close> what they
    may and may not do.
  \<^item> \<open>Autostart\<close> (\<^verbatim>\<open>automations.rs\<close>, \<^verbatim>\<open>service_launch.rs\<close>, \<^verbatim>\<open>background_helper.rs\<close>, \<^verbatim>\<open>daemon.rs\<close>) is
    the protocol by which commands start the daemon and it leaves, as a step relation.
  \<^item> \<open>Protected_Path\<close> (\<^verbatim>\<open>runtime.rs\<close>) compares folders whatever their spelling and keeps an install out
    of those of the system. \<open>Tool_Policy\<close> (\<^verbatim>\<open>tool_policy.rs\<close>, \<^verbatim>\<open>rocm_argv.rs\<close>) judges the tool calls a
    model makes in a chat; \<open>Tool_Run\<close> is where they lead: the run of one call (\<^verbatim>\<open>chat/mcp_bridge.rs\<close>),
    the cards and approved runs of the dashboard (\<^verbatim>\<open>dash_seam.rs\<close>), the calls of an answer
    (\<^verbatim>\<open>chat/turn.rs\<close>) and the daemon's MCP server (\<^verbatim>\<open>mcp.rs\<close>, \<^verbatim>\<open>mcp_argv.rs\<close>). \<open>Tool_Properties\<close>
    compares the lists of what only reads, \<open>Tool_Approval\<close> follows a call from the card to the child,
    \<open>Tool_Requests\<close> bounds what a model may ask for and what the daemon does unasked.
  \<^item> \<open>Profile_Block\<close> is the block of the installer in a shell profile and its removal, \<open>Uninstall\<close> the
    plan of \<^verbatim>\<open>rocm uninstall\<close> and its execution on Unix (\<^verbatim>\<open>uninstall.rs\<close>, \<^verbatim>\<open>uninstall_plan.rs\<close>,
    \<^verbatim>\<open>confirm.rs\<close>), with what it does to the disk as a list of events; \<open>Uninstall_Properties\<close> is the order
    of a run and the bounds of a plan.

  \<open>Prelude\<close> holds what the code uses of Rust: words with saturating and checked arithmetic, strings
  as lists of bytes (characters in \<open>Terminal\<close> and \<open>Quoting\<close>), number parsing and printing, white
  space, orderings.

  \<^bold>\<open>How state and operations correspond to the code.\<close> A struct is a record, an enum a datatype, a
  machine integer a word of its width, a floating-point number the rational it stands for, a
  \<^verbatim>\<open>Result\<close> a sum with the error on the left, a map an
  association list in its order. A function that writes files takes the files and returns them; its
  name is the name in the source. Where a Rust function was too long for one definition, its blocks
  are definitions of their own, composed in the source's order. Byte strings stand for JSON texts;
  the JSON library is a parameter, with the law that what it wrote it reads back.

  \<^bold>\<open>What is concurrent.\<close> Three ways, by what the code promises. \<open>Proc_Lifecycle\<close> asks the operating
  system at instants: nothing is assumed of how two answers relate. \<open>Service_Control\<close>, \<open>Recovery\<close>
  and \<open>Watchers\<close> run one operation while others write: between a read and the write that depends
  on it there is a window, an arbitrary function on the registry; the clock, the disk and everything
  outside answer by a counter of readings. \<open>Autostart\<close> has all processes as one inductive step
  relation, with any number of commands and helpers, and named mishaps.

  \<^bold>\<open>What the lemmas show.\<close> Safety: nothing is signalled without a verified identity; a stop claims no
  more than was observed; a restart is guarded by the lock, the port, the stop marker and the
  endpoint key; automation acts only where the operator allowed it; no terminal control survives
  stripping; a launch never takes a port that a live service holds, and a failed one leaves neither a
  key nor a live record; a prune deletes only the files of records that are not in use and leftovers
  without a manifest; the verdict on a model never contradicts the figures beside it; nothing a model
  asks for changes anything before the operator approves, and what runs then is the line that was
  shown; an uninstall changes nothing unasked, then only what its plan lists, in an order that leaves
  the means to try again, and the plan lists only what an installation owns. Invariants: the fields a refresh and a supervisor may write; pending proposals are never
  lost and are unique per service; an enabled watcher always has its helper, and only one. Round
  trips: quoting, manifests, process status lines, headers, the block in a shell profile. Equivalences: backward and forward reads
  of a store, the two stops, the quoters, the comparison of folders with the walk along them, the two
  lists of commands that only read. Termination: the bounded waits and the tree walk always
  return; an idle helper can leave; a waiting \<^verbatim>\<open>serve\<close> ends exactly when the server serves or dies; the
  search for the largest context returns and is exact on every plausible sizing. Refinement: the GGUF reader against a writer of headers, the
  version comparison against the order of PEP 440. The interfaces between components are locales
  (\<open>terminator\<close>, \<open>review_queue\<close>), interpreted on the definitions of the code.

  \<^bold>\<open>Bounds and fuel.\<close> No model runs out of fuel in a theorem: loops are structural or carry a
  measure. The one fuel argument, of the backward reader of a store, is two more than the length of
  the file, and the proof of \<open>recent_records_agree\<close> shows that this is more than the lines it meets.
  The scan for a port goes over its 101 candidates. Two loops may not return and are partial functions
  whose value is then none: the wait for readiness, which has no deadline in the code, and the climb
  of the search for the largest context, which on wrapped sums does not end. The estimate is exact for
  hosts of at most \<open>2\<^sup>5\<^sup>8\<close> bytes and requests of at least 256 tokens; its own bound on a figure is \<open>2\<^sup>6\<^sup>0\<close>.

  \<^bold>\<open>Where the code is not what it means to be.\<close> Theorems state it as it is: typographic quotes in
  PowerShell (\<open>powershell_roundtrip\<close>), truncation behind a skipped value (\<open>truncation_unnoticed\<close>), lost
  updates of a manifest (\<open>supervised_update_lost\<close>), a stop confirmed while a restart has named no
  process (\<open>stop_confirmed_while_restarting\<close>), a stop request lost in a rollback
  (\<open>failed_restart_forgets_stop_request\<close>), an unreadable proposals store that ends the daemon
  (\<open>unreadable_proposals_end_thermal_watch\<close>), a service that starves the recovery of others
  (\<open>failing_service_starves_the_rest\<close>, \<open>refused_recovery_not_stamped\<close>), a healthy service on localhost
  that is restarted (\<open>healthy_localhost_service_recovered\<close>), a claim left behind by a shutdown
  (\<open>shutdown_leaves_a_claim\<close>), an endpoint key that a waiting \<^verbatim>\<open>serve\<close> orphans
  (\<open>waiting_serve_orphans_key\<close>), a header whose estimate never returns
  (\<open>corrupt_header_search_never_ends\<close>), a corrupt manifest that a prune deletes
  (\<open>corrupt_manifest_pruned\<close>), a home folder that leaves the system unprotected
  (\<open>root_home_unprotects\<close>), an approved call that is not the one shown (\<open>approved_call_differs\<close>), a
  command that counts as read-only and starts the background helper (\<open>read_only_call_starts_helper\<close>),
  commands that count as read-only and cannot be run (\<open>read_only_commands_not_run\<close>), a program of
  another's that does not keep a folder on the search path (\<open>undecodable_engine_not_counted\<close>), and lines
  of the user that go with a block (\<open>unended_marker_takes_lines\<close>).

  \<^bold>\<open>Not modelled, and why.\<close> Process spawning, sockets, HTTP, the package managers and everything
  else that only calls the outside: its answers are arguments. The dashboard and the collectors,
  whose logic is presentation; how the assistant plans a request and words an answer. The restart of
  the command line, the readiness answers of the catalog and the driver plans: program logic that
  could be modelled in the same style. Of a launch, what comes before it (the resolution of engine,
  model, runtime and GPU) is an argument, and the attached mode, which streams logs, is left out. The
  Windows branches of process termination, launch and uninstall. The readings that the GPU watcher compares with
  its thresholds are arguments. The retry loops of readers that race a rotation without the store's lock.
\<close>

end
